(* ===== verification/Prelude.thy ===== *)
theory Prelude
  imports
    Main
    "HOL-Library.Word"
    "HOL-Library.List_Lexorder"
    "HOL-Library.Multiset"
    "HOL-Library.Signed_Division"
begin

text \<open>
  Shared vocabulary of the development: Go's fixed-width integers as mathematical integers
  with the wrap-around written out, byte strings and the big- and little-endian codecs of
  \<^verbatim>\<open>encoding/binary\<close> and \<^verbatim>\<open>math/big\<close>, and results of fallible functions as sums.

  Go's \<^verbatim>\<open>/\<close> and \<^verbatim>\<open>%\<close> truncate towards zero: they are \<open>sdiv\<close> and \<open>smod\<close> of
  HOL-Library.Signed_Division. Conversions between integer types are explicit calls of
  \<open>i32\<close>, \<open>u32\<close>, \<open>i64\<close> and \<open>u64\<close>.
\<close>

section \<open>Collections\<close>

named_theorems wrap_simps \<open>wrap-around of fixed-width integers that stays in range\<close>
named_theorems codec_simps \<open>round trips and lengths of byte codecs\<close>
named_theorems layout_defs \<open>definitions of script and record layouts\<close>

section \<open>Fixed-width integers\<close>

definition u32 :: "int \<Rightarrow> int" where
  "u32 x = x mod 2 ^ 32"

definition u64 :: "int \<Rightarrow> int" where
  "u64 x = x mod 2 ^ 64"

definition i32 :: "int \<Rightarrow> int" where
  "i32 x = (x + 2 ^ 31) mod 2 ^ 32 - 2 ^ 31"

definition i64 :: "int \<Rightarrow> int" where
  "i64 x = (x + 2 ^ 63) mod 2 ^ 64 - 2 ^ 63"

abbreviation is_u32 :: "int \<Rightarrow> bool" where
  "is_u32 x \<equiv> 0 \<le> x \<and> x < 2 ^ 32"

abbreviation is_u64 :: "int \<Rightarrow> bool" where
  "is_u64 x \<equiv> 0 \<le> x \<and> x < 2 ^ 64"

abbreviation is_i32 :: "int \<Rightarrow> bool" where
  "is_i32 x \<equiv> - (2 ^ 31) \<le> x \<and> x < 2 ^ 31"

abbreviation is_i64 :: "int \<Rightarrow> bool" where
  "is_i64 x \<equiv> - (2 ^ 63) \<le> x \<and> x < 2 ^ 63"

lemma u32_id [wrap_simps]: "is_u32 x \<Longrightarrow> u32 x = x"
  by (simp add: u32_def)

lemma u64_id [wrap_simps]: "is_u64 x \<Longrightarrow> u64 x = x"
  by (simp add: u64_def)

lemma sdiv_nonneg: "0 \<le> (a::int) \<Longrightarrow> 0 < b \<Longrightarrow> a sdiv b = a div b"
  by (auto simp: signed_divide_int_def sgn_if)

lemma smod_nonneg: "0 \<le> (a::int) \<Longrightarrow> 0 < b \<Longrightarrow> a smod b = a mod b"
  by (auto simp: signed_modulo_int_def sgn_if)

lemma i32_id [wrap_simps]: "is_i32 x \<Longrightarrow> i32 x = x"
  by (simp add: i32_def)

lemma i64_id [wrap_simps]: "is_i64 x \<Longrightarrow> i64 x = x"
  by (simp add: i64_def)

lemma u32_range [simp]: "is_u32 (u32 x)"
  by (simp add: u32_def)

lemma u64_range [simp]: "is_u64 (u64 x)"
  by (simp add: u64_def)

lemma i32_range [simp]: "is_i32 (i32 x)"
proof -
  have "0 \<le> (x + 2 ^ 31) mod 2 ^ 32" and "(x + 2 ^ 31) mod 2 ^ 32 < 2 ^ 32"
    by simp_all
  then show ?thesis by (simp add: i32_def)
qed

lemma i64_range [simp]: "is_i64 (i64 x)"
proof -
  have "0 \<le> (x + 2 ^ 63) mod 2 ^ 64" and "(x + 2 ^ 63) mod 2 ^ 64 < 2 ^ 64"
    by simp_all
  then show ?thesis by (simp add: i64_def)
qed

text \<open>A signed value survives a round trip through the unsigned type of the same width.\<close>

lemma i64_u64 [simp]: "i64 (u64 x) = i64 x"
  by (simp add: i64_def u64_def mod_add_left_eq)

lemma u64_i64 [simp]: "u64 (i64 x) = u64 x"
  by (simp add: i64_def u64_def mod_diff_left_eq)

lemma i32_u32 [simp]: "i32 (u32 x) = i32 x"
  by (simp add: i32_def u32_def mod_add_left_eq)

lemma u32_i32 [simp]: "u32 (i32 x) = u32 x"
  by (simp add: i32_def u32_def mod_diff_left_eq)

lemma i64_add_left [simp]: "i64 (i64 x + y) = i64 (x + y)"
proof -
  have eq: "i64 x + y + 2 ^ 63 = (x + 2 ^ 63) mod 2 ^ 64 + y"
    by (simp add: i64_def)
  have "i64 (i64 x + y) = (i64 x + y + 2 ^ 63) mod 2 ^ 64 - 2 ^ 63"
    by (rule i64_def)
  also have "\<dots> = (x + 2 ^ 63 + y) mod 2 ^ 64 - 2 ^ 63"
    by (simp only: eq mod_add_left_eq)
  also have "\<dots> = i64 (x + y)"
    unfolding i64_def by (simp only: ac_simps)
  finally show ?thesis .
qed

lemma i64_add_right [simp]: "i64 (x + i64 y) = i64 (x + y)"
  using i64_add_left [of y x] by (simp add: add.commute)

lemma i64_range_num [simp]: "- 9223372036854775808 \<le> i64 x" "i64 x < 9223372036854775808"
  using i64_range [of x] by simp_all

lemma i32_range_num [simp]: "- 2147483648 \<le> i32 x" "i32 x < 2147483648"
  using i32_range [of x] by simp_all

lemma u32_range_num [simp]: "0 \<le> u32 x" "u32 x < 4294967296"
  using u32_range [of x] by simp_all

lemma u64_range_num [simp]: "0 \<le> u64 x" "u64 x < 18446744073709551616"
  using u64_range [of x] by simp_all

lemma i64_nonneg: "0 \<le> x \<Longrightarrow> x < 9223372036854775808 \<Longrightarrow> i64 x = x"
  by (rule i64_id) simp

lemma i32_of_u32: "is_u32 x \<Longrightarrow> i32 x = (if x < 2147483648 then x else x - 4294967296)"
proof (cases "x < 2147483648")
  case False
  assume "is_u32 x"
  then have "i32 (x - 4294967296) = x - 4294967296" using False by (intro i32_id) simp
  moreover have "i32 (x - 4294967296) = i32 x"
    using minus_mod_self2 [of "x + 2 ^ 31" "2 ^ 32"] by (simp add: i32_def algebra_simps)
  ultimately show ?thesis using False by simp
qed (simp add: i32_id)

lemma i32_positive: "is_u32 x \<Longrightarrow> 0 \<le> i32 x \<Longrightarrow> i32 x = x"
  using i32_of_u32 [of x] by (simp split: if_splits)

section \<open>Bytes\<close>

type_synonym byte = "8 word"
type_synonym bytes = "byte list"

text \<open>\<open>xs[a:b]\<close> of Go, for indices in range.\<close>

definition slice :: "nat \<Rightarrow> nat \<Rightarrow> 'a list \<Rightarrow> 'a list" where
  "slice a b xs = take (b - a) (drop a xs)"

lemma length_slice [simp]: "length (slice a b xs) = min (b - a) (length xs - a)"
  by (simp add: slice_def min.commute)

lemma slice_append_right [simp]: "length xs \<le> a \<Longrightarrow> slice a b (xs @ ys) = slice (a - length xs) (b - length xs) ys"
  by (simp add: slice_def)

lemma slice_append_left: "b \<le> length xs \<Longrightarrow> slice a b (xs @ ys) = slice a b xs"
  by (simp add: slice_def)

lemma slice_exact [simp]: "n = length xs \<Longrightarrow> slice 0 n (xs @ ys) = xs"
  by (simp add: slice_def)

lemma slice_all [simp]: "length xs \<le> n \<Longrightarrow> slice 0 n xs = xs"
  by (simp add: slice_def)

lemma slice_Cons_numeral [simp]:
  "slice (numeral k) b (x # xs) = slice (numeral k - 1) (b - 1) xs"
  by (cases b) (simp_all add: slice_def drop_Cons')

lemma slice_Suc_Cons [simp]: "slice (Suc k) b (x # xs) = slice k (b - 1) xs"
  by (cases b) (simp_all add: slice_def)

lemma slice_0_Cons [simp]: "0 < b \<Longrightarrow> slice 0 b (x # xs) = x # slice 0 (b - 1) xs"
  by (cases b) (simp_all add: slice_def)

lemma slice_0_0 [simp]: "slice 0 0 xs = []"
  by (simp add: slice_def)

lemma slice_split: "a \<le> b \<Longrightarrow> b \<le> c \<Longrightarrow> slice a c xs = slice a b xs @ slice b c xs"
  using take_add [of "b - a" "c - b" "drop a xs"] by (simp add: slice_def)

lemma slice_step: "a < b \<Longrightarrow> a < length s \<Longrightarrow> slice a b s = s ! a # slice (a + 1) b s"
  by (simp add: slice_def Cons_nth_drop_Suc [symmetric] take_Cons')

lemma slice_empty: "b \<le> a \<Longrightarrow> slice a b s = []"
  by (simp add: slice_def)

lemma nth_0_1_slice: "2 \<le> length xs \<Longrightarrow> slice 0 2 xs = [xs ! 0, xs ! 1]"
  by (cases xs; cases "tl xs") (auto simp: slice_def)

primrec be_bytes :: "nat \<Rightarrow> int \<Rightarrow> bytes" where
  "be_bytes 0 x = []"
| "be_bytes (Suc n) x = be_bytes n (x div 256) @ [word_of_int x]"

definition be_val :: "bytes \<Rightarrow> int" where
  "be_val bs = foldl (\<lambda>a b. a * 256 + uint b) 0 bs"

definition le_bytes :: "nat \<Rightarrow> int \<Rightarrow> bytes" where
  "le_bytes n x = rev (be_bytes n x)"

definition le_val :: "bytes \<Rightarrow> int" where
  "le_val bs = be_val (rev bs)"

lemma length_be_bytes [simp]: "length (be_bytes n x) = n"
  by (induction n arbitrary: x) auto

lemma length_le_bytes [simp]: "length (le_bytes n x) = n"
  by (simp add: le_bytes_def)

lemma be_val_Nil [simp]: "be_val [] = 0"
  by (simp add: be_val_def)

lemma be_val_snoc [simp]: "be_val (bs @ [b]) = be_val bs * 256 + uint b"
  by (simp add: be_val_def)

lemma be_val_bounds: "0 \<le> be_val bs \<and> be_val bs < 256 ^ length bs"
proof (induction bs rule: rev_induct)
  case Nil
  then show ?case by simp
next
  case (snoc b bs)
  have "0 \<le> uint b" and "uint b < 256"
    using uint_lt2p [of b] by simp_all
  with snoc show ?case by simp
qed

lemma be_val_nonneg [simp]: "0 \<le> be_val bs"
  using be_val_bounds by blast

lemma be_val_less: "length bs = n \<Longrightarrow> be_val bs < 256 ^ n"
  using be_val_bounds by blast

lemma uint_word_of_int_8 [simp]: "uint (word_of_int x :: byte) = x mod 256"
  by (simp add: uint_word_of_int)

lemma be_val_be_bytes [codec_simps]: "be_val (be_bytes n x) = x mod 256 ^ n"
proof (induction n arbitrary: x)
  case 0
  then show ?case by simp
next
  case (Suc n)
  have "x mod (256 * 256 ^ n) = 256 * (x div 256 mod 256 ^ n) + x mod 256"
    by (simp add: zmod_zmult2_eq)
  with Suc show ?case by simp
qed

lemma be_bytes_be_val [codec_simps]: "length bs = n \<Longrightarrow> be_bytes n (be_val bs) = bs"
proof (induction bs arbitrary: n rule: rev_induct)
  case Nil
  then show ?case by simp
next
  case (snoc b bs)
  have "0 \<le> uint b" and "uint b < 256"
    using uint_lt2p [of b] by simp_all
  then have d: "(be_val bs * 256 + uint b) div 256 = be_val bs"
    by simp
  have w: "(word_of_int (be_val bs * 256 + uint b) :: byte) = b"
    by (rule word_uint_eqI)
      (simp only: uint_word_of_int_8, use \<open>0 \<le> uint b\<close> \<open>uint b < 256\<close> in simp)
  from snoc.prems obtain m where "n = Suc m" and "length bs = m"
    by auto
  with snoc.IH d w show ?case by simp
qed

lemma le_val_le_bytes [codec_simps]: "le_val (le_bytes n x) = x mod 256 ^ n"
  by (simp add: le_val_def le_bytes_def codec_simps)

lemma le_bytes_le_val [codec_simps]: "length bs = n \<Longrightarrow> le_bytes n (le_val bs) = bs"
  by (simp add: le_val_def le_bytes_def codec_simps)

lemma le_val_nonneg [simp]: "0 \<le> le_val bs"
  by (simp add: le_val_def)

lemma le_val_less: "length bs = n \<Longrightarrow> le_val bs < 256 ^ n"
  by (simp add: le_val_def be_val_less)

lemma le_val_Nil [simp]: "le_val [] = 0"
  by (simp add: le_val_def)

lemma le_val_Cons: "le_val (b # bs) = uint b + 256 * le_val bs"
  by (simp add: le_val_def)

lemma le_val_snoc: "le_val (bs @ [b]) = le_val bs + 256 ^ length bs * uint b"
  by (induction bs) (simp_all add: le_val_Cons algebra_simps)

lemma byte_less: "uint (b :: byte) < 256"
  using uint_lt2p [of b] by simp

lemma be_bytes_inj:
  assumes "be_bytes n x = be_bytes n y" and "0 \<le> x" "x < 256 ^ n" and "0 \<le> y" "y < 256 ^ n"
  shows "x = y"
proof -
  have "x mod 256 ^ n = y mod 256 ^ n"
    using arg_cong [OF assms(1), of be_val] by (simp add: codec_simps)
  with assms show ?thesis by simp
qed

lemma be_u32 [codec_simps]: "be_val (be_bytes 4 x) = u32 x"
  by (simp add: codec_simps u32_def)

lemma be_u64 [codec_simps]: "be_val (be_bytes 8 x) = u64 x"
  by (simp add: codec_simps u64_def)

section \<open>Results of fallible functions\<close>

text \<open>
  \<open>ErrorCode\<close> lists the rule violations of \<^verbatim>\<open>blockchain/error.go\<close>; \<open>RuleError\<close> carries one,
  \<open>AssertError\<close> is the internal consistency error of the same package, \<open>PlainError\<close> an
  error made by \<^verbatim>\<open>errors.New\<close> or \<^verbatim>\<open>fmt.Errorf\<close>, and \<open>Panic\<close> a run-time panic. The texts of
  the messages are not modelled.
\<close>

datatype (plugins only: code) ErrorCode =
    ErrDuplicateBlock | ErrBlockTooBig | ErrBlockWeightTooHigh | ErrBlockVersionTooOld
  | ErrInvalidTime | ErrTimeTooOld | ErrTimeTooNew | ErrDifficultyTooLow
  | ErrUnexpectedDifficulty | ErrHighHash | ErrBadMerkleRoot | ErrBadCheckpoint
  | ErrForkTooOld | ErrCheckpointTimeTooOld | ErrNoTransactions | ErrNoTxInputs
  | ErrNoTxOutputs | ErrTxTooBig | ErrBadTxOutValue | ErrDuplicateTxInputs | ErrBadTxInput
  | ErrMissingTxOut | ErrUnfinalizedTx | ErrDuplicateTx | ErrOverwriteTx | ErrImmatureSpend
  | ErrSpendTooHigh | ErrBadFees | ErrTooManySigOps | ErrFirstTxNotCoinbase
  | ErrMultipleCoinbases | ErrBadCoinbaseScriptLen | ErrBadCoinbaseValue
  | ErrMissingCoinbaseHeight | ErrBadCoinbaseHeight | ErrScriptMalformed
  | ErrScriptValidation | ErrUnexpectedWitness | ErrInvalidWitnessCommitment
  | ErrWitnessCommitmentMismatch | ErrPreviousBlockUnknown | ErrInvalidAncestorBlock
  | ErrPrevBlockNotBest | ErrTimewarpAttack | ErrKnownInvalidBlock | ErrBadDrawSettlementTx
  | ErrSettlementTxWithoutVDFResult | ErrMissingDrawSettlementTx | ErrBadVDFResultTx

datatype failure = RuleError ErrorCode | AssertError | PlainError | Panic

type_synonym 'a result = "failure + 'a"

text \<open>Sequencing: \<open>rbind m f\<close> is \<^verbatim>\<open>x, err := m; if err != nil { return err }; f(x)\<close>.\<close>

definition rbind :: "'a result \<Rightarrow> ('a \<Rightarrow> 'b result) \<Rightarrow> 'b result" where
  "rbind m f = (case m of Inl e \<Rightarrow> Inl e | Inr x \<Rightarrow> f x)"

lemma rbind_Inl [simp]: "rbind (Inl e) f = Inl e"
  by (simp add: rbind_def)

lemma rbind_Inr [simp]: "rbind (Inr x) f = f x"
  by (simp add: rbind_def)

lemma rbind_eq_Inr: "rbind m f = Inr y \<longleftrightarrow> (\<exists>x. m = Inr x \<and> f x = Inr y)"
  by (cases m) auto

lemma rbind_eq_Inl: "rbind m f = Inl e \<longleftrightarrow> m = Inl e \<or> (\<exists>x. m = Inr x \<and> f x = Inl e)"
  by (cases m) auto

end
