(* ===== verification/Tape.thy ===== *)
theory Tape
  imports Prelude
begin

text \<open>
  Winner selection of the Falcon Draw (\<^verbatim>\<open>blockchain/tape.go\<close>): the draw maps the entropy to a
  position on a tape of \<open>WinMultiplier\<close> times the staked tokens; a position on a token wins
  the pool for the wallet that owns it, any other position rolls the pool over.
\<close>

section \<open>Data\<close>

record StakeEntry =
  se_WalletHash :: bytes
  se_TokenCount :: int
  se_TotalValue :: int

record WinnerEntry =
  we_WalletHash :: bytes
  we_Prize :: int

record DrawResult =
  dr_JackpotWon :: bool
  dr_Winners :: "WinnerEntry list"
  dr_Rollover :: int
  dr_WinningPos :: int
  dr_TotalTokens :: int

definition DrawResult_zero :: DrawResult where
  "DrawResult_zero =
     \<lparr>dr_JackpotWon = False, dr_Winners = [], dr_Rollover = 0, dr_WinningPos = 0, dr_TotalTokens = 0\<rparr>"

definition WinMultiplier :: int where
  "WinMultiplier = 10"

text \<open>The reserved all-zero wallet hash (\<^verbatim>\<open>stakescript.go\<close>).\<close>

definition JackpotPoolWalletHash :: bytes where
  "JackpotPoolWalletHash = replicate 20 0"

record cumulativeEntry =
  ce_walletHash :: bytes
  ce_totalValue :: int
  ce_start :: int
  ce_end :: int

section \<open>Operations\<close>

text \<open>
  \<open>big.Int.Mod\<close> is the Euclidean modulus and panics when the divisor is zero; the result
  fits an \<^verbatim>\<open>int64\<close> because the divisor does.
\<close>

definition SelectWinnerPos :: "bytes \<Rightarrow> int \<Rightarrow> int result" where
  "SelectWinnerPos entropy totalTokens =
     (if totalTokens = 0 then Inl Panic else Inr (i64 (be_val entropy mod \<bar>totalTokens\<bar>)))"

text \<open>The loop of \<^verbatim>\<open>buildSortedDepositList\<close> over the sorted entries, with its running sum.\<close>

primrec cumulate :: "int \<Rightarrow> StakeEntry list \<Rightarrow> cumulativeEntry list" where
  "cumulate cumulative [] = []"
| "cumulate cumulative (s # rest) =
     \<lparr>ce_walletHash = se_WalletHash s, ce_totalValue = se_TotalValue s,
      ce_start = cumulative, ce_end = i64 (cumulative + se_TokenCount s)\<rparr>
     # cumulate (i64 (cumulative + se_TokenCount s)) rest"

text \<open>
  \<^verbatim>\<open>sort.Slice\<close> orders the entries by wallet hash. It does not fix the order of entries with
  equal hashes; the model takes the stable order, and \<open>findWinner_any_sort\<close> below shows that
  the winner is the same for every order that sorts the entries.
\<close>

definition buildSortedDepositList :: "StakeEntry list \<Rightarrow> cumulativeEntry list" where
  "buildSortedDepositList real = cumulate 0 (sort_key se_WalletHash real)"

text \<open>
  The binary search loop, over the bounds \<open>lo\<close> and \<open>hi\<close> (\<open>hi\<close> starts at -1 when there are no
  entries). The interval shrinks at every step, because the truncated mean of two integers
  lies between them.
\<close>

lemma mean_between: "lo \<le> hi \<Longrightarrow> lo \<le> (lo + hi) sdiv 2 \<and> (lo + hi) sdiv 2 \<le> (hi::int)"
  by (auto simp: signed_divide_int_def sgn_if)

function findWinner_loop ::
  "cumulativeEntry list \<Rightarrow> int \<Rightarrow> int \<Rightarrow> int \<Rightarrow> cumulativeEntry option" where
  "findWinner_loop entries pos lo hi =
     (if lo \<le> hi then
        let mid = (lo + hi) sdiv 2 in
        if pos < ce_start (entries ! nat mid) then findWinner_loop entries pos lo (mid - 1)
        else if pos \<ge> ce_end (entries ! nat mid) then findWinner_loop entries pos (mid + 1) hi
        else Some (entries ! nat mid)
      else None)"
  by pat_completeness auto
termination
proof (relation "measure (\<lambda>(entries, pos, lo, hi). nat (hi - lo + 1))", goal_cases)
  case 1
  show ?case by simp
next
  case (2 entries pos lo hi mid)
  then show ?case using mean_between [of lo hi] by simp
next
  case (3 entries pos lo hi mid)
  then show ?case using mean_between [of lo hi] by simp
qed

declare findWinner_loop.simps [simp del]

definition findWinner :: "cumulativeEntry list \<Rightarrow> int \<Rightarrow> cumulativeEntry option" where
  "findWinner entries pos = findWinner_loop entries pos 0 (int (length entries) - 1)"

definition realStakes :: "StakeEntry list \<Rightarrow> StakeEntry list" where
  "realStakes stakes = filter (\<lambda>s. se_WalletHash s \<noteq> JackpotPoolWalletHash) stakes"

definition RunDraw :: "StakeEntry list \<Rightarrow> bytes \<Rightarrow> DrawResult result" where
  "RunDraw stakes seed =
     (if stakes = [] then Inr DrawResult_zero
      else
        let realStakes = realStakes stakes;
            totalPool = foldl (\<lambda>a s. i64 (a + se_TotalValue s)) 0 stakes;
            totalRealTokens = foldl (\<lambda>a s. i64 (a + se_TokenCount s)) 0 realStakes
        in
        if totalPool \<le> 0 then Inr DrawResult_zero
        else if realStakes = [] then Inr (DrawResult_zero\<lparr>dr_Rollover := totalPool\<rparr>)
        else rbind (SelectWinnerPos seed (i64 (totalRealTokens * WinMultiplier))) (\<lambda>extendedPos.
          if extendedPos \<ge> totalRealTokens then
            Inr (DrawResult_zero\<lparr>dr_Rollover := totalPool, dr_TotalTokens := totalRealTokens\<rparr>)
          else
            case findWinner (buildSortedDepositList realStakes) extendedPos of
              None \<Rightarrow>
                Inr (DrawResult_zero\<lparr>dr_Rollover := totalPool, dr_TotalTokens := totalRealTokens\<rparr>)
            | Some winner \<Rightarrow>
                Inr (DrawResult_zero\<lparr>dr_JackpotWon := True,
                       dr_Winners := [\<lparr>we_WalletHash = ce_walletHash winner, we_Prize = totalPool\<rparr>],
                       dr_WinningPos := extendedPos, dr_TotalTokens := totalRealTokens\<rparr>)))"

definition P2PKHScript :: "bytes \<Rightarrow> bytes" where
  "P2PKHScript hash = [0x76, 0xa9, 0x14] @ hash @ [0x88, 0xac]"

section \<open>The tape as a list\<close>

text \<open>
  The abstract tape lists one wallet hash per token. Sorting the entries by hash and laying
  their tokens out is sorting the tape, so the tape does not depend on how entries with
  equal hashes were ordered.
\<close>

definition tape :: "StakeEntry list \<Rightarrow> bytes list" where
  "tape xs = concat (map (\<lambda>s. replicate (nat (se_TokenCount s)) (se_WalletHash s)) xs)"

definition tokens :: "StakeEntry list \<Rightarrow> int" where
  "tokens xs = sum_list (map se_TokenCount xs)"

definition pool_value :: "StakeEntry list \<Rightarrow> int" where
  "pool_value xs = sum_list (map se_TotalValue xs)"

definition tokens_of :: "bytes \<Rightarrow> StakeEntry list \<Rightarrow> int" where
  "tokens_of w xs = tokens (filter (\<lambda>s. se_WalletHash s = w) xs)"


lemma tape_simps [simp]:
  "tape [] = []"
  "tape (s # xs) = replicate (nat (se_TokenCount s)) (se_WalletHash s) @ tape xs"
  "tape (xs @ ys) = tape xs @ tape ys"
  by (simp_all add: tape_def)

lemma tokens_simps [simp]:
  "tokens [] = 0"
  "tokens (s # xs) = se_TokenCount s + tokens xs"
  "tokens (xs @ ys) = tokens xs + tokens ys"
  by (simp_all add: tokens_def)

lemma pool_value_simps [simp]:
  "pool_value [] = 0"
  "pool_value (s # xs) = se_TotalValue s + pool_value xs"
  by (simp_all add: pool_value_def)

definition nonneg_tokens :: "StakeEntry list \<Rightarrow> bool" where
  "nonneg_tokens xs \<longleftrightarrow> (\<forall>s \<in> set xs. 0 \<le> se_TokenCount s)"

lemma nonneg_tokens_simps [simp]:
  "nonneg_tokens []"
  "nonneg_tokens (s # xs) \<longleftrightarrow> 0 \<le> se_TokenCount s \<and> nonneg_tokens xs"
  by (simp_all add: nonneg_tokens_def)

lemma tokens_nonneg: "nonneg_tokens xs \<Longrightarrow> 0 \<le> tokens xs"
  by (induction xs) auto

lemma length_tape: "nonneg_tokens xs \<Longrightarrow> int (length (tape xs)) = tokens xs"
  by (induction xs) auto

lemma count_tape: "nonneg_tokens xs \<Longrightarrow> int (count (mset (tape xs)) w) = tokens_of w xs"
  by (induction xs) (auto simp: tokens_of_def)

lemma set_tape: "x \<in> set (tape xs) \<Longrightarrow> \<exists>s \<in> set xs. se_WalletHash s = x"
  by (auto simp: tape_def)

lemma mset_tape_cong: "mset xs = mset ys \<Longrightarrow> mset (tape xs) = mset (tape ys)"
proof -
  have "mset (tape zs) = sum_mset (image_mset (\<lambda>s. mset (replicate (nat (se_TokenCount s)) (se_WalletHash s))) (mset zs))" for zs
    by (induction zs) simp_all
  then show "mset xs = mset ys \<Longrightarrow> mset (tape xs) = mset (tape ys)"
    by simp
qed

lemma tokens_cong: "mset xs = mset ys \<Longrightarrow> tokens xs = tokens ys"
  unfolding tokens_def by (metis mset_map sum_mset_sum_list)

lemma sorted_tape: "sorted (map se_WalletHash xs) \<Longrightarrow> sorted (tape xs)"
  by (induction xs) (auto simp: sorted_append dest!: set_tape)

lemma tape_any_sort:
  assumes "mset ys = mset xs" and "sorted (map se_WalletHash ys)"
  shows "tape ys = sort (tape xs)"
  using mset_tape_cong [OF assms(1)] sorted_tape [OF assms(2)]
  by (metis properties_for_sort)

section \<open>The cumulative list\<close>

lemma length_cumulate [simp]: "length (cumulate c xs) = length xs"
  by (induction xs arbitrary: c) auto

lemma cumulate_nth:
  assumes "nonneg_tokens xs" and "0 \<le> c" and "c + tokens xs < 2 ^ 63" and "i < length xs"
  shows "cumulate c xs ! i =
    \<lparr>ce_walletHash = se_WalletHash (xs ! i), ce_totalValue = se_TotalValue (xs ! i),
     ce_start = c + tokens (take i xs), ce_end = c + tokens (take (Suc i) xs)\<rparr>"
  using assms
proof (induction xs arbitrary: c i)
  case Nil
  then show ?case by simp
next
  case (Cons s xs)
  have w: "i64 (c + se_TokenCount s) = c + se_TokenCount s"
    using Cons.prems tokens_nonneg [of xs] by (intro i64_id) auto
  show ?case
  proof (cases i)
    case 0
    with w show ?thesis by simp
  next
    case (Suc j)
    with Cons.prems w Cons.IH [of "c + se_TokenCount s" j] show ?thesis
      by (simp add: add.assoc)
  qed
qed

lemma tokens_take_mono:
  assumes "nonneg_tokens xs" and "i \<le> j"
  shows "tokens (take i xs) \<le> tokens (take j xs)"
proof -
  have "take j xs = take i xs @ take (j - i) (drop i xs)"
    using assms(2) by (metis le_add_diff_inverse take_add)
  moreover have "nonneg_tokens (take (j - i) (drop i xs))"
    using assms(1) unfolding nonneg_tokens_def by (meson in_set_dropD in_set_takeD)
  ultimately show ?thesis using tokens_nonneg by simp
qed

text \<open>The position \<open>p\<close> of the tape lies in the range of exactly the entry that laid it out.\<close>

lemma tape_nth_in_range:
  assumes "nonneg_tokens xs" and "i < length xs"
    and "tokens (take i xs) \<le> p" and "p < tokens (take (Suc i) xs)"
  shows "tape xs ! nat p = se_WalletHash (xs ! i)"
proof -
  have nn: "nonneg_tokens (take i xs)" and nn': "0 \<le> se_TokenCount (xs ! i)"
    using assms(1,2) unfolding nonneg_tokens_def by (auto dest: in_set_takeD)
  have split: "xs = take i xs @ xs ! i # drop (Suc i) xs"
    using assms(2) by (rule id_take_nth_drop)
  have len: "length (tape (take i xs)) = nat (tokens (take i xs))"
    using length_tape [OF nn] by simp
  have "take (Suc i) xs = take i xs @ [xs ! i]"
    using assms(2) by (rule take_Suc_conv_app_nth)
  then have hi: "p < tokens (take i xs) + se_TokenCount (xs ! i)"
    using assms(4) by simp
  have "tape xs ! nat p = (tape (take i xs) @ tape (xs ! i # drop (Suc i) xs)) ! nat p"
    using split by (metis tape_simps(3))
  also have "\<dots> = tape (xs ! i # drop (Suc i) xs) ! (nat p - nat (tokens (take i xs)))"
    using assms(3) tokens_nonneg [OF nn] by (simp add: nth_append len)
  also have "\<dots> = se_WalletHash (xs ! i)"
    using hi assms(3) tokens_nonneg [OF nn] nn' by (auto simp: nth_append)
  finally show ?thesis .
qed

section \<open>The binary search\<close>

definition covers :: "cumulativeEntry \<Rightarrow> int \<Rightarrow> bool" where
  "covers e pos \<longleftrightarrow> ce_start e \<le> pos \<and> pos < ce_end e"

definition ranges_ok :: "cumulativeEntry list \<Rightarrow> bool" where
  "ranges_ok es \<longleftrightarrow> (\<forall>j < length es. ce_start (es ! j) \<le> ce_end (es ! j)) \<and>
     (\<forall>j < length es. \<forall>i < j. ce_end (es ! i) \<le> ce_start (es ! j))"

lemma findWinner_loop_sound:
  "findWinner_loop es pos lo hi = Some e \<Longrightarrow> 0 \<le> lo \<Longrightarrow> hi < int (length es) \<Longrightarrow>
   \<exists>i < length es. e = es ! i \<and> covers e pos"
proof (induction es pos lo hi rule: findWinner_loop.induct)
  case (1 es pos lo hi)
  define mid where "mid = (lo + hi) sdiv 2"
  show ?case
  proof (cases "lo \<le> hi")
    case False
    with "1.prems" show ?thesis by (simp add: findWinner_loop.simps)
  next
    case True
    then have m: "lo \<le> mid" "mid \<le> hi"
      using mean_between [of lo hi] by (simp_all add: mid_def)
    note unf = findWinner_loop.simps [of es pos lo hi, folded mid_def]
    consider "pos < ce_start (es ! nat mid)"
      | "ce_start (es ! nat mid) \<le> pos" "ce_end (es ! nat mid) \<le> pos"
      | "covers (es ! nat mid) pos"
      by (force simp: covers_def)
    then show ?thesis
    proof cases
      case 1
      with True m "1.prems" "1.IH"(1) [OF True mid_def] show ?thesis by (simp add: unf)
    next
      case 2
      with True m "1.prems" "1.IH"(2) [OF True mid_def] show ?thesis by (simp add: unf)
    next
      case 3
      with True m "1.prems" have "e = es ! nat mid" and "nat mid < length es"
        by (simp_all add: unf covers_def)
      with 3 show ?thesis by blast
    qed
  qed
qed

lemma ranges_ok_start_mono:
  assumes "ranges_ok es" and "i < length es" and "covers (es ! i) pos" and "m < length es"
  shows "m < i \<Longrightarrow> ce_end (es ! m) \<le> pos" and "i < m \<Longrightarrow> pos < ce_start (es ! m)"
  using assms unfolding ranges_ok_def covers_def by (meson order_trans order_less_le_trans)+

lemma findWinner_loop_complete:
  "ranges_ok es \<Longrightarrow> covers (es ! i) pos \<Longrightarrow> i < length es \<Longrightarrow> 0 \<le> lo \<Longrightarrow> hi < int (length es) \<Longrightarrow>
   lo \<le> int i \<Longrightarrow> int i \<le> hi \<Longrightarrow> findWinner_loop es pos lo hi = Some (es ! i)"
proof (induction es pos lo hi rule: findWinner_loop.induct)
  case (1 es pos lo hi)
  define mid where "mid = (lo + hi) sdiv 2"
  have lohi: "lo \<le> hi" using "1.prems" by simp
  then have m: "lo \<le> mid" "mid \<le> hi"
    using mean_between [of lo hi] by (simp_all add: mid_def)
  then have mlen: "nat mid < length es" using "1.prems" by linarith
  note mono = ranges_ok_start_mono [OF "1.prems"(1) "1.prems"(3) "1.prems"(2) mlen]
  note unf = findWinner_loop.simps [of es pos lo hi, folded mid_def]
  consider "nat mid < i" | "i < nat mid" | "i = nat mid" by linarith
  then show ?case
  proof cases
    case 1
    then have "ce_end (es ! nat mid) \<le> pos" by (rule mono)
    moreover from this have "\<not> pos < ce_start (es ! nat mid)"
      using "1.prems"(1) mlen by (force simp: ranges_ok_def)
    moreover have "mid + 1 \<le> int i" using 1 m "1.prems" by linarith
    ultimately show ?thesis
      using lohi m "1.prems" "1.IH"(2) [OF lohi mid_def] by (simp add: unf)
  next
    case 2
    then have "pos < ce_start (es ! nat mid)" by (rule mono)
    moreover have "int i \<le> mid - 1" using 2 by linarith
    ultimately show ?thesis
      using lohi m "1.prems" "1.IH"(1) [OF lohi mid_def] by (simp add: unf)
  next
    case 3
    with "1.prems"(2) show ?thesis using lohi by (simp add: unf covers_def)
  qed
qed

lemma ranges_ok_cumulate:
  assumes "nonneg_tokens xs" and "tokens xs < 2 ^ 63"
  shows "ranges_ok (cumulate 0 xs)"
proof -
  have nth: "i < length xs \<Longrightarrow> ce_start (cumulate 0 xs ! i) = tokens (take i xs) \<and>
      ce_end (cumulate 0 xs ! i) = tokens (take (Suc i) xs)" for i
    using cumulate_nth [of xs 0 i] assms by simp
  then show ?thesis
    unfolding ranges_ok_def using tokens_take_mono [OF assms(1)] by (simp add: Suc_leI)
qed

text \<open>
  The search finds an entry for exactly the positions of the tape, and that entry carries
  the hash written there.
\<close>

lemma ex_range:
  assumes "nonneg_tokens xs" and "0 \<le> p" and "p < tokens xs"
  shows "\<exists>i < length xs. tokens (take i xs) \<le> p \<and> p < tokens (take (Suc i) xs)"
  using assms
proof (induction xs arbitrary: p)
  case Nil
  then show ?case by simp
next
  case (Cons s xs)
  show ?case
  proof (cases "p < se_TokenCount s")
    case True
    with Cons.prems show ?thesis by (intro exI [of _ 0]) simp
  next
    case False
    with Cons.prems Cons.IH [of "p - se_TokenCount s"] obtain i where
      "i < length xs" "tokens (take i xs) \<le> p - se_TokenCount s"
      "p - se_TokenCount s < tokens (take (Suc i) xs)" by auto
    then show ?thesis by (intro exI [of _ "Suc i"]) simp
  qed
qed

lemma findWinner_cumulate:
  assumes "nonneg_tokens xs" and "tokens xs < 2 ^ 63" and "0 \<le> pos"
  shows "map_option ce_walletHash (findWinner (cumulate 0 xs) pos) =
    (if pos < tokens xs then Some (tape xs ! nat pos) else None)"
proof (cases "pos < tokens xs")
  case True
  then obtain i where i: "i < length xs" "tokens (take i xs) \<le> pos" "pos < tokens (take (Suc i) xs)"
    using ex_range [OF assms(1,3)] by blast
  then have "covers (cumulate 0 xs ! i) pos"
    using cumulate_nth [of xs 0 i] assms by (simp add: covers_def)
  then have "findWinner (cumulate 0 xs) pos = Some (cumulate 0 xs ! i)"
    unfolding findWinner_def
    using ranges_ok_cumulate [OF assms(1,2)] i(1) by (intro findWinner_loop_complete) auto
  then show ?thesis
    using True i tape_nth_in_range [OF assms(1) i] cumulate_nth [of xs 0 i] assms by simp
next
  case False
  have "findWinner (cumulate 0 xs) pos = None"
  proof (rule ccontr)
    assume "findWinner (cumulate 0 xs) pos \<noteq> None"
    then obtain i where i: "i < length xs" and "covers (cumulate 0 xs ! i) pos"
      using findWinner_loop_sound [of "cumulate 0 xs" pos 0 "int (length xs) - 1"]
      by (auto simp: findWinner_def)
    then have "pos < tokens (take (Suc i) xs)"
      using cumulate_nth [of xs 0 i] assms by (simp add: covers_def)
    also have "\<dots> \<le> tokens xs"
      using tokens_take_mono [OF assms(1), of "Suc i" "length xs"] i by simp
    finally show False using False by simp
  qed
  with False show ?thesis by simp
qed

section \<open>The draw\<close>

lemma foldl_i64: "foldl (\<lambda>a s. i64 (a + f s)) (i64 c) xs = i64 (c + sum_list (map f xs))"
  by (induction xs arbitrary: c) (simp_all add: add.assoc)

lemma foldl_i64_0: "foldl (\<lambda>a s. i64 (a + f s)) 0 xs = i64 (sum_list (map f xs))"
  using foldl_i64 [of f 0 xs] by (simp add: wrap_simps)

text \<open>
  The draws that validation lets through: every real entry stakes a non-negative number of
  tokens, at least one token is staked, and neither the extended tape nor the pool
  overflows an \<^verbatim>\<open>int64\<close>.
\<close>

definition draw_ok :: "StakeEntry list \<Rightarrow> bool" where
  "draw_ok stakes \<longleftrightarrow> nonneg_tokens (realStakes stakes) \<and> 0 < tokens (realStakes stakes) \<and>
     tokens (realStakes stakes) * WinMultiplier < 2 ^ 63 \<and>
     0 < pool_value stakes \<and> pool_value stakes < 2 ^ 63"

definition sorted_tape_of :: "StakeEntry list \<Rightarrow> bytes list" where
  "sorted_tape_of stakes = sort (tape (realStakes stakes))"

lemma nonneg_tokens_sort [simp]: "nonneg_tokens (sort_key f xs) = nonneg_tokens xs"
  by (simp add: nonneg_tokens_def)

lemma findWinner_sorted:
  assumes "nonneg_tokens xs" and "tokens xs < 2 ^ 63" and "0 \<le> pos"
    and "mset ys = mset xs" and "sorted (map se_WalletHash ys)"
  shows "map_option ce_walletHash (findWinner (cumulate 0 ys) pos) =
    (if pos < tokens xs then Some (sort (tape xs) ! nat pos) else None)"
proof -
  have "set ys = set xs" using assms(4) by (metis set_mset_mset)
  then have "nonneg_tokens ys" using assms(1) by (simp add: nonneg_tokens_def)
  then show ?thesis
    using findWinner_cumulate [of ys pos] assms tokens_cong [OF assms(4)]
      tape_any_sort [OF assms(4,5)] by simp
qed

lemma RunDraw_closed:
  fixes seed :: bytes
  assumes "draw_ok stakes"
  defines "T \<equiv> tokens (realStakes stakes)" and "pos \<equiv> be_val seed mod (tokens (realStakes stakes) * WinMultiplier)"
  shows "RunDraw stakes seed = Inr
    (if pos < T then
       \<lparr>dr_JackpotWon = True,
        dr_Winners = [\<lparr>we_WalletHash = sorted_tape_of stakes ! nat pos, we_Prize = pool_value stakes\<rparr>],
        dr_Rollover = 0, dr_WinningPos = pos, dr_TotalTokens = T\<rparr>
     else
       \<lparr>dr_JackpotWon = False, dr_Winners = [], dr_Rollover = pool_value stakes,
        dr_WinningPos = 0, dr_TotalTokens = T\<rparr>)"
proof -
  have ok: "nonneg_tokens (realStakes stakes)" "0 < T" "T * WinMultiplier < 2 ^ 63"
    "0 < pool_value stakes" "pool_value stakes < 2 ^ 63"
    using assms(1) by (simp_all add: draw_ok_def T_def)
  have ne: "stakes \<noteq> []" "realStakes stakes \<noteq> []"
    using ok(2) by (auto simp: T_def realStakes_def)
  have pool: "foldl (\<lambda>a s. i64 (a + se_TotalValue s)) 0 stakes = pool_value stakes"
    using ok by (simp add: foldl_i64_0 pool_value_def [symmetric] wrap_simps)
  have tok: "foldl (\<lambda>a s. i64 (a + se_TokenCount s)) 0 (realStakes stakes) = T"
    using ok by (simp add: foldl_i64_0 tokens_def [symmetric] T_def [symmetric] wrap_simps WinMultiplier_def)
  have ext: "i64 (T * WinMultiplier) = T * WinMultiplier"
    using ok by (simp add: wrap_simps WinMultiplier_def)
  have pos: "0 \<le> pos" "pos < T * WinMultiplier"
    using ok by (simp_all add: pos_def T_def [symmetric] WinMultiplier_def)
  then have "i64 pos = pos" using ok(3) by (simp add: wrap_simps)
  then have sel: "SelectWinnerPos seed (T * WinMultiplier) = Inr pos"
    using ok(2) by (simp add: SelectWinnerPos_def pos_def T_def [symmetric] WinMultiplier_def)
  have "map_option ce_walletHash (findWinner (buildSortedDepositList (realStakes stakes)) pos) =
      (if pos < T then Some (sorted_tape_of stakes ! nat pos) else None)"
    unfolding buildSortedDepositList_def sorted_tape_of_def T_def
    using ok pos(1) by (intro findWinner_sorted) (simp_all add: T_def WinMultiplier_def)
  then have win: "pos < T \<Longrightarrow> \<exists>e. findWinner (buildSortedDepositList (realStakes stakes)) pos = Some e \<and>
      ce_walletHash e = sorted_tape_of stakes ! nat pos"
    by (auto simp: map_option_eq_Some)
  show ?thesis
  proof (cases "pos < T")
    case True
    then obtain e where "findWinner (buildSortedDepositList (realStakes stakes)) pos = Some e"
      and "ce_walletHash e = sorted_tape_of stakes ! nat pos" using win by blast
    with True ne ok pool tok ext sel show ?thesis
      by (simp add: RunDraw_def Let_def DrawResult_zero_def)
  next
    case False
    with ne ok pool tok ext sel show ?thesis
      by (simp add: RunDraw_def Let_def DrawResult_zero_def)
  qed
qed

definition wins :: "bytes \<Rightarrow> DrawResult result \<Rightarrow> bool" where
  "wins w r \<longleftrightarrow> (case r of Inl _ \<Rightarrow> False
     | Inr d \<Rightarrow> dr_JackpotWon d \<and> map we_WalletHash (dr_Winners d) = [w])"

lemma wins_iff:
  assumes "draw_ok stakes" and "0 \<le> e" and "e < tokens (realStakes stakes) * WinMultiplier"
  shows "wins w (RunDraw stakes (be_bytes 32 e)) \<longleftrightarrow>
    e < tokens (realStakes stakes) \<and> sorted_tape_of stakes ! nat e = w"
proof -
  have "e < 256 ^ 32" using assms by (simp add: draw_ok_def)
  with assms(2) have "be_val (be_bytes 32 e) = e"
    by (simp add: codec_simps)
  then show ?thesis
    using assms RunDraw_closed [OF assms(1), of "be_bytes 32 e"]
    by (simp add: wins_def)
qed

lemma card_positions: "card {e::int. 0 \<le> e \<and> e < int (length xs) \<and> xs ! nat e = w} = count (mset xs) w"
proof -
  have "bij_betw nat {e::int. 0 \<le> e \<and> e < int (length xs) \<and> xs ! nat e = w} {i. i < length xs \<and> xs ! i = w}"
    by (rule bij_betw_byWitness [where f' = int]) auto
  then have "card {e::int. 0 \<le> e \<and> e < int (length xs) \<and> xs ! nat e = w} = card {i. i < length xs \<and> xs ! i = w}"
    by (rule bij_betw_same_card)
  also have "\<dots> = count (mset xs) w"
    by (simp add: count_mset count_list_eq_length_filter length_filter_conv_card eq_commute)
  finally show ?thesis .
qed

section \<open>Specification of the draw\<close>

text \<open>
  The draw as a function of the bag of staked tokens (one element per token, named by its
  owner), the pool and the entropy. It mentions neither the order of the stakes nor the
  search.
\<close>

definition draw_spec :: "bytes multiset \<Rightarrow> int \<Rightarrow> int \<Rightarrow> DrawResult" where
  "draw_spec bag pool entropy =
     (let T = int (size bag); pos = entropy mod (T * WinMultiplier) in
      if pos < T then
        \<lparr>dr_JackpotWon = True,
         dr_Winners = [\<lparr>we_WalletHash = sorted_list_of_multiset bag ! nat pos, we_Prize = pool\<rparr>],
         dr_Rollover = 0, dr_WinningPos = pos, dr_TotalTokens = T\<rparr>
      else
        \<lparr>dr_JackpotWon = False, dr_Winners = [], dr_Rollover = pool,
         dr_WinningPos = 0, dr_TotalTokens = T\<rparr>)"

lemma RunDraw_spec:
  assumes "draw_ok stakes"
  shows "RunDraw stakes seed = Inr (draw_spec (mset (tape (realStakes stakes))) (pool_value stakes) (be_val seed))"
proof -
  have "int (length (tape (realStakes stakes))) = tokens (realStakes stakes)"
    using assms by (simp add: length_tape draw_ok_def)
  then show ?thesis
    using RunDraw_closed [OF assms, of seed] by (simp add: draw_spec_def sorted_tape_of_def Let_def)
qed

lemma mset_realStakes: "mset xs = mset ys \<Longrightarrow> mset (realStakes xs) = mset (realStakes ys)"
  by (simp add: realStakes_def)

lemma pool_value_cong: "mset xs = mset ys \<Longrightarrow> pool_value xs = pool_value ys"
  unfolding pool_value_def by (metis mset_map sum_mset_sum_list)

lemma draw_ok_cong:
  assumes "mset xs = mset ys" and "draw_ok xs"
  shows "draw_ok ys"
proof -
  have "set (realStakes ys) = set (realStakes xs)"
    using mset_realStakes [OF assms(1)] by (metis set_mset_mset)
  then show ?thesis
    using assms(2) tokens_cong [OF mset_realStakes [OF assms(1)]] pool_value_cong [OF assms(1)]
    by (simp add: draw_ok_def nonneg_tokens_def)
qed

text \<open>Two wallets with three and two tokens and a carried-over balance, used by the witnesses.\<close>

definition sample_stakes :: "StakeEntry list" where
  "sample_stakes =
     [\<lparr>se_WalletHash = replicate 20 9, se_TokenCount = 3, se_TotalValue = 300\<rparr>,
      \<lparr>se_WalletHash = JackpotPoolWalletHash, se_TokenCount = 0, se_TotalValue = 40\<rparr>,
      \<lparr>se_WalletHash = replicate 20 4, se_TokenCount = 2, se_TotalValue = 200\<rparr>]"

lemma replicate_20_neq [simp]: "replicate 20 (a::byte) = replicate 20 b \<longleftrightarrow> a = b"
  by (simp add: replicate_eq_replicate)

lemma sample_stakes_facts [simp]:
  "realStakes sample_stakes =
     [\<lparr>se_WalletHash = replicate 20 9, se_TokenCount = 3, se_TotalValue = 300\<rparr>,
      \<lparr>se_WalletHash = replicate 20 4, se_TokenCount = 2, se_TotalValue = 200\<rparr>]"
  "pool_value sample_stakes = 540"
  "draw_ok sample_stakes"
  by (simp_all add: sample_stakes_def realStakes_def JackpotPoolWalletHash_def draw_ok_def WinMultiplier_def)

section \<open>Properties\<close>

text \<open>
  C1. Fairness. Over the \<open>WinMultiplier\<close> times \<open>T\<close> equally likely positions of the entropy,
  where \<open>T\<close> is the number of staked tokens, a wallet wins the draw for exactly as many
  positions as it has tokens, however its tokens are split over stake entries.
\<close>
theorem RunDraw_fair:
  assumes "draw_ok stakes"
  shows "int (card {e. 0 \<le> e \<and> e < tokens (realStakes stakes) * WinMultiplier \<and>
    wins w (RunDraw stakes (be_bytes 32 e))}) = tokens_of w (realStakes stakes)"
proof -
  have nn: "nonneg_tokens (realStakes stakes)" and T: "0 < tokens (realStakes stakes)"
    using assms by (simp_all add: draw_ok_def)
  then have len: "int (length (sorted_tape_of stakes)) = tokens (realStakes stakes)"
    by (simp add: sorted_tape_of_def length_tape)
  have "{e. 0 \<le> e \<and> e < tokens (realStakes stakes) * WinMultiplier \<and> wins w (RunDraw stakes (be_bytes 32 e))}
      = {e. 0 \<le> e \<and> e < int (length (sorted_tape_of stakes)) \<and> sorted_tape_of stakes ! nat e = w}"
    using wins_iff [OF assms] T unfolding len by (auto simp: WinMultiplier_def)
  then have "card {e. 0 \<le> e \<and> e < tokens (realStakes stakes) * WinMultiplier \<and>
      wins w (RunDraw stakes (be_bytes 32 e))} = count (mset (tape (realStakes stakes))) w"
    by (simp only: card_positions) (simp add: sorted_tape_of_def)
  then show ?thesis using count_tape [OF nn] by simp
qed

theorem RunDraw_fair_witness:
  "card {e. 0 \<le> e \<and> e < 50 \<and> wins (replicate 20 9) (RunDraw sample_stakes (be_bytes 32 e))} = 3"
  using RunDraw_fair [of sample_stakes "replicate 20 9"]
  by (simp add: tokens_of_def WinMultiplier_def)

text \<open>
  C2. Refinement. On every draw that validation lets through, \<^verbatim>\<open>RunDraw\<close> returns (it neither
  panics in the modular reduction nor reaches its \<open>Should never happen\<close> branch) and its
  result is the one of the specification: the entropy modulo ten times the tokens selects a
  position; a position below the number of tokens wins the whole pool for the owner of that
  token in the sorted bag of tokens, and any other position rolls the whole pool over.
\<close>
theorem RunDraw_refines:
  assumes "draw_ok stakes"
  shows "RunDraw stakes seed =
    Inr (draw_spec (mset (tape (realStakes stakes))) (pool_value stakes) (be_val seed))"
  by (rule RunDraw_spec [OF assms])

theorem RunDraw_refines_witness:
  "RunDraw sample_stakes (be_bytes 32 3) =
     Inr (draw_spec (mset (tape (realStakes sample_stakes))) (pool_value sample_stakes) 3)
   \<and> dr_JackpotWon (draw_spec (mset (tape (realStakes sample_stakes))) (pool_value sample_stakes) 3)"
  using RunDraw_refines [of sample_stakes "be_bytes 32 3"]
  by (simp add: codec_simps draw_spec_def WinMultiplier_def)

text \<open>
  C3. Order independence. The result of the draw depends only on the bag of stakes: two
  nodes that hold the same stakes in different orders settle the draw identically.
\<close>
theorem RunDraw_order_independent:
  assumes "draw_ok stakes" and "mset stakes = mset stakes'"
  shows "RunDraw stakes seed = RunDraw stakes' seed"
proof -
  have "mset (tape (realStakes stakes)) = mset (tape (realStakes stakes'))"
    by (intro mset_tape_cong mset_realStakes assms(2))
  then show ?thesis
    using RunDraw_spec [OF assms(1)] RunDraw_spec [OF draw_ok_cong [OF assms(2,1)]]
      pool_value_cong [OF assms(2)] by simp
qed

theorem RunDraw_order_independent_witness:
  "RunDraw sample_stakes (be_bytes 32 1) = RunDraw (rev sample_stakes) (be_bytes 32 1)"
  by (rule RunDraw_order_independent) simp_all

text \<open>
  The choice left to \<^verbatim>\<open>sort.Slice\<close> is immaterial: whatever sorted order it gives to entries
  with the same wallet hash, the binary search over the resulting ranges names the same
  winner, the owner of the token at that position of the sorted tape.
\<close>
lemma findWinner_any_sort:
  assumes "nonneg_tokens xs" and "tokens xs < 2 ^ 63" and "0 \<le> pos" and "pos < tokens xs"
    and "mset ys = mset xs" and "sorted (map se_WalletHash ys)"
  shows "map_option ce_walletHash (findWinner (cumulate 0 ys) pos) = Some (sort (tape xs) ! nat pos) \<and>
    map_option ce_walletHash (findWinner (cumulate 0 ys) pos) =
      map_option ce_walletHash (findWinner (buildSortedDepositList xs) pos)"
  using findWinner_sorted [OF assms(1-3,5,6)] findWinner_sorted [OF assms(1-3), of "sort_key se_WalletHash xs"]
    assms(4) by (simp del: map_option_eq_Some add: buildSortedDepositList_def)

text \<open>
  C4. Conservation. Whatever the stakes and the seed, a draw that returns pays out and rolls
  over, together, exactly the pool (the \<^verbatim>\<open>int64\<close> sum of all entries) when it is positive and
  nothing otherwise; it never does both, and there is at most one winner.
\<close>
theorem RunDraw_conserves:
  assumes "RunDraw stakes seed = Inr d"
  shows "sum_list (map we_Prize (dr_Winners d)) + dr_Rollover d = max 0 (i64 (pool_value stakes)) \<and>
    (dr_JackpotWon d \<longleftrightarrow> length (dr_Winners d) = 1) \<and> (\<not> dr_JackpotWon d \<longleftrightarrow> dr_Winners d = []) \<and>
    (dr_JackpotWon d \<longrightarrow> dr_Rollover d = 0)"
  using assms
  by (auto simp: RunDraw_def Let_def foldl_i64_0 pool_value_def [symmetric] DrawResult_zero_def
      rbind_eq_Inr max_def i64_id [of 0] split: if_splits option.splits)

theorem RunDraw_conserves_witness:
  "\<exists>d. RunDraw sample_stakes (be_bytes 32 3) = Inr d \<and>
     sum_list (map we_Prize (dr_Winners d)) + dr_Rollover d = 540"
proof -
  obtain d where d: "RunDraw sample_stakes (be_bytes 32 3) = Inr d"
    using RunDraw_spec [of sample_stakes] by simp
  then show ?thesis using RunDraw_conserves [OF d] by (simp add: wrap_simps)
qed

end
