(* ===== verification/WireCodec.thy ===== *)
theory WireCodec
  imports Prelude
begin

text \<open>
  The primitive encodings of the wire protocol (\<^verbatim>\<open>wire/common.go\<close>) and the interface every
  encoding of the protocol satisfies. A reader consumes a prefix of a byte stream; a writer
  appends bytes, and the errors of the underlying writer are not modelled. The scratch
  buffers of the code carry no information between calls and have no counterpart here,
  except for the script buffer: readers take the number of bytes left in it.
\<close>

section \<open>Primitive readers and writers\<close>

definition ReadFull :: "nat \<Rightarrow> bytes \<Rightarrow> (bytes \<times> bytes) result" where
  "ReadFull n r = (if length r < n then Inl PlainError else Inr (take n r, drop n r))"

definition ReadVarIntBuf :: "bytes \<Rightarrow> (int \<times> bytes) result" where
  "ReadVarIntBuf r =
     rbind (ReadFull 1 r) (\<lambda>(buf, r).
       let discriminant = hd buf in
       if discriminant = 0xff then
         rbind (ReadFull 8 r) (\<lambda>(buf, r).
           let rv = le_val buf in
           if rv < 0x100000000 then Inl PlainError else Inr (rv, r))
       else if discriminant = 0xfe then
         rbind (ReadFull 4 r) (\<lambda>(buf, r).
           let rv = le_val buf in
           if rv < 0x10000 then Inl PlainError else Inr (rv, r))
       else if discriminant = 0xfd then
         rbind (ReadFull 2 r) (\<lambda>(buf, r).
           let rv = le_val buf in
           if rv < 0xfd then Inl PlainError else Inr (rv, r))
       else Inr (uint discriminant, r))"

definition WriteVarIntBuf :: "int \<Rightarrow> bytes" where
  "WriteVarIntBuf val =
     (if val < 0xfd then le_bytes 1 val
      else if val \<le> 0xffff then 0xfd # le_bytes 2 val
      else if val \<le> 0xffffffff then 0xfe # le_bytes 4 val
      else 0xff # le_bytes 8 val)"

definition VarIntSerializeSize :: "int \<Rightarrow> int" where
  "VarIntSerializeSize val =
     (if val < 0xfd then 1 else if val \<le> 0xffff then 3 else if val \<le> 0xffffffff then 5 else 9)"

definition ReadVarBytesBuf :: "int \<Rightarrow> bytes \<Rightarrow> (bytes \<times> bytes) result" where
  "ReadVarBytesBuf maxAllowed r =
     rbind (ReadVarIntBuf r) (\<lambda>(count, r).
       if count > maxAllowed then Inl PlainError else ReadFull (nat count) r)"

definition WriteVarBytesBuf :: "bytes \<Rightarrow> bytes" where
  "WriteVarBytesBuf bs = WriteVarIntBuf (int (length bs)) @ bs"

text \<open>
  The loop all list readers share: read \<open>n\<close> elements, giving back after each one the part of
  the script buffer it did not use.
\<close>

primrec read_many ::
  "(int \<Rightarrow> bytes \<Rightarrow> ('a \<times> bytes) result) \<Rightarrow> ('a \<Rightarrow> int) \<Rightarrow> nat \<Rightarrow> int \<Rightarrow> bytes \<Rightarrow> ('a list \<times> bytes) result" where
  "read_many dec slab 0 s r = Inr ([], r)"
| "read_many dec slab (Suc n) s r =
     rbind (dec s r) (\<lambda>(x, r).
       rbind (read_many dec slab n (s - slab x) r) (\<lambda>(xs, r). Inr (x # xs, r)))"

definition write_many :: "('a \<Rightarrow> bytes) \<Rightarrow> 'a list \<Rightarrow> bytes" where
  "write_many enc xs = concat (map enc xs)"

section \<open>Encodings\<close>

text \<open>
  An encoding: the reader undoes the writer on every admissible value for which the script
  buffer has room, whatever follows in the stream; and it accepts nothing but what the
  writer produces, so a value has only one encoding.
\<close>

locale codec =
  fixes enc :: "'a \<Rightarrow> bytes" and dec :: "int \<Rightarrow> bytes \<Rightarrow> ('a \<times> bytes) result"
    and ok :: "'a \<Rightarrow> bool" and slab :: "'a \<Rightarrow> int"
  assumes dec_enc: "ok x \<Longrightarrow> slab x \<le> s \<Longrightarrow> dec s (enc x @ r) = Inr (x, r)"
    and dec_canonical: "0 \<le> s \<Longrightarrow> dec s r = Inr (x, r') \<Longrightarrow> r = enc x @ r' \<and> ok x \<and> slab x \<le> s"
    and slab_nonneg: "0 \<le> slab x"
begin

lemma enc_prefix_free: "ok x \<Longrightarrow> ok y \<Longrightarrow> enc x @ r = enc y @ r' \<Longrightarrow> x = y \<and> r = r'"
  by (metis dec_enc Inr_inject prod.inject max.cobounded1 max.cobounded2)

lemma slabs_nonneg: "0 \<le> sum_list (map slab xs)"
  by (induction xs) (simp_all add: slab_nonneg)

lemma read_write_many:
  "list_all ok xs \<Longrightarrow> sum_list (map slab xs) \<le> s \<Longrightarrow> n = length xs \<Longrightarrow>
   read_many dec slab n s (write_many enc xs @ r) = Inr (xs, r)"
proof (induction xs arbitrary: s n)
  case (Cons x xs)
  have "slab x \<le> s" using Cons.prems slabs_nonneg [of xs] by simp
  then show ?case using Cons by (simp add: write_many_def dec_enc)
qed (simp add: write_many_def)

lemma read_many_canonical:
  "0 \<le> s \<Longrightarrow> read_many dec slab n s r = Inr (xs, r') \<Longrightarrow>
   r = write_many enc xs @ r' \<and> list_all ok xs \<and> length xs = n \<and> sum_list (map slab xs) \<le> s"
proof (induction n arbitrary: s r xs)
  case (Suc n)
  obtain x r1 ys where x: "dec s r = Inr (x, r1)"
    and ys: "read_many dec slab n (s - slab x) r1 = Inr (ys, r')" and xs: "xs = x # ys"
    using Suc.prems(2) by (auto simp: rbind_eq_Inr)
  have c: "r = enc x @ r1 \<and> ok x \<and> slab x \<le> s" using dec_canonical [OF Suc.prems(1) x] .
  then have "0 \<le> s - slab x" by simp
  then show ?case using Suc.IH [OF _ ys] c xs by (simp add: write_many_def)
qed (simp add: write_many_def)

end

section \<open>The primitive encodings are encodings\<close>

lemma ReadFull_append [simp]: "length xs = n \<Longrightarrow> ReadFull n (xs @ r) = Inr (xs, r)"
  by (simp add: ReadFull_def)

lemma ReadFull_Inr: "ReadFull n r = Inr (xs, r') \<longleftrightarrow> r = xs @ r' \<and> length xs = n"
  by (auto simp: ReadFull_def)

lemma ReadFull_1 [simp]: "ReadFull (Suc 0) (b # r) = Inr ([b], r)"
  by (simp add: ReadFull_def)

lemma ReadFull_0 [simp]: "ReadFull 0 r = Inr ([], r)"
  by (simp add: ReadFull_def)

lemma le_bytes_1 [simp]: "le_bytes (Suc 0) v = [word_of_int v]"
  by (simp add: le_bytes_def)

lemma VarInt_write_read: "is_u64 v \<Longrightarrow> ReadVarIntBuf (WriteVarIntBuf v @ r) = Inr (v, r)"
proof -
  assume v: "is_u64 v"
  consider "v < 0xfd" | "0xfd \<le> v" "v \<le> 0xffff" | "0xffff < v" "v \<le> 0xffffffff" | "0xffffffff < v"
    by linarith
  then show ?thesis
  proof cases
    case 1
    then have u: "uint (word_of_int v :: byte) = v" using v by simp
    then have neq: "0xfd \<le> uint c \<Longrightarrow> (word_of_int v :: byte) \<noteq> c" for c
      using 1 by auto
    show ?thesis
      using 1 u neq [of 253] neq [of 254] neq [of 255]
      by (simp add: ReadVarIntBuf_def WriteVarIntBuf_def)
  next
    case 2
    then have "le_val (le_bytes 2 v) = v" by (simp add: le_val_le_bytes)
    with 2 show ?thesis by (simp add: ReadVarIntBuf_def WriteVarIntBuf_def)
  next
    case 3
    then have "le_val (le_bytes 4 v) = v" by (simp add: le_val_le_bytes)
    with 3 show ?thesis by (simp add: ReadVarIntBuf_def WriteVarIntBuf_def)
  next
    case 4
    then have "le_val (le_bytes 8 v) = v" using v by (simp add: le_val_le_bytes)
    with 4 show ?thesis by (simp add: ReadVarIntBuf_def WriteVarIntBuf_def)
  qed
qed

lemma byte_uint_less_fd: "b \<noteq> 0xff \<Longrightarrow> b \<noteq> 0xfe \<Longrightarrow> b \<noteq> 0xfd \<Longrightarrow> uint (b::byte) < 0xfd"
proof -
  assume ne: "b \<noteq> 0xff" "b \<noteq> 0xfe" "b \<noteq> 0xfd"
  have "uint b = 255 \<Longrightarrow> b = 0xff" "uint b = 254 \<Longrightarrow> b = 0xfe" "uint b = 253 \<Longrightarrow> b = 0xfd"
    by (rule word_uint_eqI, simp)+
  then have "uint b \<noteq> 255" "uint b \<noteq> 254" "uint b \<noteq> 253" using ne by blast+
  moreover have "uint b < 256" using uint_lt2p [of b] by simp
  ultimately show ?thesis by simp
qed

lemma le_bytes_le_val_id: "length xs = n \<Longrightarrow> le_bytes n (le_val xs) = xs"
  using le_bytes_le_val by blast

lemma VarInt_read_canonical:
  assumes "ReadVarIntBuf r = Inr (v, r')"
  shows "r = WriteVarIntBuf v @ r' \<and> is_u64 v"
proof -
  obtain b r1 where r: "r = b # r1"
    using assms by (cases r) (auto simp: ReadVarIntBuf_def ReadFull_def)
  have byte: "0 \<le> uint b" "uint b < 256" using uint_lt2p [of b] by simp_all
  show ?thesis
  proof (cases "b = 0xff \<or> b = 0xfe \<or> b = 0xfd")
    case True
    then consider "b = 0xff" | "b = 0xfe" | "b = 0xfd" by blast
    then have "\<exists>n xs. r1 = xs @ r' \<and> length xs = n \<and> v = le_val xs \<and> (b = 0xff \<and> n = 8 \<and> 0x100000000 \<le> v \<or> b = 0xfe \<and> n = 4 \<and> 0x10000 \<le> v \<or> b = 0xfd \<and> n = 2 \<and> 0xfd \<le> v)"
    proof cases
      case 1
      then show ?thesis using assms r
        by (intro exI [of _ 8]) (auto simp: ReadVarIntBuf_def rbind_eq_Inr ReadFull_Inr Let_def split: if_splits)
    next
      case 2
      then show ?thesis using assms r
        by (intro exI [of _ 4]) (auto simp: ReadVarIntBuf_def rbind_eq_Inr ReadFull_Inr Let_def split: if_splits)
    next
      case 3
      then show ?thesis using assms r
        by (intro exI [of _ 2]) (auto simp: ReadVarIntBuf_def rbind_eq_Inr ReadFull_Inr Let_def split: if_splits)
    qed
    then obtain n xs where n: "r1 = xs @ r'" "length xs = n" "v = le_val xs"
      and b: "b = 0xff \<and> n = 8 \<and> 0x100000000 \<le> v \<or> b = 0xfe \<and> n = 4 \<and> 0x10000 \<le> v \<or> b = 0xfd \<and> n = 2 \<and> 0xfd \<le> v"
      by blast
    have bound: "v < 256 ^ n" "0 \<le> v" using le_val_less [of xs] n by simp_all
    have "le_bytes n v = xs" using n le_bytes_le_val_id by blast
    with n(1) b bound r show ?thesis
      by (elim disjE conjE) (simp_all add: WriteVarIntBuf_def)
  next
    case False
    then have "v = uint b" "r1 = r'"
      using assms r by (auto simp: ReadVarIntBuf_def rbind_eq_Inr Let_def split: if_splits)
    with False r byte byte_uint_less_fd [of b] show ?thesis
      by (simp add: WriteVarIntBuf_def le_bytes_1)
  qed
qed

interpretation varint: codec WriteVarIntBuf "\<lambda>_. ReadVarIntBuf" is_u64 "\<lambda>_. 0"
  by unfold_locales (auto intro!: VarInt_write_read dest!: VarInt_read_canonical)

lemma length_WriteVarIntBuf: "int (length (WriteVarIntBuf v)) = VarIntSerializeSize v"
  by (simp add: WriteVarIntBuf_def VarIntSerializeSize_def)

lemma length_write_many: "int (length (write_many enc xs)) = sum_list (map (\<lambda>x. int (length (enc x))) xs)"
  by (induction xs) (simp_all add: write_many_def)

lemma write_many_simps [simp]:
  "write_many enc [] = []"
  "write_many enc (x # xs) = enc x @ write_many enc xs"
  by (simp_all add: write_many_def)

lemma write_many_map: "write_many enc (map f xs) = write_many (enc \<circ> f) xs"
  by (induction xs) simp_all

lemma write_many_cong: "(\<And>x. x \<in> set xs \<Longrightarrow> enc x = enc' x) \<Longrightarrow> write_many enc xs = write_many enc' xs"
  by (induction xs) simp_all

end
