(* ===== verification/WireTx.thy ===== *)
theory WireTx
  imports WireCodec
begin

text \<open>
  Transactions, block headers and blocks of the wire protocol (\<^verbatim>\<open>wire/msgtx.go\<close>,
  \<^verbatim>\<open>wire/blockheader.go\<close>, \<^verbatim>\<open>wire/msgblock.go\<close>): the data, the readers and writers, the size
  functions and the copies. A nil slice and an empty slice are the same value here; pointers
  are values.
\<close>

section \<open>Data\<close>

record OutPoint =
  op_Hash :: bytes
  op_Index :: int

record TxIn =
  ti_PreviousOutPoint :: OutPoint
  ti_SignatureScript :: bytes
  ti_Witness :: "bytes list"
  ti_Sequence :: int

record TxOut =
  to_Value :: int
  to_PkScript :: bytes

record MsgTx =
  tx_Version :: int
  tx_TxIn :: "TxIn list"
  tx_TxOut :: "TxOut list"
  tx_LockTime :: int

record BlockHeader =
  bh_Version :: int
  bh_PrevBlock :: bytes
  bh_MerkleRoot :: bytes
  bh_Timestamp :: int
  bh_Bits :: int
  bh_Nonce :: int

record MsgBlock =
  mb_Header :: BlockHeader
  mb_Transactions :: "MsgTx list"

datatype MessageEncoding = BaseEncoding | WitnessEncoding

definition MaxMessagePayload :: int where "MaxMessagePayload = 1024 * 1024 * 32"
definition maxTxInPerMessage :: int where "maxTxInPerMessage = MaxMessagePayload sdiv (9 + 32) + 1"
definition maxTxOutPerMessage :: int where "maxTxOutPerMessage = MaxMessagePayload sdiv 9 + 1"
definition maxWitnessItemsPerInput :: int where "maxWitnessItemsPerInput = 4000000"
definition maxWitnessItemSize :: int where "maxWitnessItemSize = 4000000"
definition scriptSlabSize :: int where "scriptSlabSize = 4194304"
definition MaxBlockPayload :: int where "MaxBlockPayload = 5000000"
definition maxTxPerBlock :: int where "maxTxPerBlock = MaxBlockPayload sdiv 10 + 1"
definition MaxTxInSequenceNum :: int where "MaxTxInSequenceNum = 0xffffffff"
definition TxVersionPoolStake :: int where "TxVersionPoolStake = 6"
definition TxVersionVDFResult :: int where "TxVersionVDFResult = 7"

definition HasWitness :: "MsgTx \<Rightarrow> bool" where
  "HasWitness msg \<longleftrightarrow> list_ex (\<lambda>ti. ti_Witness ti \<noteq> []) (tx_TxIn msg)"

section \<open>Writers\<close>

definition writeOutPointBuf :: "OutPoint \<Rightarrow> bytes" where
  "writeOutPointBuf po = op_Hash po @ le_bytes 4 (op_Index po)"

definition writeTxInBuf :: "TxIn \<Rightarrow> bytes" where
  "writeTxInBuf ti =
     writeOutPointBuf (ti_PreviousOutPoint ti) @ WriteVarBytesBuf (ti_SignatureScript ti)
     @ le_bytes 4 (ti_Sequence ti)"

definition WriteTxOutBuf :: "TxOut \<Rightarrow> bytes" where
  "WriteTxOutBuf to = le_bytes 8 (u64 (to_Value to)) @ WriteVarBytesBuf (to_PkScript to)"

definition writeTxWitnessBuf :: "bytes list \<Rightarrow> bytes" where
  "writeTxWitnessBuf wit = WriteVarIntBuf (int (length wit)) @ write_many WriteVarBytesBuf wit"

definition btcEncode :: "MessageEncoding \<Rightarrow> MsgTx \<Rightarrow> bytes" where
  "btcEncode en msg =
     (let doWitness = (en = WitnessEncoding \<and> HasWitness msg) in
      le_bytes 4 (u32 (tx_Version msg))
      @ (if doWitness then [0x00, 0x01] else [])
      @ WriteVarIntBuf (int (length (tx_TxIn msg)))
      @ write_many writeTxInBuf (tx_TxIn msg)
      @ WriteVarIntBuf (int (length (tx_TxOut msg)))
      @ write_many WriteTxOutBuf (tx_TxOut msg)
      @ (if doWitness then write_many (writeTxWitnessBuf \<circ> ti_Witness) (tx_TxIn msg) else [])
      @ le_bytes 4 (tx_LockTime msg))"

definition writeBlockHeaderBuf :: "BlockHeader \<Rightarrow> bytes" where
  "writeBlockHeaderBuf bh =
     le_bytes 4 (u32 (bh_Version bh)) @ bh_PrevBlock bh @ bh_MerkleRoot bh
     @ le_bytes 4 (u32 (bh_Timestamp bh)) @ le_bytes 4 (bh_Bits bh) @ le_bytes 4 (bh_Nonce bh)"

definition MsgBlock_BtcEncode :: "MessageEncoding \<Rightarrow> MsgBlock \<Rightarrow> bytes" where
  "MsgBlock_BtcEncode en msg =
     writeBlockHeaderBuf (mb_Header msg)
     @ WriteVarIntBuf (int (length (mb_Transactions msg)))
     @ write_many (btcEncode en) (mb_Transactions msg)"

section \<open>Readers\<close>

definition readOutPointBuf :: "bytes \<Rightarrow> (OutPoint \<times> bytes) result" where
  "readOutPointBuf r =
     rbind (ReadFull 32 r) (\<lambda>(h, r).
     rbind (ReadFull 4 r) (\<lambda>(buf, r).
     Inr (\<lparr>op_Hash = h, op_Index = le_val buf\<rparr>, r)))"

definition readScriptBuf :: "int \<Rightarrow> bytes \<Rightarrow> (bytes \<times> bytes) result" where
  "readScriptBuf s r =
     rbind (ReadVarIntBuf r) (\<lambda>(count, r).
       if count > maxWitnessItemSize then Inl PlainError
       else if count > s then Inl PlainError
       else ReadFull (nat count) r)"

definition readTxInBuf :: "int \<Rightarrow> bytes \<Rightarrow> (TxIn \<times> bytes) result" where
  "readTxInBuf s r =
     rbind (readOutPointBuf r) (\<lambda>(po, r).
     rbind (readScriptBuf s r) (\<lambda>(sig, r).
     rbind (ReadFull 4 r) (\<lambda>(buf, r).
     Inr (\<lparr>ti_PreviousOutPoint = po, ti_SignatureScript = sig, ti_Witness = [],
           ti_Sequence = le_val buf\<rparr>, r))))"

definition readTxOutBuf :: "int \<Rightarrow> bytes \<Rightarrow> (TxOut \<times> bytes) result" where
  "readTxOutBuf s r =
     rbind (ReadFull 8 r) (\<lambda>(buf, r).
     rbind (readScriptBuf s r) (\<lambda>(pk, r).
     Inr (\<lparr>to_Value = i64 (le_val buf), to_PkScript = pk\<rparr>, r)))"

abbreviation bytes_total :: "bytes list \<Rightarrow> int" where
  "bytes_total xs \<equiv> sum_list (map (\<lambda>x. int (length x)) xs)"

definition readTxWitness :: "int \<Rightarrow> bytes \<Rightarrow> (bytes list \<times> bytes) result" where
  "readTxWitness s r =
     rbind (ReadVarIntBuf r) (\<lambda>(witCount, r).
       if witCount > maxWitnessItemsPerInput then Inl PlainError
       else read_many readScriptBuf (\<lambda>x. int (length x)) (nat witCount) s r)"

text \<open>
  The last step of the decoder moves all scripts into one buffer: every script is copied at
  the running offset, and the field is then the subslice of the buffer at that offset.
\<close>

definition copy_at :: "bytes \<Rightarrow> nat \<Rightarrow> bytes \<Rightarrow> bytes" where
  "copy_at buf off x = take off buf @ take (length buf - off) x @ drop (off + length x) buf"

primrec place :: "bytes \<Rightarrow> nat \<Rightarrow> bytes list \<Rightarrow> bytes" where
  "place buf off [] = buf"
| "place buf off (x # xs) = place (copy_at buf off x) (off + length x) xs"

primrec carve :: "bytes \<Rightarrow> nat \<Rightarrow> bytes list \<Rightarrow> bytes list \<times> nat" where
  "carve buf off [] = ([], off)"
| "carve buf off (x # xs) =
     (let (ys, off') = carve buf (off + length x) xs in
      (slice off (off + length x) buf # ys, off'))"

primrec carveTxIns :: "bytes \<Rightarrow> nat \<Rightarrow> TxIn list \<Rightarrow> TxIn list \<times> nat" where
  "carveTxIns buf off [] = ([], off)"
| "carveTxIns buf off (ti # tis) =
     (let siglen = length (ti_SignatureScript ti);
          (wit, off1) = carve buf (off + siglen) (ti_Witness ti);
          (tis', off2) = carveTxIns buf off1 tis
      in (ti\<lparr>ti_SignatureScript := slice off (off + siglen) buf, ti_Witness := wit\<rparr> # tis', off2))"

primrec carveTxOuts :: "bytes \<Rightarrow> nat \<Rightarrow> TxOut list \<Rightarrow> TxOut list" where
  "carveTxOuts buf off [] = []"
| "carveTxOuts buf off (to # tos) =
     to\<lparr>to_PkScript := slice off (off + length (to_PkScript to)) buf\<rparr>
     # carveTxOuts buf (off + length (to_PkScript to)) tos"

definition tx_scripts :: "TxIn list \<Rightarrow> TxOut list \<Rightarrow> bytes list" where
  "tx_scripts tis tos =
     concat (map (\<lambda>ti. ti_SignatureScript ti # ti_Witness ti) tis) @ map to_PkScript tos"

definition compactScripts :: "nat \<Rightarrow> MsgTx \<Rightarrow> MsgTx" where
  "compactScripts totalScriptSize msg =
     (let scripts = place (replicate totalScriptSize 0) 0 (tx_scripts (tx_TxIn msg) (tx_TxOut msg));
          (tis, off) = carveTxIns scripts 0 (tx_TxIn msg)
      in msg\<lparr>tx_TxIn := tis, tx_TxOut := carveTxOuts scripts off (tx_TxOut msg)\<rparr>)"

abbreviation sig_size :: "TxIn \<Rightarrow> int" where
  "sig_size ti \<equiv> int (length (ti_SignatureScript ti))"

abbreviation pk_size :: "TxOut \<Rightarrow> int" where
  "pk_size to \<equiv> int (length (to_PkScript to))"

text \<open>
  A count of zero inputs is the marker of the witness encoding: the flag byte and the real
  count follow it. The result is the flag (zero without marker) and the count.
\<close>

definition readTxFlag :: "MessageEncoding \<Rightarrow> int \<Rightarrow> bytes \<Rightarrow> (byte \<times> int \<times> bytes) result" where
  "readTxFlag en cnt r =
     (if cnt = 0 \<and> en = WitnessEncoding then
        rbind (ReadFull 1 r) (\<lambda>(flag, r).
          if hd flag \<noteq> 0x01 then Inl PlainError
          else rbind (ReadVarIntBuf r) (\<lambda>(count, r). Inr (hd flag, count, r)))
      else Inr (0, cnt, r))"

text \<open>The witness section: one stack per input, and at least one of them not empty.\<close>

definition readTxWitnesses ::
  "MessageEncoding \<Rightarrow> byte \<Rightarrow> TxIn list \<Rightarrow> int \<Rightarrow> bytes \<Rightarrow> (TxIn list \<times> bytes) result" where
  "readTxWitnesses en flag txIns sbuf r =
     (if flag \<noteq> 0 \<and> en = WitnessEncoding then
        rbind (read_many readTxWitness bytes_total (length txIns) sbuf r) (\<lambda>(wits, r).
          let txIns = map2 (\<lambda>ti w. ti\<lparr>ti_Witness := w\<rparr>) txIns wits in
          if \<not> list_ex (\<lambda>ti. ti_Witness ti \<noteq> []) txIns then Inl PlainError else Inr (txIns, r))
      else Inr (txIns, r))"

definition btcDecode :: "MessageEncoding \<Rightarrow> int \<Rightarrow> bytes \<Rightarrow> (MsgTx \<times> bytes) result" where
  "btcDecode en sbuf r =
     rbind (ReadFull 4 r) (\<lambda>(buf, r).
     let version = i32 (le_val buf) in
     rbind (ReadVarIntBuf r) (\<lambda>(count, r).
     rbind (readTxFlag en count r) (\<lambda>(flag, count, r).
     if count > maxTxInPerMessage then Inl PlainError else
     rbind (read_many readTxInBuf sig_size (nat count) sbuf r) (\<lambda>(txIns, r).
     let sbuf = sbuf - sum_list (map sig_size txIns) in
     rbind (ReadVarIntBuf r) (\<lambda>(count, r).
     if count > maxTxOutPerMessage then Inl PlainError else
     rbind (read_many readTxOutBuf pk_size (nat count) sbuf r) (\<lambda>(txOuts, r).
     let sbuf = sbuf - sum_list (map pk_size txOuts) in
     rbind (readTxWitnesses en flag txIns sbuf r) (\<lambda>(txIns, r).
     rbind (ReadFull 4 r) (\<lambda>(buf, r).
     let msg = \<lparr>tx_Version = version, tx_TxIn = txIns, tx_TxOut = txOuts, tx_LockTime = le_val buf\<rparr>;
         totalScriptSize = nat (bytes_total (tx_scripts txIns txOuts))
     in Inr (compactScripts totalScriptSize msg, r)))))))))"

definition readBlockHeaderBuf :: "bytes \<Rightarrow> (BlockHeader \<times> bytes) result" where
  "readBlockHeaderBuf r =
     rbind (ReadFull 4 r) (\<lambda>(v, r).
     rbind (ReadFull 32 r) (\<lambda>(prev, r).
     rbind (ReadFull 32 r) (\<lambda>(root, r).
     rbind (ReadFull 4 r) (\<lambda>(ts, r).
     rbind (ReadFull 4 r) (\<lambda>(bits, r).
     rbind (ReadFull 4 r) (\<lambda>(nonce, r).
     Inr (\<lparr>bh_Version = i32 (le_val v), bh_PrevBlock = prev, bh_MerkleRoot = root,
           bh_Timestamp = le_val ts, bh_Bits = le_val bits, bh_Nonce = le_val nonce\<rparr>, r)))))))"

text \<open>Every transaction of a block is decoded with the whole script buffer.\<close>

definition MsgBlock_BtcDecode :: "MessageEncoding \<Rightarrow> bytes \<Rightarrow> (MsgBlock \<times> bytes) result" where
  "MsgBlock_BtcDecode en r =
     rbind (readBlockHeaderBuf r) (\<lambda>(hdr, r).
     rbind (ReadVarIntBuf r) (\<lambda>(txCount, r).
     if txCount > maxTxPerBlock then Inl PlainError else
     rbind (read_many (\<lambda>_. btcDecode en scriptSlabSize) (\<lambda>_. 0) (nat txCount) 0 r) (\<lambda>(txs, r).
     Inr (\<lparr>mb_Header = hdr, mb_Transactions = txs\<rparr>, r))))"

section \<open>Sizes and copies\<close>

definition TxIn_SerializeSize :: "TxIn \<Rightarrow> int" where
  "TxIn_SerializeSize t =
     40 + VarIntSerializeSize (int (length (ti_SignatureScript t))) + int (length (ti_SignatureScript t))"

definition TxOut_SerializeSize :: "TxOut \<Rightarrow> int" where
  "TxOut_SerializeSize t =
     8 + VarIntSerializeSize (int (length (to_PkScript t))) + int (length (to_PkScript t))"

definition TxWitness_SerializeSize :: "bytes list \<Rightarrow> int" where
  "TxWitness_SerializeSize t =
     foldl (\<lambda>n witItem. n + VarIntSerializeSize (int (length witItem)) + int (length witItem))
       (VarIntSerializeSize (int (length t))) t"

definition baseSize :: "MsgTx \<Rightarrow> int" where
  "baseSize msg =
     (let n = 8 + VarIntSerializeSize (int (length (tx_TxIn msg)))
                + VarIntSerializeSize (int (length (tx_TxOut msg)));
          n = foldl (\<lambda>n txIn. n + TxIn_SerializeSize txIn) n (tx_TxIn msg)
      in foldl (\<lambda>n txOut. n + TxOut_SerializeSize txOut) n (tx_TxOut msg))"

definition SerializeSize :: "MsgTx \<Rightarrow> int" where
  "SerializeSize msg =
     (let n = baseSize msg in
      if HasWitness msg then
        foldl (\<lambda>n txin. n + TxWitness_SerializeSize (ti_Witness txin)) (n + 2) (tx_TxIn msg)
      else n)"

definition SerializeSizeStripped :: "MsgTx \<Rightarrow> int" where
  "SerializeSizeStripped msg = baseSize msg"

definition MsgBlock_SerializeSize :: "MsgBlock \<Rightarrow> int" where
  "MsgBlock_SerializeSize msg =
     foldl (\<lambda>n tx. n + SerializeSize tx)
       (80 + VarIntSerializeSize (int (length (mb_Transactions msg)))) (mb_Transactions msg)"

definition MsgBlock_SerializeSizeStripped :: "MsgBlock \<Rightarrow> int" where
  "MsgBlock_SerializeSizeStripped msg =
     foldl (\<lambda>n tx. n + SerializeSizeStripped tx)
       (80 + VarIntSerializeSize (int (length (mb_Transactions msg)))) (mb_Transactions msg)"

section \<open>The encodings of the parts of a transaction\<close>

definition outpoint_ok :: "OutPoint \<Rightarrow> bool" where
  "outpoint_ok po \<longleftrightarrow> length (op_Hash po) = 32 \<and> is_u32 (op_Index po)"

definition script_ok :: "bytes \<Rightarrow> bool" where
  "script_ok x \<longleftrightarrow> int (length x) \<le> maxWitnessItemSize"

definition txin_ok :: "TxIn \<Rightarrow> bool" where
  "txin_ok ti \<longleftrightarrow> outpoint_ok (ti_PreviousOutPoint ti) \<and> script_ok (ti_SignatureScript ti) \<and> is_u32 (ti_Sequence ti)"

definition txout_ok :: "TxOut \<Rightarrow> bool" where
  "txout_ok to \<longleftrightarrow> is_i64 (to_Value to) \<and> script_ok (to_PkScript to)"

definition witness_ok :: "bytes list \<Rightarrow> bool" where
  "witness_ok w \<longleftrightarrow> int (length w) \<le> maxWitnessItemsPerInput \<and> list_all script_ok w"

definition header_ok :: "BlockHeader \<Rightarrow> bool" where
  "header_ok bh \<longleftrightarrow> is_i32 (bh_Version bh) \<and> length (bh_PrevBlock bh) = 32 \<and> length (bh_MerkleRoot bh) = 32 \<and>
     is_u32 (bh_Timestamp bh) \<and> is_u32 (bh_Bits bh) \<and> is_u32 (bh_Nonce bh)"

lemma le_4: "is_u32 v \<Longrightarrow> le_val (le_bytes 4 v) = v"
  by (simp add: le_val_le_bytes)

lemma le_4_val: "length b = 4 \<Longrightarrow> le_val b < 4294967296" "length b = 4 \<Longrightarrow> le_bytes 4 (le_val b) = b"
  using le_val_less [of b 4] by (simp_all add: le_bytes_le_val)

lemma le_4_signed: "is_i32 v \<Longrightarrow> i32 (le_val (le_bytes 4 (u32 v))) = v"
  by (simp add: le_4 wrap_simps)

lemma le_4_u32: "length b = 4 \<Longrightarrow> le_bytes 4 (u32 (le_val b)) = b"
  using le_4_val [of b] by (simp add: wrap_simps)

lemma le_8_signed: "is_i64 v \<Longrightarrow> i64 (le_val (le_bytes 8 (u64 v))) = v"
  by (simp add: le_val_le_bytes wrap_simps)

lemma le_8_u64: "length b = 8 \<Longrightarrow> le_bytes 8 (u64 (le_val b)) = b"
  using le_val_less [of b 8] by (simp add: le_bytes_le_val wrap_simps)

lemmas le_reads = le_4 le_4_val le_4_signed le_4_u32 le_8_signed le_8_u64

interpretation script: codec WriteVarBytesBuf readScriptBuf script_ok "\<lambda>x. int (length x)"
proof
  fix x r and s :: int
  assume "script_ok x" and "int (length x) \<le> s"
  then show "readScriptBuf s (WriteVarBytesBuf x @ r) = Inr (x, r)"
    by (simp add: readScriptBuf_def WriteVarBytesBuf_def VarInt_write_read script_ok_def maxWitnessItemSize_def)
next
  fix s r x r'
  assume "readScriptBuf s r = Inr (x, r')"
  then obtain c r1 where c: "ReadVarIntBuf r = Inr (c, r1)" "c \<le> maxWitnessItemSize" "c \<le> s" "ReadFull (nat c) r1 = Inr (x, r')"
    by (auto simp: readScriptBuf_def rbind_eq_Inr split: if_splits)
  then show "r = WriteVarBytesBuf x @ r' \<and> script_ok x \<and> int (length x) \<le> s"
    using VarInt_read_canonical [OF c(1)] by (auto simp: ReadFull_Inr WriteVarBytesBuf_def script_ok_def)
qed simp

interpretation outpoint: codec writeOutPointBuf "\<lambda>_. readOutPointBuf" outpoint_ok "\<lambda>_. 0"
proof
  fix x r and s :: int
  assume "outpoint_ok x"
  then show "readOutPointBuf (writeOutPointBuf x @ r) = Inr (x, r)"
    by (simp add: readOutPointBuf_def writeOutPointBuf_def outpoint_ok_def le_4)
next
  fix s :: int and r x r'
  assume "0 \<le> s" and "readOutPointBuf r = Inr (x, r')"
  then show "r = writeOutPointBuf x @ r' \<and> outpoint_ok x \<and> 0 \<le> s"
    by (auto simp: readOutPointBuf_def rbind_eq_Inr ReadFull_Inr writeOutPointBuf_def outpoint_ok_def le_reads)
qed simp

lemma readOutPoint_write: "outpoint_ok x \<Longrightarrow> readOutPointBuf (writeOutPointBuf x @ r) = Inr (x, r)"
  using outpoint.dec_enc [of x 0] by simp

interpretation txin: codec writeTxInBuf readTxInBuf "\<lambda>ti. txin_ok ti \<and> ti_Witness ti = []" sig_size
proof
  fix x r and s :: int
  assume "txin_ok x \<and> ti_Witness x = []" and "sig_size x \<le> s"
  then show "readTxInBuf s (writeTxInBuf x @ r) = Inr (x, r)"
    by (simp add: readTxInBuf_def writeTxInBuf_def txin_ok_def readOutPoint_write script.dec_enc le_4)
next
  fix s r x r'
  assume s: "0 \<le> s" and "readTxInBuf s r = Inr (x, r')"
  then obtain po r1 sig r2 b where a: "readOutPointBuf r = Inr (po, r1)" "readScriptBuf s r1 = Inr (sig, r2)"
      "ReadFull 4 r2 = Inr (b, r')"
    and x: "x = \<lparr>ti_PreviousOutPoint = po, ti_SignatureScript = sig, ti_Witness = [], ti_Sequence = le_val b\<rparr>"
    by (auto simp: readTxInBuf_def rbind_eq_Inr)
  then show "r = writeTxInBuf x @ r' \<and> (txin_ok x \<and> ti_Witness x = []) \<and> sig_size x \<le> s"
    using outpoint.dec_canonical [OF s a(1)] script.dec_canonical [OF s a(2)]
    by (simp add: ReadFull_Inr writeTxInBuf_def txin_ok_def le_reads)
qed simp

interpretation txout: codec WriteTxOutBuf readTxOutBuf txout_ok pk_size
proof
  fix x r and s :: int
  assume "txout_ok x" and "pk_size x \<le> s"
  then show "readTxOutBuf s (WriteTxOutBuf x @ r) = Inr (x, r)"
    by (simp add: readTxOutBuf_def WriteTxOutBuf_def txout_ok_def script.dec_enc le_8_signed)
next
  fix s r x r'
  assume s: "0 \<le> s" and "readTxOutBuf s r = Inr (x, r')"
  then obtain b r1 pk where a: "ReadFull 8 r = Inr (b, r1)" "readScriptBuf s r1 = Inr (pk, r')"
    and x: "x = \<lparr>to_Value = i64 (le_val b), to_PkScript = pk\<rparr>"
    by (auto simp: readTxOutBuf_def rbind_eq_Inr)
  then show "r = WriteTxOutBuf x @ r' \<and> txout_ok x \<and> pk_size x \<le> s"
    using script.dec_canonical [OF s a(2)]
    by (simp add: ReadFull_Inr WriteTxOutBuf_def txout_ok_def le_reads)
qed simp

interpretation txwitness: codec writeTxWitnessBuf readTxWitness witness_ok bytes_total
proof
  fix x r and s :: int
  assume "witness_ok x" and "bytes_total x \<le> s"
  then show "readTxWitness s (writeTxWitnessBuf x @ r) = Inr (x, r)"
    by (simp add: readTxWitness_def writeTxWitnessBuf_def witness_ok_def VarInt_write_read
        script.read_write_many maxWitnessItemsPerInput_def)
next
  fix s r x r'
  assume s: "0 \<le> s" and "readTxWitness s r = Inr (x, r')"
  then obtain c r1 where c: "ReadVarIntBuf r = Inr (c, r1)" "c \<le> maxWitnessItemsPerInput"
      "read_many readScriptBuf (\<lambda>x. int (length x)) (nat c) s r1 = Inr (x, r')"
    by (auto simp: readTxWitness_def rbind_eq_Inr split: if_splits)
  then show "r = writeTxWitnessBuf x @ r' \<and> witness_ok x \<and> bytes_total x \<le> s"
    using VarInt_read_canonical [OF c(1)] script.read_many_canonical [OF s c(3)]
    by (auto simp: writeTxWitnessBuf_def witness_ok_def)
qed (rule script.slabs_nonneg)

interpretation header: codec writeBlockHeaderBuf "\<lambda>_. readBlockHeaderBuf" header_ok "\<lambda>_. 0"
proof
  fix x r and s :: int
  assume "header_ok x"
  then show "readBlockHeaderBuf (writeBlockHeaderBuf x @ r) = Inr (x, r)"
    by (simp add: readBlockHeaderBuf_def writeBlockHeaderBuf_def header_ok_def le_reads wrap_simps)
next
  fix s :: int and r x r'
  assume "0 \<le> s" and "readBlockHeaderBuf r = Inr (x, r')"
  then show "r = writeBlockHeaderBuf x @ r' \<and> header_ok x \<and> 0 \<le> s"
    by (auto simp: readBlockHeaderBuf_def rbind_eq_Inr ReadFull_Inr writeBlockHeaderBuf_def header_ok_def
        le_reads)
qed simp

section \<open>Moving the scripts into one buffer\<close>

lemma bytes_total_concat: "bytes_total xs = int (length (concat xs))"
  by (induction xs) simp_all

lemma place_concat:
  "length (concat xs) \<le> length junk \<Longrightarrow>
   place (pre @ junk) (length pre) xs = pre @ concat xs @ drop (length (concat xs)) junk"
proof (induction xs arbitrary: pre junk)
  case (Cons x xs)
  have "place (copy_at (pre @ junk) (length pre) x) (length pre + length x) xs =
      place ((pre @ x) @ drop (length x) junk) (length (pre @ x)) xs"
    using Cons.prems by (simp add: copy_at_def)
  also have "\<dots> = (pre @ x) @ concat xs @ drop (length (concat xs)) (drop (length x) junk)"
    using Cons.prems by (intro Cons.IH) simp
  finally show ?case by (simp add: add.commute)
qed simp

lemma slice_mid: "slice (length pre) (length pre + length x) (pre @ x @ post) = x"
  by (simp add: slice_def)

lemma carve_concat:
  "carve (pre @ concat xs @ post) (length pre) xs = (xs, length pre + length (concat xs))"
proof (induction xs arbitrary: pre)
  case (Cons x xs)
  show ?case using Cons [of "pre @ x"] slice_mid [of pre x "concat xs @ post"] by simp
qed simp

abbreviation in_bytes :: "TxIn list \<Rightarrow> bytes" where
  "in_bytes tis \<equiv> concat (concat (map (\<lambda>ti. ti_SignatureScript ti # ti_Witness ti) tis))"

lemma carveTxIns_concat:
  "carveTxIns (pre @ in_bytes tis @ post) (length pre) tis = (tis, length pre + length (in_bytes tis))"
proof (induction tis arbitrary: pre)
  case (Cons ti tis)
  show ?case
    using Cons [of "pre @ ti_SignatureScript ti @ concat (ti_Witness ti)"]
      slice_mid [of pre "ti_SignatureScript ti" "concat (ti_Witness ti) @ in_bytes tis @ post"]
      carve_concat [of "pre @ ti_SignatureScript ti" "ti_Witness ti" "in_bytes tis @ post"]
    by (simp add: Let_def add.assoc)
qed simp

lemma carveTxOuts_concat:
  "carveTxOuts (pre @ concat (map to_PkScript tos)) (length pre) tos = tos"
proof (induction tos arbitrary: pre)
  case (Cons to tos)
  show ?case
    using Cons [of "pre @ to_PkScript to"] slice_mid [of pre "to_PkScript to" "concat (map to_PkScript tos)"]
    by simp
qed simp

lemma compactScripts_id:
  assumes "n = nat (bytes_total (tx_scripts (tx_TxIn msg) (tx_TxOut msg)))"
  shows "compactScripts n msg = msg"
proof -
  have "n = length (concat (tx_scripts (tx_TxIn msg) (tx_TxOut msg)))"
    using assms by (simp add: bytes_total_concat)
  then have buf: "place (replicate n 0) 0 (tx_scripts (tx_TxIn msg) (tx_TxOut msg)) =
      in_bytes (tx_TxIn msg) @ concat (map to_PkScript (tx_TxOut msg))"
    using place_concat [of "tx_scripts (tx_TxIn msg) (tx_TxOut msg)" "replicate n 0" "[]"]
    by (simp add: tx_scripts_def)
  show ?thesis
    using carveTxIns_concat [of "[]" "tx_TxIn msg" "concat (map to_PkScript (tx_TxOut msg))"]
      carveTxOuts_concat [of "in_bytes (tx_TxIn msg)" "tx_TxOut msg"]
    by (simp add: compactScripts_def buf)
qed

section \<open>The encoding of transactions\<close>

definition tx_ok :: "MessageEncoding \<Rightarrow> MsgTx \<Rightarrow> bool" where
  "tx_ok en tx \<longleftrightarrow> is_i32 (tx_Version tx) \<and> is_u32 (tx_LockTime tx) \<and>
     int (length (tx_TxIn tx)) \<le> maxTxInPerMessage \<and> int (length (tx_TxOut tx)) \<le> maxTxOutPerMessage \<and>
     list_all txin_ok (tx_TxIn tx) \<and> list_all txout_ok (tx_TxOut tx) \<and>
     (if en = WitnessEncoding then tx_TxIn tx \<noteq> [] \<and> list_all (witness_ok \<circ> ti_Witness) (tx_TxIn tx)
      else list_all (\<lambda>ti. ti_Witness ti = []) (tx_TxIn tx))"

definition tx_slab :: "MsgTx \<Rightarrow> int" where
  "tx_slab tx = bytes_total (tx_scripts (tx_TxIn tx) (tx_TxOut tx))"

abbreviation strip :: "TxIn \<Rightarrow> TxIn" where
  "strip ti \<equiv> ti\<lparr>ti_Witness := []\<rparr>"

lemma tx_slab_sum:
  "tx_slab tx = sum_list (map sig_size (tx_TxIn tx)) + sum_list (map pk_size (tx_TxOut tx))
     + sum_list (map bytes_total (map ti_Witness (tx_TxIn tx)))"
proof -
  have "bytes_total (concat (map (\<lambda>ti. ti_SignatureScript ti # ti_Witness ti) tis)) =
      sum_list (map sig_size tis) + sum_list (map bytes_total (map ti_Witness tis))" for tis
    by (induction tis) simp_all
  then show ?thesis by (simp add: tx_slab_def tx_scripts_def comp_def)
qed

lemma map2_strip: "map2 (\<lambda>ti w. ti\<lparr>ti_Witness := w\<rparr>) (map strip tis) (map ti_Witness tis) = tis"
  by (induction tis) simp_all

lemma map_strip_id: "list_all (\<lambda>ti. ti_Witness ti = []) tis \<Longrightarrow> map strip tis = tis"
  by (induction tis) simp_all

lemma write_strip: "write_many writeTxInBuf (map strip tis) = write_many writeTxInBuf tis"
  by (induction tis) (simp_all add: writeTxInBuf_def)

lemma read_stripped_ins:
  assumes "list_all txin_ok tis" and "sum_list (map sig_size tis) \<le> s" and "n = length tis"
  shows "read_many readTxInBuf sig_size n s (write_many writeTxInBuf tis @ r) = Inr (map strip tis, r)"
proof -
  have "list_all (\<lambda>ti. txin_ok ti \<and> ti_Witness ti = []) (map strip tis)"
    using assms(1) by (induction tis) (simp_all add: txin_ok_def)
  then show ?thesis
    using txin.read_write_many [of "map strip tis" s n r] assms(2,3) by (simp add: write_strip comp_def)
qed

lemma read_witnesses:
  assumes "list_all (witness_ok \<circ> ti_Witness) tis" and "sum_list (map bytes_total (map ti_Witness tis)) \<le> s"
  shows "read_many readTxWitness bytes_total (length tis) s
    (write_many (writeTxWitnessBuf \<circ> ti_Witness) tis @ r) = Inr (map ti_Witness tis, r)"
  using txwitness.read_write_many [of "map ti_Witness tis" s "length tis" r] assms
  by (simp add: write_many_map list.pred_map)

lemma no_witness: "\<not> HasWitness tx \<Longrightarrow> map strip (tx_TxIn tx) = tx_TxIn tx"
  by (intro map_strip_id) (auto simp: HasWitness_def list_ex_iff list_all_iff)

lemma WriteVarIntBuf_0 [simp]: "WriteVarIntBuf 0 = [0]"
  by (simp add: WriteVarIntBuf_def)

lemma ReadVarIntBuf_marker [simp]: "ReadVarIntBuf (0 # r) = Inr (0, r)"
  using VarInt_write_read [of 0 r] by simp

lemma max_per_message_u64: "maxTxInPerMessage < 2 ^ 64" "maxTxOutPerMessage < 2 ^ 64"
  by (simp_all add: maxTxInPerMessage_def maxTxOutPerMessage_def MaxMessagePayload_def signed_divide_int_def)

lemma btcDecode_btcEncode:
  assumes ok: "tx_ok en tx" and s: "tx_slab tx \<le> s"
  shows "btcDecode en s (btcEncode en tx @ r) = Inr (tx, r)"
proof -
  define W where "W \<longleftrightarrow> en = WitnessEncoding \<and> HasWitness tx"
  let ?ins = "tx_TxIn tx" and ?outs = "tx_TxOut tx"
  have cnt: "int (length ?ins) \<le> maxTxInPerMessage" "int (length ?outs) \<le> maxTxOutPerMessage"
    and oks: "list_all txin_ok ?ins" "list_all txout_ok ?outs" "is_i32 (tx_Version tx)" "is_u32 (tx_LockTime tx)"
    and wok: "W \<Longrightarrow> list_all (witness_ok \<circ> ti_Witness) ?ins"
    and ne: "en = WitnessEncoding \<Longrightarrow> ?ins \<noteq> []"
    using ok by (auto simp: tx_ok_def W_def)
  have nonneg: "0 \<le> sum_list (map sig_size ?ins)" "0 \<le> sum_list (map pk_size ?outs)"
      "0 \<le> sum_list (map bytes_total (map ti_Witness ?ins))"
    by (rule txin.slabs_nonneg txout.slabs_nonneg txwitness.slabs_nonneg)+
  have sizes: "sum_list (map sig_size ?ins) \<le> s" "sum_list (map pk_size ?outs) \<le> s - sum_list (map sig_size ?ins)"
      "sum_list (map bytes_total (map ti_Witness ?ins)) \<le> s - sum_list (map sig_size ?ins) - sum_list (map pk_size ?outs)"
    using s nonneg by (simp_all add: tx_slab_sum)
  have strip_sum: "sum_list (map sig_size (map strip ?ins)) = sum_list (map sig_size ?ins)"
    by (simp add: comp_def)
  note reads = VarInt_write_read read_stripped_ins [OF oks(1) sizes(1) refl]
    txout.read_write_many [OF oks(2) sizes(2) refl] le_4 [OF oks(4)] le_4_signed [OF oks(3)] strip_sum
  have compact: "compactScripts (nat (bytes_total (tx_scripts ?ins ?outs)))
      \<lparr>tx_Version = tx_Version tx, tx_TxIn = ?ins, tx_TxOut = ?outs, tx_LockTime = tx_LockTime tx\<rparr> = tx"
    by (subst compactScripts_id) simp_all
  have bound: "int (length ?ins) < 2 ^ 64" "int (length ?outs) < 2 ^ 64"
    using cnt max_per_message_u64 by linarith+
  show ?thesis
  proof (cases W)
    case True
    then have W: "en = WitnessEncoding" "HasWitness tx" by (simp_all add: W_def)
    then show ?thesis
      using cnt bound read_witnesses [OF wok [OF True] sizes(3)] compact
      by (simp add: btcDecode_def readTxFlag_def readTxWitnesses_def btcEncode_def Let_def reads map2_strip del: map_map)
        (simp add: HasWitness_def)
  next
    case False
    then have "map strip ?ins = ?ins"
    proof (cases "en = WitnessEncoding")
      case True
      with False show ?thesis by (intro no_witness) (simp add: W_def)
    next
      case en: False
      with ok show ?thesis by (intro map_strip_id) (simp add: tx_ok_def)
    qed
    moreover have "\<not> (length ?ins = 0 \<and> en = WitnessEncoding)" using ne by auto
    ultimately show ?thesis
      using False cnt bound compact reads
      by (auto simp: btcDecode_def readTxFlag_def readTxWitnesses_def btcEncode_def Let_def W_def)
  qed
qed

lemma readTxFlag_canonical:
  assumes "readTxFlag en c0 r = Inr (flag, c, r')" and "ReadVarIntBuf r0 = Inr (c0, r)"
  shows "is_u64 c \<and> (flag = 0 \<and> r0 = WriteVarIntBuf c @ r' \<and> (en = WitnessEncoding \<longrightarrow> c \<noteq> 0) \<or>
    flag = 1 \<and> en = WitnessEncoding \<and> r0 = [0, 1] @ WriteVarIntBuf c @ r')"
proof -
  have r0: "r0 = WriteVarIntBuf c0 @ r" "is_u64 c0" using VarInt_read_canonical [OF assms(2)] by simp_all
  show ?thesis
  proof (cases "c0 = 0 \<and> en = WitnessEncoding")
    case True
    then obtain f r1 where f: "r = f # r1" "f = 1" "flag = 1" "ReadVarIntBuf r1 = Inr (c, r')"
      using assms(1)
      by (auto simp: readTxFlag_def rbind_eq_Inr ReadFull_Inr length_Suc_conv split: if_splits)
    then show ?thesis
      using True r0 VarInt_read_canonical [OF f(4)] by simp
  next
    case False
    with assms(1) r0 show ?thesis by (auto simp: readTxFlag_def)
  qed
qed

lemma readTxWitnesses_canonical:
  assumes "readTxWitnesses en flag txIns s r = Inr (tis, r')" and "0 \<le> s"
    and "list_all (\<lambda>ti. txin_ok ti \<and> ti_Witness ti = []) txIns" and "flag = 0 \<or> flag = 1 \<and> en = WitnessEncoding"
  shows "map strip tis = txIns \<and> sum_list (map bytes_total (map ti_Witness tis)) \<le> s \<and>
    (if flag = 0 then tis = txIns \<and> r = r'
     else list_ex (\<lambda>ti. ti_Witness ti \<noteq> []) tis \<and> list_all (witness_ok \<circ> ti_Witness) tis \<and>
       r = write_many (writeTxWitnessBuf \<circ> ti_Witness) tis @ r')"
proof (cases "flag = 0")
  case True
  with assms have "tis = txIns" "r = r'" by (simp_all add: readTxWitnesses_def)
  moreover have "sum_list (map bytes_total (map ti_Witness txIns)) = 0 \<and> map strip txIns = txIns"
    using assms(3) by (induction txIns) simp_all
  ultimately show ?thesis using True assms(2) by simp
next
  case False
  then obtain wits where w: "read_many readTxWitness bytes_total (length txIns) s r = Inr (wits, r')"
    and t: "tis = map2 (\<lambda>ti w. ti\<lparr>ti_Witness := w\<rparr>) txIns wits" "list_ex (\<lambda>ti. ti_Witness ti \<noteq> []) tis"
    using assms by (auto simp: readTxWitnesses_def rbind_eq_Inr Let_def split: if_splits)
  have c: "r = write_many writeTxWitnessBuf wits @ r'" "list_all witness_ok wits"
      "length wits = length txIns" "sum_list (map bytes_total wits) \<le> s"
    using txwitness.read_many_canonical [OF assms(2) w] by simp_all
  have m: "map ti_Witness tis = wits \<and> map strip tis = txIns"
    using c(3) assms(3) unfolding t(1) by (induction wits txIns rule: list_induct2) simp_all
  with c t False show ?thesis
    by (auto simp: write_many_map [symmetric] list.pred_map [symmetric] simp del: map_map)
qed

lemma btcDecode_canonical:
  assumes s: "0 \<le> s" and dec: "btcDecode en s r = Inr (tx, r')"
  shows "r = btcEncode en tx @ r' \<and> tx_ok en tx \<and> tx_slab tx \<le> s"
proof -
  obtain b r1 c0 r2 flag c r3 ins r4 c' r5 outs r6 tis r7 b' where
    d: "ReadFull 4 r = Inr (b, r1)" "ReadVarIntBuf r1 = Inr (c0, r2)" "readTxFlag en c0 r2 = Inr (flag, c, r3)"
      "c \<le> maxTxInPerMessage" "read_many readTxInBuf sig_size (nat c) s r3 = Inr (ins, r4)"
      "ReadVarIntBuf r4 = Inr (c', r5)" "c' \<le> maxTxOutPerMessage"
      "read_many readTxOutBuf pk_size (nat c') (s - sum_list (map sig_size ins)) r5 = Inr (outs, r6)"
      "readTxWitnesses en flag ins (s - sum_list (map sig_size ins) - sum_list (map pk_size outs)) r6 = Inr (tis, r7)"
      "ReadFull 4 r7 = Inr (b', r')"
    and tx: "tx = compactScripts (nat (bytes_total (tx_scripts tis outs)))
        \<lparr>tx_Version = i32 (le_val b), tx_TxIn = tis, tx_TxOut = outs, tx_LockTime = le_val b'\<rparr>"
    using dec unfolding btcDecode_def Let_def by (auto simp: rbind_eq_Inr split: if_splits)
  have tx: "tx = \<lparr>tx_Version = i32 (le_val b), tx_TxIn = tis, tx_TxOut = outs, tx_LockTime = le_val b'\<rparr>"
    unfolding tx by (rule compactScripts_id) simp
  have b: "r = b @ r1" "length b = 4" "r7 = b' @ r'" "length b' = 4" using d(1,10) by (simp_all add: ReadFull_Inr)
  note fl = readTxFlag_canonical [OF d(3,2)]
  have ins: "r3 = write_many writeTxInBuf ins @ r4" "list_all (\<lambda>ti. txin_ok ti \<and> ti_Witness ti = []) ins"
      "length ins = nat c" "sum_list (map sig_size ins) \<le> s"
    using txin.read_many_canonical [OF s d(5)] by simp_all
  have cnt: "r4 = WriteVarIntBuf c' @ r5" "is_u64 c'" using VarInt_read_canonical [OF d(6)] by simp_all
  have outs: "r5 = write_many WriteTxOutBuf outs @ r6" "list_all txout_ok outs" "length outs = nat c'"
      "sum_list (map pk_size outs) \<le> s - sum_list (map sig_size ins)"
    using txout.read_many_canonical [OF _ d(8)] ins(4) by simp_all
  have wit: "map strip tis = ins" "sum_list (map bytes_total (map ti_Witness tis)) \<le>
       s - sum_list (map sig_size ins) - sum_list (map pk_size outs)"
      "if flag = 0 then tis = ins \<and> r6 = r7
       else list_ex (\<lambda>ti. ti_Witness ti \<noteq> []) tis \<and> list_all (witness_ok \<circ> ti_Witness) tis \<and>
         r6 = write_many (writeTxWitnessBuf \<circ> ti_Witness) tis @ r7"
    using readTxWitnesses_canonical [OF d(9) _ ins(2)] outs(4) fl by auto
  have strip: "write_many writeTxInBuf ins = write_many writeTxInBuf tis" "length tis = nat c"
      "sum_list (map sig_size tis) = sum_list (map sig_size ins)" "list_all txin_ok tis"
    using wit(1) write_strip [of tis] ins(2,3)
    by (auto simp: comp_def list.pred_map [symmetric] txin_ok_def list_all_iff)
  have nowit: "flag = 0 \<Longrightarrow> list_all (\<lambda>ti. ti_Witness ti = []) tis"
    using wit(3) ins(2) by (auto simp: list_all_iff)
  have nowit': "flag = 0 \<Longrightarrow> \<not> HasWitness tx" "flag = 0 \<Longrightarrow> list_all (witness_ok \<circ> ti_Witness) tis"
    using nowit tx by (auto simp: HasWitness_def list_ex_iff list_all_iff witness_ok_def maxWitnessItemsPerInput_def)
  have "tx_slab tx \<le> s" using wit(2) strip(3) by (simp add: tx_slab_sum tx)
  moreover have "tx_ok en tx"
    using fl d(4,7) strip outs(2,3) cnt(2) nowit nowit' wit(3) b
    by (auto simp: tx tx_ok_def le_reads split: if_splits)
  moreover have "r = btcEncode en tx @ r'"
    using fl b ins(1) cnt outs(1,3) wit(3) strip nowit'
    by (auto simp: btcEncode_def Let_def tx HasWitness_def le_reads split: if_splits)
  ultimately show ?thesis by simp
qed

interpretation tx: codec "btcEncode en" "btcDecode en" "tx_ok en" tx_slab for en
proof
  show "0 \<le> tx_slab tx" for tx
    using script.slabs_nonneg by (simp add: tx_slab_def)
qed (simp_all add: btcDecode_btcEncode btcDecode_canonical)

section \<open>The encoding of blocks\<close>

definition block_ok :: "MessageEncoding \<Rightarrow> MsgBlock \<Rightarrow> bool" where
  "block_ok en blk \<longleftrightarrow> header_ok (mb_Header blk) \<and> int (length (mb_Transactions blk)) \<le> maxTxPerBlock \<and>
     list_all (\<lambda>tx. tx_ok en tx \<and> tx_slab tx \<le> scriptSlabSize) (mb_Transactions blk)"

interpretation block_tx: codec "btcEncode en" "\<lambda>_. btcDecode en scriptSlabSize"
    "\<lambda>tx. tx_ok en tx \<and> tx_slab tx \<le> scriptSlabSize" "\<lambda>_. 0" for en
proof
  fix s :: int and r x r'
  assume "0 \<le> s" and d: "btcDecode en scriptSlabSize r = Inr (x, r')"
  have "0 \<le> scriptSlabSize" by (simp add: scriptSlabSize_def)
  then show "r = btcEncode en x @ r' \<and> (tx_ok en x \<and> tx_slab x \<le> scriptSlabSize) \<and> 0 \<le> s"
    using btcDecode_canonical [OF _ d] \<open>0 \<le> s\<close> by simp
qed (simp_all add: btcDecode_btcEncode)

lemma readHeader_write: "header_ok h \<Longrightarrow> readBlockHeaderBuf (writeBlockHeaderBuf h @ r) = Inr (h, r)"
  using header.dec_enc [of h 0] by simp

lemma maxTxPerBlock_u64: "maxTxPerBlock < 2 ^ 64"
  by (simp add: maxTxPerBlock_def MaxBlockPayload_def signed_divide_int_def)

interpretation block: codec "MsgBlock_BtcEncode en" "\<lambda>_. MsgBlock_BtcDecode en" "block_ok en" "\<lambda>_. 0" for en
proof
  fix blk r and s :: int
  assume ok: "block_ok en blk"
  then have "int (length (mb_Transactions blk)) < 2 ^ 64"
    using maxTxPerBlock_u64 by (simp add: block_ok_def)
  with ok show "MsgBlock_BtcDecode en (MsgBlock_BtcEncode en blk @ r) = Inr (blk, r)"
    by (simp add: MsgBlock_BtcDecode_def MsgBlock_BtcEncode_def block_ok_def readHeader_write
        VarInt_write_read block_tx.read_write_many sum_list_0)
next
  fix s :: int and r x r'
  assume s: "0 \<le> s" and "MsgBlock_BtcDecode en r = Inr (x, r')"
  then obtain h r1 c r2 txs where d: "readBlockHeaderBuf r = Inr (h, r1)" "ReadVarIntBuf r1 = Inr (c, r2)"
      "c \<le> maxTxPerBlock" "read_many (\<lambda>_. btcDecode en scriptSlabSize) (\<lambda>_. 0) (nat c) 0 r2 = Inr (txs, r')"
    and x: "x = \<lparr>mb_Header = h, mb_Transactions = txs\<rparr>"
    by (auto simp: MsgBlock_BtcDecode_def rbind_eq_Inr split: if_splits)
  then show "r = MsgBlock_BtcEncode en x @ r' \<and> block_ok en x \<and> 0 \<le> s"
    using s header.dec_canonical [OF s d(1)] VarInt_read_canonical [OF d(2)] block_tx.read_many_canonical [OF _ d(4)]
    by (auto simp: MsgBlock_BtcEncode_def block_ok_def)
qed simp

section \<open>Sizes\<close>

lemma foldl_add: "foldl (\<lambda>n x. n + f x) (a::int) xs = a + sum_list (map f xs)"
  by (induction xs arbitrary: a) simp_all

lemma length_WriteVarBytesBuf: "int (length (WriteVarBytesBuf x)) = VarIntSerializeSize (int (length x)) + int (length x)"
  by (simp add: WriteVarBytesBuf_def length_WriteVarIntBuf)

lemma length_writeTxInBuf: "txin_ok ti \<Longrightarrow> int (length (writeTxInBuf ti)) = TxIn_SerializeSize ti"
  by (simp add: writeTxInBuf_def writeOutPointBuf_def TxIn_SerializeSize_def length_WriteVarBytesBuf
      txin_ok_def outpoint_ok_def)

lemma length_WriteTxOutBuf: "int (length (WriteTxOutBuf to)) = TxOut_SerializeSize to"
  by (simp add: WriteTxOutBuf_def TxOut_SerializeSize_def length_WriteVarBytesBuf)

lemma length_writeTxWitnessBuf: "int (length (writeTxWitnessBuf w)) = TxWitness_SerializeSize w"
proof -
  have "TxWitness_SerializeSize w = foldl (\<lambda>n x. n + (VarIntSerializeSize (int (length x)) + int (length x)))
      (VarIntSerializeSize (int (length w))) w"
    by (simp add: TxWitness_SerializeSize_def add.assoc)
  then show ?thesis
    by (simp add: foldl_add writeTxWitnessBuf_def length_WriteVarIntBuf length_write_many length_WriteVarBytesBuf)
qed

lemma length_write_ins:
  "list_all txin_ok tis \<Longrightarrow> sum_list (map (\<lambda>ti. int (length (writeTxInBuf ti))) tis) = sum_list (map TxIn_SerializeSize tis)"
  by (induction tis) (simp_all add: length_writeTxInBuf)

lemma length_btcEncode_base:
  "list_all txin_ok (tx_TxIn tx) \<Longrightarrow> int (length (btcEncode BaseEncoding tx)) = baseSize tx"
  by (simp add: btcEncode_def baseSize_def foldl_add length_WriteVarIntBuf length_write_ins
      length_write_many length_WriteTxOutBuf Let_def)

lemma length_btcEncode_witness:
  "list_all txin_ok (tx_TxIn tx) \<Longrightarrow> int (length (btcEncode WitnessEncoding tx)) = SerializeSize tx"
  by (simp add: btcEncode_def SerializeSize_def baseSize_def foldl_add length_WriteVarIntBuf length_write_ins
      length_write_many length_WriteTxOutBuf length_writeTxWitnessBuf Let_def)

text \<open>A staking-style transaction with one witness item, used by the witnesses.\<close>

definition sample_tx :: MsgTx where
  "sample_tx = \<lparr>tx_Version = 6,
     tx_TxIn = [\<lparr>ti_PreviousOutPoint = \<lparr>op_Hash = replicate 32 7, op_Index = 1\<rparr>,
       ti_SignatureScript = [1, 2], ti_Witness = [[3]], ti_Sequence = 0xffffffff\<rparr>],
     tx_TxOut = [\<lparr>to_Value = 5, to_PkScript = [0x6a]\<rparr>], tx_LockTime = 0\<rparr>"

definition sample_block :: MsgBlock where
  "sample_block = \<lparr>mb_Header = \<lparr>bh_Version = 1, bh_PrevBlock = replicate 32 0, bh_MerkleRoot = replicate 32 1,
     bh_Timestamp = 1000, bh_Bits = 0x1d00ffff, bh_Nonce = 9\<rparr>, mb_Transactions = [sample_tx]\<rparr>"

lemma sample_tx_ok [simp]: "tx_ok WitnessEncoding sample_tx" "tx_slab sample_tx = 4" "list_all txin_ok (tx_TxIn sample_tx)"
  by (simp_all add: sample_tx_def tx_ok_def tx_slab_def tx_scripts_def txin_ok_def outpoint_ok_def script_ok_def
      txout_ok_def witness_ok_def maxTxInPerMessage_def maxTxOutPerMessage_def maxWitnessItemSize_def
      maxWitnessItemsPerInput_def MaxMessagePayload_def signed_divide_int_def)

lemma sample_block_ok [simp]: "block_ok WitnessEncoding sample_block"
  by (simp add: block_ok_def sample_block_def header_ok_def scriptSlabSize_def maxTxPerBlock_def
      MaxBlockPayload_def signed_divide_int_def)

section \<open>Properties\<close>

text \<open>
  C5. Round trip of transactions. Decoding what the encoder wrote gives back the transaction
  and leaves exactly the bytes that follow it, in both encodings, for every transaction
  whose fields fit their wire types and whose scripts fit the decode buffer.
\<close>
theorem tx_roundtrip:
  assumes "tx_ok en tx" and "tx_slab tx \<le> scriptSlabSize"
  shows "btcDecode en scriptSlabSize (btcEncode en tx @ r) = Inr (tx, r)"
  using assms by (rule tx.dec_enc)

theorem tx_roundtrip_witness:
  "btcDecode WitnessEncoding scriptSlabSize (btcEncode WitnessEncoding sample_tx @ [1]) = Inr (sample_tx, [1])"
  by (rule tx_roundtrip) (simp_all add: scriptSlabSize_def)

text \<open>
  C6. Canonical encoding. The decoder accepts only what the encoder produces: if it returns
  a transaction, the bytes it consumed are the encoding of that transaction. A transaction
  has one serialization, so its hash cannot be changed by re-encoding it.
\<close>
theorem tx_canonical:
  assumes "btcDecode en scriptSlabSize r = Inr (tx, r')"
  shows "r = btcEncode en tx @ r' \<and> tx_ok en tx"
  using tx.dec_canonical [OF _ assms] by (simp add: scriptSlabSize_def)

theorem tx_canonical_witness:
  "\<exists>r tx. btcDecode WitnessEncoding scriptSlabSize r = Inr (tx, []) \<and> r = btcEncode WitnessEncoding tx"
proof -
  have d: "btcDecode WitnessEncoding scriptSlabSize (btcEncode WitnessEncoding sample_tx @ []) = Inr (sample_tx, [])"
    by (rule tx.dec_enc) (simp_all add: scriptSlabSize_def)
  from tx_canonical [OF d] d show ?thesis by auto
qed

text \<open>
  C7. The decode buffer rejects valid encodings. A transaction whose scripts together exceed
  the 4 MiB script buffer is encoded but never decoded, although blocks may hold 5,000,000
  bytes: the decoder answers with an error on the encoder's own output.
\<close>
theorem tx_oversize_rejected:
  assumes "tx_ok en tx" and "scriptSlabSize < tx_slab tx"
  shows "\<exists>e. btcDecode en scriptSlabSize (btcEncode en tx @ r) = Inl e"
proof (cases "btcDecode en scriptSlabSize (btcEncode en tx @ r)")
  case (Inr y)
  then obtain tx' r' where d: "btcDecode en scriptSlabSize (btcEncode en tx @ r) = Inr (tx', r')" by (cases y) auto
  have "btcEncode en tx @ r = btcEncode en tx' @ r' \<and> tx_ok en tx' \<and> tx_slab tx' \<le> scriptSlabSize"
    using tx.dec_canonical [OF _ d] by (simp add: scriptSlabSize_def)
  then show ?thesis using tx.enc_prefix_free [of en tx tx' r r'] assms by auto
qed simp

definition oversize_tx :: MsgTx where
  "oversize_tx = \<lparr>tx_Version = 1,
     tx_TxIn = [\<lparr>ti_PreviousOutPoint = \<lparr>op_Hash = replicate 32 7, op_Index = 1\<rparr>,
       ti_SignatureScript = [], ti_Witness = [], ti_Sequence = 0\<rparr>],
     tx_TxOut = [\<lparr>to_Value = 0, to_PkScript = replicate 2400000 0x6a\<rparr>,
                 \<lparr>to_Value = 0, to_PkScript = replicate 2400000 0x6a\<rparr>], tx_LockTime = 0\<rparr>"

theorem tx_oversize_rejected_witness:
  "SerializeSize oversize_tx < MaxBlockPayload \<and>
   (\<exists>e. btcDecode WitnessEncoding scriptSlabSize (btcEncode WitnessEncoding oversize_tx @ []) = Inl e)"
proof
  show "SerializeSize oversize_tx < MaxBlockPayload"
    by (simp add: oversize_tx_def SerializeSize_def baseSize_def HasWitness_def TxIn_SerializeSize_def
        TxOut_SerializeSize_def VarIntSerializeSize_def MaxBlockPayload_def)
  show "\<exists>e. btcDecode WitnessEncoding scriptSlabSize (btcEncode WitnessEncoding oversize_tx @ []) = Inl e"
    by (rule tx_oversize_rejected)
      (simp_all add: oversize_tx_def tx_ok_def tx_slab_def tx_scripts_def txin_ok_def outpoint_ok_def script_ok_def
        txout_ok_def witness_ok_def maxTxInPerMessage_def maxTxOutPerMessage_def maxWitnessItemSize_def
        maxWitnessItemsPerInput_def MaxMessagePayload_def signed_divide_int_def scriptSlabSize_def)
qed

text \<open>
  C8. Round trip and canonical encoding of blocks: a block decodes from its own encoding, and
  whatever decodes as a block is the encoding of that block.
\<close>
theorem block_roundtrip:
  "(block_ok en blk \<longrightarrow> MsgBlock_BtcDecode en (MsgBlock_BtcEncode en blk @ r) = Inr (blk, r)) \<and>
   (MsgBlock_BtcDecode en bs = Inr (blk, r) \<longrightarrow> bs = MsgBlock_BtcEncode en blk @ r \<and> block_ok en blk)"
  using block.dec_enc [of en blk 0 r] block.dec_canonical [of 0 en bs blk r] by simp

theorem block_roundtrip_witness:
  "MsgBlock_BtcDecode WitnessEncoding (MsgBlock_BtcEncode WitnessEncoding sample_block @ [5]) = Inr (sample_block, [5])"
  using block_roundtrip [of WitnessEncoding sample_block "[5]"] by simp

text \<open>
  The size functions, on which fees and the weight limit rest, are the lengths of the two
  serializations.
\<close>
lemma tx_sizes:
  assumes "list_all txin_ok (tx_TxIn tx)"
  shows "SerializeSize tx = int (length (btcEncode WitnessEncoding tx)) \<and>
    SerializeSizeStripped tx = int (length (btcEncode BaseEncoding tx))"
  using assms by (simp add: length_btcEncode_witness length_btcEncode_base SerializeSizeStripped_def)

end
