(* ===== verification/SlothVdf.thy ===== *)
theory SlothVdf
  imports Prelude
begin

text \<open>
  The Sloth delay function (\<^verbatim>\<open>blockchain/vdf.go\<close>): \<open>T\<close> sequential modular square roots, and the
  verification by \<open>T\<close> squarings. The cancellation of the context is a parameter \<open>done\<close> that
  tells at which loop index the context is found done.
\<close>

section \<open>Model\<close>

record VDFParams =
  vp_P :: int
  vp_Exp :: int
  vp_Half :: int

definition NewVDFParams :: "int \<Rightarrow> VDFParams" where
  "NewVDFParams p = \<lparr>vp_P = p, vp_Exp = (p + 1) div 4, vp_Half = (p - 1) div 2\<rparr>"

text \<open>\<^verbatim>\<open>big.Int.Exp\<close> for a non-negative exponent and a positive modulus.\<close>

definition big_Exp :: "int \<Rightarrow> int \<Rightarrow> int \<Rightarrow> int" where
  "big_Exp x y m = x ^ nat y mod m"

definition toQR :: "VDFParams \<Rightarrow> int \<Rightarrow> int" where
  "toQR vp x =
     (if x = 0 then 1
      else if big_Exp x (vp_Half vp) (vp_P vp) = 1 then x
      else vp_P vp - x)"

text \<open>
  The decile loop: it stores the next multiple of ten while the step counter has crossed it.
  The products are \<^verbatim>\<open>uint64\<close> products.
\<close>

function decile_loop :: "int \<Rightarrow> int \<Rightarrow> int \<Rightarrow> int list \<Rightarrow> int \<times> int list" where
  "decile_loop i T nextDecile stored =
     (if nextDecile \<le> 9 \<and> u64 (i * 10) \<ge> u64 (nextDecile * T)
      then decile_loop i T (nextDecile + 1) (stored @ [u32 (nextDecile * 10)])
      else (nextDecile, stored))"
  by pat_completeness auto
termination by (relation "measure (\<lambda>(i, T, nextDecile, stored). nat (10 - nextDecile))") auto

declare decile_loop.simps [simp del]

text \<open>
  The loop of \<^verbatim>\<open>SlothEval\<close> with \<open>n\<close> iterations to go. The result is the value (None when
  cancelled) and the progress values stored so far.
\<close>

primrec SlothEval_loop ::
  "VDFParams \<Rightarrow> (int \<Rightarrow> bool) \<Rightarrow> bool \<Rightarrow> int \<Rightarrow> nat \<Rightarrow> int \<Rightarrow> int \<Rightarrow> int \<Rightarrow> int list \<Rightarrow> int option \<times> int list" where
  "SlothEval_loop vp done progress T 0 i x nextDecile stored = (Some x, stored)"
| "SlothEval_loop vp done progress T (Suc n) i x nextDecile stored =
     (if i mod 1024 = 0 \<and> done i then (None, stored)
      else
        let (nextDecile, stored) =
              (if progress then decile_loop i T nextDecile stored else (nextDecile, stored))
        in SlothEval_loop vp done progress T n (i + 1) (big_Exp x (vp_Exp vp) (vp_P vp)) nextDecile stored)"

definition SlothEval ::
  "(int \<Rightarrow> bool) \<Rightarrow> bytes \<Rightarrow> int \<Rightarrow> VDFParams \<Rightarrow> bool \<Rightarrow> int option \<times> int list" where
  "SlothEval done seed T vp progress =
     (let x = be_val seed mod vp_P vp; x = toQR vp x in
      SlothEval_loop vp done progress T (nat T) 0 x 1 [])"

primrec SlothVerify_loop :: "VDFParams \<Rightarrow> nat \<Rightarrow> int \<Rightarrow> int" where
  "SlothVerify_loop vp 0 result = result"
| "SlothVerify_loop vp (Suc n) result = SlothVerify_loop vp n ((result * result) mod vp_P vp)"

definition SlothVerify :: "bytes \<Rightarrow> int \<Rightarrow> int \<Rightarrow> VDFParams \<Rightarrow> bool" where
  "SlothVerify seed y T vp =
     (let want = be_val seed mod vp_P vp; want = toQR vp want;
          result = SlothVerify_loop vp (nat T) y
      in result = want)"

section \<open>Fermat's little theorem\<close>

definition is_prime :: "int \<Rightarrow> bool" where
  "is_prime p \<longleftrightarrow> 1 < p \<and> (\<forall>d. 0 < d \<longrightarrow> d dvd p \<longrightarrow> d = 1 \<or> d = p)"

lemma prime_coprime:
  assumes "is_prime p" and "\<not> p dvd a"
  shows "coprime a p"
proof -
  have "gcd a p dvd p" "0 < gcd a p" using assms(1) by (simp_all add: is_prime_def)
  then have "gcd a p = 1 \<or> gcd a p = p" using assms(1) by (auto simp: is_prime_def)
  moreover have "gcd a p \<noteq> p" using assms(2) by (metis gcd_dvd1)
  ultimately show ?thesis by (simp add: coprime_iff_gcd_eq_1)
qed

lemma prime_dvd_mult: "is_prime p \<Longrightarrow> p dvd a * b \<Longrightarrow> p dvd a \<or> p dvd b"
  using prime_coprime [of p a] by (metis coprime_commute coprime_dvd_mult_right_iff)

lemma prime_dvd_prod: "finite S \<Longrightarrow> is_prime p \<Longrightarrow> p dvd prod f S \<Longrightarrow> \<exists>x\<in>S. p dvd f x"
proof (induction S rule: finite_induct)
  case empty
  then show ?case by (auto simp: is_prime_def)
next
  case (insert x S)
  then show ?case using prime_dvd_mult [of p "f x" "prod f S"] by auto
qed

lemma prime_cancel:
  fixes a b c :: int
  assumes "is_prime p" and "\<not> p dvd c" and "(a * c) mod p = (b * c) mod p"
  shows "a mod p = b mod p"
proof -
  have "p dvd (a - b) * c" using assms(3) by (simp add: mod_eq_dvd_iff left_diff_distrib)
  then show ?thesis using prime_dvd_mult [OF assms(1)] assms(2) by (auto simp: mod_eq_dvd_iff)
qed

lemma small_not_dvd: "0 < x \<Longrightarrow> x < p \<Longrightarrow> \<not> p dvd (x::int)"
  by (meson not_less zdvd_imp_le)

lemma fermat:
  assumes p: "is_prime p" and a: "\<not> p dvd a"
  shows "a ^ nat (p - 1) mod p = 1"
proof -
  let ?S = "{1..<p}" and ?f = "\<lambda>i. (a * i) mod p"
  have p1: "1 < p" using p by (simp add: is_prime_def)
  have inj: "inj_on ?f ?S"
  proof (rule inj_onI)
    fix i j assume ij: "i \<in> ?S" "j \<in> ?S" and "?f i = ?f j"
    then have "(i * a) mod p = (j * a) mod p" by (simp add: mult.commute)
    then have "i mod p = j mod p" using prime_cancel [OF p a] by blast
    then show "i = j" using ij by simp
  qed
  have into: "?f ` ?S \<subseteq> ?S"
  proof
    fix y assume "y \<in> ?f ` ?S"
    then obtain i where i: "1 \<le> i" "i < p" "y = (a * i) mod p" by auto
    have "\<not> p dvd a * i" using prime_dvd_mult [OF p] a small_not_dvd [of i p] i by auto
    then have "y \<noteq> 0" using i by (simp add: dvd_eq_mod_eq_0)
    moreover have "0 \<le> y" "y < p" using i p1 by simp_all
    ultimately show "y \<in> ?S" by simp
  qed
  have onto: "?f ` ?S = ?S" using inj into by (simp add: endo_inj_surj)
  have "prod (\<lambda>i. i) ?S = prod ?f ?S"
    using prod.reindex [OF inj, of "\<lambda>i. i"] onto by simp
  then have "prod (\<lambda>i. i) ?S mod p = prod (\<lambda>i. a * i) ?S mod p"
    by (simp add: mod_prod_eq)
  also have "prod (\<lambda>i. a * i) ?S = a ^ nat (p - 1) * prod (\<lambda>i. i) ?S"
    by (simp add: prod.distrib)
  finally have "(a ^ nat (p - 1) * prod (\<lambda>i. i) ?S) mod p = (1 * prod (\<lambda>i. i) ?S) mod p" by simp
  moreover have "\<not> p dvd prod (\<lambda>i. i) ?S"
    using prime_dvd_prod [OF _ p, of ?S "\<lambda>i. i"] small_not_dvd by auto
  ultimately have "a ^ nat (p - 1) mod p = 1 mod p" using prime_cancel [OF p] by blast
  then show ?thesis using p1 by simp
qed

section \<open>Square roots of quadratic residues\<close>

text \<open>
  What the parameters rely on: a prime that is 3 modulo 4. The two exponents are then the
  ones of \<open>NewVDFParams\<close>.
\<close>

definition vdf_prime :: "int \<Rightarrow> bool" where
  "vdf_prime p \<longleftrightarrow> is_prime p \<and> p mod 4 = 3"

definition legendre_exp :: "int \<Rightarrow> nat" where
  "legendre_exp p = nat ((p - 1) div 2)"

definition root_exp :: "int \<Rightarrow> nat" where
  "root_exp p = nat ((p + 1) div 4)"

definition residue :: "int \<Rightarrow> int \<Rightarrow> bool" where
  "residue p z \<longleftrightarrow> z ^ legendre_exp p mod p = 1"

definition root :: "int \<Rightarrow> int \<Rightarrow> int" where
  "root p x = x ^ root_exp p mod p"

definition sq :: "int \<Rightarrow> int \<Rightarrow> int" where
  "sq p x = (x * x) mod p"

lemma vdf_primeD: "vdf_prime p \<Longrightarrow> is_prime p" "vdf_prime p \<Longrightarrow> p mod 4 = 3" "vdf_prime p \<Longrightarrow> 1 < p"
  by (simp_all add: vdf_prime_def is_prime_def)

lemma exponents:
  assumes "vdf_prime p"
  shows "odd (legendre_exp p)" "2 * legendre_exp p = nat (p - 1)" "2 * root_exp p = legendre_exp p + 1"
proof -
  obtain k where "p = 4 * k + 3" using vdf_primeD(2) [OF assms] by (metis mult_div_mod_eq)
  moreover from this have "0 \<le> k" using vdf_primeD(3) [OF assms] by simp
  ultimately obtain n :: nat where n: "p = 4 * int n + 3" using nonneg_int_cases by metis
  have "(p - 1) div 2 = int (2 * n + 1)" "(p + 1) div 4 = int (n + 1)" "p - 1 = int (4 * n + 2)"
    using n by simp_all
  then have "legendre_exp p = 2 * n + 1" "root_exp p = n + 1" "nat (p - 1) = 4 * n + 2"
    unfolding legendre_exp_def root_exp_def by (simp_all only: nat_int)
  then show "odd (legendre_exp p)" "2 * legendre_exp p = nat (p - 1)" "2 * root_exp p = legendre_exp p + 1"
    by simp_all
qed

lemma residue_not_dvd:
  assumes "vdf_prime p" and "residue p z"
  shows "\<not> p dvd z"
proof
  assume "p dvd z"
  moreover have "0 < legendre_exp p" using exponents(1) [OF assms(1)] by (cases "legendre_exp p") auto
  ultimately have "p dvd z ^ legendre_exp p" by (meson dvd_power dvd_trans)
  then show False using assms(2) by (simp add: residue_def dvd_eq_mod_eq_0)
qed

lemma residue_mod [simp]: "residue p (z mod p) = residue p z"
  by (simp add: residue_def power_mod)

lemma residue_power:
  assumes "vdf_prime p" and "residue p z"
  shows "residue p (z ^ n)"
proof -
  have "(z ^ n) ^ legendre_exp p mod p = (z ^ legendre_exp p) ^ n mod p"
    by (simp add: power_mult [symmetric] mult.commute)
  also have "\<dots> = (z ^ legendre_exp p mod p) ^ n mod p" by (simp add: power_mod)
  also have "\<dots> = 1" using assms(2) vdf_primeD(3) [OF assms(1)] by (simp add: residue_def)
  finally show ?thesis by (simp add: residue_def)
qed

lemma residue_square: "vdf_prime p \<Longrightarrow> \<not> p dvd y \<Longrightarrow> residue p (y * y)"
  using fermat [of p y] exponents(2) [of p]
  by (simp add: vdf_primeD residue_def power_mult_distrib power_add [symmetric] mult_2 [symmetric])

lemma euler:
  assumes "vdf_prime p" and z: "\<not> p dvd z"
  shows "z ^ legendre_exp p mod p = 1 \<or> z ^ legendre_exp p mod p = p - 1"
proof -
  let ?w = "z ^ legendre_exp p"
  note p1 = vdf_primeD(3) [OF assms(1)]
  have "(?w * ?w) mod p = 1"
    using fermat [OF vdf_primeD(1) [OF assms(1)] z] exponents(2) [OF assms(1)]
    by (simp add: power_add [symmetric] mult_2 [symmetric])
  then have "(?w * ?w) mod p = 1 mod p" using p1 by simp
  then have "p dvd ?w * ?w - 1" by (simp add: mod_eq_dvd_iff)
  then have "p dvd (?w - 1) * (?w - (- 1))" by (simp add: algebra_simps)
  then consider "p dvd ?w - 1" | "p dvd ?w - (- 1)"
    using prime_dvd_mult [OF vdf_primeD(1) [OF assms(1)]] by blast
  then show ?thesis
  proof cases
    case 1
    then have "?w mod p = 1 mod p" by (simp only: mod_eq_dvd_iff)
    then show ?thesis using p1 by simp
  next
    case 2
    then have "?w mod p = (- 1) mod p" by (simp only: mod_eq_dvd_iff)
    then show ?thesis using p1 by (simp add: zmod_minus1)
  qed
qed

lemma residue_neg:
  assumes "vdf_prime p" and z: "\<not> p dvd z"
  shows "residue p (- z) \<longleftrightarrow> \<not> residue p z"
proof -
  note p1 = vdf_primeD(3) [OF assms(1)]
  have "(- z) ^ legendre_exp p mod p = (- (z ^ legendre_exp p mod p)) mod p"
    using exponents(1) [OF assms(1)] by (simp add: power_minus_odd mod_minus_eq)
  moreover have "(- 1) mod p = p - 1" "(1 - p) mod p = 1 mod p"
    using p1 by (simp_all add: zmod_minus1 mod_diff_right_eq [symmetric])
  moreover have "p \<noteq> 2" using vdf_primeD(2) [OF assms(1)] by auto
  ultimately show ?thesis
    using euler [OF assms] p1 by (auto simp: residue_def)
qed

lemma toQR_eq: "toQR (NewVDFParams p) x = (if x = 0 then 1 else if residue p x then x else p - x)"
  by (simp add: toQR_def big_Exp_def residue_def legendre_exp_def NewVDFParams_def)

lemma toQR_residue:
  assumes "vdf_prime p" and "0 \<le> x" and "x < p"
  shows "residue p (toQR (NewVDFParams p) x)" and "0 < toQR (NewVDFParams p) x" and "toQR (NewVDFParams p) x < p"
proof -
  note p1 = vdf_primeD(3) [OF assms(1)]
  have nd: "x \<noteq> 0 \<Longrightarrow> \<not> p dvd x" using small_not_dvd [of x p] assms by simp
  have "residue p (p - x) \<longleftrightarrow> residue p (- x)"
    using residue_mod [of p "p - x"] residue_mod [of p "- x"] by simp
  then have "x \<noteq> 0 \<Longrightarrow> \<not> residue p x \<Longrightarrow> residue p (p - x)"
    using residue_neg [OF assms(1) nd] by blast
  moreover have "residue p 1" using p1 by (simp add: residue_def)
  ultimately show "residue p (toQR (NewVDFParams p) x)" by (simp add: toQR_eq)
  show "0 < toQR (NewVDFParams p) x" and "toQR (NewVDFParams p) x < p"
    using assms p1 by (auto simp: toQR_eq)
qed

lemma sq_root:
  assumes "vdf_prime p" and "residue p z"
  shows "sq p (root p z) = z mod p"
proof -
  have "sq p (root p z) = z ^ (2 * root_exp p) mod p"
    by (simp add: sq_def root_def mod_mult_eq power_add [symmetric] mult_2)
  also have "\<dots> = (z ^ legendre_exp p mod p * z) mod p"
    unfolding exponents(3) [OF assms(1)] by (simp add: mod_mult_right_eq mult.commute)
  finally show ?thesis using assms(2) by (simp add: residue_def)
qed

lemma residue_root: "vdf_prime p \<Longrightarrow> residue p x \<Longrightarrow> residue p (root p x)"
  by (simp add: root_def residue_power)

lemma residue_sq: "vdf_prime p \<Longrightarrow> residue p x \<Longrightarrow> residue p (sq p x)"
  by (simp add: sq_def residue_square residue_not_dvd)

lemma square_roots:
  assumes "vdf_prime p" and "sq p a = sq p b"
  shows "a mod p = b mod p \<or> a mod p = (- b) mod p"
proof -
  have "p dvd (a - b) * (a - - b)" using assms(2) by (simp add: sq_def mod_eq_dvd_iff algebra_simps)
  then have "p dvd a - b \<or> p dvd a - - b" using prime_dvd_mult [OF vdf_primeD(1) [OF assms(1)]] by blast
  then show ?thesis by (simp only: mod_eq_dvd_iff)
qed

lemma sq_inj:
  assumes "vdf_prime p" and "residue p a" and "residue p b" and "sq p a = sq p b"
  shows "a mod p = b mod p"
proof (rule ccontr)
  assume "a mod p \<noteq> b mod p"
  then have "residue p (- b)" using square_roots [OF assms(1,4)] assms(2) residue_mod by metis
  then show False using residue_neg [OF assms(1)] residue_not_dvd [OF assms(1)] assms(3) by blast
qed

lemma residue_roots: "vdf_prime p \<Longrightarrow> residue p x \<Longrightarrow> residue p ((root p ^^ n) x)"
  by (induction n) (simp_all add: residue_root)

lemma sq_mod: "sq p (x mod p) = sq p x"
  by (simp add: sq_def mod_mult_eq)

lemma sqs_mod: "(sq p ^^ n) (x mod p) mod p = (sq p ^^ n) x mod p"
  by (cases n) (simp_all add: funpow_Suc_right sq_mod del: funpow.simps)

lemma sqs_roots: "vdf_prime p \<Longrightarrow> residue p x \<Longrightarrow> (sq p ^^ n) ((root p ^^ n) x) mod p = x mod p"
proof (induction n)
  case (Suc n)
  have "(root p ^^ Suc n) x = root p ((root p ^^ n) x)" by simp
  then have "(sq p ^^ Suc n) ((root p ^^ Suc n) x) = (sq p ^^ n) (sq p (root p ((root p ^^ n) x)))"
    by (simp only: funpow_Suc_right comp_def)
  also have "\<dots> = (sq p ^^ n) ((root p ^^ n) x mod p)"
    using Suc by (simp add: sq_root residue_roots)
  finally show ?case using Suc by (simp add: sqs_mod)
qed simp

lemma sqs_inj:
  "vdf_prime p \<Longrightarrow> residue p a \<Longrightarrow> residue p b \<Longrightarrow> (sq p ^^ n) a mod p = (sq p ^^ n) b mod p \<Longrightarrow> a mod p = b mod p"
proof (induction n arbitrary: a b)
  case (Suc n)
  have "(sq p ^^ n) (sq p a) mod p = (sq p ^^ n) (sq p b) mod p"
    using Suc.prems(4) by (simp only: funpow_Suc_right comp_def)
  then have "sq p a mod p = sq p b mod p"
    using Suc.IH residue_sq Suc.prems(1-3) by blast
  then have "sq p a = sq p b" by (simp add: sq_def)
  then show ?case using Suc.prems(1-3) by (intro sq_inj)
qed simp

section \<open>Evaluation and verification\<close>

lemma SlothVerify_loop_sqs: "SlothVerify_loop (NewVDFParams p) n y = (sq p ^^ n) y"
proof (induction n arbitrary: y)
  case (Suc n)
  then show ?case
    by (simp add: NewVDFParams_def sq_def [symmetric] funpow_Suc_right del: funpow.simps)
qed simp

lemma SlothEval_loop_roots:
  "\<forall>i. \<not> done i \<Longrightarrow> fst (SlothEval_loop (NewVDFParams p) done pr T n i x d st) = Some ((root p ^^ n) x)"
proof (induction n arbitrary: i x d st)
  case (Suc n)
  have step: "big_Exp x (vp_Exp (NewVDFParams p)) (vp_P (NewVDFParams p)) = root p x"
    by (simp add: big_Exp_def NewVDFParams_def root_def root_exp_def)
  have "(root p ^^ Suc n) x = (root p ^^ n) (root p x)" by (simp only: funpow_Suc_right comp_def)
  then show ?case using Suc by (cases pr) (simp_all add: step split: prod.split del: funpow.simps)
qed simp

definition sloth_start :: "int \<Rightarrow> bytes \<Rightarrow> int" where
  "sloth_start p seed = toQR (NewVDFParams p) (be_val seed mod p)"

lemma SlothEval_roots:
  "\<forall>i. \<not> done i \<Longrightarrow> fst (SlothEval done seed T (NewVDFParams p) pr) = Some ((root p ^^ nat T) (sloth_start p seed))"
  using SlothEval_loop_roots [of "done" p pr T "nat T" 0 "sloth_start p seed" 1 "[]"]
  by (simp add: SlothEval_def Let_def sloth_start_def NewVDFParams_def)

lemma SlothVerify_sqs: "SlothVerify seed y T (NewVDFParams p) \<longleftrightarrow> (sq p ^^ nat T) y = sloth_start p seed"
  by (simp add: SlothVerify_def Let_def sloth_start_def SlothVerify_loop_sqs) (simp add: NewVDFParams_def)

lemma sloth_start_ok:
  assumes "vdf_prime p"
  shows "residue p (sloth_start p seed)" "0 < sloth_start p seed" "sloth_start p seed < p"
  using toQR_residue [OF assms, of "be_val seed mod p"] vdf_primeD(3) [OF assms]
  by (simp_all add: sloth_start_def)

lemma sqs_range: "1 < p \<Longrightarrow> 0 < n \<Longrightarrow> (sq p ^^ n) y mod p = (sq p ^^ n) y"
  by (cases n) (simp_all add: sq_def)

lemma accepted_iff:
  fixes seed :: bytes
  assumes p: "vdf_prime p" and T: "0 < T"
  defines "r \<equiv> (root p ^^ nat T) (sloth_start p seed)"
  shows "SlothVerify seed y T (NewVDFParams p) \<longleftrightarrow> y mod p = r \<or> y mod p = p - r"
proof -
  have p1: "1 < p" by (rule vdf_primeD(3) [OF p])
  note st = sloth_start_ok [OF p, of seed]
  obtain n where n: "nat T = Suc n" using T by (cases "nat T") auto
  have rr: "residue p r" unfolding r_def by (rule residue_roots [OF p st(1)])
  have r0: "0 \<le> r" "r < p" using p1 by (simp_all add: r_def n root_def)
  have "r \<noteq> 0" using residue_not_dvd [OF p rr] by auto
  have rev: "(sq p ^^ n) (sq p r) = sloth_start p seed"
  proof -
    have "(sq p ^^ nat T) r = sloth_start p seed"
      using sqs_roots [OF p st(1), of "nat T", folded r_def] sqs_range [OF p1, of "nat T" r] st(2,3) T by simp
    then show ?thesis unfolding n by (simp only: funpow_Suc_right comp_def)
  qed
  have "SlothVerify seed y T (NewVDFParams p) \<longleftrightarrow> (sq p ^^ n) (sq p y) = (sq p ^^ n) (sq p r)"
    unfolding SlothVerify_sqs n rev by (simp only: funpow_Suc_right comp_def)
  also have "\<dots> \<longleftrightarrow> sq p y = sq p r"
  proof
    assume eq: "(sq p ^^ n) (sq p y) = (sq p ^^ n) (sq p r)"
    have "\<not> p dvd y"
    proof
      assume "p dvd y"
      then have "sq p y = 0" by (simp add: sq_def)
      then have "(sq p ^^ n) (sq p y) = 0" by (simp, induction n) (simp_all add: sq_def)
      then show False using eq rev st(2) by simp
    qed
    then have "residue p (sq p y)" by (simp add: sq_def residue_square [OF p])
    then have "sq p y mod p = sq p r mod p"
      using sqs_inj [OF p _ residue_sq [OF p rr], of "sq p y" n] eq by simp
    then show "sq p y = sq p r" by (simp add: sq_def)
  qed simp
  also have "\<dots> \<longleftrightarrow> y mod p = r mod p \<or> y mod p = (- r) mod p"
    using square_roots [OF p, of y r] sq_mod [of p y] sq_mod [of p r] sq_mod [of p "- r"]
    by (auto simp: sq_def)
  also have "\<dots> \<longleftrightarrow> y mod p = r \<or> y mod p = p - r"
    using r0 \<open>r \<noteq> 0\<close> by (simp add: zmod_zminus1_eq_if)
  finally show ?thesis .
qed

lemma decile_loop_stores:
  "1 \<le> d \<Longrightarrow> d \<le> 10 \<Longrightarrow> stored = map ((*) 10) [1..d - 1] \<Longrightarrow>
   \<exists>d'. 1 \<le> d' \<and> d' \<le> 10 \<and> decile_loop i T d stored = (d', map ((*) 10) [1..d' - 1])"
proof (induction i T d stored rule: decile_loop.induct)
  case (1 i T d stored)
  show ?case
  proof (cases "d \<le> 9 \<and> u64 (i * 10) \<ge> u64 (d * T)")
    case True
    have "u32 (d * 10) = 10 * d" using 1(2) True by (simp add: wrap_simps)
    then have "stored @ [u32 (d * 10)] = map ((*) 10) [1..(d + 1) - 1]"
      using 1(2,4) by (simp add: upto_rec2)
    then have "\<exists>d'. 1 \<le> d' \<and> d' \<le> 10 \<and> decile_loop i T (d + 1) (stored @ [u32 (d * 10)]) = (d', map ((*) 10) [1..d' - 1])"
      using 1(1) [OF True] 1(2) True by auto
    moreover have "decile_loop i T d stored = decile_loop i T (d + 1) (stored @ [u32 (d * 10)])"
      using True by (simp only: decile_loop.simps [of i T d] if_True simp_thms)
    ultimately show ?thesis by simp
  next
    case False
    then have "decile_loop i T d stored = (d, stored)" by (simp only: decile_loop.simps [of i T d] if_False)
    then show ?thesis using 1(2-4) by auto
  qed
qed

lemma SlothEval_loop_stores:
  "1 \<le> d \<Longrightarrow> d \<le> 10 \<Longrightarrow>
   \<exists>k\<le>9. snd (SlothEval_loop vp done pr T n i x d (map ((*) 10) [1..d - 1])) = map ((*) 10) [1..k]"
proof (induction n arbitrary: i x d)
  case 0
  then show ?case by (intro exI [of _ "d - 1"]) simp
next
  case (Suc n)
  obtain d' where d': "1 \<le> d'" "d' \<le> 10"
    and eq: "(if pr then decile_loop i T d (map ((*) 10) [1..d - 1]) else (d, map ((*) 10) [1..d - 1]))
      = (d', map ((*) 10) [1..d' - 1])"
    using decile_loop_stores [OF Suc.prems refl, of i T] Suc.prems by (cases pr) auto
  show ?case
  proof (cases "i mod 1024 = 0 \<and> done i")
    case True
    then show ?thesis using Suc.prems by (intro exI [of _ "d - 1"]) simp
  next
    case False
    then show ?thesis
      using Suc.IH [OF d', of "i + 1" "big_Exp x (vp_Exp vp) (vp_P vp)"] by (simp only: SlothEval_loop.simps eq Let_def prod.case if_False)
  qed
qed

lemma SlothEval_loop_cancelled:
  "fst (SlothEval_loop vp done pr T n i x d st) = None \<longleftrightarrow> (\<exists>j. i \<le> j \<and> j < i + int n \<and> j mod 1024 = 0 \<and> done j)"
proof (induction n arbitrary: i x d st)
  case (Suc n)
  have range: "(i \<le> j \<and> j < i + int (Suc n)) \<longleftrightarrow> j = i \<or> (i + 1 \<le> j \<and> j < i + 1 + int n)" for j
    by auto
  have "(\<exists>j. (i \<le> j \<and> j < i + int (Suc n)) \<and> j mod 1024 = 0 \<and> done j) \<longleftrightarrow>
      (i mod 1024 = 0 \<and> done i) \<or> (\<exists>j. (i + 1 \<le> j \<and> j < i + 1 + int n) \<and> j mod 1024 = 0 \<and> done j)"
    unfolding range by metis
  then show ?case using Suc by (cases pr) (auto simp: Let_def split: prod.split)
qed simp

lemma is_prime_iff: "is_prime p \<longleftrightarrow> 1 < p \<and> (\<forall>d\<in>set [2..p - 1]. \<not> d dvd p)"
proof
  assume "is_prime p"
  then have p1: "1 < p" and dv: "0 < d \<Longrightarrow> d dvd p \<Longrightarrow> d = 1 \<or> d = p" for d by (auto simp: is_prime_def)
  have "\<not> d dvd p" if "2 \<le> d" "d \<le> p - 1" for d
    using dv [of d] that by auto
  with p1 show "1 < p \<and> (\<forall>d\<in>set [2..p - 1]. \<not> d dvd p)" by simp
next
  assume r: "1 < p \<and> (\<forall>d\<in>set [2..p - 1]. \<not> d dvd p)"
  show "is_prime p"
    unfolding is_prime_def
  proof (intro conjI allI impI)
    fix d :: int
    assume "0 < d" and "d dvd p"
    moreover from this have "d \<le> p" using r by (simp add: zdvd_imp_le)
    ultimately show "d = 1 \<or> d = p" using r by (cases "d = 1 \<or> d = p") auto
  qed (use r in simp)
qed

lemma vdf_prime_23: "vdf_prime 23"
proof -
  have "[2..23 - 1] = [2, 3, 4, 5, 6, 7, 8, 9, 10, 11, 12, 13, 14, 15, 16, 17, 18, 19, 20, 21, 22 :: int]"
    by code_simp
  then show ?thesis by (simp add: vdf_prime_def is_prime_iff)
qed

section \<open>Properties\<close>

text \<open>
  C9. Completeness of the delay function. For a prime that is 3 modulo 4, an evaluation that
  is not cancelled returns a value below the prime, and verification accepts it, for every
  seed (also one that reduces to zero) and every number of steps.
\<close>
theorem Sloth_complete:
  assumes "vdf_prime p" and "\<forall>i. \<not> done i" and "0 \<le> T"
  shows "\<exists>y. fst (SlothEval done seed T (NewVDFParams p) progress) = Some y \<and> 0 \<le> y \<and> y < p \<and>
    SlothVerify seed y T (NewVDFParams p)"
proof -
  let ?y = "(root p ^^ nat T) (sloth_start p seed)"
  note st = sloth_start_ok [OF assms(1), of seed]
  have p1: "1 < p" by (rule vdf_primeD(3) [OF assms(1)])
  have "0 \<le> ?y \<and> ?y < p" using st p1 by (cases "nat T") (simp_all add: root_def)
  moreover have "SlothVerify seed ?y T (NewVDFParams p)"
  proof (cases "nat T")
    case 0
    then show ?thesis by (simp add: SlothVerify_sqs)
  next
    case (Suc n)
    then show ?thesis
      using sqs_roots [OF assms(1) st(1), of "nat T"] sqs_range [OF p1, of "nat T" ?y] st
      by (simp add: SlothVerify_sqs)
  qed
  ultimately show ?thesis using SlothEval_roots [OF assms(2), of seed T p progress] by blast
qed

theorem Sloth_complete_witness:
  "\<exists>y. fst (SlothEval (\<lambda>_. False) [5] 3 (NewVDFParams 23) True) = Some y \<and> 0 \<le> y \<and> y < 23 \<and>
     SlothVerify [5] y 3 (NewVDFParams 23)"
  by (rule Sloth_complete) (simp_all add: vdf_prime_23)

text \<open>
  C10. What verification accepts. For at least one step, the accepted values are exactly those
  congruent to the evaluated output or to its negative: the evaluation is the only root that
  is itself a quadratic residue, but verification does not ask for that root, nor for a
  value below the prime. Each draw therefore has at least two acceptable outputs.
\<close>
theorem SlothVerify_accepts:
  assumes "vdf_prime p" and "0 < T" and "\<forall>i. \<not> done i"
    and "fst (SlothEval done seed T (NewVDFParams p) progress) = Some r"
  shows "(SlothVerify seed y T (NewVDFParams p) \<longleftrightarrow> y mod p = r \<or> y mod p = p - r) \<and> r \<noteq> p - r"
proof -
  have r: "r = (root p ^^ nat T) (sloth_start p seed)"
    using assms(4) SlothEval_roots [OF assms(3), of seed T p progress] by simp
  have "odd p" using vdf_primeD(2) [OF assms(1)] by presburger
  then have "r \<noteq> p - r" by presburger
  then show ?thesis using accepted_iff [OF assms(1,2), of seed y] r by simp
qed

theorem SlothVerify_accepts_witness:
  "SlothVerify [5] 8 1 (NewVDFParams 23) \<and> SlothVerify [5] 15 1 (NewVDFParams 23)
   \<and> SlothVerify [5] 31 1 (NewVDFParams 23)"
proof -
  have "fst (SlothEval (\<lambda>_. False) [5] 1 (NewVDFParams 23) False) = Some 8" by code_simp
  from SlothVerify_accepts [OF vdf_prime_23 _ _ this] show ?thesis by simp
qed

text \<open>
  Cancellation and progress. The evaluation returns nothing exactly when the context is
  found done at a step that is a multiple of 1024; and the progress it reports is always an
  initial part of 10, 20, \<open>\<dots>\<close>, 90, in order, whatever the number of steps.
\<close>
lemma SlothEval_progress:
  "(fst (SlothEval done seed T vp progress) = None \<longleftrightarrow> (\<exists>j. 0 \<le> j \<and> j < T \<and> j mod 1024 = 0 \<and> done j)) \<and>
   (\<exists>k\<le>9. snd (SlothEval done seed T vp progress) = map ((*) 10) [1..k])"
proof -
  have "(\<exists>k\<le>9. snd (SlothEval done seed T vp progress) = map ((*) 10) [1..k])"
    using SlothEval_loop_stores [of 1] by (simp add: SlothEval_def Let_def)
  moreover have "(\<exists>j. 0 \<le> j \<and> j < int (nat T) \<and> j mod 1024 = 0 \<and> done j) \<longleftrightarrow> (\<exists>j. 0 \<le> j \<and> j < T \<and> j mod 1024 = 0 \<and> done j)"
    by auto
  ultimately show ?thesis
    by (simp add: SlothEval_def Let_def SlothEval_loop_cancelled)
qed

end
