(* ===== verification/Sha256.thy ===== *)
theory Sha256
  imports Prelude
begin

unbundle bit_operations_syntax

text \<open>
  The digest of the Go standard library that the draw uses, \<^verbatim>\<open>crypto/sha256.Sum256\<close>, and its
  double application (\<^verbatim>\<open>chainhash.DoubleHashH\<close>), as functions on byte strings.
\<close>

type_synonym word32 = "32 word"

definition sha256_K :: "word32 list" where
  "sha256_K =
    [0x428a2f98, 0x71374491, 0xb5c0fbcf, 0xe9b5dba5, 0x3956c25b, 0x59f111f1, 0x923f82a4, 0xab1c5ed5,
     0xd807aa98, 0x12835b01, 0x243185be, 0x550c7dc3, 0x72be5d74, 0x80deb1fe, 0x9bdc06a7, 0xc19bf174,
     0xe49b69c1, 0xefbe4786, 0x0fc19dc6, 0x240ca1cc, 0x2de92c6f, 0x4a7484aa, 0x5cb0a9dc, 0x76f988da,
     0x983e5152, 0xa831c66d, 0xb00327c8, 0xbf597fc7, 0xc6e00bf3, 0xd5a79147, 0x06ca6351, 0x14292967,
     0x27b70a85, 0x2e1b2138, 0x4d2c6dfc, 0x53380d13, 0x650a7354, 0x766a0abb, 0x81c2c92e, 0x92722c85,
     0xa2bfe8a1, 0xa81a664b, 0xc24b8b70, 0xc76c51a3, 0xd192e819, 0xd6990624, 0xf40e3585, 0x106aa070,
     0x19a4c116, 0x1e376c08, 0x2748774c, 0x34b0bcb5, 0x391c0cb3, 0x4ed8aa4a, 0x5b9cca4f, 0x682e6ff3,
     0x748f82ee, 0x78a5636f, 0x84c87814, 0x8cc70208, 0x90befffa, 0xa4506ceb, 0xbef9a3f7, 0xc67178f2]"

definition sha256_H0 :: "word32 list" where
  "sha256_H0 =
    [0x6a09e667, 0xbb67ae85, 0x3c6ef372, 0xa54ff53a, 0x510e527f, 0x9b05688c, 0x1f83d9ab, 0x5be0cd19]"

definition ror :: "nat \<Rightarrow> word32 \<Rightarrow> word32" where
  "ror n x = drop_bit n x OR push_bit (32 - n) x"

definition sigma0 :: "word32 \<Rightarrow> word32" where
  "sigma0 x = ror 7 x XOR ror 18 x XOR drop_bit 3 x"

definition sigma1 :: "word32 \<Rightarrow> word32" where
  "sigma1 x = ror 17 x XOR ror 19 x XOR drop_bit 10 x"

text \<open>The message schedule, kept newest word first.\<close>

primrec schedule :: "nat \<Rightarrow> word32 list \<Rightarrow> word32 list" where
  "schedule 0 ws = ws"
| "schedule (Suc n) ws =
     schedule n ((sigma1 (ws ! 1) + ws ! 6 + sigma0 (ws ! 14) + ws ! 15) # ws)"

type_synonym sha_state = "word32 \<times> word32 \<times> word32 \<times> word32 \<times> word32 \<times> word32 \<times> word32 \<times> word32"

definition sha_round :: "sha_state \<Rightarrow> word32 \<times> word32 \<Rightarrow> sha_state" where
  "sha_round st kw =
     (case st of (a, b, c, d, e, f, g, h) \<Rightarrow>
      case kw of (k, w) \<Rightarrow>
      let t1 = h + (ror 6 e XOR ror 11 e XOR ror 25 e) + ((e AND f) XOR (NOT e AND g)) + k + w;
          t2 = (ror 2 a XOR ror 13 a XOR ror 22 a) + ((a AND b) XOR (a AND c) XOR (b AND c))
      in (t1 + t2, a, b, c, d + t1, e, f, g))"

definition bytes_to_word :: "bytes \<Rightarrow> word32" where
  "bytes_to_word bs = word_of_int (be_val bs)"

primrec block_words :: "nat \<Rightarrow> bytes \<Rightarrow> word32 list" where
  "block_words 0 bs = []"
| "block_words (Suc n) bs = bytes_to_word (take 4 bs) # block_words n (drop 4 bs)"

definition sha_block :: "word32 list \<Rightarrow> bytes \<Rightarrow> word32 list" where
  "sha_block hs blk =
     (let ws = rev (schedule 48 (rev (block_words 16 blk))) in
      case foldl sha_round (hs!0, hs!1, hs!2, hs!3, hs!4, hs!5, hs!6, hs!7) (zip sha256_K ws) of
        (a, b, c, d, e, f, g, h) \<Rightarrow>
          [hs!0 + a, hs!1 + b, hs!2 + c, hs!3 + d, hs!4 + e, hs!5 + f, hs!6 + g, hs!7 + h])"

definition sha_pad :: "bytes \<Rightarrow> bytes" where
  "sha_pad msg =
     msg @ [0x80] @ replicate ((119 - length msg mod 64) mod 64) 0 @ be_bytes 8 (8 * int (length msg))"

primrec sha_blocks :: "nat \<Rightarrow> word32 list \<Rightarrow> bytes \<Rightarrow> word32 list" where
  "sha_blocks 0 hs bs = hs"
| "sha_blocks (Suc n) hs bs = sha_blocks n (sha_block hs (take 64 bs)) (drop 64 bs)"

definition sha256 :: "bytes \<Rightarrow> bytes" where
  "sha256 msg =
     (let padded = sha_pad msg in
      concat (map (\<lambda>w. be_bytes 4 (uint w)) (sha_blocks (length padded div 64) sha256_H0 padded)))"

definition sha256d :: "bytes \<Rightarrow> bytes" where
  "sha256d msg = sha256 (sha256 msg)"

lemma length_sha_block: "length (sha_block hs blk) = 8"
  by (simp add: sha_block_def Let_def split: prod.split)

lemma length_sha_blocks: "length hs = 8 \<Longrightarrow> length (sha_blocks n hs bs) = 8"
  by (induction n arbitrary: hs bs) (simp_all add: length_sha_block)

lemma length_sha256 [simp]: "length (sha256 msg) = 32"
proof -
  have "length (concat (map (\<lambda>w. be_bytes 4 (uint w)) ws)) = 4 * length ws" for ws :: "word32 list"
    by (induction ws) simp_all
  then show ?thesis
    using length_sha_blocks [of sha256_H0] by (simp add: sha256_def Let_def sha256_H0_def)
qed

lemma length_sha256d [simp]: "length (sha256d msg) = 32"
  by (simp add: sha256d_def)

text \<open>The padded message is a whole number of blocks.\<close>

lemma sha_pad_blocks: "length (sha_pad msg) mod 64 = 0"
proof -
  define q m where "q = length msg div 64" and "m = length msg mod 64"
  then have n: "length msg = 64 * q + m" "m < 64" by simp_all
  have len: "length (sha_pad msg) = 64 * q + m + 9 + (119 - m) mod 64"
    using n(1) by (simp add: sha_pad_def m_def)
  show ?thesis
  proof (cases "m \<le> 55")
    case True
    then have "(119 - m) mod 64 = (64 + (55 - m)) mod 64" by simp
    also have "\<dots> = 55 - m" by (simp only: mod_add_self1) simp
    finally have "length (sha_pad msg) = 64 * (q + 1)" using len True by simp
    then show ?thesis by simp
  next
    case False
    then have "length (sha_pad msg) = 64 * (q + 2)" using len n(2) by simp
    then show ?thesis by simp
  qed
qed

end
