(* ===== verification/StakeScript.thy ===== *)
theory StakeScript
  imports Tape WireTx SlothVdf Sha256
begin

text \<open>
  The scripts, markers and sentinels of the draw: pool staking outputs and sentinel inputs
  (\<^verbatim>\<open>blockchain/poolstake.go\<close>), VDF result outputs and the draw schedule
  (\<^verbatim>\<open>blockchain/stakescript.go\<close>), the winner's output (\<^verbatim>\<open>blockchain/winnerclaim.go\<close>), settlement
  markers (\<^verbatim>\<open>blockchain/draw.go\<close>) and the seed of the draw (\<^verbatim>\<open>blockchain/vdf.go\<close>). HASH160 and
  Schnorr signatures are third-party code and appear as parameters.
\<close>

section \<open>Model\<close>

definition SatoshiPerBitcoin :: int where "SatoshiPerBitcoin = 100000000"

text \<open>\<^verbatim>\<open>big.Int.FillBytes\<close>: the absolute value, zero-padded; a value that does not fit panics.\<close>

definition FillBytes :: "nat \<Rightarrow> int \<Rightarrow> bytes result" where
  "FillBytes n x = (if \<bar>x\<bar> < 256 ^ n then Inr (be_bytes n \<bar>x\<bar>) else Inl Panic)"

subsection \<open>VDF results\<close>

definition vdfResultPayloadSize :: int where "vdfResultPayloadSize = 324"
definition vdfResultScriptSize :: nat where "vdfResultScriptSize = 328"
definition vdfResultMagic :: bytes where "vdfResultMagic = [0x46, 0x44, 0x52, 0x56]"
definition VDFBountyHalvingHeight :: int where "VDFBountyHalvingHeight = 840000"

definition CalcVDFBounty :: "int \<Rightarrow> int" where
  "CalcVDFBounty height =
     (if height < VDFBountyHalvingHeight then 100 * SatoshiPerBitcoin else 50 * SatoshiPerBitcoin)"

definition BuildVDFResultOpReturn :: "int \<Rightarrow> bytes \<Rightarrow> int \<Rightarrow> int \<Rightarrow> bytes \<Rightarrow> bytes result" where
  "BuildVDFResultOpReturn drawHeight drawBlockHash T vdfOutput submitterWalletHash =
     rbind (FillBytes 256 vdfOutput) (\<lambda>out.
     Inr ([0x6a, 0x4d, word_of_int (vdfResultPayloadSize mod 256), word_of_int (vdfResultPayloadSize div 256)]
          @ vdfResultMagic @ be_bytes 4 drawHeight @ drawBlockHash @ be_bytes 8 T @ out
          @ submitterWalletHash))"

definition IsVDFResultTx :: "MsgTx \<Rightarrow> bool" where
  "IsVDFResultTx tx \<longleftrightarrow> tx_Version tx = TxVersionVDFResult"

definition ExtractVDFResultData :: "MsgTx \<Rightarrow> (int \<times> bytes \<times> int \<times> int \<times> bytes) result" where
  "ExtractVDFResultData tx =
     (case tx_TxOut tx of
        [] \<Rightarrow> Inl PlainError
      | out # _ \<Rightarrow>
          let script = to_PkScript out in
          if length script \<noteq> vdfResultScriptSize then Inl PlainError
          else if script ! 0 \<noteq> 0x6a \<or> script ! 1 \<noteq> 0x4d then Inl PlainError
          else if slice 4 8 script \<noteq> vdfResultMagic then Inl PlainError
          else Inr (be_val (slice 8 12 script), slice 12 44 script, be_val (slice 44 52 script),
                    be_val (slice 52 308 script), slice 308 328 script))"

definition BuildVDFResultTx :: "int \<Rightarrow> bytes \<Rightarrow> int \<Rightarrow> int \<Rightarrow> bytes \<Rightarrow> MsgTx result" where
  "BuildVDFResultTx drawHeight drawBlockHash T vdfOutput submitterWalletHash =
     rbind (BuildVDFResultOpReturn drawHeight drawBlockHash T vdfOutput submitterWalletHash) (\<lambda>script.
     let sentinelHash = vdfResultMagic @ be_bytes 4 drawHeight @ replicate 24 0 in
     Inr \<lparr>tx_Version = TxVersionVDFResult,
          tx_TxIn = [\<lparr>ti_PreviousOutPoint = \<lparr>op_Hash = sentinelHash, op_Index = 0\<rparr>,
                      ti_SignatureScript = [], ti_Witness = [], ti_Sequence = MaxTxInSequenceNum\<rparr>],
          tx_TxOut = [\<lparr>to_Value = 0, to_PkScript = script\<rparr>],
          tx_LockTime = 0\<rparr>)"

subsection \<open>The draw schedule\<close>

definition DrawInterval :: int where "DrawInterval = 36"
definition MaxStakesPerWalletPerDraw :: int where "MaxStakesPerWalletPerDraw = 5"

definition IsDrawBlock :: "int \<Rightarrow> bool" where
  "IsDrawBlock blockHeight \<longleftrightarrow> blockHeight > 0 \<and> blockHeight smod DrawInterval = 0"

definition NextDrawHeight :: "int \<Rightarrow> int" where
  "NextDrawHeight currentHeight =
     (let next = i32 (currentHeight + 1); rem = next smod DrawInterval in
      if rem = 0 then next else i32 (next + (DrawInterval - rem)))"

definition StakedTokenCount :: "int \<Rightarrow> int" where
  "StakedTokenCount atoms = atoms sdiv SatoshiPerBitcoin"

subsection \<open>Signature hash of staking transactions\<close>

text \<open>
  \<^verbatim>\<open>serializeTx\<close> serializes twice, once to count the bytes and once into a buffer of that
  size; both runs write the same bytes.
\<close>

definition serializeTx :: "MsgTx \<Rightarrow> bytes" where
  "serializeTx tx =
     (let n = length (btcEncode WitnessEncoding tx) in
      copy_at (replicate n 0) 0 (btcEncode WitnessEncoding tx))"

definition StakingTxSigHash :: "MsgTx \<Rightarrow> bytes" where
  "StakingTxSigHash msgTx =
     (let blanked = msgTx\<lparr>tx_TxIn := map (\<lambda>ti. ti\<lparr>ti_SignatureScript := [], ti_Witness := []\<rparr>) (tx_TxIn msgTx)\<rparr>
      in sha256 (sha256 (serializeTx blanked)))"

definition pubKeyHash :: "(bytes \<Rightarrow> bytes) \<Rightarrow> bytes \<Rightarrow> bytes" where
  "pubKeyHash Hash160 compressedPubKey = take 20 (Hash160 compressedPubKey @ replicate 20 0)"

subsection \<open>Pool staking outputs\<close>

definition PoolStakingScriptSize :: nat where "PoolStakingScriptSize = 34"
definition PoolStakingMagic :: bytes where "PoolStakingMagic = [0x46, 0x44, 0x52, 0x50]"

definition IsPoolStakingOpReturn :: "bytes \<Rightarrow> bool" where
  "IsPoolStakingOpReturn script \<longleftrightarrow>
     length script = PoolStakingScriptSize \<and> script ! 0 = 0x6a \<and> script ! 1 = 0x20"

definition MakePoolStakingScript :: "bytes \<Rightarrow> int \<Rightarrow> int \<Rightarrow> bytes" where
  "MakePoolStakingScript walletHash amount drawHeight =
     [0x6a, 0x20] @ walletHash @ be_bytes 8 (u64 amount) @ be_bytes 4 drawHeight"

definition ExtractPoolStakingData :: "bytes \<Rightarrow> (bytes \<times> int \<times> int) result" where
  "ExtractPoolStakingData script =
     (if \<not> IsPoolStakingOpReturn script then Inl PlainError
      else Inr (slice 2 22 script, i64 (be_val (slice 22 30 script)), be_val (slice 30 34 script)))"

primrec find_staking_from :: "int \<Rightarrow> TxOut list \<Rightarrow> int \<times> bytes" where
  "find_staking_from i [] = (-1, [])"
| "find_staking_from i (out # outs) =
     (if IsPoolStakingOpReturn (to_PkScript out) then (i, to_PkScript out)
      else find_staking_from (i + 1) outs)"

definition FindPoolStakingOpReturn :: "MsgTx \<Rightarrow> int \<times> bytes" where
  "FindPoolStakingOpReturn msgTx = find_staking_from 0 (tx_TxOut msgTx)"

definition IsPoolStakingTx :: "MsgTx \<Rightarrow> bool" where
  "IsPoolStakingTx tx \<longleftrightarrow>
     (if tx_Version tx \<noteq> TxVersionPoolStake then False else fst (FindPoolStakingOpReturn tx) \<ge> 0)"

text \<open>
  The witness of a staking input. Parsing and verification of Schnorr signatures are the
  parameters \<open>parseSig\<close>, \<open>parseKey\<close> and \<open>verify\<close>.
\<close>

definition VerifyPoolStakingSchnorrWitness ::
  "(bytes \<Rightarrow> 's option) \<Rightarrow> (bytes \<Rightarrow> 'k option) \<Rightarrow> ('s \<Rightarrow> bytes \<Rightarrow> 'k \<Rightarrow> bool) \<Rightarrow> bytes list \<Rightarrow> bytes \<Rightarrow> 'k result" where
  "VerifyPoolStakingSchnorrWitness parseSig parseKey verify witness sigHash =
     (if length witness \<noteq> 2 then Inl PlainError
      else if length (witness ! 0) \<noteq> 64 then Inl PlainError
      else if length (witness ! 1) \<noteq> 33 then Inl PlainError
      else case parseSig (witness ! 0) of None \<Rightarrow> Inl PlainError
        | Some sig \<Rightarrow> (case parseKey (witness ! 1) of None \<Rightarrow> Inl PlainError
        | Some pubKey \<Rightarrow> if \<not> verify sig sigHash pubKey then Inl PlainError else Inr pubKey))"

subsection \<open>Sentinel inputs of settlements\<close>

definition PoolDrawSentinelOutpoint :: "int \<Rightarrow> OutPoint" where
  "PoolDrawSentinelOutpoint drawHeight =
     \<lparr>op_Hash = PoolStakingMagic @ be_bytes 4 drawHeight @ replicate 24 0, op_Index = 0\<rparr>"

definition IsPoolDrawSentinelInput :: "TxIn \<Rightarrow> bool" where
  "IsPoolDrawSentinelInput txIn \<longleftrightarrow>
     slice 0 4 (op_Hash (ti_PreviousOutPoint txIn)) = PoolStakingMagic \<and>
     op_Index (ti_PreviousOutPoint txIn) = 0"

definition PoolSentinelDrawHeight :: "TxIn \<Rightarrow> int" where
  "PoolSentinelDrawHeight txIn = be_val (slice 4 8 (op_Hash (ti_PreviousOutPoint txIn)))"

definition MakePoolDrawSentinelInput :: "int \<Rightarrow> TxIn" where
  "MakePoolDrawSentinelInput drawHeight =
     \<lparr>ti_PreviousOutPoint = PoolDrawSentinelOutpoint drawHeight,
      ti_SignatureScript = 0x04 # be_bytes 4 drawHeight, ti_Witness = [],
      ti_Sequence = MaxTxInSequenceNum\<rparr>"

subsection \<open>Settlement markers, winner outputs and seeds\<close>

definition DrawSettlementMarkerSize :: nat where "DrawSettlementMarkerSize = 10"
definition drawSettlementMagic :: bytes where "drawSettlementMagic = [0x46, 0x44, 0x52, 0x53]"

definition MakeDrawSettlementMarker :: "int \<Rightarrow> bytes" where
  "MakeDrawSettlementMarker drawHeight = [0x6a, 0x08] @ drawSettlementMagic @ be_bytes 4 drawHeight"

definition extractDrawSettlementMarker :: "bytes \<Rightarrow> int option" where
  "extractDrawSettlementMarker pkScript =
     (if length pkScript \<noteq> DrawSettlementMarkerSize then None
      else if pkScript ! 0 \<noteq> 0x6a \<or> pkScript ! 1 \<noteq> 0x08 then None
      else if slice 2 6 pkScript \<noteq> drawSettlementMagic then None
      else Some (be_val (slice 6 10 pkScript)))"

definition IsDrawSettlementTx :: "MsgTx \<Rightarrow> bool" where
  "IsDrawSettlementTx tx \<longleftrightarrow>
     (case tx_TxOut tx of [] \<Rightarrow> False | out # _ \<Rightarrow> extractDrawSettlementMarker (to_PkScript out) \<noteq> None)"

definition MakeWinnerP2WPKHScript :: "bytes \<Rightarrow> bytes" where
  "MakeWinnerP2WPKHScript winnerHash = [0x00, 0x14] @ winnerHash"

definition DrawSeed :: "bytes \<Rightarrow> int \<Rightarrow> bytes result" where
  "DrawSeed blockHash vdfOutput =
     rbind (FillBytes 256 vdfOutput) (\<lambda>out. Inr (sha256 (sha256 (blockHash @ out))))"

definition CalcTargetHash :: "bytes \<Rightarrow> int \<Rightarrow> bytes" where
  "CalcTargetHash blockNHash drawHeight = sha256 (sha256 (blockNHash @ be_bytes 4 drawHeight))"

section \<open>Script formats\<close>

text \<open>
  A script format: a parser that undoes the builder on admissible data and accepts nothing
  else, so that a script and its data determine each other.
\<close>

locale script_format =
  fixes mk :: "'a \<Rightarrow> bytes" and parse :: "bytes \<Rightarrow> 'a option" and ok :: "'a \<Rightarrow> bool"
  assumes parse_mk: "ok x \<Longrightarrow> parse (mk x) = Some x"
    and mk_parse: "parse s = Some x \<Longrightarrow> s = mk x \<and> ok x"
begin

lemma parse_iff: "ok x \<Longrightarrow> parse s = Some x \<longleftrightarrow> s = mk x"
  using parse_mk mk_parse by blast

lemma mk_inj: "ok x \<Longrightarrow> ok y \<Longrightarrow> mk x = mk y \<Longrightarrow> x = y"
  by (metis parse_mk option.inject)

lemma parse_None: "parse s = None \<longleftrightarrow> (\<forall>x. ok x \<longrightarrow> s \<noteq> mk x)"
  by (metis parse_mk mk_parse not_Some_eq)

end

lemma be_4: "is_u32 v \<Longrightarrow> be_val (be_bytes 4 v) = v"
  by (simp add: codec_simps)

lemma be_8: "is_u64 v \<Longrightarrow> be_val (be_bytes 8 v) = v"
  by (simp add: codec_simps)

lemma be_4_val: "length b = 4 \<Longrightarrow> be_bytes 4 (be_val b) = b" "length b = 4 \<Longrightarrow> be_val b < 4294967296"
  using be_val_less [of b 4] by (simp_all add: be_bytes_be_val)

lemma be_8_val: "length b = 8 \<Longrightarrow> be_bytes 8 (be_val b) = b" "length b = 8 \<Longrightarrow> be_val b < 18446744073709551616"
  using be_val_less [of b 8] by (simp_all add: be_bytes_be_val)

lemma be_8_u64: "length b = 8 \<Longrightarrow> be_bytes 8 (u64 (be_val b)) = b"
  using be_8_val [of b] by (simp add: wrap_simps)

lemmas be_reads = be_4 be_8 be_4_val be_8_val be_8_u64

definition stake_data_ok :: "bytes \<times> int \<times> int \<Rightarrow> bool" where
  "stake_data_ok d \<longleftrightarrow> (case d of (w, a, h) \<Rightarrow> length w = 20 \<and> is_i64 a \<and> is_u32 h)"

definition parse_stake :: "bytes \<Rightarrow> (bytes \<times> int \<times> int) option" where
  "parse_stake s = (case ExtractPoolStakingData s of Inl _ \<Rightarrow> None | Inr d \<Rightarrow> Some d)"

lemma ExtractPoolStakingData_Make:
  assumes "length w = 20" and "is_i64 a" and "is_u32 h"
  shows "ExtractPoolStakingData (MakePoolStakingScript w a h) = Inr (w, a, h)"
proof -
  have "i64 (be_val (be_bytes 8 (u64 a))) = a"
    using assms(2) by (simp add: be_8 wrap_simps)
  then show ?thesis
    using assms by (simp add: ExtractPoolStakingData_def MakePoolStakingScript_def IsPoolStakingOpReturn_def
        PoolStakingScriptSize_def be_4)
qed

lemma MakePoolStakingScript_Extract:
  assumes "ExtractPoolStakingData s = Inr (w, a, h)"
  shows "s = MakePoolStakingScript w a h \<and> length w = 20 \<and> is_i64 a \<and> is_u32 h"
proof -
  have s: "length s = 34" "s ! 0 = 0x6a" "s ! 1 = 0x20" and d: "w = slice 2 22 s" "a = i64 (be_val (slice 22 30 s))" "h = be_val (slice 30 34 s)"
    using assms by (auto simp: ExtractPoolStakingData_def IsPoolStakingOpReturn_def PoolStakingScriptSize_def split: if_splits)
  have "s = slice 0 34 s" using s(1) by simp
  also have "\<dots> = slice 0 2 s @ slice 2 22 s @ slice 22 30 s @ slice 30 34 s"
    using slice_split [of 0 2 34 s] slice_split [of 2 22 34 s] slice_split [of 22 30 34 s] by simp
  finally show ?thesis
    using s d nth_0_1_slice [of s] by (simp add: MakePoolStakingScript_def be_reads)
qed

interpretation stake_script: script_format "\<lambda>(w, a, h). MakePoolStakingScript w a h" parse_stake stake_data_ok
proof
  fix x :: "bytes \<times> int \<times> int"
  assume "stake_data_ok x"
  then show "parse_stake ((\<lambda>(w, a, h). MakePoolStakingScript w a h) x) = Some x"
    by (cases x) (simp add: parse_stake_def stake_data_ok_def ExtractPoolStakingData_Make)
next
  fix s and x :: "bytes \<times> int \<times> int"
  assume "parse_stake s = Some x"
  then have "ExtractPoolStakingData s = Inr x" by (simp add: parse_stake_def split: sum.splits)
  then show "s = (\<lambda>(w, a, h). MakePoolStakingScript w a h) x \<and> stake_data_ok x"
    using MakePoolStakingScript_Extract by (cases x) (simp add: stake_data_ok_def)
qed

interpretation marker: script_format MakeDrawSettlementMarker extractDrawSettlementMarker is_u32
proof
  fix h :: int
  assume "is_u32 h"
  then show "extractDrawSettlementMarker (MakeDrawSettlementMarker h) = Some h"
    by (simp add: extractDrawSettlementMarker_def MakeDrawSettlementMarker_def DrawSettlementMarkerSize_def
        drawSettlementMagic_def be_4)
next
  fix s h
  assume "extractDrawSettlementMarker s = Some h"
  then have s: "length s = 10" "s ! 0 = 0x6a" "s ! 1 = 0x08" "slice 2 6 s = drawSettlementMagic" "h = be_val (slice 6 10 s)"
    by (auto simp: extractDrawSettlementMarker_def DrawSettlementMarkerSize_def split: if_splits)
  have "s = slice 0 10 s" using s(1) by simp
  also have "\<dots> = slice 0 2 s @ slice 2 6 s @ slice 6 10 s"
    using slice_split [of 0 2 10 s] slice_split [of 2 6 10 s] by simp
  finally show "s = MakeDrawSettlementMarker h \<and> is_u32 h"
    using s nth_0_1_slice [of s] by (simp add: MakeDrawSettlementMarker_def be_reads)
qed

section \<open>VDF results\<close>

lemma FillBytes_Inr: "0 \<le> x \<Longrightarrow> x < 256 ^ n \<Longrightarrow> FillBytes n x = Inr (be_bytes n x)"
  by (simp add: FillBytes_def)

lemma FillBytes_Inl: "256 ^ n \<le> x \<Longrightarrow> FillBytes n x = Inl Panic"
  by (simp add: FillBytes_def)

definition vdf_script :: "byte \<Rightarrow> byte \<Rightarrow> int \<times> bytes \<times> int \<times> int \<times> bytes \<Rightarrow> bytes" where
  "vdf_script b2 b3 d = (case d of (h, bh, T, y, sub) \<Rightarrow>
     [0x6a, 0x4d, b2, b3] @ vdfResultMagic @ be_bytes 4 h @ bh @ be_bytes 8 T @ be_bytes 256 y @ sub)"

definition vdf_data_ok :: "int \<times> bytes \<times> int \<times> int \<times> bytes \<Rightarrow> bool" where
  "vdf_data_ok d \<longleftrightarrow> (case d of (h, bh, T, y, sub) \<Rightarrow>
     is_u32 h \<and> length bh = 32 \<and> is_u64 T \<and> 0 \<le> y \<and> y < 256 ^ 256 \<and> length sub = 20)"

lemma length_2E: "length xs = 2 \<Longrightarrow> \<exists>a b. xs = [a, b]"
  by (cases xs; cases "tl xs") auto

lemma Build_vdf_script:
  "0 \<le> y \<Longrightarrow> y < 256 ^ 256 \<Longrightarrow> BuildVDFResultOpReturn h bh T y sub = Inr (vdf_script 0x44 0x01 (h, bh, T, y, sub))"
  by (simp add: BuildVDFResultOpReturn_def FillBytes_Inr vdf_script_def vdfResultPayloadSize_def)

lemma Extract_vdf_script:
  assumes "vdf_data_ok d" and "tx_TxOut tx = out # outs" and "to_PkScript out = vdf_script b2 b3 d"
  shows "ExtractVDFResultData tx = Inr d"
proof -
  obtain h bh T y sub where d: "d = (h, bh, T, y, sub)" by (metis prod_cases5)
  have "be_val (be_bytes 256 y) = y" using assms(1) by (simp add: d vdf_data_ok_def be_val_be_bytes)
  then show ?thesis
    using assms(1) d assms(2,3)
    by (simp add: ExtractVDFResultData_def vdf_script_def vdf_data_ok_def vdfResultScriptSize_def vdfResultMagic_def be_4 be_8
        del: power_numeral)
qed

lemma Extract_vdf_inv:
  assumes "ExtractVDFResultData tx = Inr d"
  shows "\<exists>out outs b2 b3. tx_TxOut tx = out # outs \<and> to_PkScript out = vdf_script b2 b3 d \<and> vdf_data_ok d"
proof -
  obtain out outs where o: "tx_TxOut tx = out # outs"
    using assms by (auto simp: ExtractVDFResultData_def split: list.splits)
  define s where "s = to_PkScript out"
  have s: "length s = 328" "s ! 0 = 0x6a" "s ! 1 = 0x4d" "slice 4 8 s = vdfResultMagic"
    and d: "d = (be_val (slice 8 12 s), slice 12 44 s, be_val (slice 44 52 s), be_val (slice 52 308 s), slice 308 328 s)"
    using assms o by (auto simp: ExtractVDFResultData_def s_def Let_def vdfResultScriptSize_def split: if_splits)
  have split: "s = slice 0 2 s @ slice 2 4 s @ slice 4 8 s @ slice 8 12 s @ slice 12 44 s @ slice 44 52 s @ slice 52 308 s @ slice 308 328 s"
    using slice_split [of 0 2 328 s] slice_split [of 2 4 328 s] slice_split [of 4 8 328 s] slice_split [of 8 12 328 s]
      slice_split [of 12 44 328 s] slice_split [of 44 52 328 s] slice_split [of 52 308 328 s] s(1) by simp
  have "length (slice 2 4 s) = 2" using s(1) by simp
  then obtain b2 b3 where b: "slice 2 4 s = [b2, b3]" using length_2E by blast
  have y: "be_bytes 256 (be_val (slice 52 308 s)) = slice 52 308 s" "be_val (slice 52 308 s) < 256 ^ 256"
    using s(1) by (simp_all only: be_bytes_be_val be_val_less length_slice)
  have "s = vdf_script b2 b3 d"
    using split b s nth_0_1_slice [of s] y(1) by (simp add: vdf_script_def d be_reads)
  moreover have "vdf_data_ok d" using s(1) y(2) by (simp add: vdf_data_ok_def d be_reads)
  ultimately show ?thesis using o unfolding s_def by (intro exI conjI)
qed

lemma length_vdf_script: "vdf_data_ok d \<Longrightarrow> length (vdf_script b2 b3 d) = 328"
  by (cases d) (auto simp: vdf_data_ok_def vdf_script_def vdfResultMagic_def)

section \<open>The draw schedule\<close>

lemma IsDrawBlock_iff: "IsDrawBlock h \<longleftrightarrow> 0 < h \<and> h mod 36 = 0"
  by (auto simp: IsDrawBlock_def DrawInterval_def smod_nonneg)

lemma NextDrawHeight_eq:
  assumes "0 \<le> h" and "h < 2 ^ 31 - 36"
  shows "NextDrawHeight h = 36 * (h div 36 + 1)"
proof -
  let ?n = "h + 1"
  have i: "i32 ?n = ?n" using assms by (simp add: wrap_simps)
  have "h = 36 * (h div 36) + h mod 36" "0 \<le> h mod 36" "h mod 36 < 36" by simp_all
  then obtain q r where h: "h = 36 * q + r" "0 \<le> r" "r < 36" "h div 36 = q" by metis
  show ?thesis
  proof (cases "r = 35")
    case True
    then have "?n = 36 * (q + 1)" using h by simp
    then show ?thesis using assms i h by (simp add: NextDrawHeight_def DrawInterval_def smod_nonneg)
  next
    case False
    then have "?n = (r + 1) + 36 * q" "r + 1 < 36" using h by simp_all
    then have m: "?n mod 36 = r + 1" using h(2) by (metis add_nonneg_nonneg mod_mult_self2 mod_pos_pos_trivial zero_le_one)
    moreover have "i32 (?n + (36 - (r + 1))) = ?n + (36 - (r + 1))" using assms h by (simp add: wrap_simps)
    ultimately show ?thesis
      using assms i h by (simp add: NextDrawHeight_def DrawInterval_def smod_nonneg Let_def)
  qed
qed

section \<open>Properties\<close>

text \<open>
  C11. Staking scripts. Building a staking output and parsing it gives back wallet, amount and
  draw height; and whatever parses as a staking output is the script built from its data.
\<close>
theorem staking_script_roundtrip:
  "(length w = 20 \<and> is_i64 a \<and> is_u32 h \<longrightarrow> ExtractPoolStakingData (MakePoolStakingScript w a h) = Inr (w, a, h)) \<and>
   (ExtractPoolStakingData s = Inr (w, a, h) \<longrightarrow> s = MakePoolStakingScript w a h)"
  using ExtractPoolStakingData_Make MakePoolStakingScript_Extract by blast

theorem staking_script_roundtrip_witness:
  "ExtractPoolStakingData (MakePoolStakingScript (replicate 20 7) (-5) 36) = Inr (replicate 20 7, -5, 36)"
  using staking_script_roundtrip [of "replicate 20 7" "-5" 36] by simp

text \<open>
  C12. VDF result transactions. The transaction built for a draw is recognised as a VDF result
  and its data are read back; and every transaction from which VDF data are read carries
  them in the layout of the builder, except that the two length bytes of the push are not
  checked: all their values are accepted.
\<close>
theorem vdf_result_roundtrip:
  assumes "is_u32 h" and "length bh = 32" and "is_u64 T" and "0 \<le> y" and "y < 256 ^ 256" and "length sub = 20"
  shows "(\<exists>tx. BuildVDFResultTx h bh T y sub = Inr tx \<and> IsVDFResultTx tx \<and> ExtractVDFResultData tx = Inr (h, bh, T, y, sub)) \<and>
    (\<forall>tx. ExtractVDFResultData tx = Inr (h, bh, T, y, sub) \<longleftrightarrow>
      (\<exists>out outs b2 b3. tx_TxOut tx = out # outs \<and> to_PkScript out = vdf_script b2 b3 (h, bh, T, y, sub)))"
proof -
  have ok: "vdf_data_ok (h, bh, T, y, sub)" using assms by (simp add: vdf_data_ok_def)
  obtain tx where tx: "BuildVDFResultTx h bh T y sub = Inr tx" "IsVDFResultTx tx"
      "tx_TxOut tx = [\<lparr>to_Value = 0, to_PkScript = vdf_script 0x44 0x01 (h, bh, T, y, sub)\<rparr>]"
    using Build_vdf_script [OF assms(4,5), of h bh T sub]
    by (simp add: BuildVDFResultTx_def IsVDFResultTx_def)
  then have "ExtractVDFResultData tx = Inr (h, bh, T, y, sub)" using Extract_vdf_script [OF ok tx(3)] by simp
  moreover have "ExtractVDFResultData tx = Inr (h, bh, T, y, sub) \<longleftrightarrow>
      (\<exists>out outs b2 b3. tx_TxOut tx = out # outs \<and> to_PkScript out = vdf_script b2 b3 (h, bh, T, y, sub))" for tx
    using Extract_vdf_script [OF ok] Extract_vdf_inv by blast
  ultimately show ?thesis using tx(1,2) by blast
qed

theorem vdf_result_roundtrip_witness:
  "\<exists>tx. BuildVDFResultTx 36 (replicate 32 1) 100 12345 (replicate 20 2) = Inr tx \<and> IsVDFResultTx tx \<and>
     ExtractVDFResultData tx = Inr (36, replicate 32 1, 100, 12345, replicate 20 2)"
  by (rule conjunct1 [OF vdf_result_roundtrip]) simp_all

text \<open>
  The kinds of special outputs cannot be confused: no script is at once a staking output,
  a settlement marker, a VDF result or a winner's output, and the sentinel inputs of
  settlements and of VDF results differ.
\<close>
lemma script_kinds_disjoint:
  "\<not> (IsPoolStakingOpReturn s \<and> extractDrawSettlementMarker s \<noteq> None) \<and>
   (\<forall>w. length w = 20 \<longrightarrow> \<not> IsPoolStakingOpReturn (MakeWinnerP2WPKHScript w) \<and>
          extractDrawSettlementMarker (MakeWinnerP2WPKHScript w) = None) \<and>
   (IsDrawSettlementTx tx \<longrightarrow> ExtractVDFResultData tx = Inl PlainError) \<and>
   (BuildVDFResultTx h bh T y sub = Inr vtx \<longrightarrow> \<not> list_ex IsPoolDrawSentinelInput (tx_TxIn vtx)) \<and>
   IsPoolDrawSentinelInput (MakePoolDrawSentinelInput h)"
  by (auto simp: IsPoolStakingOpReturn_def extractDrawSettlementMarker_def PoolStakingScriptSize_def
      DrawSettlementMarkerSize_def MakeWinnerP2WPKHScript_def IsDrawSettlementTx_def ExtractVDFResultData_def
      vdfResultScriptSize_def BuildVDFResultTx_def rbind_eq_Inr IsPoolDrawSentinelInput_def vdfResultMagic_def
      PoolStakingMagic_def MakePoolDrawSentinelInput_def PoolDrawSentinelOutpoint_def Let_def
      split: if_splits list.splits)

text \<open>
  The next draw height is the least draw height above the current one, for every height a
  chain can have before the \<^verbatim>\<open>int32\<close> height counter runs out.
\<close>
lemma NextDrawHeight_least:
  assumes "0 \<le> h" and "h < 2 ^ 31 - 36"
  shows "IsDrawBlock (NextDrawHeight h) \<and> h < NextDrawHeight h \<and>
    (\<forall>k. h < k \<and> IsDrawBlock k \<longrightarrow> NextDrawHeight h \<le> k)"
proof -
  have eq: "36 * (k div 36) + k mod 36 = k" "k mod 36 < 36" "0 \<le> k mod 36" for k :: int by simp_all
  have "36 * (h div 36 + 1) \<le> k" if "k mod 36 = 0" "h < k" for k
  proof -
    have "h div 36 < k div 36" by (rule ccontr) (use eq [of h] eq [of k] that in linarith)
    then have "h div 36 + 1 \<le> k div 36" by simp
    then have "36 * (h div 36 + 1) \<le> 36 * (k div 36)" by (rule mult_left_mono) simp
    then show ?thesis using eq [of k] that by linarith
  qed
  moreover have "h < 36 * (h div 36 + 1)" using eq(1,2) [of h] by (simp only: distrib_left)
  moreover have "0 \<le> h div 36" using assms(1) by simp
  ultimately show ?thesis using assms NextDrawHeight_eq [OF assms] by (simp add: IsDrawBlock_iff)
qed

end
