(* ===== verification/Settlement.thy ===== *)
theory Settlement
  imports StakeScript
begin

text \<open>
  Settlement of a draw (\<^verbatim>\<open>blockchain/draw.go\<close>): the transaction that mints the pool to the
  winner, its validation, and the rule for its place in the block.
\<close>

section \<open>Model\<close>

record PoolDrawData =
  pd_Balance :: int
  pd_JackpotWon :: bool
  pd_WinnerWalletHash :: bytes

definition validatePoolDrawSettlementTx :: "MsgTx \<Rightarrow> PoolDrawData \<Rightarrow> unit result" where
  "validatePoolDrawSettlementTx msgTx pd =
     (if pd_Balance pd = 0 \<and> \<not> pd_JackpotWon pd then Inl (RuleError ErrBadDrawSettlementTx)
      else
        let wantOuts = (if pd_JackpotWon pd then 2 else 1) in
        if length (tx_TxOut msgTx) \<noteq> wantOuts then Inl (RuleError ErrBadDrawSettlementTx)
        else if pd_JackpotWon pd then
          let out = tx_TxOut msgTx ! 1 in
          if to_Value out \<noteq> pd_Balance pd then Inl (RuleError ErrBadDrawSettlementTx)
          else if to_PkScript out \<noteq> MakeWinnerP2WPKHScript (pd_WinnerWalletHash pd)
          then Inl (RuleError ErrBadDrawSettlementTx)
          else Inr ()
        else Inr ())"

definition ValidateDrawSettlementTx :: "MsgTx \<Rightarrow> int \<Rightarrow> PoolDrawData \<Rightarrow> unit result" where
  "ValidateDrawSettlementTx msgTx drawHeight pd =
     (if tx_TxOut msgTx = [] then Inl (RuleError ErrBadDrawSettlementTx)
      else case extractDrawSettlementMarker (to_PkScript (tx_TxOut msgTx ! 0)) of
        None \<Rightarrow> Inl (RuleError ErrBadDrawSettlementTx)
      | Some markerHeight \<Rightarrow>
          if markerHeight \<noteq> drawHeight then Inl (RuleError ErrBadDrawSettlementTx)
          else if to_Value (tx_TxOut msgTx ! 0) \<noteq> 0 then Inl (RuleError ErrBadDrawSettlementTx)
          else if tx_TxIn msgTx = [] \<or> \<not> IsPoolDrawSentinelInput (tx_TxIn msgTx ! 0)
          then Inl (RuleError ErrBadDrawSettlementTx)
          else validatePoolDrawSettlementTx msgTx pd)"

text \<open>The loop of \<^verbatim>\<open>ValidateVDFDrawTxs\<close> from index \<open>i\<close>; the result is the number of settlements.\<close>

primrec VDFDrawTxs_loop :: "int \<Rightarrow> PoolDrawData \<Rightarrow> int \<Rightarrow> int \<Rightarrow> MsgTx list \<Rightarrow> int result" where
  "VDFDrawTxs_loop drawHeight pd i cnt [] = Inr cnt"
| "VDFDrawTxs_loop drawHeight pd i cnt (tx # txs) =
     (if \<not> IsDrawSettlementTx tx then VDFDrawTxs_loop drawHeight pd (i + 1) cnt txs
      else if cnt + 1 > 1 then Inl (RuleError ErrBadDrawSettlementTx)
      else if i \<noteq> 1 then Inl (RuleError ErrBadDrawSettlementTx)
      else rbind (ValidateDrawSettlementTx tx drawHeight pd) (\<lambda>_.
        VDFDrawTxs_loop drawHeight pd (i + 1) (cnt + 1) txs))"

definition ValidateVDFDrawTxs :: "MsgTx list \<Rightarrow> int \<Rightarrow> PoolDrawData \<Rightarrow> unit result" where
  "ValidateVDFDrawTxs txns drawHeight pd =
     rbind (VDFDrawTxs_loop drawHeight pd 0 0 txns) (\<lambda>cnt.
       if pd_Balance pd > 0 \<and> cnt = 0 then Inl (RuleError ErrMissingDrawSettlementTx) else Inr ())"

definition BuildPoolDrawSettlementTx :: "int \<Rightarrow> PoolDrawData \<Rightarrow> MsgTx" where
  "BuildPoolDrawSettlementTx drawHeight pd =
     \<lparr>tx_Version = 1,
      tx_TxIn = [MakePoolDrawSentinelInput drawHeight],
      tx_TxOut = \<lparr>to_Value = 0, to_PkScript = MakeDrawSettlementMarker drawHeight\<rparr>
        # (if pd_JackpotWon pd then
             [\<lparr>to_Value = pd_Balance pd, to_PkScript = MakeWinnerP2WPKHScript (pd_WinnerWalletHash pd)\<rparr>]
           else []),
      tx_LockTime = 0\<rparr>"

section \<open>What an accepted settlement looks like\<close>

definition settlement_outs :: "int \<Rightarrow> PoolDrawData \<Rightarrow> TxOut list" where
  "settlement_outs drawHeight pd = tx_TxOut (BuildPoolDrawSettlementTx drawHeight pd)"

lemma sentinel_made [simp]: "IsPoolDrawSentinelInput (MakePoolDrawSentinelInput h)"
  by (simp add: IsPoolDrawSentinelInput_def MakePoolDrawSentinelInput_def PoolDrawSentinelOutpoint_def PoolStakingMagic_def)

lemma ValidateDrawSettlementTx_iff:
  assumes "is_u32 h"
  shows "ValidateDrawSettlementTx tx h pd = Inr () \<longleftrightarrow>
    tx_TxOut tx = settlement_outs h pd \<and> (pd_Balance pd \<noteq> 0 \<or> pd_JackpotWon pd) \<and>
    tx_TxIn tx \<noteq> [] \<and> IsPoolDrawSentinelInput (tx_TxIn tx ! 0)"
proof -
  have mk: "extractDrawSettlementMarker s = Some h \<longleftrightarrow> s = MakeDrawSettlementMarker h" for s
    by (rule marker.parse_iff [OF assms])
  have mk0: "extractDrawSettlementMarker (MakeDrawSettlementMarker h) = Some h"
    by (rule marker.parse_mk [OF assms])
  have outs: "length outs = 2 \<Longrightarrow> \<exists>a b. outs = [a, b]" "length outs = 1 \<Longrightarrow> \<exists>a. outs = [a]" for outs :: "TxOut list"
    by (auto simp: length_2E length_Suc_conv)
  have ext: "to = \<lparr>to_Value = v, to_PkScript = s\<rparr> \<longleftrightarrow> to_Value to = v \<and> to_PkScript to = s" for to v s
    by (cases to) auto
  show ?thesis
    using outs [of "tx_TxOut tx"]
    by (cases "pd_JackpotWon pd"; cases "pd_Balance pd = 0")
      (auto simp: ValidateDrawSettlementTx_def validatePoolDrawSettlementTx_def settlement_outs_def
        BuildPoolDrawSettlementTx_def Let_def ext mk mk0 split: if_splits option.splits)
qed

lemma VDFDrawTxs_loop_none:
  "2 \<le> i \<Longrightarrow> VDFDrawTxs_loop h pd i cnt txs = Inr n \<longleftrightarrow> n = cnt \<and> list_all (\<lambda>tx. \<not> IsDrawSettlementTx tx) txs"
  by (induction txs arbitrary: i) auto

lemma VDFDrawTxs_loop_all:
  "VDFDrawTxs_loop h pd 0 0 txs = Inr n \<longleftrightarrow>
   (n = 0 \<and> list_all (\<lambda>tx. \<not> IsDrawSettlementTx tx) txs) \<or>
   (n = 1 \<and> (\<exists>cb tx rest. txs = cb # tx # rest \<and> \<not> IsDrawSettlementTx cb \<and> IsDrawSettlementTx tx \<and>
      ValidateDrawSettlementTx tx h pd = Inr () \<and> list_all (\<lambda>tx. \<not> IsDrawSettlementTx tx) rest))"
proof (cases txs)
  case (Cons cb txs1)
  show ?thesis
  proof (cases txs1)
    case (Cons tx rest)
    then show ?thesis
      using \<open>txs = cb # txs1\<close>
      by (auto simp: VDFDrawTxs_loop_none rbind_eq_Inr)
  qed (auto simp: Cons)
qed auto

lemma IsDrawSettlement_outs: "is_u32 h \<Longrightarrow> tx_TxOut tx = settlement_outs h pd \<Longrightarrow> IsDrawSettlementTx tx"
  by (simp add: IsDrawSettlementTx_def settlement_outs_def BuildPoolDrawSettlementTx_def marker.parse_mk)

section \<open>Properties\<close>

text \<open>
  C13. The settlement transaction a miner builds is accepted, and a transaction is accepted as
  settlement of a draw only if its outputs are those of the built one: the marker of that
  draw with value zero and, when there is a winner, one output that pays the whole pool to
  the winner's address. The check asks for a sentinel first input but says nothing of
  further inputs.
\<close>
theorem settlement_exact:
  assumes "is_u32 h" and "pd_Balance pd \<noteq> 0 \<or> pd_JackpotWon pd"
  shows "ValidateDrawSettlementTx (BuildPoolDrawSettlementTx h pd) h pd = Inr () \<and>
    (ValidateDrawSettlementTx tx h pd = Inr () \<longleftrightarrow>
      tx_TxOut tx = tx_TxOut (BuildPoolDrawSettlementTx h pd) \<and>
      tx_TxIn tx \<noteq> [] \<and> IsPoolDrawSentinelInput (tx_TxIn tx ! 0))"
  using assms ValidateDrawSettlementTx_iff [OF assms(1)]
  by (simp add: settlement_outs_def) (simp add: BuildPoolDrawSettlementTx_def)

definition sample_pd :: PoolDrawData where
  "sample_pd = \<lparr>pd_Balance = 540, pd_JackpotWon = True, pd_WinnerWalletHash = replicate 20 4\<rparr>"

theorem settlement_exact_witness:
  "ValidateDrawSettlementTx (BuildPoolDrawSettlementTx 36 sample_pd) 36 sample_pd = Inr ()"
  using settlement_exact [of 36 sample_pd] by (simp add: sample_pd_def)

text \<open>
  C14. Settlement of a block. A block with a VDF result passes the settlement rule in exactly two
  cases: its second transaction is a valid settlement of that draw and no other transaction is a
  settlement, or the pool of the draw is empty and no transaction is a settlement. So a positive
  pool cannot be withheld, and no pool is paid twice.
\<close>
theorem block_settles_once:
  assumes "is_u32 h"
  shows "ValidateVDFDrawTxs txs h pd = Inr () \<longleftrightarrow>
    (\<exists>cb tx rest. txs = cb # tx # rest \<and> ValidateDrawSettlementTx tx h pd = Inr () \<and>
      filter IsDrawSettlementTx txs = [tx]) \<or>
    (pd_Balance pd \<le> 0 \<and> filter IsDrawSettlementTx txs = [])"
proof -
  let ?one = "\<exists>cb tx rest. txs = cb # tx # rest \<and> ValidateDrawSettlementTx tx h pd = Inr () \<and>
      filter IsDrawSettlementTx txs = [tx]"
  have settled: "ValidateDrawSettlementTx tx h pd = Inr () \<Longrightarrow> IsDrawSettlementTx tx" for tx
    using ValidateDrawSettlementTx_iff [OF assms] IsDrawSettlement_outs [OF assms] by blast
  have one: "VDFDrawTxs_loop h pd 0 0 txs = Inr 1 \<longleftrightarrow> ?one"
    by (auto simp: VDFDrawTxs_loop_all filter_empty_conv list_all_iff dest: settled split: if_splits)
  have none: "VDFDrawTxs_loop h pd 0 0 txs = Inr 0 \<longleftrightarrow> filter IsDrawSettlementTx txs = []"
    by (auto simp: VDFDrawTxs_loop_all filter_empty_conv list_all_iff)
  have "n = 0 \<or> n = 1" if "VDFDrawTxs_loop h pd 0 0 txs = Inr n" for n
    using that by (auto simp: VDFDrawTxs_loop_all)
  then have "ValidateVDFDrawTxs txs h pd = Inr () \<longleftrightarrow>
      VDFDrawTxs_loop h pd 0 0 txs = Inr 1 \<or> (pd_Balance pd \<le> 0 \<and> VDFDrawTxs_loop h pd 0 0 txs = Inr 0)"
    by (cases "VDFDrawTxs_loop h pd 0 0 txs") (auto simp: ValidateVDFDrawTxs_def)
  then show ?thesis unfolding one none .
qed

theorem block_settles_once_witness:
  "ValidateVDFDrawTxs [sample_tx, BuildPoolDrawSettlementTx 36 sample_pd] 36 sample_pd = Inr () \<and>
   ValidateVDFDrawTxs [sample_tx] 36 sample_pd \<noteq> Inr () \<and>
   ValidateVDFDrawTxs [sample_tx] 36 (sample_pd\<lparr>pd_Balance := 0\<rparr>) = Inr ()"
proof -
  have "ValidateDrawSettlementTx (BuildPoolDrawSettlementTx 36 sample_pd) 36 sample_pd = Inr ()"
    by (simp add: ValidateDrawSettlementTx_iff settlement_outs_def sample_pd_def) (simp add: BuildPoolDrawSettlementTx_def)
  moreover have "\<not> IsDrawSettlementTx sample_tx"
    by (simp add: IsDrawSettlementTx_def sample_tx_def extractDrawSettlementMarker_def DrawSettlementMarkerSize_def)
  moreover have "IsDrawSettlementTx (BuildPoolDrawSettlementTx 36 sample_pd)"
    by (rule IsDrawSettlement_outs [of 36 _ sample_pd]) (simp_all add: settlement_outs_def)
  moreover have "0 < pd_Balance sample_pd" by (simp add: sample_pd_def)
  ultimately show ?thesis
    using block_settles_once [of 36 _ sample_pd] block_settles_once [of 36 _ "sample_pd\<lparr>pd_Balance := 0\<rparr>"] by simp
qed

end
