(* ===== verification/Bucket.thy ===== *)
theory Bucket
  imports Prelude
begin

text \<open>
  The buckets of the block database, as the index code sees them: byte keys in lexicographic
  order, \<open>Get\<close> returning an empty value for a missing key, \<open>Put\<close>, \<open>Delete\<close>, and a cursor that
  seeks to the first key not below a prefix. Errors of the storage engine are not modelled.
\<close>

section \<open>Ordered buckets\<close>

type_synonym bucket = "(bytes \<times> bytes) list"

definition bget :: "bytes \<Rightarrow> bucket \<Rightarrow> bytes" where
  "bget k m = (case map_of m k of None \<Rightarrow> [] | Some v \<Rightarrow> v)"

fun bput :: "bytes \<Rightarrow> bytes \<Rightarrow> bucket \<Rightarrow> bucket" where
  "bput k v [] = [(k, v)]"
| "bput k v ((k', v') # m) =
     (if k < k' then (k, v) # (k', v') # m
      else if k = k' then (k, v) # m
      else (k', v') # bput k v m)"

definition bdel :: "bytes \<Rightarrow> bucket \<Rightarrow> bucket" where
  "bdel k m = filter (\<lambda>e. fst e \<noteq> k) m"

definition bseek :: "bytes \<Rightarrow> bucket \<Rightarrow> bucket" where
  "bseek p m = dropWhile (\<lambda>e. fst e < p) m"

definition ordered :: "bucket \<Rightarrow> bool" where
  "ordered m \<longleftrightarrow> sorted_wrt (<) (map fst m)"

text \<open>The interface the index code relies on, over the ordered list of entries.\<close>

locale ordered_bucket =
  fixes get :: "'k::linorder \<Rightarrow> 'm \<Rightarrow> 'v" and put :: "'k \<Rightarrow> 'v \<Rightarrow> 'm \<Rightarrow> 'm" and del :: "'k \<Rightarrow> 'm \<Rightarrow> 'm"
    and nil :: 'v and wf :: "'m \<Rightarrow> bool" and entries :: "'m \<Rightarrow> ('k \<times> 'v) list"
  assumes get_put: "wf m \<Longrightarrow> get k (put k' v m) = (if k = k' then v else get k m)"
    and get_del: "wf m \<Longrightarrow> get k (del k' m) = (if k = k' then nil else get k m)"
    and wf_put: "wf m \<Longrightarrow> wf (put k v m)"
    and wf_del: "wf m \<Longrightarrow> wf (del k m)"
    and entries_put: "wf m \<Longrightarrow> set (entries (put k v m)) = insert (k, v) {e \<in> set (entries m). fst e \<noteq> k}"
    and entries_del: "wf m \<Longrightarrow> set (entries (del k m)) = {e \<in> set (entries m). fst e \<noteq> k}"
    and entries_sorted: "wf m \<Longrightarrow> sorted_wrt (<) (map fst (entries m))"
begin

lemma sorted_entries_unique:
  fixes xs ys :: "('k \<times> 'v) list"
  assumes "sorted_wrt (<) (map fst xs)" and "sorted_wrt (<) (map fst ys)" and "set xs = set ys"
  shows "xs = ys"
proof -
  have d: "distinct (map fst xs)" "distinct (map fst ys)" "sorted (map fst xs)" "sorted (map fst ys)"
    using assms(1,2) by (simp_all add: strict_sorted_iff)
  then have keys: "map fst xs = map fst ys"
    using assms(3) by (intro sorted_distinct_set_unique) (auto simp: set_map)
  have "map_of xs = map_of ys" using d assms(3) by (intro map_of_inject_set [THEN iffD2]) auto
  moreover have "xs = map (\<lambda>k. (k, the (map_of xs k))) (map fst xs)" "ys = map (\<lambda>k. (k, the (map_of ys k))) (map fst ys)"
    using d(1,2) by (auto simp: map_idI comp_def intro!: map_idI [symmetric])
  ultimately show ?thesis using keys by metis
qed

lemma del_put_fresh:
  assumes "wf m" and "k \<notin> fst ` set (entries m)"
  shows "entries (del k (put k v m)) = entries m"
proof (rule sorted_entries_unique)
  show "set (entries (del k (put k v m))) = set (entries m)"
    using assms by (auto simp: entries_put entries_del wf_put)
qed (use assms(1) entries_sorted wf_put wf_del in blast)+

lemma put_keys: "wf m \<Longrightarrow> fst ` set (entries (put k v m)) = insert k (fst ` set (entries m))"
  by (simp add: entries_put) blast

lemma del_keys: "wf m \<Longrightarrow> fst ` set (entries (del k m)) = fst ` set (entries m) - {k}"
  by (simp add: entries_del) blast

end

lemma bput_set: "ordered m \<Longrightarrow> set (bput k v m) = insert (k, v) {e \<in> set m. fst e \<noteq> k}"
proof (induction k v m rule: bput.induct)
  case (2 k v k' v' m)
  have m: "ordered m" and gt: "\<And>e. e \<in> set m \<Longrightarrow> k' < fst e" using 2(2) by (auto simp: ordered_def)
  have new: "k \<le> k' \<Longrightarrow> (k, b) \<notin> set m" for b using gt [of "(k, b)"] by auto
  then show ?case using 2(1) [OF _ _ m] by (cases "k < k'"; cases "k = k'") (auto dest: new)
qed simp

lemma bput_ordered: "ordered m \<Longrightarrow> ordered (bput k v m)"
proof (induction k v m rule: bput.induct)
  case (2 k v k' v' m)
  have "ordered m" using 2(2) by (simp add: ordered_def)
  then show ?case using 2 bput_set [of m k v] by (fastforce simp: ordered_def)
qed (simp add: ordered_def)

lemma map_of_bput: "ordered m \<Longrightarrow> map_of (bput k v m) = (map_of m)(k \<mapsto> v)"
proof (induction k v m rule: bput.induct)
  case (2 k v k' v' m)
  have "ordered m" using 2(2) by (simp add: ordered_def)
  then show ?case using 2 by (auto simp: fun_eq_iff)
qed (simp add: fun_eq_iff)

lemma map_of_bdel: "map_of (bdel k m) = (map_of m)(k := None)"
  by (induction m) (auto simp: bdel_def fun_eq_iff)

lemma bget_bput: "ordered m \<Longrightarrow> bget k (bput k' v m) = (if k = k' then v else bget k m)"
proof (induction k' v m rule: bput.induct)
  case (2 k' v k1 v1 m)
  have "ordered m" using 2(2) by (simp add: ordered_def)
  then show ?case using 2 by (auto simp: bget_def split: if_splits)
qed (simp add: bget_def)

lemma bget_bdel: "bget k (bdel k' m) = (if k = k' then [] else bget k m)"
  by (induction m) (auto simp: bget_def bdel_def split: option.splits)

interpretation db: ordered_bucket bget bput bdel "[]" ordered "\<lambda>m. m"
proof
  fix m k
  assume "ordered m"
  then show "ordered (bdel k m)"
    unfolding ordered_def bdel_def by (induction m) (auto)
qed (simp_all add: bget_bput bget_bdel bput_ordered bput_set, simp_all add: bdel_def ordered_def)

section \<open>Prefix scans\<close>

lemma append_less_iff: "length p' = length p \<Longrightarrow> p' @ t < (p :: bytes) \<longleftrightarrow> p' < p"
  by (induction p' p rule: list_induct2) auto

lemma append_less_append: "length p' = length p \<Longrightarrow> p < (p' :: bytes) \<Longrightarrow> p @ t < p' @ t'"
  by (induction p' p rule: list_induct2) auto

lemma take_mono_less:
  assumes "k < (k' :: bytes)" and "n \<le> length k" and "n \<le> length k'"
  shows "take n k \<le> take n k'"
proof (rule ccontr)
  assume "\<not> take n k \<le> take n k'"
  then have "take n k' @ drop n k' < take n k @ drop n k"
    using assms(2,3) by (intro append_less_append) simp_all
  then show False using assms(1) by simp
qed

text \<open>On keys with a prefix of fixed length, seeking and reading while the prefix matches is filtering.\<close>

lemma seek_takeWhile_filter:
  assumes "ordered m" and "\<forall>e \<in> set m. n \<le> length (fst e)" and "length p = n"
  shows "takeWhile (\<lambda>e. take n (fst e) = p) (bseek p m) = filter (\<lambda>e. take n (fst e) = p) m"
  using assms(1,2)
proof (induction m)
  case (Cons e m)
  have m: "ordered m" "\<forall>e \<in> set m. n \<le> length (fst e)" using Cons.prems by (simp_all add: ordered_def)
  have le: "e' \<in> set m \<Longrightarrow> take n (fst e) \<le> take n (fst e')" for e'
    using Cons.prems by (intro take_mono_less) (auto simp: ordered_def)
  have lt: "fst e < p \<longleftrightarrow> take n (fst e) < p"
    using append_less_iff [of "take n (fst e)" p "drop n (fst e)"] Cons.prems(2) assms(3) by simp
  show ?case
  proof (cases "take n (fst e) < p")
    case True
    then show ?thesis using Cons.IH [OF m] lt by (simp add: bseek_def)
  next
    case False
    have seek: "bseek p (e # m) = e # m" using False lt by (simp add: bseek_def)
    show ?thesis
    proof (cases "take n (fst e) = p")
      case True
      have "bseek p m = m"
      proof (cases m)
        case (Cons e' m')
        then have "p \<le> take n (fst e')" using le [of e'] True by simp
        then have "\<not> fst e' < p"
          using append_less_iff [of "take n (fst e')" p "drop n (fst e')"] m(2) Cons assms(3) by auto
        then show ?thesis using Cons by (simp add: bseek_def)
      qed (simp add: bseek_def)
      then show ?thesis using Cons.IH [OF m] True seek by simp
    next
      case ne: False
      then have "p < take n (fst e)" using False by auto
      then have "e' \<in> set m \<Longrightarrow> take n (fst e') \<noteq> p" for e' using le [of e'] by auto
      then show ?thesis using ne seek by (simp add: filter_empty_conv)
    qed
  qed
qed (simp add: bseek_def)

end
