(* ===== verification/StakeIndex.thy ===== *)
theory StakeIndex
  imports StakeScript Bucket
begin

text \<open>
  The staking index (\<^verbatim>\<open>blockchain/stakeindex.go\<close>): stake entries and pool balances by draw
  height, stake counts by wallet, VDF results and draw results, as they are updated when a
  block connects and reverted when it disconnects. The index is a record of database buckets
  with the byte layouts of the code.
\<close>

section \<open>Data\<close>

record StakeDB =
  db_poolStake :: bucket
  db_poolBalance :: bucket
  db_vdfResult :: bucket
  db_walletCount :: bucket
  db_drawMeta :: bucket
  db_vdfCutoff :: bytes

record poolStakeEntry =
  pe_TxHash :: bytes
  pe_WalletHash :: bytes
  pe_Amount :: int

text \<open>A block with its height, as \<^verbatim>\<open>btcutil.Block\<close> carries it.\<close>

record Block =
  blk_msg :: MsgBlock
  blk_height :: int

definition TxHash :: "MsgTx \<Rightarrow> bytes" where
  "TxHash msg = sha256d (btcEncode BaseEncoding msg)"

definition BlockHash :: "BlockHeader \<Rightarrow> bytes" where
  "BlockHash h = sha256d (writeBlockHeaderBuf h)"

abbreviation heightKey :: "int \<Rightarrow> bytes" where
  "heightKey drawHeight \<equiv> be_bytes 4 drawHeight"

section \<open>VDF results and the format cutoff\<close>

definition dbPutVDFResult :: "StakeDB \<Rightarrow> int \<Rightarrow> int \<Rightarrow> bytes \<Rightarrow> int \<Rightarrow> int \<Rightarrow> StakeDB result" where
  "dbPutVDFResult db drawHeight settlementHeight settlementBlockHash T vdfOutput =
     rbind (FillBytes 256 vdfOutput) (\<lambda>out.
     let val = be_bytes 4 (u32 settlementHeight) @ settlementBlockHash @ be_bytes 8 T @ out in
     Inr (db\<lparr>db_vdfResult := bput (heightKey drawHeight) val (db_vdfResult db)\<rparr>))"

text \<open>Settlement height, block hash, whether the record has a hash, \<open>T\<close> and output; None if absent.\<close>

definition dbGetVDFResult :: "StakeDB \<Rightarrow> int \<Rightarrow> (int \<times> bytes \<times> bool \<times> int \<times> int) option" where
  "dbGetVDFResult db drawHeight =
     (let val = bget (heightKey drawHeight) (db_vdfResult db) in
      if length val \<ge> 300 then
        Some (i32 (be_val (slice 0 4 val)), slice 4 36 val, True, be_val (slice 36 44 val), be_val (drop 44 val))
      else if length val \<ge> 268 then
        Some (i32 (be_val (slice 0 4 val)), replicate 32 0, False, be_val (slice 4 12 val), be_val (drop 12 val))
      else None)"

definition dbDeleteVDFResult :: "StakeDB \<Rightarrow> int \<Rightarrow> StakeDB" where
  "dbDeleteVDFResult db drawHeight = db\<lparr>db_vdfResult := bdel (heightKey drawHeight) (db_vdfResult db)\<rparr>"

definition dbFetchVDFFormatCutoff :: "StakeDB \<Rightarrow> int" where
  "dbFetchVDFFormatCutoff db =
     (if length (db_vdfCutoff db) < 4 then -1 else i32 (be_val (slice 0 4 (db_vdfCutoff db))))"

definition dbPutVDFFormatCutoff :: "StakeDB \<Rightarrow> int \<Rightarrow> StakeDB" where
  "dbPutVDFFormatCutoff db cutoff = db\<lparr>db_vdfCutoff := be_bytes 4 (u32 cutoff)\<rparr>"

section \<open>Stake counts by wallet\<close>

definition stakeWalletCountKey :: "int \<Rightarrow> bytes \<Rightarrow> bytes" where
  "stakeWalletCountKey drawHeight walletHash = be_bytes 4 drawHeight @ walletHash"

definition dbGetWalletStakeCount :: "StakeDB \<Rightarrow> int \<Rightarrow> bytes \<Rightarrow> int" where
  "dbGetWalletStakeCount db drawHeight walletHash =
     (let v = bget (stakeWalletCountKey drawHeight walletHash) (db_walletCount db) in
      if v = [] then 0 else uint (v ! 0))"

definition dbIncrWalletStakeCount :: "StakeDB \<Rightarrow> int \<Rightarrow> bytes \<Rightarrow> StakeDB" where
  "dbIncrWalletStakeCount db drawHeight walletHash =
     (let key = stakeWalletCountKey drawHeight walletHash;
          v = bget key (db_walletCount db);
          cur = (if v \<noteq> [] then uint (v ! 0) else 0);
          cur = (if cur < 255 then cur + 1 else cur)
      in db\<lparr>db_walletCount := bput key [word_of_int cur] (db_walletCount db)\<rparr>)"

section \<open>Stake entries\<close>

definition poolStakeKey :: "int \<Rightarrow> bytes \<Rightarrow> bytes" where
  "poolStakeKey drawHeight txHash = be_bytes 4 drawHeight @ txHash"

definition dbPutPoolStakeEntry :: "StakeDB \<Rightarrow> int \<Rightarrow> bytes \<Rightarrow> bytes \<Rightarrow> int \<Rightarrow> StakeDB" where
  "dbPutPoolStakeEntry db drawHeight txHash walletHash amount =
     db\<lparr>db_poolStake := bput (poolStakeKey drawHeight txHash) (walletHash @ be_bytes 8 (u64 amount)) (db_poolStake db)\<rparr>"

definition dbRemovePoolStakeEntry :: "StakeDB \<Rightarrow> int \<Rightarrow> bytes \<Rightarrow> StakeDB" where
  "dbRemovePoolStakeEntry db drawHeight txHash =
     db\<lparr>db_poolStake := bdel (poolStakeKey drawHeight txHash) (db_poolStake db)\<rparr>"

text \<open>The cursor loop over the entries from the first one of the draw on.\<close>

primrec scanPoolStakeEntries :: "int \<Rightarrow> bucket \<Rightarrow> poolStakeEntry list" where
  "scanPoolStakeEntries drawHeight [] = []"
| "scanPoolStakeEntries drawHeight (e # es) =
     (if length (fst e) < 36 \<or> be_val (slice 0 4 (fst e)) \<noteq> drawHeight then []
      else if length (snd e) < 28 then scanPoolStakeEntries drawHeight es
      else \<lparr>pe_TxHash = slice 4 36 (fst e), pe_WalletHash = slice 0 20 (snd e),
            pe_Amount = i64 (be_val (slice 20 28 (snd e)))\<rparr> # scanPoolStakeEntries drawHeight es)"

definition dbFetchPoolStakeEntries :: "StakeDB \<Rightarrow> int \<Rightarrow> poolStakeEntry list" where
  "dbFetchPoolStakeEntries db drawHeight =
     scanPoolStakeEntries drawHeight (bseek (heightKey drawHeight) (db_poolStake db))"

definition dbHasPoolStakeEntries :: "StakeDB \<Rightarrow> int \<Rightarrow> bool" where
  "dbHasPoolStakeEntries db drawHeight =
     (case bseek (heightKey drawHeight) (db_poolStake db) of
        [] \<Rightarrow> False
      | e # _ \<Rightarrow> length (fst e) \<ge> 4 \<and> be_val (slice 0 4 (fst e)) = drawHeight)"

definition toStakeEntry :: "poolStakeEntry \<Rightarrow> StakeEntry" where
  "toStakeEntry e =
     \<lparr>se_WalletHash = pe_WalletHash e, se_TokenCount = pe_Amount e sdiv SatoshiPerBitcoin,
      se_TotalValue = pe_Amount e\<rparr>"

definition FetchPoolStakeEntries :: "StakeDB \<Rightarrow> int \<Rightarrow> StakeEntry list" where
  "FetchPoolStakeEntries db drawHeight = map toStakeEntry (dbFetchPoolStakeEntries db drawHeight)"

section \<open>Pool balances and draw results\<close>

definition dbGetPoolBalance :: "StakeDB \<Rightarrow> int \<Rightarrow> int" where
  "dbGetPoolBalance db drawHeight =
     (let v = bget (heightKey drawHeight) (db_poolBalance db) in
      if length v < 8 then 0 else i64 (be_val (slice 0 8 v)))"

definition dbSetPoolBalance :: "StakeDB \<Rightarrow> int \<Rightarrow> int \<Rightarrow> StakeDB" where
  "dbSetPoolBalance db drawHeight atoms =
     db\<lparr>db_poolBalance := bput (heightKey drawHeight) (be_bytes 8 (u64 atoms)) (db_poolBalance db)\<rparr>"

definition dbAddToPoolBalance :: "StakeDB \<Rightarrow> int \<Rightarrow> int \<Rightarrow> StakeDB" where
  "dbAddToPoolBalance db drawHeight delta =
     dbSetPoolBalance db drawHeight (i64 (dbGetPoolBalance db drawHeight + delta))"

definition dbPutDrawResultMeta :: "StakeDB \<Rightarrow> int \<Rightarrow> bool \<Rightarrow> bytes \<Rightarrow> StakeDB" where
  "dbPutDrawResultMeta db drawHeight jackpotWon winnerWalletHash =
     db\<lparr>db_drawMeta := bput (heightKey drawHeight) ((if jackpotWon then 1 else 0) # winnerWalletHash) (db_drawMeta db)\<rparr>"

definition dbDeleteDrawResultMeta :: "StakeDB \<Rightarrow> int \<Rightarrow> StakeDB" where
  "dbDeleteDrawResultMeta db drawHeight = db\<lparr>db_drawMeta := bdel (heightKey drawHeight) (db_drawMeta db)\<rparr>"

definition dbFetchDrawResultMeta :: "StakeDB \<Rightarrow> int \<Rightarrow> (bool \<times> bytes) option" where
  "dbFetchDrawResultMeta db drawHeight =
     (let val = bget (heightKey drawHeight) (db_drawMeta db) in
      if length val < 21 then None else Some (val ! 0 = 1, slice 1 21 val))"

section \<open>Running a draw\<close>

text \<open>
  The backward walk over the draws before \<open>drawHeight\<close>, from \<open>h\<close> down to the first draw. The
  height cannot wrap, because the loop stops below \<open>DrawInterval\<close>.
\<close>

function absorb_loop :: "StakeDB \<Rightarrow> int \<Rightarrow> int \<Rightarrow> StakeDB \<times> int" where
  "absorb_loop db h tot =
     (if h \<ge> DrawInterval then
        let hBal = dbGetPoolBalance db h in
        if hBal = 0 then absorb_loop db (h - DrawInterval) tot
        else if length (dbFetchPoolStakeEntries db h) > 0 then (db, tot)
        else absorb_loop (dbSetPoolBalance db h 0) (h - DrawInterval) (i64 (tot + hBal))
      else (db, tot))"
  by pat_completeness auto
termination by (relation "measure (\<lambda>(db, h, tot). nat h)") (auto simp: DrawInterval_def)

declare absorb_loop.simps [simp del]

definition dbAbsorbIntermediateBalances :: "StakeDB \<Rightarrow> int \<Rightarrow> StakeDB \<times> int" where
  "dbAbsorbIntermediateBalances db drawHeight =
     (let tot = dbGetPoolBalance db drawHeight in
      if drawHeight < DrawInterval * 2 then (db, tot)
      else absorb_loop db (drawHeight - DrawInterval) tot)"

definition runAndStoreDrawResult :: "StakeDB \<Rightarrow> int \<Rightarrow> bytes \<Rightarrow> StakeDB result" where
  "runAndStoreDrawResult db drawHeight seed =
     (let entries = dbFetchPoolStakeEntries db drawHeight; nextDraw = u32 (drawHeight + DrawInterval) in
      if entries = [] then
        let bal = dbGetPoolBalance db drawHeight in
        if bal > 0 then
          let db = dbPutDrawResultMeta db drawHeight False (replicate 20 0);
              db = dbAddToPoolBalance db nextDraw bal;
              db = dbSetPoolBalance db drawHeight 0
          in Inr db
        else Inr db
      else
        let (db, fullBal) = dbAbsorbIntermediateBalances db drawHeight;
            db = dbSetPoolBalance db drawHeight fullBal;
            stakes = map toStakeEntry entries
        in
        rbind (RunDraw stakes seed) (\<lambda>res.
        let winnerWalletHash =
              (if dr_JackpotWon res \<and> dr_Winners res \<noteq> [] then we_WalletHash (hd (dr_Winners res)) else replicate 20 0);
            db = dbPutDrawResultMeta db drawHeight (dr_JackpotWon res) winnerWalletHash
        in
        if \<not> dr_JackpotWon res \<and> fullBal > 0 then Inr (dbAddToPoolBalance db nextDraw fullBal)
        else Inr db))"

section \<open>Connecting and disconnecting blocks\<close>

text \<open>The draw a stake enters: a target that is not in the future is moved to the next draw.\<close>

definition stakeDrawHeight :: "int \<Rightarrow> int \<Rightarrow> int" where
  "stakeDrawHeight blockHeight dh =
     (if i32 dh \<le> blockHeight then u32 (i32 ((blockHeight sdiv DrawInterval + 1) * DrawInterval)) else dh)"

definition connectStakeTx :: "int \<Rightarrow> MsgTx \<Rightarrow> StakeDB \<Rightarrow> StakeDB" where
  "connectStakeTx blockHeight tx db =
     (let txHash = TxHash tx; (opReturnIdx, script) = FindPoolStakingOpReturn tx in
      if opReturnIdx < 0 then db
      else case ExtractPoolStakingData script of
        Inl _ \<Rightarrow> db
      | Inr (wh, amt, dh) \<Rightarrow>
          let dh = stakeDrawHeight blockHeight dh in
          if dbGetWalletStakeCount db dh wh \<ge> MaxStakesPerWalletPerDraw then db
          else
            let db = dbPutPoolStakeEntry db dh txHash wh amt;
                db = dbAddToPoolBalance db dh amt
            in dbIncrWalletStakeCount db dh wh)"

definition connectVDFTx :: "int \<Rightarrow> bytes \<Rightarrow> MsgTx \<Rightarrow> StakeDB \<Rightarrow> StakeDB result" where
  "connectVDFTx blockHeight blockHash tx db =
     (case ExtractVDFResultData tx of
        Inl _ \<Rightarrow> Inr db
      | Inr (drawHeight, drawBlockHash, T, vdfOutput, _) \<Rightarrow>
          rbind (dbPutVDFResult db drawHeight blockHeight blockHash T vdfOutput) (\<lambda>db.
          rbind (DrawSeed drawBlockHash vdfOutput) (\<lambda>seed.
          runAndStoreDrawResult db drawHeight seed)))"

primrec connectStakingTxs :: "int \<Rightarrow> bytes \<Rightarrow> MsgTx list \<Rightarrow> StakeDB \<Rightarrow> StakeDB result" where
  "connectStakingTxs blockHeight blockHash [] db = Inr db"
| "connectStakingTxs blockHeight blockHash (tx # txs) db =
     rbind (if tx_Version tx = TxVersionPoolStake then Inr (connectStakeTx blockHeight tx db)
            else if tx_Version tx = TxVersionVDFResult then connectVDFTx blockHeight blockHash tx db
            else Inr db)
       (connectStakingTxs blockHeight blockHash txs)"

definition connectBlockStakingIndex :: "StakeDB \<Rightarrow> Block \<Rightarrow> StakeDB result" where
  "connectBlockStakingIndex db block =
     connectStakingTxs (blk_height block) (BlockHash (mb_Header (blk_msg block)))
       (mb_Transactions (blk_msg block)) db"

definition disconnectStakeTx :: "MsgTx \<Rightarrow> StakeDB \<Rightarrow> StakeDB" where
  "disconnectStakeTx tx db =
     (let txHash = TxHash tx; (opReturnIdx, script) = FindPoolStakingOpReturn tx in
      if opReturnIdx < 0 then db
      else case ExtractPoolStakingData script of
        Inl _ \<Rightarrow> db
      | Inr (_, amt, dh) \<Rightarrow>
          let db = dbRemovePoolStakeEntry db dh txHash in dbAddToPoolBalance db dh (- amt))"

definition disconnectVDFTx :: "MsgTx \<Rightarrow> StakeDB \<Rightarrow> StakeDB" where
  "disconnectVDFTx tx db =
     (case ExtractVDFResultData tx of
        Inl _ \<Rightarrow> db
      | Inr (drawHeight, _) \<Rightarrow>
          let db = dbDeleteVDFResult db drawHeight in
          case dbFetchDrawResultMeta db drawHeight of
            None \<Rightarrow> db
          | Some (jackpotWon, _) \<Rightarrow>
              let db = dbDeleteDrawResultMeta db drawHeight in
              if jackpotWon then db
              else
                let nextDraw = u32 (drawHeight + DrawInterval); rolledBal = dbGetPoolBalance db nextDraw in
                if rolledBal > 0 then dbSetPoolBalance (dbSetPoolBalance db drawHeight rolledBal) nextDraw 0
                else db)"

primrec disconnectStakingTxs :: "MsgTx list \<Rightarrow> StakeDB \<Rightarrow> StakeDB" where
  "disconnectStakingTxs [] db = db"
| "disconnectStakingTxs (tx # txs) db =
     disconnectStakingTxs txs
       (if tx_Version tx = TxVersionPoolStake then disconnectStakeTx tx db
        else if tx_Version tx = TxVersionVDFResult then disconnectVDFTx tx db
        else db)"

definition disconnectBlockStakingIndex :: "StakeDB \<Rightarrow> Block \<Rightarrow> StakeDB" where
  "disconnectBlockStakingIndex db block = disconnectStakingTxs (mb_Transactions (blk_msg block)) db"

section \<open>Start-up audit\<close>

datatype AuditLog = AuditLost int int | AuditParked int int

function AuditPoolBalances_loop :: "StakeDB \<Rightarrow> int \<Rightarrow> int \<Rightarrow> AuditLog list" where
  "AuditPoolBalances_loop db best h =
     (if h \<le> best then
        let bal = dbGetPoolBalance db h;
            settled = (dbGetVDFResult db h \<noteq> None);
            entries = dbFetchPoolStakeEntries db h;
            hasStakers = length entries > 0;
            rest = AuditPoolBalances_loop db best (h + DrawInterval)
        in
        if \<not> settled \<and> hasStakers \<and> bal = 0 then
          let stakeSum = foldl (\<lambda>a e. i64 (a + pe_Amount e)) 0 entries in
          if stakeSum > 0 then AuditLost h stakeSum # rest else rest
        else if \<not> settled \<and> \<not> hasStakers \<and> bal > 0 then AuditParked bal h # rest
        else rest
      else [])"
  by pat_completeness auto
termination by (relation "measure (\<lambda>(db, best, h). nat (best + 1 - h))") (auto simp: DrawInterval_def)

declare AuditPoolBalances_loop.simps [simp del]

text \<open>The messages logged by the audit, which is read-only.\<close>

definition AuditPoolBalances :: "StakeDB \<Rightarrow> int \<Rightarrow> AuditLog list" where
  "AuditPoolBalances db best =
     (if best < DrawInterval then [] else AuditPoolBalances_loop db best DrawInterval)"

end
