(* ===== verification/StakeStore.thy ===== *)
theory StakeStore
  imports StakeIndex
begin

text \<open>
  Laws of the staking index: what each read returns after each write, with the byte layouts
  of keys and values behind them, and the bound on the stakes of a wallet.
\<close>

section \<open>Pool balances\<close>

text \<open>A store of integers by key, of which the pool balances are an instance.\<close>

locale int_store =
  fixes get :: "'db \<Rightarrow> 'k \<Rightarrow> int" and set_val :: "'db \<Rightarrow> 'k \<Rightarrow> int \<Rightarrow> 'db"
    and wf :: "'db \<Rightarrow> bool" and key :: "'k \<Rightarrow> bool" and val_ok :: "int \<Rightarrow> bool"
  assumes get_set: "wf db \<Longrightarrow> key h \<Longrightarrow> key h' \<Longrightarrow> val_ok v \<Longrightarrow>
      get (set_val db h v) h' = (if h' = h then v else get db h')"
    and wf_set: "wf db \<Longrightarrow> wf (set_val db h v)"
begin

lemma sum_set:
  assumes "wf db" and "finite H" and "\<forall>h \<in> H. key h" and "h \<in> H" and "val_ok v"
  shows "(\<Sum>x\<in>H. get (set_val db h v) x) = (\<Sum>x\<in>H. get db x) - get db h + v"
proof -
  have "(\<Sum>x\<in>H. get (set_val db h v) x) = v + (\<Sum>x\<in>H - {h}. get (set_val db h v) x)"
    using assms by (simp add: sum.remove get_set)
  also have "(\<Sum>x\<in>H - {h}. get (set_val db h v) x) = (\<Sum>x\<in>H - {h}. get db x)"
    using assms by (intro sum.cong) (auto simp: get_set)
  finally show ?thesis using assms(2,4) by (simp add: sum.remove)
qed

lemma sum_set_outside:
  assumes "wf db" and "\<forall>x \<in> H. key x" and "key h" and "h \<notin> H" and "val_ok v"
  shows "(\<Sum>x\<in>H. get (set_val db h v) x) = (\<Sum>x\<in>H. get db x)"
  using assms by (intro sum.cong) (auto simp: get_set)

text \<open>Moving an amount from one key to another keeps the sum.\<close>

lemma sum_move:
  assumes "wf db" and "finite H" and "\<forall>h \<in> H. key h" and "a \<in> H" and "b \<in> H" and "a \<noteq> b"
    and "val_ok (get db b + get db a)" and "val_ok 0"
  shows "(\<Sum>x\<in>H. get (set_val (set_val db b (get db b + get db a)) a 0) x) = (\<Sum>x\<in>H. get db x)"
proof -
  let ?v = "get db b + get db a"
  have k: "key a" "key b" using assms(3-5) by auto
  have "(\<Sum>x\<in>H. get (set_val (set_val db b ?v) a 0) x) = (\<Sum>x\<in>H. get (set_val db b ?v) x) - get (set_val db b ?v) a"
    using sum_set [of "set_val db b ?v" H a 0] assms by (simp add: wf_set)
  also have "get (set_val db b ?v) a = get db a" using assms k by (simp add: get_set)
  finally show ?thesis using sum_set [of db H b ?v] assms by simp
qed

end

lemma heightKey_inj: "is_u32 h \<Longrightarrow> is_u32 h' \<Longrightarrow> be_bytes 4 h = be_bytes 4 h' \<longleftrightarrow> h = h'"
  using be_bytes_inj [of 4 h h'] by auto

lemma u64_bytes_read: "is_i64 v \<Longrightarrow> i64 (be_val (be_bytes 8 (u64 v))) = v"
  by (simp add: be_8 wrap_simps)

lemma dbGet_dbSet:
  assumes "ordered (db_poolBalance db)" and "is_u32 h" and "is_u32 h'" and "is_i64 v"
  shows "dbGetPoolBalance (dbSetPoolBalance db h v) h' = (if h' = h then v else dbGetPoolBalance db h')"
  using assms by (simp add: dbGetPoolBalance_def dbSetPoolBalance_def db.get_put heightKey_inj u64_bytes_read)

interpretation pool: int_store dbGetPoolBalance dbSetPoolBalance "\<lambda>db. ordered (db_poolBalance db)" is_u32 is_i64
  by unfold_locales (simp_all add: dbGet_dbSet, simp add: dbSetPoolBalance_def db.wf_put)

lemma dbGetPoolBalance_range [simp]: "is_i64 (dbGetPoolBalance db h)"
  by (simp add: dbGetPoolBalance_def Let_def)

lemma dbGet_dbAdd:
  assumes "ordered (db_poolBalance db)" and "is_u32 h" and "is_u32 h'"
  shows "dbGetPoolBalance (dbAddToPoolBalance db h a) h' =
    (if h' = h then i64 (dbGetPoolBalance db h + a) else dbGetPoolBalance db h')"
  using assms by (simp add: dbAddToPoolBalance_def dbGet_dbSet)

section \<open>What a write leaves alone\<close>

lemma set_balance_other [simp]:
  "db_poolStake (dbSetPoolBalance db h v) = db_poolStake db" "db_vdfResult (dbSetPoolBalance db h v) = db_vdfResult db"
  "db_walletCount (dbSetPoolBalance db h v) = db_walletCount db" "db_drawMeta (dbSetPoolBalance db h v) = db_drawMeta db"
  "db_poolStake (dbAddToPoolBalance db h v) = db_poolStake db" "db_vdfResult (dbAddToPoolBalance db h v) = db_vdfResult db"
  "db_walletCount (dbAddToPoolBalance db h v) = db_walletCount db" "db_drawMeta (dbAddToPoolBalance db h v) = db_drawMeta db"
  by (simp_all add: dbSetPoolBalance_def dbAddToPoolBalance_def)

lemma put_meta_other [simp]:
  "db_poolStake (dbPutDrawResultMeta db h w x) = db_poolStake db" "db_walletCount (dbPutDrawResultMeta db h w x) = db_walletCount db"
  "db_poolBalance (dbPutDrawResultMeta db h w x) = db_poolBalance db"
  "db_poolStake (dbDeleteDrawResultMeta db h) = db_poolStake db" "db_walletCount (dbDeleteDrawResultMeta db h) = db_walletCount db"
  "db_poolBalance (dbDeleteDrawResultMeta db h) = db_poolBalance db"
  by (simp_all add: dbPutDrawResultMeta_def dbDeleteDrawResultMeta_def)

lemma put_stake_other [simp]:
  "db_poolBalance (dbPutPoolStakeEntry db h t w a) = db_poolBalance db" "db_drawMeta (dbPutPoolStakeEntry db h t w a) = db_drawMeta db"
  "db_walletCount (dbPutPoolStakeEntry db h t w a) = db_walletCount db"
  "db_poolBalance (dbRemovePoolStakeEntry db h t) = db_poolBalance db" "db_drawMeta (dbRemovePoolStakeEntry db h t) = db_drawMeta db"
  "db_walletCount (dbRemovePoolStakeEntry db h t) = db_walletCount db"
  by (simp_all add: dbPutPoolStakeEntry_def dbRemovePoolStakeEntry_def)

lemma incr_count_other [simp]:
  "db_poolStake (dbIncrWalletStakeCount db h w) = db_poolStake db" "db_poolBalance (dbIncrWalletStakeCount db h w) = db_poolBalance db"
  "db_drawMeta (dbIncrWalletStakeCount db h w) = db_drawMeta db"
  by (simp_all add: dbIncrWalletStakeCount_def Let_def)

lemma vdf_result_other [simp]:
  "db_poolStake (dbDeleteVDFResult db h) = db_poolStake db" "db_walletCount (dbDeleteVDFResult db h) = db_walletCount db"
  "db_poolBalance (dbDeleteVDFResult db h) = db_poolBalance db" "db_drawMeta (dbDeleteVDFResult db h) = db_drawMeta db"
  by (simp_all add: dbDeleteVDFResult_def)

lemma balance_cong: "db_poolBalance db = db_poolBalance db' \<Longrightarrow> dbGetPoolBalance db h = dbGetPoolBalance db' h"
  by (simp add: dbGetPoolBalance_def)

lemma fetch_cong: "db_poolStake db = db_poolStake db' \<Longrightarrow> dbFetchPoolStakeEntries db h = dbFetchPoolStakeEntries db' h"
  by (simp add: dbFetchPoolStakeEntries_def)

lemma meta_cong: "db_drawMeta db = db_drawMeta db' \<Longrightarrow> dbFetchDrawResultMeta db h = dbFetchDrawResultMeta db' h"
  by (simp add: dbFetchDrawResultMeta_def)

lemma count_cong: "db_walletCount db = db_walletCount db' \<Longrightarrow> dbGetWalletStakeCount db h w = dbGetWalletStakeCount db' h w"
  by (simp add: dbGetWalletStakeCount_def)

lemmas store_frame =
  balance_cong [of "dbPutDrawResultMeta db h w x" db for db h w x] balance_cong [of "dbPutPoolStakeEntry db h t w a" db for db h t w a]
  balance_cong [of "dbIncrWalletStakeCount db h w" db for db h w]
  fetch_cong [of "dbSetPoolBalance db h v" db for db h v] fetch_cong [of "dbAddToPoolBalance db h v" db for db h v]
  fetch_cong [of "dbPutDrawResultMeta db h w x" db for db h w x] fetch_cong [of "dbIncrWalletStakeCount db h w" db for db h w]
  meta_cong [of "dbSetPoolBalance db h v" db for db h v] meta_cong [of "dbAddToPoolBalance db h v" db for db h v]
  meta_cong [of "dbPutPoolStakeEntry db h t w a" db for db h t w a] meta_cong [of "dbIncrWalletStakeCount db h w" db for db h w]
  count_cong [of "dbSetPoolBalance db h v" db for db h v] count_cong [of "dbAddToPoolBalance db h v" db for db h v]
  count_cong [of "dbPutPoolStakeEntry db h t w a" db for db h t w a]

section \<open>Stake entries\<close>

definition stakes_ok :: "StakeDB \<Rightarrow> bool" where
  "stakes_ok db \<longleftrightarrow> ordered (db_poolStake db) \<and>
     (\<forall>e \<in> set (db_poolStake db). length (fst e) = 36 \<and> length (snd e) = 28)"

definition decode_stake :: "bytes \<times> bytes \<Rightarrow> poolStakeEntry" where
  "decode_stake e = \<lparr>pe_TxHash = slice 4 36 (fst e), pe_WalletHash = slice 0 20 (snd e),
     pe_Amount = i64 (be_val (slice 20 28 (snd e)))\<rparr>"

lemma be_4_eq: "length b = 4 \<Longrightarrow> is_u32 h \<Longrightarrow> be_val b = h \<longleftrightarrow> b = be_bytes 4 h"
  using be_4 [of h] be_4_val(1) [of b] by auto

lemma scan_takeWhile:
  assumes "\<forall>e \<in> set es. length (fst e) = 36 \<and> length (snd e) = 28" and "is_u32 h"
  shows "scanPoolStakeEntries h es = map decode_stake (takeWhile (\<lambda>e. take 4 (fst e) = heightKey h) es)"
  using assms(1)
proof (induction es)
  case (Cons e es)
  have "slice 0 4 (fst e) = take 4 (fst e)" by (simp add: slice_def)
  then show ?case
    using Cons assms(2) be_4_eq [of "take 4 (fst e)" h] by (simp add: decode_stake_def)
qed simp

lemma bseek_set: "set (bseek p m) \<subseteq> set m"
  unfolding bseek_def by (meson set_dropWhileD subsetI)

lemma fetch_filter:
  assumes "stakes_ok db" and "is_u32 h"
  shows "dbFetchPoolStakeEntries db h = map decode_stake (filter (\<lambda>e. take 4 (fst e) = heightKey h) (db_poolStake db))"
proof -
  have "\<forall>e \<in> set (bseek (heightKey h) (db_poolStake db)). length (fst e) = 36 \<and> length (snd e) = 28"
    using assms(1) bseek_set unfolding stakes_ok_def by blast
  then show ?thesis
    using scan_takeWhile [OF _ assms(2)] seek_takeWhile_filter [of "db_poolStake db" 4 "heightKey h"] assms(1)
    by (simp add: dbFetchPoolStakeEntries_def stakes_ok_def)
qed

lemma mset_bput: "ordered m \<Longrightarrow> mset (bput k v m) = add_mset (k, v) (mset (bdel k m))"
proof (induction k v m rule: bput.induct)
  case (2 k v k' v' m)
  have m: "ordered m" and gt: "\<And>e. e \<in> set m \<Longrightarrow> k' < fst e" using 2(2) by (auto simp: ordered_def)
  have "k \<le> k' \<Longrightarrow> bdel k m = m" using gt by (force simp: bdel_def filter_id_conv)
  then show ?case using 2(1) [OF _ _ m] by (auto simp: bdel_def simp del: mset_filter)
qed (simp add: bdel_def)

lemma put_stakes_ok:
  assumes "stakes_ok db" and "length t = 32" and "length w = 20"
  shows "stakes_ok (dbPutPoolStakeEntry db h t w a)"
  using assms by (auto simp: stakes_ok_def dbPutPoolStakeEntry_def bput_ordered bput_set poolStakeKey_def)

lemma remove_stakes_ok: "stakes_ok db \<Longrightarrow> stakes_ok (dbRemovePoolStakeEntry db h t)"
  using db.wf_del [of "db_poolStake db" "poolStakeKey h t"] db.entries_del [of "db_poolStake db" "poolStakeKey h t"]
  by (simp add: stakes_ok_def dbRemovePoolStakeEntry_def)

definition stake_entry :: "bytes \<Rightarrow> bytes \<Rightarrow> int \<Rightarrow> poolStakeEntry" where
  "stake_entry t w a = \<lparr>pe_TxHash = t, pe_WalletHash = w, pe_Amount = a\<rparr>"

lemma decode_key_value:
  "length t = 32 \<Longrightarrow> length w = 20 \<Longrightarrow> is_i64 a \<Longrightarrow>
   decode_stake (poolStakeKey h t, w @ be_bytes 8 (u64 a)) = stake_entry t w a"
  by (simp add: decode_stake_def poolStakeKey_def stake_entry_def u64_bytes_read)

text \<open>The entry with a given key, removed from the entries of a draw.\<close>

definition others :: "StakeDB \<Rightarrow> int \<Rightarrow> bytes \<Rightarrow> int \<Rightarrow> poolStakeEntry multiset" where
  "others db dh t h = image_mset decode_stake
     (filter_mset (\<lambda>e. take 4 (fst e) = heightKey h \<and> fst e \<noteq> poolStakeKey dh t) (mset (db_poolStake db)))"

lemma others_subset: "stakes_ok db \<Longrightarrow> is_u32 h \<Longrightarrow> others db dh t h \<subseteq># mset (dbFetchPoolStakeEntries db h)"
  by (simp add: others_def fetch_filter image_mset_subseteq_mono filter_mset_mono_strong
      multiset_filter_mono multiset_filter_subset filter_filter_mset [symmetric])

lemma fetch_put:
  assumes ok: "stakes_ok db" and h: "is_u32 h" and dh: "is_u32 dh" and t: "length t = 32" and w: "length w = 20" and a: "is_i64 a"
  shows "mset (dbFetchPoolStakeEntries (dbPutPoolStakeEntry db dh t w a) h) =
    (if h = dh then {#stake_entry t w a#} else {#}) + others db dh t h"
proof -
  let ?k = "poolStakeKey dh t" and ?v = "w @ be_bytes 8 (u64 a)"
  have k: "take 4 ?k = heightKey h \<longleftrightarrow> h = dh" using heightKey_inj [OF h dh] by (auto simp: poolStakeKey_def)
  have "mset (dbFetchPoolStakeEntries (dbPutPoolStakeEntry db dh t w a) h) =
      image_mset decode_stake (filter_mset (\<lambda>e. take 4 (fst e) = heightKey h) (mset (bput ?k ?v (db_poolStake db))))"
    using fetch_filter [OF put_stakes_ok [OF ok t w] h] by (simp add: dbPutPoolStakeEntry_def)
  also have "mset (bput ?k ?v (db_poolStake db)) = add_mset (?k, ?v) (filter_mset (\<lambda>e. fst e \<noteq> ?k) (mset (db_poolStake db)))"
    using ok by (simp add: mset_bput bdel_def stakes_ok_def)
  finally show ?thesis
    using k decode_key_value [OF t w a] by (simp add: others_def filter_filter_mset conj_commute)
qed

lemma fetch_remove:
  assumes "stakes_ok db" and "is_u32 h"
  shows "mset (dbFetchPoolStakeEntries (dbRemovePoolStakeEntry db dh t) h) = others db dh t h"
  using fetch_filter [OF remove_stakes_ok [OF assms(1)] assms(2)]
  by (simp add: dbRemovePoolStakeEntry_def bdel_def others_def filter_filter_mset conj_commute)

definition fresh_stake :: "StakeDB \<Rightarrow> int \<Rightarrow> bytes \<Rightarrow> bool" where
  "fresh_stake db dh t \<longleftrightarrow> poolStakeKey dh t \<notin> fst ` set (db_poolStake db)"

lemma others_fresh:
  assumes "stakes_ok db" and "is_u32 h" and "fresh_stake db dh t"
  shows "others db dh t h = mset (dbFetchPoolStakeEntries db h)"
proof -
  have "filter_mset (\<lambda>e. take 4 (fst e) = heightKey h \<and> fst e \<noteq> poolStakeKey dh t) (mset (db_poolStake db)) =
      filter_mset (\<lambda>e. take 4 (fst e) = heightKey h) (mset (db_poolStake db))"
    using assms(3) by (intro filter_mset_cong refl) (auto simp: fresh_stake_def intro: rev_image_eqI)
  then show ?thesis using assms(1,2) by (simp add: others_def fetch_filter)
qed

section \<open>Draw results and VDF results\<close>

lemma meta_put:
  assumes "ordered (db_drawMeta db)" and "is_u32 h" and "is_u32 h'" and "length w = 20"
  shows "dbFetchDrawResultMeta (dbPutDrawResultMeta db h won w) h' = (if h' = h then Some (won, w) else dbFetchDrawResultMeta db h')"
proof -
  have "slice 1 21 (b # w) = w" for b using assms(4) by (simp add: slice_def)
  then show ?thesis
    using assms by (simp add: dbFetchDrawResultMeta_def dbPutDrawResultMeta_def db.get_put heightKey_inj Let_def)
qed

lemma meta_delete:
  assumes "ordered (db_drawMeta db)" and "is_u32 h" and "is_u32 h'"
  shows "dbFetchDrawResultMeta (dbDeleteDrawResultMeta db h) h' = (if h' = h then None else dbFetchDrawResultMeta db h')"
  using assms by (simp add: dbFetchDrawResultMeta_def dbDeleteDrawResultMeta_def db.get_del heightKey_inj Let_def)

lemma vdf_put:
  assumes "ordered (db_vdfResult db)" and "is_u32 h" and "is_u32 h'" and "is_i32 sh" and "length bh = 32" and "is_u64 T"
    and "0 \<le> y" and "y < 256 ^ 256"
  shows "\<exists>db'. dbPutVDFResult db h sh bh T y = Inr db' \<and>
    dbGetVDFResult db' h' = (if h' = h then Some (sh, bh, True, T, y) else dbGetVDFResult db h')"
proof -
  have y: "be_val (be_bytes 256 y) = y" "FillBytes 256 y = Inr (be_bytes 256 y)"
    using assms(7,8) by (simp_all add: be_val_be_bytes FillBytes_Inr)
  have sh: "i32 (be_val (be_bytes 4 (u32 sh))) = sh" using assms(4) by (simp add: be_4 wrap_simps)
  show ?thesis
    using assms(1-6) y sh
    by (simp add: dbPutVDFResult_def dbGetVDFResult_def Let_def db.get_put heightKey_inj be_8)
qed

section \<open>Stakes of a wallet\<close>

definition walletStakes :: "StakeDB \<Rightarrow> int \<Rightarrow> bytes \<Rightarrow> int" where
  "walletStakes db h w = int (size (filter_mset (\<lambda>e. pe_WalletHash e = w) (mset (dbFetchPoolStakeEntries db h))))"

definition walletKey_ok :: "int \<times> bytes \<Rightarrow> bool" where
  "walletKey_ok k \<longleftrightarrow> is_u32 (fst k) \<and> length (snd k) = 20"

lemma walletKey_inj:
  "is_u32 h \<Longrightarrow> is_u32 h' \<Longrightarrow> stakeWalletCountKey h w = stakeWalletCountKey h' w' \<longleftrightarrow> h = h' \<and> w = w'"
  using heightKey_inj by (auto simp: stakeWalletCountKey_def)

lemma count_range: "0 \<le> dbGetWalletStakeCount db h w" "dbGetWalletStakeCount db h w \<le> 255"
proof -
  have "uint (b::byte) \<le> 255" for b using uint_lt2p [of b] by simp
  then show "0 \<le> dbGetWalletStakeCount db h w" "dbGetWalletStakeCount db h w \<le> 255"
    by (simp_all add: dbGetWalletStakeCount_def Let_def)
qed

lemma count_incr:
  assumes "ordered (db_walletCount db)" and "is_u32 h" and "is_u32 h'"
  shows "dbGetWalletStakeCount (dbIncrWalletStakeCount db h w) h' w' =
    (if h' = h \<and> w' = w then min 255 (dbGetWalletStakeCount db h w + 1) else dbGetWalletStakeCount db h' w')"
proof -
  let ?v = "bget (stakeWalletCountKey h w) (db_walletCount db)"
  have "uint (?v ! 0) < 256" using uint_lt2p [of "?v ! 0"] by simp
  then show ?thesis
    using assms walletKey_inj
    by (auto simp: dbGetWalletStakeCount_def dbIncrWalletStakeCount_def Let_def db.get_put min_def mod_pos_pos_trivial)
qed

definition index_ok :: "StakeDB \<Rightarrow> bool" where
  "index_ok db \<longleftrightarrow> stakes_ok db \<and> ordered (db_poolBalance db) \<and> ordered (db_vdfResult db) \<and>
     ordered (db_walletCount db) \<and> ordered (db_drawMeta db)"

definition within_limit :: "StakeDB \<Rightarrow> bool" where
  "within_limit db \<longleftrightarrow> (\<forall>h w. is_u32 h \<longrightarrow> length w = 20 \<longrightarrow>
     walletStakes db h w \<le> dbGetWalletStakeCount db h w \<and> dbGetWalletStakeCount db h w \<le> MaxStakesPerWalletPerDraw)"

lemma within_limit_cong:
  "db_poolStake db = db_poolStake db' \<Longrightarrow> db_walletCount db = db_walletCount db' \<Longrightarrow> within_limit db = within_limit db'"
  by (simp add: within_limit_def walletStakes_def fetch_cong [of db db'] count_cong [of db db'])

lemma walletStakes_mono:
  "mset (dbFetchPoolStakeEntries db h) \<subseteq># M \<Longrightarrow>
   walletStakes db h w \<le> int (size (filter_mset (\<lambda>e. pe_WalletHash e = w) M))"
  by (simp add: walletStakes_def size_mset_mono multiset_filter_mono)

section \<open>The index operations keep the index well-formed and within the limit\<close>

lemma length_TxHash [simp]: "length (TxHash tx) = 32"
  by (simp add: TxHash_def)

lemma length_BlockHash [simp]: "length (BlockHash h) = 32"
  by (simp add: BlockHash_def)

lemma stakeDrawHeight_u32 [simp]:
  "is_u32 dh \<Longrightarrow> 0 \<le> stakeDrawHeight bh dh" "is_u32 dh \<Longrightarrow> stakeDrawHeight bh dh < 4294967296"
  by (simp_all add: stakeDrawHeight_def)

lemma frame_ok [simp]:
  "index_ok db \<Longrightarrow> index_ok (dbSetPoolBalance db h v)" "index_ok db \<Longrightarrow> index_ok (dbAddToPoolBalance db h v)"
  "index_ok db \<Longrightarrow> index_ok (dbPutDrawResultMeta db h won w)" "index_ok db \<Longrightarrow> index_ok (dbDeleteDrawResultMeta db h)"
  "index_ok db \<Longrightarrow> index_ok (dbDeleteVDFResult db h)" "index_ok db \<Longrightarrow> index_ok (dbIncrWalletStakeCount db h w)"
  "index_ok db \<Longrightarrow> dbPutVDFResult db h sh bh T y = Inr db' \<Longrightarrow> index_ok db'"
  by (auto simp: index_ok_def stakes_ok_def dbSetPoolBalance_def dbAddToPoolBalance_def dbPutDrawResultMeta_def
      dbDeleteDrawResultMeta_def dbDeleteVDFResult_def dbIncrWalletStakeCount_def dbPutVDFResult_def Let_def
      rbind_eq_Inr db.wf_put db.wf_del)

lemma put_index_ok: "index_ok db \<Longrightarrow> length t = 32 \<Longrightarrow> length w = 20 \<Longrightarrow> index_ok (dbPutPoolStakeEntry db h t w a)"
  by (simp add: index_ok_def put_stakes_ok) (simp add: dbPutPoolStakeEntry_def)

lemma remove_index_ok: "index_ok db \<Longrightarrow> index_ok (dbRemovePoolStakeEntry db h t)"
  by (simp add: index_ok_def remove_stakes_ok) (simp add: dbRemovePoolStakeEntry_def)

lemma remove_within_limit:
  assumes "index_ok db" and "within_limit db"
  shows "within_limit (dbRemovePoolStakeEntry db dh t)"
  unfolding within_limit_def
proof (intro allI impI)
  fix h w
  assume h: "is_u32 h" and w: "length (w :: bytes) = 20"
  have "walletStakes (dbRemovePoolStakeEntry db dh t) h w \<le> walletStakes db h w"
    using walletStakes_mono [of "dbRemovePoolStakeEntry db dh t" h "mset (dbFetchPoolStakeEntries db h)" w]
      fetch_remove [of db h dh t] others_subset [of db h dh t] assms(1) h by (simp add: index_ok_def walletStakes_def)
  moreover have "dbGetWalletStakeCount (dbRemovePoolStakeEntry db dh t) h w = dbGetWalletStakeCount db h w"
    by (rule count_cong) simp
  ultimately show "walletStakes (dbRemovePoolStakeEntry db dh t) h w \<le> dbGetWalletStakeCount (dbRemovePoolStakeEntry db dh t) h w \<and>
      dbGetWalletStakeCount (dbRemovePoolStakeEntry db dh t) h w \<le> MaxStakesPerWalletPerDraw"
    using assms(2) h w by (fastforce simp: within_limit_def)
qed

lemma accept_within_limit:
  assumes ok: "index_ok db" and lim: "within_limit db" and dh: "is_u32 dh" and t: "length t = 32" and wh: "length wh = 20"
    and amt: "is_i64 amt" and below: "dbGetWalletStakeCount db dh wh < MaxStakesPerWalletPerDraw"
  shows "within_limit (dbIncrWalletStakeCount (dbAddToPoolBalance (dbPutPoolStakeEntry db dh t wh amt) dh amt) dh wh)"
    (is "within_limit ?db")
  unfolding within_limit_def
proof (intro allI impI)
  fix h w
  assume h: "is_u32 h" and w: "length (w :: bytes) = 20"
  have st: "stakes_ok db" and wc: "ordered (db_walletCount db)" using ok by (simp_all add: index_ok_def)
  have cnt: "dbGetWalletStakeCount ?db h w = (if h = dh \<and> w = wh then dbGetWalletStakeCount db dh wh + 1 else dbGetWalletStakeCount db h w)"
    using count_incr [of "dbAddToPoolBalance (dbPutPoolStakeEntry db dh t wh amt) dh amt" dh h wh w] wc dh h below
      count_range(2) [of db dh wh] by (simp add: store_frame MaxStakesPerWalletPerDraw_def)
  have ent: "mset (dbFetchPoolStakeEntries ?db h) = (if h = dh then {#stake_entry t wh amt#} else {#}) + others db dh t h"
    using fetch_put [OF st h dh t wh amt] by (simp add: store_frame)
  have "walletStakes ?db h w \<le> (if h = dh \<and> w = wh then 1 else 0) + walletStakes db h w"
  proof -
    have "size (filter_mset (\<lambda>e. pe_WalletHash e = w) (others db dh t h)) \<le>
        size (filter_mset (\<lambda>e. pe_WalletHash e = w) (mset (dbFetchPoolStakeEntries db h)))"
      by (intro size_mset_mono multiset_filter_mono others_subset [OF st h])
    then show ?thesis by (auto simp: walletStakes_def ent stake_entry_def)
  qed
  moreover have "walletStakes db h w \<le> dbGetWalletStakeCount db h w" "dbGetWalletStakeCount db h w \<le> MaxStakesPerWalletPerDraw"
    using lim h w by (simp_all add: within_limit_def)
  ultimately show "walletStakes ?db h w \<le> dbGetWalletStakeCount ?db h w \<and> dbGetWalletStakeCount ?db h w \<le> MaxStakesPerWalletPerDraw"
    using cnt below by (auto split: if_splits)
qed

text \<open>The stake a transaction declares, and the index operations over it.\<close>

definition stake_data :: "MsgTx \<Rightarrow> (bytes \<times> int \<times> int) option" where
  "stake_data tx =
     (if fst (FindPoolStakingOpReturn tx) < 0 then None
      else case ExtractPoolStakingData (snd (FindPoolStakingOpReturn tx)) of Inl _ \<Rightarrow> None | Inr d \<Rightarrow> Some d)"

lemma stake_data_ok: "stake_data tx = Some (wh, amt, dh) \<Longrightarrow> length wh = 20 \<and> is_i64 amt \<and> is_u32 dh"
  using MakePoolStakingScript_Extract by (auto simp: stake_data_def split: if_splits sum.splits)

definition accept_stake :: "int \<Rightarrow> bytes \<Rightarrow> bytes \<Rightarrow> int \<Rightarrow> StakeDB \<Rightarrow> StakeDB" where
  "accept_stake dh t wh amt db =
     dbIncrWalletStakeCount (dbAddToPoolBalance (dbPutPoolStakeEntry db dh t wh amt) dh amt) dh wh"

lemma connectStakeTx_cases:
  "connectStakeTx bh tx db = (case stake_data tx of None \<Rightarrow> db | Some (wh, amt, dh) \<Rightarrow>
     if dbGetWalletStakeCount db (stakeDrawHeight bh dh) wh \<ge> MaxStakesPerWalletPerDraw then db
     else accept_stake (stakeDrawHeight bh dh) (TxHash tx) wh amt db)"
  by (cases "FindPoolStakingOpReturn tx")
    (auto simp: connectStakeTx_def stake_data_def accept_stake_def Let_def split: sum.split)

lemma disconnectStakeTx_cases:
  "disconnectStakeTx tx db = (case stake_data tx of None \<Rightarrow> db | Some (wh, amt, dh) \<Rightarrow>
     dbAddToPoolBalance (dbRemovePoolStakeEntry db dh (TxHash tx)) dh (- amt))"
  by (cases "FindPoolStakingOpReturn tx")
    (auto simp: disconnectStakeTx_def stake_data_def Let_def split: sum.split)

lemma accept_index_ok: "index_ok db \<Longrightarrow> length t = 32 \<Longrightarrow> length wh = 20 \<Longrightarrow> index_ok (accept_stake dh t wh amt db)"
  by (simp add: accept_stake_def put_index_ok)

lemma connectStakeTx_ok:
  assumes "index_ok db" and "within_limit db"
  shows "index_ok (connectStakeTx bh tx db) \<and> within_limit (connectStakeTx bh tx db)"
proof (cases "stake_data tx")
  case None
  then show ?thesis using assms by (simp add: connectStakeTx_cases)
next
  case (Some d)
  obtain wh amt dh where d: "d = (wh, amt, dh)" by (cases d)
  have k: "length wh = 20" "is_i64 amt" "is_u32 dh" using stake_data_ok Some d by blast+
  have "within_limit (accept_stake (stakeDrawHeight bh dh) (TxHash tx) wh amt db)"
    if "\<not> dbGetWalletStakeCount db (stakeDrawHeight bh dh) wh \<ge> MaxStakesPerWalletPerDraw"
    using accept_within_limit [OF assms, of "stakeDrawHeight bh dh" "TxHash tx" wh amt] k that
    by (simp add: accept_stake_def)
  then show ?thesis using assms Some d k by (simp add: connectStakeTx_cases accept_index_ok)
qed

lemma absorb_loop_frame:
  "index_ok db \<Longrightarrow> index_ok (fst (absorb_loop db h tot)) \<and> db_poolStake (fst (absorb_loop db h tot)) = db_poolStake db \<and>
   db_walletCount (fst (absorb_loop db h tot)) = db_walletCount db \<and> db_drawMeta (fst (absorb_loop db h tot)) = db_drawMeta db"
proof (induction db h tot rule: absorb_loop.induct)
  case (1 db h tot)
  then show ?case by (subst (1 2 3 4) absorb_loop.simps) (simp add: Let_def)
qed

lemma absorb_frame:
  assumes "index_ok db" and "dbAbsorbIntermediateBalances db h = (db', tot)"
  shows "index_ok db' \<and> db_poolStake db' = db_poolStake db \<and> db_walletCount db' = db_walletCount db \<and> db_drawMeta db' = db_drawMeta db"
  using assms absorb_loop_frame [OF assms(1), of "h - DrawInterval" "dbGetPoolBalance db h"]
  by (auto simp: dbAbsorbIntermediateBalances_def Let_def split: if_splits)

lemma runAndStore_frame:
  assumes "index_ok db" and "runAndStoreDrawResult db h seed = Inr db'"
  shows "index_ok db' \<and> db_poolStake db' = db_poolStake db \<and> db_walletCount db' = db_walletCount db"
proof (cases "dbFetchPoolStakeEntries db h = []")
  case True
  then show ?thesis using assms by (auto simp: runAndStoreDrawResult_def Let_def split: if_splits)
next
  case False
  obtain db1 full where a: "dbAbsorbIntermediateBalances db h = (db1, full)" by (cases "dbAbsorbIntermediateBalances db h")
  show ?thesis
    using assms(2) False absorb_frame [OF assms(1) a]
    by (auto simp: runAndStoreDrawResult_def Let_def a rbind_eq_Inr split: if_splits)
qed

lemma connectVDFTx_ok:
  assumes "index_ok db" and "connectVDFTx bh hash tx db = Inr db'"
  shows "index_ok db' \<and> db_poolStake db' = db_poolStake db \<and> db_walletCount db' = db_walletCount db"
proof (cases "ExtractVDFResultData tx")
  case (Inl e)
  then show ?thesis using assms by (simp add: connectVDFTx_def)
next
  case (Inr d)
  then obtain h dbh T y sub db1 seed where "dbPutVDFResult db h bh hash T y = Inr db1"
    and r: "runAndStoreDrawResult db1 h seed = Inr db'"
    using assms(2) by (cases d) (auto simp: connectVDFTx_def rbind_eq_Inr)
  moreover from this have "index_ok db1" using frame_ok(7) [OF assms(1)] by blast
  ultimately have "index_ok db1" "db_poolStake db1 = db_poolStake db" "db_walletCount db1 = db_walletCount db"
    by (simp_all add: dbPutVDFResult_def rbind_eq_Inr Let_def) auto
  then show ?thesis using runAndStore_frame [OF _ r] by simp
qed

lemma connectStakingTxs_ok:
  "index_ok db \<Longrightarrow> within_limit db \<Longrightarrow> connectStakingTxs bh hash txs db = Inr db' \<Longrightarrow> index_ok db' \<and> within_limit db'"
proof (induction txs arbitrary: db)
  case (Cons tx txs)
  obtain db1 where step: "(if tx_Version tx = TxVersionPoolStake then Inr (connectStakeTx bh tx db)
      else if tx_Version tx = TxVersionVDFResult then connectVDFTx bh hash tx db else Inr db) = Inr db1"
    and rest: "connectStakingTxs bh hash txs db1 = Inr db'"
    using Cons.prems(3) by (auto simp: rbind_eq_Inr)
  have "index_ok db1 \<and> within_limit db1"
  proof (cases "tx_Version tx = TxVersionPoolStake")
    case True
    then show ?thesis using step connectStakeTx_ok [OF Cons.prems(1,2), of bh tx] by auto
  next
    case False
    then show ?thesis
      using step connectVDFTx_ok [OF Cons.prems(1), of bh hash tx db1] Cons.prems(1,2) within_limit_cong [of db1 db]
      by (auto split: if_splits)
  qed
  then show ?case using Cons.IH rest by blast
qed simp

lemma disconnectVDFTx_frame:
  "index_ok db \<Longrightarrow> index_ok (disconnectVDFTx tx db) \<and> db_poolStake (disconnectVDFTx tx db) = db_poolStake db \<and>
   db_walletCount (disconnectVDFTx tx db) = db_walletCount db"
  by (auto simp: disconnectVDFTx_def Let_def split: sum.split option.split)

lemma disconnectStakingTxs_ok:
  "index_ok db \<Longrightarrow> within_limit db \<Longrightarrow> index_ok (disconnectStakingTxs txs db) \<and> within_limit (disconnectStakingTxs txs db)"
proof (induction txs arbitrary: db)
  case (Cons tx txs)
  have "index_ok (disconnectStakeTx tx db) \<and> within_limit (disconnectStakeTx tx db)"
  proof (cases "stake_data tx")
    case (Some d)
    then obtain wh amt dh where "stake_data tx = Some (wh, amt, dh)" by (cases d) auto
    moreover have "within_limit (dbAddToPoolBalance db' dh a) = within_limit db'" for db' a
      by (rule within_limit_cong) simp_all
    ultimately show ?thesis
      using remove_index_ok [OF Cons.prems(1)] remove_within_limit [OF Cons.prems]
      by (simp add: disconnectStakeTx_cases)
  qed (use Cons.prems in \<open>simp add: disconnectStakeTx_cases\<close>)
  moreover have "index_ok (disconnectVDFTx tx db) \<and> within_limit (disconnectVDFTx tx db)"
    using Cons.prems disconnectVDFTx_frame [of db tx] within_limit_cong by blast
  ultimately show ?case using Cons.IH Cons.prems by simp
qed simp

text \<open>The states of the index: empty, then any sequence of connected and disconnected blocks.\<close>

definition empty_db :: StakeDB where
  "empty_db = \<lparr>db_poolStake = [], db_poolBalance = [], db_vdfResult = [], db_walletCount = [], db_drawMeta = [], db_vdfCutoff = []\<rparr>"

inductive index_state :: "StakeDB \<Rightarrow> bool" where
  init: "index_state empty_db"
| connect: "index_state db \<Longrightarrow> connectBlockStakingIndex db blk = Inr db' \<Longrightarrow> index_state db'"
| disconnect: "index_state db \<Longrightarrow> index_state (disconnectBlockStakingIndex db blk)"

lemma empty_db_ok: "index_ok empty_db" "within_limit empty_db"
  by (simp_all add: index_ok_def within_limit_def stakes_ok_def empty_db_def ordered_def walletStakes_def
      dbFetchPoolStakeEntries_def bseek_def dbGetWalletStakeCount_def bget_def MaxStakesPerWalletPerDraw_def)

lemma index_state_ok: "index_state db \<Longrightarrow> index_ok db \<and> within_limit db"
proof (induction rule: index_state.induct)
  case (connect db blk db')
  then show ?case using connectStakingTxs_ok unfolding connectBlockStakingIndex_def by blast
qed (simp_all add: empty_db_ok disconnectStakingTxs_ok disconnectBlockStakingIndex_def)

end
