(* ===== verification/DrawQueries.thy ===== *)
theory DrawQueries
  imports StakeStore
begin

text \<open>
  Queries over the staking index (\<^verbatim>\<open>blockchain/drawqueries.go\<close>): the pool of a draw reconstructed
  from the stakes and the rollover chain, stakes aggregated by wallet, and the statistics. A
  Go map whose iteration order does not matter is the list of its keys in order of
  insertion.
\<close>

section \<open>Model\<close>

definition hasRealStakers :: "StakeDB \<Rightarrow> int \<Rightarrow> bool" where
  "hasRealStakers db h \<longleftrightarrow> list_ex (\<lambda>e. se_WalletHash e \<noteq> JackpotPoolWalletHash) (FetchPoolStakeEntries db h)"

text \<open>
  The backward walk of \<^verbatim>\<open>ReconstructPoolBalance\<close> from \<open>h\<close> down: the nearest draw with stakers, if
  it is settled and rolled over.
\<close>

function priorRollover :: "StakeDB \<Rightarrow> int \<Rightarrow> int option" where
  "priorRollover db h =
     (if h \<ge> DrawInterval then
        if \<not> hasRealStakers db h then priorRollover db (h - DrawInterval)
        else case dbFetchDrawResultMeta db h of
          None \<Rightarrow> None
        | Some (jackpotWon, _) \<Rightarrow> if jackpotWon then None else Some h
      else None)"
  by pat_completeness auto
termination by (relation "measure (\<lambda>(db, h). nat h)") (auto simp: DrawInterval_def)

declare priorRollover.simps [simp del]

lemma priorRollover_le: "priorRollover db h = Some h' \<Longrightarrow> DrawInterval \<le> h' \<and> h' \<le> h"
proof (induction db h rule: priorRollover.induct)
  case (1 db h)
  show ?case
    using 1(2) 1(1) by (subst (asm) priorRollover.simps)
      (auto simp: DrawInterval_def split: if_splits option.splits)
qed

function ReconstructPoolBalance :: "StakeDB \<Rightarrow> int \<Rightarrow> int" where
  "ReconstructPoolBalance db drawHeight =
     (if dbFetchDrawResultMeta db drawHeight \<noteq> None then dbGetPoolBalance db drawHeight
      else
        let entries = FetchPoolStakeEntries db drawHeight;
            newStakes = foldl (\<lambda>a e. i64 (a + se_TotalValue e)) 0
              (filter (\<lambda>e. se_WalletHash e \<noteq> JackpotPoolWalletHash) entries)
        in
        case (if drawHeight \<ge> DrawInterval * 2 then priorRollover db (drawHeight - DrawInterval) else None) of
          None \<Rightarrow> newStakes
        | Some h \<Rightarrow> i64 (newStakes + ReconstructPoolBalance db h))"
  by pat_completeness auto
termination
proof (relation "measure (\<lambda>(db, h). nat h)", goal_cases)
  case (2 db drawHeight entries newStakes h)
  then show ?case using priorRollover_le [of db "drawHeight - DrawInterval" h]
    by (auto simp: DrawInterval_def split: if_splits)
qed simp

declare ReconstructPoolBalance.simps [simp del]

record DrawStakeInfo =
  di_WalletHash :: bytes
  di_Tokens :: int
  di_TotalAtoms :: int

definition toDrawStakeInfo :: "StakeEntry \<Rightarrow> DrawStakeInfo" where
  "toDrawStakeInfo e =
     \<lparr>di_WalletHash = se_WalletHash e, di_Tokens = se_TokenCount e, di_TotalAtoms = se_TotalValue e\<rparr>"

definition FetchDrawStakes :: "StakeDB \<Rightarrow> int \<Rightarrow> DrawStakeInfo list" where
  "FetchDrawStakes db drawHeight = map toDrawStakeInfo (FetchPoolStakeEntries db drawHeight)"

text \<open>Add an entry to the aggregate of its wallet, which is created at the end when missing.\<close>

primrec aggregate :: "StakeEntry \<Rightarrow> DrawStakeInfo list \<Rightarrow> DrawStakeInfo list" where
  "aggregate e [] = [toDrawStakeInfo e]"
| "aggregate e (s # agg) =
     (if di_WalletHash s = se_WalletHash e then
        s\<lparr>di_Tokens := i64 (di_Tokens s + se_TokenCount e),
          di_TotalAtoms := i64 (di_TotalAtoms s + se_TotalValue e)\<rparr> # agg
      else s # aggregate e agg)"

definition FetchDrawAllStakers :: "StakeDB \<Rightarrow> int \<Rightarrow> DrawStakeInfo list \<times> bool" where
  "FetchDrawAllStakers db drawHeight =
     (foldl (\<lambda>agg e. aggregate e agg) []
        (filter (\<lambda>e. se_WalletHash e \<noteq> JackpotPoolWalletHash) (FetchPoolStakeEntries db drawHeight)),
      dbGetVDFResult db drawHeight \<noteq> None)"

definition FetchWalletTokensForDraw :: "StakeDB \<Rightarrow> bytes \<Rightarrow> int \<Rightarrow> int" where
  "FetchWalletTokensForDraw db walletHash drawHeight =
     foldl (\<lambda>tot e. if se_WalletHash e = walletHash then i64 (tot + se_TokenCount e) else tot) 0
       (FetchPoolStakeEntries db drawHeight)"

text \<open>The rows of the stake index as the statistics read them: draw, wallet, atoms.\<close>

definition stakeRows :: "StakeDB \<Rightarrow> (int \<times> bytes \<times> int) list" where
  "stakeRows db =
     map (\<lambda>(key, val). (be_val (slice 0 4 key), slice 0 20 val, i64 (be_val (slice 20 28 val))))
       (filter (\<lambda>(key, val). \<not> (length key < 36 \<or> length val < 28)) (db_poolStake db))"

record StakerStats =
  ss_LastDrawStakers :: int
  ss_Last10DrawsStakers :: int
  ss_TotalStakers :: int

definition FetchStakerStats :: "StakeDB \<Rightarrow> int \<Rightarrow> StakerStats" where
  "FetchStakerStats db currentHeight =
     (let rows = filter (\<lambda>(dh, wh, _). wh \<noteq> JackpotPoolWalletHash) (stakeRows db);
          byDraw = (\<lambda>dh. remdups (map (\<lambda>(_, wh, _). wh) (filter (\<lambda>(dh', _). dh' = dh) rows)));
          allWallets = remdups (map (\<lambda>(_, wh, _). wh) rows);
          closedHeights = rev (sort (remdups (filter (\<lambda>dh. dh \<le> currentHeight) (map fst rows))))
      in
      if closedHeights = [] then
        \<lparr>ss_LastDrawStakers = 0, ss_Last10DrawsStakers = 0, ss_TotalStakers = int (length allWallets)\<rparr>
      else
        \<lparr>ss_LastDrawStakers = int (length (byDraw (hd closedHeights))),
         ss_Last10DrawsStakers = int (length (remdups (concat (map byDraw (take 10 closedHeights))))),
         ss_TotalStakers = int (length allWallets)\<rparr>)"

definition FetchWalletStakeHistory :: "StakeDB \<Rightarrow> bytes \<Rightarrow> (int \<times> int) list" where
  "FetchWalletStakeHistory db walletHash =
     (let rows = filter (\<lambda>(_, wh, _). wh = walletHash) (stakeRows db);
          heights = sort (remdups (map fst rows))
      in map (\<lambda>h. (h, foldl (\<lambda>a (_, _, atoms). i64 (a + atoms)) 0 (filter (\<lambda>(dh, _). dh = h) rows))) heights)"

section \<open>The settlement of a draw, over the chain\<close>

text \<open>
  The queries that also read blocks take the block at a height (None when it cannot be read)
  and the best height as arguments.
\<close>

definition FetchDrawSettlement :: "StakeDB \<Rightarrow> (int \<Rightarrow> MsgTx list option) \<Rightarrow> int \<Rightarrow> int \<Rightarrow> MsgTx option result" where
  "FetchDrawSettlement db blockByHeight bestHeight drawHeight =
     (case dbGetVDFResult db drawHeight of
        None \<Rightarrow> Inr None
      | Some (settlementHeight, _) \<Rightarrow>
          if bestHeight < settlementHeight then Inr None
          else case blockByHeight settlementHeight of
            None \<Rightarrow> Inl PlainError
          | Some txns \<Rightarrow> Inr (find IsDrawSettlementTx txns))"

definition FetchDrawLiveResult ::
  "StakeDB \<Rightarrow> (int \<Rightarrow> MsgTx list option) \<Rightarrow> int \<Rightarrow> int \<Rightarrow> (bool \<times> bool) result" where
  "FetchDrawLiveResult db blockByHeight bestHeight drawHeight =
     (if dbGetVDFResult db drawHeight = None then Inr (False, False)
      else if FetchPoolStakeEntries db drawHeight = [] then Inr (False, False)
      else case dbFetchDrawResultMeta db drawHeight of
        Some (jackpotWon, _) \<Rightarrow> Inr (jackpotWon, True)
      | None \<Rightarrow>
          rbind (FetchDrawSettlement db blockByHeight bestHeight drawHeight) (\<lambda>tx.
            case tx of None \<Rightarrow> Inr (False, True)
            | Some tx \<Rightarrow> Inr (length (tx_TxOut tx) \<ge> 2, True)))"

end
