(* ===== verification/PoolLedger.thy ===== *)
theory PoolLedger
  imports DrawQueries
begin

text \<open>
  The money of the pool. An abstract ledger says what the pool promises: stakes are added to
  their draw, and the settlement of a draw either pays its stakes and the carried amount or
  carries both to the next draw. The staking index is shown to simulate the ledger as long as
  draws with stakers settle in order, and the amount that validation lets a settlement pay is
  shown to be the amount the index records. Two histories are worked out: one with a rollover and a
  jackpot, on which both hold, and one with draws settled out of order, on which the amounts differ.
\<close>

section \<open>The ledger\<close>

record Ledger =
  lg_last :: int
  lg_carry :: int
  lg_stakes :: "int \<Rightarrow> int"

definition ledger_init :: Ledger where
  "ledger_init = \<lparr>lg_last = 0, lg_carry = 0, lg_stakes = (\<lambda>_. 0)\<rparr>"

definition ledger_stake :: "int \<Rightarrow> int \<Rightarrow> Ledger \<Rightarrow> Ledger" where
  "ledger_stake dh amt lg = lg\<lparr>lg_stakes := (lg_stakes lg)(dh := lg_stakes lg dh + amt)\<rparr>"

definition ledger_prize :: "Ledger \<Rightarrow> int \<Rightarrow> int" where
  "ledger_prize lg d = lg_stakes lg d + lg_carry lg"

definition ledger_settle :: "int \<Rightarrow> bool \<Rightarrow> Ledger \<Rightarrow> Ledger" where
  "ledger_settle d won lg = lg\<lparr>lg_last := d, lg_carry := (if won then 0 else ledger_prize lg d)\<rparr>"

section \<open>Draw heights\<close>

definition is_draw :: "int \<Rightarrow> bool" where
  "is_draw h \<longleftrightarrow> 36 \<le> h \<and> h mod 36 = 0 \<and> h + 36 < 2 ^ 32"

definition draws :: "int \<Rightarrow> int \<Rightarrow> int set" where
  "draws a b = {x. a < x \<and> x \<le> b \<and> 36 \<le> x \<and> x mod 36 = 0}"

lemma finite_draws [simp]: "finite (draws a b)"
  by (rule finite_subset [of _ "{a..b}"]) (auto simp: draws_def)

lemma draws_empty: "b \<le> a \<Longrightarrow> draws a b = {}" "b < 36 \<Longrightarrow> draws a b = {}"
  by (auto simp: draws_def)

lemma multiple_gap: "x mod 36 = 0 \<Longrightarrow> (y::int) mod 36 = 0 \<Longrightarrow> x < y \<Longrightarrow> x \<le> y - 36"
proof -
  assume "x mod 36 = 0" and "y mod 36 = 0" and "x < y"
  then obtain a b where "x = 36 * a" "y = 36 * b" by (auto simp: mod_eq_0_iff_dvd elim!: dvdE)
  with \<open>x < y\<close> show ?thesis by simp
qed

lemma draws_step:
  assumes "36 \<le> h" and "h mod 36 = 0" and "a < h"
  shows "draws a h = insert h (draws a (h - 36))" and "h \<notin> draws a (h - 36)"
  using assms multiple_gap [of _ h] by (fastforce simp: draws_def)+

lemma draws_subset: "b \<le> b' \<Longrightarrow> draws a b \<subseteq> draws a b'"
  by (auto simp: draws_def)

lemma minus_36: "(h::int) mod 36 = 0 \<Longrightarrow> (h - 36) mod 36 = 0"
  by (metis diff_numeral_special(9) mod_diff_right_eq mod_self minus_mod_self2)

section \<open>The backward walks\<close>

definition stake_sum :: "StakeDB \<Rightarrow> int \<Rightarrow> int" where
  "stake_sum db h = sum_list (map pe_Amount (dbFetchPoolStakeEntries db h))"

lemma absorb_loop_walk:
  "ordered (db_poolBalance db) \<Longrightarrow> h mod 36 = 0 \<Longrightarrow> h + 36 < 2 ^ 32 \<Longrightarrow> 0 \<le> l \<Longrightarrow> l mod 36 = 0 \<Longrightarrow> l \<le> h \<Longrightarrow>
   (\<forall>x \<in> draws l h. dbFetchPoolStakeEntries db x = []) \<Longrightarrow>
   (l = 0 \<or> dbGetPoolBalance db l \<noteq> 0 \<and> dbFetchPoolStakeEntries db l \<noteq> []) \<Longrightarrow> is_i64 tot \<Longrightarrow>
   snd (absorb_loop db h tot) = i64 (tot + (\<Sum>x\<in>draws l h. dbGetPoolBalance db x)) \<and>
   (\<forall>x. is_u32 x \<longrightarrow> dbGetPoolBalance (fst (absorb_loop db h tot)) x = (if x \<in> draws l h then 0 else dbGetPoolBalance db x))"
proof (induction db h tot rule: absorb_loop.induct)
  case (1 db h tot)
  show ?case
  proof (cases "h = l")
    case True
    then show ?thesis
      using 1(7,10,11) absorb_loop.simps [of db h tot] by (auto simp: DrawInterval_def draws_empty i64_id)
  next
    case False
    then have h: "l < h" "36 \<le> h" "l \<le> h - 36"
      using 1(6,7,8) multiple_gap [of l h] multiple_gap [of 0 h] 1(4) by (auto)
    note st = draws_step [OF h(2) 1(4) h(1)]
    have h36: "(h - 36) mod 36 = 0" by (rule minus_36 [OF 1(4)])
    have nost: "dbFetchPoolStakeEntries db h = []" "\<forall>x \<in> draws l (h - 36). dbFetchPoolStakeEntries db x = []"
      using 1(9) st(1) by auto
    show ?thesis
    proof (cases "dbGetPoolBalance db h = 0")
      case True
      have eq: "absorb_loop db h tot = absorb_loop db (h - 36) tot"
        using True h(2) absorb_loop.simps [of db h tot] by (simp add: DrawInterval_def)
      have "(\<Sum>x\<in>draws l h. dbGetPoolBalance db x) = (\<Sum>x\<in>draws l (h - 36). dbGetPoolBalance db x)"
        using st True by simp
      moreover have "snd (absorb_loop db (h - 36) tot) = i64 (tot + (\<Sum>x\<in>draws l (h - 36). dbGetPoolBalance db x)) \<and>
          (\<forall>x. is_u32 x \<longrightarrow> dbGetPoolBalance (fst (absorb_loop db (h - 36) tot)) x =
             (if x \<in> draws l (h - 36) then 0 else dbGetPoolBalance db x))"
        using 1(1) [OF _ refl True] h 1(3-11) h36 nost(2) by (simp add: DrawInterval_def)
      ultimately show ?thesis using True st(1) by (auto simp: eq)
    next
      case bal: False
      let ?db = "dbSetPoolBalance db h 0" and ?tot = "i64 (tot + dbGetPoolBalance db h)"
      have eq: "absorb_loop db h tot = absorb_loop ?db (h - 36) ?tot"
        using bal h(2) nost(1) absorb_loop.simps [of db h tot] by (simp add: DrawInterval_def)
      have get: "is_u32 x \<Longrightarrow> dbGetPoolBalance ?db x = (if x = h then 0 else dbGetPoolBalance db x)" for x
        using dbGet_dbSet [OF 1(3), of h x 0] h 1(5) by simp
      have sum: "(\<Sum>x\<in>draws l (h - 36). dbGetPoolBalance ?db x) = (\<Sum>x\<in>draws l (h - 36). dbGetPoolBalance db x)"
        using st(2) 1(5) h by (intro sum.cong refl) (auto simp: get draws_def)
      have fetch: "dbFetchPoolStakeEntries ?db x = dbFetchPoolStakeEntries db x" for x by (rule fetch_cong) simp
      have ord: "ordered (db_poolBalance ?db)" by (rule pool.wf_set [OF 1(3)])
      have l: "l = 0 \<or> dbGetPoolBalance ?db l \<noteq> 0 \<and> dbFetchPoolStakeEntries ?db l \<noteq> []"
        using 1(10) get [of l] h 1(5,6) by (auto simp: fetch)
      have "snd (absorb_loop ?db (h - 36) ?tot) = i64 (?tot + (\<Sum>x\<in>draws l (h - 36). dbGetPoolBalance ?db x)) \<and>
          (\<forall>x. is_u32 x \<longrightarrow> dbGetPoolBalance (fst (absorb_loop ?db (h - 36) ?tot)) x =
             (if x \<in> draws l (h - 36) then 0 else dbGetPoolBalance ?db x))"
        using 1(2) [OF _ refl bal] h 1(4-7) h36 nost ord l by (simp add: DrawInterval_def fetch)
      then show ?thesis
        using st get by (auto simp: eq sum add.assoc)
    qed
  qed
qed

lemma priorRollover_walk:
  "h mod 36 = 0 \<Longrightarrow> 0 \<le> l \<Longrightarrow> l mod 36 = 0 \<Longrightarrow> l \<le> h \<Longrightarrow> (\<forall>x \<in> draws l h. \<not> hasRealStakers db x) \<Longrightarrow>
   priorRollover db h = (if l = 0 then None else priorRollover db l)"
proof (induction db h rule: priorRollover.induct)
  case (1 db h)
  show ?case
  proof (cases "h = l")
    case True
    then show ?thesis by (simp add: priorRollover.simps [of db 0] DrawInterval_def)
  next
    case False
    then have h: "l < h" "36 \<le> h" "l \<le> h - 36"
      using 1(2-5) multiple_gap [of l h] multiple_gap [of 0 h] by auto
    note st = draws_step [OF h(2) 1(2) h(1)]
    have "priorRollover db h = priorRollover db (h - 36)"
      using h(2) 1(6) st(1) priorRollover.simps [of db h] by (simp add: DrawInterval_def)
    then show ?thesis
      using 1(1) 1(3,4,6) h st(1) minus_36 [OF 1(2)] by (simp add: DrawInterval_def)
  qed
qed

section \<open>Simulation\<close>

text \<open>Every stake in the index is positive and belongs to a real wallet, as stake validation demands.\<close>

definition stakes_real :: "StakeDB \<Rightarrow> bool" where
  "stakes_real db \<longleftrightarrow> (\<forall>h. is_u32 h \<longrightarrow>
     (\<forall>e \<in> set (dbFetchPoolStakeEntries db h). 0 < pe_Amount e \<and> pe_WalletHash e \<noteq> JackpotPoolWalletHash))"

lemma stake_sum_nonneg: "stakes_real db \<Longrightarrow> is_u32 h \<Longrightarrow> 0 \<le> stake_sum db h"
  unfolding stake_sum_def stakes_real_def by (intro sum_list_nonneg) (auto intro: less_imp_le)

text \<open>
  The index represents the ledger: above the last settled draw every balance is the stakes of
  the draw, plus the carried amount at the one height \<open>c\<close> to which it was rolled, with no
  staker in between; the last settled draw keeps its pool as the record.
\<close>

definition pool_sim :: "StakeDB \<Rightarrow> Ledger \<Rightarrow> int \<Rightarrow> bool" where
  "pool_sim db lg c \<longleftrightarrow> index_ok db \<and> stakes_real db \<and>
     (\<forall>h. is_draw h \<longrightarrow> lg_stakes lg h = stake_sum db h) \<and>
     (\<forall>h. is_draw h \<longrightarrow> lg_last lg < h \<longrightarrow>
        dbGetPoolBalance db h = stake_sum db h + (if h = c then lg_carry lg else 0)) \<and>
     (\<forall>h. is_draw h \<longrightarrow> lg_last lg < h \<longrightarrow> h < c \<longrightarrow> dbFetchPoolStakeEntries db h = []) \<and>
     (\<forall>h. is_draw h \<longrightarrow> lg_last lg < h \<longrightarrow> dbFetchPoolStakeEntries db h \<noteq> [] \<longrightarrow> dbFetchDrawResultMeta db h = None) \<and>
     (lg_last lg = 0 \<and> lg_carry lg = 0 \<or>
      is_draw (lg_last lg) \<and> dbFetchPoolStakeEntries db (lg_last lg) \<noteq> [] \<and> 0 < dbGetPoolBalance db (lg_last lg) \<and>
      (\<exists>won w. dbFetchDrawResultMeta db (lg_last lg) = Some (won, w) \<and>
         lg_carry lg = (if won then 0 else dbGetPoolBalance db (lg_last lg)))) \<and>
     c mod 36 = 0 \<and> 36 \<le> c \<and> lg_last lg < c \<and> 0 \<le> lg_carry lg"

text \<open>The part of the relation about the last settled draw.\<close>

definition last_record :: "StakeDB \<Rightarrow> Ledger \<Rightarrow> bool" where
  "last_record db lg \<longleftrightarrow> lg_last lg = 0 \<and> lg_carry lg = 0 \<or>
      is_draw (lg_last lg) \<and> dbFetchPoolStakeEntries db (lg_last lg) \<noteq> [] \<and> 0 < dbGetPoolBalance db (lg_last lg) \<and>
      (\<exists>won w. dbFetchDrawResultMeta db (lg_last lg) = Some (won, w) \<and>
         lg_carry lg = (if won then 0 else dbGetPoolBalance db (lg_last lg)))"

lemma last_record_cong:
  assumes "last_record db lg" and "lg_last lg \<noteq> 0 \<Longrightarrow> is_draw (lg_last lg) \<Longrightarrow>
      dbFetchPoolStakeEntries db' (lg_last lg) = dbFetchPoolStakeEntries db (lg_last lg) \<and>
      dbGetPoolBalance db' (lg_last lg) = dbGetPoolBalance db (lg_last lg) \<and>
      dbFetchDrawResultMeta db' (lg_last lg) = dbFetchDrawResultMeta db (lg_last lg)"
  shows "last_record db' lg"
proof (cases "lg_last lg = 0")
  case True
  then show ?thesis using assms(1) by (auto simp: last_record_def is_draw_def)
next
  case False
  then have "is_draw (lg_last lg)" using assms(1) by (simp add: last_record_def)
  note eqs = assms(2) [OF False this]
  show ?thesis using assms(1) unfolding last_record_def by (simp only: eqs)
qed

lemma pool_simI:
  assumes "index_ok db" and "stakes_real db" and "\<And>h. is_draw h \<Longrightarrow> lg_stakes lg h = stake_sum db h"
    and "\<And>h. is_draw h \<Longrightarrow> lg_last lg < h \<Longrightarrow> dbGetPoolBalance db h = stake_sum db h + (if h = c then lg_carry lg else 0)"
    and "\<And>h. is_draw h \<Longrightarrow> lg_last lg < h \<Longrightarrow> h < c \<Longrightarrow> dbFetchPoolStakeEntries db h = []"
    and "\<And>h. is_draw h \<Longrightarrow> lg_last lg < h \<Longrightarrow> dbFetchPoolStakeEntries db h \<noteq> [] \<Longrightarrow> dbFetchDrawResultMeta db h = None"
    and "last_record db lg" and "c mod 36 = 0" and "36 \<le> c" and "lg_last lg < c" and "0 \<le> lg_carry lg"
  shows "pool_sim db lg c"
  using assms by (simp add: pool_sim_def last_record_def)

lemma pool_simD:
  assumes "pool_sim db lg c"
  shows "index_ok db" and "stakes_real db" and "\<And>h. is_draw h \<Longrightarrow> lg_stakes lg h = stake_sum db h"
    and "\<And>h. is_draw h \<Longrightarrow> lg_last lg < h \<Longrightarrow> dbGetPoolBalance db h = stake_sum db h + (if h = c then lg_carry lg else 0)"
    and "\<And>h. is_draw h \<Longrightarrow> lg_last lg < h \<Longrightarrow> h < c \<Longrightarrow> dbFetchPoolStakeEntries db h = []"
    and "\<And>h. is_draw h \<Longrightarrow> lg_last lg < h \<Longrightarrow> dbFetchPoolStakeEntries db h \<noteq> [] \<Longrightarrow> dbFetchDrawResultMeta db h = None"
    and "last_record db lg" and "c mod 36 = 0" and "36 \<le> c" and "lg_last lg < c" and "0 \<le> lg_carry lg"
  using assms by (simp_all add: pool_sim_def last_record_def)

text \<open>The draw that settles next: the first one with stakers above the last settled draw.\<close>

definition next_draw :: "StakeDB \<Rightarrow> Ledger \<Rightarrow> int \<Rightarrow> bool" where
  "next_draw db lg d \<longleftrightarrow> is_draw d \<and> lg_last lg < d \<and> dbFetchPoolStakeEntries db d \<noteq> [] \<and>
     (\<forall>x \<in> draws (lg_last lg) (d - 36). dbFetchPoolStakeEntries db x = [])"

lemma is_draw_u32: "is_draw h \<Longrightarrow> 0 \<le> h \<and> h < 4294967296"
  by (simp add: is_draw_def)

lemma draws_is_draw: "x \<in> draws a (d - 36) \<Longrightarrow> is_draw d \<Longrightarrow> is_draw x \<and> a < x \<and> x < d"
  by (auto simp: draws_def is_draw_def)

lemma last_ok: "pool_sim db lg c \<Longrightarrow> 0 \<le> lg_last lg \<and> lg_last lg mod 36 = 0"
  by (auto simp: pool_sim_def is_draw_def)

lemma last_gap: "pool_sim db lg c \<Longrightarrow> is_draw d \<Longrightarrow> lg_last lg < d \<Longrightarrow> lg_last lg \<le> d - 36"
  using multiple_gap [of "lg_last lg" d] last_ok by (simp add: is_draw_def)

lemma carry_position:
  assumes "pool_sim db lg c" and "next_draw db lg d"
  shows "c \<le> d" and "c \<noteq> d \<Longrightarrow> c \<in> draws (lg_last lg) (d - 36)"
proof -
  show "c \<le> d" using assms unfolding pool_sim_def next_draw_def by (metis not_le)
  then show "c \<noteq> d \<Longrightarrow> c \<in> draws (lg_last lg) (d - 36)"
    using assms multiple_gap [of c d] by (auto simp: pool_sim_def next_draw_def draws_def is_draw_def)
qed

lemma walked_balances:
  assumes "pool_sim db lg c" and "next_draw db lg d"
  shows "dbGetPoolBalance db d + (\<Sum>x\<in>draws (lg_last lg) (d - 36). dbGetPoolBalance db x) = ledger_prize lg d"
proof -
  let ?D = "draws (lg_last lg) (d - 36)"
  have d: "is_draw d" "lg_last lg < d" using assms(2) by (simp_all add: next_draw_def)
  have "dbGetPoolBalance db x = (if x = c then lg_carry lg else 0)" if "x \<in> ?D" for x
    using assms that draws_is_draw [OF that d(1)] by (simp add: pool_sim_def next_draw_def stake_sum_def)
  then have "(\<Sum>x\<in>?D. dbGetPoolBalance db x) = (if c \<in> ?D then lg_carry lg else 0)"
    by (simp add: sum.delta)
  moreover have "dbGetPoolBalance db d = lg_stakes lg d + (if d = c then lg_carry lg else 0)"
    using assms(1) d by (simp add: pool_sim_def)
  moreover have "d \<notin> ?D" by (simp add: draws_def)
  ultimately show ?thesis using carry_position(2) [OF assms] by (auto simp: ledger_prize_def)
qed

lemma absorb_prize:
  assumes sim: "pool_sim db lg c" and next_d: "next_draw db lg d" and range: "is_i64 (ledger_prize lg d)"
  shows "snd (dbAbsorbIntermediateBalances db d) = ledger_prize lg d \<and>
    (\<forall>x. is_u32 x \<longrightarrow> dbGetPoolBalance (fst (dbAbsorbIntermediateBalances db d)) x =
       (if x \<in> draws (lg_last lg) (d - 36) then 0 else dbGetPoolBalance db x))"
proof (cases "d < 72")
  case True
  then have "draws (lg_last lg) (d - 36) = {}" by (intro draws_empty(2)) simp
  then show ?thesis
    using walked_balances [OF sim next_d] True by (simp add: dbAbsorbIntermediateBalances_def DrawInterval_def)
next
  case False
  let ?l = "lg_last lg"
  have d: "is_draw d" "?l < d" using next_d by (simp_all add: next_draw_def)
  have l: "?l = 0 \<or> dbGetPoolBalance db ?l \<noteq> 0 \<and> dbFetchPoolStakeEntries db ?l \<noteq> []"
    using sim by (auto simp: pool_sim_def)
  have "ordered (db_poolBalance db)" using sim by (simp add: pool_sim_def index_ok_def)
  then have "snd (absorb_loop db (d - 36) (dbGetPoolBalance db d)) =
        i64 (dbGetPoolBalance db d + (\<Sum>x\<in>draws ?l (d - 36). dbGetPoolBalance db x)) \<and>
      (\<forall>x. is_u32 x \<longrightarrow> dbGetPoolBalance (fst (absorb_loop db (d - 36) (dbGetPoolBalance db d))) x =
        (if x \<in> draws ?l (d - 36) then 0 else dbGetPoolBalance db x))"
    using last_ok [OF sim] last_gap [OF sim d] d(1) next_d l minus_36 [of d] dbGetPoolBalance_range [of db d]
    by (intro absorb_loop_walk) (simp_all add: is_draw_def next_draw_def)
  then show ?thesis
    using walked_balances [OF sim next_d] range False i64_id [of "ledger_prize lg d"]
    by (simp add: dbAbsorbIntermediateBalances_def DrawInterval_def)
qed

lemma foldl_stakes:
  "foldl (\<lambda>a e. i64 (a + se_TotalValue e)) 0 (map toStakeEntry es) = i64 (sum_list (map pe_Amount es))"
  using foldl_i64_0 [of se_TotalValue "map toStakeEntry es"] by (simp add: comp_def toStakeEntry_def)

lemma real_entries:
  assumes "stakes_real db" and "is_u32 h"
  shows "filter (\<lambda>e. se_WalletHash e \<noteq> JackpotPoolWalletHash) (FetchPoolStakeEntries db h) = FetchPoolStakeEntries db h"
    and "hasRealStakers db h \<longleftrightarrow> dbFetchPoolStakeEntries db h \<noteq> []"
proof -
  have e: "e \<in> set (dbFetchPoolStakeEntries db h) \<Longrightarrow> pe_WalletHash e \<noteq> JackpotPoolWalletHash" for e
    using assms by (simp add: stakes_real_def)
  then show "filter (\<lambda>e. se_WalletHash e \<noteq> JackpotPoolWalletHash) (FetchPoolStakeEntries db h) = FetchPoolStakeEntries db h"
    by (simp add: filter_id_conv FetchPoolStakeEntries_def toStakeEntry_def)
  show "hasRealStakers db h \<longleftrightarrow> dbFetchPoolStakeEntries db h \<noteq> []"
    using e by (cases "dbFetchPoolStakeEntries db h")
      (simp_all add: hasRealStakers_def FetchPoolStakeEntries_def toStakeEntry_def)
qed

lemma reconstruct_prize:
  assumes sim: "pool_sim db lg c" and next_d: "next_draw db lg d" and range: "is_i64 (ledger_prize lg d)"
  shows "ReconstructPoolBalance db d = ledger_prize lg d"
proof -
  let ?l = "lg_last lg"
  have d: "is_draw d" "?l < d" "dbFetchPoolStakeEntries db d \<noteq> []" using next_d by (simp_all add: next_draw_def)
  have real: "stakes_real db" and meta: "dbFetchDrawResultMeta db d = None" and n: "lg_stakes lg d = stake_sum db d"
    using sim d by (simp_all add: pool_sim_def)
  have new: "foldl (\<lambda>a e. i64 (a + se_TotalValue e)) 0
      (filter (\<lambda>e. se_WalletHash e \<noteq> JackpotPoolWalletHash) (FetchPoolStakeEntries db d)) = i64 (stake_sum db d)"
    using real_entries(1) [OF real, of d] is_draw_u32 [OF d(1)]
    by (simp add: foldl_stakes stake_sum_def) (simp add: FetchPoolStakeEntries_def foldl_stakes stake_sum_def)
  have "\<not> hasRealStakers db x" if "x \<in> draws ?l (d - 36)" for x
    using that next_d draws_is_draw [OF that d(1)] real_entries(2) [OF real] is_draw_u32 by (auto simp: next_draw_def)
  then have walk: "priorRollover db (d - 36) = (if ?l = 0 then None else priorRollover db ?l)"
    using last_ok [OF sim] last_gap [OF sim d(1,2)] d(1) minus_36 [of d]
    by (intro priorRollover_walk) (simp_all add: is_draw_def)
  show ?thesis
  proof (cases "?l = 0")
    case True
    then have "lg_carry lg = 0" using sim by (auto simp: pool_sim_def is_draw_def)
    then show ?thesis
      using True walk meta new n range i64_id [of "stake_sum db d"]
      by (simp add: ReconstructPoolBalance.simps [of db d] ledger_prize_def DrawInterval_def Let_def)
  next
    case False
    then obtain won w where l: "is_draw ?l" "dbFetchPoolStakeEntries db ?l \<noteq> []" "dbFetchDrawResultMeta db ?l = Some (won, w)"
        "lg_carry lg = (if won then 0 else dbGetPoolBalance db ?l)"
      using sim by (auto simp: pool_sim_def)
    have d72: "72 \<le> d" using l(1) last_gap [OF sim d(1,2)] by (simp add: is_draw_def)
    have "priorRollover db ?l = (if won then None else Some ?l)"
      using l real_entries(2) [OF real, of ?l] is_draw_u32 [OF l(1)] priorRollover.simps [of db ?l]
      by (simp add: DrawInterval_def is_draw_def)
    moreover have "ReconstructPoolBalance db ?l = dbGetPoolBalance db ?l"
      using l(3) by (simp add: ReconstructPoolBalance.simps [of db ?l])
    ultimately show ?thesis
      using False walk meta new n l(4) d72 range i64_id [of "ledger_prize lg d"]
      by (auto simp: ReconstructPoolBalance.simps [of db d] ledger_prize_def DrawInterval_def)
  qed
qed

section \<open>The steps of the index\<close>

lemma accept_reads:
  assumes ok: "index_ok db" and dh: "is_u32 dh" and t: "length t = 32" and wh: "length wh = 20" and amt: "is_i64 amt"
    and fresh: "fresh_stake db dh t" and h: "is_u32 h"
  shows "mset (dbFetchPoolStakeEntries (accept_stake dh t wh amt db) h) =
      (if h = dh then {#stake_entry t wh amt#} else {#}) + mset (dbFetchPoolStakeEntries db h)"
    and "dbGetPoolBalance (accept_stake dh t wh amt db) h =
      (if h = dh then i64 (dbGetPoolBalance db dh + amt) else dbGetPoolBalance db h)"
    and "dbFetchDrawResultMeta (accept_stake dh t wh amt db) h = dbFetchDrawResultMeta db h"
proof -
  have st: "stakes_ok db" "ordered (db_poolBalance db)" using ok by (simp_all add: index_ok_def)
  show "mset (dbFetchPoolStakeEntries (accept_stake dh t wh amt db) h) =
      (if h = dh then {#stake_entry t wh amt#} else {#}) + mset (dbFetchPoolStakeEntries db h)"
    using fetch_put [OF st(1) h dh t wh amt] others_fresh [OF st(1) h fresh] by (simp add: accept_stake_def store_frame)
  show "dbGetPoolBalance (accept_stake dh t wh amt db) h =
      (if h = dh then i64 (dbGetPoolBalance db dh + amt) else dbGetPoolBalance db h)"
    using dbGet_dbAdd [of "dbPutPoolStakeEntry db dh t wh amt" dh h amt] st dh h by (simp add: accept_stake_def store_frame)
  show "dbFetchDrawResultMeta (accept_stake dh t wh amt db) h = dbFetchDrawResultMeta db h"
    by (simp add: accept_stake_def store_frame)
qed

lemma accept_sum:
  assumes "index_ok db" and "is_u32 dh" and "length t = 32" and "length wh = 20" and "is_i64 amt"
    and "fresh_stake db dh t" and "is_u32 h"
  shows "stake_sum (accept_stake dh t wh amt db) h = stake_sum db h + (if h = dh then amt else 0)"
    and "dbFetchPoolStakeEntries (accept_stake dh t wh amt db) h = [] \<longleftrightarrow> h \<noteq> dh \<and> dbFetchPoolStakeEntries db h = []"
proof -
  have "stake_sum db' h = sum_mset (image_mset pe_Amount (mset (dbFetchPoolStakeEntries db' h)))" for db'
    by (simp add: stake_sum_def sum_mset_sum_list [symmetric] mset_map)
  then show "stake_sum (accept_stake dh t wh amt db) h = stake_sum db h + (if h = dh then amt else 0)"
    using accept_reads(1) [OF assms] by (simp add: stake_entry_def)
  show "dbFetchPoolStakeEntries (accept_stake dh t wh amt db) h = [] \<longleftrightarrow> h \<noteq> dh \<and> dbFetchPoolStakeEntries db h = []"
  proof -
    have "xs = [] \<longleftrightarrow> mset xs = {#}" for xs :: "poolStakeEntry list" by simp
    then show ?thesis using accept_reads(1) [OF assms] by (simp del: mset_zero_iff mset_zero_iff_right)
  qed
qed

lemma sim_stake:
  assumes sim: "pool_sim db lg c" and dh: "is_draw dh" and c: "c \<le> dh" and t: "length t = 32" and wh: "length wh = 20"
    and real: "0 < amt" "wh \<noteq> JackpotPoolWalletHash" and fresh: "fresh_stake db dh t"
    and range: "amt < 2 ^ 63" "dbGetPoolBalance db dh + amt < 2 ^ 63" and unsettled: "dbFetchDrawResultMeta db dh = None"
  shows "pool_sim (accept_stake dh t wh amt db) (ledger_stake dh amt lg) c"
proof -
  let ?db = "accept_stake dh t wh amt db"
  have ok: "index_ok db" and last: "lg_last lg < dh" using sim c by (simp_all add: pool_sim_def)
  have u: "is_u32 dh" using is_draw_u32 [OF dh] by simp
  have amt: "is_i64 amt" using real(1) range(1) by simp
  note reads = accept_reads [OF ok u t wh amt fresh] accept_sum [OF ok u t wh amt fresh]
  have bal: "0 \<le> dbGetPoolBalance db dh"
  proof -
    have "0 \<le> stake_sum db dh" using sim u by (simp add: pool_sim_def stake_sum_nonneg)
    then show ?thesis using sim dh last by (simp add: pool_sim_def)
  qed
  have add: "i64 (dbGetPoolBalance db dh + amt) = dbGetPoolBalance db dh + amt"
    using bal real(1) range(2) by (intro i64_id) simp
  have "stakes_real ?db"
    unfolding stakes_real_def
  proof (intro allI impI ballI)
    fix h e
    assume h: "is_u32 h" and e: "e \<in> set (dbFetchPoolStakeEntries ?db h)"
    have "e \<in># (if h = dh then {#stake_entry t wh amt#} else {#}) + mset (dbFetchPoolStakeEntries db h)"
      using e reads(1) [OF h] by (metis set_mset_mset)
    then have "e = stake_entry t wh amt \<or> e \<in> set (dbFetchPoolStakeEntries db h)" by (auto split: if_splits)
    then show "0 < pe_Amount e \<and> pe_WalletHash e \<noteq> JackpotPoolWalletHash"
      using sim h real by (auto simp: pool_sim_def stakes_real_def stake_entry_def)
  qed
  have du: "is_draw h \<Longrightarrow> is_u32 h" for h using is_draw_u32 by simp
  note old = pool_simD [OF sim]
  show ?thesis
  proof (rule pool_simI)
    show "index_ok ?db" by (rule accept_index_ok [OF ok t wh])
    show "stakes_real ?db" by fact
    show "lg_stakes (ledger_stake dh amt lg) h = stake_sum ?db h" if "is_draw h" for h
      using old(3) [OF that] reads(4) [OF du [OF that]] by (auto simp: ledger_stake_def)
    show "dbGetPoolBalance ?db h = stake_sum ?db h + (if h = c then lg_carry (ledger_stake dh amt lg) else 0)"
      if "is_draw h" "lg_last (ledger_stake dh amt lg) < h" for h
      using old(4) [OF that(1)] that(2) reads(2,4) [OF du [OF that(1)]] add by (auto simp: ledger_stake_def)
    show "dbFetchPoolStakeEntries ?db h = []" if "is_draw h" "lg_last (ledger_stake dh amt lg) < h" "h < c" for h
      using old(5) [OF that(1) _ that(3)] that c reads(5) [OF du [OF that(1)]] by (simp add: ledger_stake_def)
    show "dbFetchDrawResultMeta ?db h = None"
      if "is_draw h" "lg_last (ledger_stake dh amt lg) < h" "dbFetchPoolStakeEntries ?db h \<noteq> []" for h
      using old(6) [OF that(1)] that(2,3) unsettled reads(3,5) [OF du [OF that(1)]] by (auto simp: ledger_stake_def)
    show "last_record ?db (ledger_stake dh amt lg)"
    proof (cases "lg_last lg = 0")
      case True
      then show ?thesis using old(7) by (auto simp: last_record_def ledger_stake_def is_draw_def)
    next
      case False
      then have "is_draw (lg_last lg)" using old(7) by (simp add: last_record_def)
      moreover obtain won w where "dbFetchDrawResultMeta db (lg_last lg) = Some (won, w)"
          "lg_carry lg = (if won then 0 else dbGetPoolBalance db (lg_last lg))"
        using False old(7) by (auto simp: last_record_def)
      ultimately show ?thesis
        using reads(2,3,5) [OF du, of "lg_last lg"] False last old(7)
        by (auto simp: last_record_def ledger_stake_def intro!: exI [of _ won])
    qed
  qed (use old in \<open>simp_all add: ledger_stake_def\<close>)
qed

lemma sum_list_map_pos: "(\<And>x. x \<in> set xs \<Longrightarrow> 0 < f x) \<Longrightarrow> xs \<noteq> [] \<Longrightarrow> 0 < (sum_list (map f xs) :: int)"
proof (induction xs)
  case (Cons x xs)
  then show ?case by (cases "xs = []") (auto intro!: add_pos_pos)
qed simp

lemma cumulate_hashes: "ce_walletHash ` set (cumulate c xs) = se_WalletHash ` set xs"
  by (induction xs arbitrary: c) auto

lemma RunDraw_winner_staked:
  assumes "RunDraw stakes seed = Inr res" and "dr_JackpotWon res"
  shows "\<exists>s \<in> set stakes. dr_Winners res \<noteq> [] \<and> we_WalletHash (hd (dr_Winners res)) = se_WalletHash s"
proof -
  obtain pos e where e: "findWinner (buildSortedDepositList (realStakes stakes)) pos = Some e"
    and w: "map we_WalletHash (dr_Winners res) = [ce_walletHash e]"
    using assms by (auto simp: RunDraw_def Let_def DrawResult_zero_def rbind_eq_Inr split: if_splits option.splits)
  have "e \<in> set (buildSortedDepositList (realStakes stakes))"
    using findWinner_loop_sound [of "buildSortedDepositList (realStakes stakes)" pos 0
        "int (length (buildSortedDepositList (realStakes stakes))) - 1" e] e
    unfolding findWinner_def by auto
  then have "ce_walletHash e \<in> se_WalletHash ` set (realStakes stakes)"
    using cumulate_hashes [of 0 "sort_key se_WalletHash (realStakes stakes)"] by (force simp: buildSortedDepositList_def)
  then show ?thesis using w by (auto simp: realStakes_def Cons_eq_map_conv)
qed

lemma stake_wallet_length:
  "stakes_ok db \<Longrightarrow> is_u32 h \<Longrightarrow> e \<in> set (dbFetchPoolStakeEntries db h) \<Longrightarrow> length (pe_WalletHash e) = 20"
  by (auto simp: fetch_filter stakes_ok_def decode_stake_def)

text \<open>The write of a settled draw with stakers, and what is read afterwards.\<close>

lemma run_with_stakers:
  assumes ok: "index_ok db" and d: "is_draw d" and ne: "dbFetchPoolStakeEntries db d \<noteq> []"
    and run: "runAndStoreDrawResult db d seed = Inr db'" and ab: "dbAbsorbIntermediateBalances db d = (db1, full)"
    and full: "0 < full" "full < 2 ^ 63"
  shows "\<exists>won w. (\<forall>h. is_u32 h \<longrightarrow> dbFetchDrawResultMeta db' h = (if h = d then Some (won, w) else dbFetchDrawResultMeta db h)) \<and>
    (\<forall>h. is_u32 h \<longrightarrow> dbGetPoolBalance db' h =
      (if h = d then full else if h = d + 36 \<and> \<not> won then i64 (dbGetPoolBalance db1 h + full) else dbGetPoolBalance db1 h)) \<and>
    (\<exists>res. RunDraw (map toStakeEntry (dbFetchPoolStakeEntries db d)) seed = Inr res \<and> won = dr_JackpotWon res)"
proof -
  obtain res where res: "RunDraw (map toStakeEntry (dbFetchPoolStakeEntries db d)) seed = Inr res"
    and eq: "Inr db' = (let w = (if dr_JackpotWon res \<and> dr_Winners res \<noteq> [] then we_WalletHash (hd (dr_Winners res)) else replicate 20 0);
        db2 = dbPutDrawResultMeta (dbSetPoolBalance db1 d full) d (dr_JackpotWon res) w
      in if \<not> dr_JackpotWon res \<and> full > 0 then Inr (dbAddToPoolBalance db2 (u32 (d + 36)) full) else (Inr db2 :: StakeDB result))"
    using run ne by (auto simp: runAndStoreDrawResult_def Let_def ab rbind_eq_Inr DrawInterval_def)
  define won where "won = dr_JackpotWon res"
  define w where "w = (if dr_JackpotWon res \<and> dr_Winners res \<noteq> [] then we_WalletHash (hd (dr_Winners res)) else replicate 20 0)"
  define db2 where "db2 = dbPutDrawResultMeta (dbSetPoolBalance db1 d full) d won w"
  have du: "is_u32 d" "is_u32 (d + 36)" "u32 (d + 36) = d + 36" using d by (simp_all add: is_draw_def u32_id)
  have db': "db' = (if won then db2 else dbAddToPoolBalance db2 (d + 36) full)"
    using eq full(1) du(3) unfolding w_def [symmetric] db2_def won_def by (simp add: Let_def split: if_splits)
  have w20: "length w = 20"
    using RunDraw_winner_staked [OF res] stake_wallet_length [OF _ du(1)] ok
    by (auto simp: w_def toStakeEntry_def index_ok_def)
  have ok1: "index_ok db1" "db_drawMeta db1 = db_drawMeta db" using absorb_frame [OF ok ab] by simp_all
  have ord: "ordered (db_drawMeta (dbSetPoolBalance db1 d full))" "ordered (db_poolBalance db1)"
    using ok1(1) by (simp_all add: index_ok_def)
  have ord2: "ordered (db_poolBalance db2)" using ord(2) pool.wf_set by (simp add: db2_def)
  have meta: "is_u32 h \<Longrightarrow> dbFetchDrawResultMeta db2 h = (if h = d then Some (won, w) else dbFetchDrawResultMeta db h)" for h
    using meta_put [OF ord(1) du(1) _ w20, of h won] meta_cong [of "dbSetPoolBalance db1 d full" db h] ok1(2) by (simp add: db2_def)
  have bal: "is_u32 h \<Longrightarrow> dbGetPoolBalance db2 h = (if h = d then full else dbGetPoolBalance db1 h)" for h
    using dbGet_dbSet [OF ord(2) du(1), of h full] full by (simp add: db2_def store_frame)
  have "is_u32 h \<Longrightarrow> dbFetchDrawResultMeta db' h = (if h = d then Some (won, w) else dbFetchDrawResultMeta db h)" for h
    using meta by (simp add: db' store_frame)
  moreover have "is_u32 h \<Longrightarrow> dbGetPoolBalance db' h =
      (if h = d then full else if h = d + 36 \<and> \<not> won then i64 (dbGetPoolBalance db1 h + full) else dbGetPoolBalance db1 h)" for h
    using bal dbGet_dbAdd [OF ord2 du(2), of h full] du(2) by (auto simp: db')
  ultimately show ?thesis using res won_def by blast
qed

lemma sim_settle:
  assumes sim: "pool_sim db lg c" and next_d: "next_draw db lg d" and run: "runAndStoreDrawResult db d seed = Inr db'"
    and d36: "is_draw (d + 36)" and range: "stake_sum db (d + 36) + ledger_prize lg d < 2 ^ 63"
  shows "\<exists>won w. dbFetchDrawResultMeta db' d = Some (won, w) \<and> pool_sim db' (ledger_settle d won lg) (d + 36) \<and>
    (\<forall>h. is_u32 h \<longrightarrow> h \<noteq> d \<longrightarrow> dbFetchDrawResultMeta db' h = dbFetchDrawResultMeta db h)"
proof -
  note old = pool_simD [OF sim]
  have d: "is_draw d" "lg_last lg < d" "dbFetchPoolStakeEntries db d \<noteq> []" using next_d by (simp_all add: next_draw_def)
  have du: "is_draw h \<Longrightarrow> is_u32 h" for h using is_draw_u32 by simp
  note pos = stake_sum_nonneg [OF old(2)]
  have "e \<in> set (dbFetchPoolStakeEntries db d) \<Longrightarrow> 0 < pe_Amount e" for e
    using old(2) du [OF d(1)] by (simp add: stakes_real_def)
  then have "0 < stake_sum db d" using d(3) unfolding stake_sum_def by (intro sum_list_map_pos)
  then have prize: "0 < ledger_prize lg d" using old(3,11) d(1) by (simp add: ledger_prize_def)
  have small: "ledger_prize lg d < 2 ^ 63" using range pos [OF du [OF d36]] by simp
  obtain db1 full where ab: "dbAbsorbIntermediateBalances db d = (db1, full)" by (cases "dbAbsorbIntermediateBalances db d")
  have full: "full = ledger_prize lg d" and b1: "is_u32 x \<Longrightarrow> dbGetPoolBalance db1 x =
      (if x \<in> draws (lg_last lg) (d - 36) then 0 else dbGetPoolBalance db x)" for x
    using absorb_prize [OF sim next_d] prize small ab by auto
  obtain won w where meta: "\<And>h. is_u32 h \<Longrightarrow> dbFetchDrawResultMeta db' h = (if h = d then Some (won, w) else dbFetchDrawResultMeta db h)"
    and bal: "\<And>h. is_u32 h \<Longrightarrow> dbGetPoolBalance db' h =
      (if h = d then full else if h = d + 36 \<and> \<not> won then i64 (dbGetPoolBalance db1 h + full) else dbGetPoolBalance db1 h)"
    using run_with_stakers [OF old(1) d(1,3) run ab] prize small full by auto
  have frame: "index_ok db'" "db_poolStake db' = db_poolStake db" using runAndStore_frame [OF old(1) run] by simp_all
  have fetch: "dbFetchPoolStakeEntries db' h = dbFetchPoolStakeEntries db h" for h by (rule fetch_cong [OF frame(2)])
  have sum: "stake_sum db' h = stake_sum db h" for h by (simp add: stake_sum_def fetch)
  have above: "dbGetPoolBalance db1 h = stake_sum db h" if "is_draw h" "d < h" for h
    using b1 [OF du [OF that(1)]] old(4) [OF that(1)] that(2) d(2) carry_position(1) [OF sim next_d] by (simp add: draws_def)
  have "pool_sim db' (ledger_settle d won lg) (d + 36)"
  proof (rule pool_simI)
    show "stakes_real db'" using old(2) by (simp add: stakes_real_def fetch)
    show "dbGetPoolBalance db' h = stake_sum db' h + (if h = d + 36 then lg_carry (ledger_settle d won lg) else 0)"
      if "is_draw h" "lg_last (ledger_settle d won lg) < h" for h
    proof -
      have h: "d < h" using that(2) by (simp add: ledger_settle_def)
      have "i64 (stake_sum db (d + 36) + full) = stake_sum db (d + 36) + full"
        using range pos [OF du [OF d36]] prize full by (intro i64_id) simp
      then show ?thesis using bal [OF du [OF that(1)]] above [OF that(1) h] h full by (auto simp: ledger_settle_def sum)
    qed
    show "dbFetchPoolStakeEntries db' h = []" if "is_draw h" "lg_last (ledger_settle d won lg) < h" "h < d + 36" for h
      using that multiple_gap [of d h] d(1) by (simp add: ledger_settle_def is_draw_def)
    show "dbFetchDrawResultMeta db' h = None"
      if "is_draw h" "lg_last (ledger_settle d won lg) < h" "dbFetchPoolStakeEntries db' h \<noteq> []" for h
      using that meta [OF du [OF that(1)]] old(6) [OF that(1)] d(2) by (simp add: ledger_settle_def fetch)
    show "last_record db' (ledger_settle d won lg)"
      using meta [OF du [OF d(1)]] bal [OF du [OF d(1)]] d prize full
      by (simp add: last_record_def ledger_settle_def fetch)
    show "(d + 36) mod 36 = 0" "36 \<le> d + 36" using d(1) by (simp_all add: is_draw_def)
  qed (use frame old(3) sum prize in \<open>simp_all add: ledger_settle_def\<close>)
  then show ?thesis using meta meta [OF du [OF d(1)]] by auto
qed

lemma sim_pass:
  assumes sim: "pool_sim db lg c" and d: "is_draw d" "lg_last lg < d" and none: "dbFetchPoolStakeEntries db d = []"
    and run: "runAndStoreDrawResult db d seed = Inr db'" and d36: "is_draw (d + 36)"
    and range: "stake_sum db (d + 36) + lg_carry lg < 2 ^ 63"
  shows "\<exists>c'. pool_sim db' lg c' \<and> (c' = c \<or> c' = d + 36)"
    and "is_u32 h \<Longrightarrow> h \<noteq> d \<Longrightarrow> dbFetchDrawResultMeta db' h = dbFetchDrawResultMeta db h"
proof -
  note old = pool_simD [OF sim]
  have du: "is_draw h \<Longrightarrow> is_u32 h" for h using is_draw_u32 by simp
  have u: "u32 (d + 36) = d + 36" using d36 by (simp add: is_draw_def u32_id)
  have bal: "dbGetPoolBalance db d = (if d = c then lg_carry lg else 0)"
    using old(4) [OF d] none by (simp add: stake_sum_def)
  define db2 where "db2 = dbSetPoolBalance (dbAddToPoolBalance (dbPutDrawResultMeta db d False (replicate 20 0)) (d + 36) (dbGetPoolBalance db d)) d 0"
  have db': "db' = (if 0 < dbGetPoolBalance db d then db2 else db)"
    using run none u by (auto simp: runAndStoreDrawResult_def Let_def db2_def DrawInterval_def split: if_splits)
  have ord: "ordered (db_poolBalance db)" "ordered (db_drawMeta db)" using old(1) by (simp_all add: index_ok_def)
  have meta: "is_u32 h \<Longrightarrow> dbFetchDrawResultMeta db2 h = (if h = d then Some (False, replicate 20 0) else dbFetchDrawResultMeta db h)" for h
    using meta_put [OF ord(2) du [OF d(1)], of h "replicate 20 0" False] by (simp add: db2_def store_frame)
  then show "is_u32 h \<Longrightarrow> h \<noteq> d \<Longrightarrow> dbFetchDrawResultMeta db' h = dbFetchDrawResultMeta db h" by (simp add: db')
  have ordm: "ordered (db_poolBalance (dbPutDrawResultMeta db d False (replicate 20 0)))" using ord(1) by simp
  have get: "is_u32 h \<Longrightarrow> dbGetPoolBalance db2 h = (if h = d then 0 else if h = d + 36
      then i64 (dbGetPoolBalance db h + dbGetPoolBalance db d) else dbGetPoolBalance db h)" for h
    using dbGet_dbSet [of "dbAddToPoolBalance (dbPutDrawResultMeta db d False (replicate 20 0)) (d + 36) (dbGetPoolBalance db d)" d h 0]
      dbGet_dbAdd [OF ordm du [OF d36], of h] pool.wf_set [OF ordm] du [OF d(1)]
    by (simp add: db2_def store_frame dbAddToPoolBalance_def)
  show "\<exists>c'. pool_sim db' lg c' \<and> (c' = c \<or> c' = d + 36)"
  proof (cases "0 < dbGetPoolBalance db d")
    case False
    then show ?thesis using sim by (auto simp: db')
  next
    case True
    then have c: "d = c" "0 < lg_carry lg" "dbGetPoolBalance db d = lg_carry lg" using bal by (auto split: if_splits)
    have stake: "db_poolStake db2 = db_poolStake db" "index_ok db2" using old(1) by (simp_all add: db2_def)
    have fetch: "dbFetchPoolStakeEntries db2 h = dbFetchPoolStakeEntries db h" for h by (rule fetch_cong [OF stake(1)])
    have sum: "stake_sum db2 h = stake_sum db h" for h by (simp add: stake_sum_def fetch)
    have "0 \<le> stake_sum db (d + 36)" by (rule stake_sum_nonneg [OF old(2) du [OF d36]])
    moreover have next_bal: "dbGetPoolBalance db (d + 36) = stake_sum db (d + 36)" using old(4) [OF d36] d(2) c(1) by simp
    ultimately have add: "i64 (dbGetPoolBalance db (d + 36) + lg_carry lg) = stake_sum db (d + 36) + lg_carry lg"
      using range c(2) by (simp add: i64_id)
    have "pool_sim db2 lg (d + 36)"
    proof (rule pool_simI)
      show "stakes_real db2" using old(2) by (simp add: stakes_real_def fetch)
      show "dbGetPoolBalance db2 h = stake_sum db2 h + (if h = d + 36 then lg_carry lg else 0)" if "is_draw h" "lg_last lg < h" for h
        using get [OF du [OF that(1)]] old(4) [OF that] add c none by (auto simp: sum)
      show "dbFetchPoolStakeEntries db2 h = []" if "is_draw h" "lg_last lg < h" "h < d + 36" for h
      proof (cases "h < c")
        case True
        then show ?thesis using old(5) [OF that(1,2)] by (simp add: fetch)
      next
        case False
        then have "h = d" using that multiple_gap [of d h] d(1) c(1) by (force simp: is_draw_def)
        then show ?thesis using none by (simp add: fetch)
      qed
      show "dbFetchDrawResultMeta db2 h = None" if "is_draw h" "lg_last lg < h" "dbFetchPoolStakeEntries db2 h \<noteq> []" for h
        using meta [OF du [OF that(1)]] old(6) [OF that(1,2)] that(3) none by (auto simp: fetch)
      show "last_record db2 lg"
        using last_record_cong [OF old(7)] get [OF du] meta [OF du] d(2) by (simp add: fetch)
      show "(d + 36) mod 36 = 0" "36 \<le> d + 36" using d36 d by (simp_all add: is_draw_def)
    qed (use old stake sum d(2) in simp_all)
    then show ?thesis using True by (auto simp: db')
  qed
qed

section \<open>Orderly histories\<close>

text \<open>
  A history of the pool in the order in which the chain grows: validated stakes are indexed at
  their block, draws with stakers settle in order, each settlement paying what validation
  reconstructs, and draws without stakers may be settled at any time. The sums are assumed to
  stay below the largest signed 64-bit number.
\<close>

inductive pool_run :: "int \<Rightarrow> int \<Rightarrow> int \<Rightarrow> StakeDB \<Rightarrow> Ledger \<Rightarrow> bool" where
  start: "pool_run 0 0 0 empty_db ledger_init"
| stake: "pool_run H staked paid db lg \<Longrightarrow> H \<le> bh \<Longrightarrow> bh + 72 < 2 ^ 31 \<Longrightarrow> stake_data tx = Some (wh, amt, dh0) \<Longrightarrow>
     SatoshiPerBitcoin \<le> amt \<Longrightarrow> wh \<noteq> JackpotPoolWalletHash \<Longrightarrow> IsDrawBlock (i32 dh0) \<Longrightarrow> dh = stakeDrawHeight bh dh0 \<Longrightarrow>
     dbGetWalletStakeCount db dh wh < MaxStakesPerWalletPerDraw \<Longrightarrow> fresh_stake db dh (TxHash tx) \<Longrightarrow>
     dbGetPoolBalance db dh + amt < 2 ^ 63 \<Longrightarrow>
     pool_run bh (staked + amt) paid (connectStakeTx bh tx db) (ledger_stake dh amt lg)"
| settle: "pool_run H staked paid db lg \<Longrightarrow> H \<le> bh \<Longrightarrow> d < bh \<Longrightarrow> next_draw db lg d \<Longrightarrow> is_draw (d + 36) \<Longrightarrow>
     runAndStoreDrawResult db d seed = Inr db' \<Longrightarrow> dbFetchDrawResultMeta db' d = Some (won, w) \<Longrightarrow>
     stake_sum db (d + 36) + ledger_prize lg d < 2 ^ 63 \<Longrightarrow>
     pool_run bh staked (paid + (if won then ReconstructPoolBalance db d else 0)) db' (ledger_settle d won lg)"
| pass: "pool_run H staked paid db lg \<Longrightarrow> H \<le> bh \<Longrightarrow> d < bh \<Longrightarrow> is_draw d \<Longrightarrow> lg_last lg < d \<Longrightarrow> is_draw (d + 36) \<Longrightarrow>
     dbFetchPoolStakeEntries db d = [] \<Longrightarrow> runAndStoreDrawResult db d seed = Inr db' \<Longrightarrow>
     stake_sum db (d + 36) + lg_carry lg < 2 ^ 63 \<Longrightarrow>
     pool_run bh staked paid db' lg"

text \<open>What every such history keeps: the simulation, with the carried amount no further than the next draw.\<close>

definition run_sim :: "int \<Rightarrow> StakeDB \<Rightarrow> Ledger \<Rightarrow> bool" where
  "run_sim H db lg \<longleftrightarrow> 0 \<le> H \<and> (\<exists>c. pool_sim db lg c \<and> is_draw c \<and> c \<le> 36 * (H div 36 + 1)) \<and>
     (\<forall>h. is_u32 h \<longrightarrow> dbFetchDrawResultMeta db h \<noteq> None \<longrightarrow> h < H)"

lemma next_draw_bounds: "36 * ((bh::int) div 36) \<le> bh" "bh < 36 * (bh div 36 + 1)"
proof -
  have "bh = 36 * (bh div 36) + bh mod 36" "0 \<le> bh mod 36" "bh mod 36 < 36" by simp_all
  then show "36 * (bh div 36) \<le> bh" "bh < 36 * (bh div 36 + 1)" unfolding distrib_left by linarith+
qed

lemma stakeDrawHeight_next:
  assumes "0 \<le> bh" and "bh + 72 < 2 ^ 31" and "is_u32 dh" and "IsDrawBlock (i32 dh)"
  shows "is_draw (stakeDrawHeight bh dh)" and "bh < stakeDrawHeight bh dh"
proof -
  have m: "36 * (bh div 36) \<le> bh" "bh < 36 * (bh div 36) + 36" using next_draw_bounds [of bh] by simp_all
  have *: "stakeDrawHeight bh dh = (if i32 dh \<le> bh then 36 * (bh div 36 + 1) else i32 dh)"
  proof (cases "i32 dh \<le> bh")
    case True
    then show ?thesis using assms(1,2) m
      by (simp add: stakeDrawHeight_def DrawInterval_def sdiv_nonneg i32_id u32_id algebra_simps)
  next
    case False
    then show ?thesis using assms(1,3) i32_positive [of dh] by (auto simp: stakeDrawHeight_def)
  qed
  have "i32 dh < 2147483648" by simp
  moreover have "36 \<le> i32 dh" "i32 dh mod 36 = 0"
    using assms(4) multiple_gap [of 0 "i32 dh"] by (simp_all add: IsDrawBlock_iff)
  moreover have "36 * (bh div 36 + 1) mod 36 = 0" by simp
  ultimately show "is_draw (stakeDrawHeight bh dh)" "bh < stakeDrawHeight bh dh"
    using m assms(1,2) unfolding * is_draw_def by (auto simp del: i32_range_num)
qed

lemma draw_above: "is_draw dh \<Longrightarrow> bh < dh \<Longrightarrow> 36 * (bh div 36 + 1) \<le> dh"
  using next_draw_bounds(1) [of bh] multiple_gap [of "36 * (bh div 36)" dh] by (simp add: is_draw_def)

lemma draw_below: "is_draw d \<Longrightarrow> d < bh \<Longrightarrow> d + 36 \<le> 36 * (bh div 36 + 1)"
  using next_draw_bounds(2) [of bh] multiple_gap [of d "36 * (bh div 36 + 1)"] by (simp add: is_draw_def)

lemma next_mono: "H \<le> bh \<Longrightarrow> c \<le> 36 * (H div 36 + 1) \<Longrightarrow> c \<le> 36 * (bh div 36 + 1)" for c :: int
  using zdiv_mono1 [of H bh 36] by simp

lemma sim_start: "pool_sim empty_db ledger_init 36"
proof (rule pool_simI)
  have e: "dbFetchPoolStakeEntries empty_db h = []" for h
    by (simp add: dbFetchPoolStakeEntries_def empty_db_def bseek_def)
  show "stakes_real empty_db" by (simp add: stakes_real_def e)
  show "lg_stakes ledger_init h = stake_sum empty_db h" for h by (simp add: ledger_init_def stake_sum_def e)
  show "dbGetPoolBalance empty_db h = stake_sum empty_db h + (if h = 36 then lg_carry ledger_init else 0)" for h
    by (simp add: dbGetPoolBalance_def empty_db_def bget_def ledger_init_def) (simp add: stake_sum_def e [unfolded empty_db_def])
qed (auto simp: ledger_init_def last_record_def empty_db_ok [unfolded empty_db_def] dbFetchDrawResultMeta_def dbFetchPoolStakeEntries_def empty_db_def bseek_def bget_def)

lemma run_simulates: "pool_run H staked paid db lg \<Longrightarrow> run_sim H db lg"
proof (induction rule: pool_run.induct)
  case start
  have "dbFetchDrawResultMeta empty_db h = None" for h by (simp add: dbFetchDrawResultMeta_def empty_db_def bget_def)
  then show ?case using sim_start by (auto simp: run_sim_def is_draw_def)
next
  case (stake H staked paid db lg bh tx wh amt dh0 dh)
  then obtain c where c: "0 \<le> bh" "pool_sim db lg c" "c \<le> 36 * (bh div 36 + 1)" "is_draw c" using next_mono by (auto simp: run_sim_def)
  have w: "length wh = 20" "is_i64 amt" "is_u32 dh0" using stake_data_ok [OF stake.hyps(4)] by simp_all
  have dh: "is_draw dh" "bh < dh" using stakeDrawHeight_next [OF c(1) stake.hyps(3) w(3) stake.hyps(7)] stake.hyps(8) by simp_all
  have u: "is_u32 dh" using is_draw_u32 [OF dh(1)] by simp
  have eq: "connectStakeTx bh tx db = accept_stake dh (TxHash tx) wh amt db"
    using stake.hyps(4,8,9) by (simp add: connectStakeTx_cases)
  have none: "dbFetchDrawResultMeta db dh = None"
  proof (rule ccontr)
    assume "dbFetchDrawResultMeta db dh \<noteq> None"
    then have "dh < H" using stake.IH u unfolding run_sim_def by blast
    then show False using dh(2) stake.hyps(2) by simp
  qed
  have "pool_sim (accept_stake dh (TxHash tx) wh amt db) (ledger_stake dh amt lg) c"
    using sim_stake [OF c(2) dh(1) _ length_TxHash w(1) _ stake.hyps(6,10) _ stake.hyps(11) none] c(3) draw_above [OF dh] w(2) stake.hyps(5)
    by (simp add: SatoshiPerBitcoin_def)
  moreover have "is_u32 h \<Longrightarrow> dbFetchDrawResultMeta (accept_stake dh (TxHash tx) wh amt db) h \<noteq> None \<Longrightarrow> h < bh" for h
    using accept_reads(3) [OF pool_simD(1) [OF c(2)] u length_TxHash w(1,2) stake.hyps(10)] stake.IH stake.hyps(2)
    by (force simp: run_sim_def)
  ultimately show ?case using c(1,3,4) by (auto simp: run_sim_def eq)
next
  case (settle H staked paid db lg bh d seed db' won w)
  then obtain c where c: "0 \<le> bh" "pool_sim db lg c" by (auto simp: run_sim_def)
  have d: "is_draw d" using settle.hyps(4) by (simp add: next_draw_def)
  have "pool_sim db' (ledger_settle d won lg) (d + 36)"
    and "is_u32 h \<Longrightarrow> h \<noteq> d \<Longrightarrow> dbFetchDrawResultMeta db' h = dbFetchDrawResultMeta db h" for h
    using sim_settle [OF c(2) settle.hyps(4,6,5,8)] settle.hyps(7) by auto
  then show ?case using c(1) draw_below [OF d settle.hyps(3)] settle.IH settle.hyps(2,3,5) unfolding run_sim_def
    by (metis order.strict_trans2)
next
  case (pass H staked paid db lg bh d seed db')
  then obtain c where c: "0 \<le> bh" "pool_sim db lg c" "c \<le> 36 * (bh div 36 + 1)" "is_draw c" using next_mono by (auto simp: run_sim_def)
  obtain c' where "pool_sim db' lg c'" "c' = c \<or> c' = d + 36"
    using sim_pass(1) [OF c(2) pass.hyps(4,5,7,8,6,9)] by blast
  moreover have "is_u32 h \<Longrightarrow> h \<noteq> d \<Longrightarrow> dbFetchDrawResultMeta db' h = dbFetchDrawResultMeta db h" for h
    by (rule sim_pass(2) [OF c(2) pass.hyps(4,5,7,8,6,9)])
  ultimately show ?case using c(1,3,4) draw_below [OF pass.hyps(4,3)] pass.IH pass.hyps(2,3,6) unfolding run_sim_def
    by (metis order.strict_trans2)
qed

text \<open>Draws that are still open, and the money the ledger holds for them.\<close>

definition open_draws :: "Ledger \<Rightarrow> int set" where
  "open_draws lg = {h. is_draw h \<and> lg_last lg < h}"

lemma finite_open_draws [simp]: "finite (open_draws lg)"
  by (rule finite_subset [of _ "{36..2 ^ 32}"]) (auto simp: open_draws_def is_draw_def)

lemma open_draws_settle:
  assumes "next_draw db lg d"
  shows "open_draws lg = insert d (open_draws (ledger_settle d won lg)) \<union> draws (lg_last lg) (d - 36)"
    and "d \<notin> open_draws (ledger_settle d won lg)"
    and "insert d (open_draws (ledger_settle d won lg)) \<inter> draws (lg_last lg) (d - 36) = {}"
proof -
  have d: "is_draw d" "lg_last lg < d" using assms by (simp_all add: next_draw_def)
  have "h \<in> draws (lg_last lg) (d - 36)" if "is_draw h" "lg_last lg < h" "h < d" for h
    using that d(1) multiple_gap [of h d] by (simp add: draws_def is_draw_def)
  then show "open_draws lg = insert d (open_draws (ledger_settle d won lg)) \<union> draws (lg_last lg) (d - 36)"
    using d draws_is_draw [OF _ d(1)] by (fastforce simp: open_draws_def ledger_settle_def)
  show "d \<notin> open_draws (ledger_settle d won lg)"
    "insert d (open_draws (ledger_settle d won lg)) \<inter> draws (lg_last lg) (d - 36) = {}"
    by (auto simp: open_draws_def ledger_settle_def draws_def)
qed

lemma ledger_conserves:
  "pool_run H staked paid db lg \<Longrightarrow> staked = paid + lg_carry lg + (\<Sum>h\<in>open_draws lg. lg_stakes lg h)"
proof (induction rule: pool_run.induct)
  case start
  show ?case by (simp add: ledger_init_def)
next
  case (stake H staked paid db lg bh tx wh amt dh0 dh)
  have "run_sim H db lg" by (rule run_simulates [OF stake.hyps(1)])
  then obtain c where c: "0 \<le> H" "pool_sim db lg c" "c \<le> 36 * (bh div 36 + 1)"
    using stake.hyps(2) next_mono by (auto simp: run_sim_def)
  have dh: "is_draw dh" "bh < dh"
    using stakeDrawHeight_next [of bh dh0] stake.hyps(2,3,7,8) c(1) stake_data_ok [OF stake.hyps(4)] by simp_all
  then have "lg_last lg < dh" using c(2,3) draw_above [OF dh] by (simp add: pool_sim_def)
  then have dhm: "dh \<in> open_draws lg" using dh(1) by (simp add: open_draws_def)
  have o: "open_draws (ledger_stake dh amt lg) = open_draws lg" by (simp add: open_draws_def ledger_stake_def)
  have "(\<Sum>h\<in>open_draws lg. lg_stakes (ledger_stake dh amt lg) h) = (\<Sum>h\<in>open_draws lg. lg_stakes lg h + (if h = dh then amt else 0))"
    by (rule sum.cong) (simp_all add: ledger_stake_def)
  then show ?case using stake.IH dhm by (simp add: o sum.distrib) (simp add: ledger_stake_def)
next
  case (settle H staked paid db lg bh d seed db' won w)
  obtain c where c: "pool_sim db lg c" using run_simulates [OF settle.hyps(1)] by (auto simp: run_sim_def)
  let ?O = "open_draws (ledger_settle d won lg)" and ?D = "draws (lg_last lg) (d - 36)"
  have d: "is_draw d" and d36: "is_u32 (d + 36)" using settle.hyps(4,5) by (simp_all add: next_draw_def is_draw_def)
  have "lg_stakes lg x = 0" if "x \<in> ?D" for x
    using pool_simD(3) [OF c] draws_is_draw [OF that d] that settle.hyps(4) by (simp add: next_draw_def stake_sum_def)
  then have "(\<Sum>h\<in>open_draws lg. lg_stakes lg h) = lg_stakes lg d + (\<Sum>h\<in>?O. lg_stakes lg h)"
    using open_draws_settle(2,3) [OF settle.hyps(4)] unfolding open_draws_settle(1) [OF settle.hyps(4), of won]
    by (simp add: sum.union_disjoint)
  moreover have "is_draw x \<Longrightarrow> 0 \<le> lg_stakes lg x" for x
    using pool_simD(2,3) [OF c] stake_sum_nonneg is_draw_u32 by simp
  then have "is_i64 (ledger_prize lg d)"
    using settle.hyps(8) d pool_simD(11) [OF c] stake_sum_nonneg [OF pool_simD(2) [OF c] d36] by (auto simp: ledger_prize_def intro: order_trans [of _ 0])
  then have "ReconstructPoolBalance db d = ledger_prize lg d" by (rule reconstruct_prize [OF c settle.hyps(4)])
  ultimately show ?case using settle.IH by (simp add: ledger_settle_def ledger_prize_def)
qed simp

lemma run_prize:
  assumes "pool_run H staked paid db lg" and "next_draw db lg d"
  shows "0 \<le> ledger_prize lg d" and "ledger_prize lg d \<le> staked - paid"
proof -
  obtain c where c: "pool_sim db lg c" using run_simulates [OF assms(1)] by (auto simp: run_sim_def)
  have pos: "is_draw x \<Longrightarrow> 0 \<le> lg_stakes lg x" for x
    using pool_simD(2,3) [OF c] stake_sum_nonneg is_draw_u32 by simp
  then show "0 \<le> ledger_prize lg d"
    using assms(2) pool_simD(11) [OF c] by (simp add: ledger_prize_def next_draw_def)
  have "lg_stakes lg d \<le> (\<Sum>h\<in>open_draws lg. lg_stakes lg h)"
    using assms(2) pos finite_open_draws [of lg] by (intro member_le_sum) (auto simp: open_draws_def next_draw_def)
  then show "ledger_prize lg d \<le> staked - paid"
    using ledger_conserves [OF assms(1)] by (simp add: ledger_prize_def)
qed

section \<open>A history with one stake\<close>

definition sample_stake_tx :: MsgTx where
  "sample_stake_tx = \<lparr>tx_Version = 6, tx_TxIn = [],
     tx_TxOut = [\<lparr>to_Value = 0, to_PkScript = MakePoolStakingScript (replicate 20 1) 100000000 36\<rparr>], tx_LockTime = 0\<rparr>"

definition sample_db :: StakeDB where
  "sample_db = connectStakeTx 1 sample_stake_tx empty_db"

lemma sample_stake_data: "stake_data sample_stake_tx = Some (replicate 20 1, 100000000, 36)"
proof -
  let ?s = "MakePoolStakingScript (replicate 20 1) 100000000 36"
  have "IsPoolStakingOpReturn ?s"
    by (simp add: IsPoolStakingOpReturn_def MakePoolStakingScript_def PoolStakingScriptSize_def)
  then show ?thesis
    by (simp add: stake_data_def sample_stake_tx_def FindPoolStakingOpReturn_def ExtractPoolStakingData_Make)
qed

lemma sample_height: "stakeDrawHeight 1 36 = 36" by (simp add: stakeDrawHeight_def i32_id)

lemma sample_reads:
  "fresh_stake empty_db 36 t" "dbGetWalletStakeCount empty_db 36 w = 0" "dbGetPoolBalance empty_db 36 = 0"
  by (simp_all add: fresh_stake_def empty_db_def dbGetWalletStakeCount_def dbGetPoolBalance_def bget_def)

lemma sample_run: "pool_run 1 100000000 0 sample_db (ledger_stake 36 100000000 ledger_init)"
  using pool_run.stake [OF pool_run.start, of 1 sample_stake_tx "replicate 20 1" 100000000 36 36] sample_reads
  by (simp add: sample_stake_data sample_height sample_db_def SatoshiPerBitcoin_def JackpotPoolWalletHash_def
      IsDrawBlock_iff i32_id MaxStakesPerWalletPerDraw_def)

lemma sample_next: "next_draw sample_db (ledger_stake 36 100000000 ledger_init) 36"
proof -
  have "sample_db = accept_stake 36 (TxHash sample_stake_tx) (replicate 20 1) 100000000 empty_db"
    by (simp add: sample_db_def connectStakeTx_cases sample_stake_data sample_height sample_reads MaxStakesPerWalletPerDraw_def)
  then have "dbFetchPoolStakeEntries sample_db 36 \<noteq> []"
    using accept_sum(2) [OF empty_db_ok(1), of 36 "TxHash sample_stake_tx" "replicate 20 1" 100000000 36] sample_reads(1) by simp
  then show ?thesis by (simp add: next_draw_def is_draw_def ledger_stake_def ledger_init_def draws_empty)
qed

section \<open>A history with a rollover and a jackpot\<close>

text \<open>One stake of one token for draw \<open>d\<close>, and the index after a settlement that is stored.\<close>

definition stake_at :: "int \<Rightarrow> MsgTx" where
  "stake_at d = sample_stake_tx\<lparr>tx_TxOut := [\<lparr>to_Value = 0, to_PkScript = MakePoolStakingScript (replicate 20 1) 100000000 d\<rparr>]\<rparr>"

definition settled_db :: "StakeDB \<Rightarrow> int \<Rightarrow> bytes \<Rightarrow> StakeDB" where
  "settled_db db d seed = (case runAndStoreDrawResult db d seed of Inr db' \<Rightarrow> db' | Inl _ \<Rightarrow> db)"

lemma stake_at_data: "is_u32 d \<Longrightarrow> stake_data (stake_at d) = Some (replicate 20 1, 100000000, d)"
proof -
  assume d: "is_u32 d"
  let ?s = "MakePoolStakingScript (replicate 20 1) 100000000 d"
  have "IsPoolStakingOpReturn ?s"
    by (simp add: IsPoolStakingOpReturn_def MakePoolStakingScript_def PoolStakingScriptSize_def)
  then show ?thesis
    using d by (simp add: stake_data_def stake_at_def FindPoolStakingOpReturn_def ExtractPoolStakingData_Make)
qed

lemma fresh_empty_draw:
  assumes "index_ok db" and "is_u32 d" and "dbFetchPoolStakeEntries db d = []" and "length t = 32"
  shows "fresh_stake db d t"
proof -
  have "filter (\<lambda>e. take 4 (fst e) = heightKey d) (db_poolStake db) = []"
    using assms(1-3) by (simp add: fetch_filter index_ok_def)
  moreover have "take 4 (poolStakeKey d t) = heightKey d" by (simp add: poolStakeKey_def)
  ultimately show ?thesis by (auto simp: fresh_stake_def filter_empty_conv)
qed

lemma run_stake_at:
  assumes run: "pool_run H staked paid db lg" and h: "H \<le> bh" "bh < d" "bh + 72 < 2 ^ 31" "d < 2 ^ 31" and d: "is_draw d"
    and new: "dbFetchPoolStakeEntries db d = []" "dbGetWalletStakeCount db d (replicate 20 1) = 0" and carry: "lg_carry lg < 2 ^ 62"
  shows "pool_run bh (staked + 100000000) paid (connectStakeTx bh (stake_at d) db) (ledger_stake d 100000000 lg)"
    and "dbFetchPoolStakeEntries (connectStakeTx bh (stake_at d) db) d = [stake_entry (TxHash (stake_at d)) (replicate 20 1) 100000000]"
    and "is_u32 x \<Longrightarrow> x \<noteq> d \<Longrightarrow> mset (dbFetchPoolStakeEntries (connectStakeTx bh (stake_at d) db) x) = mset (dbFetchPoolStakeEntries db x)"
    and "is_u32 x \<Longrightarrow> x \<noteq> d \<Longrightarrow> dbGetWalletStakeCount (connectStakeTx bh (stake_at d) db) x w = dbGetWalletStakeCount db x w"
proof -
  let ?t = "TxHash (stake_at d)" and ?w = "replicate 20 1 :: bytes"
  obtain c where c: "0 \<le> H" "pool_sim db lg c" "c \<le> 36 * (bh div 36 + 1)"
    using run_simulates [OF run] h(1) next_mono by (auto simp: run_sim_def)
  have u: "is_u32 d" using is_draw_u32 [OF d] by simp
  note ok = pool_simD(1) [OF c(2)]
  have sd: "stake_data (stake_at d) = Some (?w, 100000000, d)" by (rule stake_at_data [OF u])
  have dh: "stakeDrawHeight bh d = d" using h u by (simp add: stakeDrawHeight_def i32_id)
  have fresh: "fresh_stake db d ?t" by (rule fresh_empty_draw [OF ok u new(1) length_TxHash])
  have "lg_last lg < d" using c(2,3) draw_above [OF d h(2)] by (simp add: pool_sim_def)
  then have bal: "dbGetPoolBalance db d + 100000000 < 2 ^ 63"
    using pool_simD(4) [OF c(2) d] new(1) carry by (simp add: stake_sum_def)
  have i: "i32 d = d" using u h(4) by (simp add: i32_id)
  have draw: "IsDrawBlock (i32 d)" using d by (simp add: i IsDrawBlock_iff is_draw_def)
  show "pool_run bh (staked + 100000000) paid (connectStakeTx bh (stake_at d) db) (ledger_stake d 100000000 lg)"
    using pool_run.stake [OF run h(1,3) sd _ _ draw dh [symmetric] _ fresh bal] new(2)
    by (simp add: SatoshiPerBitcoin_def JackpotPoolWalletHash_def MaxStakesPerWalletPerDraw_def)
  have eq: "connectStakeTx bh (stake_at d) db = accept_stake d ?t ?w 100000000 db"
    using new(2) by (simp add: connectStakeTx_cases sd dh MaxStakesPerWalletPerDraw_def)
  show "dbFetchPoolStakeEntries (connectStakeTx bh (stake_at d) db) d = [stake_entry ?t ?w 100000000]"
    using accept_reads(1) [OF ok u length_TxHash _ _ fresh u, of ?w 100000000] new(1) by (simp add: eq)
  show "is_u32 x \<Longrightarrow> x \<noteq> d \<Longrightarrow> mset (dbFetchPoolStakeEntries (connectStakeTx bh (stake_at d) db) x) = mset (dbFetchPoolStakeEntries db x)"
    using accept_reads(1) [OF ok u length_TxHash _ _ fresh, of ?w 100000000 x] by (simp add: eq)
  show "is_u32 x \<Longrightarrow> x \<noteq> d \<Longrightarrow> dbGetWalletStakeCount (connectStakeTx bh (stake_at d) db) x w = dbGetWalletStakeCount db x w"
    using ok u count_incr [of "dbAddToPoolBalance (dbPutPoolStakeEntry db d ?t ?w 100000000) d 100000000" d x ?w w]
    by (simp add: eq accept_stake_def index_ok_def store_frame)
qed

text \<open>A draw with that one stake is won when the seed is a multiple of \<^verbatim>\<open>WinMultiplier\<close>, and rolls over otherwise.\<close>

lemma one_stake_draw:
  "\<exists>res. RunDraw (map toStakeEntry [stake_entry t (replicate 20 1) 100000000]) seed = Inr res \<and>
     dr_JackpotWon res = (be_val seed mod WinMultiplier = 0)"
proof -
  define s where "s = map toStakeEntry [stake_entry t (replicate 20 1) 100000000]"
  have s: "s = [\<lparr>se_WalletHash = replicate 20 1, se_TokenCount = 1, se_TotalValue = 100000000\<rparr>]"
    by (simp add: s_def toStakeEntry_def stake_entry_def SatoshiPerBitcoin_def sdiv_nonneg)
  have r: "realStakes s = s" and tk: "tokens s = 1" and pv: "pool_value s = 100000000" and nn: "nonneg_tokens s"
    by (simp_all add: s realStakes_def tokens_def pool_value_def nonneg_tokens_def JackpotPoolWalletHash_def)
  have "draw_ok s" unfolding draw_ok_def r tk pv using nn by (simp add: WinMultiplier_def)
  moreover have "0 \<le> be_val seed mod WinMultiplier" by (simp add: WinMultiplier_def)
  ultimately show ?thesis using RunDraw_closed [of s seed] unfolding s_def [symmetric] r tk by auto
qed

lemma stored_one:
  assumes "dbFetchPoolStakeEntries db d = [stake_entry t (replicate 20 1) 100000000]"
  shows "runAndStoreDrawResult db d seed = Inr (settled_db db d seed)"
proof -
  obtain res where res: "RunDraw (map toStakeEntry (dbFetchPoolStakeEntries db d)) seed = Inr res"
    using one_stake_draw [of t seed] unfolding assms by metis
  obtain db1 full where ab: "dbAbsorbIntermediateBalances db d = (db1, full)" by (cases "dbAbsorbIntermediateBalances db d")
  have "\<exists>db'. runAndStoreDrawResult db d seed = Inr db'" using res assms by (simp add: runAndStoreDrawResult_def Let_def ab)
  then show ?thesis by (auto simp: settled_db_def)
qed

lemma run_settled:
  fixes seed :: bytes
  assumes run: "pool_run H staked paid db lg" and h: "H \<le> bh" "d < bh" and nd: "next_draw db lg d" "is_draw (d + 36)"
    and one: "dbFetchPoolStakeEntries db d = [stake_entry t (replicate 20 1) 100000000]"
    and range: "stake_sum db (d + 36) + ledger_prize lg d < 2 ^ 63"
  defines "won \<equiv> be_val seed mod WinMultiplier = 0"
  shows "pool_run bh staked (paid + (if won then ledger_prize lg d else 0)) (settled_db db d seed) (ledger_settle d won lg)"
    and "db_poolStake (settled_db db d seed) = db_poolStake db" and "db_walletCount (settled_db db d seed) = db_walletCount db"
proof -
  obtain c where c: "pool_sim db lg c" using run_simulates [OF run] by (auto simp: run_sim_def)
  obtain res where res: "RunDraw (map toStakeEntry (dbFetchPoolStakeEntries db d)) seed = Inr res" "dr_JackpotWon res = won"
    using one_stake_draw [of t seed] unfolding one won_def by metis
  obtain db1 full where ab: "dbAbsorbIntermediateBalances db d = (db1, full)" by (cases "dbAbsorbIntermediateBalances db d")
  define db' where "db' = settled_db db d seed"
  have s: "settled_db db d seed = db'" and db': "runAndStoreDrawResult db d seed = Inr db'"
    using stored_one [OF one] by (simp_all add: db'_def)
  note frame = runAndStore_frame [OF pool_simD(1) [OF c] db']
  show "db_poolStake (settled_db db d seed) = db_poolStake db" "db_walletCount (settled_db db d seed) = db_walletCount db"
    using frame by (simp_all add: s)
  have d: "is_draw d" "dbFetchPoolStakeEntries db d \<noteq> []" using nd(1) by (simp_all add: next_draw_def)
  have "0 < stake_sum db d" by (simp add: stake_sum_def one stake_entry_def)
  then have "0 < ledger_prize lg d" using pool_simD(3,11) [OF c] d(1) by (simp add: ledger_prize_def)
  moreover have "0 \<le> stake_sum db (d + 36)" using nd(2) is_draw_u32 [OF nd(2)] by (intro stake_sum_nonneg [OF pool_simD(2) [OF c]]) simp
  ultimately have prize: "0 < ledger_prize lg d" "ledger_prize lg d < 2 ^ 63" using range by simp_all
  then have full: "full = ledger_prize lg d" using absorb_prize [OF c nd(1)] ab by simp
  obtain w where "dbFetchDrawResultMeta db' d = Some (won, w)"
    using run_with_stakers [OF pool_simD(1) [OF c] d db' ab] prize full res is_draw_u32 [OF d(1)] by auto
  moreover have "ReconstructPoolBalance db d = ledger_prize lg d" using reconstruct_prize [OF c nd(1)] prize by simp
  ultimately show "pool_run bh staked (paid + (if won then ledger_prize lg d else 0)) (settled_db db d seed) (ledger_settle d won lg)"
    using pool_run.settle [OF run h nd db' _ range] by (cases won) (simp_all add: s)
qed

text \<open>
  The history: a stake for draw 36, which rolls over; a stake for draw 72, which pays the stakes of both draws;
  a stake for draw 108.
\<close>

definition sample_ledger :: Ledger where
  "sample_ledger = ledger_stake 72 100000000 (ledger_settle 36 False (ledger_stake 36 100000000 ledger_init))"

definition sample_db72 :: StakeDB where
  "sample_db72 = connectStakeTx 38 (stake_at 72) (settled_db sample_db 36 (be_bytes 32 1))"

definition sample_ledger108 :: Ledger where
  "sample_ledger108 = ledger_stake 108 100000000 (ledger_settle 72 True sample_ledger)"

definition sample_db108 :: StakeDB where
  "sample_db108 = connectStakeTx 74 (stake_at 108) (settled_db sample_db72 72 (be_bytes 32 0))"

lemma stake_at_36: "stake_at 36 = sample_stake_tx" by (simp add: stake_at_def sample_stake_tx_def)

lemma sample_empty: "dbFetchPoolStakeEntries empty_db h = []" "dbGetWalletStakeCount empty_db h w = 0"
  by (simp_all add: dbFetchPoolStakeEntries_def empty_db_def bseek_def dbGetWalletStakeCount_def bget_def)

lemmas sample_stake_36 = run_stake_at [OF pool_run.start, of 1 36, folded sample_db_def [folded stake_at_36]]

lemma sample_reads_36:
  "dbFetchPoolStakeEntries sample_db 36 = [stake_entry (TxHash (stake_at 36)) (replicate 20 1) 100000000]"
  "is_u32 x \<Longrightarrow> x \<noteq> 36 \<Longrightarrow> dbFetchPoolStakeEntries sample_db x = [] \<and> dbGetWalletStakeCount sample_db x w = 0"
  using sample_stake_36(2-4) by (simp_all add: is_draw_def sample_empty ledger_init_def)

lemma stake_sum_empty: "dbFetchPoolStakeEntries db h = [] \<Longrightarrow> stake_sum db h = 0" by (simp add: stake_sum_def)

lemma sample_rolled:
  defines "db \<equiv> settled_db sample_db 36 (be_bytes 32 1)"
  shows "pool_run 37 100000000 0 db (ledger_settle 36 False (ledger_stake 36 100000000 ledger_init))"
    and "dbFetchPoolStakeEntries db x = dbFetchPoolStakeEntries sample_db x" and "dbGetWalletStakeCount db x w = dbGetWalletStakeCount sample_db x w"
proof -
  have "stake_sum sample_db 72 = 0" using sample_reads_36(2) [of 72] by (simp add: stake_sum_empty)
  then have r: "stake_sum sample_db (36 + 36) + ledger_prize (ledger_stake 36 100000000 ledger_init) 36 < 2 ^ 63"
    by (simp add: ledger_prize_def ledger_stake_def ledger_init_def)
  have b: "be_val (be_bytes 32 1) mod WinMultiplier \<noteq> 0" by (simp add: be_val_be_bytes WinMultiplier_def)
  note s = run_settled [OF sample_run _ _ sample_next _ sample_reads_36(1) r, of 37 "be_bytes 32 1"]
  show "pool_run 37 100000000 0 db (ledger_settle 36 False (ledger_stake 36 100000000 ledger_init))"
    using s(1) b by (simp add: db_def is_draw_def)
  show "dbFetchPoolStakeEntries db x = dbFetchPoolStakeEntries sample_db x" "dbGetWalletStakeCount db x w = dbGetWalletStakeCount sample_db x w"
    using s(2,3) unfolding db_def by (intro fetch_cong count_cong; simp add: is_draw_def)+
qed

lemma sample_run_72:
  "pool_run 38 200000000 0 sample_db72 sample_ledger"
  "dbFetchPoolStakeEntries sample_db72 72 = [stake_entry (TxHash (stake_at 72)) (replicate 20 1) 100000000]"
  "dbFetchPoolStakeEntries sample_db72 108 = []" "dbGetWalletStakeCount sample_db72 108 w = 0"
proof -
  let ?lg = "ledger_settle 36 False (ledger_stake 36 100000000 ledger_init)"
  have "lg_carry ?lg < 2 ^ 62" by (simp add: ledger_settle_def ledger_prize_def ledger_stake_def ledger_init_def)
  note st = run_stake_at [OF sample_rolled(1), of 38 72, unfolded sample_rolled(2,3), OF _ _ _ _ _ _ _ this, folded sample_db72_def sample_ledger_def]
  show "pool_run 38 200000000 0 sample_db72 sample_ledger"
    "dbFetchPoolStakeEntries sample_db72 72 = [stake_entry (TxHash (stake_at 72)) (replicate 20 1) 100000000]"
    "dbFetchPoolStakeEntries sample_db72 108 = []" "dbGetWalletStakeCount sample_db72 108 w = 0"
    using st(1,2) st(3,4) [of 108] sample_reads_36(2) [of 72] sample_reads_36(2) [of 108] by (simp_all add: is_draw_def)
qed

lemma sample_prize: "ledger_prize sample_ledger 72 = 200000000" "lg_last sample_ledger = 36"
  by (simp_all add: sample_ledger_def ledger_prize_def ledger_stake_def ledger_settle_def ledger_init_def)

lemma sample_next_72: "next_draw sample_db72 sample_ledger 72"
  using sample_run_72(2) by (simp add: next_draw_def is_draw_def sample_prize draws_empty)

lemma sample_won:
  defines "db \<equiv> settled_db sample_db72 72 (be_bytes 32 0)"
  shows "pool_run 73 200000000 200000000 db (ledger_settle 72 True sample_ledger)"
    and "dbFetchPoolStakeEntries db 108 = []" and "dbGetWalletStakeCount db 108 w = 0"
proof -
  have r: "stake_sum sample_db72 (72 + 36) + ledger_prize sample_ledger 72 < 2 ^ 63"
    using sample_run_72(3) by (simp add: stake_sum_empty sample_prize)
  have b: "be_val (be_bytes 32 0) mod WinMultiplier = 0" by (simp add: be_val_be_bytes)
  note s = run_settled [OF sample_run_72(1) _ _ sample_next_72 _ sample_run_72(2) r, of 73 "be_bytes 32 0"]
  show "pool_run 73 200000000 200000000 db (ledger_settle 72 True sample_ledger)"
    using s(1) b by (simp add: db_def is_draw_def sample_prize)
  have "db_poolStake db = db_poolStake sample_db72" "db_walletCount db = db_walletCount sample_db72"
    using s(2,3) by (simp_all add: db_def is_draw_def)
  then show "dbFetchPoolStakeEntries db 108 = []" "dbGetWalletStakeCount db 108 w = 0"
    using fetch_cong [of db sample_db72] count_cong [of db sample_db72] sample_run_72(3,4) by simp_all
qed

lemma sample_run_108: "pool_run 74 300000000 200000000 sample_db108 sample_ledger108"
  using run_stake_at(1) [OF sample_won(1), of 74 108] sample_won(2,3)
  by (simp add: is_draw_def sample_db108_def sample_ledger108_def) (simp add: ledger_settle_def)

section \<open>Draws settled out of order\<close>

text \<open>
  Block validation does not demand that draws settle in order. When draw 72 rolls over before draw 36 does,
  the pool of draw 36 is added to the record of draw 72, which is closed. Validation finds it there and
  counts it into the prize of draw 108; the index does not.
\<close>

lemma order_sums:
  assumes "pool_run H staked paid db lg" and "lg_last lg = 0" and "staked - paid < 2 ^ 63"
    and "dbFetchPoolStakeEntries db 36 \<noteq> []" "dbFetchPoolStakeEntries db 72 \<noteq> []" "dbFetchPoolStakeEntries db 108 \<noteq> []"
  shows "0 < stake_sum db 36" "0 < stake_sum db 72" "0 < stake_sum db 108"
    and "stake_sum db 36 + stake_sum db 72 + stake_sum db 108 < 2 ^ 63"
    and "is_draw h \<Longrightarrow> dbGetPoolBalance db h = stake_sum db h"
proof -
  obtain c where c: "pool_sim db lg c" using run_simulates [OF assms(1)] by (auto simp: run_sim_def)
  note old = pool_simD [OF c]
  have carry: "lg_carry lg = 0" using old(7) assms(2) by (auto simp: last_record_def is_draw_def)
  have pos: "0 < stake_sum db h" if "is_u32 h" "dbFetchPoolStakeEntries db h \<noteq> []" for h
    unfolding stake_sum_def using old(2) that by (intro sum_list_map_pos) (auto simp: stakes_real_def)
  then show "0 < stake_sum db 36" "0 < stake_sum db 72" "0 < stake_sum db 108" using assms(4-6) by simp_all
  have "(\<Sum>h\<in>{36, 72, 108}. lg_stakes lg h) \<le> (\<Sum>h\<in>open_draws lg. lg_stakes lg h)"
  proof (rule sum_mono2 [OF finite_open_draws])
    show "{36, 72, 108} \<subseteq> open_draws lg" by (simp add: open_draws_def assms(2) is_draw_def)
    show "0 \<le> lg_stakes lg x" if "x \<in> open_draws lg - {36, 72, 108}" for x
      using that old(3) [of x] stake_sum_nonneg [OF old(2), of x] is_draw_u32 [of x] by (simp add: open_draws_def)
  qed
  moreover have "is_draw 36" "is_draw 72" "is_draw 108" by (simp_all add: is_draw_def)
  ultimately show "stake_sum db 36 + stake_sum db 72 + stake_sum db 108 < 2 ^ 63"
    using ledger_conserves [OF assms(1)] assms(3) carry old(3) by simp
  show "is_draw h \<Longrightarrow> dbGetPoolBalance db h = stake_sum db h"
    using old(4) assms(2) carry by (simp add: is_draw_def)
qed

lemma order_absorb:
  assumes "pool_run H staked paid db lg" "lg_last lg = 0" "staked - paid < 2 ^ 63"
    and "dbFetchPoolStakeEntries db 36 \<noteq> []" "dbFetchPoolStakeEntries db 72 \<noteq> []" "dbFetchPoolStakeEntries db 108 \<noteq> []"
  shows "dbAbsorbIntermediateBalances db 72 = (db, stake_sum db 72)"
  using assms(4-6) order_sums [OF assms]
  by (simp add: is_draw_def dbAbsorbIntermediateBalances_def DrawInterval_def absorb_loop.simps [of db 36])

lemma order_first:
  assumes run: "pool_run H staked paid db lg" "lg_last lg = 0" "staked - paid < 2 ^ 63"
    and st: "dbFetchPoolStakeEntries db 36 \<noteq> []" "dbFetchPoolStakeEntries db 72 \<noteq> []" "dbFetchPoolStakeEntries db 108 \<noteq> []"
    and r72: "runAndStoreDrawResult db 72 seed = Inr db1" "dbFetchDrawResultMeta db1 72 = Some (False, w)"
  shows "index_ok db1" and "dbFetchPoolStakeEntries db1 x = dbFetchPoolStakeEntries db x"
    and "dbAbsorbIntermediateBalances db1 36 = (db1, stake_sum db 36)"
    and "dbGetPoolBalance db1 72 = stake_sum db 72" and "dbGetPoolBalance db1 108 = stake_sum db 108 + stake_sum db 72"
    and "dbFetchDrawResultMeta db1 108 = None"
proof -
  obtain c where c: "pool_sim db lg c" using run_simulates [OF run(1)] by (auto simp: run_sim_def)
  note old = pool_simD [OF c] and sums = order_sums [OF run st]
  have dr: "is_draw 36" "is_draw 72" "is_draw 108" by (simp_all add: is_draw_def)
  note bal = sums(5) [OF dr(1)] sums(5) [OF dr(2)] sums(5) [OF dr(3)]
  have meta: "dbFetchDrawResultMeta db 108 = None" using old(6) [OF dr(3)] st run(2) by simp
  show "index_ok db1" "dbFetchPoolStakeEntries db1 x = dbFetchPoolStakeEntries db x"
    using runAndStore_frame [OF old(1) r72(1)] fetch_cong [of db1 db x] by simp_all
  note w = run_with_stakers [OF old(1) dr(2) st(2) r72(1) order_absorb [OF run st]]
  have "dbGetPoolBalance db1 36 = stake_sum db 36" "dbGetPoolBalance db1 72 = stake_sum db 72"
      "dbGetPoolBalance db1 108 = stake_sum db 108 + stake_sum db 72" "dbFetchDrawResultMeta db1 108 = None"
    using w sums meta bal r72(2) by (auto simp: i64_id)
  then show "dbAbsorbIntermediateBalances db1 36 = (db1, stake_sum db 36)" "dbGetPoolBalance db1 72 = stake_sum db 72"
      "dbGetPoolBalance db1 108 = stake_sum db 108 + stake_sum db 72" "dbFetchDrawResultMeta db1 108 = None"
    by (simp_all add: dbAbsorbIntermediateBalances_def DrawInterval_def)
qed

lemma settlement_order_matters:
  assumes run: "pool_run H staked paid db lg" "lg_last lg = 0" "staked - paid < 2 ^ 63"
    and st: "dbFetchPoolStakeEntries db 36 \<noteq> []" "dbFetchPoolStakeEntries db 72 \<noteq> []" "dbFetchPoolStakeEntries db 108 \<noteq> []"
    and r72: "runAndStoreDrawResult db 72 seed = Inr db1" "dbFetchDrawResultMeta db1 72 = Some (False, w)"
    and r36: "runAndStoreDrawResult db1 36 seed' = Inr db2" "dbFetchDrawResultMeta db2 36 = Some (False, w')"
  shows "ReconstructPoolBalance db2 108 = stake_sum db 36 + stake_sum db 72 + stake_sum db 108"
    and "snd (dbAbsorbIntermediateBalances db2 108) = stake_sum db 72 + stake_sum db 108"
proof -
  obtain c where c: "pool_sim db lg c" using run_simulates [OF run(1)] by (auto simp: run_sim_def)
  note first = order_first [OF run st r72] and sums = order_sums [OF run st]
  have dr: "is_draw 36" by (simp add: is_draw_def)
  have f2: "dbFetchPoolStakeEntries db2 x = dbFetchPoolStakeEntries db x" for x
    using runAndStore_frame [OF first(1) r36(1)] fetch_cong [of db2 db1 x] first(2) by simp
  note w = run_with_stakers [OF first(1) dr _ r36(1) first(3)]
  have 2: "dbGetPoolBalance db2 72 = stake_sum db 72 + stake_sum db 36" "dbFetchDrawResultMeta db2 72 = Some (False, w)"
      "dbGetPoolBalance db2 108 = stake_sum db 108 + stake_sum db 72" "dbFetchDrawResultMeta db2 108 = None"
    using w st(1) sums first(2,4-6) r72(2) r36(2) by (auto simp: i64_id)
  show "snd (dbAbsorbIntermediateBalances db2 108) = stake_sum db 72 + stake_sum db 108"
    using 2 st sums by (simp add: dbAbsorbIntermediateBalances_def DrawInterval_def absorb_loop.simps [of db2 72] f2)
  have real: "stakes_real db2" using pool_simD(2) [OF c] by (simp add: stakes_real_def f2)
  have "foldl (\<lambda>a e. i64 (a + se_TotalValue e)) 0 (FetchPoolStakeEntries db2 108) = stake_sum db 108"
    using sums by (simp add: FetchPoolStakeEntries_def f2 foldl_stakes) (simp add: stake_sum_def i64_id)
  moreover have "priorRollover db2 72 = Some 72"
    using real_entries(2) [OF real, of 72] 2(2) st by (simp add: priorRollover.simps [of db2 72] DrawInterval_def f2)
  moreover have "ReconstructPoolBalance db2 72 = stake_sum db 72 + stake_sum db 36"
    using 2 by (simp add: ReconstructPoolBalance.simps [of db2 72])
  ultimately show "ReconstructPoolBalance db2 108 = stake_sum db 36 + stake_sum db 72 + stake_sum db 108"
    using real_entries(1) [OF real, of 108] 2(4) sums
    by (simp add: ReconstructPoolBalance.simps [of db2 108] DrawInterval_def i64_id)
qed

text \<open>Three stakes of one token, and the draws 72 and 36 rolled over in this order.\<close>

definition sample_db3 :: StakeDB where
  "sample_db3 = connectStakeTx 3 (stake_at 108) (connectStakeTx 2 (stake_at 72) sample_db)"

lemma rolled_meta:
  assumes "index_ok db" and "is_draw d" and one: "dbFetchPoolStakeEntries db d = [stake_entry t (replicate 20 1) 100000000]"
    and "dbAbsorbIntermediateBalances db d = (db1, full)" and "0 < full" "full < 2 ^ 63"
  shows "\<exists>w. dbFetchDrawResultMeta (settled_db db d (be_bytes 32 1)) d = Some (False, w)"
proof -
  have "be_val (be_bytes 32 1) mod WinMultiplier \<noteq> 0" by (simp add: be_val_be_bytes WinMultiplier_def)
  then obtain res where "RunDraw (map toStakeEntry (dbFetchPoolStakeEntries db d)) (be_bytes 32 1) = Inr res" "\<not> dr_JackpotWon res"
    using one_stake_draw [of t "be_bytes 32 1"] unfolding one by metis
  then show ?thesis
    using run_with_stakers [OF assms(1,2) _ stored_one [OF one, of "be_bytes 32 1"] assms(4-6)] one is_draw_u32 [OF assms(2)] by auto
qed

lemma sample_out_of_order:
  defines "db \<equiv> settled_db (settled_db sample_db3 72 (be_bytes 32 1)) 36 (be_bytes 32 1)"
  shows "ReconstructPoolBalance db 108 = 300000000 \<and> snd (dbAbsorbIntermediateBalances db 108) = 200000000"
proof -
  let ?lg = "ledger_stake 72 100000000 (ledger_stake 36 100000000 ledger_init)" and ?e = "\<lambda>d. stake_entry (TxHash (stake_at d)) (replicate 20 1) 100000000"
  have dr: "is_draw 36" "is_draw 72" "is_draw 108" by (simp_all add: is_draw_def)
  note s72 = run_stake_at [OF sample_run _ _ _ _ dr(2), of 2]
  have 72: "pool_run 2 200000000 0 (connectStakeTx 2 (stake_at 72) sample_db) ?lg"
    "dbFetchPoolStakeEntries (connectStakeTx 2 (stake_at 72) sample_db) 108 = []"
    "dbGetWalletStakeCount (connectStakeTx 2 (stake_at 72) sample_db) 108 w = 0"
    "dbFetchPoolStakeEntries (connectStakeTx 2 (stake_at 72) sample_db) 36 = [?e 36]"
    "dbFetchPoolStakeEntries (connectStakeTx 2 (stake_at 72) sample_db) 72 = [?e 72]" for w
    using s72(1,2) s72(3) [of 36] s72(3,4) [of 108] sample_reads_36(1) sample_reads_36(2) [of 72] sample_reads_36(2) [of 108]
    by (simp_all add: ledger_stake_def ledger_init_def)
  note s108 = run_stake_at [OF 72(1) _ _ _ _ dr(3), of 3, folded sample_db3_def]
  have 3: "pool_run 3 300000000 0 sample_db3 (ledger_stake 108 100000000 ?lg)" "dbFetchPoolStakeEntries sample_db3 36 = [?e 36]"
    "dbFetchPoolStakeEntries sample_db3 72 = [?e 72]" "dbFetchPoolStakeEntries sample_db3 108 = [?e 108]"
    using s108(1,2) s108(3) [of 36] s108(3) [of 72] 72(2-5) by (simp_all add: ledger_stake_def ledger_init_def)
  then have ne: "dbFetchPoolStakeEntries sample_db3 36 \<noteq> []" "dbFetchPoolStakeEntries sample_db3 72 \<noteq> []" "dbFetchPoolStakeEntries sample_db3 108 \<noteq> []"
    by simp_all
  have l: "lg_last (ledger_stake 108 100000000 ?lg) = 0" "300000000 - 0 < (2 :: int) ^ 63" by (simp_all add: ledger_stake_def ledger_init_def)
  have sums: "stake_sum sample_db3 36 = 100000000" "stake_sum sample_db3 72 = 100000000" "stake_sum sample_db3 108 = 100000000"
    using 3 by (simp_all add: stake_sum_def stake_entry_def)
  obtain c where c: "pool_sim sample_db3 (ledger_stake 108 100000000 ?lg) c" using run_simulates [OF 3(1)] by (auto simp: run_sim_def)
  let ?db1 = "settled_db sample_db3 72 (be_bytes 32 1)"
  obtain w where w: "dbFetchDrawResultMeta ?db1 72 = Some (False, w)"
    using rolled_meta [OF pool_simD(1) [OF c] dr(2) 3(3) order_absorb [OF 3(1) l ne]] sums by auto
  note r = stored_one [OF 3(3), of "be_bytes 32 1"]
  note first = order_first [OF 3(1) l ne r w]
  have f: "dbFetchPoolStakeEntries ?db1 36 = [?e 36]" using first(2) 3(2) by simp
  obtain w' where w': "dbFetchDrawResultMeta db 36 = Some (False, w')"
    using rolled_meta [OF first(1) dr(1) f first(3)] sums by (auto simp: db_def)
  show ?thesis
    using settlement_order_matters [OF 3(1) l ne r w stored_one [OF f] w' [unfolded db_def]] sums by (simp add: db_def)
qed

section \<open>Properties of the pool\<close>

text \<open>
  C16. The pool neither creates nor loses coins: after any orderly history of validated stakes
  and settlements, where no block is disconnected and draws with stakers settle in the order of their
  heights, the balances of the open draws add up to what was staked minus what the validated
  settlements paid.
\<close>

theorem pool_conserved:
  assumes "pool_run H staked paid db lg"
  shows "(\<Sum>h\<in>open_draws lg. dbGetPoolBalance db h) = staked - paid"
proof -
  obtain c where c: "pool_sim db lg c" "is_draw c" using run_simulates [OF assms] by (auto simp: run_sim_def)
  have "(\<Sum>h\<in>open_draws lg. dbGetPoolBalance db h) = (\<Sum>h\<in>open_draws lg. lg_stakes lg h + (if h = c then lg_carry lg else 0))"
    using pool_simD(3,4) [OF c(1)] by (intro sum.cong refl) (simp add: open_draws_def)
  moreover have "c \<in> open_draws lg" using c pool_simD(10) by (simp add: open_draws_def)
  ultimately show ?thesis using ledger_conserves [OF assms] by (simp add: sum.distrib)
qed

theorem pool_conserved_witness:
  "pool_run 74 300000000 200000000 sample_db108 sample_ledger108 \<and>
   (\<Sum>h\<in>open_draws sample_ledger108. dbGetPoolBalance sample_db108 h) = 100000000"
  using pool_conserved [OF sample_run_108] sample_run_108 by simp

text \<open>
  C15. After an orderly history, where no block is disconnected and draws with stakers settle in the
  order of their heights: for the next draw to settle, the prize that block validation reconstructs for the
  settlement transaction, the full balance that the index records when the block connects and
  the prize of the abstract ledger are the same amount, and it is covered by the coins staked
  and not yet paid. So a node that has seen such a history
  accepts exactly the payout that its own index records.
\<close>

theorem prize_agreed:
  assumes "pool_run H staked paid db lg" and "next_draw db lg d" and "staked - paid < 2 ^ 63"
  shows "ReconstructPoolBalance db d = ledger_prize lg d \<and>
    snd (dbAbsorbIntermediateBalances db d) = ledger_prize lg d \<and> ledger_prize lg d \<le> staked - paid"
proof -
  obtain c where c: "pool_sim db lg c" using run_simulates [OF assms(1)] by (auto simp: run_sim_def)
  note p = run_prize [OF assms(1,2)]
  have r: "is_i64 (ledger_prize lg d)" using p assms(3) by simp
  show ?thesis using reconstruct_prize [OF c assms(2) r] absorb_prize [OF c assms(2) r] p by simp
qed

theorem prize_agreed_witness:
  "pool_run 38 200000000 0 sample_db72 sample_ledger \<and> ReconstructPoolBalance sample_db72 72 = 200000000 \<and>
   snd (dbAbsorbIntermediateBalances sample_db72 72) = 200000000"
  using prize_agreed [OF sample_run_72(1) sample_next_72] sample_run_72(1) by (simp add: sample_prize)

end
