(* ===== verification/StakeReorg.thy ===== *)
theory StakeReorg
  imports PoolLedger
begin

text \<open>
  What a chain reorganization does to the staking index: the limit of stakes per wallet over all
  histories of connected and disconnected blocks, and how far the disconnection of a stake undoes
  its connection.
\<close>

section \<open>Connecting and disconnecting one stake\<close>

definition reorg_stake :: "int \<Rightarrow> MsgTx \<Rightarrow> StakeDB \<Rightarrow> StakeDB" where
  "reorg_stake bh tx db = disconnectStakeTx tx (connectStakeTx bh tx db)"

text \<open>The reads after an accepted stake with target \<open>dh\<close> was indexed at \<open>dh'\<close> and disconnected.\<close>

lemma reorg_reads:
  assumes ok: "index_ok db" and st: "stake_data tx = Some (wh, amt, dh)" and dh': "dh' = stakeDrawHeight bh dh"
    and below: "dbGetWalletStakeCount db dh' wh < MaxStakesPerWalletPerDraw"
    and fresh: "fresh_stake db dh (TxHash tx)" "fresh_stake db dh' (TxHash tx)" and h: "is_u32 h"
  shows "mset (dbFetchPoolStakeEntries (reorg_stake bh tx db) h) =
      (if h = dh' \<and> dh' \<noteq> dh then {#stake_entry (TxHash tx) wh amt#} else {#}) + mset (dbFetchPoolStakeEntries db h)"
    and "dbGetPoolBalance (reorg_stake bh tx db) h =
      (if dh' = dh then dbGetPoolBalance db h
       else if h = dh' then i64 (dbGetPoolBalance db h + amt)
       else if h = dh then i64 (dbGetPoolBalance db h - amt) else dbGetPoolBalance db h)"
    and "dbGetWalletStakeCount (reorg_stake bh tx db) h w =
      (if h = dh' \<and> w = wh then dbGetWalletStakeCount db h w + 1 else dbGetWalletStakeCount db h w)"
proof -
  let ?t = "TxHash tx"
  let ?db = "accept_stake dh' ?t wh amt db"
  have k: "length wh = 20" "is_i64 amt" "is_u32 dh" using stake_data_ok [OF st] by simp_all
  have u: "is_u32 dh'" using k(3) by (simp add: dh')
  have r: "reorg_stake bh tx db = dbAddToPoolBalance (dbRemovePoolStakeEntry ?db dh ?t) dh (- amt)"
    using st below by (simp add: reorg_stake_def connectStakeTx_cases disconnectStakeTx_cases dh' [symmetric])
  have stk: "stakes_ok db" "ordered (db_poolBalance db)" "ordered (db_walletCount db)" using ok by (simp_all add: index_ok_def)
  have ok2: "index_ok ?db" by (rule accept_index_ok [OF ok length_TxHash k(1)])
  then have stk2: "stakes_ok ?db" "ordered (db_poolBalance ?db)" by (simp_all add: index_ok_def)
  note reads = accept_reads [OF ok u length_TxHash k(1,2) fresh(2) h]
  have keys: "poolStakeKey dh ?t = poolStakeKey dh' ?t \<longleftrightarrow> dh = dh'"
    using heightKey_inj [OF k(3) u] by (simp add: poolStakeKey_def)
  have fetch: "dbFetchPoolStakeEntries (reorg_stake bh tx db) h = dbFetchPoolStakeEntries (dbRemovePoolStakeEntry ?db dh ?t) h"
    unfolding r by (rule fetch_cong) simp
  show "mset (dbFetchPoolStakeEntries (reorg_stake bh tx db) h) =
      (if h = dh' \<and> dh' \<noteq> dh then {#stake_entry ?t wh amt#} else {#}) + mset (dbFetchPoolStakeEntries db h)"
  proof (cases "dh' = dh")
    case True
    have "mset (db_poolStake ?db) = add_mset (poolStakeKey dh' ?t, wh @ be_bytes 8 (u64 amt))
        (filter_mset (\<lambda>e. fst e \<noteq> poolStakeKey dh' ?t) (mset (db_poolStake db)))"
      using stk(1) by (simp add: accept_stake_def dbPutPoolStakeEntry_def mset_bput bdel_def stakes_ok_def)
    then have "others ?db dh ?t h = others db dh ?t h"
      unfolding others_def True by (simp add: filter_filter_mset conj_commute conj_left_commute)
    then show ?thesis
      using fetch_remove [OF stk2(1) h, of dh ?t] others_fresh [OF stk(1) h fresh(1)] True by (simp add: fetch)
  next
    case False
    have "fresh_stake ?db dh ?t"
      using fresh(1) keys False stk(1)
      by (auto simp: fresh_stake_def accept_stake_def dbPutPoolStakeEntry_def bput_set stakes_ok_def)
    then show ?thesis
      using fetch_remove [OF stk2(1) h, of dh ?t] others_fresh [OF stk2(1) h] reads(1) False by (simp add: fetch)
  qed
  have "dbGetPoolBalance (dbRemovePoolStakeEntry ?db dh ?t) x = dbGetPoolBalance ?db x" for x
    by (rule balance_cong) simp
  then have "dbGetPoolBalance (reorg_stake bh tx db) h =
      (if h = dh then i64 (dbGetPoolBalance ?db dh + - amt) else dbGetPoolBalance ?db h)"
    using dbGet_dbAdd [of "dbRemovePoolStakeEntry ?db dh ?t" dh h "- amt"] stk2(2) k(3) h
    by (simp add: r)
  moreover have "i64 (i64 (dbGetPoolBalance db dh + amt) - amt) = dbGetPoolBalance db dh"
    using dbGetPoolBalance_range [of db dh] i64_id [of "dbGetPoolBalance db dh"] i64_add_left [of "dbGetPoolBalance db dh + amt" "- amt"] by simp
  ultimately show "dbGetPoolBalance (reorg_stake bh tx db) h =
      (if dh' = dh then dbGetPoolBalance db h
       else if h = dh' then i64 (dbGetPoolBalance db h + amt)
       else if h = dh then i64 (dbGetPoolBalance db h - amt) else dbGetPoolBalance db h)"
    using reads(2) accept_reads(2) [OF ok u length_TxHash k(1,2) fresh(2) k(3)] by auto
  have "dbGetWalletStakeCount (reorg_stake bh tx db) h w = dbGetWalletStakeCount ?db h w"
    unfolding r by (rule count_cong) simp
  then show "dbGetWalletStakeCount (reorg_stake bh tx db) h w =
      (if h = dh' \<and> w = wh then dbGetWalletStakeCount db h w + 1 else dbGetWalletStakeCount db h w)"
    using count_incr [of "dbAddToPoolBalance (dbPutPoolStakeEntry db dh' ?t wh amt) dh' amt" dh' h wh w] stk(3) u h below
    by (auto simp: accept_stake_def store_frame MaxStakesPerWalletPerDraw_def)
qed

lemma reorg_ok:
  assumes "index_ok db" and "fresh_stake db dh (TxHash tx)" and "stake_data tx = Some (wh, amt, dh)"
    and "stakeDrawHeight bh dh = dh" and "dbGetWalletStakeCount db dh wh < MaxStakesPerWalletPerDraw"
  shows "index_ok (reorg_stake bh tx db) \<and> fresh_stake (reorg_stake bh tx db) dh (TxHash tx)"
proof -
  have k: "length wh = 20" using stake_data_ok [OF assms(3)] by simp
  have r: "reorg_stake bh tx db =
      dbAddToPoolBalance (dbRemovePoolStakeEntry (accept_stake dh (TxHash tx) wh amt db) dh (TxHash tx)) dh (- amt)"
    using assms by (simp add: reorg_stake_def connectStakeTx_cases disconnectStakeTx_cases)
  have "index_ok (accept_stake dh (TxHash tx) wh amt db)" by (rule accept_index_ok [OF assms(1) length_TxHash k])
  then have "index_ok (reorg_stake bh tx db)" by (simp add: r remove_index_ok)
  moreover have "fresh_stake (reorg_stake bh tx db) dh (TxHash tx)"
    by (auto simp: r fresh_stake_def dbRemovePoolStakeEntry_def bdel_def)
  ultimately show ?thesis ..
qed

text \<open>Each reorganization of the block counts the stake once more.\<close>

lemma reorgs_count:
  assumes "index_ok db" and "fresh_stake db dh (TxHash tx)" and st: "stake_data tx = Some (wh, amt, dh)"
    and same: "stakeDrawHeight bh dh = dh" and "dbGetWalletStakeCount db dh wh + int n \<le> MaxStakesPerWalletPerDraw"
  shows "index_ok ((reorg_stake bh tx ^^ n) db) \<and> fresh_stake ((reorg_stake bh tx ^^ n) db) dh (TxHash tx) \<and>
    dbGetWalletStakeCount ((reorg_stake bh tx ^^ n) db) dh wh = dbGetWalletStakeCount db dh wh + int n"
  using assms(5)
proof (induction n)
  case (Suc n)
  let ?d = "(reorg_stake bh tx ^^ n) db"
  have IH: "index_ok ?d" "fresh_stake ?d dh (TxHash tx)" "dbGetWalletStakeCount ?d dh wh = dbGetWalletStakeCount db dh wh + int n"
    using Suc by simp_all
  have below: "dbGetWalletStakeCount ?d dh wh < MaxStakesPerWalletPerDraw" using IH(3) Suc.prems by simp
  have u: "is_u32 dh" using stake_data_ok [OF st] by simp
  show ?case
    using reorg_ok [OF IH(1,2) st same below] reorg_reads(3) [OF IH(1) st same [symmetric] below IH(2,2) u, of wh] IH(3) by simp
qed (use assms in simp)

section \<open>Properties\<close>

text \<open>
  C17. Over every history of connected and disconnected blocks, no wallet has more than five
  indexed stakes in one draw.
\<close>

theorem wallet_limit:
  assumes "index_state db" and "is_u32 h" and "length w = 20"
  shows "walletStakes db h w \<le> 5"
  using index_state_ok [OF assms(1)] assms(2,3) unfolding within_limit_def MaxStakesPerWalletPerDraw_def
  by (meson order_trans)

definition sample_stake_block :: Block where
  "sample_stake_block = \<lparr>blk_msg = sample_block\<lparr>mb_Transactions := [sample_stake_tx]\<rparr>, blk_height = 1\<rparr>"

theorem wallet_limit_witness:
  "index_state sample_db \<and> walletStakes sample_db 36 (replicate 20 1) \<le> 5"
proof -
  have "connectBlockStakingIndex empty_db sample_stake_block = Inr sample_db"
    by (simp add: connectBlockStakingIndex_def sample_stake_block_def sample_db_def)
      (simp add: sample_stake_tx_def TxVersionPoolStake_def)
  then have "index_state sample_db" by (rule index_state.connect [OF index_state.init])
  then show ?thesis using wallet_limit [of sample_db 36 "replicate 20 1"] by simp
qed

text \<open>
  C18. Disconnecting a block undoes an accepted stake whose draw was in the future: the stakes and
  the balance of every draw are what they were, and only the stake count of the wallet in that
  draw stays incremented.
\<close>

theorem stake_disconnect_restores:
  assumes "index_state db" and "stake_data tx = Some (wh, amt, dh)" and "bh < i32 dh"
    and "dbGetWalletStakeCount db dh wh < MaxStakesPerWalletPerDraw" and "fresh_stake db dh (TxHash tx)" and "is_u32 h"
  shows "mset (dbFetchPoolStakeEntries (disconnectStakeTx tx (connectStakeTx bh tx db)) h) = mset (dbFetchPoolStakeEntries db h) \<and>
    dbGetPoolBalance (disconnectStakeTx tx (connectStakeTx bh tx db)) h = dbGetPoolBalance db h \<and>
    dbGetWalletStakeCount (disconnectStakeTx tx (connectStakeTx bh tx db)) h w =
      dbGetWalletStakeCount db h w + (if h = dh \<and> w = wh then 1 else 0)"
proof -
  have ok: "index_ok db" using index_state_ok [OF assms(1)] by simp
  have "stakeDrawHeight bh dh = dh" using assms(3) by (simp add: stakeDrawHeight_def)
  then show ?thesis
    using reorg_reads [OF ok assms(2) _ assms(4,5,5,6)] by (simp add: reorg_stake_def)
qed

theorem stake_disconnect_restores_witness:
  "dbGetPoolBalance (disconnectStakeTx sample_stake_tx (connectStakeTx 1 sample_stake_tx empty_db)) 36 = 0 \<and>
   dbGetWalletStakeCount (disconnectStakeTx sample_stake_tx (connectStakeTx 1 sample_stake_tx empty_db)) 36 (replicate 20 1) = 1"
  using stake_disconnect_restores [OF index_state.init sample_stake_data, of 1 36 "replicate 20 1"] sample_reads
  by (simp add: MaxStakesPerWalletPerDraw_def i32_id)

text \<open>
  C19. The stake counts are never taken back: once the block of a wallet's first stake has been
  connected and disconnected five times, connecting it again does not index the stake.
\<close>

theorem reorgs_refuse_stake:
  assumes "index_state db" and "stake_data tx = Some (wh, amt, dh)" and "bh < i32 dh"
    and "dbGetWalletStakeCount db dh wh = 0" and "fresh_stake db dh (TxHash tx)"
  shows "connectStakeTx bh tx (((\<lambda>db. disconnectStakeTx tx (connectStakeTx bh tx db)) ^^ 5) db) =
    ((\<lambda>db. disconnectStakeTx tx (connectStakeTx bh tx db)) ^^ 5) db"
proof -
  have r: "(\<lambda>db. disconnectStakeTx tx (connectStakeTx bh tx db)) = reorg_stake bh tx"
    by (rule ext) (simp add: reorg_stake_def)
  have same: "stakeDrawHeight bh dh = dh" using assms(3) by (simp add: stakeDrawHeight_def)
  have "dbGetWalletStakeCount ((reorg_stake bh tx ^^ 5) db) dh wh = 5"
    using reorgs_count [OF _ assms(5,2) same, of 5] index_state_ok [OF assms(1)] assms(4) by (simp add: MaxStakesPerWalletPerDraw_def)
  then show ?thesis
    unfolding r using assms(2) same by (simp add: connectStakeTx_cases MaxStakesPerWalletPerDraw_def)
qed

theorem reorgs_refuse_stake_witness:
  "connectStakeTx 1 sample_stake_tx (((\<lambda>db. disconnectStakeTx sample_stake_tx (connectStakeTx 1 sample_stake_tx db)) ^^ 5) empty_db) =
    ((\<lambda>db. disconnectStakeTx sample_stake_tx (connectStakeTx 1 sample_stake_tx db)) ^^ 5) empty_db"
  by (rule reorgs_refuse_stake [OF index_state.init sample_stake_data]) (simp_all add: sample_reads i32_id)

text \<open>
  C20. A stake whose draw had already passed is indexed at the next draw, but its disconnection
  takes the amount from the draw it declares: the entry and its amount stay in the next draw and
  the declared draw loses the amount.
\<close>

theorem moved_stake_not_undone:
  assumes "index_state db" and "stake_data tx = Some (wh, amt, dh)" and "stakeDrawHeight bh dh \<noteq> dh"
    and "dbGetWalletStakeCount db (stakeDrawHeight bh dh) wh < MaxStakesPerWalletPerDraw"
    and "fresh_stake db dh (TxHash tx)" and "fresh_stake db (stakeDrawHeight bh dh) (TxHash tx)"
  shows "stake_entry (TxHash tx) wh amt \<in> set (dbFetchPoolStakeEntries (disconnectStakeTx tx (connectStakeTx bh tx db)) (stakeDrawHeight bh dh)) \<and>
    dbGetPoolBalance (disconnectStakeTx tx (connectStakeTx bh tx db)) (stakeDrawHeight bh dh) =
      i64 (dbGetPoolBalance db (stakeDrawHeight bh dh) + amt) \<and>
    dbGetPoolBalance (disconnectStakeTx tx (connectStakeTx bh tx db)) dh = i64 (dbGetPoolBalance db dh - amt)"
proof -
  let ?dh = "stakeDrawHeight bh dh"
  have ok: "index_ok db" using index_state_ok [OF assms(1)] by simp
  have u: "is_u32 dh" using stake_data_ok [OF assms(2)] by simp
  then have u': "is_u32 ?dh" by simp
  note reads = reorg_reads [OF ok assms(2) refl assms(4,5,6), unfolded reorg_stake_def]
  have "stake_entry (TxHash tx) wh amt \<in># mset (dbFetchPoolStakeEntries (disconnectStakeTx tx (connectStakeTx bh tx db)) ?dh)"
    using reads(1) [OF u'] assms(3) by simp
  then show ?thesis using reads(2) [OF u'] reads(2) [OF u] assms(3) by simp
qed

theorem moved_stake_not_undone_witness:
  "dbGetPoolBalance (disconnectStakeTx sample_stake_tx (connectStakeTx 40 sample_stake_tx empty_db)) 72 = 100000000 \<and>
   dbGetPoolBalance (disconnectStakeTx sample_stake_tx (connectStakeTx 40 sample_stake_tx empty_db)) 36 = - 100000000"
proof -
  have h: "stakeDrawHeight 40 36 = 72" by (simp add: stakeDrawHeight_def DrawInterval_def sdiv_nonneg i32_id u32_id)
  have "fresh_stake empty_db x t" "dbGetWalletStakeCount empty_db x w = 0" "dbGetPoolBalance empty_db x = 0" for x t w
    by (simp_all add: fresh_stake_def empty_db_def dbGetWalletStakeCount_def dbGetPoolBalance_def bget_def)
  then show ?thesis
    using moved_stake_not_undone [OF index_state.init sample_stake_data, of 40]
    by (simp add: h MaxStakesPerWalletPerDraw_def i64_id)
qed

end
