(* ===== verification/Scripts.thy ===== *)
theory Scripts
  imports Prelude
begin

text \<open>
  The parts of the script package that block validation rests on: the script tokenizer of
  \<^verbatim>\<open>txscript/tokenizer.go\<close>, the recognizers of standard scripts of \<^verbatim>\<open>txscript/standard.go\<close>, opcode
  removal and signature-operation counting of \<^verbatim>\<open>txscript/script.go\<close>, the script builder and script
  numbers. Offsets are natural numbers: scripts are shorter than \<open>2 ^ 31\<close> bytes.
\<close>

section \<open>Opcodes\<close>

abbreviation OP_0 :: byte where "OP_0 \<equiv> 0x00"
abbreviation OP_DATA_1 :: byte where "OP_DATA_1 \<equiv> 0x01"
abbreviation OP_DATA_20 :: byte where "OP_DATA_20 \<equiv> 0x14"
abbreviation OP_DATA_32 :: byte where "OP_DATA_32 \<equiv> 0x20"
abbreviation OP_DATA_33 :: byte where "OP_DATA_33 \<equiv> 0x21"
abbreviation OP_DATA_65 :: byte where "OP_DATA_65 \<equiv> 0x41"
abbreviation OP_PUSHDATA1 :: byte where "OP_PUSHDATA1 \<equiv> 0x4c"
abbreviation OP_PUSHDATA2 :: byte where "OP_PUSHDATA2 \<equiv> 0x4d"
abbreviation OP_PUSHDATA4 :: byte where "OP_PUSHDATA4 \<equiv> 0x4e"
abbreviation OP_1NEGATE :: byte where "OP_1NEGATE \<equiv> 0x4f"
abbreviation OP_1 :: byte where "OP_1 \<equiv> 0x51"
abbreviation OP_16 :: byte where "OP_16 \<equiv> 0x60"
abbreviation OP_RETURN :: byte where "OP_RETURN \<equiv> 0x6a"
abbreviation OP_DUP :: byte where "OP_DUP \<equiv> 0x76"
abbreviation OP_EQUAL :: byte where "OP_EQUAL \<equiv> 0x87"
abbreviation OP_EQUALVERIFY :: byte where "OP_EQUALVERIFY \<equiv> 0x88"
abbreviation OP_HASH160 :: byte where "OP_HASH160 \<equiv> 0xa9"
abbreviation OP_CHECKSIG :: byte where "OP_CHECKSIG \<equiv> 0xac"
abbreviation OP_CHECKSIGVERIFY :: byte where "OP_CHECKSIGVERIFY \<equiv> 0xad"
abbreviation OP_CHECKMULTISIG :: byte where "OP_CHECKMULTISIG \<equiv> 0xae"
abbreviation OP_CHECKMULTISIGVERIFY :: byte where "OP_CHECKMULTISIGVERIFY \<equiv> 0xaf"
abbreviation OP_INVALIDOPCODE :: byte where "OP_INVALIDOPCODE \<equiv> 0xff"

definition MaxScriptSize :: nat where "MaxScriptSize = 10000"
definition MaxScriptElementSize :: nat where "MaxScriptElementSize = 520"
definition MaxPubKeysPerMultiSig :: int where "MaxPubKeysPerMultiSig = 20"
definition MaxDataCarrierSize :: nat where "MaxDataCarrierSize = 80"

text \<open>The lengths in the opcode table: negative for pushes with an explicit length.\<close>

definition opcode_length :: "byte \<Rightarrow> int" where
  "opcode_length op =
     (if 1 \<le> uint op \<and> uint op \<le> 75 then uint op + 1
      else if op = OP_PUSHDATA1 then -1
      else if op = OP_PUSHDATA2 then -2
      else if op = OP_PUSHDATA4 then -4
      else 1)"

section \<open>The tokenizer\<close>

datatype (plugins only: size) ScriptError =
    ErrInternal | ErrInvalidFlags | ErrInvalidIndex | ErrUnsupportedAddress
  | ErrNotMultisigScript | ErrTooManyRequiredSigs | ErrTooMuchNullData
  | ErrUnsupportedScriptVersion | ErrEarlyReturn | ErrEmptyStack | ErrEvalFalse
  | ErrScriptUnfinished | ErrInvalidProgramCounter | ErrScriptTooBig | ErrElementTooBig
  | ErrTooManyOperations | ErrStackOverflow | ErrInvalidPubKeyCount | ErrInvalidSignatureCount
  | ErrNumberTooBig | ErrVerify | ErrEqualVerify | ErrNumEqualVerify | ErrCheckSigVerify
  | ErrCheckMultiSigVerify | ErrDisabledOpcode | ErrReservedOpcode | ErrMalformedPush
  | ErrInvalidStackOperation | ErrUnbalancedConditional | ErrMinimalData | ErrInvalidSigHashType
  | ErrSigTooShort | ErrSigTooLong | ErrSigInvalidSeqID | ErrSigInvalidDataLen
  | ErrSigMissingSTypeID | ErrSigMissingSLen | ErrSigInvalidSLen | ErrSigInvalidRIntID
  | ErrSigZeroRLen | ErrSigNegativeR | ErrSigTooMuchRPadding | ErrSigInvalidSIntID
  | ErrSigZeroSLen | ErrSigNegativeS | ErrSigTooMuchSPadding | ErrSigHighS | ErrNotPushOnly
  | ErrSigNullDummy | ErrPubKeyType | ErrCleanStack | ErrNullFail | ErrWitnessMalleated
  | ErrWitnessMalleatedP2SH | ErrDiscourageUpgradableNOPs | ErrNegativeLockTime
  | ErrUnsatisfiedLockTime | ErrMinimalIf | ErrDiscourageUpgradableWitnessProgram
  | ErrWitnessProgramEmpty | ErrWitnessProgramMismatch | ErrWitnessProgramWrongLength
  | ErrWitnessUnexpected | ErrWitnessPubKeyType | ErrDiscourageOpSuccess
  | ErrDiscourageUpgradeableTaprootVersion | ErrTapscriptCheckMultisig
  | ErrDiscourageUpgradeablePubKeyType | ErrTaprootSigInvalid | ErrTaprootMerkleProofInvalid
  | ErrTaprootOutputKeyParityMismatch | ErrControlBlockTooSmall | ErrControlBlockTooLarge
  | ErrControlBlockInvalidLength | ErrWitnessHasNoAnnex | ErrInvalidTaprootSigLen
  | ErrTaprootPubkeyIsEmpty | ErrTaprootMaxSigOps | ErrNonConstScriptCode | ErrCodeSeparator
  | ErrScriptNotCanonical

text \<open>
  \<^verbatim>\<open>nil\<close> data is None. The opcode of a tokenizer that has parsed nothing is never read; it is 0 here.
\<close>

record ScriptTokenizer =
  tk_script :: bytes
  tk_offset :: nat
  tk_opcodePos :: int
  tk_op :: byte
  tk_data :: "bytes option"
  tk_err :: "ScriptError option"

definition MakeScriptTokenizer :: "int \<Rightarrow> bytes \<Rightarrow> ScriptTokenizer" where
  "MakeScriptTokenizer scriptVersion script =
     \<lparr>tk_script = script, tk_offset = 0, tk_opcodePos = -1, tk_op = 0, tk_data = None,
      tk_err = (if scriptVersion \<noteq> 0 then Some ErrUnsupportedScriptVersion else None)\<rparr>"

definition Done :: "ScriptTokenizer \<Rightarrow> bool" where
  "Done t \<longleftrightarrow> tk_err t \<noteq> None \<or> tk_offset t \<ge> length (tk_script t)"

definition Next :: "ScriptTokenizer \<Rightarrow> bool \<times> ScriptTokenizer" where
  "Next t =
     (if Done t then (False, t)
      else
        let t = t\<lparr>tk_opcodePos := tk_opcodePos t + 1\<rparr>;
            op = tk_script t ! tk_offset t;
            len = opcode_length op
        in
        if len = 1 then (True, t\<lparr>tk_offset := tk_offset t + 1, tk_op := op, tk_data := None\<rparr>)
        else if len > 1 then
          let script = drop (tk_offset t) (tk_script t) in
          if int (length script) < len then (False, t\<lparr>tk_err := Some ErrMalformedPush\<rparr>)
          else (True, t\<lparr>tk_offset := tk_offset t + nat len, tk_op := op, tk_data := Some (slice 1 (nat len) script)\<rparr>)
        else
          let script = drop (tk_offset t + 1) (tk_script t); n = nat (- len) in
          if length script < n then (False, t\<lparr>tk_err := Some ErrMalformedPush\<rparr>)
          else
            let dataLen = (if len = -1 then uint (script ! 0)
                           else if len = -2 then le_val (take 2 script)
                           else i32 (le_val (take 4 script)));
                script = drop n script
            in
            if dataLen > int (length script) \<or> dataLen < 0 then (False, t\<lparr>tk_err := Some ErrMalformedPush\<rparr>)
            else (True, t\<lparr>tk_offset := tk_offset t + 1 + n + nat dataLen, tk_op := op, tk_data := Some (take (nat dataLen) script)\<rparr>))"

text \<open>What one step parses, as a function of the bytes that remain.\<close>

fun parse_op :: "bytes \<Rightarrow> (byte \<times> bytes option \<times> bytes) option" where
  "parse_op [] = None"
| "parse_op (op # rest) =
     (let len = opcode_length op; k = nat (len - 1); n = nat (- len) in
      if len = 1 then Some (op, None, rest)
      else if len > 1 then (if length rest < k then None else Some (op, Some (take k rest), drop k rest))
      else if length rest < n then None
      else
        let d = le_val (take n rest); rest = drop n rest in
        if d > int (length rest) \<or> d \<ge> 2 ^ 31 then None else Some (op, Some (take (nat d) rest), drop (nat d) rest))"

lemma opcode_length_cases:
  obtains "opcode_length op = 1" | k where "opcode_length op = 1 + int k" "0 < k"
  | "opcode_length op = -1" | "opcode_length op = -2" | "opcode_length op = -4"
proof -
  have "opcode_length op = 1 \<or> (\<exists>k > 0. opcode_length op = 1 + int k) \<or> opcode_length op \<in> {-1, -2, -4}"
  proof (cases "1 \<le> uint op \<and> uint op \<le> 75")
    case True
    then have "opcode_length op = 1 + int (nat (uint op))" "0 < nat (uint op)" by (simp_all add: opcode_length_def del: unat_eq_nat_uint nat_uint_eq)
    then show ?thesis by blast
  qed (auto simp: opcode_length_def)
  then show thesis using that by blast
qed

lemma le_val_small: "length bs \<le> 2 \<Longrightarrow> le_val bs < 65536"
  using be_val_bounds [of "rev bs"] power_increasing [of "length bs" 2 "256::int"] by (simp add: le_val_def)

lemma le_val_1: "rest \<noteq> [] \<Longrightarrow> le_val (take 1 rest) = uint (rest ! 0)"
  by (cases rest) (simp_all add: le_val_def be_val_def)

lemma le_val_4: "length bs = 4 \<Longrightarrow> is_u32 (le_val bs)"
  using le_val_less [of bs 4] by simp

lemma le_val_not_neg [simp]: "\<not> le_val bs < 0"
  by (simp add: not_less)

lemma consumed:
  "0 \<le> d \<Longrightarrow> \<not> int (length rest) - int n < d \<Longrightarrow> Suc (p + length rest) - (length rest - (n + nat d)) = Suc (p + n + nat d)"
  by linarith

lemma Next_parse:
  assumes "\<not> Done t"
  shows "Next t = (case parse_op (drop (tk_offset t) (tk_script t)) of
      None \<Rightarrow> (False, t\<lparr>tk_opcodePos := tk_opcodePos t + 1, tk_err := Some ErrMalformedPush\<rparr>)
    | Some (op, d, rest) \<Rightarrow> (True, t\<lparr>tk_opcodePos := tk_opcodePos t + 1, tk_offset := length (tk_script t) - length rest,
        tk_op := op, tk_data := d\<rparr>))"
proof -
  define pre where "pre = take (tk_offset t) (tk_script t)"
  obtain op rest where ds: "drop (tk_offset t) (tk_script t) = op # rest"
    using assms by (cases "drop (tk_offset t) (tk_script t)") (auto simp: Done_def)
  have s: "tk_script t = pre @ op # rest" using ds append_take_drop_id [of "tk_offset t" "tk_script t"] by (simp add: pre_def)
  have o: "tk_offset t = length pre" using assms by (simp add: pre_def Done_def)
  show ?thesis
  proof (cases op rule: opcode_length_cases)
    case 1
    then show ?thesis using assms by (simp add: Next_def s o)
  next
    case (2 k)
    have "nat (1 + int k) = Suc k" by simp
    then show ?thesis using assms 2 by (simp add: Next_def s o Let_def slice_def)
  next
    case 3
    have "rest \<noteq> [] \<Longrightarrow> \<not> int (length rest - 1) < uint (rest ! 0) \<Longrightarrow>
        Suc (Suc (length pre + unat (rest ! 0))) = Suc (length pre + length rest) - (length rest - Suc (unat (rest ! 0)))"
    proof -
      assume "rest \<noteq> []" and "\<not> int (length rest - 1) < uint (rest ! 0)"
      then have "int (unat (rest ! 0)) \<le> int (length rest - 1)" by simp
      then have "unat (rest ! 0) \<le> length rest - 1" by (simp only: of_nat_le_iff)
      then show ?thesis using \<open>rest \<noteq> []\<close> by (cases rest) simp_all
    qed
    then show ?thesis
      using 3 assms le_val_1 [of rest] le_val_small [of "take 1 rest"] uint_lt2p [of "rest ! 0"]
      by (cases "rest = []") (simp_all add: Next_def s o Let_def)
  next
    case 4
    then show ?thesis
      using assms le_val_small [of "take 2 rest"] consumed [of "le_val (take 2 rest)" rest 2 "length pre"]
      by (simp add: Next_def s o Let_def)
  next
    case 5
    then show ?thesis
      using assms le_val_4 [of "take 4 rest"] i32_of_u32 [of "le_val (take 4 rest)"] consumed [of "le_val (take 4 rest)" rest 4 "length pre"]
      by (cases "length rest < 4") (simp_all add: Next_def s o Let_def)
  qed
qed

lemma parse_op_shorter: "parse_op s = Some (op, d, rest) \<Longrightarrow> length rest < length s"
  by (cases s) (auto simp: Let_def split: if_splits)

lemma Next_progress:
  assumes "Next t = (True, t')"
  shows "tk_script t' = tk_script t \<and> tk_offset t < tk_offset t' \<and> tk_offset t' \<le> length (tk_script t) \<and> tk_err t' = tk_err t"
proof -
  have nd: "\<not> Done t" using assms by (auto simp: Next_def)
  then obtain op d rest where "parse_op (drop (tk_offset t) (tk_script t)) = Some (op, d, rest)"
    and "t' = t\<lparr>tk_opcodePos := tk_opcodePos t + 1, tk_offset := length (tk_script t) - length rest, tk_op := op, tk_data := d\<rparr>"
    using assms Next_parse [OF nd] by (auto split: option.splits)
  then show ?thesis using parse_op_shorter by fastforce
qed

text \<open>
  A loop \<^verbatim>\<open>for tokenizer.Next() { ... }\<close> sees the tokenizer after each successful call; the final
  tokenizer carries the parse error, if any.
\<close>

function token_states :: "ScriptTokenizer \<Rightarrow> ScriptTokenizer list \<times> ScriptTokenizer" where
  "token_states t =
     (if fst (Next t) then (let (ts, f) = token_states (snd (Next t)) in (snd (Next t) # ts, f))
      else ([], snd (Next t)))"
  by pat_completeness auto
termination
proof (relation "measure (\<lambda>t. length (tk_script t) - tk_offset t)")
  fix t
  assume "fst (Next t)"
  then show "(snd (Next t), t) \<in> measure (\<lambda>t. length (tk_script t) - tk_offset t)"
    using Next_progress [of t "snd (Next t)"] by (cases "Next t") auto
qed simp

declare token_states.simps [simp del]

definition checkScriptParses :: "int \<Rightarrow> bytes \<Rightarrow> ScriptError option" where
  "checkScriptParses scriptVersion script = tk_err (snd (token_states (MakeScriptTokenizer scriptVersion script)))"

definition IsUnspendable :: "bytes \<Rightarrow> bool" where
  "IsUnspendable pkScript \<longleftrightarrow>
     (if length pkScript > 0 \<and> pkScript ! 0 = OP_RETURN then True
      else if length pkScript > MaxScriptSize then True
      else checkScriptParses 0 pkScript \<noteq> None)"

definition IsSmallInt :: "byte \<Rightarrow> bool" where
  "IsSmallInt op \<longleftrightarrow> op = OP_0 \<or> (op \<ge> OP_1 \<and> op \<le> OP_16)"

definition AsSmallInt :: "byte \<Rightarrow> int" where
  "AsSmallInt op = (if op = OP_0 then 0 else uint (op - (OP_1 - 1)))"

definition IsPushOnlyScript :: "bytes \<Rightarrow> bool" where
  "IsPushOnlyScript script \<longleftrightarrow>
     (let (ts, f) = token_states (MakeScriptTokenizer 0 script) in
      if (\<exists>t \<in> set ts. tk_op t > OP_16) then False else tk_err f = None)"

definition isCanonicalPush :: "byte \<Rightarrow> bytes \<Rightarrow> bool" where
  "isCanonicalPush opcode data \<longleftrightarrow>
     (let dataLen = length data in
      if opcode > OP_16 then True
      else if opcode < OP_PUSHDATA1 \<and> opcode > OP_0 \<and> dataLen = 1 \<and> data ! 0 \<le> 16 then False
      else if opcode = OP_PUSHDATA1 \<and> dataLen < 0x4c then False
      else if opcode = OP_PUSHDATA2 \<and> dataLen \<le> 0xff then False
      else if opcode = OP_PUSHDATA4 \<and> dataLen \<le> 0xffff then False
      else True)"

abbreviation opt_data :: "bytes option \<Rightarrow> bytes" where
  "opt_data d \<equiv> (case d of None \<Rightarrow> [] | Some x \<Rightarrow> x)"

definition finalOpcodeData :: "int \<Rightarrow> bytes \<Rightarrow> bytes option" where
  "finalOpcodeData scriptVersion script =
     (if length script = 0 then None
      else
        let (ts, f) = token_states (MakeScriptTokenizer scriptVersion script) in
        if tk_err f \<noteq> None then None
        else if ts = [] then None else tk_data (last ts))"

section \<open>Standard scripts\<close>

definition extractCompressedPubKey :: "bytes \<Rightarrow> bytes option" where
  "extractCompressedPubKey script =
     (if length script = 35 \<and> script ! 34 = OP_CHECKSIG \<and> script ! 0 = OP_DATA_33 \<and>
         (script ! 1 = 0x02 \<or> script ! 1 = 0x03)
      then Some (slice 1 34 script) else None)"

definition extractUncompressedPubKey :: "bytes \<Rightarrow> bytes option" where
  "extractUncompressedPubKey script =
     (if length script = 67 \<and> script ! 66 = OP_CHECKSIG \<and> script ! 0 = OP_DATA_65 \<and>
         (script ! 1 = 0x04 \<or> script ! 1 = 0x06 \<or> script ! 1 = 0x07)
      then Some (slice 1 66 script) else None)"

definition extractPubKey :: "bytes \<Rightarrow> bytes option" where
  "extractPubKey script =
     (case extractCompressedPubKey script of Some pubKey \<Rightarrow> Some pubKey | None \<Rightarrow> extractUncompressedPubKey script)"

definition extractPubKeyHash :: "bytes \<Rightarrow> bytes option" where
  "extractPubKeyHash script =
     (if length script = 25 \<and> script ! 0 = OP_DUP \<and> script ! 1 = OP_HASH160 \<and> script ! 2 = OP_DATA_20 \<and>
         script ! 23 = OP_EQUALVERIFY \<and> script ! 24 = OP_CHECKSIG
      then Some (slice 3 23 script) else None)"

definition extractScriptHash :: "bytes \<Rightarrow> bytes option" where
  "extractScriptHash script =
     (if length script = 23 \<and> script ! 0 = OP_HASH160 \<and> script ! 1 = OP_DATA_20 \<and> script ! 22 = OP_EQUAL
      then Some (slice 2 22 script) else None)"

definition extractWitnessPubKeyHash :: "bytes \<Rightarrow> bytes option" where
  "extractWitnessPubKeyHash script =
     (if length script = 22 \<and> script ! 0 = OP_0 \<and> script ! 1 = OP_DATA_20 then Some (slice 2 22 script) else None)"

definition extractWitnessV0ScriptHash :: "bytes \<Rightarrow> bytes option" where
  "extractWitnessV0ScriptHash script =
     (if length script = 34 \<and> script ! 0 = OP_0 \<and> script ! 1 = OP_DATA_32 then Some (slice 2 34 script) else None)"

definition extractWitnessV1KeyBytes :: "bytes \<Rightarrow> bytes option" where
  "extractWitnessV1KeyBytes script =
     (if length script = 34 \<and> script ! 0 = OP_1 \<and> script ! 1 = OP_DATA_32 then Some (slice 2 34 script) else None)"

definition extractPayToAnchor :: "bytes \<Rightarrow> bytes option" where
  "extractPayToAnchor script = (if script = [OP_1, 0x02, 0x4e, 0x73] then Some (slice 2 4 script) else None)"

definition isScriptHashScript :: "bytes \<Rightarrow> bool" where
  "isScriptHashScript script \<longleftrightarrow> extractScriptHash script \<noteq> None"

definition extractWitnessProgramInfo :: "bytes \<Rightarrow> int \<times> bytes option \<times> bool" where
  "extractWitnessProgramInfo script =
     (if length script < 4 \<or> length script > 42 then (0, None, False)
      else
        let (ok1, t1) = Next (MakeScriptTokenizer 0 script) in
        if \<not> ok1 \<or> \<not> IsSmallInt (tk_op t1) then (0, None, False)
        else
          let version = AsSmallInt (tk_op t1); (ok2, t2) = Next t1 in
          if \<not> ok2 \<or> \<not> isCanonicalPush (tk_op t2) (opt_data (tk_data t2)) then (0, None, False)
          else (version, tk_data t2, Done t2 \<and> tk_err t2 = None))"

definition isWitnessProgramScript :: "bytes \<Rightarrow> bool" where
  "isWitnessProgramScript script \<longleftrightarrow> (case extractWitnessProgramInfo script of (_, _, valid) \<Rightarrow> valid)"

definition ExtractWitnessProgramInfo :: "bytes \<Rightarrow> (int \<times> bytes) option" where
  "ExtractWitnessProgramInfo script =
     (case extractWitnessProgramInfo script of (version, program, valid) \<Rightarrow>
        if \<not> valid then None else Some (version, opt_data program))"

definition isStrictPubKeyEncoding :: "bytes \<Rightarrow> bool" where
  "isStrictPubKeyEncoding pubKey \<longleftrightarrow>
     length pubKey = 33 \<and> (pubKey ! 0 = 0x02 \<or> pubKey ! 0 = 0x03) \<or>
     length pubKey = 65 \<and> (pubKey ! 0 = 0x04 \<or> pubKey ! 0 = 0x06 \<or> pubKey ! 0 = 0x07)"

record multiSigDetails =
  ms_requiredSigs :: int
  ms_numPubKeys :: int
  ms_pubKeys :: "bytes list"
  ms_valid :: bool

definition no_multisig :: multiSigDetails where
  "no_multisig = \<lparr>ms_requiredSigs = 0, ms_numPubKeys = 0, ms_pubKeys = [], ms_valid = False\<rparr>"

text \<open>The loop over the keys: it stops at a small integer or where the tokenizer stops.\<close>

function multisig_loop :: "bool \<Rightarrow> ScriptTokenizer \<Rightarrow> int \<Rightarrow> bytes list \<Rightarrow> ScriptTokenizer \<times> int \<times> bytes list" where
  "multisig_loop extractPubKeys t numPubKeys pubKeys =
     (if \<not> fst (Next t) then (snd (Next t), numPubKeys, pubKeys)
      else
        let t = snd (Next t) in
        if IsSmallInt (tk_op t) then (t, numPubKeys, pubKeys)
        else
          let data = opt_data (tk_data t) in
          multisig_loop extractPubKeys t (numPubKeys + 1)
            (if isStrictPubKeyEncoding data \<and> extractPubKeys then pubKeys @ [data] else pubKeys))"
  by pat_completeness auto
termination
proof (relation "measure (\<lambda>(_, t, _, _). length (tk_script t) - tk_offset t)")
  fix e :: bool and t t' :: ScriptTokenizer and n :: int and ks :: "bytes list" and d
  assume "\<not> \<not> fst (Next t)" and "t' = snd (Next t)"
  then show "((e, t', n + 1, if isStrictPubKeyEncoding d \<and> e then ks @ [d] else ks), e, t, n, ks)
      \<in> measure (\<lambda>(_, t, _, _). length (tk_script t) - tk_offset t)"
    using Next_progress [of t t'] by (cases "Next t") auto
qed simp

declare multisig_loop.simps [simp del]

definition extractMultisigScriptDetails :: "int \<Rightarrow> bytes \<Rightarrow> bool \<Rightarrow> multiSigDetails" where
  "extractMultisigScriptDetails scriptVersion script extractPubKeys =
     (if scriptVersion \<noteq> 0 then no_multisig
      else if length script < 3 \<or> script ! (length script - 1) \<noteq> OP_CHECKMULTISIG then no_multisig
      else
        let (ok, t) = Next (MakeScriptTokenizer scriptVersion script) in
        if \<not> ok \<or> \<not> IsSmallInt (tk_op t) then no_multisig
        else
          let requiredSigs = AsSmallInt (tk_op t); (t, numPubKeys, pubKeys) = multisig_loop extractPubKeys t 0 [] in
          if Done t then no_multisig
          else if \<not> IsSmallInt (tk_op t) \<or> AsSmallInt (tk_op t) \<noteq> numPubKeys then no_multisig
          else if length (tk_script t) - tk_offset t \<noteq> 1 then no_multisig
          else \<lparr>ms_requiredSigs = requiredSigs, ms_numPubKeys = numPubKeys, ms_pubKeys = pubKeys, ms_valid = True\<rparr>)"

definition isMultisigScript :: "int \<Rightarrow> bytes \<Rightarrow> bool" where
  "isMultisigScript scriptVersion script \<longleftrightarrow> ms_valid (extractMultisigScriptDetails scriptVersion script False)"

definition IsMultisigSigScript :: "bytes \<Rightarrow> bool" where
  "IsMultisigSigScript script \<longleftrightarrow>
     (if length script < 4 \<or> script ! (length script - 1) \<noteq> OP_CHECKMULTISIG then False
      else case finalOpcodeData 0 script of None \<Rightarrow> False | Some s \<Rightarrow> isMultisigScript 0 s)"

definition isNullDataScript :: "int \<Rightarrow> bytes \<Rightarrow> bool" where
  "isNullDataScript scriptVersion script \<longleftrightarrow>
     (if scriptVersion \<noteq> 0 then False
      else if length script < 1 \<or> script ! 0 \<noteq> OP_RETURN then False
      else if length script = 1 then True
      else
        let (ok, t) = Next (MakeScriptTokenizer scriptVersion (drop 1 script)) in
        ok \<and> Done t \<and> (IsSmallInt (tk_op t) \<or> tk_op t \<le> OP_PUSHDATA4) \<and> length (opt_data (tk_data t)) \<le> MaxDataCarrierSize)"

datatype ScriptClass =
    NonStandardTy | PubKeyTy | PubKeyHashTy | WitnessV0PubKeyHashTy | ScriptHashTy | WitnessV0ScriptHashTy
  | MultiSigTy | NullDataTy | WitnessV1TaprootTy | PayToAnchorTy | WitnessUnknownTy

definition typeOfScript :: "int \<Rightarrow> bytes \<Rightarrow> ScriptClass" where
  "typeOfScript scriptVersion script =
     (if scriptVersion = 0 then
        (if extractPubKey script \<noteq> None then PubKeyTy
         else if extractPubKeyHash script \<noteq> None then PubKeyHashTy
         else if isScriptHashScript script then ScriptHashTy
         else if extractWitnessPubKeyHash script \<noteq> None then WitnessV0PubKeyHashTy
         else if extractWitnessV0ScriptHash script \<noteq> None then WitnessV0ScriptHashTy
         else if isMultisigScript scriptVersion script then MultiSigTy
         else if isNullDataScript scriptVersion script then NullDataTy
         else NonStandardTy)
      else if scriptVersion = 1 then
        (if extractPayToAnchor script \<noteq> None then PayToAnchorTy
         else if extractWitnessV1KeyBytes script \<noteq> None then WitnessV1TaprootTy
         else NonStandardTy)
      else NonStandardTy)"

definition GetScriptClass :: "bytes \<Rightarrow> ScriptClass" where
  "GetScriptClass script =
     (let classSegWit = typeOfScript 0 script in
      if classSegWit \<noteq> NonStandardTy then classSegWit else typeOfScript 1 script)"

section \<open>Removing opcodes\<close>

text \<open>
  Both loops keep the offset before the current opcode and, once something was removed, the bytes
  kept so far.
\<close>

definition removeOpcodeRaw :: "bytes \<Rightarrow> byte \<Rightarrow> bytes" where
  "removeOpcodeRaw script opcode =
     (if length script = 0 then script
      else
        let (result, _) = foldl (\<lambda>(result, prevOffset) t.
              (if tk_op t = opcode then
                 (case result of None \<Rightarrow> Some (take prevOffset script) | Some r \<Rightarrow> Some r)
               else (case result of None \<Rightarrow> None | Some r \<Rightarrow> Some (r @ slice prevOffset (tk_offset t) script)),
               tk_offset t)) (None, 0) (fst (token_states (MakeScriptTokenizer 0 script)))
        in case result of None \<Rightarrow> script | Some r \<Rightarrow> r)"

definition removeOpcodeCanonical ::
  "ScriptTokenizer \<Rightarrow> bytes \<Rightarrow> bytes \<Rightarrow> nat \<Rightarrow> bytes option \<Rightarrow> bytes option \<times> nat \<times> bool" where
  "removeOpcodeCanonical t script dataToRemove prevOffset result =
     (let op = tk_op t; data = opt_data (tk_data t) in
      if isCanonicalPush op data \<and> data = dataToRemove then
        (case result of None \<Rightarrow> Some (take prevOffset script) | Some r \<Rightarrow> Some r, tk_offset t, True)
      else
        (case result of None \<Rightarrow> None | Some r \<Rightarrow> Some (r @ slice prevOffset (tk_offset t) script), tk_offset t, False))"

definition removeOpcodeByData :: "bytes \<Rightarrow> bytes \<Rightarrow> bytes \<times> bool" where
  "removeOpcodeByData script dataToRemove =
     (if length script = 0 \<or> length dataToRemove = 0 then (script, False)
      else
        let (result, _, match) = foldl (\<lambda>(result, prevOffset, match) t.
              let (result, prevOffset, found) = removeOpcodeCanonical t script dataToRemove prevOffset result
              in (result, prevOffset, match \<or> found))
            (None, 0, False) (fst (token_states (MakeScriptTokenizer 0 script)))
        in (case result of None \<Rightarrow> script | Some r \<Rightarrow> r, match))"

section \<open>Signature operations\<close>

definition countSigOpsV0 :: "bytes \<Rightarrow> bool \<Rightarrow> int" where
  "countSigOpsV0 script precise =
     fst (foldl (\<lambda>(numSigOps, prevOp) t.
            (if tk_op t = OP_CHECKSIG \<or> tk_op t = OP_CHECKSIGVERIFY then numSigOps + 1
             else if tk_op t = OP_CHECKMULTISIG \<or> tk_op t = OP_CHECKMULTISIGVERIFY then
               (if precise \<and> prevOp \<ge> OP_1 \<and> prevOp \<le> OP_16 then numSigOps + AsSmallInt prevOp
                else numSigOps + MaxPubKeysPerMultiSig)
             else numSigOps, tk_op t))
          (0, OP_INVALIDOPCODE) (fst (token_states (MakeScriptTokenizer 0 script))))"

definition GetSigOpCount :: "bytes \<Rightarrow> int" where
  "GetSigOpCount script = countSigOpsV0 script False"

definition GetPreciseSigOpCount :: "bytes \<Rightarrow> bytes \<Rightarrow> int" where
  "GetPreciseSigOpCount scriptSig scriptPubKey =
     (if \<not> isScriptHashScript scriptPubKey then countSigOpsV0 scriptPubKey True
      else if length scriptSig = 0 \<or> \<not> IsPushOnlyScript scriptSig then 0
      else
        let redeemScript = opt_data (finalOpcodeData 0 scriptSig) in
        if length redeemScript = 0 then 0 else countSigOpsV0 redeemScript True)"

definition getWitnessSigOps :: "bytes \<Rightarrow> bytes list \<Rightarrow> int" where
  "getWitnessSigOps pkScript witness =
     (case ExtractWitnessProgramInfo pkScript of
        None \<Rightarrow> 0
      | Some (witnessVersion, witnessProgram) \<Rightarrow>
          if witnessVersion = 0 then
            (if length witnessProgram = 20 then 1
             else if length witnessProgram = 32 \<and> length witness > 0 then countSigOpsV0 (witness ! (length witness - 1)) True
             else 0)
          else 0)"

definition GetWitnessSigOpCount :: "bytes \<Rightarrow> bytes \<Rightarrow> bytes list \<Rightarrow> int" where
  "GetWitnessSigOpCount sigScript pkScript witness =
     (if isWitnessProgramScript pkScript then getWitnessSigOps pkScript witness
      else if isScriptHashScript pkScript \<and> IsPushOnlyScript sigScript \<and> length sigScript > 0 then
        (let redeem = opt_data (finalOpcodeData 0 sigScript) in
         if length redeem > 0 \<and> isWitnessProgramScript redeem then getWitnessSigOps redeem witness else 0)
      else 0)"

section \<open>Script pairs\<close>

definition expectedInputs :: "bytes \<Rightarrow> ScriptClass \<Rightarrow> int" where
  "expectedInputs script cls =
     (case cls of
        PubKeyTy \<Rightarrow> 1 | PubKeyHashTy \<Rightarrow> 2 | WitnessV0PubKeyHashTy \<Rightarrow> 2 | ScriptHashTy \<Rightarrow> 1
      | WitnessV0ScriptHashTy \<Rightarrow> 1 | WitnessV1TaprootTy \<Rightarrow> 1 | PayToAnchorTy \<Rightarrow> 0
      | MultiSigTy \<Rightarrow> AsSmallInt (script ! 0) + 1
      | _ \<Rightarrow> -1)"

record ScriptInfo =
  si_PkScriptClass :: ScriptClass
  si_NumInputs :: int
  si_ExpectedInputs :: int
  si_SigOps :: int

definition calcP2SHScriptInfo ::
  "int \<Rightarrow> bytes \<Rightarrow> bytes \<Rightarrow> bytes list \<Rightarrow> int \<Rightarrow> int \<Rightarrow> bool \<Rightarrow> int \<times> int \<times> int" where
  "calcP2SHScriptInfo scriptVersion sigScript pkScript witness numInputs expectedInputCount segwit =
     (let redeemScript = opt_data (finalOpcodeData scriptVersion sigScript);
          redeemClass = typeOfScript scriptVersion redeemScript;
          rsInputs = expectedInputs redeemScript redeemClass;
          expectedInputCount = (if rsInputs = -1 then -1 else expectedInputCount + rsInputs)
      in
      if segwit \<and> isWitnessProgramScript redeemScript then
        let expectedInputCount =
              (if redeemClass = WitnessV0ScriptHashTy \<and> length witness > 0 then
                 let witnessScript = witness ! (length witness - 1);
                     wsInputs = expectedInputs witnessScript (typeOfScript scriptVersion witnessScript)
                 in if wsInputs = -1 then -1
                    else if expectedInputCount \<noteq> -1 then expectedInputCount + wsInputs
                    else expectedInputCount
               else expectedInputCount)
        in (expectedInputCount, GetWitnessSigOpCount sigScript pkScript witness, int (length witness) + numInputs)
      else (expectedInputCount, countSigOpsV0 redeemScript True, numInputs))"

text \<open>
  The script errors are the left values of the inner sum. The last witness item of a pay-to-witness
  script hash is read without a check that there is one.
\<close>

definition CalcScriptInfo ::
  "bytes \<Rightarrow> bytes \<Rightarrow> bytes list \<Rightarrow> bool \<Rightarrow> bool \<Rightarrow> (ScriptError + ScriptInfo) result" where
  "CalcScriptInfo sigScript pkScript witness bip16 segwit =
     (let (ts, f) = token_states (MakeScriptTokenizer 0 sigScript); numInputs = int (length ts) in
      case tk_err f of Some e \<Rightarrow> Inr (Inl e) | None \<Rightarrow>
      case checkScriptParses 0 pkScript of Some e \<Rightarrow> Inr (Inl e) | None \<Rightarrow>
      if \<not> IsPushOnlyScript sigScript then Inr (Inl ErrNotPushOnly)
      else
        let cls = typeOfScript 0 pkScript; expected = expectedInputs pkScript cls in
        if cls = ScriptHashTy \<and> bip16 then
          (case calcP2SHScriptInfo 0 sigScript pkScript witness numInputs expected segwit of (e, ops, n) \<Rightarrow>
             Inr (Inr \<lparr>si_PkScriptClass = cls, si_NumInputs = n, si_ExpectedInputs = e, si_SigOps = ops\<rparr>))
        else if cls = WitnessV0PubKeyHashTy \<and> segwit then
          Inr (Inr \<lparr>si_PkScriptClass = cls, si_NumInputs = int (length witness), si_ExpectedInputs = expected,
                    si_SigOps = GetWitnessSigOpCount sigScript pkScript witness\<rparr>)
        else if cls = WitnessV0ScriptHashTy \<and> segwit then
          (if length witness = 0 then Inl Panic
           else
             let witnessScript = witness ! (length witness - 1);
                 shInputs = expectedInputs witnessScript (typeOfScript 0 witnessScript)
             in Inr (Inr \<lparr>si_PkScriptClass = cls, si_NumInputs = int (length witness),
                          si_ExpectedInputs = (if shInputs = -1 then -1 else expected + shInputs),
                          si_SigOps = GetWitnessSigOpCount sigScript pkScript witness\<rparr>))
        else
          Inr (Inr \<lparr>si_PkScriptClass = cls, si_NumInputs = numInputs, si_ExpectedInputs = expected,
                    si_SigOps = countSigOpsV0 pkScript True\<rparr>))"

lemma CalcScriptInfo_panics:
  assumes "length w = 32"
  shows "CalcScriptInfo [] ([OP_0, OP_DATA_32] @ w) [] True True = Inl Panic"
proof -
  have e: "token_states (MakeScriptTokenizer 0 []) = ([], MakeScriptTokenizer 0 [])"
    by (subst token_states.simps) (simp add: Next_def Done_def MakeScriptTokenizer_def)
  let ?s = "[OP_0, OP_DATA_32] @ w"
  define t1 where "t1 = \<lparr>tk_script = ?s, tk_offset = 1, tk_opcodePos = 0, tk_op = OP_0, tk_data = None, tk_err = None\<rparr>"
  define t2 where "t2 = t1\<lparr>tk_offset := 34, tk_opcodePos := 1, tk_op := OP_DATA_32, tk_data := Some w\<rparr>"
  have 1: "Next (MakeScriptTokenizer 0 ?s) = (True, t1)"
    by (subst Next_parse) (simp_all add: MakeScriptTokenizer_def Done_def opcode_length_def t1_def)
  have 2: "Next t1 = (True, t2)"
    using assms by (subst Next_parse) (simp_all add: Done_def opcode_length_def t1_def t2_def)
  have 3: "Next t2 = (False, t2)" using assms by (simp add: Next_def Done_def t2_def t1_def)
  have "token_states (MakeScriptTokenizer 0 ?s) = ([t1, t2], t2)"
    by (simp add: token_states.simps 1 2 3 del: append.simps)
  then have "checkScriptParses 0 ?s = None" by (simp add: checkScriptParses_def t2_def t1_def)
  moreover have "typeOfScript 0 ?s = WitnessV0ScriptHashTy"
    using assms by (simp add: typeOfScript_def extractPubKey_def extractCompressedPubKey_def extractUncompressedPubKey_def
        extractPubKeyHash_def isScriptHashScript_def extractScriptHash_def extractWitnessPubKeyHash_def extractWitnessV0ScriptHash_def)
  moreover have "tk_err (MakeScriptTokenizer 0 []) = None" by (simp add: MakeScriptTokenizer_def)
  ultimately show ?thesis by (simp add: CalcScriptInfo_def e IsPushOnlyScript_def del: append.simps)
qed

end
