(* ===== verification/ScriptNum.thy ===== *)
theory ScriptNum
  imports Scripts
begin

text \<open>
  The numbers of the script engine, \<^verbatim>\<open>txscript/scriptnum.go\<close>: a number is stored in little-endian
  order with a sign bit, in as few bytes as possible. Decoding with the minimality check accepts
  exactly what encoding writes.
\<close>

section \<open>Model\<close>

definition checkMinimalDataEncoding :: "bytes \<Rightarrow> bool" where
  "checkMinimalDataEncoding v \<longleftrightarrow>
     (if length v = 0 then True
      else if and (v ! (length v - 1)) 0x7f = 0 then
        \<not> (length v = 1 \<or> and (v ! (length v - 2)) 0x80 = 0)
      else True)"

text \<open>The loop of \<^verbatim>\<open>Bytes\<close>.\<close>

function num_bytes :: "int \<Rightarrow> bytes" where
  "num_bytes n = (if n > 0 then word_of_int n # num_bytes (n div 256) else [])"
  by pat_completeness auto
termination by (relation "measure nat") auto

declare num_bytes.simps [simp del]

definition scriptNum_Bytes :: "int \<Rightarrow> bytes result" where
  "scriptNum_Bytes n =
     (if n = 0 then Inr []
      else
        let isNegative = n < 0;
            n = (if isNegative then i64 (- n) else n);
            result = num_bytes n
        in
        if result = [] then Inl Panic
        else if and (last result) 0x80 \<noteq> 0 then Inr (result @ [if isNegative then 0x80 else 0x00])
        else if isNegative then Inr (result[length result - 1 := or (last result) 0x80])
        else Inr result)"

definition scriptNum_Int32 :: "int \<Rightarrow> int" where
  "scriptNum_Int32 n = (if n > 2 ^ 31 - 1 then 2 ^ 31 - 1 else if n < - (2 ^ 31) then - (2 ^ 31) else n)"

definition MakeScriptNum :: "bytes \<Rightarrow> bool \<Rightarrow> nat \<Rightarrow> ScriptError + int" where
  "MakeScriptNum v requireMinimal scriptNumLen =
     (if length v > scriptNumLen then Inl ErrNumberTooBig
      else if requireMinimal \<and> \<not> checkMinimalDataEncoding v then Inl ErrMinimalData
      else if length v = 0 then Inr 0
      else
        let result = foldl (\<lambda>result (i, val). or result (i64 (push_bit (8 * i mod 256) (uint val)))) 0 (List.enumerate 0 v)
        in
        if and (v ! (length v - 1)) 0x80 \<noteq> 0 then
          Inr (i64 (- (and result (not (i64 (push_bit (8 * (length v - 1) mod 256) 0x80))))))
        else Inr result)"

section \<open>Bytes and bits\<close>

lemma byte_bit7: "bit (b :: byte) 7 \<longleftrightarrow> 128 \<le> uint b"
proof -
  have "bit b 7 \<longleftrightarrow> odd (uint b div 128)" using bit_iff_odd [of "uint b" 7] by (simp add: bit_uint_iff)
  moreover have "uint b div 128 = (if 128 \<le> uint b then 1 else 0)"
    using byte_less [of b] unsigned_greater_eq [of b] by (cases "128 \<le> uint b") (simp_all add: int_div_pos_eq [of _ _ 1 "uint b - 128"])
  ultimately show ?thesis by simp
qed

lemma and_exp_iff: "n < 8 \<Longrightarrow> and (x :: byte) (2 ^ n) = 2 ^ n \<longleftrightarrow> bit x n"
proof
  assume "n < 8" "and x (2 ^ n) = 2 ^ n"
  from arg_cong [OF this(2), of "\<lambda>w. bit w n"] this(1) show "bit x n" by (simp add: bit_and_iff bit_exp_iff)
next
  assume "bit x n"
  then show "and x (2 ^ n) = 2 ^ n" by (intro bit_word_eqI) (auto simp: bit_and_iff bit_exp_iff)
qed

lemma and_128_eq: "and (b :: byte) 0x80 = 0x80 \<longleftrightarrow> 128 \<le> uint b"
  using and_exp_iff [of 7 b] byte_bit7 [of b] by simp

lemma and_128: "and (b :: byte) 0x80 = 0 \<longleftrightarrow> uint b < 128"
  using and_exp_eq_0_iff_not_bit [of b 7] byte_bit7 [of b] by (simp add: not_le)

lemma and_127: "and (b :: byte) 0x7f = 0 \<longleftrightarrow> uint b mod 128 = 0"
proof -
  have "and b 0x7f = take_bit 7 b" by (simp add: take_bit_eq_mask mask_numeral)
  moreover have "uint (take_bit 7 b) = uint b mod 128" by transfer (simp add: take_bit_eq_mod mod_mod_cancel)
  ultimately show ?thesis by (metis unsigned_0 uint_0_iff)
qed

lemma or_128: "uint (b :: byte) < 128 \<Longrightarrow> uint (or b 0x80) = uint b + 128"
proof -
  assume b: "uint b < 128"
  have "or b 0x80 = set_bit 7 b" by (simp add: set_bit_eq_or)
  also have "\<dots> = b + 128" using b byte_bit7 [of b] by (simp add: set_bit_eq)
  finally have "uint (or b 0x80) = uint (b + 128)" by simp
  also have "\<dots> = uint b + 128" using b by (simp add: uint_word_ariths)
  finally show ?thesis .
qed

lemma or_shift: "0 \<le> (a::int) \<Longrightarrow> a < 2 ^ k \<Longrightarrow> or a (push_bit k b) = a + push_bit k b"
proof -
  assume "0 \<le> a" "a < 2 ^ k"
  then have t: "take_bit k a = a" by (simp add: take_bit_int_eq_self_iff)
  have "and a (push_bit k b) = 0"
    by (rule bit_eqI, subst t [symmetric]) (auto simp: bit_and_iff bit_take_bit_iff bit_push_bit_iff)
  then show ?thesis by (simp add: disjunctive_add_eq_or)
qed

lemma pow_256: "(256::int) ^ n = 2 ^ (8 * n)"
  by (simp add: power_mult)

lemma num_decode: "length v \<le> 7 \<Longrightarrow>
  foldl (\<lambda>result (i, val). or result (i64 (push_bit (8 * i mod 256) (uint val)))) 0 (List.enumerate 0 v) = le_val v"
proof (induction v rule: rev_induct)
  case (snoc b us)
  let ?k = "length us"
  have k: "?k \<le> 6" using snoc.prems by simp
  have "uint b * 256 ^ ?k \<le> 255 * 256 ^ 6"
    using byte_less [of b] power_increasing [OF k, of "256::int"] by (intro mult_mono) simp_all
  moreover have "0 \<le> uint b * 256 ^ ?k" by simp
  ultimately have "i64 (uint b * 256 ^ ?k) = uint b * 256 ^ ?k" by (intro i64_nonneg) simp_all
  then have s: "i64 (push_bit (8 * ?k) (uint b)) = push_bit (8 * ?k) (uint b)"
    by (simp add: push_bit_eq_mult pow_256 [symmetric])
  have "le_val us < 2 ^ (8 * ?k)" using le_val_less [of us ?k] by (simp add: pow_256)
  moreover have "le_val (us @ [b]) = le_val us + push_bit (8 * ?k) (uint b)"
    by (simp add: le_val_snoc push_bit_eq_mult pow_256)
  ultimately show ?case
    using snoc or_shift [of "le_val us" "8 * ?k" "uint b"] by (simp add: enumerate_append_eq s)
qed simp

lemma num_bytes_val: "0 < n \<Longrightarrow> num_bytes n \<noteq> [] \<and> le_val (num_bytes n) = n \<and> 0 < uint (last (num_bytes n))"
proof (induction n rule: num_bytes.induct)
  case (1 n)
  show ?case
  proof (cases "n div 256 > 0")
    case True
    then show ?thesis using 1 by (simp add: num_bytes.simps [of n] le_val_Cons)
  next
    case False
    then have "num_bytes (n div 256) = []" "n < 256" by (simp_all add: num_bytes.simps)
    then show ?thesis using 1(2) by (simp add: num_bytes.simps [of n] le_val_Cons)
  qed
qed

lemma num_bytes_unique: "bs \<noteq> [] \<Longrightarrow> 0 < uint (last bs) \<Longrightarrow> num_bytes (le_val bs) = bs"
proof (induction bs)
  case (Cons b bs)
  have d: "le_val (b # bs) div 256 = le_val bs" using byte_less [of b] by (simp add: le_val_Cons)
  have w: "word_of_int (le_val (b # bs)) = b"
    by (rule word_uint_eqI) (simp only: uint_word_of_int_8 le_val_Cons, simp add: byte_less)
  show ?case
  proof (cases "bs = []")
    case True
    then show ?thesis using Cons.prems d w by (simp add: num_bytes.simps [of "uint b"] num_bytes.simps [of 0] le_val_Cons)
  next
    case False
    then have n: "num_bytes (le_val bs) = bs" using Cons by simp
    have "0 < le_val bs" using n False num_bytes.simps [of "le_val bs"] by (metis)
    then have "0 < le_val (b # bs)" by (simp add: le_val_Cons add_nonneg_pos)
    then show ?thesis using d w n by (simp add: num_bytes.simps [of "le_val (b # bs)"])
  qed
qed simp


text \<open>The number a non-empty encoding \<open>us @ [b]\<close> stands for.\<close>

definition num_mag :: "bytes \<Rightarrow> byte \<Rightarrow> int" where
  "num_mag us b = le_val us + 256 ^ length us * (uint b mod 128)"

definition num_val :: "bytes \<Rightarrow> byte \<Rightarrow> int" where
  "num_val us b = (if 128 \<le> uint b then - num_mag us b else num_mag us b)"

lemma byte_mod128: "uint (b :: byte) mod 128 = (if 128 \<le> uint b then uint b - 128 else uint b)"
proof (cases "128 \<le> uint b")
  case True
  then have "(uint b - 128) mod 128 = uint b - 128" using byte_less [of b] by (intro mod_pos_pos_trivial) simp_all
  then show ?thesis using True by simp
qed simp

lemma num_mag_bounds: "0 \<le> num_mag us b" "num_mag us b < 2 ^ (8 * length us + 7)"
proof -
  show "0 \<le> num_mag us b" by (simp add: num_mag_def)
  have "256 ^ length us * (uint b mod 128) \<le> 256 ^ length us * (127 :: int)" by (intro mult_left_mono) simp_all
  moreover have "le_val us < 256 ^ length us" by (rule le_val_less) simp
  moreover have "(2::int) ^ (8 * length us + 7) = 128 * 256 ^ length us" by (simp add: power_add pow_256)
  ultimately show "num_mag us b < 2 ^ (8 * length us + 7)" unfolding num_mag_def by linarith
qed

lemma MakeScriptNum_snoc:
  assumes "length us < 7"
  shows "MakeScriptNum (us @ [b]) m k =
     (if length us \<ge> k then Inl ErrNumberTooBig
      else if m \<and> \<not> checkMinimalDataEncoding (us @ [b]) then Inl ErrMinimalData
      else Inr (num_val us b))"
proof -
  let ?k = "8 * length us"
  note dec = num_decode [of "us @ [b]"]
  have l: "le_val (us @ [b]) = num_mag us b + (if 128 \<le> uint b then 2 ^ (?k + 7) else 0)"
    unfolding le_val_snoc num_mag_def byte_mod128 by (simp add: power_add pow_256 algebra_simps)
  show ?thesis
  proof (cases "128 \<le> uint b")
    case False
    then show ?thesis
      using assms dec l and_128 [of b] by (simp add: MakeScriptNum_def num_val_def)
  next
    case True
    have sm: "(2::int) ^ (?k + 7) < 2 ^ 63" "(2::int) ^ (?k + 7) \<ge> 0"
      using assms power_strict_increasing [of "?k + 7" 63 "2::int"] by simp_all
    have "push_bit ?k 128 = (2::int) ^ (?k + 7)" by (simp add: push_bit_eq_mult power_add)
    moreover from sm have "i64 (2 ^ (?k + 7)) = 2 ^ (?k + 7)" by (intro i64_nonneg) simp_all
    ultimately have p: "i64 (push_bit (?k mod 256) 128) = 2 ^ (?k + 7)" using assms by simp
    have "bit (num_mag us b + 2 ^ (?k + 7)) (?k + 7)"
      using num_mag_bounds [of us b] by (simp add: bit_iff_odd div_add_self2)
    then have "and (num_mag us b + 2 ^ (?k + 7)) (not (2 ^ (?k + 7))) = num_mag us b"
      using unset_bit_eq [of "?k + 7" "num_mag us b + 2 ^ (?k + 7)"] by (simp add: unset_bit_eq_and_not)
    moreover have "i64 (- num_mag us b) = - num_mag us b"
      using num_mag_bounds [of us b] sm by (intro i64_id) linarith
    ultimately show ?thesis
      using assms dec l True and_128 [of b] p by (simp add: MakeScriptNum_def num_val_def)
  qed
qed


lemma minimal_snoc:
  "checkMinimalDataEncoding (us @ [b]) \<longleftrightarrow> 0 < uint b mod 128 \<or> us \<noteq> [] \<and> 128 \<le> uint (last us)"
proof -
  have "0 \<le> uint b mod 128" by simp
  then have "0 < uint b mod 128 \<longleftrightarrow> uint b mod 128 \<noteq> 0" by linarith
  then show ?thesis
    by (cases us rule: rev_cases) (auto simp: checkMinimalDataEncoding_def and_127 and_128 nth_append not_le)
qed

lemma num_encode:
  assumes "checkMinimalDataEncoding (us @ [b])" and "length us < 7"
  shows "scriptNum_Bytes (num_val us b) = Inr (us @ [b])"
proof -
  define bs where "bs = num_bytes (num_mag us b)"
  have bs: "bs = (if 0 < uint b mod 128 then us @ [word_of_int (uint b mod 128)] else us)" "0 < num_mag us b"
  proof -
    have p: "0 < num_mag us b"
    proof (cases "0 < uint b mod 128")
      case True
      then show ?thesis by (simp add: num_mag_def add_nonneg_pos)
    next
      case False
      then have "us \<noteq> []" "128 \<le> uint (last us)" using assms(1) by (simp_all add: minimal_snoc)
      then obtain ws c where "us = ws @ [c]" "128 \<le> uint c" by (cases us rule: rev_cases) auto
      then show ?thesis by (simp add: num_mag_def le_val_snoc add_nonneg_pos add_pos_nonneg)
    qed
    show "0 < num_mag us b" by (rule p)
    show "bs = (if 0 < uint b mod 128 then us @ [word_of_int (uint b mod 128)] else us)"
    proof (cases "0 < uint b mod 128")
      case True
      have "uint (word_of_int (uint b mod 128) :: byte) = uint b mod 128" by (simp add: mod_mod_cancel)
      then have "num_mag us b = le_val (us @ [word_of_int (uint b mod 128)])" by (simp add: num_mag_def le_val_snoc)
      then show ?thesis
        using True num_bytes_unique [of "us @ [word_of_int (uint b mod 128)]"] by (simp add: bs_def mod_mod_cancel)
    next
      case False
      then have z: "uint b mod 128 = 0" using pos_mod_sign [of 128 "uint b"] by linarith
      then have "num_mag us b = le_val us" by (simp add: num_mag_def)
      then show ?thesis using False z assms(1) num_bytes_unique [of us] by (auto simp: bs_def minimal_snoc)
    qed
  qed
  have "num_mag us b < 2 ^ 55"
    using num_mag_bounds(2) [of us b] power_increasing [of "8 * length us + 7" 55 "2::int"] assms(2) by simp
  then have i: "i64 (num_mag us b) = num_mag us b" using bs(2) by (intro i64_nonneg) simp_all
  have nz: "num_val us b \<noteq> 0" "num_val us b < 0 \<longleftrightarrow> 128 \<le> uint b"
    "(if num_val us b < 0 then i64 (- num_val us b) else num_val us b) = num_mag us b"
    using bs(2) i by (simp_all add: num_val_def)
  have E: "scriptNum_Bytes (num_val us b) =
    (if bs = [] then Inl Panic
     else if and (last bs) 0x80 \<noteq> 0 then Inr (bs @ [if 128 \<le> uint b then 0x80 else 0x00])
     else if 128 \<le> uint b then Inr (bs[length bs - 1 := or (last bs) 0x80])
     else Inr bs)"
    unfolding scriptNum_Bytes_def Let_def nz(3) unfolding nz(2) bs_def [symmetric] using nz(1) by simp
  show ?thesis
  proof (cases "0 < uint b mod 128")
    case True
    let ?w = "word_of_int (uint b mod 128) :: byte"
    have w: "uint ?w = uint b mod 128" by (simp add: mod_mod_cancel)
    then have w': "uint ?w < 128" "and ?w 0x80 = 0" by (simp_all add: and_128)
    have "128 \<le> uint b \<Longrightarrow> or ?w 0x80 = b"
      using or_128 [OF w'(1)] w byte_mod128 [of b] by (simp add: word_uint_eq_iff)
    moreover have "\<not> 128 \<le> uint b \<Longrightarrow> ?w = b" using byte_mod128 [of b] by simp
    ultimately show ?thesis using True w'(2) unfolding E bs(1) if_P [OF True] by simp
  next
    case False
    then have "uint b = (if 128 \<le> uint b then 128 else 0)"
      using byte_mod128 [of b] pos_mod_sign [of 128 "uint b"] by (simp split: if_splits)
    then have "b = (if 128 \<le> uint b then 0x80 else 0x00)" by (auto simp: word_uint_eq_iff split: if_splits)
    moreover have "us \<noteq> []" "and (last us) 0x80 \<noteq> 0" using False assms(1) by (simp_all add: minimal_snoc and_128)
    ultimately show ?thesis using False unfolding E bs(1) by auto
  qed
qed

lemma num_decode_encode:
  assumes "n \<noteq> 0" and "\<bar>n\<bar> < 2 ^ (8 * k - 1)" and "k \<le> 7"
  obtains us b where "length us < k" "checkMinimalDataEncoding (us @ [b])" "num_val us b = n"
proof -
  have v: "num_bytes \<bar>n\<bar> \<noteq> []" "le_val (num_bytes \<bar>n\<bar>) = \<bar>n\<bar>" "0 < uint (last (num_bytes \<bar>n\<bar>))"
    using num_bytes_val [of "\<bar>n\<bar>"] assms(1) by simp_all
  then obtain bs c where e: "num_bytes \<bar>n\<bar> = bs @ [c]" by (metis rev_exhaust)
  then have bs: "0 < uint c" and n: "\<bar>n\<bar> = le_val bs + 256 ^ length bs * uint c"
    using v(2,3) unfolding e by (simp_all add: le_val_snoc)
  have ge: "256 ^ length bs * uint c \<le> \<bar>n\<bar>" using n by simp
  show thesis
  proof (cases "128 \<le> uint c")
    case False
    have "(2::int) ^ (8 * length bs) \<le> \<bar>n\<bar>"
      using order_trans [OF mult_left_mono [of 1 "uint c" "256 ^ length bs"] ge] bs by (simp add: pow_256)
    then have "(2::int) ^ (8 * length bs) < 2 ^ (8 * k - 1)" using assms(2) by linarith
    then have "length bs < k" by (simp add: power_strict_increasing_iff)
    define b where "b = (if n < 0 then or c 0x80 else c)"
    have b: "uint b = (if n < 0 then uint c + 128 else uint c)" using False or_128 [of c] by (simp add: b_def)
    show ?thesis
    proof (rule that [of bs b])
      show "length bs < k" by fact
      have m: "uint b mod 128 = uint c" using b False byte_mod128 [of b] by simp
      then show "checkMinimalDataEncoding (bs @ [b])" using bs by (simp add: minimal_snoc)
      show "num_val bs b = n" using m n b False by (cases "n < 0") (simp_all add: num_val_def num_mag_def)
    qed
  next
    case True
    have "(2::int) ^ (8 * length bs + 7) \<le> \<bar>n\<bar>"
      using order_trans [OF mult_left_mono [of 128 "uint c" "256 ^ length bs"] ge] True by (simp add: pow_256 power_add)
    then have "(2::int) ^ (8 * length bs + 7) < 2 ^ (8 * k - 1)" using assms(2) by linarith
    then have l: "length (bs @ [c]) < k" by (simp add: power_strict_increasing_iff)
    define b :: byte where "b = (if n < 0 then 0x80 else 0)"
    show ?thesis
    proof (rule that [of "bs @ [c]" b])
      show "length (bs @ [c]) < k" by (rule l)
      show "checkMinimalDataEncoding ((bs @ [c]) @ [b])" using True by (simp only: minimal_snoc) simp
      show "num_val (bs @ [c]) b = n" using n by (cases "n < 0") (simp_all add: num_val_def num_mag_def b_def le_val_snoc)
    qed
  qed
qed

section \<open>Property\<close>

text \<open>
  C21. Up to seven bytes, a byte string decodes to a number under the minimality rule exactly when
  it is the encoding of that number and the number fits the limit: encoding and decoding are
  inverse, every number in the range has one encoding, and no other byte string is accepted.
\<close>

theorem scriptNum_roundtrip:
  assumes "k \<le> 7"
  shows "MakeScriptNum v True k = Inr n \<longleftrightarrow> \<bar>n\<bar> < 2 ^ (8 * k - 1) \<and> scriptNum_Bytes n = Inr v"
proof (cases v rule: rev_cases)
  case Nil
  have "scriptNum_Bytes n = Inr [] \<longleftrightarrow> n = 0" by (auto simp: scriptNum_Bytes_def Let_def split: if_splits)
  then show ?thesis using Nil by (auto simp: MakeScriptNum_def checkMinimalDataEncoding_def)
next
  case (snoc us b)
  show ?thesis
  proof
    assume a: "MakeScriptNum v True k = Inr n"
    then have l: "length us < k" using snoc by (auto simp: MakeScriptNum_def split: if_splits)
    then have l7: "length us < 7" using assms by simp
    then have m: "checkMinimalDataEncoding v" "n = num_val us b"
      using a MakeScriptNum_snoc [of us b True k] snoc by (auto split: if_splits)
    have "\<bar>n\<bar> < 2 ^ (8 * length us + 7)" using num_mag_bounds [of us b] m(2) by (simp add: num_val_def)
    also have "(2::int) ^ (8 * length us + 7) \<le> 2 ^ (8 * k - 1)" using l by (intro power_increasing) simp_all
    finally show "\<bar>n\<bar> < 2 ^ (8 * k - 1) \<and> scriptNum_Bytes n = Inr v"
      using num_encode [of us b] m l7 snoc by simp
  next
    assume a: "\<bar>n\<bar> < 2 ^ (8 * k - 1) \<and> scriptNum_Bytes n = Inr v"
    then have "n \<noteq> 0" using snoc by (auto simp: scriptNum_Bytes_def)
    then obtain ws c where w: "length ws < k" "checkMinimalDataEncoding (ws @ [c])" "num_val ws c = n"
      using num_decode_encode a assms by blast
    then have "v = ws @ [c]" using num_encode [of ws c] a assms by simp
    then show "MakeScriptNum v True k = Inr n" using MakeScriptNum_snoc [of ws c True k] w assms by simp
  qed
qed

theorem scriptNum_roundtrip_witness:
  "MakeScriptNum [0x80, 0x80] True 4 = Inr (- 128) \<and> \<bar>- 128 :: int\<bar> < 2 ^ (8 * 4 - 1) \<and> scriptNum_Bytes (- 128) = Inr [0x80, 0x80]"
proof -
  have "MakeScriptNum [0x80, 0x80] True 4 = Inr (- 128)"
    by (simp add: MakeScriptNum_def checkMinimalDataEncoding_def i64_def push_bit_eq_mult)
  then show ?thesis using scriptNum_roundtrip [of 4 "[0x80, 0x80]" "- 128"] by simp
qed

end
