(* ===== verification/ScriptBuild.thy ===== *)
theory ScriptBuild
  imports ScriptNum
begin

text \<open>
  Writing scripts: the builder of \<^verbatim>\<open>txscript/scriptbuilder.go\<close> and the script numbers of
  \<^verbatim>\<open>txscript/scriptnum.go\<close>. A reference parser over byte strings is shown equivalent to the
  tokenizer, and the builder is shown to write canonical pushes that the tokenizer reads back.
\<close>

section \<open>The reference parser\<close>

function parse_all :: "bytes \<Rightarrow> (byte \<times> bytes option) list \<times> bool" where
  "parse_all s =
     (if s = [] then ([], True)
      else case parse_op s of
        None \<Rightarrow> ([], False)
      | Some (op, d, rest) \<Rightarrow> ((op, d) # fst (parse_all rest), snd (parse_all rest)))"
  by pat_completeness auto
termination by (relation "measure length") (auto dest: parse_op_shorter)

declare parse_all.simps [simp del]

lemma parse_all_Nil [simp]: "parse_all [] = ([], True)"
  by (simp add: parse_all.simps)

text \<open>The bytes of an opcode with its data.\<close>

definition tokenBytes :: "byte \<Rightarrow> bytes option \<Rightarrow> bytes" where
  "tokenBytes op d = (case d of None \<Rightarrow> [op] | Some x \<Rightarrow>
     op # (if opcode_length op < 0 then le_bytes (nat (- opcode_length op)) (int (length x)) else []) @ x)"

lemma parse_op_bytes: "parse_op s = Some (op, d, rest) \<Longrightarrow> s = tokenBytes op d @ rest"
proof -
  assume *: "parse_op s = Some (op, d, rest)"
  then obtain r where s: "s = op # r" by (cases s) (auto simp: Let_def split: if_splits)
  show ?thesis
  proof (cases "opcode_length op \<ge> 0")
    case True
    then show ?thesis using * by (auto simp: s Let_def tokenBytes_def split: if_splits)
  next
    case False
    then obtain n where n: "opcode_length op = - int n" "0 < n" by (metis neg_int_cases not_le)
    define v where "v = nat (le_val (take n r))"
    have v: "le_val (take n r) = int v" by (simp add: v_def)
    have "n \<le> length r" and d: "d = Some (take v (drop n r))" and rest: "rest = drop v (drop n r)" and "v \<le> length r - n"
      using * n v by (auto simp: s Let_def split: if_splits)
    moreover from this have "le_bytes n (int v) = take n r" using le_bytes_le_val [of "take n r" n] v by simp
    moreover have "r = take n r @ take v (drop n r) @ drop v (drop n r)" by (simp only: append_take_drop_id)
    ultimately show ?thesis using n by (simp only: s tokenBytes_def option.case) (simp add: min_def)
  qed
qed

lemma parse_op_append: "parse_op s = Some (op, d, rest) \<Longrightarrow> parse_op (s @ x) = Some (op, d, rest @ x)"
proof -
  assume *: "parse_op s = Some (op, d, rest)"
  then obtain r where s: "s = op # r" by (cases s) (auto simp: Let_def split: if_splits)
  show ?thesis
  proof (cases "opcode_length op \<ge> 0")
    case True
    then show ?thesis using * by (auto simp: s Let_def split: if_splits)
  next
    case False
    then obtain n where n: "opcode_length op = - int n" "0 < n" by (metis neg_int_cases not_le)
    define v where "v = nat (le_val (take n r))"
    have v: "le_val (take n r) = int v" by (simp add: v_def)
    have "n \<le> length r" "d = Some (take v (drop n r))" "rest = drop v (drop n r)" "v \<le> length r - n" "int v < 2 ^ 31"
      using * n v by (auto simp: s Let_def split: if_splits)
    then show ?thesis using n v by (simp add: s Let_def)
  qed
qed

lemma parse_all_append: "snd (parse_all s) \<Longrightarrow> parse_all (s @ x) = (fst (parse_all s) @ fst (parse_all x), snd (parse_all x))"
proof (induction s rule: parse_all.induct)
  case (1 s)
  show ?case
  proof (cases "s = []")
    case False
    then obtain op d rest where p: "parse_op s = Some (op, d, rest)"
      using 1(3) parse_all.simps [of s] by (auto split: option.splits)
    then have "snd (parse_all rest)" using 1(3) False parse_all.simps [of s] by simp
    then show ?thesis
      using 1(1) [OF False p refl refl] parse_op_append [OF p, of x] p False
      by (simp add: parse_all.simps [of s] parse_all.simps [of "s @ x"])
  qed simp
qed

text \<open>The tokenizer parses what the reference parser parses.\<close>

abbreviation ops_of :: "ScriptTokenizer list \<Rightarrow> (byte \<times> bytes option) list" where
  "ops_of ts \<equiv> map (\<lambda>t. (tk_op t, tk_data t)) ts"

lemma token_states_parse:
  "tk_err t = None \<Longrightarrow> tk_offset t \<le> length (tk_script t) \<Longrightarrow>
   ops_of (fst (token_states t)) = fst (parse_all (drop (tk_offset t) (tk_script t))) \<and>
   (tk_err (snd (token_states t)) = None \<longleftrightarrow> snd (parse_all (drop (tk_offset t) (tk_script t)))) \<and>
   tk_script (snd (token_states t)) = tk_script t \<and> tk_offset (snd (token_states t)) \<le> length (tk_script t) \<and>
   (tk_err (snd (token_states t)) = None \<longleftrightarrow> tk_offset (snd (token_states t)) = length (tk_script t)) \<and>
   drop (tk_offset t) (tk_script t) = concat (map (\<lambda>(op, d). tokenBytes op d) (ops_of (fst (token_states t)))) @
     drop (tk_offset (snd (token_states t))) (tk_script t)"
proof (induction t rule: token_states.induct)
  case (1 t)
  let ?r = "drop (tk_offset t) (tk_script t)"
  show ?case
  proof (cases "?r = []")
    case True
    then have "Next t = (False, t)" by (simp add: Next_def Done_def)
    then show ?thesis using 1(2,3) True by (simp add: token_states.simps)
  next
    case False
    then have nd: "\<not> Done t" using 1(2) by (simp add: Done_def)
    show ?thesis
    proof (cases "parse_op ?r")
      case None
      then show ?thesis using Next_parse [OF nd] False 1(3) by (simp add: token_states.simps [of t] parse_all.simps [of ?r])
    next
      case (Some x)
      then obtain op d rest where p: "parse_op ?r = Some (op, d, rest)" by (cases x) auto
      define t' where "t' = snd (Next t)"
      have n: "Next t = (True, t')" "t' = t\<lparr>tk_opcodePos := tk_opcodePos t + 1, tk_offset := length (tk_script t) - length rest, tk_op := op, tk_data := d\<rparr>"
        using Next_parse [OF nd] p by (simp_all add: t'_def)
      have rr: "?r = tokenBytes op d @ rest" by (rule parse_op_bytes [OF p])
      have "rest = drop (length (tk_script t) - length rest) (tk_script t)"
      proof -
        have "tk_script t = (take (tk_offset t) (tk_script t) @ tokenBytes op d) @ rest"
          using append_take_drop_id [of "tk_offset t" "tk_script t"] rr by simp
        then show ?thesis by (metis append_eq_conv_conj length_append diff_add_inverse2)
      qed
      then have dr: "drop (tk_offset t') (tk_script t') = rest" using n(2) by simp
      have IH: "ops_of (fst (token_states t')) = fst (parse_all rest) \<and>
         (tk_err (snd (token_states t')) = None \<longleftrightarrow> snd (parse_all rest)) \<and>
         tk_script (snd (token_states t')) = tk_script t \<and> tk_offset (snd (token_states t')) \<le> length (tk_script t) \<and>
         (tk_err (snd (token_states t')) = None \<longleftrightarrow> tk_offset (snd (token_states t')) = length (tk_script t)) \<and>
         rest = concat (map (\<lambda>(op, d). tokenBytes op d) (ops_of (fst (token_states t')))) @
           drop (tk_offset (snd (token_states t'))) (tk_script t)"
      proof -
        have a: "fst (Next t)" and b: "snd (Next t) = t'" and c: "tk_script t' = tk_script t" and e: "tk_err t' = None"
            and o: "tk_offset t' \<le> length (tk_script t')"
          using n 1(2) by simp_all
        show ?thesis by (rule 1(1) [OF a, unfolded b, OF e o, unfolded dr, unfolded c])
      qed
      have ts: "token_states t = (t' # fst (token_states t'), snd (token_states t'))"
        using n(1) by (subst token_states.simps) (simp add: split_beta)
      have pa: "parse_all ?r = ((op, d) # fst (parse_all rest), snd (parse_all rest))"
        using p False by (simp add: parse_all.simps [of ?r])
      have op: "tk_op t' = op" "tk_data t' = d" using n(2) by simp_all
      note I1 = conjunct1 [OF IH] and I = conjunct2 [OF IH]
      have "?r = (tokenBytes op d @ concat (map (\<lambda>(op, d). tokenBytes op d) (ops_of (fst (token_states t'))))) @
          drop (tk_offset (snd (token_states t'))) (tk_script t)"
        unfolding append_assoc using conjunct2 [OF conjunct2 [OF conjunct2 [OF conjunct2 [OF I]]]] rr by argo
      then show ?thesis
        unfolding ts pa fst_conv snd_conv list.map op concat.simps prod.case I1 using I by blast
    qed
  qed
qed

lemma script_parse:
  "ops_of (fst (token_states (MakeScriptTokenizer 0 s))) = fst (parse_all s)"
  "checkScriptParses 0 s = None \<longleftrightarrow> snd (parse_all s)"
  using token_states_parse [of "MakeScriptTokenizer 0 s"] by (simp_all add: MakeScriptTokenizer_def checkScriptParses_def)

section \<open>Removing opcodes\<close>

text \<open>
  Both loops keep every token that does not match. Once a token was removed, the bytes after the
  last token that parses are dropped as well.
\<close>

definition kept :: "(byte \<times> bytes option \<Rightarrow> bool) \<Rightarrow> bytes \<Rightarrow> bytes" where
  "kept P script =
     (if \<exists>x \<in> set (fst (parse_all script)). P x
      then concat (map (\<lambda>(op, d). tokenBytes op d) (filter (\<lambda>x. \<not> P x) (fst (parse_all script))))
      else script)"

lemma Next_token:
  assumes "tk_err t = None" "tk_offset t \<le> length (tk_script t)" "Next t = (True, u)"
  shows "tk_script u = tk_script t" "tk_err u = None" "tk_offset t \<le> tk_offset u" "tk_offset u \<le> length (tk_script t)"
    "slice (tk_offset t) (tk_offset u) (tk_script t) = tokenBytes (tk_op u) (tk_data u)"
proof -
  let ?r = "drop (tk_offset t) (tk_script t)"
  have nd: "\<not> Done t" using assms(3) by (auto simp: Next_def)
  obtain op d rest where p: "parse_op ?r = Some (op, d, rest)"
    using Next_parse [OF nd] assms(3) by (cases "parse_op ?r") auto
  have u: "u = t\<lparr>tk_opcodePos := tk_opcodePos t + 1, tk_offset := length (tk_script t) - length rest, tk_op := op, tk_data := d\<rparr>"
    using Next_parse [OF nd] p assms(3) by simp
  have r: "?r = tokenBytes op d @ rest" by (rule parse_op_bytes [OF p])
  then have l: "length (tk_script t) - tk_offset t = length (tokenBytes op d) + length rest"
    by (metis length_append length_drop)
  show "tk_script u = tk_script t" "tk_err u = None" "tk_offset u \<le> length (tk_script t)" using u assms(1) by simp_all
  show "tk_offset t \<le> tk_offset u" using u l assms(2) by simp
  have "tk_offset u - tk_offset t = length (tokenBytes op d)" using u l assms(2) by simp
  then show "slice (tk_offset t) (tk_offset u) (tk_script t) = tokenBytes (tk_op u) (tk_data u)"
    using u r by (simp add: slice_def)
qed

abbreviation tok_bytes :: "ScriptTokenizer \<Rightarrow> bytes" where
  "tok_bytes u \<equiv> tokenBytes (tk_op u) (tk_data u)"

abbreviation remove_step :: "(ScriptTokenizer \<Rightarrow> bool) \<Rightarrow> bytes \<Rightarrow> bytes option \<times> nat \<Rightarrow> ScriptTokenizer \<Rightarrow> bytes option \<times> nat" where
  "remove_step P script \<equiv> \<lambda>(result, prevOffset) t.
     (if P t then (case result of None \<Rightarrow> Some (take prevOffset script) | Some r \<Rightarrow> Some r)
      else (case result of None \<Rightarrow> None | Some r \<Rightarrow> Some (r @ slice prevOffset (tk_offset t) script)), tk_offset t)"

lemma remove_loop:
  assumes "tk_err t = None" "tk_offset t \<le> length (tk_script t)"
  shows "fst (foldl (remove_step P (tk_script t)) (res, tk_offset t) (fst (token_states t))) =
     (let ks = concat (map tok_bytes (filter (\<lambda>u. \<not> P u) (fst (token_states t)))) in
      case res of Some r \<Rightarrow> Some (r @ ks)
      | None \<Rightarrow> if \<exists>u \<in> set (fst (token_states t)). P u then Some (take (tk_offset t) (tk_script t) @ ks) else None)"
  using assms
proof (induction t arbitrary: res rule: token_states.induct)
  case (1 t)
  show ?case
  proof (cases "fst (Next t)")
    case False
    then show ?thesis by (simp add: token_states.simps [of t] split: option.split)
  next
    case True
    define u where "u = snd (Next t)"
    have n: "Next t = (True, u)" using True by (simp add: u_def prod_eq_iff)
    note N = Next_token [OF 1(2,3) n]
    have ts: "fst (token_states t) = u # fst (token_states u)"
      using n by (subst token_states.simps) (simp add: split_beta)
    have tk: "take (tk_offset u) (tk_script t) = take (tk_offset t) (tk_script t) @ tok_bytes u"
      using take_add [of "tk_offset t" "tk_offset u - tk_offset t" "tk_script t"] N(3,5) by (simp add: slice_def)
    have ou: "tk_offset u \<le> length (tk_script u)" using N(1,4) by simp
    note IH = 1(1) [OF True, folded u_def, OF N(2) ou, unfolded N(1)]
    show ?thesis
    proof (cases res)
      case None
      then show ?thesis
        unfolding ts by (cases "P u") (simp_all add: IH Let_def tk)
    next
      case (Some r)
      then show ?thesis unfolding ts by (cases "P u") (simp_all add: IH Let_def N(5))
    qed
  qed
qed

lemma kept_tokens:
  assumes "\<And>u. P u = Q (tk_op u, tk_data u)"
  shows "(case fst (foldl (remove_step P s) (None, 0) (fst (token_states (MakeScriptTokenizer 0 s)))) of None \<Rightarrow> s | Some r \<Rightarrow> r) = kept Q s"
proof -
  let ?t = "MakeScriptTokenizer 0 s" and ?ts = "fst (token_states (MakeScriptTokenizer 0 s))"
  have t: "tk_err ?t = None" "tk_offset ?t = 0" "tk_script ?t = s" by (simp_all add: MakeScriptTokenizer_def)
  have e: "(\<exists>u \<in> set ?ts. P u) \<longleftrightarrow> (\<exists>x \<in> set (fst (parse_all s)). Q x)"
    unfolding script_parse(1) [symmetric] using assms by auto
  have m: "concat (map (\<lambda>(op, d). tokenBytes op d) (filter (\<lambda>x. \<not> Q x) (ops_of ts))) = concat (map tok_bytes (filter (\<lambda>u. \<not> P u) ts))" for ts
    using assms by (induction ts) auto
  show ?thesis
    using remove_loop [OF t(1), of P None] unfolding t kept_def e [symmetric] script_parse(1) [symmetric] m by (simp add: Let_def assms)
qed

lemma removeOpcodeRaw_kept: "removeOpcodeRaw script opcode = kept (\<lambda>(op, _). op = opcode) script"
proof (cases "script = []")
  case True
  then show ?thesis by (simp add: removeOpcodeRaw_def kept_def)
next
  case False
  then show ?thesis
    using kept_tokens [of "\<lambda>u. tk_op u = opcode" "\<lambda>(op, _). op = opcode" script]
    by (simp add: removeOpcodeRaw_def split_beta)
qed

definition data_match :: "bytes \<Rightarrow> byte \<times> bytes option \<Rightarrow> bool" where
  "data_match dataToRemove = (\<lambda>(op, d). isCanonicalPush op (opt_data d) \<and> opt_data d = dataToRemove)"

lemma remove_data_loop:
  "foldl (\<lambda>(result, prevOffset, match) t.
       let (result, prevOffset, found) = removeOpcodeCanonical t s dataToRemove prevOffset result
       in (result, prevOffset, match \<or> found)) (r, p, m) ts =
   (let F = foldl (remove_step (\<lambda>u. data_match dataToRemove (tk_op u, tk_data u)) s) (r, p) ts in
    (fst F, snd F, m \<or> (\<exists>u \<in> set ts. data_match dataToRemove (tk_op u, tk_data u))))"
proof (induction ts arbitrary: r p m)
  case (Cons u ts)
  show ?case
  proof (cases "data_match dataToRemove (tk_op u, tk_data u)")
    case True
    then have "removeOpcodeCanonical u s dataToRemove p r = (case r of None \<Rightarrow> Some (take p s) | Some r \<Rightarrow> Some r, tk_offset u, True)"
      by (auto simp add: removeOpcodeCanonical_def data_match_def Let_def)
    then show ?thesis using True Cons by (simp add: Let_def)
  next
    case False
    then have "removeOpcodeCanonical u s dataToRemove p r = (case r of None \<Rightarrow> None | Some r \<Rightarrow> Some (r @ slice p (tk_offset u) s), tk_offset u, False)"
      by (auto simp add: removeOpcodeCanonical_def data_match_def Let_def)
    then show ?thesis using False Cons by (auto simp add: Let_def)
  qed
qed simp

lemma removeOpcodeByData_kept:
  "dataToRemove \<noteq> [] \<Longrightarrow> removeOpcodeByData script dataToRemove =
     (kept (data_match dataToRemove) script, \<exists>x \<in> set (fst (parse_all script)). data_match dataToRemove x)"
proof (cases "script = []")
  case True
  assume "dataToRemove \<noteq> []"
  then show ?thesis using True by (simp add: removeOpcodeByData_def kept_def)
next
  case False
  assume "dataToRemove \<noteq> []"
  moreover have "(\<exists>u \<in> set (fst (token_states (MakeScriptTokenizer 0 script))). data_match dataToRemove (tk_op u, tk_data u)) \<longleftrightarrow>
      (\<exists>x \<in> set (fst (parse_all script)). data_match dataToRemove x)"
    unfolding script_parse(1) [symmetric] by (simp only: set_map bex_simps(7))
  ultimately show ?thesis
    using False kept_tokens [of "\<lambda>u. data_match dataToRemove (tk_op u, tk_data u)" "data_match dataToRemove" script, OF refl]
    unfolding removeOpcodeByData_def remove_data_loop by (simp only: Let_def prod.case fst_conv snd_conv) simp
qed

lemma tokens_write:
  assumes "snd (parse_all script)"
  shows "concat (map (\<lambda>(op, d). tokenBytes op d) (fst (parse_all script))) = script"
proof -
  let ?t = "MakeScriptTokenizer 0 script"
  have t: "tk_err ?t = None" "tk_offset ?t = 0" "tk_script ?t = script" by (simp_all add: MakeScriptTokenizer_def)
  have "tk_offset ?t \<le> length (tk_script ?t)" by (simp add: t)
  note T = token_states_parse [OF t(1) this, unfolded t drop_0]
  have "drop (tk_offset (snd (token_states ?t))) script = []"
    using T assms by (metis drop_all order_refl)
  then have "script = concat (map (\<lambda>(op, d). tokenBytes op d) (ops_of (fst (token_states ?t))))"
    using T by (metis append_Nil2)
  then show ?thesis unfolding script_parse(1) by simp
qed

lemma kept_all:
  assumes "snd (parse_all script)"
  shows "kept P script = concat (map (\<lambda>(op, d). tokenBytes op d) (filter (\<lambda>x. \<not> P x) (fst (parse_all script))))"
proof (cases "\<exists>x \<in> set (fst (parse_all script)). P x")
  case False
  then have "filter (\<lambda>x. \<not> P x) (fst (parse_all script)) = fst (parse_all script)" by (simp add: filter_id_conv)
  then show ?thesis using tokens_write [OF assms] False by (simp add: kept_def)
qed (simp add: kept_def)

section \<open>The script builder\<close>

record ScriptBuilder =
  sb_script :: bytes
  sb_err :: "ScriptError option"

definition NewScriptBuilder :: ScriptBuilder where
  "NewScriptBuilder = \<lparr>sb_script = [], sb_err = None\<rparr>"

definition AddOp :: "byte \<Rightarrow> ScriptBuilder \<Rightarrow> ScriptBuilder" where
  "AddOp opcode b =
     (if sb_err b \<noteq> None then b
      else if length (sb_script b) + 1 > MaxScriptSize then b\<lparr>sb_err := Some ErrScriptNotCanonical\<rparr>
      else b\<lparr>sb_script := sb_script b @ [opcode]\<rparr>)"

definition AddOps :: "bytes \<Rightarrow> ScriptBuilder \<Rightarrow> ScriptBuilder" where
  "AddOps opcodes b =
     (if sb_err b \<noteq> None then b
      else if length (sb_script b) + length opcodes > MaxScriptSize then b\<lparr>sb_err := Some ErrScriptNotCanonical\<rparr>
      else b\<lparr>sb_script := sb_script b @ opcodes\<rparr>)"

definition canonicalDataSize :: "bytes \<Rightarrow> nat" where
  "canonicalDataSize data =
     (let dataLen = length data in
      if dataLen = 0 then 1
      else if dataLen = 1 \<and> data ! 0 \<le> 16 then 1
      else if dataLen = 1 \<and> data ! 0 = 0x81 then 1
      else if dataLen < 0x4c then 1 + dataLen
      else if dataLen \<le> 0xff then 2 + dataLen
      else if dataLen \<le> 0xffff then 3 + dataLen
      else 5 + dataLen)"

definition addData :: "bytes \<Rightarrow> ScriptBuilder \<Rightarrow> ScriptBuilder" where
  "addData data b =
     (let dataLen = length data in
      if dataLen = 0 \<or> dataLen = 1 \<and> data ! 0 = 0 then b\<lparr>sb_script := sb_script b @ [OP_0]\<rparr>
      else if dataLen = 1 \<and> data ! 0 \<le> 16 then b\<lparr>sb_script := sb_script b @ [OP_1 - 1 + data ! 0]\<rparr>
      else if dataLen = 1 \<and> data ! 0 = 0x81 then b\<lparr>sb_script := sb_script b @ [OP_1NEGATE]\<rparr>
      else
        let prefix =
          (if dataLen < 0x4c then [word_of_int (int dataLen)]
           else if dataLen \<le> 0xff then [OP_PUSHDATA1, word_of_int (int dataLen)]
           else if dataLen \<le> 0xffff then OP_PUSHDATA2 # le_bytes 2 (int dataLen)
           else OP_PUSHDATA4 # le_bytes 4 (int dataLen))
        in b\<lparr>sb_script := sb_script b @ prefix @ data\<rparr>)"

definition AddFullData :: "bytes \<Rightarrow> ScriptBuilder \<Rightarrow> ScriptBuilder" where
  "AddFullData data b = (if sb_err b \<noteq> None then b else addData data b)"

definition AddData :: "bytes \<Rightarrow> ScriptBuilder \<Rightarrow> ScriptBuilder" where
  "AddData data b =
     (if sb_err b \<noteq> None then b
      else if length (sb_script b) + canonicalDataSize data > MaxScriptSize then b\<lparr>sb_err := Some ErrScriptNotCanonical\<rparr>
      else if length data > MaxScriptElementSize then b\<lparr>sb_err := Some ErrScriptNotCanonical\<rparr>
      else addData data b)"

definition AddInt64 :: "int \<Rightarrow> ScriptBuilder \<Rightarrow> ScriptBuilder result" where
  "AddInt64 val b =
     (if sb_err b \<noteq> None then Inr b
      else if length (sb_script b) + 1 > MaxScriptSize then Inr (b\<lparr>sb_err := Some ErrScriptNotCanonical\<rparr>)
      else if val = 0 then Inr (b\<lparr>sb_script := sb_script b @ [OP_0]\<rparr>)
      else if val = -1 \<or> val \<ge> 1 \<and> val \<le> 16 then Inr (b\<lparr>sb_script := sb_script b @ [word_of_int (0x50 + val)]\<rparr>)
      else rbind (scriptNum_Bytes val) (\<lambda>data. Inr (AddData data b)))"

definition Reset :: "ScriptBuilder \<Rightarrow> ScriptBuilder" where
  "Reset b = b\<lparr>sb_script := [], sb_err := None\<rparr>"

definition Script :: "ScriptBuilder \<Rightarrow> bytes \<times> ScriptError option" where
  "Script b = (sb_script b, sb_err b)"

section \<open>Payment scripts\<close>

definition payToPubKeyHashScript :: "bytes \<Rightarrow> bytes \<times> ScriptError option" where
  "payToPubKeyHashScript pubKeyHash =
     Script (AddOp OP_CHECKSIG (AddOp OP_EQUALVERIFY (AddData pubKeyHash (AddOp OP_HASH160 (AddOp OP_DUP NewScriptBuilder)))))"

definition payToWitnessPubKeyHashScript :: "bytes \<Rightarrow> bytes \<times> ScriptError option" where
  "payToWitnessPubKeyHashScript pubKeyHash = Script (AddData pubKeyHash (AddOp OP_0 NewScriptBuilder))"

definition payToScriptHashScript :: "bytes \<Rightarrow> bytes \<times> ScriptError option" where
  "payToScriptHashScript scriptHash =
     Script (AddOp OP_EQUAL (AddData scriptHash (AddOp OP_HASH160 NewScriptBuilder)))"

definition payToWitnessScriptHashScript :: "bytes \<Rightarrow> bytes \<times> ScriptError option" where
  "payToWitnessScriptHashScript scriptHash = Script (AddData scriptHash (AddOp OP_0 NewScriptBuilder))"

definition payToWitnessTaprootScript :: "bytes \<Rightarrow> bytes \<times> ScriptError option" where
  "payToWitnessTaprootScript rawKey = Script (AddData rawKey (AddOp OP_1 NewScriptBuilder))"

definition payToAnchorScript :: "bytes \<Rightarrow> bytes \<times> ScriptError option" where
  "payToAnchorScript witnessProgram = Script (AddData witnessProgram (AddOp OP_1 NewScriptBuilder))"

definition payToPubKeyScript :: "bytes \<Rightarrow> bytes \<times> ScriptError option" where
  "payToPubKeyScript serializedPubKey = Script (AddOp OP_CHECKSIG (AddData serializedPubKey NewScriptBuilder))"

text \<open>The dynamic type of an address and its \<^verbatim>\<open>ScriptAddress()\<close>; None is a nil pointer of the type.\<close>

datatype Address =
    AddressPubKeyHash "bytes option" | AddressScriptHash "bytes option" | AddressPubKey "bytes option"
  | AddressWitnessPubKeyHash "bytes option" | AddressWitnessScriptHash "bytes option"
  | AddressTaproot "bytes option" | AddressPayToAnchor "bytes option" | AddressOther

definition PayToAddrScript :: "Address \<Rightarrow> bytes \<times> ScriptError option" where
  "PayToAddrScript addr =
     (case addr of
        AddressPubKeyHash (Some a) \<Rightarrow> payToPubKeyHashScript a
      | AddressScriptHash (Some a) \<Rightarrow> payToScriptHashScript a
      | AddressPubKey (Some a) \<Rightarrow> payToPubKeyScript a
      | AddressWitnessPubKeyHash (Some a) \<Rightarrow> payToWitnessPubKeyHashScript a
      | AddressWitnessScriptHash (Some a) \<Rightarrow> payToWitnessScriptHashScript a
      | AddressTaproot (Some a) \<Rightarrow> payToWitnessTaprootScript a
      | AddressPayToAnchor (Some a) \<Rightarrow> payToAnchorScript a
      | _ \<Rightarrow> ([], Some ErrUnsupportedAddress))"

definition NullDataScript :: "bytes \<Rightarrow> bytes \<times> ScriptError option" where
  "NullDataScript data =
     (if length data > MaxDataCarrierSize then ([], Some ErrTooMuchNullData)
      else Script (AddData data (AddOp OP_RETURN NewScriptBuilder)))"

definition MultiSigScript :: "bytes list \<Rightarrow> int \<Rightarrow> (bytes \<times> ScriptError option) result" where
  "MultiSigScript pubkeys nrequired =
     (if int (length pubkeys) < nrequired then Inr ([], Some ErrTooManyRequiredSigs)
      else
        rbind (AddInt64 nrequired NewScriptBuilder) (\<lambda>b.
        rbind (AddInt64 (int (length pubkeys)) (fold AddData pubkeys b)) (\<lambda>b.
        Inr (Script (AddOp OP_CHECKMULTISIG b)))))"

definition PushedData :: "bytes \<Rightarrow> ScriptError + bytes option list" where
  "PushedData script =
     (let (ts, f) = token_states (MakeScriptTokenizer 0 script);
          data = concat (map (\<lambda>t. if tk_data t \<noteq> None then [tk_data t] else if tk_op t = OP_0 then [None] else []) ts)
      in case tk_err f of Some e \<Rightarrow> Inl e | None \<Rightarrow> Inr data)"

definition CalcMultiSigStats :: "bytes \<Rightarrow> ScriptError + (int \<times> int)" where
  "CalcMultiSigStats script =
     (let details = extractMultisigScriptDetails 0 script False in
      if \<not> ms_valid details then Inl ErrNotMultisigScript
      else Inr (ms_numPubKeys details, ms_requiredSigs details))"

section \<open>Pushes\<close>

text \<open>What a token leaves on the stack when it is a push.\<close>

definition pushedValue :: "byte \<times> bytes option \<Rightarrow> bytes option" where
  "pushedValue tok =
     (case tok of (op, Some d) \<Rightarrow> Some d
      | (op, None) \<Rightarrow>
          if op = OP_0 then Some []
          else if op = OP_1NEGATE then Some [0x81]
          else if op \<ge> OP_1 \<and> op \<le> OP_16 then Some [op - (OP_1 - 1)]
          else None)"

definition push_bytes :: "bytes \<Rightarrow> bytes" where
  "push_bytes data = sb_script (addData data \<lparr>sb_script = [], sb_err = None\<rparr>)"

lemma addData_push: "addData data b = b\<lparr>sb_script := sb_script b @ push_bytes data\<rparr>"
  by (simp add: addData_def push_bytes_def Let_def)

lemma parse_direct:
  "opcode_length op = int (length data) + 1 \<Longrightarrow> data \<noteq> [] \<Longrightarrow> parse_op (op # data) = Some (op, Some data, [])"
  by simp

lemma parse_pushdata:
  assumes "opcode_length op = - int n" "0 < n" "int (length data) < 256 ^ n" "length data < 2 ^ 31"
  shows "parse_op (op # le_bytes n (int (length data)) @ data) = Some (op, Some data, [])"
proof -
  have "le_val (take n (le_bytes n (int (length data)) @ data)) = int (length data)"
    using assms(3) by (simp add: le_val_le_bytes)
  then show ?thesis using assms by simp
qed

lemma push_token:
  assumes "data \<noteq> []" "\<not> (length data = 1 \<and> (data ! 0 \<le> 16 \<or> data ! 0 = 0x81))" "length data < 2 ^ 31"
  shows "\<exists>op. parse_op (push_bytes data) = Some (op, Some data, []) \<and> isCanonicalPush op data \<and>
    length (push_bytes data) = canonicalDataSize data"
proof -
  let ?n = "length data"
  have n: "\<not> (?n = 0 \<or> ?n = 1 \<and> data ! 0 = 0)" "\<not> (?n = 1 \<and> data ! 0 \<le> 16)" "\<not> (?n = 1 \<and> data ! 0 = 0x81)" "?n \<noteq> 0"
    using assms(1,2) by auto
  have sz: "canonicalDataSize data = (if ?n < 0x4c then 1 + ?n else if ?n \<le> 0xff then 2 + ?n else if ?n \<le> 0xffff then 3 + ?n else 5 + ?n)"
    using n by (simp only: canonicalDataSize_def Let_def if_False)
  have pb: "push_bytes data = (if ?n < 0x4c then [word_of_int (int ?n)]
           else if ?n \<le> 0xff then [OP_PUSHDATA1, word_of_int (int ?n)]
           else if ?n \<le> 0xffff then OP_PUSHDATA2 # le_bytes 2 (int ?n)
           else OP_PUSHDATA4 # le_bytes 4 (int ?n)) @ data"
    using n by (simp only: push_bytes_def addData_def Let_def if_False ScriptBuilder.simps append_Nil simp_thms)
  consider "?n < 0x4c" | "0x4c \<le> ?n" "?n \<le> 0xff" | "0xff < ?n" "?n \<le> 0xffff" | "0xffff < ?n" by linarith
  then show ?thesis
  proof cases
    case 1
    define op :: byte where "op = word_of_int (int ?n)"
    have u: "uint op = int ?n" using 1 by (simp only: op_def uint_word_of_int_8) simp
    have "opcode_length op = int ?n + 1" using u 1 assms(1) by (simp add: opcode_length_def Suc_le_eq)
    moreover have "isCanonicalPush op data"
      using n u 1 by (auto simp: isCanonicalPush_def word_uint_eq_iff)
    moreover have "push_bytes data = op # data" using pb 1 by (simp add: op_def)
    ultimately show ?thesis using parse_direct [of op data] assms(1) sz 1 by (intro exI [of _ op]) simp
  next
    case 2
    have "push_bytes data = OP_PUSHDATA1 # le_bytes 1 (int ?n) @ data"
      using 2 by (simp add: pb le_bytes_def)
    moreover have "isCanonicalPush OP_PUSHDATA1 data" using 2 by (simp add: isCanonicalPush_def)
    ultimately show ?thesis using parse_pushdata [of OP_PUSHDATA1 1 data] 2 sz
      by (intro exI [of _ OP_PUSHDATA1]) (simp add: opcode_length_def)
  next
    case 3
    have "push_bytes data = OP_PUSHDATA2 # le_bytes 2 (int ?n) @ data" using 3 by (simp add: pb)
    moreover have "isCanonicalPush OP_PUSHDATA2 data" using 3 by (simp add: isCanonicalPush_def)
    ultimately show ?thesis using parse_pushdata [of OP_PUSHDATA2 2 data] 3 sz
      by (intro exI [of _ OP_PUSHDATA2]) (simp add: opcode_length_def)
  next
    case 4
    have "push_bytes data = OP_PUSHDATA4 # le_bytes 4 (int ?n) @ data" using 4 by (simp add: pb)
    moreover have "isCanonicalPush OP_PUSHDATA4 data" using 4 by (simp add: isCanonicalPush_def)
    ultimately show ?thesis using parse_pushdata [of OP_PUSHDATA4 4 data] 4 sz assms(3)
      by (intro exI [of _ OP_PUSHDATA4]) (simp add: opcode_length_def)
  qed
qed

lemma small_token:
  assumes "data = [] \<or> length data = 1 \<and> (data ! 0 \<le> 16 \<or> data ! 0 = 0x81)"
  shows "\<exists>op. parse_op (push_bytes data) = Some (op, None, []) \<and> isCanonicalPush op [] \<and>
    pushedValue (op, None) = Some (if data = [0] then [] else data) \<and> length (push_bytes data) = canonicalDataSize data"
proof -
  consider "data = [] \<or> data = [0]" | x where "data = [x]" "x \<noteq> 0" "x \<le> 16" | "data = [0x81]"
    using assms by (cases data) (auto simp: length_Suc_conv)
  then show ?thesis
  proof cases
    case 1
    then have "push_bytes data = [OP_0]" by (auto simp: push_bytes_def addData_def)
    then show ?thesis using 1
      by (auto intro!: exI [of _ OP_0] simp: opcode_length_def isCanonicalPush_def pushedValue_def canonicalDataSize_def)
  next
    case 2
    have "uint x \<noteq> 0" and ux16: "uint x \<le> 16" using 2(2,3) by (simp_all add: word_le_def word_uint_eq_iff)
    moreover have "0 \<le> uint x" by simp
    ultimately have ux: "1 \<le> uint x" "uint x \<le> 16" by linarith+
    have u: "uint (OP_1 - 1 + x) = uint x + 80" using ux by (simp add: uint_word_ariths)
    have "push_bytes data = [OP_1 - 1 + x]" using 2 by (simp add: push_bytes_def addData_def)
    moreover have "opcode_length (OP_1 - 1 + x) = 1" "isCanonicalPush (OP_1 - 1 + x) []"
      using u ux by (simp_all add: opcode_length_def isCanonicalPush_def word_uint_eq_iff)
    moreover have "pushedValue (OP_1 - 1 + x, None) = Some [x]"
      using u ux by (simp add: pushedValue_def word_uint_eq_iff word_le_def)
    ultimately show ?thesis using 2 by (intro exI [of _ "OP_1 - 1 + x"]) (simp add: canonicalDataSize_def)
  next
    case 3
    then have "push_bytes data = [OP_1NEGATE]" by (simp add: push_bytes_def addData_def)
    then show ?thesis using 3
      by (intro exI [of _ OP_1NEGATE]) (simp add: opcode_length_def isCanonicalPush_def pushedValue_def canonicalDataSize_def)
  qed
qed


lemma push_parses:
  assumes "length data < 2 ^ 31"
  obtains op d where "parse_all (push_bytes data) = ([(op, d)], True)" "isCanonicalPush op (opt_data d)"
    "pushedValue (op, d) = Some (if data = [0] then [] else data)" "length (push_bytes data) = canonicalDataSize data"
proof (cases "data = [] \<or> length data = 1 \<and> (data ! 0 \<le> 16 \<or> data ! 0 = 0x81)")
  case True
  then obtain op where op: "parse_op (push_bytes data) = Some (op, None, [])" "isCanonicalPush op []"
    "pushedValue (op, None) = Some (if data = [0] then [] else data)" "length (push_bytes data) = canonicalDataSize data"
    using small_token by blast
  then have "push_bytes data \<noteq> []" by auto
  then show ?thesis using op by (intro that [of op None]) (simp_all add: parse_all.simps [of "push_bytes data"])
next
  case False
  then obtain op where op: "parse_op (push_bytes data) = Some (op, Some data, [])" "isCanonicalPush op data"
    "length (push_bytes data) = canonicalDataSize data"
    using push_token [of data] assms by blast
  then have "push_bytes data \<noteq> []" "data \<noteq> [0]" using False by auto
  then show ?thesis using op
    by (intro that [of op "Some data"]) (simp_all add: parse_all.simps [of "push_bytes data"] pushedValue_def)
qed

lemma tokens_append:
  assumes "checkScriptParses 0 s = None"
  shows "ops_of (fst (token_states (MakeScriptTokenizer 0 (s @ x)))) =
      ops_of (fst (token_states (MakeScriptTokenizer 0 s))) @ ops_of (fst (token_states (MakeScriptTokenizer 0 x)))"
    "checkScriptParses 0 (s @ x) = None \<longleftrightarrow> checkScriptParses 0 x = None"
  using assms parse_all_append [of s x] by (simp_all only: script_parse fst_conv snd_conv)

section \<open>Addresses\<close>

fun addr_ok :: "Address \<Rightarrow> bool" where
  "addr_ok (AddressPubKeyHash (Some h)) \<longleftrightarrow> length h = 20"
| "addr_ok (AddressScriptHash (Some h)) \<longleftrightarrow> length h = 20"
| "addr_ok (AddressPubKey (Some k)) \<longleftrightarrow> isStrictPubKeyEncoding k"
| "addr_ok (AddressWitnessPubKeyHash (Some h)) \<longleftrightarrow> length h = 20"
| "addr_ok (AddressWitnessScriptHash (Some h)) \<longleftrightarrow> length h = 32"
| "addr_ok (AddressTaproot (Some k)) \<longleftrightarrow> length k = 32"
| "addr_ok (AddressPayToAnchor (Some p)) \<longleftrightarrow> p = [0x4e, 0x73]"
| "addr_ok _ \<longleftrightarrow> False"

text \<open>The address a script of a class pays to, read with the extraction functions.\<close>

definition script_addr :: "bytes \<Rightarrow> Address" where
  "script_addr script =
     (case GetScriptClass script of
        PubKeyHashTy \<Rightarrow> AddressPubKeyHash (extractPubKeyHash script)
      | ScriptHashTy \<Rightarrow> AddressScriptHash (extractScriptHash script)
      | PubKeyTy \<Rightarrow> AddressPubKey (extractPubKey script)
      | WitnessV0PubKeyHashTy \<Rightarrow> AddressWitnessPubKeyHash (extractWitnessPubKeyHash script)
      | WitnessV0ScriptHashTy \<Rightarrow> AddressWitnessScriptHash (extractWitnessV0ScriptHash script)
      | WitnessV1TaprootTy \<Rightarrow> AddressTaproot (extractWitnessV1KeyBytes script)
      | PayToAnchorTy \<Rightarrow> AddressPayToAnchor (extractPayToAnchor script)
      | _ \<Rightarrow> AddressOther)"

lemma AddData_short:
  "sb_err b = None \<Longrightarrow> 2 \<le> length data \<Longrightarrow> length data \<le> 75 \<Longrightarrow> length (sb_script b) \<le> 100 \<Longrightarrow>
   AddData data b = b\<lparr>sb_script := sb_script b @ word_of_int (int (length data)) # data\<rparr>"
  by (auto simp: AddData_def addData_def canonicalDataSize_def MaxScriptSize_def MaxScriptElementSize_def Let_def)

lemma AddOp_short:
  "sb_err b = None \<Longrightarrow> length (sb_script b) \<le> 100 \<Longrightarrow> AddOp op b = b\<lparr>sb_script := sb_script b @ [op]\<rparr>"
  by (simp add: AddOp_def MaxScriptSize_def)

lemmas build_simps = Script_def NewScriptBuilder_def AddOp_short AddData_short

lemma paid_scripts:
  "length h = 20 \<Longrightarrow> payToPubKeyHashScript h = ([OP_DUP, OP_HASH160, OP_DATA_20] @ h @ [OP_EQUALVERIFY, OP_CHECKSIG], None)"
  "length h = 20 \<Longrightarrow> payToScriptHashScript h = ([OP_HASH160, OP_DATA_20] @ h @ [OP_EQUAL], None)"
  "length h = 20 \<Longrightarrow> payToWitnessPubKeyHashScript h = ([OP_0, OP_DATA_20] @ h, None)"
  "length w = 32 \<Longrightarrow> payToWitnessScriptHashScript w = ([OP_0, OP_DATA_32] @ w, None)"
  "length w = 32 \<Longrightarrow> payToWitnessTaprootScript w = ([OP_1, OP_DATA_32] @ w, None)"
  "length k = 33 \<Longrightarrow> payToPubKeyScript k = (OP_DATA_33 # k @ [OP_CHECKSIG], None)"
  "length k = 65 \<Longrightarrow> payToPubKeyScript k = (OP_DATA_65 # k @ [OP_CHECKSIG], None)"
  "payToAnchorScript [0x4e, 0x73] = ([OP_1, 0x02, 0x4e, 0x73], None)"
  by (simp_all add: payToPubKeyHashScript_def payToScriptHashScript_def payToWitnessPubKeyHashScript_def
      payToWitnessScriptHashScript_def payToWitnessTaprootScript_def payToPubKeyScript_def payToAnchorScript_def build_simps)


lemmas class_defs = GetScriptClass_def typeOfScript_def extractPubKey_def extractCompressedPubKey_def
  extractUncompressedPubKey_def extractPubKeyHash_def isScriptHashScript_def extractScriptHash_def
  extractWitnessPubKeyHash_def extractWitnessV0ScriptHash_def extractWitnessV1KeyBytes_def extractPayToAnchor_def

lemma p2pkh_addr:
  assumes "length h = 20" shows "script_addr ([OP_DUP, OP_HASH160, OP_DATA_20] @ h @ [OP_EQUALVERIFY, OP_CHECKSIG]) = AddressPubKeyHash (Some h)"
  using assms by (simp add: script_addr_def class_defs nth_append nth_Cons')

lemma p2sh_addr:
  assumes "length h = 20" shows "script_addr ([OP_HASH160, OP_DATA_20] @ h @ [OP_EQUAL]) = AddressScriptHash (Some h)"
  using assms by (simp add: script_addr_def class_defs nth_append nth_Cons')

lemma p2wpkh_addr:
  assumes "length h = 20" shows "script_addr ([OP_0, OP_DATA_20] @ h) = AddressWitnessPubKeyHash (Some h)"
  using assms by (simp add: script_addr_def class_defs)

lemma p2wsh_addr:
  assumes "length w = 32" shows "script_addr ([OP_0, OP_DATA_32] @ w) = AddressWitnessScriptHash (Some w)"
  using assms by (simp add: script_addr_def class_defs)

lemma p2pk_addr:
  assumes "isStrictPubKeyEncoding k"
  shows "script_addr ((if length k = 33 then OP_DATA_33 else OP_DATA_65) # k @ [OP_CHECKSIG]) = AddressPubKey (Some k)"
  using assms by (auto simp: script_addr_def class_defs isStrictPubKeyEncoding_def nth_append nth_Cons')

lemma anchor_addr: "script_addr [OP_1, 0x02, 0x4e, 0x73] = AddressPayToAnchor (Some [0x4e, 0x73])"
  by (simp add: script_addr_def class_defs isMultisigScript_def extractMultisigScriptDetails_def no_multisig_def isNullDataScript_def)

lemma taproot_not_multisig:
  assumes "length w = 32" shows "\<not> isMultisigScript 0 ([OP_1, OP_DATA_32] @ w)"
proof -
  let ?s = "[OP_1, OP_DATA_32] @ w"
  define t1 where "t1 = \<lparr>tk_script = ?s, tk_offset = 1, tk_opcodePos = 0, tk_op = OP_1, tk_data = None, tk_err = None\<rparr>"
  define t2 where "t2 = t1\<lparr>tk_offset := 34, tk_opcodePos := 1, tk_op := OP_DATA_32, tk_data := Some w\<rparr>"
  have 1: "Next (MakeScriptTokenizer 0 ?s) = (True, t1)"
    by (subst Next_parse) (simp_all add: MakeScriptTokenizer_def Done_def opcode_length_def t1_def)
  have 2: "Next t1 = (True, t2)"
    using assms by (subst Next_parse) (simp_all add: Done_def opcode_length_def t1_def t2_def)
  have d: "Done t2" using assms by (simp add: Done_def t2_def t1_def)
  have 3: "Next t2 = (False, t2)" using d by (simp add: Next_def)
  have "multisig_loop False t1 0 [] = (t2, 1, [])"
    by (subst multisig_loop.simps, subst multisig_loop.simps) (simp add: 2 3, simp add: t2_def IsSmallInt_def)
  then show ?thesis using d by (simp add: isMultisigScript_def extractMultisigScriptDetails_def 1 no_multisig_def del: append.simps)
qed

lemma taproot_addr:
  assumes "length w = 32" shows "script_addr ([OP_1, OP_DATA_32] @ w) = AddressTaproot (Some w)"
  using assms taproot_not_multisig [OF assms] by (simp add: script_addr_def class_defs isNullDataScript_def)

section \<open>Properties\<close>

text \<open>
  C22. A script that parses is the concatenation of its tokens, and both removal functions keep,
  in order, exactly the tokens that do not match: those with another opcode, and those that are
  not a canonical push of the data.
\<close>

theorem removal_keeps_tokens:
  assumes "checkScriptParses 0 script = None" and "dataToRemove \<noteq> []"
  shows "let tokens = ops_of (fst (token_states (MakeScriptTokenizer 0 script)));
             pushed = (\<lambda>(op, d). isCanonicalPush op (opt_data d) \<and> opt_data d = dataToRemove);
             write = (\<lambda>ts. concat (map (\<lambda>(op, d). tokenBytes op d) ts))
         in script = write tokens \<and>
            removeOpcodeRaw script opcode = write (filter (\<lambda>(op, d). op \<noteq> opcode) tokens) \<and>
            removeOpcodeByData script dataToRemove = (write (filter (\<lambda>t. \<not> pushed t) tokens), list_ex pushed tokens)"
proof -
  have p: "snd (parse_all script)" using assms(1) script_parse(2) by simp
  have n: "(\<lambda>(op, d :: bytes option). op \<noteq> opcode) = (\<lambda>x. \<not> (case x of (op, _) \<Rightarrow> op = opcode))" by auto
  show ?thesis
    unfolding Let_def script_parse(1) n removeOpcodeRaw_kept removeOpcodeByData_kept [OF assms(2)] kept_all [OF p]
      data_match_def [symmetric] list_ex_iff
    using tokens_write [OF p] by simp
qed

theorem removal_keeps_tokens_witness:
  "removeOpcodeRaw [OP_DUP, 0x01, 0xab, OP_DUP] OP_DUP = [0x01, 0xab] \<and>
   removeOpcodeByData [OP_DUP, 0x01, 0xab, OP_DUP] [0xab] = ([OP_DUP, OP_DUP], True)"
proof -
  have "parse_all [OP_DUP, 0x01, 0xab, OP_DUP] = ([(OP_DUP, None), (0x01, Some [0xab]), (OP_DUP, None)], True)"
    by (simp add: parse_all.simps opcode_length_def)
  then show ?thesis
    using removal_keeps_tokens [of "[OP_DUP, 0x01, 0xab, OP_DUP]" "[0xab]" OP_DUP]
    by (simp add: script_parse tokenBytes_def opcode_length_def isCanonicalPush_def)
qed

text \<open>
  C23. \<^verbatim>\<open>AddData\<close> within the limits appends one token, a canonical push whose value is the data, in
  the number of bytes that \<^verbatim>\<open>canonicalDataSize\<close> announces. The one exception is the single byte
  0: it is written as \<^verbatim>\<open>OP_0\<close>, which pushes the empty string.
\<close>

theorem AddData_push:
  assumes "sb_err b = None" "checkScriptParses 0 (sb_script b) = None" "length data \<le> MaxScriptElementSize"
    "length (sb_script b) + canonicalDataSize data \<le> MaxScriptSize"
  shows "\<exists>op d. sb_err (AddData data b) = None \<and>
    ops_of (fst (token_states (MakeScriptTokenizer 0 (sb_script (AddData data b))))) =
       ops_of (fst (token_states (MakeScriptTokenizer 0 (sb_script b)))) @ [(op, d)] \<and>
    checkScriptParses 0 (sb_script (AddData data b)) = None \<and>
    isCanonicalPush op (opt_data d) \<and> pushedValue (op, d) = Some (if data = [0] then [] else data) \<and>
    length (sb_script (AddData data b)) = length (sb_script b) + canonicalDataSize data"
proof -
  have b: "AddData data b = b\<lparr>sb_script := sb_script b @ push_bytes data\<rparr>"
    using assms by (simp add: AddData_def addData_push)
  have "length data < 2 ^ 31" using assms(3) by (simp add: MaxScriptElementSize_def)
  then obtain op d where p: "parse_all (push_bytes data) = ([(op, d)], True)" "isCanonicalPush op (opt_data d)"
    "pushedValue (op, d) = Some (if data = [0] then [] else data)" "length (push_bytes data) = canonicalDataSize data"
    by (rule push_parses)
  show ?thesis
    by (rule exI [of _ op], rule exI [of _ d]) (use assms(1,2) p tokens_append [OF assms(2), of "push_bytes data"] in \<open>simp_all add: b script_parse\<close>)
qed

theorem AddData_push_witness:
  "\<exists>op d. sb_err (AddData [7, 8] NewScriptBuilder) = None \<and>
    ops_of (fst (token_states (MakeScriptTokenizer 0 (sb_script (AddData [7, 8] NewScriptBuilder))))) =
       ops_of (fst (token_states (MakeScriptTokenizer 0 (sb_script NewScriptBuilder)))) @ [(op, d)] \<and>
    checkScriptParses 0 (sb_script (AddData [7, 8] NewScriptBuilder)) = None \<and>
    isCanonicalPush op (opt_data d) \<and> pushedValue (op, d) = Some [7, 8] \<and>
    length (sb_script (AddData [7, 8] NewScriptBuilder)) = length (sb_script NewScriptBuilder) + canonicalDataSize [7, 8]"
  using AddData_push [of NewScriptBuilder "[7, 8]"]
  by (simp add: NewScriptBuilder_def script_parse MaxScriptElementSize_def MaxScriptSize_def canonicalDataSize_def)

text \<open>
  The payment script of an address, for each of the seven kinds of addresses with a payload of
  the right form, is classified as the kind of the address and gives the payload back.
\<close>

lemma PayToAddrScript_roundtrip:
  "addr_ok addr \<Longrightarrow> snd (PayToAddrScript addr) = None \<and> script_addr (fst (PayToAddrScript addr)) = addr"
proof (induction addr rule: addr_ok.induct)
  case (3 k)
  then have "length k = 33 \<or> length k = 65" by (auto simp: isStrictPubKeyEncoding_def)
  then show ?case using p2pk_addr [of k] 3 by (auto simp: PayToAddrScript_def paid_scripts)
qed (simp_all only: addr_ok.simps PayToAddrScript_def Address.case option.case paid_scripts fst_conv snd_conv
       p2pkh_addr p2sh_addr p2wpkh_addr p2wsh_addr taproot_addr anchor_addr simp_thms)

end
