(* ===== verification/Utxo.thy ===== *)
theory Utxo
  imports StakeIndex ScriptBuild
begin

text \<open>
  Views of the unspent outputs, \<^verbatim>\<open>blockchain/utxoviewpoint.go\<close>: the effect of connecting and of
  disconnecting transactions. A view maps outpoints to pointers to entries; a key with a nil pointer
  differs from a missing key, so the map has values of type \<^verbatim>\<open>UtxoEntry option\<close>.

  An entry stands for a coin while it is not spent. The coins of a view over a base set refine a
  map from outpoints to coins: connecting removes the coins of the inputs and adds the spendable
  outputs, and disconnecting with the journal of spent outputs takes this back.
\<close>

section \<open>Model\<close>

definition isNullOutpoint :: "OutPoint \<Rightarrow> bool" where
  "isNullOutpoint outpoint \<longleftrightarrow> op_Index outpoint = 2 ^ 32 - 1 \<and> op_Hash outpoint = replicate 32 0"

definition IsCoinBaseTx :: "MsgTx \<Rightarrow> bool" where
  "IsCoinBaseTx msgTx \<longleftrightarrow>
     (if length (tx_TxIn msgTx) \<noteq> 1 then False
      else
        let prevOut = ti_PreviousOutPoint (tx_TxIn msgTx ! 0) in
        \<not> (op_Index prevOut \<noteq> 2 ^ 32 - 1 \<or> op_Hash prevOut \<noteq> replicate 32 0))"

subsection \<open>Entries\<close>

abbreviation tfCoinBase :: byte where "tfCoinBase \<equiv> 1"
abbreviation tfSpent :: byte where "tfSpent \<equiv> 2"
abbreviation tfModified :: byte where "tfModified \<equiv> 4"
abbreviation tfFresh :: byte where "tfFresh \<equiv> 8"

record UtxoEntry =
  ue_amount :: int
  ue_pkScript :: bytes
  ue_blockHeight :: int
  ue_packedFlags :: byte

record SpentTxOut =
  so_Amount :: int
  so_PkScript :: bytes
  so_Height :: int
  so_IsCoinBase :: bool

definition isModified :: "UtxoEntry \<Rightarrow> bool" where
  "isModified entry \<longleftrightarrow> and (ue_packedFlags entry) tfModified = tfModified"

definition isFresh :: "UtxoEntry \<Rightarrow> bool" where
  "isFresh entry \<longleftrightarrow> and (ue_packedFlags entry) tfFresh = tfFresh"

definition IsCoinBase :: "UtxoEntry \<Rightarrow> bool" where
  "IsCoinBase entry \<longleftrightarrow> and (ue_packedFlags entry) tfCoinBase = tfCoinBase"

definition IsSpent :: "UtxoEntry \<Rightarrow> bool" where
  "IsSpent entry \<longleftrightarrow> and (ue_packedFlags entry) tfSpent = tfSpent"

definition Spend :: "UtxoEntry \<Rightarrow> UtxoEntry" where
  "Spend entry =
     (if IsSpent entry then entry
      else entry\<lparr>ue_packedFlags := or (ue_packedFlags entry) (or tfSpent tfModified)\<rparr>)"

definition NewUtxoEntry :: "TxOut \<Rightarrow> int \<Rightarrow> bool \<Rightarrow> UtxoEntry" where
  "NewUtxoEntry txOut blockHeight isCoinbase =
     \<lparr>ue_amount = to_Value txOut, ue_pkScript = to_PkScript txOut, ue_blockHeight = blockHeight,
      ue_packedFlags = (if isCoinbase then tfCoinBase else 0)\<rparr>"

definition toSpentTxOut :: "UtxoEntry \<Rightarrow> SpentTxOut" where
  "toSpentTxOut entry =
     \<lparr>so_Amount = ue_amount entry, so_PkScript = ue_pkScript entry, so_Height = ue_blockHeight entry,
      so_IsCoinBase = IsCoinBase entry\<rparr>"

subsection \<open>Views\<close>

record UtxoViewpoint =
  uv_entries :: "OutPoint \<rightharpoonup> UtxoEntry option"
  uv_bestHash :: bytes

definition NewUtxoViewpoint :: UtxoViewpoint where
  "NewUtxoViewpoint = \<lparr>uv_entries = Map.empty, uv_bestHash = replicate 32 0\<rparr>"

definition LookupEntry :: "UtxoViewpoint \<Rightarrow> OutPoint \<Rightarrow> UtxoEntry option" where
  "LookupEntry view outpoint = (case uv_entries view outpoint of None \<Rightarrow> None | Some entry \<Rightarrow> entry)"

definition FetchPrevOutput :: "UtxoViewpoint \<Rightarrow> OutPoint \<Rightarrow> TxOut option" where
  "FetchPrevOutput view op =
     (case LookupEntry view op of
        None \<Rightarrow> None
      | Some prevOut \<Rightarrow> Some \<lparr>to_Value = ue_amount prevOut, to_PkScript = ue_pkScript prevOut\<rparr>)"

abbreviation put_entry :: "OutPoint \<Rightarrow> UtxoEntry option \<Rightarrow> UtxoViewpoint \<Rightarrow> UtxoViewpoint" where
  "put_entry outpoint entry view \<equiv> view\<lparr>uv_entries := (uv_entries view)(outpoint \<mapsto> entry)\<rparr>"

definition addTxOut :: "OutPoint \<Rightarrow> TxOut \<Rightarrow> bool \<Rightarrow> int \<Rightarrow> UtxoViewpoint \<Rightarrow> UtxoViewpoint" where
  "addTxOut outpoint txOut isCoinBase blockHeight view =
     (if IsUnspendable (to_PkScript txOut) then view
      else put_entry outpoint (Some
        \<lparr>ue_amount = to_Value txOut, ue_pkScript = to_PkScript txOut, ue_blockHeight = blockHeight,
         ue_packedFlags = (if isCoinBase then or (or tfFresh tfModified) tfCoinBase else or tfFresh tfModified)\<rparr>) view)"

definition AddTxOut :: "MsgTx \<Rightarrow> int \<Rightarrow> int \<Rightarrow> UtxoViewpoint \<Rightarrow> UtxoViewpoint" where
  "AddTxOut tx txOutIdx blockHeight view =
     (if txOutIdx \<ge> u32 (int (length (tx_TxOut tx))) then view
      else addTxOut \<lparr>op_Hash = TxHash tx, op_Index = txOutIdx\<rparr> (tx_TxOut tx ! nat txOutIdx) (IsCoinBaseTx tx) blockHeight view)"

definition AddTxOuts :: "MsgTx \<Rightarrow> int \<Rightarrow> UtxoViewpoint \<Rightarrow> UtxoViewpoint" where
  "AddTxOuts tx blockHeight view =
     foldl (\<lambda>view (txOutIdx, txOut).
         addTxOut \<lparr>op_Hash = TxHash tx, op_Index = u32 (int txOutIdx)\<rparr> txOut (IsCoinBaseTx tx) blockHeight view)
       view (List.enumerate 0 (tx_TxOut tx))"

text \<open>The loop over the inputs; \<open>stxos\<close> is None for a nil pointer.\<close>

primrec connect_ins :: "TxIn list \<Rightarrow> UtxoViewpoint \<Rightarrow> SpentTxOut list option \<Rightarrow> (UtxoViewpoint \<times> SpentTxOut list option) result" where
  "connect_ins [] view stxos = Inr (view, stxos)"
| "connect_ins (txIn # txIns) view stxos =
     (if IsPoolDrawSentinelInput txIn then connect_ins txIns view stxos
      else case LookupEntry view (ti_PreviousOutPoint txIn) of
        None \<Rightarrow> Inl AssertError
      | Some entry \<Rightarrow>
          connect_ins txIns (put_entry (ti_PreviousOutPoint txIn) (Some (Spend entry)) view)
            (case stxos of None \<Rightarrow> None | Some s \<Rightarrow> Some (s @ [toSpentTxOut entry])))"

definition connectTransaction ::
  "MsgTx \<Rightarrow> int \<Rightarrow> UtxoViewpoint \<times> SpentTxOut list option \<Rightarrow> (UtxoViewpoint \<times> SpentTxOut list option) result" where
  "connectTransaction tx blockHeight vs =
     (case vs of (view, stxos) \<Rightarrow>
        if IsCoinBaseTx tx then Inr (AddTxOuts tx blockHeight view, stxos)
        else if IsVDFResultTx tx then Inr (AddTxOuts tx blockHeight view, stxos)
        else rbind (connect_ins (tx_TxIn tx) view stxos) (\<lambda>(view, stxos). Inr (AddTxOuts tx blockHeight view, stxos)))"

primrec connect_txs ::
  "MsgTx list \<Rightarrow> int \<Rightarrow> UtxoViewpoint \<times> SpentTxOut list option \<Rightarrow> (UtxoViewpoint \<times> SpentTxOut list option) result" where
  "connect_txs [] blockHeight vs = Inr vs"
| "connect_txs (tx # txs) blockHeight vs = rbind (connectTransaction tx blockHeight vs) (connect_txs txs blockHeight)"

definition connectTransactions ::
  "Block \<Rightarrow> UtxoViewpoint \<times> SpentTxOut list option \<Rightarrow> (UtxoViewpoint \<times> SpentTxOut list option) result" where
  "connectTransactions block vs =
     rbind (connect_txs (mb_Transactions (blk_msg block)) (blk_height block) vs) (\<lambda>(view, stxos).
     Inr (view\<lparr>uv_bestHash := BlockHash (mb_Header (blk_msg block))\<rparr>, stxos))"

subsection \<open>Disconnecting\<close>

definition countSpentOutputs :: "Block \<Rightarrow> nat result" where
  "countSpentOutputs block =
     (case mb_Transactions (blk_msg block) of
        [] \<Rightarrow> Inl Panic
      | _ # txs \<Rightarrow>
          Inr (foldl (\<lambda>numSpent tx.
                 if IsVDFResultTx tx then numSpent
                 else numSpent + length (filter (\<lambda>txIn. \<not> IsPoolDrawSentinelInput txIn) (tx_TxIn tx))) 0 txs))"

definition MaxOutputsPerBlock :: nat where "MaxOutputsPerBlock = 20000000 div (4 * 9)"

text \<open>\<open>dbByHash\<close> is the database lookup of an entry by transaction hash.\<close>

definition fetchEntryByHash :: "(bytes \<Rightarrow> UtxoEntry option result) \<Rightarrow> bytes \<Rightarrow> UtxoViewpoint \<Rightarrow> UtxoEntry option result" where
  "fetchEntryByHash dbByHash hash view =
     (case List.find (\<lambda>idx. LookupEntry view \<lparr>op_Hash = hash, op_Index = int idx\<rparr> \<noteq> None) [0..<MaxOutputsPerBlock] of
        Some idx \<Rightarrow> Inr (LookupEntry view \<lparr>op_Hash = hash, op_Index = int idx\<rparr>)
      | None \<Rightarrow> dbByHash hash)"

definition disconnect_outs :: "MsgTx \<Rightarrow> int \<Rightarrow> bool \<Rightarrow> UtxoViewpoint \<Rightarrow> UtxoViewpoint" where
  "disconnect_outs tx blockHeight isCoinBase view =
     foldl (\<lambda>view (txOutIdx, txOut).
         if IsUnspendable (to_PkScript txOut) then view
         else
           let prevOut = \<lparr>op_Hash = TxHash tx, op_Index = u32 (int txOutIdx)\<rparr>;
               entry = (case LookupEntry view prevOut of
                          Some entry \<Rightarrow> entry
                        | None \<Rightarrow> \<lparr>ue_amount = to_Value txOut, ue_pkScript = to_PkScript txOut, ue_blockHeight = blockHeight,
                                   ue_packedFlags = (if isCoinBase then tfCoinBase else 0)\<rparr>)
           in put_entry prevOut (Some (Spend entry)) view)
       view (List.enumerate 0 (tx_TxOut tx))"

text \<open>
  The loop over the inputs runs backwards, and so does the index into the journal: the arguments are
  the inputs and the journal entries that remain, both last first. The legacy branch reads the entry of
  the spending transaction.
\<close>

primrec disconnect_ins ::
  "(bytes \<Rightarrow> UtxoEntry option result) \<Rightarrow> MsgTx \<Rightarrow> TxIn list \<Rightarrow> UtxoViewpoint \<times> SpentTxOut list \<Rightarrow> (UtxoViewpoint \<times> SpentTxOut list) result" where
  "disconnect_ins dbByHash tx [] vs = Inr vs"
| "disconnect_ins dbByHash tx (txIn # txIns) vs =
     (if IsPoolDrawSentinelInput txIn \<or> IsVDFResultTx tx then disconnect_ins dbByHash tx txIns vs
      else case vs of (view, stxos) \<Rightarrow>
        (case stxos of
           [] \<Rightarrow> Inl Panic
         | stxo # stxos \<Rightarrow>
             let originOut = ti_PreviousOutPoint txIn;
                 view = (if LookupEntry view originOut = None
                         then put_entry originOut (Some \<lparr>ue_amount = 0, ue_pkScript = [], ue_blockHeight = 0, ue_packedFlags = 0\<rparr>) view
                         else view)
             in
             rbind (if so_Height stxo = 0 then
                      rbind (fetchEntryByHash dbByHash (TxHash tx) view) (\<lambda>utxo.
                        case utxo of None \<Rightarrow> Inl AssertError
                        | Some utxo \<Rightarrow> Inr (stxo\<lparr>so_Height := ue_blockHeight utxo, so_IsCoinBase := IsCoinBase utxo\<rparr>))
                    else Inr stxo) (\<lambda>stxo.
             disconnect_ins dbByHash tx txIns
               (put_entry originOut (Some
                  \<lparr>ue_amount = so_Amount stxo, ue_pkScript = so_PkScript stxo, ue_blockHeight = so_Height stxo,
                   ue_packedFlags = (if so_IsCoinBase stxo then or tfModified tfCoinBase else tfModified)\<rparr>) view, stxos))))"

primrec disconnect_txs ::
  "(bytes \<Rightarrow> UtxoEntry option result) \<Rightarrow> int \<Rightarrow> (nat \<times> MsgTx) list \<Rightarrow> UtxoViewpoint \<times> SpentTxOut list \<Rightarrow> UtxoViewpoint result" where
  "disconnect_txs dbByHash blockHeight [] vs = Inr (fst vs)"
| "disconnect_txs dbByHash blockHeight (itx # itxs) vs =
     (case (itx, vs) of ((txIdx, tx), (view, stxos)) \<Rightarrow>
        let isCoinBase = (txIdx = 0); view = disconnect_outs tx blockHeight isCoinBase view in
        if isCoinBase then disconnect_txs dbByHash blockHeight itxs (view, stxos)
        else rbind (disconnect_ins dbByHash tx (rev (tx_TxIn tx)) (view, stxos)) (disconnect_txs dbByHash blockHeight itxs))"

definition disconnectTransactions ::
  "(bytes \<Rightarrow> UtxoEntry option result) \<Rightarrow> Block \<Rightarrow> SpentTxOut list \<Rightarrow> UtxoViewpoint \<Rightarrow> UtxoViewpoint result" where
  "disconnectTransactions dbByHash block stxos view =
     rbind (countSpentOutputs block) (\<lambda>n.
     if length stxos \<noteq> n then Inl AssertError
     else
       rbind (disconnect_txs dbByHash (blk_height block) (rev (List.enumerate 0 (mb_Transactions (blk_msg block)))) (view, rev stxos))
         (\<lambda>view. Inr (view\<lparr>uv_bestHash := bh_PrevBlock (mb_Header (blk_msg block))\<rparr>)))"

subsection \<open>Committing and fetching\<close>

definition RemoveEntry :: "OutPoint \<Rightarrow> UtxoViewpoint \<Rightarrow> UtxoViewpoint" where
  "RemoveEntry outpoint view = view\<lparr>uv_entries := (uv_entries view)(outpoint := None)\<rparr>"

definition commit :: "UtxoViewpoint \<Rightarrow> UtxoViewpoint" where
  "commit view = view\<lparr>uv_entries := (\<lambda>outpoint.
     case uv_entries view outpoint of
       Some (Some entry) \<Rightarrow>
         if isModified entry \<and> IsSpent entry then None
         else Some (Some (entry\<lparr>ue_packedFlags := xor (ue_packedFlags entry) tfModified\<rparr>))
     | _ \<Rightarrow> None)\<rparr>"

text \<open>
  \<open>txInFlight\<close> keeps the last index of a transaction hash. The index \<open>i\<close> of the loop counts from the
  second transaction.
\<close>

definition txInFlight :: "MsgTx list \<Rightarrow> bytes \<rightharpoonup> nat" where
  "txInFlight txs = map_of (rev (map (\<lambda>(i, tx). (TxHash tx, i)) (List.enumerate 0 txs)))"

definition findInputsToFetch :: "Block \<Rightarrow> UtxoViewpoint \<Rightarrow> (UtxoViewpoint \<times> OutPoint list) result" where
  "findInputsToFetch block view =
     (let transactions = mb_Transactions (blk_msg block) in
      if transactions = [] then Inl Panic
      else Inr (foldl (\<lambda>acc (i, tx).
          if IsDrawSettlementTx tx \<or> IsVDFResultTx tx then acc
          else foldl (\<lambda>(view, needed) txIn.
              case txInFlight transactions (op_Hash (ti_PreviousOutPoint txIn)) of
                Some inFlightIndex \<Rightarrow>
                  if i \<ge> inFlightIndex then (AddTxOuts (transactions ! inFlightIndex) (blk_height block) view, needed)
                  else if uv_entries view (ti_PreviousOutPoint txIn) \<noteq> None then (view, needed)
                  else (view, needed @ [ti_PreviousOutPoint txIn])
              | None \<Rightarrow>
                  if uv_entries view (ti_PreviousOutPoint txIn) \<noteq> None then (view, needed)
                  else (view, needed @ [ti_PreviousOutPoint txIn])) acc (tx_TxIn tx))
        (view, []) (List.enumerate 0 (tl transactions))))"

section \<open>Flags\<close>

lemma flag_bits:
  "isModified e \<longleftrightarrow> bit (ue_packedFlags e) 2" "isFresh e \<longleftrightarrow> bit (ue_packedFlags e) 3"
  "IsCoinBase e \<longleftrightarrow> bit (ue_packedFlags e) 0" "IsSpent e \<longleftrightarrow> bit (ue_packedFlags e) 1"
  using and_exp_iff [of 2] and_exp_iff [of 3] and_exp_iff [of 0] and_exp_iff [of 1]
  by (simp_all add: isModified_def isFresh_def IsCoinBase_def IsSpent_def)

lemma Spend_flags [simp]:
  "IsSpent (Spend e)" "IsCoinBase (Spend e) = IsCoinBase e" "ue_amount (Spend e) = ue_amount e"
  "ue_pkScript (Spend e) = ue_pkScript e" "ue_blockHeight (Spend e) = ue_blockHeight e"
  by (simp_all add: Spend_def flag_bits bit_or_iff)

section \<open>Coins\<close>

text \<open>The coins of a view over a base: entries of the view hide the base.\<close>

definition coin :: "UtxoEntry \<Rightarrow> SpentTxOut option" where
  "coin e = (if IsSpent e then None else Some (toSpentTxOut e))"

definition coins :: "(OutPoint \<rightharpoonup> SpentTxOut) \<Rightarrow> UtxoViewpoint \<Rightarrow> OutPoint \<rightharpoonup> SpentTxOut" where
  "coins base v = (\<lambda>outpoint. case LookupEntry v outpoint of Some e \<Rightarrow> coin e | None \<Rightarrow> base outpoint)"

lemma LookupEntry_put [simp]: "LookupEntry (put_entry outpoint e v) x = (if x = outpoint then e else LookupEntry v x)"
  by (simp add: LookupEntry_def)

lemma coins_put [simp]: "coins base (put_entry outpoint (Some e) v) = (coins base v)(outpoint := coin e)"
  by (auto simp: coins_def)

lemma coin_Spend [simp]: "coin (Spend e) = None"
  by (simp add: coin_def)

text \<open>The contract: what a transaction does to the coins.\<close>

definition out_coin :: "MsgTx \<Rightarrow> int \<Rightarrow> TxOut \<Rightarrow> SpentTxOut" where
  "out_coin tx h out = \<lparr>so_Amount = to_Value out, so_PkScript = to_PkScript out, so_Height = h, so_IsCoinBase = IsCoinBaseTx tx\<rparr>"

definition spendable_outs :: "MsgTx \<Rightarrow> (OutPoint \<times> TxOut) list" where
  "spendable_outs tx = map (\<lambda>(i, out). (\<lparr>op_Hash = TxHash tx, op_Index = u32 (int i)\<rparr>, out))
     (filter (\<lambda>(i, out). \<not> IsUnspendable (to_PkScript out)) (List.enumerate 0 (tx_TxOut tx)))"

definition add_outs :: "MsgTx \<Rightarrow> int \<Rightarrow> (OutPoint \<rightharpoonup> SpentTxOut) \<Rightarrow> (OutPoint \<rightharpoonup> SpentTxOut)" where
  "add_outs tx h c = foldl (\<lambda>c (x, out). c(x \<mapsto> out_coin tx h out)) c (spendable_outs tx)"

definition spent_ops :: "MsgTx \<Rightarrow> OutPoint list" where
  "spent_ops tx = (if IsCoinBaseTx tx \<or> IsVDFResultTx tx then []
     else map ti_PreviousOutPoint (filter (\<lambda>txIn. \<not> IsPoolDrawSentinelInput txIn) (tx_TxIn tx)))"

definition apply_tx :: "int \<Rightarrow> MsgTx \<Rightarrow> (OutPoint \<rightharpoonup> SpentTxOut) \<Rightarrow> (OutPoint \<rightharpoonup> SpentTxOut)" where
  "apply_tx h tx c = add_outs tx h (c |` (- set (spent_ops tx)))"

lemma coins_addTxOut: "coins base (addTxOut x out cb h v) =
    (if IsUnspendable (to_PkScript out) then coins base v
     else (coins base v)(x \<mapsto> \<lparr>so_Amount = to_Value out, so_PkScript = to_PkScript out, so_Height = h, so_IsCoinBase = cb\<rparr>))"
  by (simp add: addTxOut_def coin_def toSpentTxOut_def flag_bits)

lemma coins_AddTxOuts: "coins base (AddTxOuts tx h v) = add_outs tx h (coins base v)"
proof -
  have "coins base (foldl (\<lambda>view (i, out). addTxOut \<lparr>op_Hash = TxHash tx, op_Index = u32 (int i)\<rparr> out (IsCoinBaseTx tx) h view) v os) =
    foldl (\<lambda>c (x, out). c(x \<mapsto> out_coin tx h out)) (coins base v)
      (map (\<lambda>(i, out). (\<lparr>op_Hash = TxHash tx, op_Index = u32 (int i)\<rparr>, out)) (filter (\<lambda>(i, out). \<not> IsUnspendable (to_PkScript out)) os))" for os
    by (induction os arbitrary: v) (auto simp: coins_addTxOut out_coin_def split: prod.splits)
  then show ?thesis by (simp add: AddTxOuts_def add_outs_def spendable_outs_def)
qed

lemma connect_ins_coins:
  "connect_ins ins v st = Inr (v', st') \<Longrightarrow>
   coins base v' = coins base v |` (- (ti_PreviousOutPoint ` {i \<in> set ins. \<not> IsPoolDrawSentinelInput i})) \<and>
   (st = None \<longleftrightarrow> st' = None)"
proof (induction ins arbitrary: v st)
  case (Cons i ins)
  show ?case
  proof (cases "IsPoolDrawSentinelInput i")
    case True
    moreover have "{j \<in> set (i # ins). \<not> IsPoolDrawSentinelInput j} = {j \<in> set ins. \<not> IsPoolDrawSentinelInput j}" using True by auto
    ultimately show ?thesis using Cons by simp
  next
    case False
    then obtain e where e: "LookupEntry v (ti_PreviousOutPoint i) = Some e"
      using Cons.prems by (auto split: option.splits)
    have s: "{j \<in> set (i # ins). \<not> IsPoolDrawSentinelInput j} = insert i {j \<in> set ins. \<not> IsPoolDrawSentinelInput j}" using False by auto
    have "connect_ins ins (put_entry (ti_PreviousOutPoint i) (Some (Spend e)) v)
       (case st of None \<Rightarrow> None | Some s \<Rightarrow> Some (s @ [toSpentTxOut e])) = Inr (v', st')"
      using Cons.prems False e by simp
    from Cons.IH [OF this] show ?thesis unfolding s
      by (auto simp: fun_eq_iff restrict_map_def split: option.splits)
  qed
qed (simp add: restrict_map_def)

lemma connectTransaction_coins:
  assumes "connectTransaction tx h (v, st) = Inr (v', st')"
  shows "coins base v' = apply_tx h tx (coins base v)"
proof (cases "IsCoinBaseTx tx \<or> IsVDFResultTx tx")
  case True
  then show ?thesis using assms
    by (auto simp: connectTransaction_def apply_tx_def spent_ops_def coins_AddTxOuts restrict_map_def split: if_splits)
next
  case False
  then obtain v1 where 1: "connect_ins (tx_TxIn tx) v st = Inr (v1, st')" "v' = AddTxOuts tx h v1"
    using assms by (auto simp: connectTransaction_def rbind_eq_Inr)
  have s: "set (spent_ops tx) = ti_PreviousOutPoint ` {i \<in> set (tx_TxIn tx). \<not> IsPoolDrawSentinelInput i}"
    using False by (auto simp: spent_ops_def)
  then show ?thesis using connect_ins_coins [OF 1(1), of base] 1(2) by (simp add: apply_tx_def coins_AddTxOuts)
qed

lemma connect_txs_coins:
  "connect_txs txs h (v, st) = Inr (v', st') \<Longrightarrow> coins base v' = fold (apply_tx h) txs (coins base v)"
proof (induction txs arbitrary: v st)
  case (Cons tx txs)
  then obtain v1 s1 where "connectTransaction tx h (v, st) = Inr (v1, s1)" "connect_txs txs h (v1, s1) = Inr (v', st')"
    by (auto simp: rbind_eq_Inr)
  then show ?case using Cons.IH connectTransaction_coins by simp
qed simp


section \<open>The journal\<close>

primrec journal :: "int \<Rightarrow> MsgTx list \<Rightarrow> (OutPoint \<rightharpoonup> SpentTxOut) \<Rightarrow> SpentTxOut list" where
  "journal h [] c = []"
| "journal h (tx # txs) c = map (\<lambda>x. the (c x)) (spent_ops tx) @ journal h txs (apply_tx h tx c)"

text \<open>
  A transaction is spendable at a set of coins when its inputs are distinct coins that were created above
  height 0 and none of its outputs is a coin already. This is what the validation of a block checks for
  each of its transactions.
\<close>

definition spendable_tx :: "MsgTx \<Rightarrow> (OutPoint \<rightharpoonup> SpentTxOut) \<Rightarrow> bool" where
  "spendable_tx tx c \<longleftrightarrow>
     distinct (spent_ops tx) \<and>
     list_all (\<lambda>x. case c x of Some s \<Rightarrow> so_Height s \<noteq> 0 | None \<Rightarrow> False) (spent_ops tx) \<and>
     list_all (\<lambda>(x, out). c x = None) (spendable_outs tx)"

primrec spendable_txs :: "int \<Rightarrow> MsgTx list \<Rightarrow> (OutPoint \<rightharpoonup> SpentTxOut) \<Rightarrow> bool" where
  "spendable_txs h [] c \<longleftrightarrow> True"
| "spendable_txs h (tx # txs) c \<longleftrightarrow> spendable_tx tx c \<and> spendable_txs h txs (apply_tx h tx c)"

definition coinbase_first :: "MsgTx list \<Rightarrow> bool" where
  "coinbase_first txs \<longleftrightarrow> (case txs of [] \<Rightarrow> True | tx # rest \<Rightarrow> IsCoinBaseTx tx \<and> list_all (\<lambda>t. \<not> IsCoinBaseTx t) rest)"

lemma journal_append: "journal h (xs @ ys) c = journal h xs c @ journal h ys (fold (apply_tx h) xs c)"
  by (induction xs arbitrary: c) simp_all

lemma spendable_append: "spendable_txs h (xs @ ys) c \<longleftrightarrow> spendable_txs h xs c \<and> spendable_txs h ys (fold (apply_tx h) xs c)"
  by (induction xs arbitrary: c) simp_all

lemma connect_ins_journal:
  assumes "connect_ins ins v (Some s) = Inr (v', Some s')"
    and "distinct (map ti_PreviousOutPoint (filter (\<lambda>i. \<not> IsPoolDrawSentinelInput i) ins))"
    and "\<And>x. x \<in> set (map ti_PreviousOutPoint (filter (\<lambda>i. \<not> IsPoolDrawSentinelInput i) ins)) \<Longrightarrow> coins base v x \<noteq> None"
  shows "s' = s @ map (\<lambda>x. the (coins base v x)) (map ti_PreviousOutPoint (filter (\<lambda>i. \<not> IsPoolDrawSentinelInput i) ins))"
  using assms
proof (induction ins arbitrary: v s)
  case (Cons i ins)
  show ?case
  proof (cases "IsPoolDrawSentinelInput i")
    case False
    let ?x = "ti_PreviousOutPoint i"
    obtain e where e: "LookupEntry v ?x = Some e" using Cons.prems(1) False by (auto split: option.splits)
    have "coins base v ?x \<noteq> None" using Cons.prems(3) False by simp
    then have c: "coins base v ?x = Some (toSpentTxOut e)" using e by (auto simp: coins_def coin_def split: if_splits)
    let ?v = "put_entry ?x (Some (Spend e)) v"
    have n: "?x \<notin> set (map ti_PreviousOutPoint (filter (\<lambda>i. \<not> IsPoolDrawSentinelInput i) ins))" using Cons.prems(2) False by simp
    have "s' = (s @ [toSpentTxOut e]) @ map (\<lambda>x. the (coins base ?v x)) (map ti_PreviousOutPoint (filter (\<lambda>i. \<not> IsPoolDrawSentinelInput i) ins))"
    proof (rule Cons.IH)
      show "connect_ins ins ?v (Some (s @ [toSpentTxOut e])) = Inr (v', Some s')" using Cons.prems(1) False e by simp
      show "distinct (map ti_PreviousOutPoint (filter (\<lambda>i. \<not> IsPoolDrawSentinelInput i) ins))" using Cons.prems(2) False by simp
    next
      fix x
      assume x: "x \<in> set (map ti_PreviousOutPoint (filter (\<lambda>i. \<not> IsPoolDrawSentinelInput i) ins))"
      then have "coins base v x \<noteq> None" using Cons.prems(3) False by simp
      moreover have "x \<noteq> ?x" using x n by blast
      ultimately show "coins base ?v x \<noteq> None" by simp
    qed
    moreover have "map (\<lambda>x. the (coins base ?v x)) (map ti_PreviousOutPoint (filter (\<lambda>i. \<not> IsPoolDrawSentinelInput i) ins)) =
        map (\<lambda>x. the (coins base v x)) (map ti_PreviousOutPoint (filter (\<lambda>i. \<not> IsPoolDrawSentinelInput i) ins))"
      by (rule map_cong [OF refl]) (use n in \<open>auto simp del: set_map\<close>)
    ultimately show ?thesis using False c by simp
  qed (use Cons in simp)
qed simp

lemma connectTransaction_journal:
  assumes "connectTransaction tx h (v, Some s) = Inr (v', st')" and "spendable_tx tx (coins base v)"
  shows "st' = Some (s @ map (\<lambda>x. the (coins base v x)) (spent_ops tx))"
proof (cases "IsCoinBaseTx tx \<or> IsVDFResultTx tx")
  case True
  then show ?thesis using assms(1) by (auto simp: connectTransaction_def spent_ops_def split: if_splits)
next
  case False
  then obtain v1 where 1: "connect_ins (tx_TxIn tx) v (Some s) = Inr (v1, st')"
    using assms(1) by (auto simp: connectTransaction_def rbind_eq_Inr)
  then obtain s' where s': "st' = Some s'" using connect_ins_coins [OF 1] by (cases st') auto
  have ops: "spent_ops tx = map ti_PreviousOutPoint (filter (\<lambda>txIn. \<not> IsPoolDrawSentinelInput txIn) (tx_TxIn tx))"
    using False by (simp add: spent_ops_def)
  have "s' = s @ map (\<lambda>x. the (coins base v x)) (spent_ops tx)"
    unfolding ops
    by (rule connect_ins_journal [OF 1 [unfolded s']]) (use assms(2) in \<open>auto simp: spendable_tx_def ops list_all_iff split: option.splits\<close>)
  then show ?thesis using s' by simp
qed

lemma connect_txs_recorded: "connect_txs txs h (v, st) = Inr (v', st') \<Longrightarrow> st' = None \<longleftrightarrow> st = None"
proof (induction txs arbitrary: v st)
  case (Cons tx txs)
  then obtain v1 s1 where 1: "connectTransaction tx h (v, st) = Inr (v1, s1)" "connect_txs txs h (v1, s1) = Inr (v', st')"
    by (auto simp: rbind_eq_Inr)
  have "s1 = None \<longleftrightarrow> st = None"
    using 1(1) connect_ins_coins [THEN conjunct2]
    by (fastforce simp: connectTransaction_def rbind_eq_Inr split: if_splits)
  then show ?case using Cons.IH [OF 1(2)] by simp
qed simp

lemma connect_txs_journal:
  "connect_txs txs h (v, Some s) = Inr (v', st') \<Longrightarrow> spendable_txs h txs (coins base v) \<Longrightarrow>
   st' = Some (s @ journal h txs (coins base v))"
proof (induction txs arbitrary: v s)
  case (Cons tx txs)
  then obtain v1 s1 where 1: "connectTransaction tx h (v, Some s) = Inr (v1, s1)" "connect_txs txs h (v1, s1) = Inr (v', st')"
    by (auto simp: rbind_eq_Inr)
  have "s1 = Some (s @ map (\<lambda>x. the (coins base v x)) (spent_ops tx))"
    using connectTransaction_journal [OF 1(1)] Cons.prems(2) by simp
  then show ?case
    using Cons.IH [of v1 "s @ map (\<lambda>x. the (coins base v x)) (spent_ops tx)"] 1(2) Cons.prems(2)
      connectTransaction_coins [OF 1(1), of base] by simp
qed simp

section \<open>Undoing\<close>

lemma add_outs_other: "x \<notin> fst ` set (spendable_outs tx) \<Longrightarrow> add_outs tx h c x = c x"
proof -
  have "x \<notin> fst ` set os \<Longrightarrow> foldl (\<lambda>c (x, out). c(x \<mapsto> out_coin tx h out)) c os x = c x" for os
    by (induction os arbitrary: c) auto
  then show "x \<notin> fst ` set (spendable_outs tx) \<Longrightarrow> ?thesis" by (simp add: add_outs_def)
qed

lemma coins_disconnect_outs: "coins base (disconnect_outs tx h cb v) = coins base v |` (- fst ` set (spendable_outs tx))"
proof -
  have "coins base (foldl (\<lambda>view (txOutIdx, txOut).
         if IsUnspendable (to_PkScript txOut) then view
         else
           let prevOut = \<lparr>op_Hash = TxHash tx, op_Index = u32 (int txOutIdx)\<rparr>;
               entry = (case LookupEntry view prevOut of
                          Some entry \<Rightarrow> entry
                        | None \<Rightarrow> \<lparr>ue_amount = to_Value txOut, ue_pkScript = to_PkScript txOut, ue_blockHeight = h,
                                   ue_packedFlags = (if cb then tfCoinBase else 0)\<rparr>)
           in put_entry prevOut (Some (Spend entry)) view) v os) =
    coins base v |` (- fst ` set (map (\<lambda>(i, out). (\<lparr>op_Hash = TxHash tx, op_Index = u32 (int i)\<rparr>, out))
     (filter (\<lambda>(i, out). \<not> IsUnspendable (to_PkScript out)) os)))" for os
  proof (induction os arbitrary: v)
    case (Cons o' os)
    obtain i out where o: "o' = (i, out)" by (cases o')
    show ?case
    proof (cases "IsUnspendable (to_PkScript out)")
      case True
      then show ?thesis using Cons by (simp add: o)
    next
      case False
      then show ?thesis unfolding o by (simp add: Cons Let_def) (auto simp: fun_eq_iff restrict_map_def)
    qed
  qed (simp add: restrict_map_def)
  then show ?thesis by (simp only: disconnect_outs_def spendable_outs_def)
qed

lemma disconnect_ins_coins:
  assumes "\<not> IsVDFResultTx tx"
    and "\<And>x. x \<in> set (map ti_PreviousOutPoint (filter (\<lambda>i. \<not> IsPoolDrawSentinelInput i) ins)) \<Longrightarrow> \<exists>s. c x = Some s \<and> so_Height s \<noteq> 0"
  shows "\<exists>v'. disconnect_ins db tx ins
      (v, map (\<lambda>x. the (c x)) (map ti_PreviousOutPoint (filter (\<lambda>i. \<not> IsPoolDrawSentinelInput i) ins)) @ rest) = Inr (v', rest) \<and>
    coins base v' = (\<lambda>x. if x \<in> set (map ti_PreviousOutPoint (filter (\<lambda>i. \<not> IsPoolDrawSentinelInput i) ins)) then c x else coins base v x)"
  using assms(2)
proof (induction ins arbitrary: v)
  case (Cons i ins)
  show ?case
  proof (cases "IsPoolDrawSentinelInput i")
    case True
    then show ?thesis using Cons by simp
  next
    case False
    let ?x = "ti_PreviousOutPoint i"
    obtain s where s: "c ?x = Some s" "so_Height s \<noteq> 0" using Cons.prems [of ?x] False by auto
    let ?e = "\<lparr>ue_amount = so_Amount s, ue_pkScript = so_PkScript s, ue_blockHeight = so_Height s,
                   ue_packedFlags = (if so_IsCoinBase s then or tfModified tfCoinBase else tfModified)\<rparr>"
    let ?v = "if LookupEntry v ?x = None
              then put_entry ?x (Some \<lparr>ue_amount = 0, ue_pkScript = [], ue_blockHeight = 0, ue_packedFlags = 0\<rparr>) v else v"
    have e: "coin ?e = Some s" by (simp add: coin_def toSpentTxOut_def flag_bits)
    obtain v' where v': "disconnect_ins db tx ins (put_entry ?x (Some ?e) ?v,
         map (\<lambda>x. the (c x)) (map ti_PreviousOutPoint (filter (\<lambda>i. \<not> IsPoolDrawSentinelInput i) ins)) @ rest) = Inr (v', rest)"
      and c': "coins base v' = (\<lambda>x. if x \<in> set (map ti_PreviousOutPoint (filter (\<lambda>i. \<not> IsPoolDrawSentinelInput i) ins)) then c x
         else coins base (put_entry ?x (Some ?e) ?v) x)"
      using Cons.IH [of "put_entry ?x (Some ?e) ?v"] Cons.prems by auto
    have "disconnect_ins db tx (i # ins)
        (v, map (\<lambda>x. the (c x)) (map ti_PreviousOutPoint (filter (\<lambda>i. \<not> IsPoolDrawSentinelInput i) (i # ins))) @ rest) = Inr (v', rest)"
      using v' False assms(1) s by (simp add: Let_def)
    moreover have "coins base v' = (\<lambda>x. if x \<in> set (map ti_PreviousOutPoint (filter (\<lambda>i. \<not> IsPoolDrawSentinelInput i) (i # ins))) then c x else coins base v x)"
      unfolding c' coins_put e using False s(1) by (auto simp: fun_eq_iff coins_put coins_def)
    ultimately show ?thesis by blast
  qed
qed simp


lemma undo_apply:
  assumes "spendable_tx tx c"
  shows "(\<lambda>x. if x \<in> set (spent_ops tx) then c x else (apply_tx h tx c |` (- fst ` set (spendable_outs tx))) x) = c"
proof
  fix x
  have "x \<in> fst ` set (spendable_outs tx) \<Longrightarrow> c x = None" using assms by (auto simp: spendable_tx_def list_all_iff)
  then show "(if x \<in> set (spent_ops tx) then c x else (apply_tx h tx c |` (- fst ` set (spendable_outs tx))) x) = c x"
    using add_outs_other [of x tx h "c |` (- set (spent_ops tx))"] by (auto simp: apply_tx_def restrict_map_def)
qed

lemma disconnect_tx_coins:
  assumes "spendable_tx tx c" and "coins base v = apply_tx h tx c" and "\<not> IsCoinBaseTx tx"
  shows "\<exists>v'. disconnect_ins db tx (rev (tx_TxIn tx)) (disconnect_outs tx h False v, rev (map (\<lambda>x. the (c x)) (spent_ops tx)) @ rest) = Inr (v', rest) \<and>
    coins base v' = c"
proof (cases "IsVDFResultTx tx")
  case True
  have "disconnect_ins db tx ins vs = Inr vs" for ins vs using True by (induction ins) simp_all
  moreover have "spent_ops tx = []" using True by (simp add: spent_ops_def)
  ultimately show ?thesis
    using undo_apply [OF assms(1), of h] by (simp add: coins_disconnect_outs assms(2))
next
  case False
  let ?ops = "map ti_PreviousOutPoint (filter (\<lambda>i. \<not> IsPoolDrawSentinelInput i) (rev (tx_TxIn tx)))"
  have ops: "rev (spent_ops tx) = ?ops" using False assms(3) by (simp add: spent_ops_def rev_map rev_filter)
  have sp: "\<exists>s. c x = Some s \<and> so_Height s \<noteq> 0" if "x \<in> set (spent_ops tx)" for x
    using assms(1) that by (auto simp: spendable_tx_def list_all_iff split: option.splits)
  have "\<exists>v'. disconnect_ins db tx (rev (tx_TxIn tx)) (disconnect_outs tx h False v, map (\<lambda>x. the (c x)) ?ops @ rest) = Inr (v', rest) \<and>
      coins base v' = (\<lambda>x. if x \<in> set ?ops then c x else coins base (disconnect_outs tx h False v) x)"
    by (rule disconnect_ins_coins [OF False]) (use sp ops in \<open>metis set_rev\<close>)
  then obtain v' where v': "disconnect_ins db tx (rev (tx_TxIn tx)) (disconnect_outs tx h False v, map (\<lambda>x. the (c x)) (rev (spent_ops tx)) @ rest) = Inr (v', rest)"
      "coins base v' = (\<lambda>x. if x \<in> set (rev (spent_ops tx)) then c x else coins base (disconnect_outs tx h False v) x)"
    unfolding ops by blast
  have "coins base v' = c" unfolding v'(2) set_rev coins_disconnect_outs assms(2) by (rule undo_apply [OF assms(1)])
  then show ?thesis using v'(1) by (simp add: rev_map)
qed

lemma disconnect_txs_coins:
  assumes "coinbase_first txs" and "spendable_txs h txs c" and "coins base v = fold (apply_tx h) txs c"
  shows "\<exists>v'. disconnect_txs db h (rev (List.enumerate 0 txs)) (v, rev (journal h txs c)) = Inr v' \<and> coins base v' = c"
  using assms
proof (induction txs arbitrary: v rule: rev_induct)
  case (snoc tx txs)
  let ?c = "fold (apply_tx h) txs c"
  have sp: "spendable_txs h txs c" "spendable_tx tx ?c" using snoc.prems(2) by (simp_all add: spendable_append)
  have cv: "coins base v = apply_tx h tx ?c" using snoc.prems(3) by simp
  have j: "rev (journal h (txs @ [tx]) c) = rev (map (\<lambda>x. the (?c x)) (spent_ops tx)) @ rev (journal h txs c)"
    by (simp add: journal_append)
  show ?case
  proof (cases "txs = []")
    case True
    then have "IsCoinBaseTx tx" using snoc.prems(1) by (simp add: coinbase_first_def)
    then have "spent_ops tx = []" by (simp add: spent_ops_def)
    then show ?thesis using True undo_apply [OF sp(2), of h] cv by (simp add: coins_disconnect_outs)
  next
    case False
    then obtain t0 ts where "txs = t0 # ts" by (cases txs) auto
    then have cf: "coinbase_first txs" "\<not> IsCoinBaseTx tx"
      using snoc.prems(1) by (simp_all add: coinbase_first_def)
    obtain v1 where v1: "disconnect_ins db tx (rev (tx_TxIn tx))
        (disconnect_outs tx h False v, rev (map (\<lambda>x. the (?c x)) (spent_ops tx)) @ rev (journal h txs c)) = Inr (v1, rev (journal h txs c))"
      "coins base v1 = ?c"
      using disconnect_tx_coins [OF sp(2) cv cf(2)] by blast
    then show ?thesis using snoc.IH [OF cf(1) sp(1) v1(2)] False by (simp add: enumerate_append_eq j del: rev_map)
  qed
qed simp

lemma journal_count:
  assumes "coinbase_first txs" "txs \<noteq> []" "mb_Transactions (blk_msg block) = txs"
  shows "countSpentOutputs block = Inr (length (journal h txs c))"
proof -
  have *: "length (spent_ops tx) = (if IsVDFResultTx tx then 0 else length (filter (\<lambda>txIn. \<not> IsPoolDrawSentinelInput txIn) (tx_TxIn tx)))"
    if "\<not> IsCoinBaseTx tx" for tx using that by (simp add: spent_ops_def)
  have cnt: "list_all (\<lambda>t. \<not> IsCoinBaseTx t) ts \<Longrightarrow>
    foldl (\<lambda>numSpent tx. if IsVDFResultTx tx then numSpent
      else numSpent + length (filter (\<lambda>txIn. \<not> IsPoolDrawSentinelInput txIn) (tx_TxIn tx))) n ts = n + length (journal h ts c)" for n ts c
  proof (induction ts arbitrary: n c)
    case (Cons t ts)
    have a: "list_all (\<lambda>t. \<not> IsCoinBaseTx t) ts" "\<not> IsCoinBaseTx t" using Cons.prems by simp_all
    then show ?case using Cons.IH [OF a(1), of _ "apply_tx h t c"] by (simp add: *)
  qed simp
  obtain t0 ts where t: "txs = t0 # ts" using assms(2) by (cases txs) auto
  then have "IsCoinBaseTx t0" "list_all (\<lambda>t. \<not> IsCoinBaseTx t) ts" using assms(1) by (simp_all add: coinbase_first_def)
  then show ?thesis using cnt [of ts 0 "apply_tx h t0 c"] assms(3) by (simp add: t countSpentOutputs_def spent_ops_def)
qed


section \<open>A sample block\<close>

definition sample_coinbase :: MsgTx where
  "sample_coinbase =
     \<lparr>tx_Version = 2,
      tx_TxIn = [\<lparr>ti_PreviousOutPoint = \<lparr>op_Hash = replicate 32 0, op_Index = 2 ^ 32 - 1\<rparr>, ti_SignatureScript = [0x51, 0x51], ti_Witness = [], ti_Sequence = 0\<rparr>],
      tx_TxOut = [\<lparr>to_Value = 5, to_PkScript = [OP_1]\<rparr>], tx_LockTime = 0\<rparr>"

definition sample_coin_op :: OutPoint where
  "sample_coin_op = \<lparr>op_Hash = replicate 32 1, op_Index = 5\<rparr>"

definition sample_coin :: UtxoEntry where
  "sample_coin = \<lparr>ue_amount = 9, ue_pkScript = [OP_1], ue_blockHeight = 3, ue_packedFlags = 0\<rparr>"

definition sample_spend :: MsgTx where
  "sample_spend =
     \<lparr>tx_Version = 2,
      tx_TxIn = [\<lparr>ti_PreviousOutPoint = sample_coin_op, ti_SignatureScript = [], ti_Witness = [], ti_Sequence = 0\<rparr>],
      tx_TxOut = [\<lparr>to_Value = 0, to_PkScript = [OP_RETURN]\<rparr>, \<lparr>to_Value = 9, to_PkScript = [OP_1]\<rparr>], tx_LockTime = 0\<rparr>"

definition sample_header :: BlockHeader where
  "sample_header = \<lparr>bh_Version = 4, bh_PrevBlock = replicate 32 7, bh_MerkleRoot = replicate 32 0, bh_Timestamp = 0, bh_Bits = 0, bh_Nonce = 0\<rparr>"

definition sample_utxo_block :: Block where
  "sample_utxo_block = \<lparr>blk_msg = \<lparr>mb_Header = sample_header, mb_Transactions = [sample_coinbase, sample_spend]\<rparr>, blk_height = 8\<rparr>"

definition sample_view :: UtxoViewpoint where
  "sample_view = \<lparr>uv_entries = [sample_coin_op \<mapsto> Some sample_coin], uv_bestHash = replicate 32 7\<rparr>"

lemma spendable_OP_1: "\<not> IsUnspendable [OP_1]" "IsUnspendable [OP_RETURN]"
  by (simp_all add: IsUnspendable_def MaxScriptSize_def script_parse parse_all.simps opcode_length_def)

lemma sample_kinds:
  "IsCoinBaseTx sample_coinbase" "\<not> IsCoinBaseTx sample_spend" "\<not> IsVDFResultTx sample_coinbase" "\<not> IsVDFResultTx sample_spend"
  "spent_ops sample_coinbase = []" "spent_ops sample_spend = [sample_coin_op]"
  "spendable_outs sample_coinbase = [(\<lparr>op_Hash = TxHash sample_coinbase, op_Index = 0\<rparr>, \<lparr>to_Value = 5, to_PkScript = [OP_1]\<rparr>)]"
  "spendable_outs sample_spend = [(\<lparr>op_Hash = TxHash sample_spend, op_Index = 1\<rparr>, \<lparr>to_Value = 9, to_PkScript = [OP_1]\<rparr>)]"
proof -
  show cb: "IsCoinBaseTx sample_coinbase" "\<not> IsCoinBaseTx sample_spend" "\<not> IsVDFResultTx sample_coinbase" "\<not> IsVDFResultTx sample_spend"
    by (simp_all add: IsCoinBaseTx_def sample_coinbase_def sample_spend_def sample_coin_op_def IsVDFResultTx_def TxVersionVDFResult_def)
  show "spent_ops sample_coinbase = []" using cb by (simp add: spent_ops_def)
  show "spent_ops sample_spend = [sample_coin_op]"
    using cb by (simp add: spent_ops_def) (simp add: sample_spend_def IsPoolDrawSentinelInput_def sample_coin_op_def)
  show "spendable_outs sample_coinbase = [(\<lparr>op_Hash = TxHash sample_coinbase, op_Index = 0\<rparr>, \<lparr>to_Value = 5, to_PkScript = [OP_1]\<rparr>)]"
    "spendable_outs sample_spend = [(\<lparr>op_Hash = TxHash sample_spend, op_Index = 1\<rparr>, \<lparr>to_Value = 9, to_PkScript = [OP_1]\<rparr>)]"
    by (simp_all add: spendable_outs_def sample_coinbase_def sample_spend_def spendable_OP_1 u32_def)
qed

lemma sample_coins: "coins Map.empty sample_view = [sample_coin_op \<mapsto> toSpentTxOut sample_coin]" "so_Height (toSpentTxOut sample_coin) = 3"
  by (auto simp: coins_def LookupEntry_def sample_view_def coin_def sample_coin_def flag_bits toSpentTxOut_def fun_eq_iff)

lemma sample_spendable: "spendable_txs 8 [sample_coinbase, sample_spend] (coins Map.empty sample_view)"
  unfolding sample_coins(1)
  by (simp add: spendable_tx_def sample_kinds apply_tx_def add_outs_def sample_coins restrict_map_def sample_coin_op_def)

lemma sample_connects: "\<exists>v' stxos. connectTransactions sample_utxo_block (sample_view, Some []) = Inr (v', Some stxos)"
proof -
  let ?v = "AddTxOuts sample_coinbase 8 sample_view"
  have "tx_TxOut sample_coinbase = [\<lparr>to_Value = 5, to_PkScript = [OP_1]\<rparr>]" by (simp add: sample_coinbase_def)
  then have l: "LookupEntry ?v sample_coin_op = Some sample_coin"
    by (simp add: AddTxOuts_def addTxOut_def spendable_OP_1 u32_def sample_coin_op_def) (simp add: LookupEntry_def sample_view_def sample_coin_op_def)
  have i: "tx_TxIn sample_spend = [\<lparr>ti_PreviousOutPoint = sample_coin_op, ti_SignatureScript = [], ti_Witness = [], ti_Sequence = 0\<rparr>]"
    by (simp add: sample_spend_def)
  show ?thesis
    using l by (simp add: connectTransactions_def sample_utxo_block_def connectTransaction_def sample_kinds i IsPoolDrawSentinelInput_def)
qed

section \<open>Properties\<close>

text \<open>
  C24. Connecting a block refines the map of coins: over any base set, the coins of the view after
  \<^verbatim>\<open>connectTransactions\<close> are the coins before, where each transaction in turn has removed the coins of its
  inputs and added its spendable outputs. The journal is written exactly when the caller asks for one, and
  where each transaction is spendable at the coins before it, what the block appends to it are the coins
  its inputs consume, each as it was when it was consumed, in the order of the inputs.
\<close>

theorem connectTransactions_refines:
  assumes "connectTransactions block (view, stxos) = Inr (view', stxos')"
  shows "coins base view' = fold (apply_tx (blk_height block)) (mb_Transactions (blk_msg block)) (coins base view) \<and>
    (stxos' = None \<longleftrightarrow> stxos = None) \<and>
    (spendable_txs (blk_height block) (mb_Transactions (blk_msg block)) (coins base view) \<longrightarrow>
      stxos' = map_option (\<lambda>s. s @ journal (blk_height block) (mb_Transactions (blk_msg block)) (coins base view)) stxos)"
proof -
  obtain v where v: "connect_txs (mb_Transactions (blk_msg block)) (blk_height block) (view, stxos) = Inr (v, stxos')"
    "view' = v\<lparr>uv_bestHash := BlockHash (mb_Header (blk_msg block))\<rparr>"
    using assms by (auto simp: connectTransactions_def rbind_eq_Inr)
  have "coins base view' = coins base v" by (simp add: v(2) coins_def LookupEntry_def)
  then show ?thesis using connect_txs_coins [OF v(1)] connect_txs_recorded [OF v(1)] connect_txs_journal v(1) by (cases stxos) auto
qed

theorem connectTransactions_refines_witness:
  "\<exists>view'. connectTransactions sample_utxo_block (sample_view, Some []) = Inr (view', Some [toSpentTxOut sample_coin]) \<and>
     coins Map.empty view' = apply_tx 8 sample_spend (apply_tx 8 sample_coinbase [sample_coin_op \<mapsto> toSpentTxOut sample_coin])"
proof -
  obtain v' s' where 1: "connectTransactions sample_utxo_block (sample_view, Some []) = Inr (v', Some s')"
    using sample_connects by blast
  have b: "blk_height sample_utxo_block = 8" "mb_Transactions (blk_msg sample_utxo_block) = [sample_coinbase, sample_spend]"
    by (simp_all add: sample_utxo_block_def)
  have "journal 8 [sample_coinbase, sample_spend] (coins Map.empty sample_view) = [toSpentTxOut sample_coin]"
    unfolding sample_coins(1) by (simp add: sample_kinds apply_tx_def add_outs_def sample_coin_op_def)
  then show ?thesis using 1 connectTransactions_refines [OF 1, of Map.empty] sample_spendable
    unfolding b by (simp add: sample_coins(1))
qed

text \<open>
  C25. Disconnecting takes a connected block back. When the first transaction is the only coinbase and each
  transaction is spendable at the coins before it, a view with the coins of the connected block is
  disconnected with the journal the connection wrote, without an error, to the coins before the block
  and the hash of the previous block.
\<close>

theorem disconnect_undoes_connect:
  assumes "mb_Transactions (blk_msg block) \<noteq> []" and "coinbase_first (mb_Transactions (blk_msg block))"
    and "spendable_txs (blk_height block) (mb_Transactions (blk_msg block)) (coins base view)"
    and "connectTransactions block (view, Some []) = Inr (connected, Some stxos)"
    and "coins base view2 = coins base connected"
  shows "\<exists>view3. disconnectTransactions dbByHash block stxos view2 = Inr view3 \<and> coins base view3 = coins base view \<and>
    uv_bestHash view3 = bh_PrevBlock (mb_Header (blk_msg block))"
proof -
  let ?txs = "mb_Transactions (blk_msg block)" and ?h = "blk_height block"
  obtain v where v: "connect_txs ?txs ?h (view, Some []) = Inr (v, Some stxos)"
    "connected = v\<lparr>uv_bestHash := BlockHash (mb_Header (blk_msg block))\<rparr>"
    using assms(4) by (auto simp: connectTransactions_def rbind_eq_Inr)
  have j: "stxos = journal ?h ?txs (coins base view)" using connect_txs_journal [OF v(1) assms(3)] by simp
  have "coins base view2 = fold (apply_tx ?h) ?txs (coins base view)"
    using connect_txs_coins [OF v(1)] assms(5) v(2) by (simp add: coins_def LookupEntry_def)
  then obtain v3 where v3: "disconnect_txs dbByHash ?h (rev (List.enumerate 0 ?txs)) (view2, rev stxos) = Inr v3" "coins base v3 = coins base view"
    using disconnect_txs_coins [OF assms(2,3)] j by blast
  have "countSpentOutputs block = Inr (length stxos)"
    using journal_count [OF assms(2,1) refl] j by simp
  moreover have "coins base (v3\<lparr>uv_bestHash := x\<rparr>) = coins base v3" for x by (simp add: coins_def LookupEntry_def)
  ultimately show ?thesis using v3 by (simp add: disconnectTransactions_def)
qed

theorem disconnect_undoes_connect_witness:
  "\<exists>connected stxos view3. connectTransactions sample_utxo_block (sample_view, Some []) = Inr (connected, Some stxos) \<and>
     disconnectTransactions (\<lambda>_. Inr None) sample_utxo_block stxos connected = Inr view3 \<and>
     coins Map.empty view3 = [sample_coin_op \<mapsto> toSpentTxOut sample_coin] \<and> uv_bestHash view3 = replicate 32 7"
proof -
  obtain v' s' where c: "connectTransactions sample_utxo_block (sample_view, Some []) = Inr (v', Some s')"
    using sample_connects by blast
  have t: "mb_Transactions (blk_msg sample_utxo_block) = [sample_coinbase, sample_spend]" "blk_height sample_utxo_block = 8"
    "bh_PrevBlock (mb_Header (blk_msg sample_utxo_block)) = replicate 32 7"
    by (simp_all add: sample_utxo_block_def sample_header_def)
  show ?thesis
    using disconnect_undoes_connect [of sample_utxo_block Map.empty sample_view v' s' v' "\<lambda>_. Inr None"] c
      sample_spendable sample_coins(1) unfolding t by (auto simp: coinbase_first_def sample_kinds)
qed

end
