(* ===== verification/UtxoCodec.thy ===== *)
theory UtxoCodec
  imports Utxo
begin

text \<open>
  The stored form of outputs: variable-length quantities, compressed scripts and amounts of
  \<^verbatim>\<open>blockchain/compress.go\<close>, and the records of \<^verbatim>\<open>blockchain/chainio.go\<close> for unspent outputs, the
  journal of spent outputs, the height index and the best state. The functions that fill a buffer
  return the bytes they write; their size functions are shown to be the lengths.

  Parsing and serializing public keys is third-party code: the parameters \<open>parsePubKey\<close> and
  \<open>serializeUncompressed\<close>.
\<close>

section \<open>Model\<close>

subsection \<open>Variable-length quantities\<close>

function serializeSizeVLQ_loop :: "nat \<Rightarrow> int \<Rightarrow> nat" where
  "serializeSizeVLQ_loop sz n = (if n > 0x7f then serializeSizeVLQ_loop (sz + 1) (n div 128 - 1) else sz)"
  by pat_completeness auto
termination by (relation "measure (\<lambda>(_, n). nat n)") auto

definition serializeSizeVLQ :: "int \<Rightarrow> nat" where
  "serializeSizeVLQ n = serializeSizeVLQ_loop 1 n"

text \<open>The bytes in the order the loop writes them; \<^verbatim>\<open>putVLQ\<close> then reverses them.\<close>

function putVLQ_loop :: "byte \<Rightarrow> int \<Rightarrow> bytes" where
  "putVLQ_loop highBitMask n =
     or (word_of_int (n mod 128)) highBitMask # (if n \<le> 0x7f then [] else putVLQ_loop 0x80 (n div 128 - 1))"
  by pat_completeness auto
termination by (relation "measure (\<lambda>(_, n). nat n)") auto

declare serializeSizeVLQ_loop.simps [simp del] putVLQ_loop.simps [simp del]

definition putVLQ :: "int \<Rightarrow> bytes" where
  "putVLQ n = rev (putVLQ_loop 0x00 n)"

text \<open>\<^verbatim>\<open>(n << 7) | (val & 0x7f)\<close> is the sum, as the low seven bits are zero after the shift.\<close>

primrec deserializeVLQ_loop :: "int \<Rightarrow> nat \<Rightarrow> bytes \<Rightarrow> int \<times> nat" where
  "deserializeVLQ_loop n sz [] = (n, sz)"
| "deserializeVLQ_loop n sz (val # serialized) =
     (let sz = sz + 1; n = u64 (n * 128) + uint val mod 128 in
      if and val 0x80 \<noteq> 0x80 then (n, sz) else deserializeVLQ_loop (u64 (n + 1)) sz serialized)"

definition deserializeVLQ :: "bytes \<Rightarrow> int \<times> nat" where
  "deserializeVLQ serialized = deserializeVLQ_loop 0 0 serialized"

subsection \<open>Scripts\<close>

definition numSpecialScripts :: int where "numSpecialScripts = 6"

definition isPubKeyHash :: "bytes \<Rightarrow> bytes option" where
  "isPubKeyHash script =
     (if length script = 25 \<and> script ! 0 = OP_DUP \<and> script ! 1 = OP_HASH160 \<and> script ! 2 = OP_DATA_20 \<and>
         script ! 23 = OP_EQUALVERIFY \<and> script ! 24 = OP_CHECKSIG
      then Some (slice 3 23 script) else None)"

definition isScriptHash :: "bytes \<Rightarrow> bytes option" where
  "isScriptHash script =
     (if length script = 23 \<and> script ! 0 = OP_HASH160 \<and> script ! 1 = OP_DATA_20 \<and> script ! 22 = OP_EQUAL
      then Some (slice 2 22 script) else None)"

definition isPubKey :: "(bytes \<Rightarrow> 'k option) \<Rightarrow> bytes \<Rightarrow> bytes option" where
  "isPubKey parsePubKey script =
     (if length script = 35 \<and> script ! 0 = OP_DATA_33 \<and> script ! 34 = OP_CHECKSIG \<and>
         (script ! 1 = 0x02 \<or> script ! 1 = 0x03) \<and> parsePubKey (slice 1 34 script) \<noteq> None
      then Some (slice 1 34 script)
      else if length script = 67 \<and> script ! 0 = OP_DATA_65 \<and> script ! 66 = OP_CHECKSIG \<and> script ! 1 = 0x04 \<and>
         parsePubKey (slice 1 66 script) \<noteq> None
      then Some (slice 1 66 script)
      else None)"

definition compressedScriptSize :: "(bytes \<Rightarrow> 'k option) \<Rightarrow> bytes \<Rightarrow> nat" where
  "compressedScriptSize parsePubKey pkScript =
     (if isPubKeyHash pkScript \<noteq> None then 21
      else if isScriptHash pkScript \<noteq> None then 21
      else if isPubKey parsePubKey pkScript \<noteq> None then 33
      else serializeSizeVLQ (int (length pkScript) + numSpecialScripts) + length pkScript)"

definition decodeCompressedScriptSize :: "bytes \<Rightarrow> int" where
  "decodeCompressedScriptSize serialized =
     (case deserializeVLQ serialized of (scriptSize, bytesRead) \<Rightarrow>
        if bytesRead = 0 then 0
        else if scriptSize = 0 \<or> scriptSize = 1 then 21
        else if scriptSize \<in> {2, 3, 4, 5} then 33
        else i64 (u64 (u64 (scriptSize - numSpecialScripts) + int bytesRead)))"

definition putCompressedScript :: "(bytes \<Rightarrow> 'k option) \<Rightarrow> bytes \<Rightarrow> bytes" where
  "putCompressedScript parsePubKey pkScript =
     (case isPubKeyHash pkScript of Some hash \<Rightarrow> 0 # hash | None \<Rightarrow>
      case isScriptHash pkScript of Some hash \<Rightarrow> 1 # hash | None \<Rightarrow>
      case isPubKey parsePubKey pkScript of
        Some serializedPubKey \<Rightarrow>
          if serializedPubKey ! 0 = 0x02 \<or> serializedPubKey ! 0 = 0x03 then
            serializedPubKey ! 0 # slice 1 33 serializedPubKey
          else or (serializedPubKey ! 0) (and (serializedPubKey ! 64) 0x01) # slice 1 33 serializedPubKey
      | None \<Rightarrow> putVLQ (int (length pkScript) + numSpecialScripts) @ pkScript)"

text \<open>Slicing past the end panics; a nil script is the empty one.\<close>

definition decompressScript :: "(bytes \<Rightarrow> 'k option) \<Rightarrow> ('k \<Rightarrow> bytes) \<Rightarrow> bytes \<Rightarrow> bytes result" where
  "decompressScript parsePubKey serializeUncompressed compressedPkScript =
     (if length compressedPkScript = 0 then Inr []
      else case deserializeVLQ compressedPkScript of (encodedScriptSize, bytesRead) \<Rightarrow>
        if encodedScriptSize = 0 then
          (if length compressedPkScript < bytesRead + 20 then Inl Panic
           else Inr ([OP_DUP, OP_HASH160, OP_DATA_20] @ slice bytesRead (bytesRead + 20) compressedPkScript @ [OP_EQUALVERIFY, OP_CHECKSIG]))
        else if encodedScriptSize = 1 then
          (if length compressedPkScript < bytesRead + 20 then Inl Panic
           else Inr ([OP_HASH160, OP_DATA_20] @ slice bytesRead (bytesRead + 20) compressedPkScript @ [OP_EQUAL]))
        else if encodedScriptSize = 2 \<or> encodedScriptSize = 3 then
          (if length compressedPkScript < bytesRead + 32 then Inl Panic
           else Inr ([OP_DATA_33, word_of_int encodedScriptSize] @ slice bytesRead (bytesRead + 32) compressedPkScript @ [OP_CHECKSIG]))
        else if encodedScriptSize = 4 \<or> encodedScriptSize = 5 then
          (let compressedKey = word_of_int (encodedScriptSize - 2) # take 32 (drop 1 compressedPkScript @ replicate 32 0) in
           case parsePubKey compressedKey of
             None \<Rightarrow> Inr []
           | Some key \<Rightarrow> Inr (OP_DATA_65 # take 65 (serializeUncompressed key @ replicate 65 0) @ [OP_CHECKSIG]))
        else
          (let scriptSize = i64 (u64 (encodedScriptSize - numSpecialScripts)) in
           if scriptSize < 0 \<or> int (length compressedPkScript) < int bytesRead + scriptSize then Inl Panic
           else Inr (slice bytesRead (bytesRead + nat scriptSize) compressedPkScript)))"

subsection \<open>Amounts\<close>

fun compressAmount_loop :: "nat \<Rightarrow> int \<Rightarrow> int \<Rightarrow> int \<times> int" where
  "compressAmount_loop 0 amount exponent = (amount, exponent)"
| "compressAmount_loop (Suc k) amount exponent =
     (if amount mod 10 = 0 then compressAmount_loop k (amount div 10) (exponent + 1) else (amount, exponent))"

text \<open>The loop stops at exponent 9, so it runs at most nine times.\<close>

definition compressTxOutAmount :: "int \<Rightarrow> int" where
  "compressTxOutAmount amount =
     (if amount = 0 then 0
      else case compressAmount_loop 9 amount 0 of (amount, exponent) \<Rightarrow>
        if exponent < 9 then
          let lastDigit = amount mod 10; amount = amount div 10 in
          u64 (1 + 10 * (9 * amount + lastDigit - 1) + exponent)
        else u64 (10 + 10 * (amount - 1)))"

fun decompressAmount_loop :: "nat \<Rightarrow> int \<Rightarrow> int" where
  "decompressAmount_loop 0 n = n"
| "decompressAmount_loop (Suc exponent) n = decompressAmount_loop exponent (u64 (n * 10))"

definition decompressTxOutAmount :: "int \<Rightarrow> int" where
  "decompressTxOutAmount amount =
     (if amount = 0 then 0
      else
        let amount = amount - 1; exponent = amount mod 10; amount = amount div 10;
            n = (if exponent < 9 then (let lastDigit = amount mod 9 + 1 in u64 (amount div 9 * 10 + lastDigit)) else amount + 1)
        in decompressAmount_loop (nat exponent) n)"

subsection \<open>Outputs\<close>

definition compressedTxOutSize :: "(bytes \<Rightarrow> 'k option) \<Rightarrow> int \<Rightarrow> bytes \<Rightarrow> nat" where
  "compressedTxOutSize parsePubKey amount pkScript =
     serializeSizeVLQ (compressTxOutAmount amount) + compressedScriptSize parsePubKey pkScript"

definition putCompressedTxOut :: "(bytes \<Rightarrow> 'k option) \<Rightarrow> int \<Rightarrow> bytes \<Rightarrow> bytes" where
  "putCompressedTxOut parsePubKey amount pkScript =
     putVLQ (compressTxOutAmount amount) @ putCompressedScript parsePubKey pkScript"

definition decodeCompressedTxOut ::
  "(bytes \<Rightarrow> 'k option) \<Rightarrow> ('k \<Rightarrow> bytes) \<Rightarrow> bytes \<Rightarrow> (int \<times> bytes \<times> nat) result" where
  "decodeCompressedTxOut parsePubKey serializeUncompressed serialized =
     (case deserializeVLQ serialized of (compressedAmount, bytesRead) \<Rightarrow>
        if bytesRead \<ge> length serialized then Inl PlainError
        else
          let scriptSize = decodeCompressedScriptSize (drop bytesRead serialized) in
          if int (length (drop bytesRead serialized)) < scriptSize then Inl PlainError
          else if scriptSize < 0 then Inl Panic
          else
            rbind (decompressScript parsePubKey serializeUncompressed (slice bytesRead (bytesRead + nat scriptSize) serialized)) (\<lambda>script.
            Inr (decompressTxOutAmount compressedAmount, script, bytesRead + nat scriptSize)))"

subsection \<open>The journal of spent outputs\<close>

text \<open>\<^verbatim>\<open>uint64(height) << 1\<close>, with the coinbase flag in bit 0.\<close>

definition headerCode :: "int \<Rightarrow> bool \<Rightarrow> int" where
  "headerCode height isCoinBase = u64 (u64 height * 2) + (if isCoinBase then 1 else 0)"

definition spentTxOutHeaderCode :: "SpentTxOut \<Rightarrow> int" where
  "spentTxOutHeaderCode stxo = headerCode (so_Height stxo) (so_IsCoinBase stxo)"

definition spentTxOutSerializeSize :: "(bytes \<Rightarrow> 'k option) \<Rightarrow> SpentTxOut \<Rightarrow> nat" where
  "spentTxOutSerializeSize parsePubKey stxo =
     (let sz = serializeSizeVLQ (spentTxOutHeaderCode stxo);
          sz = (if so_Height stxo > 0 then sz + serializeSizeVLQ 0 else sz)
      in sz + compressedTxOutSize parsePubKey (u64 (so_Amount stxo)) (so_PkScript stxo))"

definition putSpentTxOut :: "(bytes \<Rightarrow> 'k option) \<Rightarrow> SpentTxOut \<Rightarrow> bytes" where
  "putSpentTxOut parsePubKey stxo =
     putVLQ (spentTxOutHeaderCode stxo) @ (if so_Height stxo > 0 then putVLQ 0 else []) @
     putCompressedTxOut parsePubKey (u64 (so_Amount stxo)) (so_PkScript stxo)"

definition decodeSpentTxOut ::
  "(bytes \<Rightarrow> 'k option) \<Rightarrow> ('k \<Rightarrow> bytes) \<Rightarrow> bytes \<Rightarrow> (SpentTxOut \<times> nat) result" where
  "decodeSpentTxOut parsePubKey serializeUncompressed serialized =
     (if length serialized = 0 then Inl PlainError
      else case deserializeVLQ serialized of (code, offset) \<Rightarrow>
        if offset \<ge> length serialized then Inl PlainError
        else
          let isCoinBase = (code mod 2 \<noteq> 0); height = i32 (code div 2) in
          rbind (if height > 0 then
                   (case deserializeVLQ (drop offset serialized) of (_, bytesRead) \<Rightarrow>
                      if offset + bytesRead \<ge> length serialized then Inl PlainError else Inr (offset + bytesRead))
                 else Inr offset) (\<lambda>offset.
          rbind (decodeCompressedTxOut parsePubKey serializeUncompressed (drop offset serialized)) (\<lambda>(amount, pkScript, bytesRead).
          Inr (\<lparr>so_Amount = i64 amount, so_PkScript = pkScript, so_Height = height, so_IsCoinBase = isCoinBase\<rparr>, offset + bytesRead))))"

text \<open>The loops run backwards: the result lists the outputs last first.\<close>

primrec readSpentTxOuts ::
  "(bytes \<Rightarrow> 'k option) \<Rightarrow> ('k \<Rightarrow> bytes) \<Rightarrow> nat \<Rightarrow> bytes \<Rightarrow> SpentTxOut list result" where
  "readSpentTxOuts parsePubKey serializeUncompressed 0 serialized = Inr []"
| "readSpentTxOuts parsePubKey serializeUncompressed (Suc n) serialized =
     rbind (decodeSpentTxOut parsePubKey serializeUncompressed serialized) (\<lambda>(stxo, k).
     rbind (readSpentTxOuts parsePubKey serializeUncompressed n (drop k serialized)) (\<lambda>stxos. Inr (stxo # stxos)))"

definition deserializeSpendJournalEntry ::
  "(bytes \<Rightarrow> 'k option) \<Rightarrow> ('k \<Rightarrow> bytes) \<Rightarrow> bytes \<Rightarrow> MsgTx list \<Rightarrow> SpentTxOut list result" where
  "deserializeSpendJournalEntry parsePubKey serializeUncompressed serialized txns =
     (let numStxos = foldl (\<lambda>n tx. n + length (tx_TxIn tx)) 0 txns in
      if length serialized = 0 then (if numStxos \<noteq> 0 then Inl AssertError else Inr [])
      else rbind (readSpentTxOuts parsePubKey serializeUncompressed numStxos serialized) (\<lambda>stxos. Inr (rev stxos)))"

definition serializeSpendJournalEntry :: "(bytes \<Rightarrow> 'k option) \<Rightarrow> SpentTxOut list \<Rightarrow> bytes" where
  "serializeSpendJournalEntry parsePubKey stxos = concat (map (putSpentTxOut parsePubKey) (rev stxos))"

definition journalTxns :: "MsgTx list \<Rightarrow> MsgTx list" where
  "journalTxns txs =
     filter (\<lambda>tx. tx_Version tx \<noteq> TxVersionVDFResult \<and> list_ex (\<lambda>txIn. \<not> IsPoolDrawSentinelInput txIn) (tx_TxIn tx)) txs"

definition dbFetchSpendJournalEntry ::
  "(bytes \<Rightarrow> 'k option) \<Rightarrow> ('k \<Rightarrow> bytes) \<Rightarrow> bucket \<Rightarrow> Block \<Rightarrow> SpentTxOut list result" where
  "dbFetchSpendJournalEntry parsePubKey serializeUncompressed spendBucket block =
     (case mb_Transactions (blk_msg block) of
        [] \<Rightarrow> Inl Panic
      | _ # txs \<Rightarrow>
          deserializeSpendJournalEntry parsePubKey serializeUncompressed
            (bget (BlockHash (mb_Header (blk_msg block))) spendBucket) (journalTxns txs))"

definition dbPutSpendJournalEntry :: "(bytes \<Rightarrow> 'k option) \<Rightarrow> bytes \<Rightarrow> SpentTxOut list \<Rightarrow> bucket \<Rightarrow> bucket" where
  "dbPutSpendJournalEntry parsePubKey blockHash stxos spendBucket =
     bput blockHash (serializeSpendJournalEntry parsePubKey stxos) spendBucket"

definition dbRemoveSpendJournalEntry :: "bytes \<Rightarrow> bucket \<Rightarrow> bucket" where
  "dbRemoveSpendJournalEntry blockHash spendBucket = bdel blockHash spendBucket"

definition dbPruneSpendJournalEntry :: "bytes list \<Rightarrow> bucket \<Rightarrow> bucket" where
  "dbPruneSpendJournalEntry blockHashes spendBucket = fold bdel blockHashes spendBucket"

subsection \<open>The set of unspent outputs\<close>

definition outpointKey :: "OutPoint \<Rightarrow> bytes" where
  "outpointKey outpoint = op_Hash outpoint @ putVLQ (op_Index outpoint)"

definition utxoEntryHeaderCode :: "UtxoEntry \<Rightarrow> int result" where
  "utxoEntryHeaderCode entry =
     (if IsSpent entry then Inl AssertError else Inr (headerCode (ue_blockHeight entry) (IsCoinBase entry)))"

definition serializeUtxoEntry :: "(bytes \<Rightarrow> 'k option) \<Rightarrow> UtxoEntry \<Rightarrow> bytes result" where
  "serializeUtxoEntry parsePubKey entry =
     (if IsSpent entry then Inr []
      else rbind (utxoEntryHeaderCode entry) (\<lambda>code.
           Inr (putVLQ code @ putCompressedTxOut parsePubKey (u64 (ue_amount entry)) (ue_pkScript entry))))"

definition deserializeUtxoEntry :: "(bytes \<Rightarrow> 'k option) \<Rightarrow> ('k \<Rightarrow> bytes) \<Rightarrow> bytes \<Rightarrow> UtxoEntry result" where
  "deserializeUtxoEntry parsePubKey serializeUncompressed serialized =
     (case deserializeVLQ serialized of (code, offset) \<Rightarrow>
        if offset \<ge> length serialized then Inl PlainError
        else
          rbind (decodeCompressedTxOut parsePubKey serializeUncompressed (drop offset serialized)) (\<lambda>(amount, pkScript, _).
          Inr \<lparr>ue_amount = i64 amount, ue_pkScript = pkScript, ue_blockHeight = i32 (code div 2),
               ue_packedFlags = (if code mod 2 \<noteq> 0 then tfCoinBase else 0)\<rparr>))"

definition dbFetchUtxoEntryByHash ::
  "(bytes \<Rightarrow> 'k option) \<Rightarrow> ('k \<Rightarrow> bytes) \<Rightarrow> bucket \<Rightarrow> bytes \<Rightarrow> UtxoEntry option result" where
  "dbFetchUtxoEntryByHash parsePubKey serializeUncompressed utxoBucket hash =
     (case bseek (outpointKey \<lparr>op_Hash = hash, op_Index = 0\<rparr>) utxoBucket of
        [] \<Rightarrow> Inr None
      | (cursorKey, cursorValue) # _ \<Rightarrow>
          if length cursorKey < 32 then Inr None
          else if hash \<noteq> take 32 cursorKey then Inr None
          else rbind (deserializeUtxoEntry parsePubKey serializeUncompressed cursorValue) (\<lambda>entry. Inr (Some entry)))"

definition dbFetchUtxoEntry ::
  "(bytes \<Rightarrow> 'k option) \<Rightarrow> ('k \<Rightarrow> bytes) \<Rightarrow> bucket \<Rightarrow> OutPoint \<Rightarrow> UtxoEntry option result" where
  "dbFetchUtxoEntry parsePubKey serializeUncompressed utxoBucket outpoint =
     (case map_of utxoBucket (outpointKey outpoint) of
        None \<Rightarrow> Inr None
      | Some serializedUtxo \<Rightarrow>
          if length serializedUtxo = 0 then Inl AssertError
          else rbind (deserializeUtxoEntry parsePubKey serializeUncompressed serializedUtxo) (\<lambda>entry. Inr (Some entry)))"

definition dbDeleteUtxoEntry :: "bucket \<Rightarrow> OutPoint \<Rightarrow> bucket" where
  "dbDeleteUtxoEntry utxoBucket outpoint = bdel (outpointKey outpoint) utxoBucket"

definition dbPutUtxoEntry :: "(bytes \<Rightarrow> 'k option) \<Rightarrow> bucket \<Rightarrow> OutPoint \<Rightarrow> UtxoEntry option \<Rightarrow> bucket result" where
  "dbPutUtxoEntry parsePubKey utxoBucket outpoint entry =
     (case entry of
        None \<Rightarrow> Inl AssertError
      | Some entry \<Rightarrow>
          if IsSpent entry then Inl AssertError
          else rbind (serializeUtxoEntry parsePubKey entry) (\<lambda>serialized. Inr (bput (outpointKey outpoint) serialized utxoBucket)))"

subsection \<open>The height index and the best state\<close>

definition dbPutBlockIndex :: "bytes \<Rightarrow> int \<Rightarrow> bucket \<times> bucket \<Rightarrow> bucket \<times> bucket" where
  "dbPutBlockIndex hash height = (\<lambda>(hashIndex, heightIndex).
     let serializedHeight = le_bytes 4 (u32 height) in
     (bput hash serializedHeight hashIndex, bput serializedHeight hash heightIndex))"

definition dbRemoveBlockIndex :: "bytes \<Rightarrow> int \<Rightarrow> bucket \<times> bucket \<Rightarrow> bucket \<times> bucket" where
  "dbRemoveBlockIndex hash height = (\<lambda>(hashIndex, heightIndex).
     (bdel hash hashIndex, bdel (le_bytes 4 (u32 height)) heightIndex))"

definition dbFetchHeightByHash :: "bucket \<Rightarrow> bytes \<Rightarrow> int result" where
  "dbFetchHeightByHash hashIndex hash =
     (case map_of hashIndex hash of
        None \<Rightarrow> Inl PlainError
      | Some serializedHeight \<Rightarrow>
          if length serializedHeight < 4 then Inl Panic else Inr (i32 (le_val (take 4 serializedHeight))))"

definition dbFetchHashByHeight :: "bucket \<Rightarrow> int \<Rightarrow> bytes result" where
  "dbFetchHashByHeight heightIndex height =
     (case map_of heightIndex (le_bytes 4 (u32 height)) of
        None \<Rightarrow> Inl PlainError
      | Some hashBytes \<Rightarrow> Inr (take 32 (hashBytes @ replicate 32 0)))"

record bestChainState =
  bc_hash :: bytes
  bc_height :: int
  bc_totalTxns :: int
  bc_workSum :: int

text \<open>\<^verbatim>\<open>big.Int.Bytes\<close>: the absolute value in big-endian order without leading zeros.\<close>

definition big_Bytes :: "int \<Rightarrow> bytes" where
  "big_Bytes x = rev (num_bytes \<bar>x\<bar>)"

definition serializeBestChainState :: "bestChainState \<Rightarrow> bytes" where
  "serializeBestChainState state =
     (let workSumBytes = big_Bytes (bc_workSum state) in
      bc_hash state @ le_bytes 4 (bc_height state) @ le_bytes 8 (bc_totalTxns state) @
      le_bytes 4 (u32 (int (length workSumBytes))) @ workSumBytes)"

definition deserializeBestChainState :: "bytes \<Rightarrow> bestChainState result" where
  "deserializeBestChainState serializedData =
     (if length serializedData < 32 + 16 then Inl PlainError
      else
        let workSumBytesLen = le_val (slice 44 48 serializedData) in
        if u32 (int (length (drop 48 serializedData))) < workSumBytesLen then Inl PlainError
        else Inr \<lparr>bc_hash = slice 0 32 serializedData, bc_height = le_val (slice 32 36 serializedData),
                  bc_totalTxns = le_val (slice 36 44 serializedData),
                  bc_workSum = be_val (take (nat workSumBytesLen) (drop 48 serializedData))\<rparr>)"

definition deserializeBlockRow :: "bytes \<Rightarrow> (BlockHeader \<times> byte) result" where
  "deserializeBlockRow blockRow =
     rbind (readBlockHeaderBuf blockRow) (\<lambda>(header, rest).
     case rest of [] \<Rightarrow> Inl PlainError | statusByte # _ \<Rightarrow> Inr (header, statusByte))"

definition blockIndexKey :: "bytes \<Rightarrow> int \<Rightarrow> bytes" where
  "blockIndexKey blockHash blockHeight = be_bytes 4 blockHeight @ blockHash"

definition dbStoreBlockNode :: "BlockHeader \<Rightarrow> byte \<Rightarrow> bytes \<Rightarrow> int \<Rightarrow> bucket \<Rightarrow> bucket" where
  "dbStoreBlockNode header status hash height blockIndexBucket =
     bput (blockIndexKey hash (u32 height)) (writeBlockHeaderBuf header @ [status]) blockIndexBucket"

section \<open>Variable-length quantities\<close>

lemma vlq_byte:
  "uint (or (word_of_int (n mod 128) :: byte) 0x80) = n mod 128 + 128"
  "uint (word_of_int (n mod 128) :: byte) = n mod 128"
proof -
  show *: "uint (word_of_int (n mod 128) :: byte) = n mod 128" by (simp add: mod_mod_cancel)
  show "uint (or (word_of_int (n mod 128) :: byte) 0x80) = n mod 128 + 128"
    using or_128 [of "word_of_int (n mod 128)"] * by simp
qed

lemma dec_high: "0 \<le> n \<Longrightarrow> n + 1 < 2 ^ 64 \<Longrightarrow>
  deserializeVLQ_loop 0 k (rev (putVLQ_loop 0x80 n) @ xs) = deserializeVLQ_loop (n + 1) (k + length (putVLQ_loop 0x80 n)) xs"
proof (induction "0x80 :: byte" n arbitrary: xs rule: putVLQ_loop.induct)
  case (1 n)
  let ?b = "or (word_of_int (n mod 128) :: byte) 0x80"
  have b: "and ?b 0x80 = 0x80" "uint ?b mod 128 = n mod 128" using vlq_byte(1) [of n] by (simp_all add: and_128_eq)
  show ?case
  proof (cases "n \<le> 0x7f")
    case True
    then show ?thesis using 1(2,3) b by (subst (1 2) putVLQ_loop.simps) (simp add: u64_def)
  next
    case False
    let ?m = "n div 128 - 1"
    have r: "putVLQ_loop 0x80 n = ?b # putVLQ_loop 0x80 ?m" using False by (subst putVLQ_loop.simps) simp
    have m: "u64 (n div 128 * 128) = n div 128 * 128" "u64 (n + 1) = n + 1" using 1(2,3) by (intro u64_id; simp)+
    have "deserializeVLQ_loop 0 k (rev (putVLQ_loop 0x80 ?m) @ ?b # xs) =
        deserializeVLQ_loop (n div 128) (k + length (putVLQ_loop 0x80 ?m)) (?b # xs)"
      using 1(1) [of "?b # xs"] False 1(3) by simp
    also have "\<dots> = deserializeVLQ_loop (n + 1) (k + length (putVLQ_loop 0x80 n)) xs"
      using b m unfolding r by (simp add: Let_def)
    finally show ?thesis unfolding r by simp
  qed
qed

lemma VLQ_roundtrip:
  assumes "is_u64 n"
  shows "deserializeVLQ (putVLQ n @ xs) = (n, length (putVLQ n))"
proof -
  let ?b = "word_of_int (n mod 128) :: byte"
  have b: "and ?b 0x80 \<noteq> 0x80" "uint ?b mod 128 = n mod 128"
    using vlq_byte(2) [of n] and_128_eq [of ?b] by (simp_all add: not_le)
  show ?thesis
  proof (cases "n \<le> 0x7f")
    case True
    then have "putVLQ n = [?b]" by (simp add: putVLQ_def putVLQ_loop.simps [of _ n])
    then show ?thesis using True assms b by (simp add: deserializeVLQ_def u64_def)
  next
    case False
    let ?m = "n div 128 - 1"
    have r: "putVLQ n = rev (putVLQ_loop 0x80 ?m) @ [?b]" using False by (simp add: putVLQ_def putVLQ_loop.simps [of _ n])
    have "deserializeVLQ_loop 0 0 (rev (putVLQ_loop 0x80 ?m) @ ?b # xs) =
        deserializeVLQ_loop (n div 128) (length (putVLQ_loop 0x80 ?m)) (?b # xs)"
      using dec_high [of ?m 0 "?b # xs"] False assms by simp
    moreover have "n div 128 * 128 \<le> n" "0 \<le> n div 128 * 128" using assms by (simp_all add: minus_mod_eq_div_mult [symmetric] zmod_le_nonneg_dividend)
    then have "u64 (n div 128 * 128) = n div 128 * 128" using assms by (intro u64_id) linarith
    ultimately show ?thesis using b unfolding r by (simp add: deserializeVLQ_def Let_def)
  qed
qed

lemma length_putVLQ_loop: "serializeSizeVLQ_loop k n + 1 = k + length (putVLQ_loop b n)"
proof (induction b n arbitrary: k rule: putVLQ_loop.induct)
  case (1 b n)
  show ?case
  proof (cases "n \<le> 0x7f")
    case False
    then show ?thesis using 1 [OF False, of "k + 1"] by (simp add: serializeSizeVLQ_loop.simps [of k n] putVLQ_loop.simps [of b n])
  qed (simp add: serializeSizeVLQ_loop.simps [of k n] putVLQ_loop.simps [of b n])
qed

lemma length_putVLQ: "length (putVLQ n) = serializeSizeVLQ n"
  using length_putVLQ_loop [of 1 n 0] by (simp add: putVLQ_def serializeSizeVLQ_def)

lemma putVLQ_bound: "n < 128 ^ k \<Longrightarrow> 0 < k \<Longrightarrow> length (putVLQ n) \<le> k"
proof -
  have "n < 128 ^ k \<Longrightarrow> 0 < k \<Longrightarrow> length (putVLQ_loop b n) \<le> k" for b
  proof (induction b n arbitrary: k rule: putVLQ_loop.induct)
    case (1 b n)
    show ?case
    proof (cases "n \<le> 0x7f")
      case False
      then obtain j where j: "k = Suc j" "0 < j" using 1(2,3) by (cases k; cases "k - 1") auto
      have "n div 128 - 1 < 128 ^ j" using 1(2) j(1) by (simp add: div_less_iff_less_mult)
      then show ?thesis using 1(1) [OF False _ j(2)] False j(1) by (simp add: putVLQ_loop.simps [of b n])
    qed (use 1(3) in \<open>simp add: putVLQ_loop.simps [of b n]\<close>)
  qed
  then show "n < 128 ^ k \<Longrightarrow> 0 < k \<Longrightarrow> ?thesis" by (simp add: putVLQ_def)
qed

lemma putVLQ_not_Nil [simp]: "putVLQ n \<noteq> []"
  by (simp add: putVLQ_def putVLQ_loop.simps [of _ n])

lemma putVLQ_small: "0 \<le> n \<Longrightarrow> n \<le> 127 \<Longrightarrow> putVLQ n = [word_of_int n]"
  by (simp add: putVLQ_def putVLQ_loop.simps [of _ n])

lemma VLQ_small: "uint b < 128 \<Longrightarrow> deserializeVLQ (b # xs) = (uint b, 1)"
  by (simp add: deserializeVLQ_def and_128_eq u64_def not_le [symmetric])

section \<open>Amounts\<close>

lemma compressAmount_loop_spec:
  "compressAmount_loop k a e = (a', e') \<Longrightarrow> 0 < a \<Longrightarrow>
   0 < a' \<and> e \<le> e' \<and> e' \<le> e + int k \<and> a = a' * 10 ^ nat (e' - e) \<and> (e' < e + int k \<longrightarrow> a' mod 10 \<noteq> 0)"
proof (induction k arbitrary: a e)
  case (Suc k)
  show ?case
  proof (cases "a mod 10 = 0")
    case True
    then have r: "compressAmount_loop k (a div 10) (e + 1) = (a', e')" using Suc.prems(1) by simp
    have p: "0 < a div 10" "a = a div 10 * 10" using True Suc.prems(2) by auto
    note IH = Suc.IH [OF r p(1)]
    have "e + 1 \<le> e'" using IH by simp
    then have "nat (e' - e) = Suc (nat (e' - (e + 1)))" by simp
    then have "a' * 10 ^ nat (e' - e) = a" using IH p(2) by simp
    then show ?thesis using IH by simp
  qed (use Suc.prems in auto)
qed simp

lemma decompressAmount_loop_eq: "0 \<le> n \<Longrightarrow> n * 10 ^ k < 2 ^ 64 \<Longrightarrow> decompressAmount_loop k n = n * 10 ^ k"
proof (induction k arbitrary: n)
  case (Suc k)
  have "n * 10 \<le> n * 10 * 10 ^ k" using Suc.prems(1) by (simp add: mult_le_cancel_left1)
  then have "u64 (n * 10) = n * 10" using Suc.prems by (intro u64_id) (simp add: algebra_simps)
  then show ?case using Suc by (simp add: algebra_simps)
qed simp

lemma amount_roundtrip:
  assumes "0 \<le> a" "10 * a < 2 ^ 64"
  shows "decompressTxOutAmount (compressTxOutAmount a) = a" "is_u64 (compressTxOutAmount a)"
proof -
  show "is_u64 (compressTxOutAmount a)" by (simp add: compressTxOutAmount_def Let_def split: prod.split)
  show "decompressTxOutAmount (compressTxOutAmount a) = a"
  proof (cases "a = 0")
    case False
    obtain m e where l: "compressAmount_loop 9 a 0 = (m, e)" by (cases "compressAmount_loop 9 a 0")
    have s: "0 < m" "0 \<le> e" "e \<le> 9" "a = m * 10 ^ nat e" "e < 9 \<Longrightarrow> m mod 10 \<noteq> 0"
      using compressAmount_loop_spec [OF l] False assms(1) by simp_all
    have ma: "m \<le> a" using s(1,4) by (simp add: mult_le_cancel_left1)
    show ?thesis
    proof (cases "e < 9")
      case True
      define x where "x = 9 * (m div 10) + m mod 10 - 1"
      have d: "1 \<le> m mod 10" "m mod 10 \<le> 9" using s(5) True pos_mod_bound [of 10 m] pos_mod_sign [of 10 m] by linarith+
      have "m = 10 * (m div 10) + m mod 10" "0 \<le> m div 10" using s(1) by simp_all
      then have x: "0 \<le> x" "x \<le> m - 1" using d unfolding x_def by linarith+
      then have "u64 (1 + 10 * x + e) = 1 + 10 * x + e" using ma assms(2) s(2) True by (intro u64_id) simp
      then have c: "compressTxOutAmount a = 1 + 10 * x + e" using False l True by (simp add: compressTxOutAmount_def Let_def x_def)
      have c0: "0 < compressTxOutAmount a" using c x s(2) by linarith
      have q: "1 + 10 * x + e - 1 = 10 * x + e" "(10 * x + e) mod 10 = e" "(10 * x + e) div 10 = x" using s(2) True by simp_all
      have r: "x mod 9 = m mod 10 - 1" "x div 9 = m div 10"
      proof -
        have "(r + 9 * q) mod 9 = r" "(r + 9 * q) div 9 = q" if "0 \<le> r" "r < 9" for r q :: int using that by simp_all
        from this [of "m mod 10 - 1" "m div 10"] d show "x mod 9 = m mod 10 - 1" "x div 9 = m div 10"
          unfolding x_def by (simp_all add: algebra_simps)
      qed
      have u: "u64 (m div 10 * 10 + (m mod 10 - 1 + 1)) = m" using ma assms s(1) by (simp add: u64_def)
      have "decompressAmount_loop (nat e) m = a"
        using decompressAmount_loop_eq [of m "nat e"] s(1,4) assms(2) by simp
      then show ?thesis
        using c0 True unfolding decompressTxOutAmount_def c Let_def q r u by (auto simp only: if_True if_False split: if_split)
    next
      case False
      then have e: "e = 9" using s(3) by simp
      have "u64 (10 + 10 * (m - 1)) = 10 * m" using ma assms(2) s(1) by (simp add: u64_def)
      then have c: "compressTxOutAmount a = 10 * m" using \<open>a \<noteq> 0\<close> l e by (simp add: compressTxOutAmount_def)
      have q: "(10 * m - 1) mod 10 = 9" "(10 * m - 1) div 10 = m - 1" "m - 1 + 1 = m" by presburger+
      have "decompressAmount_loop (nat 9) m = a" using decompressAmount_loop_eq [of m 9] s(1,4) assms(2) e by simp
      then show ?thesis using s(1) unfolding decompressTxOutAmount_def c Let_def q by simp
    qed
  qed (simp add: compressTxOutAmount_def decompressTxOutAmount_def)
qed


section \<open>Scripts\<close>

text \<open>
  What the compression relies on of the public key library: a valid uncompressed key is what the
  library gives back for its compressed form, the parity of the second coordinate and the first
  coordinate.
\<close>

definition pubkeys_ok :: "(bytes \<Rightarrow> 'k option) \<Rightarrow> ('k \<Rightarrow> bytes) \<Rightarrow> bool" where
  "pubkeys_ok parsePubKey serializeUncompressed \<longleftrightarrow>
     (\<forall>key. length key = 65 \<and> key ! 0 = 0x04 \<and> parsePubKey key \<noteq> None \<longrightarrow>
        (\<exists>k. parsePubKey ((if odd (uint (key ! 64)) then 0x03 else 0x02) # slice 1 33 key) = Some k \<and>
             serializeUncompressed k = key))"

lemma isPubKeyHash_Some: "isPubKeyHash s = Some h \<longleftrightarrow> length h = 20 \<and> s = [OP_DUP, OP_HASH160, OP_DATA_20] @ h @ [OP_EQUALVERIFY, OP_CHECKSIG]"
proof
  assume a: "isPubKeyHash s = Some h"
  then have l: "length s = 25" and h: "h = slice 3 23 s" and b: "s ! 0 = OP_DUP" "s ! 1 = OP_HASH160" "s ! 2 = OP_DATA_20" "s ! 23 = OP_EQUALVERIFY" "s ! 24 = OP_CHECKSIG"
    by (auto simp: isPubKeyHash_def split: if_splits)
  have "s = slice 0 3 s @ slice 3 23 s @ slice 23 25 s"
    using l slice_split [of 0 3 25 s] slice_split [of 3 23 25 s] by simp
  moreover have "slice 0 3 s = [OP_DUP, OP_HASH160, OP_DATA_20]"
    using l b slice_step [of 0 3 s] slice_step [of 1 3 s] slice_step [of 2 3 s] by (simp add: slice_empty numeral_2_eq_2)
  moreover have "slice 23 25 s = [OP_EQUALVERIFY, OP_CHECKSIG]"
    using l b slice_step [of 23 25 s] slice_step [of 24 25 s] by (simp add: slice_empty)
  ultimately show "length h = 20 \<and> s = [OP_DUP, OP_HASH160, OP_DATA_20] @ h @ [OP_EQUALVERIFY, OP_CHECKSIG]"
    using h l by simp
qed (simp add: isPubKeyHash_def nth_append nth_Cons')

lemma isScriptHash_Some: "isScriptHash s = Some h \<longleftrightarrow> length h = 20 \<and> s = [OP_HASH160, OP_DATA_20] @ h @ [OP_EQUAL]"
proof
  assume a: "isScriptHash s = Some h"
  then have l: "length s = 23" and h: "h = slice 2 22 s" and b: "s ! 0 = OP_HASH160" "s ! 1 = OP_DATA_20" "s ! 22 = OP_EQUAL"
    by (auto simp: isScriptHash_def split: if_splits)
  have "s = slice 0 2 s @ slice 2 22 s @ slice 22 23 s"
    using l slice_split [of 0 2 23 s] slice_split [of 2 22 23 s] by simp
  moreover have "slice 0 2 s = [OP_HASH160, OP_DATA_20]"
    using l b slice_step [of 0 2 s] slice_step [of 1 2 s] by (simp add: slice_empty)
  moreover have "slice 22 23 s = [OP_EQUAL]" using l b slice_step [of 22 23 s] by (simp add: slice_empty)
  ultimately show "length h = 20 \<and> s = [OP_HASH160, OP_DATA_20] @ h @ [OP_EQUAL]" using h l by simp
qed (simp add: isScriptHash_def nth_append nth_Cons')

lemma isPubKey_Some:
  assumes "isPubKey parse s = Some k"
  shows "length k = 33 \<and> (k ! 0 = 0x02 \<or> k ! 0 = 0x03) \<and> s = OP_DATA_33 # k @ [OP_CHECKSIG] \<or>
    length k = 65 \<and> k ! 0 = 0x04 \<and> parse k \<noteq> None \<and> s = OP_DATA_65 # k @ [OP_CHECKSIG]"
proof -
  have *: "s = s ! 0 # slice 1 n s @ [s ! n]" if "length s = Suc n" "0 < n" for n
    using that slice_split [of 1 n "Suc n" s] slice_step [of 0 "Suc n" s] slice_step [of n "Suc n" s] by (simp add: slice_empty)
  consider "length s = 35" "k = slice 1 34 s" "s ! 0 = OP_DATA_33" "s ! 34 = OP_CHECKSIG" "s ! 1 = 0x02 \<or> s ! 1 = 0x03"
    | "length s = 67" "k = slice 1 66 s" "s ! 0 = OP_DATA_65" "s ! 66 = OP_CHECKSIG" "s ! 1 = 0x04" "parse k \<noteq> None"
    using assms by (auto simp: isPubKey_def split: if_splits)
  then show ?thesis
  proof cases
    case 1
    then show ?thesis using * [of 34] by (auto simp: slice_def)
  next
    case 2
    then show ?thesis using * [of 66] by (auto simp: slice_def)
  qed
qed

lemma length_putCompressedScript: "length (putCompressedScript parse s) = compressedScriptSize parse s"
proof (cases "isPubKeyHash s")
  case None
  note n1 = this
  show ?thesis
  proof (cases "isScriptHash s")
    case None
    note n2 = this
    show ?thesis
    proof (cases "isPubKey parse s")
      case None
      then show ?thesis using n1 n2 by (simp add: putCompressedScript_def compressedScriptSize_def length_putVLQ)
    next
      case (Some k)
      then show ?thesis using n1 n2 isPubKey_Some [OF Some] by (auto simp: putCompressedScript_def compressedScriptSize_def)
    qed
  next
    case (Some h)
    then show ?thesis using n1 isScriptHash_Some [of s h] by (simp add: putCompressedScript_def compressedScriptSize_def)
  qed
next
  case (Some h)
  then show ?thesis using isPubKeyHash_Some [of s h] by (simp add: putCompressedScript_def compressedScriptSize_def)
qed

lemma byte_flag: "or (0x04 :: byte) (and x 0x01) = (if odd (uint x) then 0x05 else 0x04)"
proof -
  have "odd (uint x) \<longleftrightarrow> bit x 0" using bit_uint_iff [of x 0] by (simp add: bit_0)
  moreover have "and x 1 = of_bool (bit x 0)" by (rule bit_word_eqI) (auto simp: bit_and_iff bit_1_iff intro: gr0I)
  ultimately have "and x 1 = (if odd (uint x) then 1 else 0)" by simp
  then show ?thesis by simp
qed

text \<open>A compressed script is a head byte below 6 with 20 or 32 bytes, or a length with the script.\<close>

lemma putCompressedScript_cases:
  obtains h where "s = [OP_DUP, OP_HASH160, OP_DATA_20] @ h @ [OP_EQUALVERIFY, OP_CHECKSIG]" "length h = 20" "putCompressedScript parse s = 0 # h" "compressedScriptSize parse s = 21"
  | h where "s = [OP_HASH160, OP_DATA_20] @ h @ [OP_EQUAL]" "length h = 20" "putCompressedScript parse s = 1 # h" "compressedScriptSize parse s = 21"
  | t x where "s = OP_DATA_33 # t # x @ [OP_CHECKSIG]" "t = 0x02 \<or> t = 0x03" "length x = 32" "putCompressedScript parse s = t # x" "compressedScriptSize parse s = 33"
  | k where "s = OP_DATA_65 # k @ [OP_CHECKSIG]" "length k = 65" "k ! 0 = 0x04" "parse k \<noteq> None"
      "putCompressedScript parse s = (if odd (uint (k ! 64)) then 0x05 else 0x04) # slice 1 33 k" "compressedScriptSize parse s = 33"
  | "putCompressedScript parse s = putVLQ (int (length s) + 6) @ s" "compressedScriptSize parse s = length (putVLQ (int (length s) + 6)) + length s"
proof (cases "isPubKeyHash s")
  case (Some h)
  then show thesis using isPubKeyHash_Some [of s h] that(1) [of h] by (simp add: putCompressedScript_def compressedScriptSize_def)
next
  case None
  note n1 = this
  show thesis
  proof (cases "isScriptHash s")
    case (Some h)
    then show thesis using n1 isScriptHash_Some [of s h] that(2) [of h] by (simp add: putCompressedScript_def compressedScriptSize_def)
  next
    case None
    note n2 = this
    show thesis
    proof (cases "isPubKey parse s")
      case None
      then show thesis using n1 n2 that(5) by (simp add: putCompressedScript_def compressedScriptSize_def length_putVLQ numSpecialScripts_def)
    next
      case (Some k)
      have sz: "compressedScriptSize parse s = 33" using n1 n2 Some by (simp add: compressedScriptSize_def)
      consider (c) "length k = 33" "s = OP_DATA_33 # k @ [OP_CHECKSIG]" "k ! 0 = 0x02 \<or> k ! 0 = 0x03"
        | (u) "length k = 65" "s = OP_DATA_65 # k @ [OP_CHECKSIG]" "k ! 0 = 0x04" "parse k \<noteq> None"
        using isPubKey_Some [OF Some] by blast
      then show thesis
      proof cases
        case k: c
        then obtain t x where t: "k = t # x" "length x = 32" by (cases k) auto
        then have "putCompressedScript parse s = t # x"
          using n1 n2 Some k(3) by (auto simp: putCompressedScript_def)
        then show thesis using k t sz that(3) [of t x] by simp
      next
        case k: u
        then have "putCompressedScript parse s = (if odd (uint (k ! 64)) then 0x05 else 0x04) # slice 1 33 k"
          using n1 n2 Some by (simp add: putCompressedScript_def byte_flag)
        then show thesis using k sz that(4) [of k] by simp
      qed
    qed
  qed
qed


lemma script_size_roundtrip:
  assumes "length s < 2 ^ 31"
  shows "decodeCompressedScriptSize (putCompressedScript parse s @ rest) = int (compressedScriptSize parse s)"
proof (cases rule: putCompressedScript_cases [of s parse])
  case 5
  let ?n = "int (length s) + 6"
  have v: "deserializeVLQ (putVLQ ?n @ s @ rest) = (?n, length (putVLQ ?n))" using assms by (intro VLQ_roundtrip) simp
  have l: "length (putVLQ ?n) \<le> 5" using assms by (intro putVLQ_bound) simp_all
  have "u64 (?n - 6) = int (length s)" using assms by (simp add: u64_def)
  moreover have "u64 (int (length s) + int (length (putVLQ ?n))) = int (length s) + int (length (putVLQ ?n))"
    using assms l by (intro u64_id) simp
  moreover have "i64 (int (length s) + int (length (putVLQ ?n))) = int (length s) + int (length (putVLQ ?n))"
    using assms l by (intro i64_id) simp
  moreover have "putVLQ ?n \<noteq> []" by simp
  ultimately show ?thesis using 5 v by (simp add: decodeCompressedScriptSize_def numSpecialScripts_def del: putVLQ_not_Nil)
qed (auto simp: decodeCompressedScriptSize_def VLQ_small)

lemma script_roundtrip:
  assumes "pubkeys_ok parse ser" and "length s < 2 ^ 31"
  shows "decompressScript parse ser (putCompressedScript parse s) = Inr s"
proof (cases rule: putCompressedScript_cases [of s parse])
  case (4 k)
  obtain key where key: "parse ((if odd (uint (k ! 64)) then 0x03 else 0x02) # slice 1 33 k) = Some key" "ser key = k"
    using assms(1) 4 unfolding pubkeys_ok_def by blast
  have "take 32 (slice 1 33 k @ replicate 32 0) = slice 1 33 k" using 4(2) by (simp add: slice_def)
  moreover have "take 65 (k @ replicate 65 0) = k" using 4(2) by simp
  ultimately show ?thesis using 4 key by (auto simp: decompressScript_def VLQ_small Let_def)
next
  case 5
  let ?n = "int (length s) + 6"
  have v: "deserializeVLQ (putVLQ ?n @ s) = (?n, length (putVLQ ?n))" using assms(2) by (intro VLQ_roundtrip) simp
  have "i64 (u64 (?n - 6)) = int (length s)" using assms(2) by (simp add: u64_def i64_def)
  then show ?thesis using 5 v by (simp add: decompressScript_def numSpecialScripts_def Let_def slice_def)
qed (auto simp: decompressScript_def VLQ_small slice_def)

lemma TxOut_roundtrip:
  assumes "pubkeys_ok parse ser" and "length s < 2 ^ 31" and "0 \<le> a" "10 * a < 2 ^ 64"
  shows "decodeCompressedTxOut parse ser (putCompressedTxOut parse a s @ rest) = Inr (a, s, compressedTxOutSize parse a s)"
proof -
  let ?p = "putVLQ (compressTxOutAmount a)" and ?q = "putCompressedScript parse s"
  have v: "deserializeVLQ (?p @ ?q @ rest) = (compressTxOutAmount a, length ?p)"
    by (rule VLQ_roundtrip [OF amount_roundtrip(2) [OF assms(3,4)]])
  have "?q \<noteq> []" by (cases rule: putCompressedScript_cases [of s parse]) (auto split: if_splits)
  then have "0 < compressedScriptSize parse s" using length_putCompressedScript [of parse s] by (metis length_greater_0_conv)
  moreover have "slice (length ?p) (length ?p + compressedScriptSize parse s) (?p @ ?q @ rest) = ?q"
    by (simp add: slice_def length_putCompressedScript)
  ultimately show ?thesis
    using v script_size_roundtrip [OF assms(2), of parse rest] script_roundtrip [OF assms(1,2)] amount_roundtrip(1) [OF assms(3,4)]
    by (simp add: decodeCompressedTxOut_def putCompressedTxOut_def compressedTxOutSize_def length_putVLQ length_putCompressedScript Let_def)
qed


section \<open>Records\<close>

definition stored_ok :: "SpentTxOut \<Rightarrow> bool" where
  "stored_ok s \<longleftrightarrow> 0 \<le> so_Amount s \<and> 10 * so_Amount s < 2 ^ 64 \<and> length (so_PkScript s) < 2 ^ 31 \<and>
     0 \<le> so_Height s \<and> so_Height s < 2 ^ 31"

lemma headerCode_eq: "0 \<le> h \<Longrightarrow> h < 2 ^ 31 \<Longrightarrow> headerCode h cb = 2 * h + (if cb then 1 else 0)"
  by (simp add: headerCode_def u64_def)

lemma headerCode_read:
  assumes "0 \<le> h" "h < 2 ^ 31"
  shows "is_u64 (headerCode h cb)" "i32 (headerCode h cb div 2) = h" "headerCode h cb mod 2 \<noteq> 0 \<longleftrightarrow> cb"
proof -
  have "headerCode h cb div 2 = h" using headerCode_eq [OF assms, of cb] by simp
  then show "i32 (headerCode h cb div 2) = h" using assms by (simp add: i32_id)
  show "is_u64 (headerCode h cb)" "headerCode h cb mod 2 \<noteq> 0 \<longleftrightarrow> cb"
    using headerCode_eq [OF assms, of cb] assms by auto
qed

lemma stored_amount: "stored_ok s \<Longrightarrow> u64 (so_Amount s) = so_Amount s" "stored_ok s \<Longrightarrow> i64 (so_Amount s) = so_Amount s"
  by (auto simp: stored_ok_def u64_id i64_nonneg)

lemma putCompressedTxOut_not_Nil [simp]: "putCompressedTxOut parse a s \<noteq> []"
  by (simp add: putCompressedTxOut_def)

lemma length_putCompressedTxOut: "length (putCompressedTxOut parse a s) = compressedTxOutSize parse a s"
  by (simp add: putCompressedTxOut_def compressedTxOutSize_def length_putVLQ length_putCompressedScript)

lemma utxo_entry_roundtrip:
  assumes "pubkeys_ok parse ser" and "\<not> IsSpent e" and "stored_ok (toSpentTxOut e)"
  shows "\<exists>b. serializeUtxoEntry parse e = Inr b \<and> b \<noteq> [] \<and>
    deserializeUtxoEntry parse ser b = Inr (e\<lparr>ue_packedFlags := (if IsCoinBase e then tfCoinBase else 0)\<rparr>)"
proof -
  let ?c = "headerCode (ue_blockHeight e) (IsCoinBase e)" and ?t = "putCompressedTxOut parse (u64 (ue_amount e)) (ue_pkScript e)"
  have r: "0 \<le> ue_blockHeight e" "ue_blockHeight e < 2 ^ 31" "length (ue_pkScript e) < 2 ^ 31" "0 \<le> ue_amount e" "10 * ue_amount e < 2 ^ 64"
    and a: "u64 (ue_amount e) = ue_amount e" "i64 (ue_amount e) = ue_amount e"
    using assms(3) stored_amount [OF assms(3)] by (simp_all add: stored_ok_def toSpentTxOut_def)
  have s: "serializeUtxoEntry parse e = Inr (putVLQ ?c @ ?t)"
    using assms(2) by (simp add: serializeUtxoEntry_def utxoEntryHeaderCode_def)
  have "deserializeVLQ (putVLQ ?c @ ?t) = (?c, length (putVLQ ?c))" by (rule VLQ_roundtrip [OF headerCode_read(1) [OF r(1,2)]])
  moreover have "decodeCompressedTxOut parse ser ?t = Inr (ue_amount e, ue_pkScript e, compressedTxOutSize parse (ue_amount e) (ue_pkScript e))"
    using TxOut_roundtrip [OF assms(1) r(3-5), of "[]"] a by simp
  ultimately have "deserializeUtxoEntry parse ser (putVLQ ?c @ ?t) = Inr (e\<lparr>ue_packedFlags := (if IsCoinBase e then tfCoinBase else 0)\<rparr>)"
    using headerCode_read(2,3) [OF r(1,2), of "IsCoinBase e"] a by (cases e) (simp add: deserializeUtxoEntry_def)
  then show ?thesis using s by simp
qed

lemma stxo_roundtrip:
  assumes "pubkeys_ok parse ser" and "stored_ok s"
  shows "decodeSpentTxOut parse ser (putSpentTxOut parse s @ rest) = Inr (s, length (putSpentTxOut parse s))"
proof -
  let ?c = "spentTxOutHeaderCode s" and ?t = "putCompressedTxOut parse (u64 (so_Amount s)) (so_PkScript s)"
  have r: "0 \<le> so_Height s" "so_Height s < 2 ^ 31" "length (so_PkScript s) < 2 ^ 31" "0 \<le> so_Amount s" "10 * so_Amount s < 2 ^ 64"
    using assms(2) by (simp_all add: stored_ok_def)
  note a = stored_amount [OF assms(2)]
  note h = headerCode_read [OF r(1,2), of "so_IsCoinBase s", folded spentTxOutHeaderCode_def]
  have t: "decodeCompressedTxOut parse ser (?t @ rest) = Inr (so_Amount s, so_PkScript s, length ?t)"
    using TxOut_roundtrip [OF assms(1) r(3-5), of rest] a by (simp add: length_putCompressedTxOut)
  have v: "deserializeVLQ (putVLQ ?c @ xs) = (?c, length (putVLQ ?c))" for xs by (rule VLQ_roundtrip [OF h(1)])
  have s: "\<lparr>so_Amount = so_Amount s, so_PkScript = so_PkScript s, so_Height = so_Height s, so_IsCoinBase = so_IsCoinBase s\<rparr> = s" by simp
  show ?thesis
  proof (cases "so_Height s > 0")
    case True
    have z: "putVLQ 0 = [0]" "deserializeVLQ (0 # xs) = (0, 1)" for xs by (simp_all add: putVLQ_small VLQ_small)
    show ?thesis using True v t h a by (simp add: decodeSpentTxOut_def putSpentTxOut_def z)
  next
    case False
    then show ?thesis using v t h a by (simp add: decodeSpentTxOut_def putSpentTxOut_def)
  qed
qed

lemma length_putSpentTxOut: "length (putSpentTxOut parse s) = spentTxOutSerializeSize parse s"
  by (simp add: putSpentTxOut_def spentTxOutSerializeSize_def Let_def length_putVLQ length_putCompressedTxOut)

lemma read_journal:
  assumes "pubkeys_ok parse ser" and "list_all stored_ok xs"
  shows "readSpentTxOuts parse ser n (concat (map (putSpentTxOut parse) xs)) =
    (if n \<le> length xs then Inr (take n xs) else Inl PlainError)"
  using assms(2)
proof (induction xs arbitrary: n)
  case Nil
  show ?case by (cases n) (simp_all add: decodeSpentTxOut_def)
next
  case (Cons x xs)
  show ?case
  proof (cases n)
    case (Suc k)
    have "decodeSpentTxOut parse ser (putSpentTxOut parse x @ concat (map (putSpentTxOut parse) xs)) = Inr (x, length (putSpentTxOut parse x))"
      using stxo_roundtrip [OF assms(1)] Cons.prems by simp
    then show ?thesis using Suc Cons by simp
  qed simp
qed


section \<open>Buckets\<close>

lemma putVLQ_inj: "is_u64 a \<Longrightarrow> is_u64 b \<Longrightarrow> putVLQ a = putVLQ b \<Longrightarrow> a = b"
  using VLQ_roundtrip [of a "[]"] VLQ_roundtrip [of b "[]"] by simp

lemma outpointKey_inj:
  assumes "outpoint_ok x" "outpoint_ok y" "outpointKey x = outpointKey y"
  shows "x = y"
  using assms putVLQ_inj [of "op_Index x" "op_Index y"] by (cases x; cases y) (auto simp: outpointKey_def outpoint_ok_def)

section \<open>Counting\<close>

definition mixed :: "MsgTx \<Rightarrow> bool" where
  "mixed tx \<longleftrightarrow> tx_Version tx \<noteq> TxVersionVDFResult \<and> list_ex IsPoolDrawSentinelInput (tx_TxIn tx) \<and>
     list_ex (\<lambda>txIn. \<not> IsPoolDrawSentinelInput txIn) (tx_TxIn tx)"

lemma journal_counts:
  "foldl (\<lambda>n tx. n + length (tx_TxIn tx)) a (journalTxns txs) \<ge>
     foldl (\<lambda>n tx. if IsVDFResultTx tx then n else n + length (filter (\<lambda>i. \<not> IsPoolDrawSentinelInput i) (tx_TxIn tx))) a txs \<and>
   (foldl (\<lambda>n tx. n + length (tx_TxIn tx)) a (journalTxns txs) =
     foldl (\<lambda>n tx. if IsVDFResultTx tx then n else n + length (filter (\<lambda>i. \<not> IsPoolDrawSentinelInput i) (tx_TxIn tx))) a txs \<longleftrightarrow>
    \<not> list_ex mixed txs)"
proof -
  let ?f = "\<lambda>txs. sum_list (map (\<lambda>tx. length (tx_TxIn tx)) (journalTxns txs))"
  let ?real = "\<lambda>tx. if IsVDFResultTx tx then 0 else length (filter (\<lambda>i. \<not> IsPoolDrawSentinelInput i) (tx_TxIn tx))"
  have f: "foldl (\<lambda>n tx. n + length (tx_TxIn tx)) a ts = a + sum_list (map (\<lambda>tx. length (tx_TxIn tx)) ts)" for a ts
    by (induction ts arbitrary: a) simp_all
  have g: "foldl (\<lambda>n tx. if IsVDFResultTx tx then n else n + length (filter (\<lambda>i. \<not> IsPoolDrawSentinelInput i) (tx_TxIn tx))) a ts =
      a + sum_list (map ?real ts)" for a ts
    by (induction ts arbitrary: a) simp_all
  have one: "?real tx \<le> ?f [tx] \<and> (?f [tx] = ?real tx \<longleftrightarrow> \<not> mixed tx)" for tx
  proof (cases "IsVDFResultTx tx")
    case True
    then show ?thesis by (simp add: journalTxns_def mixed_def IsVDFResultTx_def)
  next
    case False
    have l: "length (filter (\<lambda>i. \<not> IsPoolDrawSentinelInput i) xs) \<le> length xs" for xs by simp
    have e: "length (filter (\<lambda>i. \<not> IsPoolDrawSentinelInput i) xs) = length xs \<longleftrightarrow> \<not> list_ex IsPoolDrawSentinelInput xs" for xs
      by (induction xs) (auto simp: le_imp_less_Suc [OF length_filter_le] less_imp_neq)
    have z: "list_ex (\<lambda>i. \<not> IsPoolDrawSentinelInput i) xs = False \<Longrightarrow> filter (\<lambda>i. \<not> IsPoolDrawSentinelInput i) xs = []" for xs
      by (auto simp: list_ex_iff filter_empty_conv)
    show ?thesis
      using False l [of "tx_TxIn tx"] e [of "tx_TxIn tx"] z [of "tx_TxIn tx"]
      by (auto simp: journalTxns_def mixed_def IsVDFResultTx_def)
  qed
  have "sum_list (map ?real txs) \<le> ?f txs \<and> (?f txs = sum_list (map ?real txs) \<longleftrightarrow> \<not> list_ex mixed txs)"
  proof (induction txs)
    case (Cons tx txs)
    have "?f (tx # txs) = ?f [tx] + ?f txs" by (simp add: journalTxns_def)
    then show ?case using Cons one [of tx] by auto
  qed (simp add: journalTxns_def)
  then show ?thesis unfolding f g by auto
qed

lemma no_spent:
  assumes "foldl (\<lambda>n tx. if IsVDFResultTx tx then n else n + length (filter (\<lambda>i. \<not> IsPoolDrawSentinelInput i) (tx_TxIn tx))) 0 txs = (0::nat)"
  shows "journalTxns txs = []"
proof -
  let ?real = "\<lambda>tx. if IsVDFResultTx tx then 0 else length (filter (\<lambda>i. \<not> IsPoolDrawSentinelInput i) (tx_TxIn tx))"
  have "foldl (\<lambda>n tx. if IsVDFResultTx tx then n else n + length (filter (\<lambda>i. \<not> IsPoolDrawSentinelInput i) (tx_TxIn tx))) a ts =
      a + sum_list (map ?real ts)" for a ts
    by (induction ts arbitrary: a) simp_all
  then have "\<forall>tx \<in> set txs. ?real tx = 0" using assms by simp
  then show ?thesis
    by (auto simp: journalTxns_def filter_empty_conv list_ex_iff IsVDFResultTx_def split: if_splits)
qed

lemma put_fetch:
  assumes "pubkeys_ok parsePubKey serializeUncompressed" and "ordered utxoBucket"
    and "\<not> IsSpent entry" and "stored_ok (toSpentTxOut entry)" and "outpoint_ok outpoint" and "outpoint_ok other"
  shows "\<exists>bucket'. dbPutUtxoEntry parsePubKey utxoBucket outpoint (Some entry) = Inr bucket' \<and>
    dbFetchUtxoEntry parsePubKey serializeUncompressed bucket' other =
      (if other = outpoint then Inr (Some (entry\<lparr>ue_packedFlags := (if IsCoinBase entry then tfCoinBase else 0)\<rparr>))
       else dbFetchUtxoEntry parsePubKey serializeUncompressed utxoBucket other)"
proof -
  obtain b where b: "serializeUtxoEntry parsePubKey entry = Inr b" "b \<noteq> []"
    "deserializeUtxoEntry parsePubKey serializeUncompressed b = Inr (entry\<lparr>ue_packedFlags := (if IsCoinBase entry then tfCoinBase else 0)\<rparr>)"
    using utxo_entry_roundtrip [OF assms(1,3,4)] by blast
  have "outpointKey other = outpointKey outpoint \<longleftrightarrow> other = outpoint" using outpointKey_inj [OF assms(6,5)] by auto
  then show ?thesis
    using assms(3) b by (simp add: dbPutUtxoEntry_def dbFetchUtxoEntry_def map_of_bput [OF assms(2)])
qed

section \<open>Samples\<close>

text \<open>A scheme of public keys whose second coordinate is its parity.\<close>

definition sample_parse :: "bytes \<Rightarrow> bytes option" where
  "sample_parse k =
     (if length k = 33 \<and> (k ! 0 = 0x02 \<or> k ! 0 = 0x03) then Some (0x04 # drop 1 k @ replicate 31 0 @ [if k ! 0 = 0x03 then 1 else 0])
      else if length k = 65 \<and> k ! 0 = 0x04 \<and> drop 33 k = replicate 31 0 @ [k ! 64] \<and> (k ! 64 = 0 \<or> k ! 64 = 1) then Some k
      else None)"

lemma sample_pubkeys: "pubkeys_ok sample_parse id"
  unfolding pubkeys_ok_def
proof (intro allI impI, elim conjE)
  fix key :: bytes
  assume k: "length key = 65" "key ! 0 = 0x04" "sample_parse key \<noteq> None"
  then have d: "drop 33 key = replicate 31 0 @ [key ! 64]" "key ! 64 = 0 \<or> key ! 64 = 1"
    by (auto simp: sample_parse_def split: if_splits)
  have "key = key ! 0 # slice 1 33 key @ drop 33 key"
    using k(1) slice_step [of 0 65 key] slice_split [of 1 33 65 key] by (simp add: slice_def [of 33 65])
  then have "key = 0x04 # slice 1 33 key @ replicate 31 0 @ [key ! 64]" using k(2) d(1) by simp
  then show "\<exists>k. sample_parse ((if odd (uint (key ! 64)) then 0x03 else 0x02) # slice 1 33 key) = Some k \<and> id k = key"
    using d(2) k(1) by (auto simp: sample_parse_def)
qed

definition mixed_spend :: MsgTx where
  "mixed_spend = sample_spend\<lparr>tx_TxIn := MakePoolDrawSentinelInput 36 # tx_TxIn sample_spend\<rparr>"

definition mixed_block :: Block where
  "mixed_block = \<lparr>blk_msg = \<lparr>mb_Header = sample_header, mb_Transactions = [sample_coinbase, mixed_spend]\<rparr>, blk_height = 8\<rparr>"

lemma sample_inputs:
  "tx_TxIn sample_spend = [\<lparr>ti_PreviousOutPoint = sample_coin_op, ti_SignatureScript = [], ti_Witness = [], ti_Sequence = 0\<rparr>]"
  "tx_Version sample_spend = 2" "\<not> IsPoolDrawSentinelInput \<lparr>ti_PreviousOutPoint = sample_coin_op, ti_SignatureScript = [], ti_Witness = [], ti_Sequence = 0\<rparr>"
  "IsPoolDrawSentinelInput (MakePoolDrawSentinelInput 36)"
  by (simp_all add: sample_spend_def IsPoolDrawSentinelInput_def sample_coin_op_def PoolStakingMagic_def
      MakePoolDrawSentinelInput_def PoolDrawSentinelOutpoint_def)

section \<open>Properties\<close>

text \<open>
  C26. The stored set of unspent outputs: an unspent entry that is put is fetched again with its amount,
  script, height and coinbase flag, and entries of other outpoints are fetched as before.
\<close>

theorem utxo_store_roundtrip:
  assumes "pubkeys_ok parsePubKey serializeUncompressed" and "ordered utxoBucket"
    and "\<not> IsSpent entry" and "stored_ok (toSpentTxOut entry)" and "outpoint_ok outpoint" and "outpoint_ok other"
  shows "\<exists>bucket'. dbPutUtxoEntry parsePubKey utxoBucket outpoint (Some entry) = Inr bucket' \<and>
    dbFetchUtxoEntry parsePubKey serializeUncompressed bucket' other =
      (if other = outpoint then Inr (Some (entry\<lparr>ue_packedFlags := (if IsCoinBase entry then tfCoinBase else 0)\<rparr>))
       else dbFetchUtxoEntry parsePubKey serializeUncompressed utxoBucket other)"
  by (rule put_fetch [OF assms])

theorem utxo_store_roundtrip_witness:
  "\<exists>bucket'. dbPutUtxoEntry sample_parse [] sample_coin_op (Some sample_coin) = Inr bucket' \<and>
    dbFetchUtxoEntry sample_parse id bucket' sample_coin_op = Inr (Some sample_coin)"
  using utxo_store_roundtrip [OF sample_pubkeys, of "[]" sample_coin sample_coin_op sample_coin_op]
  by (simp add: ordered_def sample_coin_def sample_coin_op_def outpoint_ok_def stored_ok_def toSpentTxOut_def flag_bits)

text \<open>
  C27. Fetching the journal of a block. When the journal holds as many outputs as the block spends, what
  was put is fetched, unless a transaction of the block mixes sentinel inputs with real ones: the reader
  then counts the sentinel inputs too, runs past the end of the record and reports corruption, so that the
  block cannot be disconnected.
\<close>

theorem journal_fetch:
  assumes "pubkeys_ok parsePubKey serializeUncompressed" and "ordered spendBucket" and "list_all stored_ok stxos"
    and "countSpentOutputs block = Inr (length stxos)"
  shows "dbFetchSpendJournalEntry parsePubKey serializeUncompressed
      (dbPutSpendJournalEntry parsePubKey (BlockHash (mb_Header (blk_msg block))) stxos spendBucket) block =
    (if list_ex mixed (tl (mb_Transactions (blk_msg block))) then Inl PlainError else Inr stxos)"
proof -
  obtain t0 txs where t: "mb_Transactions (blk_msg block) = t0 # txs"
    using assms(4) by (cases "mb_Transactions (blk_msg block)") (auto simp: countSpentOutputs_def)
  let ?n = "foldl (\<lambda>n tx. n + length (tx_TxIn tx)) 0 (journalTxns txs)"
  have c: "length stxos = foldl (\<lambda>n tx. if IsVDFResultTx tx then n else n + length (filter (\<lambda>i. \<not> IsPoolDrawSentinelInput i) (tx_TxIn tx))) 0 txs"
    using assms(4) t by (simp add: countSpentOutputs_def)
  note k = journal_counts [of 0 txs, folded c]
  let ?s = "serializeSpendJournalEntry parsePubKey stxos"
  have g: "bget (BlockHash (mb_Header (blk_msg block))) (dbPutSpendJournalEntry parsePubKey (BlockHash (mb_Header (blk_msg block))) stxos spendBucket) = ?s"
    by (simp add: dbPutSpendJournalEntry_def bget_bput [OF assms(2)])
  have e: "?s = [] \<longleftrightarrow> stxos = []" by (cases stxos) (auto simp: serializeSpendJournalEntry_def putSpentTxOut_def)
  have rd: "readSpentTxOuts parsePubKey serializeUncompressed ?n ?s = (if ?n \<le> length stxos then Inr (take ?n (rev stxos)) else Inl PlainError)"
    using read_journal [OF assms(1), of "rev stxos" ?n] assms(3) by (simp add: serializeSpendJournalEntry_def list_all_iff)
  show ?thesis
  proof (cases "stxos = []")
    case True
    then have "journalTxns txs = []" using c by (intro no_spent) simp
    then show ?thesis using True k t g e by (simp add: dbFetchSpendJournalEntry_def deserializeSpendJournalEntry_def)
  next
    case False
    then show ?thesis using k t g e rd by (auto simp: dbFetchSpendJournalEntry_def deserializeSpendJournalEntry_def)
  qed
qed


theorem journal_fetch_witness:
  "dbFetchSpendJournalEntry sample_parse id
      (dbPutSpendJournalEntry sample_parse (BlockHash sample_header) [toSpentTxOut sample_coin] []) sample_utxo_block = Inr [toSpentTxOut sample_coin] \<and>
   dbFetchSpendJournalEntry sample_parse id
      (dbPutSpendJournalEntry sample_parse (BlockHash sample_header) [toSpentTxOut sample_coin] []) mixed_block = Inl PlainError"
proof -
  have o: "ordered []" "list_all stored_ok [toSpentTxOut sample_coin]"
    by (simp_all add: ordered_def stored_ok_def toSpentTxOut_def sample_coin_def)
  have c: "countSpentOutputs sample_utxo_block = Inr (length [toSpentTxOut sample_coin])"
    "countSpentOutputs mixed_block = Inr (length [toSpentTxOut sample_coin])"
    by (simp_all add: countSpentOutputs_def sample_utxo_block_def mixed_block_def mixed_spend_def IsVDFResultTx_def TxVersionVDFResult_def sample_inputs)
  show ?thesis
    using journal_fetch [OF sample_pubkeys o c(1)] journal_fetch [OF sample_pubkeys o c(2)]
    by (simp add: sample_utxo_block_def mixed_block_def mixed_spend_def mixed_def TxVersionVDFResult_def sample_inputs)
qed

end
