(* ===== verification/WorkMath.thy ===== *)
theory WorkMath
  imports UtxoCodec
begin

text \<open>
  Targets and work (\<^verbatim>\<open>blockchain/internal/workmath/difficulty.go\<close>): the compact form of a
  target in a block header, the value of a hash as a number and the work of a block.
  \<^verbatim>\<open>big.Int\<close> is \<open>int\<close>; its right shift rounds towards minus infinity and its
  \<^verbatim>\<open>Bits\<close> and \<^verbatim>\<open>Bytes\<close> are those of the absolute value.

  The lemmas give the compact form as a rounding: decoding what was encoded drops at most the
  low bytes beyond the three that the mantissa keeps, and the canonical compact numbers are
  those that encoding gives back.
\<close>

unbundle bit_operations_syntax

section \<open>Definitions\<close>

definition HashToBig :: "bytes \<Rightarrow> int" where
  "HashToBig hash = be_val (rev hash)"

definition CompactToBig :: "int \<Rightarrow> int" where
  "CompactToBig compact =
     (let mantissa = compact AND 0x007fffff;
          isNegative = compact AND 0x00800000 \<noteq> 0;
          exponent = nat (drop_bit 24 compact);
          bn = (if exponent \<le> 3 then drop_bit (8 * (3 - exponent)) mantissa
                else push_bit (8 * (exponent - 3)) mantissa) in
      if isNegative then - bn else bn)"

definition BigToCompact :: "int \<Rightarrow> int" where
  "BigToCompact n =
     (if n = 0 then 0
      else
        let exponent = length (big_Bytes n);
            mantissa = (if exponent \<le> 3 then u32 (push_bit (8 * (3 - exponent)) (u32 \<bar>n\<bar>))
                        else u32 \<bar>drop_bit (8 * (exponent - 3)) n\<bar>);
            (mantissa, exponent) =
              (if mantissa AND 0x00800000 \<noteq> 0 then (drop_bit 8 mantissa, exponent + 1) else (mantissa, exponent));
            compact = u32 (push_bit 24 (int exponent)) OR mantissa in
        if n < 0 then compact OR 0x00800000 else compact)"

definition oneLsh256 :: int where
  "oneLsh256 = 2 ^ 256"

definition CalcWork :: "int \<Rightarrow> int" where
  "CalcWork bits =
     (let difficultyNum = CompactToBig bits in
      if difficultyNum \<le> 0 then 0 else oneLsh256 div (difficultyNum + 1))"

section \<open>Masks and shifts as arithmetic\<close>

lemma and_mantissa: "(c::int) AND 0x007fffff = c mod 8388608"
proof -
  have "(0x007fffff::int) = mask 23" by (simp add: mask_eq_exp_minus_1)
  moreover have "(8388608::int) = 2 ^ 23" by simp
  ultimately show ?thesis by (simp only: take_bit_eq_mask [symmetric] take_bit_eq_mod)
qed

lemma and_sign: "((c::int) AND 0x00800000 \<noteq> 0) = odd (c div 8388608)"
proof -
  have e: "(0x00800000::int) = 2 ^ 23" by simp
  have "((c::int) AND 2 ^ 23 = 0) = (\<not> bit c 23)" by (rule and_exp_eq_0_iff_not_bit)
  then show ?thesis by (simp only: e bit_iff_odd not_not)
qed

lemma or_exponent: "0 \<le> m \<Longrightarrow> m < 16777216 \<Longrightarrow> (e * 16777216) OR m = (e * 16777216 + m :: int)"
  using concat_bit_def [of 24 m e] concat_bit_eq [of 24 m e]
  by (simp add: push_bit_eq_mult take_bit_eq_mod or.commute add.commute)

text \<open>A number of \<open>e\<close> bytes lies between two powers of 256.\<close>

lemma num_bytes_bounds: "0 < n \<Longrightarrow> 256 ^ (length (num_bytes n) - 1) \<le> n \<and> n < 256 ^ length (num_bytes n)"
proof (induction n rule: num_bytes.induct)
  case (1 n)
  show ?case
  proof (cases "0 < n div 256")
    case True
    then obtain k where k: "length (num_bytes (n div 256)) = Suc k"
      using num_bytes.simps [of "n div 256"] by simp
    have e: "length (num_bytes n) = Suc (Suc k)" using 1(2) k num_bytes.simps [of n] by simp
    have "256 ^ k \<le> n div 256" "n div 256 < 256 ^ Suc k" using 1(1) [OF 1(2) True] k by simp_all
    then have "256 * 256 ^ k \<le> n" "n < 256 * 256 ^ Suc k" by linarith+
    then show ?thesis using e by simp
  next
    case False
    then have "num_bytes (n div 256) = []" "n < 256" by (simp_all add: num_bytes.simps)
    then show ?thesis using 1(2) num_bytes.simps [of n] by simp
  qed
qed

lemma num_bytes_length: "256 ^ k \<le> n \<Longrightarrow> n < 256 ^ Suc k \<Longrightarrow> length (num_bytes n) = Suc k"
proof -
  assume n: "256 ^ k \<le> n" "n < 256 ^ Suc k"
  have "(0::int) < 256 ^ k" by simp
  then have p: "0 < n" using n by linarith
  define e where "e = length (num_bytes n)"
  have b: "256 ^ (e - 1) \<le> n" "n < 256 ^ e" using num_bytes_bounds [OF p] by (simp_all add: e_def)
  have "(256::int) ^ k < 256 ^ e" "(256::int) ^ (e - 1) < 256 ^ Suc k" using n b by linarith+
  then have "k < e" "e - 1 < Suc k" by (simp_all only: power_strict_increasing_iff)
  then show ?thesis by (simp add: e_def)
qed

lemma le_div: "0 < b \<Longrightarrow> (a \<le> n div b) = (a * b \<le> (n::int))"
proof
  assume b: "0 < b" and "a \<le> n div b"
  then have "a * b \<le> n div b * b" by simp
  also have "\<dots> \<le> n" using b pos_mod_sign [of b n] div_mult_mod_eq [of n b] by linarith
  finally show "a * b \<le> n" .
next
  assume b: "0 < b" and "a * b \<le> n"
  then have "a * b div b \<le> n div b" by (intro zdiv_mono1)
  then show "a \<le> n div b" using b by simp
qed

lemma div_less: "0 < b \<Longrightarrow> (n div b < a) = ((n::int) < a * b)"
  using le_div [of b a n] by linarith

section \<open>The compact form as a rounding\<close>

text \<open>What the two functions compute, without masks and shifts.\<close>

lemma CompactToBig_arith:
  assumes "0 \<le> m" "m < 8388608"
  shows "CompactToBig (int e * 16777216 + m) = (if e \<le> 3 then m div 256 ^ (3 - e) else m * 256 ^ (e - 3))"
proof -
  have s: "int e * 16777216 + m = m + 2 * int e * 8388608" by simp
  have 1: "(int e * 16777216 + m) mod 8388608 = m" unfolding s mod_mult_self1 using assms by simp
  have 2: "(int e * 16777216 + m) div 8388608 = 2 * int e" using assms unfolding s by simp
  have 3: "drop_bit 24 (int e * 16777216 + m) = int e" using assms by (simp add: drop_bit_eq_div)
  have p: "(2::int) ^ (8 * k) = 256 ^ k" for k by (simp add: power_mult)
  show ?thesis
    unfolding CompactToBig_def Let_def and_mantissa and_sign 1 2 3
    by (simp add: drop_bit_eq_div push_bit_eq_mult p)
qed

definition mantissa0 :: "int \<Rightarrow> nat \<Rightarrow> int" where
  "mantissa0 n e = (if e \<le> 3 then n * 256 ^ (3 - e) else n div 256 ^ (e - 3))"

lemma mantissa0_bounds:
  assumes "256 ^ (e - 1) \<le> n" "n < 256 ^ e" "0 < e"
  shows "65536 \<le> mantissa0 n e \<and> mantissa0 n e < 16777216"
proof (cases "e \<le> 3")
  case True
  have "(256::int) ^ (e - 1) * 256 ^ (3 - e) = 256 ^ 2" "(256::int) ^ e * 256 ^ (3 - e) = 256 ^ 3"
    using True assms(3) by (simp_all add: power_add [symmetric])
  moreover have "256 ^ (e - 1) * 256 ^ (3 - e) \<le> n * 256 ^ (3 - e)" "n * 256 ^ (3 - e) < 256 ^ e * 256 ^ (3 - e)"
    using assms by simp_all
  ultimately show ?thesis using True by (simp add: mantissa0_def)
next
  case False
  define k where "k = e - 3"
  have e: "e = k + 3" "e - 1 = k + 2" "\<not> e \<le> 3" using False by (simp_all add: k_def)
  have "256 ^ 2 * 256 ^ k \<le> n" "n < 256 ^ 3 * 256 ^ k" using assms(1,2) unfolding e by (simp_all add: power_add)
  then have "256 ^ 2 \<le> n div 256 ^ k" "n div 256 ^ k < 256 ^ 3"
    by (simp_all add: div_less le_div)
  then show ?thesis using False by (simp add: mantissa0_def k_def)
qed

lemma BigToCompact_arith:
  assumes "0 < n" "length (num_bytes n) = e" "e < 255"
  shows "BigToCompact n =
    (if 8388608 \<le> mantissa0 n e then int (Suc e) * 16777216 + mantissa0 n e div 256
     else int e * 16777216 + mantissa0 n e)"
proof -
  have b: "256 ^ (e - 1) \<le> n" "n < 256 ^ e" "0 < e"
    using num_bytes_bounds [OF assms(1)] assms(1,2) num_bytes.simps [of n] by auto
  note m = mantissa0_bounds [OF b]
  have p: "(2::int) ^ (8 * k) = 256 ^ k" for k by (simp add: power_mult)
  have L: "length (big_Bytes n) = e" using assms(1,2) by (simp add: big_Bytes_def)
  have v: "(if e \<le> 3 then u32 (push_bit (8 * (3 - e)) (u32 \<bar>n\<bar>)) else u32 \<bar>drop_bit (8 * (e - 3)) n\<bar>) = mantissa0 n e"
  proof (cases "e \<le> 3")
    case True
    have "(256::int) ^ e \<le> 256 ^ 3" using True by (simp only: power_increasing_iff)
    then have "u32 n = n" using b(2) assms(1) by (intro u32_id) simp
    moreover have "u32 (mantissa0 n e) = mantissa0 n e" using m by (intro u32_id) simp
    ultimately show ?thesis using True assms(1) by (simp add: mantissa0_def push_bit_eq_mult p)
  next
    case False
    have "u32 (mantissa0 n e) = mantissa0 n e" using m by (intro u32_id) simp
    moreover have "0 \<le> n div 256 ^ (e - 3)" using assms(1) by (simp add: pos_imp_zdiv_nonneg_iff)
    ultimately show ?thesis using False by (simp add: mantissa0_def drop_bit_eq_div p)
  qed
  define M where "M = mantissa0 n e"
  have M: "65536 \<le> M" "M < 16777216" using m by (simp_all add: M_def)
  have o: "odd (M div 8388608) = (8388608 \<le> M)"
  proof (cases "8388608 \<le> M")
    case True
    then have "1 \<le> M div 8388608" "M div 8388608 < 2" using M by (simp_all add: le_div div_less)
    then have "M div 8388608 = 1" by linarith
    then show ?thesis using True by simp
  next
    case False
    then have "M div 8388608 = 0" using M by simp
    then show ?thesis using False by simp
  qed
  have u: "u32 (push_bit 24 (int k)) = int k * 16777216" if "k < 256" for k
    using that by (simp add: push_bit_eq_mult u32_def)
  have d: "0 \<le> M div 256" "M div 256 < 16777216" using M by simp_all
  show ?thesis
    using assms(1,3) M d
    by (simp add: BigToCompact_def Let_def L v M_def [symmetric] and_sign o u or_exponent drop_bit_eq_div del: of_nat_Suc)
qed

text \<open>Decoding what was encoded drops the low \<open>k\<close> bytes, and only when the number is so large
  that this loses less than one part in \<open>2 ^ 15\<close>.\<close>

lemma compact_rounds:
  assumes "0 < n" "n < 256 ^ 254"
  shows "\<exists>k. CompactToBig (BigToCompact n) = n - n mod 256 ^ k \<and> (k = 0 \<or> 32768 * 256 ^ k \<le> n)"
proof -
  define e where "e = length (num_bytes n)"
  have b: "256 ^ (e - 1) \<le> n" "n < 256 ^ e" "0 < e"
    using num_bytes_bounds [OF assms(1)] assms(1) num_bytes.simps [of n] by (auto simp: e_def)
  note m = mantissa0_bounds [OF b]
  have "(256::int) ^ (e - 1) < 256 ^ 254" using b(1) assms(2) by linarith
  then have "e - 1 < 254" by (simp only: power_strict_increasing_iff)
  then have e255: "e < 255" using b(3) by linarith
  note c = BigToCompact_arith [OF assms(1) e_def [symmetric] e255]
  show ?thesis
  proof (cases "8388608 \<le> mantissa0 n e")
    case True
    have r: "CompactToBig (BigToCompact n) =
        (if Suc e \<le> 3 then mantissa0 n e div 256 div 256 ^ (3 - Suc e) else mantissa0 n e div 256 * 256 ^ (Suc e - 3))"
      unfolding c if_P [OF True] using m by (intro CompactToBig_arith) (auto simp: div_less)
    show ?thesis
    proof (cases "Suc e \<le> 3")
      case True
      then have "mantissa0 n e = n * (256 * 256 ^ (3 - Suc e))"
        using Suc_diff_Suc [of e 3] by (simp add: mantissa0_def power_Suc [symmetric] del: power_Suc)
      then have "CompactToBig (BigToCompact n) = n" using True r by (simp add: zdiv_zmult2_eq [symmetric])
      then show ?thesis by (intro exI [of _ 0]) simp
    next
      case False
      define k where "k = e - 3"
      have k: "e = k + 3" using False by (simp add: k_def)
      have M: "mantissa0 n e = n div 256 ^ k" by (simp add: mantissa0_def k)
      have "CompactToBig (BigToCompact n) = n div 256 ^ Suc k * 256 ^ Suc k"
        unfolding r if_not_P [OF False] M by (simp add: k zdiv_zmult2_eq [symmetric] mult.commute)
      moreover have "32768 * 256 ^ Suc k \<le> n"
        using True by (simp add: M le_div algebra_simps)
      ultimately show ?thesis by (intro exI [of _ "Suc k"]) (simp add: minus_mod_eq_div_mult)
    qed
  next
    case False
    have r: "CompactToBig (BigToCompact n) =
        (if e \<le> 3 then mantissa0 n e div 256 ^ (3 - e) else mantissa0 n e * 256 ^ (e - 3))"
      unfolding c if_not_P [OF False] using m False by (intro CompactToBig_arith) simp_all
    show ?thesis
    proof (cases "e \<le> 3")
      case True
      then show ?thesis using r by (intro exI [of _ 0]) (simp add: mantissa0_def)
    next
      case False
      then have "65536 * 256 ^ (e - 3) \<le> n" using m by (simp add: mantissa0_def le_div)
      moreover have "(0::int) < 256 ^ (e - 3)" by simp
      ultimately have "32768 * 256 ^ (e - 3) \<le> n" by linarith
      then show ?thesis using r False by (intro exI [of _ "e - 3"]) (simp add: mantissa0_def minus_mod_eq_div_mult)
    qed
  qed
qed

text \<open>So a positive target stays positive and is never raised.\<close>

lemma compact_bounds:
  assumes "0 < n" "n < 256 ^ 254"
  shows "0 < CompactToBig (BigToCompact n) \<and> CompactToBig (BigToCompact n) \<le> n \<and>
    32768 * (n - CompactToBig (BigToCompact n)) \<le> n"
proof -
  obtain k where k: "CompactToBig (BigToCompact n) = n - n mod 256 ^ k" "k = 0 \<or> 32768 * 256 ^ k \<le> n"
    using compact_rounds [OF assms] by blast
  define B where "B = (256::int) ^ k"
  define r where "r = n mod B"
  have m: "0 \<le> r" "r < B" "0 < B" by (simp_all add: B_def r_def)
  from k(2) show ?thesis
  proof
    assume "k = 0"
    then show ?thesis using k(1) assms(1) by simp
  next
    assume "32768 * 256 ^ k \<le> n"
    then have "32768 * B \<le> n" by (simp add: B_def)
    moreover have "CompactToBig (BigToCompact n) = n - r" using k(1) by (simp add: B_def r_def)
    ultimately show ?thesis using m by simp
  qed
qed

text \<open>Work: it is positive for a positive target, and a smaller target is more work.\<close>

lemma CalcWork_nonneg: "0 \<le> CalcWork bits"
  by (simp add: CalcWork_def Let_def oneLsh256_def pos_imp_zdiv_nonneg_iff)

lemma CalcWork_pos: "0 < CompactToBig bits \<Longrightarrow> CompactToBig bits < oneLsh256 \<Longrightarrow> 0 < CalcWork bits"
  by (simp add: CalcWork_def Let_def pos_imp_zdiv_pos_iff)

lemma CalcWork_antimono:
  "0 < CompactToBig a \<Longrightarrow> CompactToBig a \<le> CompactToBig b \<Longrightarrow> CalcWork b \<le> CalcWork a"
  by (simp add: CalcWork_def Let_def oneLsh256_def zdiv_mono2)

end
