(* ===== verification/BlockNode.thy ===== *)
theory BlockNode
  imports WorkMath
begin

text \<open>
  Nodes of the block index (\<^verbatim>\<open>blockchain/blockindex.go\<close>) and the parameters of a network
  (\<^verbatim>\<open>chaincfg/params.go\<close>). A node holds its parent and its skip pointer, which the code sets
  once when the node is made, so a node is a tree of nodes and following a pointer makes it
  smaller. The status of a node is written later and is kept beside the nodes, by hash.

  The lemmas show that the search for an ancestor along the skip pointers finds what following
  the parents finds, and that the median time of a chain never goes back when every block is
  later than the median time of its parent.
\<close>

unbundle bit_operations_syntax

section \<open>Parameters of a network\<close>

record Params =
  GenesisHash :: bytes
  PowLimit :: int
  PowLimitBits :: int
  PoWNoRetargeting :: bool
  EnforceBIP94 :: bool
  BIP0034Height :: int
  BIP0034Hash :: "bytes option"
  BIP0065Height :: int
  BIP0066Height :: int
  CoinbaseMaturity :: int
  SubsidyReductionInterval :: int
  TargetTimespan :: int
  TargetTimePerBlock :: int
  RetargetAdjustmentFactor :: int
  ReduceMinDifficulty :: bool
  MinDiffReductionTime :: int
  EmergencyAdjustWindow :: int
  EmergencyAdjustActivationHeight :: int
  LWMA3ActivationHeight :: int
  VDFExactTActivationHeight :: int
  Checkpoints :: "(int \<times> bytes) list"
  RuleChangeActivationThreshold :: int
  MinerConfirmationWindow :: int

section \<open>Nodes\<close>

datatype blockNode = BlockNode
  (bn_parent: "blockNode option")
  (bn_ancestor: "blockNode option")
  (bn_hash: bytes)
  (bn_workSum: int)
  (bn_height: int)
  (bn_version: int)
  (bn_bits: int)
  (bn_nonce: int)
  (bn_timestamp: int)
  (bn_merkleRoot: bytes)

lemma size_parent: "bn_parent n = Some p \<Longrightarrow> size p < size n"
  by (cases n) auto

lemma size_ancestor: "bn_ancestor n = Some p \<Longrightarrow> size p < size n"
  by (cases n) auto

definition Equals :: "(bytes \<Rightarrow> byte) \<Rightarrow> blockNode \<Rightarrow> blockNode \<Rightarrow> bool" where
  "Equals status node other \<longleftrightarrow>
     bn_hash node = bn_hash other \<and> bn_workSum node = bn_workSum other \<and>
     bn_height node = bn_height other \<and> bn_version node = bn_version other \<and>
     bn_bits node = bn_bits other \<and> bn_nonce node = bn_nonce other \<and>
     bn_timestamp node = bn_timestamp other \<and> bn_merkleRoot node = bn_merkleRoot other \<and>
     status (bn_hash node) = status (bn_hash other)"

definition Header :: "blockNode \<Rightarrow> BlockHeader" where
  "Header node =
     \<lparr>bh_Version = bn_version node,
      bh_PrevBlock = (case bn_parent node of None \<Rightarrow> replicate 32 0 | Some p \<Rightarrow> bn_hash p),
      bh_MerkleRoot = bn_merkleRoot node, bh_Timestamp = bn_timestamp node, bh_Bits = bn_bits node,
      bh_Nonce = bn_nonce node\<rparr>"

section \<open>Ancestors\<close>

definition invertLowestOne :: "int \<Rightarrow> int" where
  "invertLowestOne n = n AND i32 (n - 1)"

definition getAncestorHeight :: "int \<Rightarrow> int" where
  "getAncestorHeight height = invertLowestOne (invertLowestOne height)"

function Ancestor_loop :: "int \<Rightarrow> blockNode option \<Rightarrow> blockNode option" where
  "Ancestor_loop height None = None"
| "Ancestor_loop height (Some n) =
     (if bn_height n = height then Some n
      else if bn_ancestor n \<noteq> None \<and> getAncestorHeight (bn_height n) \<ge> height
      then Ancestor_loop height (bn_ancestor n)
      else Ancestor_loop height (bn_parent n))"
  by pat_completeness auto
termination
proof (relation "measure (\<lambda>(_, n). case n of None \<Rightarrow> 0 | Some n \<Rightarrow> Suc (size n))", goal_cases)
  case (2 height n)
  then show ?case using size_ancestor [of n] by (cases "bn_ancestor n") auto
next
  case (3 height n)
  then show ?case using size_parent [of n] by (cases "bn_parent n") auto
qed simp

declare Ancestor_loop.simps [simp del]

definition Ancestor :: "blockNode \<Rightarrow> int \<Rightarrow> blockNode option" where
  "Ancestor node height =
     (if height < 0 \<or> height > bn_height node then None else Ancestor_loop height (Some node))"

definition RelativeAncestor :: "blockNode \<Rightarrow> int \<Rightarrow> blockNode option" where
  "RelativeAncestor node distance = Ancestor node (i32 (bn_height node - distance))"

definition IsAncestor :: "(bytes \<Rightarrow> byte) \<Rightarrow> blockNode \<Rightarrow> blockNode option \<Rightarrow> bool" where
  "IsAncestor status node otherNode =
     (case otherNode of None \<Rightarrow> False
      | Some otherNode \<Rightarrow>
          (case Ancestor node (bn_height otherNode) of None \<Rightarrow> False
           | Some ancestor \<Rightarrow> bn_height node \<noteq> bn_height ancestor \<and> Equals status ancestor otherNode))"

definition newBlockNode :: "BlockHeader \<Rightarrow> blockNode option \<Rightarrow> blockNode" where
  "newBlockNode blockHeader parent =
     (case parent of
        None \<Rightarrow>
          BlockNode None None (BlockHash blockHeader) (CalcWork (bh_Bits blockHeader)) 0
            (bh_Version blockHeader) (bh_Bits blockHeader) (bh_Nonce blockHeader)
            (bh_Timestamp blockHeader) (bh_MerkleRoot blockHeader)
      | Some p \<Rightarrow>
          (let height = i32 (bn_height p + 1) in
           BlockNode (Some p) (Ancestor p (getAncestorHeight height)) (BlockHash blockHeader)
             (bn_workSum p + CalcWork (bh_Bits blockHeader)) height
             (bh_Version blockHeader) (bh_Bits blockHeader) (bh_Nonce blockHeader)
             (bh_Timestamp blockHeader) (bh_MerkleRoot blockHeader)))"

section \<open>Median time\<close>

definition medianTimeBlocks :: nat where "medianTimeBlocks = 11"

primrec past_timestamps :: "nat \<Rightarrow> blockNode option \<Rightarrow> int list" where
  "past_timestamps 0 iterNode = []"
| "past_timestamps (Suc i) iterNode =
     (case iterNode of None \<Rightarrow> []
      | Some n \<Rightarrow> bn_timestamp n # past_timestamps i (bn_parent n))"

definition CalcPastMedianTime :: "blockNode \<Rightarrow> int" where
  "CalcPastMedianTime node =
     (let timestamps = past_timestamps medianTimeBlocks (Some node) in
      sort timestamps ! (length timestamps div 2))"

section \<open>Following the parents\<close>

text \<open>The reference for \<^term>\<open>Ancestor\<close>: the parents one after the other.\<close>

function walk :: "int \<Rightarrow> blockNode \<Rightarrow> blockNode option" where
  "walk height n =
     (if bn_height n = height then Some n
      else case bn_parent n of None \<Rightarrow> None | Some p \<Rightarrow> walk height p)"
  by pat_completeness auto
termination by (relation "measure (\<lambda>(_, n). size n)") (auto dest: size_parent)

declare walk.simps [simp del]

text \<open>Well-formed nodes: heights count up from the root and the skip pointer is the ancestor at
  the height that the code computes.\<close>

function node_ok :: "blockNode \<Rightarrow> bool" where
  "node_ok n =
     (bn_height n < 2 ^ 31 \<and>
      (case bn_parent n of
         None \<Rightarrow> bn_height n = 0 \<and> bn_ancestor n = None
       | Some p \<Rightarrow> node_ok p \<and> bn_height n = bn_height p + 1 \<and>
                   bn_ancestor n = walk (getAncestorHeight (bn_height n)) p))"
  by pat_completeness auto
termination by (relation "measure size") (auto dest: size_parent)

declare node_ok.simps [simp del]

lemma node_ok_parent:
  "node_ok n \<Longrightarrow> bn_parent n = Some p \<Longrightarrow>
   node_ok p \<and> bn_height n = bn_height p + 1 \<and> bn_ancestor n = walk (getAncestorHeight (bn_height n)) p"
  using node_ok.simps [of n] by simp

lemma node_ok_root: "node_ok n \<Longrightarrow> bn_parent n = None \<Longrightarrow> bn_height n = 0 \<and> bn_ancestor n = None"
  using node_ok.simps [of n] by simp

lemma node_ok_height: "node_ok n \<Longrightarrow> 0 \<le> bn_height n \<and> bn_height n < 2 ^ 31"
proof (induction n rule: node_ok.induct)
  case (1 n)
  have u: "bn_height n < 2 ^ 31" using 1(2) node_ok.simps [of n] by simp
  show ?case
  proof (cases "bn_parent n")
    case None
    then show ?thesis using node_ok_root [OF 1(2)] u by simp
  next
    case (Some p)
    then show ?thesis using 1(1) [OF Some] node_ok_parent [OF 1(2) Some] u by simp
  qed
qed

lemma invertLowestOne_bounds: "0 \<le> n \<Longrightarrow> n < 2 ^ 31 \<Longrightarrow> 0 \<le> invertLowestOne n \<and> invertLowestOne n \<le> n \<and> (0 < n \<longrightarrow> invertLowestOne n < n)"
proof -
  assume n: "0 \<le> n" "n < 2 ^ 31"
  show ?thesis
  proof (cases "n = 0")
    case True
    then show ?thesis by (simp add: invertLowestOne_def)
  next
    case False
    then have "i32 (n - 1) = n - 1" using n by (intro i32_id) simp
    moreover have "n AND (n - 1) \<le> n - 1" using n False by (simp add: AND_upper2)
    moreover have "0 \<le> n AND (n - 1)" using n by simp
    ultimately show ?thesis by (simp add: invertLowestOne_def)
  qed
qed

lemma getAncestorHeight_bounds:
  "0 < n \<Longrightarrow> n < 2 ^ 31 \<Longrightarrow> 0 \<le> getAncestorHeight n \<and> getAncestorHeight n < n"
  using invertLowestOne_bounds [of n] invertLowestOne_bounds [of "invertLowestOne n"]
  by (auto simp: getAncestorHeight_def)

lemma walk_self [simp]: "walk (bn_height n) n = Some n"
  by (simp add: walk.simps)

lemma walk_step: "bn_parent n = Some p \<Longrightarrow> height \<noteq> bn_height n \<Longrightarrow> walk height n = walk height p"
  by (simp add: walk.simps [of height n])

lemma walk_ok:
  "node_ok n \<Longrightarrow> 0 \<le> height \<Longrightarrow> height \<le> bn_height n \<Longrightarrow>
   \<exists>a. walk height n = Some a \<and> node_ok a \<and> bn_height a = height"
proof (induction n rule: node_ok.induct)
  case (1 n)
  show ?case
  proof (cases "bn_parent n")
    case None
    then have "bn_height n = height" using node_ok_root [OF 1(2)] 1 by simp
    then show ?thesis using 1(2) by auto
  next
    case (Some p)
    note p = node_ok_parent [OF 1(2) Some]
    show ?thesis
    proof (cases "height = bn_height n")
      case True
      then show ?thesis using 1(2) by auto
    next
      case False
      then show ?thesis using 1(1) [OF Some] p 1 walk_step [OF Some] by simp
    qed
  qed
qed

lemma walk_le: "node_ok n \<Longrightarrow> walk k n = Some a \<Longrightarrow> k \<le> bn_height n"
proof (induction n rule: node_ok.induct)
  case (1 n)
  show ?case
  proof (cases "bn_height n = k")
    case False
    then obtain p where p: "bn_parent n = Some p" "walk k p = Some a"
      using 1(3) by (auto simp: walk.simps [of k n] split: option.splits)
    then show ?thesis using 1(1) [OF p(1)] node_ok_parent [OF 1(2) p(1)] by simp
  qed simp
qed

lemma walk_trans:
  "node_ok n \<Longrightarrow> walk k n = Some a \<Longrightarrow> height \<le> k \<Longrightarrow> walk height a = walk height n"
proof (induction n rule: node_ok.induct)
  case (1 n)
  show ?case
  proof (cases "bn_height n = k")
    case True
    then show ?thesis using 1(3) by (simp add: walk.simps [of k n])
  next
    case False
    then obtain p where p: "bn_parent n = Some p" "walk k p = Some a"
      using 1(3) by (auto simp: walk.simps [of k n] split: option.splits)
    note ok = node_ok_parent [OF 1(2) p(1)]
    have "height \<noteq> bn_height n" using walk_le [of p k a] ok p(2) 1(4) by simp
    then show ?thesis using 1(1) [OF p(1)] ok p 1(4) walk_step [OF p(1)] by simp
  qed
qed

lemma Ancestor_loop_walk:
  "node_ok n \<Longrightarrow> 0 \<le> height \<Longrightarrow> height \<le> bn_height n \<Longrightarrow> Ancestor_loop height (Some n) = walk height n"
proof (induction "size n" arbitrary: n rule: less_induct)
  case less
  show ?case
  proof (cases "bn_height n = height")
    case True
    then show ?thesis by (simp add: Ancestor_loop.simps walk.simps)
  next
    case False
    then obtain p where p: "bn_parent n = Some p" using node_ok_root [OF less.prems(1)] less.prems by (cases "bn_parent n") auto
    note ok = node_ok_parent [OF less.prems(1) p]
    have step: "walk height n = walk height p" using walk_step [OF p] False by simp
    have h: "height \<le> bn_height p" using ok False less.prems by simp
    define k where "k = getAncestorHeight (bn_height n)"
    show ?thesis
    proof (cases "bn_ancestor n \<noteq> None \<and> k \<ge> height")
      case True
      then obtain a where a: "bn_ancestor n = Some a" "walk k p = Some a" "height \<le> k" using ok by (auto simp: k_def)
      have "k \<le> bn_height p" using walk_le [OF _ a(2)] ok by simp
      then obtain a' where "walk k p = Some a'" "node_ok a'" "bn_height a' = k"
        using walk_ok [of p k] ok a(3) less.prems(2) by auto
      then have a': "node_ok a" "bn_height a = k" using a(2) by simp_all
      have "Ancestor_loop height (Some n) = Ancestor_loop height (Some a)"
        using True False a by (simp add: Ancestor_loop.simps k_def)
      also have "\<dots> = walk height a"
        using less.hyps [OF size_ancestor [OF a(1)] a'(1) less.prems(2)] a'(2) a(3) by simp
      also have "\<dots> = walk height p" using walk_trans [OF _ a(2,3)] ok by simp
      finally show ?thesis using step by simp
    next
      case no: False
      then have "Ancestor_loop height (Some n) = Ancestor_loop height (Some p)"
        using False p by (simp only: Ancestor_loop.simps k_def if_False)
      then show ?thesis using less.hyps [OF size_parent [OF p] _ less.prems(2) h] ok step by simp
    qed
  qed
qed

lemma Ancestor_walk:
  "node_ok n \<Longrightarrow> Ancestor n height = (if 0 \<le> height \<and> height \<le> bn_height n then walk height n else None)"
  by (auto simp: Ancestor_def Ancestor_loop_walk)

lemma Ancestor_exists:
  "node_ok n \<Longrightarrow> 0 \<le> height \<Longrightarrow> height \<le> bn_height n \<Longrightarrow>
   \<exists>a. Ancestor n height = Some a \<and> node_ok a \<and> bn_height a = height"
  using walk_ok [of n height] by (simp add: Ancestor_walk)

text \<open>Nodes made by the code are well-formed.\<close>

lemma node_ok_root_new: "node_ok (newBlockNode hdr None)"
  by (simp add: node_ok.simps newBlockNode_def)

lemma node_ok_new: "node_ok p \<Longrightarrow> bn_height p + 1 < 2 ^ 31 \<Longrightarrow> node_ok (newBlockNode hdr (Some p))"
proof -
  assume p: "node_ok p" "bn_height p + 1 < 2 ^ 31"
  define h where "h = bn_height p + 1"
  have h: "0 < h" "h < 2 ^ 31" "i32 h = h"
    using node_ok_height [OF p(1)] p(2) by (auto simp: h_def intro!: i32_id)
  have "Ancestor p (getAncestorHeight h) = walk (getAncestorHeight h) p"
    using getAncestorHeight_bounds [OF h(1,2)] by (simp add: Ancestor_walk [OF p(1)] h_def)
  then show ?thesis
    using p h unfolding newBlockNode_def h_def by (subst node_ok.simps) (simp add: Let_def)
qed

section \<open>The median time never goes back\<close>

text \<open>The element at position \<open>i\<close> of a sorted list is at least \<open>m\<close> iff at most \<open>i\<close>
  elements are below \<open>m\<close>.\<close>

lemma sorted_nth_ge:
  "sorted ys \<Longrightarrow> i < length ys \<Longrightarrow> (m \<le> ys ! i) = (length (filter (\<lambda>y. y < m) ys) \<le> i)"
  for ys :: "int list"
proof (induction ys arbitrary: i)
  case (Cons y ys)
  show ?case
  proof (cases "y < m")
    case True
    then show ?thesis using Cons by (cases i) auto
  next
    case False
    then have "\<forall>z \<in> set (y # ys). m \<le> z" using Cons.prems by auto
    moreover from this have "filter (\<lambda>y. y < m) (y # ys) = []" by (auto simp: filter_empty_conv)
    ultimately show ?thesis using Cons.prems(2) nth_mem [of i "y # ys"] by auto
  qed
qed simp

lemma sort_nth_ge:
  "i < length ys \<Longrightarrow> (m \<le> sort ys ! i) = (length (filter (\<lambda>y. y < m) ys) \<le> i)" for ys :: "int list"
proof -
  assume "i < length ys"
  moreover have "length (filter (\<lambda>y. y < m) (sort ys)) = length (filter (\<lambda>y. y < m) ys)"
    by (metis mset_filter mset_sort size_mset)
  ultimately show ?thesis using sorted_nth_ge [of "sort ys" i m] by simp
qed

lemma past_timestamps_step:
  "\<exists>r. past_timestamps (Suc k) n = past_timestamps k n @ r \<and> length r \<le> 1"
  by (induction k arbitrary: n) (auto split: option.splits)

lemma median_monotone:
  assumes p: "bn_parent n = Some p" and later: "CalcPastMedianTime p \<le> bn_timestamp n"
  shows "CalcPastMedianTime p \<le> CalcPastMedianTime n"
proof -
  define t where "t = past_timestamps 10 (Some p)"
  define m where "m = CalcPastMedianTime p"
  have eleven: "medianTimeBlocks = Suc 10" by (simp add: medianTimeBlocks_def)
  obtain r where r: "past_timestamps medianTimeBlocks (Some p) = t @ r" and len: "length r \<le> 1"
    using past_timestamps_step [of 10 "Some p"] by (auto simp: t_def eleven)
  have n: "past_timestamps medianTimeBlocks (Some n) = bn_timestamp n # t"
    unfolding eleven t_def using p by (simp only: past_timestamps.simps option.case)
  have ne: "t \<noteq> []" by (simp add: t_def eval_nat_numeral)
  have "m = sort (t @ r) ! (length (t @ r) div 2)" by (simp add: m_def CalcPastMedianTime_def Let_def r)
  then have "length (filter (\<lambda>y. y < m) (t @ r)) \<le> length (t @ r) div 2"
    using ne sort_nth_ge [of "length (t @ r) div 2" "t @ r" m] by simp
  moreover have "length (filter (\<lambda>y. y < m) (bn_timestamp n # t)) \<le> length (filter (\<lambda>y. y < m) (t @ r))"
    using later by (simp add: m_def)
  moreover have "length (t @ r) div 2 \<le> length (bn_timestamp n # t) div 2" using len by (simp add: div_le_mono)
  ultimately have "m \<le> sort (bn_timestamp n # t) ! (length (bn_timestamp n # t) div 2)"
    by (subst sort_nth_ge) auto
  then show ?thesis by (simp add: m_def [symmetric] CalcPastMedianTime_def [of n] Let_def n)
qed

text \<open>
  C29. A node made for a header on a well-formed parent is well-formed, and the search for its
  ancestor at a height, which follows a skip pointer whenever it does not pass the height, gives
  the node that following the parents gives. It finds one exactly for the heights from 0 to that
  of the node.
\<close>

theorem Ancestor_skip:
  assumes "node_ok p" "bn_height p + 1 < 2 ^ 31" "n = newBlockNode hdr (Some p)"
  shows "node_ok n \<and> bn_height n = bn_height p + 1 \<and>
    Ancestor n height = (if 0 \<le> height \<and> height \<le> bn_height n then walk height n else None) \<and>
    (Ancestor n height \<noteq> None) = (0 \<le> height \<and> height \<le> bn_height n)"
proof -
  have ok: "node_ok n" using node_ok_new [OF assms(1,2)] assms(3) by simp
  moreover have "bn_parent n = Some p" using assms(3) by (simp add: newBlockNode_def Let_def)
  ultimately show ?thesis
    using node_ok_parent [of n p] Ancestor_walk [OF ok, of height] walk_ok [OF ok, of height] by auto
qed

definition sample_root :: blockNode where
  "sample_root = newBlockNode sample_header None"

definition sample_node :: blockNode where
  "sample_node = newBlockNode sample_header (Some (newBlockNode sample_header (Some sample_root)))"

theorem Ancestor_skip_witness:
  "bn_height sample_node = 2 \<and> Ancestor sample_node 0 = Some sample_root"
proof -
  define p where "p = newBlockNode sample_header (Some sample_root)"
  have r: "node_ok sample_root" "bn_height sample_root = 0"
    by (simp_all add: sample_root_def node_ok_root_new) (simp add: newBlockNode_def)
  have p: "node_ok p" "bn_height p = 1" "bn_parent p = Some sample_root"
    using node_ok_new [of sample_root sample_header] r by (simp_all add: p_def newBlockNode_def Let_def i32_def)
  have n: "sample_node = newBlockNode sample_header (Some p)" by (simp add: sample_node_def p_def)
  have "bn_parent sample_node = Some p" by (simp add: n newBlockNode_def Let_def)
  then have "walk 0 sample_node = Some sample_root" if "bn_height sample_node = 2"
    using that p r by (simp add: walk_step walk.simps [of 0 sample_root])
  then show ?thesis using Ancestor_skip [OF p(1) _ n, of 0] p(2) by simp
qed
end
