(* ===== verification/Difficulty.thy ===== *)
theory Difficulty
  imports BlockNode
begin

text \<open>
  The difficulty rules (\<^verbatim>\<open>blockchain/difficulty.go\<close>): the retarget every
  \<^verbatim>\<open>BlocksPerRetarget\<close> blocks with its emergency ease-down, the LWMA-3 average that replaces
  it from a flag-day height on, and the ease-down after a stall that is layered on top.
  Durations are in nanoseconds, as Go's \<^verbatim>\<open>time.Duration\<close>, and times in seconds. A division by
  zero and the dereference of a missing ancestor are panics.

  The lemmas bound the required target: it is positive and at most the limit of the network, and a
  window of blocks that all landed on schedule leaves the target where it is.
\<close>

section \<open>Values derived from the parameters\<close>

definition Second :: int where "Second = 1000000000"

definition BlocksPerRetarget :: "Params \<Rightarrow> int" where
  "BlocksPerRetarget params = i32 ((TargetTimespan params sdiv Second) sdiv (TargetTimePerBlock params sdiv Second))"

definition MinRetargetTimespan :: "Params \<Rightarrow> int" where
  "MinRetargetTimespan params = (TargetTimespan params sdiv Second) sdiv RetargetAdjustmentFactor params"

definition MaxRetargetTimespan :: "Params \<Rightarrow> int" where
  "MaxRetargetTimespan params = i64 ((TargetTimespan params sdiv Second) * RetargetAdjustmentFactor params)"

text \<open>\<^verbatim>\<open>big.Int.Div\<close> is Euclidean division.\<close>

definition big_Div :: "int \<Rightarrow> int \<Rightarrow> int" where
  "big_Div x y = (if y > 0 then x div y else - (x div (- y)))"

section \<open>Easiest difficulty after a duration\<close>

partial_function (option) easiest_loop :: "Params \<Rightarrow> int \<Rightarrow> int \<Rightarrow> int option" where
  "easiest_loop params durationVal newTarget =
     (if durationVal > 0 \<and> newTarget < PowLimit params
      then easiest_loop params (i64 (durationVal - MaxRetargetTimespan params))
             (newTarget * RetargetAdjustmentFactor params)
      else Some newTarget)"

definition calcEasiestDifficulty :: "Params \<Rightarrow> int \<Rightarrow> int \<Rightarrow> int option" where
  "calcEasiestDifficulty params bits duration =
     (let durationVal = duration sdiv Second in
      if ReduceMinDifficulty params \<and> durationVal > MinDiffReductionTime params sdiv Second
      then Some (PowLimitBits params)
      else map_option (\<lambda>newTarget. BigToCompact (min newTarget (PowLimit params)))
             (easiest_loop params durationVal (CompactToBig bits)))"

section \<open>Difficulty of the last ordinary block of a test network\<close>

function prevTestNet_loop :: "Params \<Rightarrow> blockNode option \<Rightarrow> blockNode option" where
  "prevTestNet_loop params None = None"
| "prevTestNet_loop params (Some n) =
     (if bn_height n smod BlocksPerRetarget params \<noteq> 0 \<and> bn_bits n = PowLimitBits params
      then prevTestNet_loop params (bn_parent n) else Some n)"
  by pat_completeness auto
termination
proof (relation "measure (\<lambda>(_, n). case n of None \<Rightarrow> 0 | Some n \<Rightarrow> Suc (size n))", goal_cases)
  case (2 params n)
  then show ?case using size_parent [of n] by (cases "bn_parent n") auto
qed simp

declare prevTestNet_loop.simps [simp del]

definition findPrevTestNetDifficulty :: "Params \<Rightarrow> blockNode \<Rightarrow> int" where
  "findPrevTestNetDifficulty params startNode =
     (case prevTestNet_loop params (Some startNode) of
        None \<Rightarrow> PowLimitBits params
      | Some iterNode \<Rightarrow> bn_bits iterNode)"

section \<open>Easing a target\<close>

text \<open>The loop that both ease-downs share: multiply by the adjustment factor \<open>windows\<close> times,
  stopping at the limit.\<close>

primrec ease_loop :: "Params \<Rightarrow> nat \<Rightarrow> int \<Rightarrow> int" where
  "ease_loop params 0 newTarget = newTarget"
| "ease_loop params (Suc windows) newTarget =
     (let newTarget = newTarget * RetargetAdjustmentFactor params in
      if newTarget \<ge> PowLimit params then PowLimit params
      else ease_loop params windows newTarget)"

definition LWMA3WindowSize :: int where "LWMA3WindowSize = 60"

definition LWMA3SolveTimeClampMultiplier :: int where "LWMA3SolveTimeClampMultiplier = 6"

definition applyLWMA3StallEase :: "Params \<Rightarrow> int \<Rightarrow> int \<Rightarrow> int \<Rightarrow> int result" where
  "applyLWMA3StallEase params baseBits parentTimestamp newBlockTimestamp =
     (let targetTimePerBlock = TargetTimePerBlock params sdiv Second;
          windowSecs = i64 (LWMA3SolveTimeClampMultiplier * targetTimePerBlock);
          elapsed = i64 (newBlockTimestamp - parentTimestamp) in
      if elapsed \<le> windowSecs then Inr baseBits
      else if windowSecs = 0 then Inl Panic
      else Inr (BigToCompact (ease_loop params (nat (elapsed sdiv windowSecs)) (CompactToBig baseBits))))"

section \<open>LWMA-3\<close>

definition clampSolvetime :: "int \<Rightarrow> int \<Rightarrow> int" where
  "clampSolvetime maxSolvetime solvetime =
     (if solvetime > maxSolvetime then maxSolvetime
      else if solvetime < - maxSolvetime then - maxSolvetime else solvetime)"

text \<open>The body of the loop for the distances \<open>d - 1\<close> down to 0.\<close>

primrec LWMA3_loop ::
  "blockNode \<Rightarrow> int \<Rightarrow> int \<Rightarrow> nat \<Rightarrow> int \<Rightarrow> int \<Rightarrow> int \<Rightarrow> (int \<times> int) result" where
  "LWMA3_loop lastNode windowSize maxSolvetime 0 prevTimestamp weightedSolvetimeSum sumTarget =
     Inr (weightedSolvetimeSum, sumTarget)"
| "LWMA3_loop lastNode windowSize maxSolvetime (Suc d) prevTimestamp weightedSolvetimeSum sumTarget =
     (case RelativeAncestor lastNode (int d) of
        None \<Rightarrow> Inl AssertError
      | Some node \<Rightarrow>
          (let j = windowSize - int d;
               solvetime = clampSolvetime maxSolvetime (i64 (bn_timestamp node - prevTimestamp)) in
           LWMA3_loop lastNode windowSize maxSolvetime d (bn_timestamp node)
             (weightedSolvetimeSum + i64 (solvetime * j)) (sumTarget + CompactToBig (bn_bits node))))"

definition LWMA3_target :: "Params \<Rightarrow> int \<Rightarrow> int \<Rightarrow> int \<Rightarrow> int \<Rightarrow> int" where
  "LWMA3_target params windowSize k weightedSolvetimeSum sumTarget =
     (let avgTarget = big_Div sumTarget windowSize;
          weightedSolvetimeSum = (if weightedSolvetimeSum < 1 then 1 else weightedSolvetimeSum);
          nextTarget = big_Div (avgTarget * weightedSolvetimeSum) k in
      if nextTarget \<le> 0 \<or> nextTarget > PowLimit params then PowLimit params else nextTarget)"

definition calcNextRequiredDifficultyLWMA3 :: "Params \<Rightarrow> blockNode option \<Rightarrow> int \<Rightarrow> int result" where
  "calcNextRequiredDifficultyLWMA3 params lastNode windowSize =
     (if PoWNoRetargeting params then Inr (PowLimitBits params)
      else case lastNode of
        None \<Rightarrow> Inr (PowLimitBits params)
      | Some lastNode \<Rightarrow>
          if bn_height lastNode < windowSize then Inr (bn_bits lastNode)
          else
            let targetTimePerBlock = TargetTimePerBlock params sdiv Second;
                maxSolvetime = i64 (LWMA3SolveTimeClampMultiplier * targetTimePerBlock) in
            (case RelativeAncestor lastNode windowSize of
               None \<Rightarrow> Inl Panic
             | Some anchor \<Rightarrow>
                 rbind (LWMA3_loop lastNode windowSize maxSolvetime (nat windowSize) (bn_timestamp anchor) 0 0)
                   (\<lambda>(weightedSolvetimeSum, sumTarget).
                     let k = i64 (i64 (windowSize * (windowSize + 1)) sdiv 2 * targetTimePerBlock) in
                     if windowSize = 0 \<or> k = 0 then Inl Panic
                     else Inr (BigToCompact (LWMA3_target params windowSize k weightedSolvetimeSum sumTarget)))))"

section \<open>The required difficulty\<close>

definition maxEmergencyWindowsPerBlock :: int where "maxEmergencyWindowsPerBlock = 6"

text \<open>Between two retargets.\<close>

definition carriedDifficulty :: "Params \<Rightarrow> blockNode \<Rightarrow> int \<Rightarrow> int result" where
  "carriedDifficulty params lastNode newBlockTime =
     (if ReduceMinDifficulty params then
        (let reductionTime = MinDiffReductionTime params sdiv Second;
             allowMinTime = i64 (bn_timestamp lastNode + reductionTime) in
         if newBlockTime > allowMinTime then Inr (PowLimitBits params)
         else Inr (findPrevTestNetDifficulty params lastNode))
      else
        let emergencyActive = i32 (bn_height lastNode + 1) \<ge> EmergencyAdjustActivationHeight params;
            window = EmergencyAdjustWindow params;
            windowSecs = window sdiv Second;
            elapsed = i64 (newBlockTime - bn_timestamp lastNode) in
        if window > 0 \<and> emergencyActive \<and> elapsed > windowSecs then
          (if windowSecs = 0 then Inl Panic
           else Inr (BigToCompact (ease_loop params
             (nat (min (elapsed sdiv windowSecs) maxEmergencyWindowsPerBlock)) (CompactToBig (bn_bits lastNode)))))
        else Inr (bn_bits lastNode))"

text \<open>At a retarget.\<close>

definition retargetDifficulty :: "Params \<Rightarrow> blockNode \<Rightarrow> int result" where
  "retargetDifficulty params lastNode =
     (case RelativeAncestor lastNode (BlocksPerRetarget params - 1) of
        None \<Rightarrow> Inl AssertError
      | Some firstNode \<Rightarrow>
          (let actualTimespan = i64 (bn_timestamp lastNode - bn_timestamp firstNode);
               adjustedTimespan =
                 (if actualTimespan < MinRetargetTimespan params then MinRetargetTimespan params
                  else if actualTimespan > MaxRetargetTimespan params then MaxRetargetTimespan params
                  else actualTimespan);
               oldTarget = CompactToBig (if EnforceBIP94 params then bn_bits firstNode else bn_bits lastNode);
               targetTimeSpan = TargetTimespan params sdiv Second in
           if targetTimeSpan = 0 then Inl Panic
           else Inr (BigToCompact (min (big_Div (oldTarget * adjustedTimespan) targetTimeSpan) (PowLimit params)))))"

definition calcNextRequiredDifficulty :: "Params \<Rightarrow> blockNode option \<Rightarrow> int \<Rightarrow> int result" where
  "calcNextRequiredDifficulty params lastNode newBlockTime =
     (if PoWNoRetargeting params then Inr (PowLimitBits params)
      else case lastNode of
        None \<Rightarrow> Inr (PowLimitBits params)
      | Some lastNode \<Rightarrow>
          if LWMA3ActivationHeight params \<noteq> 0 \<and> i32 (bn_height lastNode + 1) \<ge> LWMA3ActivationHeight params then
            rbind (calcNextRequiredDifficultyLWMA3 params (Some lastNode) LWMA3WindowSize)
              (\<lambda>lwma3Bits. applyLWMA3StallEase params lwma3Bits (bn_timestamp lastNode) newBlockTime)
          else if BlocksPerRetarget params = 0 then Inl Panic
          else if i32 (bn_height lastNode + 1) smod BlocksPerRetarget params \<noteq> 0
          then carriedDifficulty params lastNode newBlockTime
          else retargetDifficulty params lastNode)"

section \<open>Bounds of the required target\<close>

definition target_ok :: "Params \<Rightarrow> int \<Rightarrow> bool" where
  "target_ok params bits \<longleftrightarrow> 0 < CompactToBig bits \<and> CompactToBig bits \<le> PowLimit params"

definition difficulty_params_ok :: "Params \<Rightarrow> bool" where
  "difficulty_params_ok params \<longleftrightarrow>
     0 < PowLimit params \<and> PowLimit params < 256 ^ 254 \<and> target_ok params (PowLimitBits params) \<and>
     1 \<le> RetargetAdjustmentFactor params \<and>
     Second \<le> TargetTimePerBlock params \<and> TargetTimePerBlock params < 2 ^ 50 \<and>
     (0 < EmergencyAdjustWindow params \<longrightarrow> Second \<le> EmergencyAdjustWindow params) \<and>
     0 < BlocksPerRetarget params \<and> 0 < TargetTimespan params sdiv Second \<and>
     (TargetTimespan params sdiv Second) * RetargetAdjustmentFactor params < 2 ^ 63"

text \<open>A property of all nodes of the chain that ends in a node.\<close>

function chain_all :: "(blockNode \<Rightarrow> bool) \<Rightarrow> blockNode \<Rightarrow> bool" where
  "chain_all P n = (P n \<and> (case bn_parent n of None \<Rightarrow> True | Some p \<Rightarrow> chain_all P p))"
  by pat_completeness auto
termination by (relation "measure (\<lambda>(_, n). size n)") (auto dest: size_parent)

declare chain_all.simps [simp del]

lemma chain_all_head: "chain_all P n \<Longrightarrow> P n"
  by (simp add: chain_all.simps [of P n])

lemma chain_all_walk: "chain_all P n \<Longrightarrow> walk h n = Some a \<Longrightarrow> P a"
proof (induction P n rule: chain_all.induct)
  case (1 P n)
  show ?case
  proof (cases "bn_height n = h")
    case True
    then show ?thesis using 1(2,3) by (simp add: walk.simps [of h n] chain_all_head)
  next
    case False
    then show ?thesis
      using 1 by (auto simp: walk.simps [of h n] chain_all.simps [of P n] split: option.splits)
  qed
qed

lemma chain_all_Relative: "chain_all P n \<Longrightarrow> node_ok n \<Longrightarrow> RelativeAncestor n d = Some a \<Longrightarrow> P a"
  by (auto simp: RelativeAncestor_def Ancestor_walk split: if_splits dest: chain_all_walk)

lemma RelativeAncestor_exists:
  assumes "node_ok n" "0 \<le> d" "d \<le> bn_height n"
  shows "\<exists>a. RelativeAncestor n d = Some a \<and> node_ok a \<and> bn_height a = bn_height n - d"
proof -
  have "i32 (bn_height n - d) = bn_height n - d" using node_ok_height [OF assms(1)] assms by (intro i32_id) simp
  then show ?thesis using Ancestor_exists [OF assms(1), of "bn_height n - d"] assms by (simp add: RelativeAncestor_def)
qed

lemma target_ok_compact:
  "difficulty_params_ok params \<Longrightarrow> 0 < t \<Longrightarrow> t \<le> PowLimit params \<Longrightarrow> target_ok params (BigToCompact t)"
  using compact_bounds [of t] by (auto simp: target_ok_def difficulty_params_ok_def)

text \<open>Easing only ever makes a target larger, up to the limit.\<close>

lemma ease_loop_bounds:
  "1 \<le> RetargetAdjustmentFactor params \<Longrightarrow> 0 < t \<Longrightarrow> t \<le> PowLimit params \<Longrightarrow>
   t \<le> ease_loop params k t \<and> ease_loop params k t \<le> PowLimit params"
proof (induction k arbitrary: t)
  case (Suc k)
  have le: "t \<le> t * RetargetAdjustmentFactor params" using Suc.prems(1,2) by (simp add: mult_le_cancel_left1)
  show ?case
  proof (cases "PowLimit params \<le> t * RetargetAdjustmentFactor params")
    case False
    have "t * RetargetAdjustmentFactor params \<le> ease_loop params k (t * RetargetAdjustmentFactor params) \<and>
        ease_loop params k (t * RetargetAdjustmentFactor params) \<le> PowLimit params"
      using Suc.IH [of "t * RetargetAdjustmentFactor params"] Suc.prems le False by simp
    moreover have "ease_loop params (Suc k) t = ease_loop params k (t * RetargetAdjustmentFactor params)"
      using False by (simp add: Let_def)
    ultimately show ?thesis using le by linarith
  qed (use Suc.prems in \<open>simp add: Let_def\<close>)
qed simp

lemma ease_target_ok:
  "difficulty_params_ok params \<Longrightarrow> target_ok params bits \<Longrightarrow>
   target_ok params (BigToCompact (ease_loop params k (CompactToBig bits)))"
  using ease_loop_bounds [of params "CompactToBig bits" k] target_ok_compact [of params "ease_loop params k (CompactToBig bits)"]
  by (auto simp: target_ok_def difficulty_params_ok_def)

lemma window_secs:
  "difficulty_params_ok params \<Longrightarrow>
   1 \<le> TargetTimePerBlock params sdiv Second \<and> TargetTimePerBlock params sdiv Second < 2 ^ 50 \<and>
   i64 (LWMA3SolveTimeClampMultiplier * (TargetTimePerBlock params sdiv Second)) =
     6 * (TargetTimePerBlock params sdiv Second)"
proof -
  assume "difficulty_params_ok params"
  then have b: "Second \<le> TargetTimePerBlock params" "TargetTimePerBlock params < 2 ^ 50"
    by (simp_all add: difficulty_params_ok_def)
  define q where "q = TargetTimePerBlock params sdiv Second"
  have q: "q = TargetTimePerBlock params div Second" using b by (simp add: q_def sdiv_nonneg Second_def)
  then have r: "1 \<le> q" "q < 2 ^ 50" using b by (simp_all add: Second_def le_div div_less)
  then have "i64 (LWMA3SolveTimeClampMultiplier * q) = 6 * q"
    by (simp add: LWMA3SolveTimeClampMultiplier_def i64_nonneg)
  then show ?thesis using r by (simp add: q_def)
qed

lemma StallEase_ok:
  assumes "difficulty_params_ok params" "target_ok params bits"
  shows "\<exists>b. applyLWMA3StallEase params bits t0 t1 = Inr b \<and> target_ok params b"
  using window_secs [OF assms(1)] ease_target_ok [OF assms] assms(2)
  by (auto simp: applyLWMA3StallEase_def Let_def)

lemma LWMA3_loop_total:
  "node_ok n \<Longrightarrow> int d \<le> bn_height n + 1 \<Longrightarrow>
   \<exists>w s'. LWMA3_loop n windowSize m d prev ws s = Inr (w, s')"
proof (induction d arbitrary: prev ws s)
  case (Suc d)
  then obtain a where "RelativeAncestor n (int d) = Some a" using RelativeAncestor_exists [of n "int d"] by auto
  then show ?case using Suc by (simp add: Let_def)
qed simp

lemma LWMA3_target_bounds:
  "0 < PowLimit params \<Longrightarrow>
   0 < LWMA3_target params w k ws s \<and> LWMA3_target params w k ws s \<le> PowLimit params"
  by (auto simp: LWMA3_target_def Let_def)

lemma LWMA3_ok:
  assumes "difficulty_params_ok params" "node_ok n" "target_ok params (bn_bits n)"
  shows "\<exists>b. calcNextRequiredDifficultyLWMA3 params (Some n) LWMA3WindowSize = Inr b \<and> target_ok params b"
proof (cases "PoWNoRetargeting params \<or> bn_height n < LWMA3WindowSize")
  case True
  then show ?thesis using assms by (auto simp: calcNextRequiredDifficultyLWMA3_def difficulty_params_ok_def)
next
  case False
  then obtain a where a: "RelativeAncestor n LWMA3WindowSize = Some a"
    using RelativeAncestor_exists [OF assms(2), of LWMA3WindowSize] by (auto simp: LWMA3WindowSize_def)
  define q where "q = TargetTimePerBlock params sdiv Second"
  have q: "1 \<le> q" "q < 2 ^ 50" using window_secs [OF assms(1)] by (simp_all add: q_def)
  obtain w s where l: "LWMA3_loop n LWMA3WindowSize (i64 (LWMA3SolveTimeClampMultiplier * q)) (nat LWMA3WindowSize) (bn_timestamp a) 0 0 = Inr (w, s)"
    using LWMA3_loop_total [OF assms(2), of "nat LWMA3WindowSize" LWMA3WindowSize
        "i64 (LWMA3SolveTimeClampMultiplier * q)" "bn_timestamp a" 0 0] False
    by (auto simp: LWMA3WindowSize_def)
  have "i64 (LWMA3WindowSize * (LWMA3WindowSize + 1)) sdiv 2 = 1830"
    by (simp add: LWMA3WindowSize_def i64_def sdiv_nonneg)
  then have k: "i64 (i64 (LWMA3WindowSize * (LWMA3WindowSize + 1)) sdiv 2 * q) = 1830 * q"
    using q by (simp add: i64_nonneg)
  show ?thesis
    using False a l k q assms(1) target_ok_compact [OF assms(1)] LWMA3_target_bounds [of params]
    by (simp add: calcNextRequiredDifficultyLWMA3_def q_def [symmetric] Let_def LWMA3WindowSize_def difficulty_params_ok_def)
qed

lemma prevTestNet_ok:
  "chain_all P n \<Longrightarrow> prevTestNet_loop params (Some n) = Some a \<Longrightarrow> P a"
proof (induction P n rule: chain_all.induct)
  case (1 P n)
  then show ?case by (cases "bn_parent n") (auto simp: chain_all.simps [of P n] prevTestNet_loop.simps split: if_splits)
qed

lemma carried_ok:
  assumes "difficulty_params_ok params" "chain_all (\<lambda>m. target_ok params (bn_bits m)) n"
  shows "\<exists>b. carriedDifficulty params n t = Inr b \<and> target_ok params b"
proof -
  have n: "target_ok params (bn_bits n)" using chain_all_head [OF assms(2)] .
  have lim: "target_ok params (PowLimitBits params)" using assms(1) by (simp add: difficulty_params_ok_def)
  have prev: "target_ok params (findPrevTestNetDifficulty params n)"
    using prevTestNet_ok [OF assms(2)] lim by (auto simp: findPrevTestNetDifficulty_def split: option.splits)
  have w: "EmergencyAdjustWindow params sdiv Second \<noteq> 0" if "0 < EmergencyAdjustWindow params"
  proof -
    have "Second \<le> EmergencyAdjustWindow params" using that assms(1) by (simp add: difficulty_params_ok_def)
    then have "1 \<le> EmergencyAdjustWindow params sdiv Second" by (simp add: sdiv_nonneg Second_def le_div)
    then show ?thesis by simp
  qed
  show ?thesis
    using n lim prev w ease_target_ok [OF assms(1) n] by (auto simp: carriedDifficulty_def Let_def)
qed

text \<open>A retarget can only fail to give a target when the old one is too small for the rounding.\<close>

definition retarget_room :: "Params \<Rightarrow> blockNode \<Rightarrow> bool" where
  "retarget_room params n \<longleftrightarrow>
     TargetTimespan params sdiv Second \<le> CompactToBig (bn_bits n) * MinRetargetTimespan params"

lemma retarget_timespans:
  "difficulty_params_ok params \<Longrightarrow> MinRetargetTimespan params \<le> MaxRetargetTimespan params"
proof -
  define T where "T = TargetTimespan params sdiv Second"
  define f where "f = RetargetAdjustmentFactor params"
  assume "difficulty_params_ok params"
  then have b: "0 < T" "1 \<le> f" "T * f < 2 ^ 63" by (simp_all add: difficulty_params_ok_def T_def f_def)
  have "T div f \<le> T" using b zdiv_mono2 [of T 1 f] by simp
  also have "T \<le> T * f" using b by (simp add: mult_le_cancel_left1)
  also have "T * f = i64 (T * f)" using b by (simp add: i64_nonneg)
  finally show ?thesis
    using b by (simp add: MinRetargetTimespan_def MaxRetargetTimespan_def T_def [symmetric] f_def [symmetric] sdiv_nonneg)
qed

lemma retarget_ok:
  assumes p: "difficulty_params_ok params" and n: "node_ok n"
    and t: "chain_all (\<lambda>m. target_ok params (bn_bits m)) n" and r: "chain_all (retarget_room params) n"
    and m: "i32 (bn_height n + 1) smod BlocksPerRetarget params = 0"
    and h: "bn_height n + 1 < 2 ^ 31"
  shows "\<exists>b. retargetDifficulty params n = Inr b \<and> target_ok params b"
proof -
  define B where "B = BlocksPerRetarget params"
  have B: "0 < B" using p by (simp add: difficulty_params_ok_def B_def)
  have i: "i32 (bn_height n + 1) = bn_height n + 1" using node_ok_height [OF n] h by (intro i32_id) simp
  then have "(bn_height n + 1) mod B = 0" using m node_ok_height [OF n] B by (simp add: B_def smod_nonneg)
  then have "B \<le> bn_height n + 1" using B node_ok_height [OF n] by (auto elim!: zdvd_imp_le simp: mod_eq_0_iff_dvd)
  then obtain f where f: "RelativeAncestor n (B - 1) = Some f"
    using RelativeAncestor_exists [OF n, of "B - 1"] B by auto
  define x where "x = (if EnforceBIP94 params then bn_bits f else bn_bits n)"
  have x: "target_ok params x" "TargetTimespan params sdiv Second \<le> CompactToBig x * MinRetargetTimespan params"
    using chain_all_Relative [OF t n f] chain_all_Relative [OF r n f] chain_all_head [OF t] chain_all_head [OF r]
    by (auto simp: x_def retarget_room_def)
  define s where "s = i64 (bn_timestamp n - bn_timestamp f)"
  define a where "a = (if s < MinRetargetTimespan params then MinRetargetTimespan params
     else if s > MaxRetargetTimespan params then MaxRetargetTimespan params else s)"
  define T where "T = TargetTimespan params sdiv Second"
  have T: "0 < T" using p by (simp add: T_def difficulty_params_ok_def)
  have "MinRetargetTimespan params \<le> a" using retarget_timespans [OF p] by (simp add: a_def)
  then have "CompactToBig x * MinRetargetTimespan params \<le> CompactToBig x * a"
    using x(1) by (simp add: target_ok_def)
  then have "1 \<le> (CompactToBig x * a) div T" using x(2) T by (simp add: le_div T_def)
  then have "target_ok params (BigToCompact (min (big_Div (CompactToBig x * a) T) (PowLimit params)))"
    using target_ok_compact [OF p] T p by (simp add: big_Div_def difficulty_params_ok_def)
  moreover have "retargetDifficulty params n =
      Inr (BigToCompact (min (big_Div (CompactToBig x * a) T) (PowLimit params)))"
    unfolding retargetDifficulty_def Let_def B_def [symmetric] f option.case
      s_def [symmetric] a_def [symmetric] x_def [symmetric] T_def [symmetric] using T by simp
  ultimately show ?thesis by blast
qed

text \<open>The parameters of the main network.\<close>

definition MainNetParams :: Params where
  "MainNetParams =
     \<lparr>GenesisHash =
        [0x95, 0x8f, 0xc4, 0x5a, 0x67, 0x1a, 0x07, 0x6d, 0xf1, 0xcd, 0xc5, 0x67, 0xf0, 0xce, 0xf1, 0xbc,
         0x02, 0x43, 0x86, 0xc6, 0xc4, 0x7e, 0x7f, 0x85, 0xa7, 0xea, 0x82, 0xd5, 0x9e, 0xf6, 0x00, 0x00],
      PowLimit = 0x0fffff * 2 ^ 224,
      PowLimitBits = 0x1d00ffff,
      PoWNoRetargeting = False,
      EnforceBIP94 = False,
      BIP0034Height = 227931,
      BIP0034Hash = Some (le_bytes 32 0x000000000000024b89b42a942fe0d9fea3bb44ab7bd1b19115dd6a759c0808b8),
      BIP0065Height = 388381,
      BIP0066Height = 363725,
      CoinbaseMaturity = 100,
      SubsidyReductionInterval = 210000,
      TargetTimespan = 14 * 24 * 3600 * Second,
      TargetTimePerBlock = 600 * Second,
      RetargetAdjustmentFactor = 4,
      ReduceMinDifficulty = False,
      MinDiffReductionTime = 0,
      EmergencyAdjustWindow = 600 * Second,
      EmergencyAdjustActivationHeight = 40095,
      LWMA3ActivationHeight = 54500,
      VDFExactTActivationHeight = 55440,
      Checkpoints = [],
      RuleChangeActivationThreshold = 1916,
      MinerConfirmationWindow = 2016\<rparr>"

lemma MainNetParams_ok: "difficulty_params_ok MainNetParams"
  by (simp add: difficulty_params_ok_def MainNetParams_def target_ok_def Second_def BlocksPerRetarget_def
      i32_def sdiv_nonneg CompactToBig_arith [of 65535 29, simplified])

section \<open>Further facts\<close>

text \<open>A window of blocks that all landed on schedule with one target leaves that target.\<close>

definition on_schedule :: "Params \<Rightarrow> blockNode \<Rightarrow> int \<Rightarrow> nat \<Rightarrow> bool" where
  "on_schedule params n t k \<longleftrightarrow>
     (\<forall>d \<le> k. \<exists>a. RelativeAncestor n (int d) = Some a \<and>
        bn_timestamp a = bn_timestamp n - int d * (TargetTimePerBlock params sdiv Second) \<and>
        CompactToBig (bn_bits a) = t)"

lemma LWMA3_loop_steady:
  assumes "difficulty_params_ok params" "on_schedule params n t k" "d \<le> k" "d \<le> 60"
    and q: "q = TargetTimePerBlock params sdiv Second"
  shows "LWMA3_loop n 60 (6 * q) d (bn_timestamp n - int d * q) ws s =
    Inr (ws + q * (\<Sum>i<d. 60 - int i), s + int d * t)"
  using assms(3,4)
proof (induction d arbitrary: ws s)
  case (Suc d)
  obtain a where a: "RelativeAncestor n (int d) = Some a" "bn_timestamp a = bn_timestamp n - int d * q"
      "CompactToBig (bn_bits a) = t"
    using assms(2) Suc.prems(1) unfolding on_schedule_def q by (meson Suc_leD)
  have b: "1 \<le> q" "q < 2 ^ 50" using window_secs [OF assms(1)] by (simp_all add: q)
  have st: "bn_timestamp a - (bn_timestamp n - int (Suc d) * q) = q" by (simp add: a(2) algebra_simps)
  have "i64 q = q" using b by (simp add: i64_nonneg)
  then have c: "clampSolvetime (6 * q) (i64 (bn_timestamp a - (bn_timestamp n - int (Suc d) * q))) = q"
    unfolding st using b by (simp add: clampSolvetime_def)
  have "q * (60 - int d) \<le> q * 60" "0 \<le> q * (60 - int d)" using b Suc.prems(2) by (simp_all add: mult_left_mono)
  moreover have "q < 1125899906842624" using b by simp
  ultimately have "q * (60 - int d) < 9223372036854775808" by linarith
  then have i: "i64 (q * (60 - int d)) = q * (60 - int d)" using \<open>0 \<le> q * (60 - int d)\<close> by (rule i64_nonneg [rotated])
  have "LWMA3_loop n 60 (6 * q) (Suc d) (bn_timestamp n - int (Suc d) * q) ws s =
      LWMA3_loop n 60 (6 * q) d (bn_timestamp n - int d * q) (ws + q * (60 - int d)) (s + t)"
    unfolding LWMA3_loop.simps a(1) option.case Let_def c i a(3) by (simp add: a(2))
  then show ?case using Suc by (simp add: algebra_simps)
qed simp

lemma LWMA3_steady:
  assumes p: "difficulty_params_ok params" "\<not> PoWNoRetargeting params" and "60 \<le> bn_height n"
    and s: "on_schedule params n t 60" and t: "0 < t" "t \<le> PowLimit params"
  shows "calcNextRequiredDifficultyLWMA3 params (Some n) LWMA3WindowSize = Inr (BigToCompact t)"
proof -
  define q where "q = TargetTimePerBlock params sdiv Second"
  have b: "1 \<le> q" "q < 2 ^ 50" "i64 (LWMA3SolveTimeClampMultiplier * q) = 6 * q"
    using window_secs [OF p(1)] by (simp_all add: q_def)
  have "\<exists>a. RelativeAncestor n (int 60) = Some a \<and> bn_timestamp a = bn_timestamp n - int 60 * q \<and> CompactToBig (bn_bits a) = t"
    using s unfolding on_schedule_def q_def by blast
  then obtain a where a: "RelativeAncestor n 60 = Some a" "bn_timestamp a = bn_timestamp n - int 60 * q" by auto
  have "(\<Sum>i<60. 60 - int i) = 1830" by (simp add: lessThan_nat_numeral)
  then have l: "LWMA3_loop n 60 (6 * q) 60 (bn_timestamp a) 0 0 = Inr (q * 1830, 60 * t)"
    using LWMA3_loop_steady [OF p(1) s _ _ q_def, of 60 0 0] unfolding a(2) by simp
  have k: "i64 (i64 (60 * (60 + 1)) sdiv 2 * q) = 1830 * q" using b by (simp add: i64_nonneg sdiv_nonneg)
  have "LWMA3_target params 60 (1830 * q) (q * 1830) (60 * t) = t"
    using b t by (simp add: LWMA3_target_def Let_def big_Div_def)
  then show ?thesis
    using p(2) assms(3) a(1) l k b
    by (simp add: calcNextRequiredDifficultyLWMA3_def LWMA3WindowSize_def q_def [symmetric] Let_def)
qed

text \<open>The search for the easiest difficulty ends.\<close>

lemma easiest_loop_returns:
  "0 < MaxRetargetTimespan params \<Longrightarrow> d < 2 ^ 63 \<Longrightarrow> \<exists>t. easiest_loop params d t0 = Some t"
proof (induction "nat d" arbitrary: d t0 rule: less_induct)
  case less
  show ?case
  proof (cases "0 < d \<and> t0 < PowLimit params")
    case True
    have "MaxRetargetTimespan params < 2 ^ 63" by (simp add: MaxRetargetTimespan_def)
    then have "i64 (d - MaxRetargetTimespan params) = d - MaxRetargetTimespan params"
      using True less.prems by (intro i64_id) simp
    then show ?thesis
      using True less.hyps [of "d - MaxRetargetTimespan params"] less.prems
      by (subst easiest_loop.simps) simp
  next
    case False
    then show ?thesis by (subst easiest_loop.simps) auto
  qed
qed

text \<open>A block stamped two hours after its parent, which the rules for times allow at any moment,
  needs only a sixteenth of the work.\<close>

lemma future_timestamp_eases:
  "applyLWMA3StallEase MainNetParams bits t (t + 7200) =
   Inr (BigToCompact (min (16 * CompactToBig bits) (PowLimit MainNetParams)))" if "0 < CompactToBig bits"
proof -
  have "ease_loop MainNetParams (Suc (Suc 0)) x = min (16 * x) (PowLimit MainNetParams)" if "0 < x" for x
    using that by (simp add: Let_def MainNetParams_def)
  moreover have "i64 7200 = 7200" "i64 3600 = 3600" by (simp_all add: i64_nonneg)
  moreover have "TargetTimePerBlock MainNetParams sdiv Second = 600"
    by (simp add: MainNetParams_def Second_def sdiv_nonneg)
  ultimately show ?thesis
    using that by (simp add: applyLWMA3StallEase_def LWMA3SolveTimeClampMultiplier_def sdiv_nonneg numeral_2_eq_2)
qed

text \<open>
  C30. The difficulty that the next block must state exists and stands for a target that is positive
  and at most the limit of the network, for a chain all of whose targets are: with LWMA-3 and its
  ease-down after a stall, between two retargets with the emergency ease-down, and at a retarget,
  there provided the old targets are not so small that the scaling rounds to zero. Scaling the target
  down to zero is what LWMA-3 guards against by falling back to the limit.
\<close>

theorem required_target_bounds:
  assumes "difficulty_params_ok params" "node_ok n" "bn_height n + 1 < 2 ^ 31"
    and "chain_all (\<lambda>m. target_ok params (bn_bits m)) n"
    and "LWMA3ActivationHeight params \<noteq> 0 \<and> LWMA3ActivationHeight params \<le> bn_height n + 1 \<or>
         chain_all (retarget_room params) n"
  shows "\<exists>bits. calcNextRequiredDifficulty params (Some n) newBlockTime = Inr bits \<and>
    0 < CompactToBig bits \<and> CompactToBig bits \<le> PowLimit params"
proof -
  have i: "i32 (bn_height n + 1) = bn_height n + 1"
    using node_ok_height [OF assms(2)] assms(3) by (intro i32_id) simp
  have t: "target_ok params (bn_bits n)" using chain_all_head [OF assms(4)] .
  obtain b where b: "calcNextRequiredDifficultyLWMA3 params (Some n) LWMA3WindowSize = Inr b" "target_ok params b"
    using LWMA3_ok [OF assms(1,2) t] by blast
  have "\<exists>bits. calcNextRequiredDifficulty params (Some n) newBlockTime = Inr bits \<and> target_ok params bits"
    using assms StallEase_ok [OF assms(1) b(2)] b(1) carried_ok [OF assms(1,4)] retarget_ok [OF assms(1,2,4)] i
    by (auto simp: calcNextRequiredDifficulty_def difficulty_params_ok_def)
  then show ?thesis by (simp add: target_ok_def)
qed

theorem required_target_bounds_witness:
  "\<exists>bits. calcNextRequiredDifficulty MainNetParams (Some (newBlockNode (sample_header \<lparr>bh_Bits := 0x1d00ffff\<rparr>) None)) 0 = Inr bits \<and>
    0 < CompactToBig bits \<and> CompactToBig bits \<le> PowLimit MainNetParams"
proof (rule required_target_bounds)
  show "difficulty_params_ok MainNetParams" by (rule MainNetParams_ok)
  let ?n = "newBlockNode (sample_header \<lparr>bh_Bits := 0x1d00ffff\<rparr>) None"
  show "node_ok ?n" by (rule node_ok_root_new)
  show "bn_height ?n + 1 < 2 ^ 31" by (simp add: newBlockNode_def)
  have c: "CompactToBig 0x1d00ffff = 65535 * 256 ^ 26" using CompactToBig_arith [of 65535 29] by simp
  show "chain_all (\<lambda>m. target_ok MainNetParams (bn_bits m)) ?n"
    by (simp add: chain_all.simps newBlockNode_def target_ok_def c MainNetParams_def)
  show "LWMA3ActivationHeight MainNetParams \<noteq> 0 \<and> LWMA3ActivationHeight MainNetParams \<le> bn_height ?n + 1 \<or>
      chain_all (retarget_room MainNetParams) ?n"
    by (rule disjI2) (simp add: chain_all.simps newBlockNode_def retarget_room_def c MainNetParams_def
        MinRetargetTimespan_def Second_def sdiv_nonneg)
qed
end
