(* ===== verification/UtxoCache.thy ===== *)
theory UtxoCache
  imports UtxoCodec "HOL-Library.AList"
begin

text \<open>
  The cache of unspent outputs in front of the database, \<^verbatim>\<open>blockchain/utxocache.go\<close>: the slice of maps
  that stores the entries, fetching, connecting blocks, and writing the cache back. The cache over the
  stored bytes refines the same map of coins as the views of theory \<open>Utxo\<close>.

  The estimates of \<^verbatim>\<open>blockchain/sizehelper.go\<close> and the capacity of byte slices only decide when a new map is
  made and when the cache is flushed; they are the parameter \<open>sz\<close>, and the results hold for all of them.
\<close>

section \<open>Model\<close>

record Sizing =
  sz_rough :: "int \<Rightarrow> int"
  sz_minEntries :: "int \<Rightarrow> int"
  sz_cap :: "bytes \<Rightarrow> int"

subsection \<open>The slice of maps\<close>

type_synonym entry_map = "(OutPoint \<times> UtxoEntry option) list"

record mapSlice =
  ms_maps :: "entry_map list"
  ms_maxEntries :: "int list"
  ms_maxTotalMemoryUsage :: int

definition ms_length :: "mapSlice \<Rightarrow> nat" where
  "ms_length ms = foldl (\<lambda>l m. l + length m) 0 (ms_maps ms)"

definition ms_size :: "Sizing \<Rightarrow> mapSlice \<Rightarrow> int" where
  "ms_size sz ms = foldl (\<lambda>s num. s + sz_rough sz num) 0 (ms_maxEntries ms)"

primrec get_loop :: "OutPoint \<Rightarrow> entry_map list \<Rightarrow> UtxoEntry option option" where
  "get_loop op [] = None"
| "get_loop op (m # ms) = (case map_of m op of Some entry \<Rightarrow> Some entry | None \<Rightarrow> get_loop op ms)"

definition ms_get :: "mapSlice \<Rightarrow> OutPoint \<Rightarrow> UtxoEntry option option" where
  "ms_get ms op = get_loop op (ms_maps ms)"

text \<open>The two loops of \<^verbatim>\<open>put\<close>: None when no map takes the entry.\<close>

primrec put_found :: "OutPoint \<Rightarrow> UtxoEntry option \<Rightarrow> entry_map list \<Rightarrow> entry_map list option" where
  "put_found op entry [] = None"
| "put_found op entry (m # ms) =
     (if map_of m op \<noteq> None then Some (AList.update op entry m # ms)
      else map_option (Cons m) (put_found op entry ms))"

primrec put_room :: "OutPoint \<Rightarrow> UtxoEntry option \<Rightarrow> (entry_map \<times> int) list \<Rightarrow> entry_map list option" where
  "put_room op entry [] = None"
| "put_room op entry (mn # ms) =
     (if int (length (fst mn)) \<ge> snd mn then map_option (Cons (fst mn)) (put_room op entry ms)
      else Some (AList.update op entry (fst mn) # map fst ms))"

definition makeNewMap :: "Sizing \<Rightarrow> int \<Rightarrow> mapSlice \<Rightarrow> mapSlice" where
  "makeNewMap sz totalEntryMemory ms =
     (let memSize = foldl (\<lambda>memSize maxNum. u64 (memSize - u64 (sz_rough sz maxNum)))
            (u64 (ms_maxTotalMemoryUsage ms - totalEntryMemory)) (ms_maxEntries ms);
          numMaxElements = sz_minEntries sz (i64 memSize) - 1
      in ms\<lparr>ms_maxEntries := ms_maxEntries ms @ [numMaxElements], ms_maps := ms_maps ms @ [[]]\<rparr>)"

definition ms_put :: "Sizing \<Rightarrow> OutPoint \<Rightarrow> UtxoEntry option \<Rightarrow> int \<Rightarrow> mapSlice \<Rightarrow> mapSlice" where
  "ms_put sz op entry totalEntryMemory ms =
     (case put_found op entry (ms_maps ms) of
        Some maps \<Rightarrow> ms\<lparr>ms_maps := maps\<rparr>
      | None \<Rightarrow>
          (case put_room op entry (zip (ms_maps ms) (ms_maxEntries ms)) of
             Some maps \<Rightarrow> ms\<lparr>ms_maps := maps\<rparr>
           | None \<Rightarrow>
               let ms = makeNewMap sz totalEntryMemory ms in
               ms\<lparr>ms_maps := butlast (ms_maps ms) @ [AList.update op entry (last (ms_maps ms))]\<rparr>))"

definition ms_delete :: "OutPoint \<Rightarrow> mapSlice \<Rightarrow> mapSlice" where
  "ms_delete op ms = ms\<lparr>ms_maps := map (AList.delete op) (ms_maps ms)\<rparr>"

definition deleteMaps :: "mapSlice \<Rightarrow> mapSlice" where
  "deleteMaps ms = ms\<lparr>ms_maxEntries := [ms_maxEntries ms ! 0], ms_maps := take 1 (ms_maps ms)\<rparr>"

subsection \<open>The cache\<close>

datatype FlushMode = FlushRequired | FlushPeriodic | FlushIfNeeded

text \<open>Times are in seconds.\<close>

record utxoCache =
  uc_utxoBucket :: bucket
  uc_consistency :: "bytes option"
  uc_maxTotalMemoryUsage :: int
  uc_cachedEntries :: mapSlice
  uc_totalEntryMemory :: int
  uc_lastFlushHash :: bytes
  uc_lastFlushTime :: int

definition baseEntrySize :: int where "baseEntrySize = 40"

definition memoryUsage :: "Sizing \<Rightarrow> UtxoEntry option \<Rightarrow> int" where
  "memoryUsage sz entry = (case entry of None \<Rightarrow> 0 | Some e \<Rightarrow> u64 (baseEntrySize + u64 (sz_cap sz (ue_pkScript e))))"

definition newUtxoCache :: "Sizing \<Rightarrow> bucket \<Rightarrow> int \<Rightarrow> utxoCache" where
  "newUtxoCache sz db maxTotalMemoryUsage =
     \<lparr>uc_utxoBucket = db, uc_consistency = None, uc_maxTotalMemoryUsage = maxTotalMemoryUsage,
      uc_cachedEntries = \<lparr>ms_maps = [[]], ms_maxEntries = [sz_minEntries sz (i64 maxTotalMemoryUsage) - 1],
                          ms_maxTotalMemoryUsage = maxTotalMemoryUsage\<rparr>,
      uc_totalEntryMemory = 0, uc_lastFlushHash = replicate 32 0, uc_lastFlushTime = 0\<rparr>"

definition totalMemoryUsage :: "Sizing \<Rightarrow> utxoCache \<Rightarrow> int" where
  "totalMemoryUsage sz s = u64 (u64 (ms_size sz (uc_cachedEntries s)) + uc_totalEntryMemory s)"

primrec fetch_missing ::
  "(bytes \<Rightarrow> 'k option) \<Rightarrow> ('k \<Rightarrow> bytes) \<Rightarrow> bucket \<Rightarrow> OutPoint list \<Rightarrow> UtxoEntry option list result" where
  "fetch_missing parse ser db [] = Inr []"
| "fetch_missing parse ser db (op # ops) =
     rbind (dbFetchUtxoEntry parse ser db op) (\<lambda>entry. rbind (fetch_missing parse ser db ops) (\<lambda>entries. Inr (entry # entries)))"

definition cache_put :: "Sizing \<Rightarrow> OutPoint \<Rightarrow> UtxoEntry option \<Rightarrow> utxoCache \<Rightarrow> utxoCache" where
  "cache_put sz op entry s =
     s\<lparr>uc_cachedEntries := ms_put sz op entry (uc_totalEntryMemory s) (uc_cachedEntries s),
       uc_totalEntryMemory := u64 (uc_totalEntryMemory s + memoryUsage sz entry)\<rparr>"

definition fetchEntries ::
  "Sizing \<Rightarrow> (bytes \<Rightarrow> 'k option) \<Rightarrow> ('k \<Rightarrow> bytes) \<Rightarrow> OutPoint list \<Rightarrow> utxoCache \<Rightarrow> (UtxoEntry option list \<times> utxoCache) result" where
  "fetchEntries sz parse ser outpoints s =
     (let missingOps = filter (\<lambda>op. ms_get (uc_cachedEntries s) op = None) outpoints in
      rbind (fetch_missing parse ser (uc_utxoBucket s) missingOps) (\<lambda>dbEntries.
      Inr (map (\<lambda>op. case ms_get (uc_cachedEntries s) op of
                  Some entry \<Rightarrow> entry
                | None \<Rightarrow> (case map_of (zip missingOps dbEntries) op of Some entry \<Rightarrow> entry | None \<Rightarrow> None)) outpoints,
           fold (\<lambda>(op, entry). cache_put sz op entry) (zip missingOps dbEntries) s)))"

definition cache_addTxOut :: "Sizing \<Rightarrow> OutPoint \<Rightarrow> TxOut \<Rightarrow> bool \<Rightarrow> int \<Rightarrow> utxoCache \<Rightarrow> utxoCache" where
  "cache_addTxOut sz outpoint txOut isCoinBase blockHeight s =
     (if IsUnspendable (to_PkScript txOut) then s
      else cache_put sz outpoint (Some
        \<lparr>ue_amount = to_Value txOut, ue_pkScript = to_PkScript txOut, ue_blockHeight = blockHeight,
         ue_packedFlags = (if isCoinBase then or (or tfFresh tfModified) tfCoinBase else or tfFresh tfModified)\<rparr>) s)"

definition cache_addTxOuts :: "Sizing \<Rightarrow> MsgTx \<Rightarrow> int \<Rightarrow> utxoCache \<Rightarrow> utxoCache" where
  "cache_addTxOuts sz tx blockHeight s =
     foldl (\<lambda>s (txOutIdx, txOut).
         cache_addTxOut sz \<lparr>op_Hash = TxHash tx, op_Index = u32 (int txOutIdx)\<rparr> txOut (IsCoinBaseTx tx) blockHeight s)
       s (List.enumerate 0 (tx_TxOut tx))"

text \<open>
  The entry is a pointer into the cache, so marking it spent changes the cached entry. When it is not
  fresh, the local pointer is set to nil before the memory it uses is subtracted, which subtracts nothing.
\<close>

definition cache_addTxIn ::
  "Sizing \<Rightarrow> (bytes \<Rightarrow> 'k option) \<Rightarrow> ('k \<Rightarrow> bytes) \<Rightarrow> TxIn \<Rightarrow> utxoCache \<times> SpentTxOut list option \<Rightarrow> (utxoCache \<times> SpentTxOut list option) result" where
  "cache_addTxIn sz parse ser txIn = (\<lambda>(s, stxos).
     rbind (fetchEntries sz parse ser [ti_PreviousOutPoint txIn] s) (\<lambda>(entries, s).
     case entries of
       [Some entry] \<Rightarrow>
         let stxos = (case stxos of None \<Rightarrow> None | Some l \<Rightarrow> Some (l @ [toSpentTxOut entry]));
             s = s\<lparr>uc_cachedEntries := ms_put sz (ti_PreviousOutPoint txIn) (Some (Spend entry)) (uc_totalEntryMemory s) (uc_cachedEntries s)\<rparr>
         in
         if isFresh (Spend entry) then
           Inr (s\<lparr>uc_cachedEntries := ms_delete (ti_PreviousOutPoint txIn) (uc_cachedEntries s),
                  uc_totalEntryMemory := u64 (uc_totalEntryMemory s - memoryUsage sz (Some (Spend entry)))\<rparr>, stxos)
         else Inr (s\<lparr>uc_totalEntryMemory := u64 (uc_totalEntryMemory s - memoryUsage sz None)\<rparr>, stxos)
     | _ \<Rightarrow> Inl AssertError))"

primrec cache_addTxIns_loop ::
  "Sizing \<Rightarrow> (bytes \<Rightarrow> 'k option) \<Rightarrow> ('k \<Rightarrow> bytes) \<Rightarrow> TxIn list \<Rightarrow> utxoCache \<times> SpentTxOut list option \<Rightarrow> (utxoCache \<times> SpentTxOut list option) result" where
  "cache_addTxIns_loop sz parse ser [] ss = Inr ss"
| "cache_addTxIns_loop sz parse ser (txIn # txIns) ss =
     (if IsPoolDrawSentinelInput txIn then cache_addTxIns_loop sz parse ser txIns ss
      else rbind (cache_addTxIn sz parse ser txIn ss) (cache_addTxIns_loop sz parse ser txIns))"

definition cache_addTxIns ::
  "Sizing \<Rightarrow> (bytes \<Rightarrow> 'k option) \<Rightarrow> ('k \<Rightarrow> bytes) \<Rightarrow> MsgTx \<Rightarrow> utxoCache \<times> SpentTxOut list option \<Rightarrow> (utxoCache \<times> SpentTxOut list option) result" where
  "cache_addTxIns sz parse ser tx ss =
     (if IsCoinBaseTx tx then Inr ss
      else if IsVDFResultTx tx then Inr ss
      else cache_addTxIns_loop sz parse ser (tx_TxIn tx) ss)"

definition cache_connectTransaction ::
  "Sizing \<Rightarrow> (bytes \<Rightarrow> 'k option) \<Rightarrow> ('k \<Rightarrow> bytes) \<Rightarrow> MsgTx \<Rightarrow> int \<Rightarrow> utxoCache \<times> SpentTxOut list option \<Rightarrow> (utxoCache \<times> SpentTxOut list option) result" where
  "cache_connectTransaction sz parse ser tx blockHeight ss =
     rbind (cache_addTxIns sz parse ser tx ss) (\<lambda>(s, stxos). Inr (cache_addTxOuts sz tx blockHeight s, stxos))"

primrec cache_connect_txs ::
  "Sizing \<Rightarrow> (bytes \<Rightarrow> 'k option) \<Rightarrow> ('k \<Rightarrow> bytes) \<Rightarrow> MsgTx list \<Rightarrow> int \<Rightarrow> utxoCache \<times> SpentTxOut list option \<Rightarrow> (utxoCache \<times> SpentTxOut list option) result" where
  "cache_connect_txs sz parse ser [] blockHeight ss = Inr ss"
| "cache_connect_txs sz parse ser (tx # txs) blockHeight ss =
     rbind (cache_connectTransaction sz parse ser tx blockHeight ss) (cache_connect_txs sz parse ser txs blockHeight)"

definition cache_connectTransactions ::
  "Sizing \<Rightarrow> (bytes \<Rightarrow> 'k option) \<Rightarrow> ('k \<Rightarrow> bytes) \<Rightarrow> Block \<Rightarrow> utxoCache \<times> SpentTxOut list option \<Rightarrow> (utxoCache \<times> SpentTxOut list option) result" where
  "cache_connectTransactions sz parse ser block ss =
     cache_connect_txs sz parse ser (mb_Transactions (blk_msg block)) (blk_height block) ss"

subsection \<open>Flushing\<close>

definition write_entry :: "(bytes \<Rightarrow> 'k option) \<Rightarrow> OutPoint \<times> UtxoEntry option \<Rightarrow> bucket \<Rightarrow> bucket result" where
  "write_entry parse oe db =
     (case oe of (outpoint, entry) \<Rightarrow>
        (case entry of
           None \<Rightarrow> Inr (dbDeleteUtxoEntry db outpoint)
         | Some e \<Rightarrow>
             if IsSpent e then Inr (dbDeleteUtxoEntry db outpoint)
             else if \<not> isModified e then Inr db
             else dbPutUtxoEntry parse db outpoint entry))"

primrec write_entries :: "(bytes \<Rightarrow> 'k option) \<Rightarrow> (OutPoint \<times> UtxoEntry option) list \<Rightarrow> bucket \<Rightarrow> bucket result" where
  "write_entries parse [] db = Inr db"
| "write_entries parse (oe # oes) db = rbind (write_entry parse oe db) (write_entries parse oes)"

definition writeCache :: "(bytes \<Rightarrow> 'k option) \<Rightarrow> bytes \<Rightarrow> int \<Rightarrow> utxoCache \<Rightarrow> utxoCache result" where
  "writeCache parse bestHash now s =
     rbind (write_entries parse (concat (ms_maps (uc_cachedEntries s))) (uc_utxoBucket s)) (\<lambda>db.
     Inr (s\<lparr>uc_utxoBucket := db,
            uc_cachedEntries := deleteMaps ((uc_cachedEntries s)\<lparr>ms_maps := map (\<lambda>_. []) (ms_maps (uc_cachedEntries s))\<rparr>),
            uc_totalEntryMemory := 0, uc_consistency := Some bestHash, uc_lastFlushHash := bestHash,
            uc_lastFlushTime := now\<rparr>))"

definition utxoFlushPeriodicInterval :: int where "utxoFlushPeriodicInterval = 60 * 5"

definition flush :: "Sizing \<Rightarrow> (bytes \<Rightarrow> 'k option) \<Rightarrow> FlushMode \<Rightarrow> bytes \<Rightarrow> int \<Rightarrow> utxoCache \<Rightarrow> utxoCache result" where
  "flush sz parse mode bestHash now s =
     (if mode = FlushIfNeeded \<and> bestHash = uc_lastFlushHash s then Inr s
      else
        let threshold = (case mode of
              FlushRequired \<Rightarrow> 0
            | FlushIfNeeded \<Rightarrow> uc_maxTotalMemoryUsage s
            | FlushPeriodic \<Rightarrow> if now - uc_lastFlushTime s > utxoFlushPeriodicInterval then 0 else uc_maxTotalMemoryUsage s)
        in if totalMemoryUsage sz s \<ge> threshold then writeCache parse bestHash now s else Inr s)"

subsection \<open>Views over the cache\<close>

definition fetchUtxosFromCache ::
  "Sizing \<Rightarrow> (bytes \<Rightarrow> 'k option) \<Rightarrow> ('k \<Rightarrow> bytes) \<Rightarrow> OutPoint list \<Rightarrow> UtxoViewpoint \<times> utxoCache \<Rightarrow> (UtxoViewpoint \<times> utxoCache) result" where
  "fetchUtxosFromCache sz parse ser outpoints = (\<lambda>(view, s).
     if length outpoints = 0 then Inr (view, s)
     else rbind (fetchEntries sz parse ser outpoints s) (\<lambda>(entries, s).
          Inr (fold (\<lambda>(op, entry). put_entry op entry) (zip outpoints entries) view, s)))"

definition fetchUtxos ::
  "Sizing \<Rightarrow> (bytes \<Rightarrow> 'k option) \<Rightarrow> ('k \<Rightarrow> bytes) \<Rightarrow> OutPoint list \<Rightarrow> UtxoViewpoint \<times> utxoCache \<Rightarrow> (UtxoViewpoint \<times> utxoCache) result" where
  "fetchUtxos sz parse ser outpoints = (\<lambda>(view, s).
     if length outpoints = 0 then Inr (view, s)
     else fetchUtxosFromCache sz parse ser (filter (\<lambda>op. uv_entries view op = None) outpoints) (view, s))"

definition fetchInputUtxos ::
  "Sizing \<Rightarrow> (bytes \<Rightarrow> 'k option) \<Rightarrow> ('k \<Rightarrow> bytes) \<Rightarrow> Block \<Rightarrow> UtxoViewpoint \<times> utxoCache \<Rightarrow> (UtxoViewpoint \<times> utxoCache) result" where
  "fetchInputUtxos sz parse ser block = (\<lambda>(view, s).
     rbind (findInputsToFetch block view) (\<lambda>(view, needed). fetchUtxosFromCache sz parse ser needed (view, s)))"

definition FetchUtxoView ::
  "Sizing \<Rightarrow> (bytes \<Rightarrow> 'k option) \<Rightarrow> ('k \<Rightarrow> bytes) \<Rightarrow> MsgTx \<Rightarrow> utxoCache \<Rightarrow> (UtxoViewpoint \<times> utxoCache) result" where
  "FetchUtxoView sz parse ser tx s =
     (let needed = map (\<lambda>(txOutIdx, _). \<lparr>op_Hash = TxHash tx, op_Index = u32 (int txOutIdx)\<rparr>) (List.enumerate 0 (tx_TxOut tx)) @
            (if IsCoinBaseTx tx then [] else map ti_PreviousOutPoint (tx_TxIn tx))
      in fetchUtxosFromCache sz parse ser needed (NewUtxoViewpoint, s))"

definition FetchUtxoEntry ::
  "Sizing \<Rightarrow> (bytes \<Rightarrow> 'k option) \<Rightarrow> ('k \<Rightarrow> bytes) \<Rightarrow> OutPoint \<Rightarrow> utxoCache \<Rightarrow> (UtxoEntry option \<times> utxoCache) result" where
  "FetchUtxoEntry sz parse ser outpoint s =
     rbind (fetchEntries sz parse ser [outpoint] s) (\<lambda>(entries, s). Inr (entries ! 0, s))"

section \<open>The slice of maps is a map\<close>

text \<open>The interface of a store of entries, and what follows for a series of puts.\<close>

locale entry_store =
  fixes get :: "'m \<Rightarrow> 'k \<Rightarrow> 'v option" and put :: "'k \<Rightarrow> 'v \<Rightarrow> int \<Rightarrow> 'm \<Rightarrow> 'm" and del :: "'k \<Rightarrow> 'm \<Rightarrow> 'm" and ok :: "'m \<Rightarrow> bool"
  assumes ok_put: "ok m \<Longrightarrow> ok (put k v t m)"
    and ok_del: "ok m \<Longrightarrow> ok (del k m)"
    and get_put: "ok m \<Longrightarrow> get (put k v t m) = (get m)(k \<mapsto> v)"
    and get_del: "ok m \<Longrightarrow> get (del k m) = (get m)(k := None)"
begin

lemma put_del: "ok m \<Longrightarrow> get (del k (put k v t m)) = (get m)(k := None)"
  by (simp add: get_del ok_put get_put)

end

definition ms_ok :: "mapSlice \<Rightarrow> bool" where
  "ms_ok ms \<longleftrightarrow> length (ms_maps ms) = length (ms_maxEntries ms) \<and> ms_maps ms \<noteq> [] \<and> distinct (map fst (concat (ms_maps ms)))"

lemma ms_get_map_of: "ms_get ms = map_of (concat (ms_maps ms))"
proof
  fix op
  have "get_loop op maps = map_of (concat maps) op" for maps
    by (induction maps) (auto simp: map_add_def split: option.splits)
  then show "ms_get ms op = map_of (concat (ms_maps ms)) op" by (simp add: ms_get_def)
qed

lemma replace_map:
  assumes "distinct (map fst (concat (A @ m # C)))" and "op \<notin> fst ` set (concat (A @ C))"
  shows "distinct (map fst (concat (A @ AList.update op e m # C)))"
    "map_of (concat (A @ AList.update op e m # C)) = (map_of (concat (A @ m # C)))(op \<mapsto> e)"
proof -
  have k: "fst ` set (AList.update op e m) = insert op (fst ` set m)" using dom_update [of op e m] by (simp add: dom_map_of_conv_image_fst)
  show "distinct (map fst (concat (A @ AList.update op e m # C)))"
    using assms distinct_update [of m op e] k by (auto simp: image_Un)
  have "map_of (concat A) op = None" "map_of (concat C) op = None"
    using assms(2) by (auto simp: map_of_eq_None_iff)
  then show "map_of (concat (A @ AList.update op e m # C)) = (map_of (concat (A @ m # C)))(op \<mapsto> e)"
    by (auto simp: fun_eq_iff update_conv' map_add_def split: option.splits)
qed

lemma put_found_Some:
  "put_found op e maps = Some maps' \<Longrightarrow> \<exists>A m C. maps = A @ m # C \<and> op \<in> fst ` set m \<and> maps' = A @ AList.update op e m # C"
proof (induction maps arbitrary: maps')
  case (Cons m maps)
  show ?case
  proof (cases "map_of m op = None")
    case False
    then have "op \<in> fst ` set m" by (simp add: map_of_eq_None_iff)
    then show ?thesis using Cons.prems False by (metis append_Nil option.inject put_found.simps(2))
  next
    case True
    then obtain maps1 where "put_found op e maps = Some maps1" "maps' = m # maps1" using Cons.prems by auto
    then show ?thesis using Cons.IH by (metis append_Cons)
  qed
qed simp

lemma put_found_None: "put_found op e maps = None \<Longrightarrow> op \<notin> fst ` set (concat maps)"
  by (induction maps) (auto simp: map_of_eq_None_iff image_Un split: if_splits)

lemma put_room_Some:
  "put_room op e ms = Some maps' \<Longrightarrow> \<exists>A m C. map fst ms = A @ m # C \<and> maps' = A @ AList.update op e m # C"
proof (induction ms arbitrary: maps')
  case (Cons mn ms)
  show ?case
  proof (cases "int (length (fst mn)) \<ge> snd mn")
    case False
    then have "map fst (mn # ms) = [] @ fst mn # map fst ms" "maps' = [] @ AList.update op e (fst mn) # map fst ms"
      using Cons.prems by auto
    then show ?thesis by blast
  next
    case True
    then obtain maps1 where m1: "put_room op e ms = Some maps1" "maps' = fst mn # maps1" using Cons.prems by auto
    obtain A m C where "map fst ms = A @ m # C" "maps1 = A @ AList.update op e m # C" using Cons.IH [OF m1(1)] by blast
    then have "map fst (mn # ms) = (fst mn # A) @ m # C" "maps' = (fst mn # A) @ AList.update op e m # C" using m1(2) by simp_all
    then show ?thesis by blast
  qed
qed simp

lemma ms_put_ok:
  assumes "ms_ok ms"
  shows "ms_ok (ms_put sz op e t ms)" "ms_get (ms_put sz op e t ms) = (ms_get ms)(op \<mapsto> e)"
proof -
  have ok: "length (ms_maps ms) = length (ms_maxEntries ms)" "ms_maps ms \<noteq> []" "distinct (map fst (concat (ms_maps ms)))"
    using assms by (simp_all add: ms_ok_def)
  have "ms_ok (ms_put sz op e t ms) \<and> ms_get (ms_put sz op e t ms) = (ms_get ms)(op \<mapsto> e)"
  proof (cases "put_found op e (ms_maps ms)")
    case (Some maps)
    then obtain A m C where r: "ms_maps ms = A @ m # C" "op \<in> fst ` set m" "maps = A @ AList.update op e m # C"
      using put_found_Some by blast
    then have "op \<notin> fst ` set (concat (A @ C))" using ok(3) unfolding r(1) by (simp add: image_Un) blast
    note R = replace_map [OF ok(3) [unfolded r(1)] this, of e]
    show ?thesis using Some ok R r by (simp add: ms_put_def ms_ok_def ms_get_map_of)
  next
    case None
    note nf = put_found_None [OF None]
    show ?thesis
    proof (cases "put_room op e (zip (ms_maps ms) (ms_maxEntries ms))")
      case (Some maps)
      then obtain A m C where r: "ms_maps ms = A @ m # C" "maps = A @ AList.update op e m # C"
        using put_room_Some [OF Some] ok(1) by auto
      have "op \<notin> fst ` set (concat (A @ C))" using nf r(1) by auto
      note R = replace_map [OF ok(3) [unfolded r(1)] this, of e]
      show ?thesis using None Some ok R r by (simp add: ms_put_def ms_ok_def ms_get_map_of)
    next
      case room: None
      have "distinct (map fst (concat (ms_maps ms @ [[]])))" "op \<notin> fst ` set (concat (ms_maps ms @ []))" using ok(3) nf by simp_all
      note R = replace_map [OF this, of e]
      show ?thesis using None room ok R by (simp add: ms_put_def makeNewMap_def Let_def ms_ok_def ms_get_map_of)
    qed
  qed
  then show "ms_ok (ms_put sz op e t ms)" "ms_get (ms_put sz op e t ms) = (ms_get ms)(op \<mapsto> e)" by auto
qed

lemma ms_delete_ok:
  assumes "ms_ok ms"
  shows "ms_ok (ms_delete op ms)" "ms_get (ms_delete op ms) = (ms_get ms)(op := None)"
proof -
  have c: "concat (map (AList.delete op) maps) = AList.delete op (concat maps)" for maps :: "entry_map list"
    by (induction maps) (simp_all add: AList.delete_eq)
  show "ms_get (ms_delete op ms) = (ms_get ms)(op := None)"
    by (simp add: ms_get_map_of ms_delete_def c delete_conv')
  show "ms_ok (ms_delete op ms)" using assms by (simp add: ms_ok_def ms_delete_def c distinct_delete)
qed

interpretation ms: entry_store ms_get "ms_put sz" ms_delete ms_ok for sz
  by unfold_locales (simp_all add: ms_put_ok ms_delete_ok)


section \<open>The coins of a cache\<close>

definition db_coins :: "(bytes \<Rightarrow> 'k option) \<Rightarrow> ('k \<Rightarrow> bytes) \<Rightarrow> bucket \<Rightarrow> OutPoint \<rightharpoonup> SpentTxOut" where
  "db_coins parse ser db op = (case dbFetchUtxoEntry parse ser db op of Inr (Some e) \<Rightarrow> Some (toSpentTxOut e) | _ \<Rightarrow> None)"

definition cache_coins :: "(bytes \<Rightarrow> 'k option) \<Rightarrow> ('k \<Rightarrow> bytes) \<Rightarrow> utxoCache \<Rightarrow> OutPoint \<rightharpoonup> SpentTxOut" where
  "cache_coins parse ser s op =
     (case ms_get (uc_cachedEntries s) op of
        None \<Rightarrow> db_coins parse ser (uc_utxoBucket s) op
      | Some None \<Rightarrow> None
      | Some (Some e) \<Rightarrow> coin e)"

text \<open>
  The state of a cached entry relative to the coin \<open>c\<close> the database has for it: nil entries and fresh ones
  have none, entries that are not modified are what the database has, and a spent entry is not fresh.
\<close>

definition entry_ok :: "SpentTxOut option \<Rightarrow> UtxoEntry option \<Rightarrow> bool" where
  "entry_ok c entry \<longleftrightarrow>
     (case entry of
        None \<Rightarrow> c = None
      | Some e \<Rightarrow> stored_ok (toSpentTxOut e) \<and> (\<not> isModified e \<longrightarrow> \<not> IsSpent e \<and> c = Some (toSpentTxOut e)) \<and>
          (isFresh e \<longrightarrow> c = None \<and> \<not> IsSpent e))"

definition db_ok :: "(bytes \<Rightarrow> 'k option) \<Rightarrow> ('k \<Rightarrow> bytes) \<Rightarrow> bucket \<Rightarrow> bool" where
  "db_ok parse ser db \<longleftrightarrow> ordered db \<and>
     (\<forall>op. outpoint_ok op \<longrightarrow> (\<exists>r. dbFetchUtxoEntry parse ser db op = Inr r \<and>
        (\<forall>e. r = Some e \<longrightarrow> stored_ok (toSpentTxOut e) \<and> \<not> IsSpent e \<and> \<not> isModified e \<and> \<not> isFresh e)))"

definition cache_ok :: "(bytes \<Rightarrow> 'k option) \<Rightarrow> ('k \<Rightarrow> bytes) \<Rightarrow> utxoCache \<Rightarrow> bool" where
  "cache_ok parse ser s \<longleftrightarrow> ms_ok (uc_cachedEntries s) \<and> db_ok parse ser (uc_utxoBucket s) \<and>
     (\<forall>op entry. ms_get (uc_cachedEntries s) op = Some entry \<longrightarrow>
        outpoint_ok op \<and> entry_ok (db_coins parse ser (uc_utxoBucket s) op) entry)"

lemma cache_put_facts:
  assumes "cache_ok parse ser s" and "outpoint_ok op" and "entry_ok (db_coins parse ser (uc_utxoBucket s) op) entry"
  shows "cache_ok parse ser (cache_put sz op entry s)" "uc_utxoBucket (cache_put sz op entry s) = uc_utxoBucket s"
    "cache_coins parse ser (cache_put sz op entry s) = (cache_coins parse ser s)(op := (case entry of None \<Rightarrow> None | Some e \<Rightarrow> coin e))"
  using assms by (auto simp: cache_ok_def cache_put_def cache_coins_def ms.ok_put ms.get_put fun_eq_iff cong: option.case_cong)

lemma fetched_ok:
  assumes "cache_ok parse ser s" and "outpoint_ok op" and "dbFetchUtxoEntry parse ser (uc_utxoBucket s) op = Inr entry"
  shows "entry_ok (db_coins parse ser (uc_utxoBucket s) op) entry"
    "db_coins parse ser (uc_utxoBucket s) op = (case entry of None \<Rightarrow> None | Some e \<Rightarrow> coin e)"
  using assms by (auto simp: cache_ok_def db_ok_def db_coins_def entry_ok_def coin_def split: option.splits)

text \<open>Fetching one outpoint caches what the database has and changes no coin.\<close>

lemma fetch_one:
  assumes "cache_ok parse ser s" and "outpoint_ok op" and "fetchEntries sz parse ser [op] s = Inr (entries, s')"
  obtains entry where "entries = [entry]" "cache_ok parse ser s'" "ms_get (uc_cachedEntries s') op = Some entry"
    "uc_utxoBucket s' = uc_utxoBucket s" "cache_coins parse ser s' = cache_coins parse ser s"
proof (cases "ms_get (uc_cachedEntries s) op")
  case (Some entry)
  then show thesis using assms that [of entry] by (auto simp: fetchEntries_def)
next
  case None
  then obtain entry where e: "dbFetchUtxoEntry parse ser (uc_utxoBucket s) op = Inr entry" "entries = [entry]" "s' = cache_put sz op entry s"
    using assms(3) by (auto simp: fetchEntries_def rbind_eq_Inr Let_def)
  note F = fetched_ok [OF assms(1,2) e(1)]
  note P = cache_put_facts [OF assms(1,2) F(1), of sz]
  have "cache_coins parse ser s op = (case entry of None \<Rightarrow> None | Some e \<Rightarrow> coin e)"
    using None F(2) by (simp add: cache_coins_def)
  then have "cache_coins parse ser s' = cache_coins parse ser s" using P(3) e(3) by (simp add: fun_upd_idem)
  moreover have "ms_get (uc_cachedEntries s') op = Some entry"
    using assms(1) e(3) by (simp add: cache_put_def ms.get_put cache_ok_def)
  ultimately show thesis using that P e by simp
qed


lemma add_in:
  assumes "cache_ok parse ser s" and "outpoint_ok (ti_PreviousOutPoint i)" and "cache_addTxIn sz parse ser i (s, st) = Inr (s', st')"
  shows "cache_ok parse ser s'" "uc_utxoBucket s' = uc_utxoBucket s"
    "cache_coins parse ser s' = (cache_coins parse ser s)(ti_PreviousOutPoint i := None)"
proof -
  let ?op = "ti_PreviousOutPoint i"
  obtain entries s1 where f: "fetchEntries sz parse ser [?op] s = Inr (entries, s1)"
    using assms(3) by (auto simp: cache_addTxIn_def rbind_eq_Inr)
  obtain entry where F: "entries = [entry]" "cache_ok parse ser s1" "ms_get (uc_cachedEntries s1) ?op = Some entry"
      "uc_utxoBucket s1 = uc_utxoBucket s" "cache_coins parse ser s1 = cache_coins parse ser s"
    using fetch_one [OF assms(1,2) f] by metis
  obtain e where e: "entry = Some e" using assms(3) f F(1) by (cases entry) (auto simp: cache_addTxIn_def)
  let ?m = "ms_put sz ?op (Some (Spend e)) (uc_totalEntryMemory s1) (uc_cachedEntries s1)"
  have eo: "entry_ok (db_coins parse ser (uc_utxoBucket s1) ?op) (Some e)" using F(2,3) e by (auto simp: cache_ok_def)
  have fr: "isFresh (Spend e) = isFresh e" "isModified (Spend e)"
    using eo by (auto simp: Spend_def flag_bits bit_or_iff entry_ok_def)
  have mo: "ms_ok (uc_cachedEntries s1)" using F(2) by (simp add: cache_ok_def)
  have "cache_ok parse ser s' \<and> uc_utxoBucket s' = uc_utxoBucket s \<and>
    cache_coins parse ser s' = (cache_coins parse ser s)(?op := None)"
  proof (cases "isFresh e")
    case True
    then have s': "uc_cachedEntries s' = ms_delete ?op ?m" "uc_utxoBucket s' = uc_utxoBucket s1"
      using assms(3) f F(1) e fr(1) by (auto simp: cache_addTxIn_def Let_def)
    have "db_coins parse ser (uc_utxoBucket s1) ?op = None" using eo True by (simp add: entry_ok_def)
    moreover have "ms_get (uc_cachedEntries s') = (ms_get (uc_cachedEntries s1))(?op := None)" "ms_ok (uc_cachedEntries s')"
      using s'(1) mo by (simp_all add: ms.put_del ms.ok_del ms.ok_put)
    ultimately show ?thesis
      using F(2,4,5) s'(2) by (auto simp: cache_ok_def cache_coins_def fun_eq_iff cong: option.case_cong)
  next
    case False
    then have s': "uc_cachedEntries s' = ?m" "uc_utxoBucket s' = uc_utxoBucket s1"
      using assms(3) f F(1) e fr(1) by (auto simp: cache_addTxIn_def Let_def)
    have "entry_ok (db_coins parse ser (uc_utxoBucket s1) ?op) (Some (Spend e))"
      using eo False fr by (simp add: entry_ok_def toSpentTxOut_def stored_ok_def)
    moreover have "ms_get (uc_cachedEntries s') = (ms_get (uc_cachedEntries s1))(?op \<mapsto> Some (Spend e))" "ms_ok (uc_cachedEntries s')"
      using s'(1) mo by (simp_all add: ms.get_put ms.ok_put)
    ultimately show ?thesis
      using F(2,4,5) s'(2) assms(2) by (auto simp: cache_ok_def cache_coins_def fun_eq_iff cong: option.case_cong)
  qed
  then show "cache_ok parse ser s'" "uc_utxoBucket s' = uc_utxoBucket s"
    "cache_coins parse ser s' = (cache_coins parse ser s)(?op := None)" by simp_all
qed


lemma add_ins:
  assumes "cache_ok parse ser s" and "list_all (\<lambda>i. outpoint_ok (ti_PreviousOutPoint i)) ins"
    and "cache_addTxIns_loop sz parse ser ins (s, st) = Inr (s', st')"
  shows "cache_ok parse ser s' \<and> uc_utxoBucket s' = uc_utxoBucket s \<and>
    cache_coins parse ser s' = cache_coins parse ser s |` (- (ti_PreviousOutPoint ` {i \<in> set ins. \<not> IsPoolDrawSentinelInput i}))"
  using assms
proof (induction ins arbitrary: s st)
  case (Cons i ins)
  show ?case
  proof (cases "IsPoolDrawSentinelInput i")
    case True
    moreover have "{j \<in> set (i # ins). \<not> IsPoolDrawSentinelInput j} = {j \<in> set ins. \<not> IsPoolDrawSentinelInput j}" using True by auto
    ultimately show ?thesis using Cons by simp
  next
    case False
    then obtain s1 st1 where 1: "cache_addTxIn sz parse ser i (s, st) = Inr (s1, st1)" "cache_addTxIns_loop sz parse ser ins (s1, st1) = Inr (s', st')"
      using Cons.prems(3) by (auto simp: rbind_eq_Inr)
    have io: "outpoint_ok (ti_PreviousOutPoint i)" "list_all (\<lambda>i. outpoint_ok (ti_PreviousOutPoint i)) ins" using Cons.prems(2) by simp_all
    note A = add_in [OF Cons.prems(1) io(1) 1(1)]
    have sset: "{j \<in> set (i # ins). \<not> IsPoolDrawSentinelInput j} = insert i {j \<in> set ins. \<not> IsPoolDrawSentinelInput j}" using False by auto
    from Cons.IH [OF A(1) io(2) 1(2)] show ?thesis unfolding sset A(2,3)
      by (auto simp: fun_eq_iff restrict_map_def)
  qed
qed (simp add: restrict_map_def)

definition outs_storable :: "(OutPoint \<rightharpoonup> SpentTxOut) \<Rightarrow> int \<Rightarrow> MsgTx \<Rightarrow> bool" where
  "outs_storable db h tx \<longleftrightarrow> list_all (\<lambda>(x, out). db x = None \<and> stored_ok (out_coin tx h out)) (spendable_outs tx)"

lemma add_outs_cache:
  assumes "cache_ok parse ser s" and "outs_storable (db_coins parse ser (uc_utxoBucket s)) h tx"
  shows "cache_ok parse ser (cache_addTxOuts sz tx h s)" "uc_utxoBucket (cache_addTxOuts sz tx h s) = uc_utxoBucket s"
    "cache_coins parse ser (cache_addTxOuts sz tx h s) = add_outs tx h (cache_coins parse ser s)"
proof -
  let ?op = "\<lambda>i. \<lparr>op_Hash = TxHash tx, op_Index = u32 (int i)\<rparr>"
  let ?pairs = "\<lambda>os. map (\<lambda>(i, out). (?op i, out)) (filter (\<lambda>(i, out). \<not> IsUnspendable (to_PkScript out)) os)"
  let ?run = "\<lambda>s os. foldl (\<lambda>s (i, out). cache_addTxOut sz (?op i) out (IsCoinBaseTx tx) h s) s os"
  have opok: "outpoint_ok (?op i)" for i by (simp add: outpoint_ok_def TxHash_def)
  have "cache_ok parse ser (?run s os) \<and> uc_utxoBucket (?run s os) = uc_utxoBucket s \<and>
    cache_coins parse ser (?run s os) = foldl (\<lambda>c (x, out). c(x \<mapsto> out_coin tx h out)) (cache_coins parse ser s) (?pairs os)"
    if "cache_ok parse ser s" "list_all (\<lambda>(x, out). db_coins parse ser (uc_utxoBucket s) x = None \<and> stored_ok (out_coin tx h out)) (?pairs os)" for os s
    using that
  proof (induction os arbitrary: s)
    case (Cons o' os)
    obtain i out where o: "o' = (i, out)" by (cases o')
    show ?case
    proof (cases "IsUnspendable (to_PkScript out)")
      case True
      then show ?thesis using Cons by (simp add: o cache_addTxOut_def)
    next
      case False
      let ?e = "\<lparr>ue_amount = to_Value out, ue_pkScript = to_PkScript out, ue_blockHeight = h,
         ue_packedFlags = (if IsCoinBaseTx tx then or (or tfFresh tfModified) tfCoinBase else or tfFresh tfModified)\<rparr>"
      let ?s = "cache_put sz (?op i) (Some ?e) s"
      have c: "coin ?e = Some (out_coin tx h out)" and st: "toSpentTxOut ?e = out_coin tx h out" and fm: "isFresh ?e" "isModified ?e" "\<not> IsSpent ?e"
        by (simp_all add: coin_def toSpentTxOut_def out_coin_def flag_bits)
      have p: "db_coins parse ser (uc_utxoBucket s) (?op i) = None" "stored_ok (out_coin tx h out)"
        "list_all (\<lambda>(x, out). db_coins parse ser (uc_utxoBucket s) x = None \<and> stored_ok (out_coin tx h out)) (?pairs os)"
        using Cons.prems(2) False by (simp_all add: o)
      have eo: "entry_ok (db_coins parse ser (uc_utxoBucket s) (?op i)) (Some ?e)"
        unfolding entry_ok_def option.case st using p fm by blast
      note P = cache_put_facts [OF Cons.prems(1) opok [of i] eo, of sz]
      have r: "cache_addTxOut sz (?op i) out (IsCoinBaseTx tx) h s = ?s" using False by (simp add: cache_addTxOut_def)
      have "cache_coins parse ser ?s = (cache_coins parse ser s)(?op i \<mapsto> out_coin tx h out)" unfolding P(3) option.case c ..
      then show ?thesis using Cons.IH [OF P(1)] p(3) P(2) r False by (simp add: o)
    qed
  qed simp
  from this [OF assms(1), of "List.enumerate 0 (tx_TxOut tx)"] assms(2)
  show "cache_ok parse ser (cache_addTxOuts sz tx h s)" "uc_utxoBucket (cache_addTxOuts sz tx h s) = uc_utxoBucket s"
    "cache_coins parse ser (cache_addTxOuts sz tx h s) = add_outs tx h (cache_coins parse ser s)"
    by (simp_all add: cache_addTxOuts_def outs_storable_def spendable_outs_def add_outs_def)
qed

lemma connect_tx_cache:
  assumes "cache_ok parse ser s" and "list_all (\<lambda>i. outpoint_ok (ti_PreviousOutPoint i)) (tx_TxIn tx)"
    and "outs_storable (db_coins parse ser (uc_utxoBucket s)) h tx"
    and "cache_connectTransaction sz parse ser tx h (s, st) = Inr (s', st')"
  shows "cache_ok parse ser s' \<and> uc_utxoBucket s' = uc_utxoBucket s \<and> cache_coins parse ser s' = apply_tx h tx (cache_coins parse ser s)"
proof -
  obtain s1 where 1: "cache_addTxIns sz parse ser tx (s, st) = Inr (s1, st')" "s' = cache_addTxOuts sz tx h s1"
    using assms(4) by (auto simp: cache_connectTransaction_def rbind_eq_Inr)
  have s1: "cache_ok parse ser s1 \<and> uc_utxoBucket s1 = uc_utxoBucket s \<and> cache_coins parse ser s1 = cache_coins parse ser s |` (- set (spent_ops tx))"
  proof (cases "IsCoinBaseTx tx \<or> IsVDFResultTx tx")
    case True
    then show ?thesis using 1(1) assms(1) by (auto simp: cache_addTxIns_def spent_ops_def restrict_map_def split: if_splits)
  next
    case False
    have "set (spent_ops tx) = ti_PreviousOutPoint ` {i \<in> set (tx_TxIn tx). \<not> IsPoolDrawSentinelInput i}"
      using False by (auto simp: spent_ops_def)
    then show ?thesis using add_ins [OF assms(1,2)] 1(1) False by (auto simp: cache_addTxIns_def)
  qed
  then have "cache_ok parse ser s1" "outs_storable (db_coins parse ser (uc_utxoBucket s1)) h tx" using assms(3) by simp_all
  from add_outs_cache [OF this, of sz] s1 1(2) show ?thesis by (simp add: apply_tx_def)
qed

definition txs_storable :: "(OutPoint \<rightharpoonup> SpentTxOut) \<Rightarrow> int \<Rightarrow> MsgTx list \<Rightarrow> bool" where
  "txs_storable db h txs \<longleftrightarrow> list_all (\<lambda>tx. list_all (\<lambda>i. outpoint_ok (ti_PreviousOutPoint i)) (tx_TxIn tx) \<and> outs_storable db h tx) txs"

lemma connect_txs_cache:
  "cache_ok parse ser s \<Longrightarrow> txs_storable (db_coins parse ser (uc_utxoBucket s)) h txs \<Longrightarrow>
   cache_connect_txs sz parse ser txs h (s, st) = Inr (s', st') \<Longrightarrow>
   cache_ok parse ser s' \<and> uc_utxoBucket s' = uc_utxoBucket s \<and> cache_coins parse ser s' = fold (apply_tx h) txs (cache_coins parse ser s)"
proof (induction txs arbitrary: s st)
  case (Cons tx txs)
  then obtain s1 st1 where 1: "cache_connectTransaction sz parse ser tx h (s, st) = Inr (s1, st1)" "cache_connect_txs sz parse ser txs h (s1, st1) = Inr (s', st')"
    by (auto simp: rbind_eq_Inr)
  have "cache_ok parse ser s1 \<and> uc_utxoBucket s1 = uc_utxoBucket s \<and> cache_coins parse ser s1 = apply_tx h tx (cache_coins parse ser s)"
    using connect_tx_cache [OF Cons.prems(1) _ _ 1(1)] Cons.prems(2) by (simp add: txs_storable_def)
  then show ?case using Cons.IH [of s1 st1] 1(2) Cons.prems(2) by (simp add: txs_storable_def)
qed simp

section \<open>Writing the cache back\<close>

lemma fetch_delete:
  assumes "outpoint_ok op" "outpoint_ok x"
  shows "dbFetchUtxoEntry parse ser (dbDeleteUtxoEntry db op) x = (if x = op then Inr None else dbFetchUtxoEntry parse ser db x)"
proof -
  have "outpointKey x = outpointKey op \<longleftrightarrow> x = op" using outpointKey_inj [OF assms(2,1)] by auto
  then show ?thesis by (simp add: dbFetchUtxoEntry_def dbDeleteUtxoEntry_def map_of_bdel)
qed

lemma bdel_ordered: "ordered m \<Longrightarrow> ordered (bdel k m)"
  by (rule db.wf_del)

lemma stored_flags:
  "toSpentTxOut (e\<lparr>ue_packedFlags := (if IsCoinBase e then tfCoinBase else 0)\<rparr>) = toSpentTxOut e"
  "\<not> IsSpent (e\<lparr>ue_packedFlags := (if IsCoinBase e then tfCoinBase else 0)\<rparr>)"
  "\<not> isModified (e\<lparr>ue_packedFlags := (if IsCoinBase e then tfCoinBase else 0)\<rparr>)"
  "\<not> isFresh (e\<lparr>ue_packedFlags := (if IsCoinBase e then tfCoinBase else 0)\<rparr>)"
  by (simp_all add: toSpentTxOut_def flag_bits)

lemma write_entry_coins:
  assumes "pubkeys_ok parse ser" and "db_ok parse ser db" and "outpoint_ok op" and "entry_ok (db_coins parse ser db op) entry"
  shows "\<exists>db'. write_entry parse (op, entry) db = Inr db' \<and> db_ok parse ser db' \<and>
    (\<forall>x. outpoint_ok x \<longrightarrow> db_coins parse ser db' x = (if x = op then (case entry of None \<Rightarrow> None | Some e \<Rightarrow> coin e) else db_coins parse ser db x))"
proof -
  have ord: "ordered db" using assms(2) by (simp add: db_ok_def)
  consider (d) "write_entry parse (op, entry) db = Inr (dbDeleteUtxoEntry db op)" "(case entry of None \<Rightarrow> None | Some e \<Rightarrow> coin e) = None"
    | (u) e where "entry = Some e" "\<not> IsSpent e" "\<not> isModified e"
    | (p) e where "entry = Some e" "\<not> IsSpent e" "isModified e"
    by (cases entry; cases "IsSpent (the entry)"; cases "isModified (the entry)") (simp_all add: write_entry_def coin_def)
  then show ?thesis
  proof cases
    case d
    have "db_ok parse ser (dbDeleteUtxoEntry db op)"
      using assms(2,3) by (auto simp: db_ok_def fetch_delete) (simp add: dbDeleteUtxoEntry_def bdel_ordered)
    then show ?thesis using d assms(3) by (auto simp: db_coins_def fetch_delete)
  next
    case u
    then have "db_coins parse ser db op = coin e" using assms(4) by (simp add: entry_ok_def coin_def)
    then show ?thesis using u assms(2) by (auto simp: write_entry_def)
  next
    case p
    have st: "stored_ok (toSpentTxOut e)" using assms(4) p(1) by (simp add: entry_ok_def)
    obtain db' where w: "dbPutUtxoEntry parse db op (Some e) = Inr db'" "ordered db'"
      using utxo_entry_roundtrip [OF assms(1) p(2) st] p(2) bput_ordered [OF ord] by (auto simp: dbPutUtxoEntry_def)
    let ?e = "e\<lparr>ue_packedFlags := (if IsCoinBase e then tfCoinBase else 0)\<rparr>"
    have f: "dbFetchUtxoEntry parse ser db' x = (if x = op then Inr (Some ?e) else dbFetchUtxoEntry parse ser db x)" if "outpoint_ok x" for x
      using put_fetch [OF assms(1) ord p(2) st assms(3) that] w(1) by simp
    have "db_ok parse ser db'"
      using assms(2) f w(2) st stored_flags [of e] by (auto simp: db_ok_def)
    moreover have "coin e = Some (toSpentTxOut e)" using p(2) by (simp add: coin_def)
    moreover have "db_coins parse ser db' x = (if x = op then Some (toSpentTxOut e) else db_coins parse ser db x)" if "outpoint_ok x" for x
      using f [OF that] stored_flags(1) [of e] by (simp add: db_coins_def)
    ultimately show ?thesis using w(1) p by (auto simp: write_entry_def)
  qed
qed


lemma write_entries_coins:
  assumes "pubkeys_ok parse ser"
  shows "db_ok parse ser db \<Longrightarrow> distinct (map fst L) \<Longrightarrow>
    (\<And>op entry. (op, entry) \<in> set L \<Longrightarrow> outpoint_ok op \<and> entry_ok (db_coins parse ser db op) entry) \<Longrightarrow>
    \<exists>db'. write_entries parse L db = Inr db' \<and> db_ok parse ser db' \<and>
      (\<forall>x. outpoint_ok x \<longrightarrow> db_coins parse ser db' x =
        (case map_of L x of None \<Rightarrow> db_coins parse ser db x | Some None \<Rightarrow> None | Some (Some e) \<Rightarrow> coin e))"
proof (induction L arbitrary: db)
  case (Cons oe L)
  obtain op entry where oe: "oe = (op, entry)" by (cases oe)
  have o: "outpoint_ok op" "entry_ok (db_coins parse ser db op) entry" using Cons.prems(3) [of op entry] oe by simp_all
  obtain db1 where d1: "write_entry parse (op, entry) db = Inr db1" "db_ok parse ser db1"
      "\<And>x. outpoint_ok x \<Longrightarrow> db_coins parse ser db1 x = (if x = op then (case entry of None \<Rightarrow> None | Some e \<Rightarrow> coin e) else db_coins parse ser db x)"
    using write_entry_coins [OF assms Cons.prems(1) o] by blast
  have n: "map_of L op = None" using Cons.prems(2) oe by (simp add: map_of_eq_None_iff)
  have "\<exists>db'. write_entries parse L db1 = Inr db' \<and> db_ok parse ser db' \<and>
      (\<forall>x. outpoint_ok x \<longrightarrow> db_coins parse ser db' x =
        (case map_of L x of None \<Rightarrow> db_coins parse ser db1 x | Some None \<Rightarrow> None | Some (Some e) \<Rightarrow> coin e))"
  proof (rule Cons.IH [OF d1(2)])
    show "distinct (map fst L)" using Cons.prems(2) by simp
    fix op' entry'
    assume i: "(op', entry') \<in> set L"
    then have "op' \<noteq> op" using Cons.prems(2) oe by (auto simp: image_iff)
    moreover have "outpoint_ok op' \<and> entry_ok (db_coins parse ser db op') entry'" using Cons.prems(3) [of op' entry'] i by simp
    ultimately show "outpoint_ok op' \<and> entry_ok (db_coins parse ser db1 op') entry'" using d1(3) by simp
  qed
  then obtain db' where db': "write_entries parse L db1 = Inr db'" "db_ok parse ser db'"
      "\<And>x. outpoint_ok x \<Longrightarrow> db_coins parse ser db' x = (case map_of L x of None \<Rightarrow> db_coins parse ser db1 x | Some None \<Rightarrow> None | Some (Some e) \<Rightarrow> coin e)"
    by blast
  have "db_coins parse ser db' x = (case map_of (oe # L) x of None \<Rightarrow> db_coins parse ser db x | Some None \<Rightarrow> None | Some (Some e) \<Rightarrow> coin e)"
    if "outpoint_ok x" for x
    using db'(3) [OF that] d1(3) [OF that] n oe by (cases "x = op") (auto split: option.splits)
  then show ?case using db'(1,2) d1(1) oe by auto
qed simp

lemma writeCache_coins:
  assumes "pubkeys_ok parse ser" and "cache_ok parse ser s"
  shows "\<exists>s'. writeCache parse h now s = Inr s' \<and> cache_ok parse ser s' \<and> ms_get (uc_cachedEntries s') = Map.empty \<and>
    (\<forall>x. outpoint_ok x \<longrightarrow> cache_coins parse ser s' x = cache_coins parse ser s x)"
proof -
  let ?L = "concat (ms_maps (uc_cachedEntries s))"
  have ok: "db_ok parse ser (uc_utxoBucket s)" "distinct (map fst ?L)" "ms_ok (uc_cachedEntries s)"
    using assms(2) by (simp_all add: cache_ok_def ms_ok_def)
  have "outpoint_ok op \<and> entry_ok (db_coins parse ser (uc_utxoBucket s) op) entry" if "(op, entry) \<in> set ?L" for op entry
  proof -
    have "ms_get (uc_cachedEntries s) op = Some entry" using that ok(2) by (simp add: ms_get_map_of)
    then show ?thesis using assms(2) by (simp add: cache_ok_def)
  qed
  then obtain db' where db': "write_entries parse ?L (uc_utxoBucket s) = Inr db'" "db_ok parse ser db'"
      "\<And>x. outpoint_ok x \<Longrightarrow> db_coins parse ser db' x = (case map_of ?L x of None \<Rightarrow> db_coins parse ser (uc_utxoBucket s) x | Some None \<Rightarrow> None | Some (Some e) \<Rightarrow> coin e)"
    using write_entries_coins [OF assms(1) ok(1,2)] by blast
  let ?m = "deleteMaps ((uc_cachedEntries s)\<lparr>ms_maps := map (\<lambda>_. []) (ms_maps (uc_cachedEntries s))\<rparr>)"
  obtain m0 ms0 n0 ns0 where "ms_maps (uc_cachedEntries s) = m0 # ms0" "ms_maxEntries (uc_cachedEntries s) = n0 # ns0"
    using ok(3) by (cases "ms_maps (uc_cachedEntries s)"; cases "ms_maxEntries (uc_cachedEntries s)") (auto simp: ms_ok_def)
  then have m: "ms_get ?m = Map.empty" "ms_ok ?m" by (simp_all add: ms_get_map_of ms_ok_def deleteMaps_def)
  obtain s' where s': "writeCache parse h now s = Inr s'" "uc_cachedEntries s' = ?m" "uc_utxoBucket s' = db'"
    using db'(1) by (simp add: writeCache_def)
  have "cache_coins parse ser s' x = cache_coins parse ser s x" if "outpoint_ok x" for x
    using db'(3) [OF that] by (simp add: cache_coins_def s'(2,3) m(1)) (simp add: ms_get_map_of)
  moreover have "cache_ok parse ser s'" using db'(2) m by (simp add: cache_ok_def s'(2,3))
  ultimately show ?thesis using s'(1,2) m(1) by metis
qed


section \<open>A sample cache\<close>

definition sample_sizing :: Sizing where
  "sample_sizing = \<lparr>sz_rough = (\<lambda>n. 48 * n), sz_minEntries = (\<lambda>n. n div 400), sz_cap = (\<lambda>b. int (length b))\<rparr>"

definition sample_cache :: utxoCache where
  "sample_cache = cache_put sample_sizing sample_coin_op (Some (sample_coin\<lparr>ue_packedFlags := tfModified\<rparr>)) (newUtxoCache sample_sizing [] 1000000)"

lemma empty_cache_ok: "cache_ok parse ser (newUtxoCache sz [] n)"
  by (auto simp: cache_ok_def newUtxoCache_def ms_ok_def db_ok_def ordered_def dbFetchUtxoEntry_def ms_get_map_of)

lemma sample_cache_ok: "cache_ok sample_parse id sample_cache" "uc_utxoBucket sample_cache = []"
  "cache_coins sample_parse id sample_cache sample_coin_op = Some (toSpentTxOut sample_coin)"
proof -
  let ?e = "sample_coin\<lparr>ue_packedFlags := tfModified\<rparr>" and ?s = "newUtxoCache sample_sizing [] 1000000"
  have "db_coins sample_parse id (uc_utxoBucket ?s) sample_coin_op = None" by (simp add: db_coins_def newUtxoCache_def dbFetchUtxoEntry_def)
  then have eo: "entry_ok (db_coins sample_parse id (uc_utxoBucket ?s) sample_coin_op) (Some ?e)"
    by (simp add: entry_ok_def flag_bits stored_ok_def toSpentTxOut_def sample_coin_def)
  have op: "outpoint_ok sample_coin_op" by (simp add: outpoint_ok_def sample_coin_op_def)
  have c: "coin ?e = Some (toSpentTxOut sample_coin)" by (simp add: coin_def flag_bits toSpentTxOut_def sample_coin_def)
  note P = cache_put_facts [OF empty_cache_ok op eo, of sample_sizing, folded sample_cache_def]
  show "cache_ok sample_parse id sample_cache" by (rule P(1))
  show "uc_utxoBucket sample_cache = []" using P(2) by (simp add: newUtxoCache_def)
  show "cache_coins sample_parse id sample_cache sample_coin_op = Some (toSpentTxOut sample_coin)" using P(3) c by simp
qed


lemma sample_cache_connects:
  "\<exists>s' st'. cache_connectTransactions sample_sizing sample_parse id sample_utxo_block (sample_cache, Some []) = Inr (s', st')"
proof -
  let ?s = "cache_addTxOuts sample_sizing sample_coinbase 8 sample_cache"
  have o: "tx_TxOut sample_coinbase = [\<lparr>to_Value = 5, to_PkScript = [OP_1]\<rparr>]" by (simp add: sample_coinbase_def)
  have mo: "ms_ok (uc_cachedEntries sample_cache)" using sample_cache_ok(1) by (simp add: cache_ok_def)
  have "ms_get (uc_cachedEntries sample_cache) sample_coin_op = Some (Some (sample_coin\<lparr>ue_packedFlags := tfModified\<rparr>))"
    using empty_cache_ok [of sample_parse id sample_sizing 1000000] by (simp add: sample_cache_def cache_put_def ms.get_put cache_ok_def)
  moreover have "sample_coin_op \<noteq> \<lparr>op_Hash = TxHash sample_coinbase, op_Index = 0\<rparr>" by (simp add: sample_coin_op_def)
  ultimately have g: "ms_get (uc_cachedEntries ?s) sample_coin_op = Some (Some (sample_coin\<lparr>ue_packedFlags := tfModified\<rparr>))"
    using mo by (simp add: cache_addTxOuts_def o cache_addTxOut_def spendable_OP_1 u32_def cache_put_def ms.get_put)
  have i: "tx_TxIn sample_spend = [\<lparr>ti_PreviousOutPoint = sample_coin_op, ti_SignatureScript = [], ti_Witness = [], ti_Sequence = 0\<rparr>]"
    by (simp add: sample_spend_def)
  show ?thesis
    using g by (simp add: cache_connectTransactions_def sample_utxo_block_def cache_connectTransaction_def cache_addTxIns_def
        sample_kinds i sample_inputs(3) cache_addTxIn_def fetchEntries_def Let_def)
qed

lemma sample_storable: "txs_storable (db_coins sample_parse id []) 8 [sample_coinbase, sample_spend]"
proof -
  have d: "db_coins sample_parse id [] = Map.empty" by (simp add: db_coins_def fun_eq_iff dbFetchUtxoEntry_def)
  have "list_all (\<lambda>i. outpoint_ok (ti_PreviousOutPoint i)) (tx_TxIn sample_coinbase)" "list_all (\<lambda>i. outpoint_ok (ti_PreviousOutPoint i)) (tx_TxIn sample_spend)"
    by (simp_all add: sample_coinbase_def sample_spend_def outpoint_ok_def sample_coin_op_def)
  then show ?thesis by (simp add: d txs_storable_def outs_storable_def sample_kinds stored_ok_def out_coin_def)
qed

section \<open>Property\<close>

text \<open>
  C28. Connecting a block to the cache and flushing it. For blocks whose outputs the database does not have
  yet, the cache over the stored bytes keeps its invariant and changes the coins as the contract of the views
  says; a required flush succeeds, keeps the invariant, and leaves a database that alone holds these coins.
\<close>

theorem cache_connect_flush:
  assumes "pubkeys_ok parsePubKey serializeUncompressed" and "cache_ok parsePubKey serializeUncompressed s"
    and "txs_storable (db_coins parsePubKey serializeUncompressed (uc_utxoBucket s)) (blk_height block) (mb_Transactions (blk_msg block))"
    and "cache_connectTransactions sz parsePubKey serializeUncompressed block (s, stxos) = Inr (s', stxos')"
    and "outpoint_ok x"
  shows "\<exists>s''. flush sz parsePubKey FlushRequired bestHash now s' = Inr s'' \<and> cache_ok parsePubKey serializeUncompressed s'' \<and>
    cache_coins parsePubKey serializeUncompressed s' =
      fold (apply_tx (blk_height block)) (mb_Transactions (blk_msg block)) (cache_coins parsePubKey serializeUncompressed s) \<and>
    db_coins parsePubKey serializeUncompressed (uc_utxoBucket s'') x = cache_coins parsePubKey serializeUncompressed s' x"
proof -
  have c: "cache_ok parsePubKey serializeUncompressed s'" "cache_coins parsePubKey serializeUncompressed s' =
      fold (apply_tx (blk_height block)) (mb_Transactions (blk_msg block)) (cache_coins parsePubKey serializeUncompressed s)"
    using connect_txs_cache [OF assms(2,3)] assms(4) by (auto simp: cache_connectTransactions_def)
  obtain s'' where w: "writeCache parsePubKey bestHash now s' = Inr s''" "cache_ok parsePubKey serializeUncompressed s''" "ms_get (uc_cachedEntries s'') = Map.empty"
      "cache_coins parsePubKey serializeUncompressed s'' x = cache_coins parsePubKey serializeUncompressed s' x"
    using writeCache_coins [OF assms(1) c(1)] assms(5) by blast
  have "flush sz parsePubKey FlushRequired bestHash now s' = Inr s''" using w(1) by (simp add: flush_def totalMemoryUsage_def)
  moreover have "db_coins parsePubKey serializeUncompressed (uc_utxoBucket s'') x = cache_coins parsePubKey serializeUncompressed s'' x"
    by (simp add: cache_coins_def w(3))
  ultimately show ?thesis using w(2,4) c(2) by auto
qed

theorem cache_connect_flush_witness:
  "\<exists>s' stxos' s''. cache_connectTransactions sample_sizing sample_parse id sample_utxo_block (sample_cache, Some []) = Inr (s', stxos') \<and>
     flush sample_sizing sample_parse FlushRequired (replicate 32 9) 0 s' = Inr s'' \<and>
     db_coins sample_parse id (uc_utxoBucket s'') sample_coin_op = None"
proof -
  obtain s' st' where c: "cache_connectTransactions sample_sizing sample_parse id sample_utxo_block (sample_cache, Some []) = Inr (s', st')"
    using sample_cache_connects by blast
  have t: "mb_Transactions (blk_msg sample_utxo_block) = [sample_coinbase, sample_spend]" "blk_height sample_utxo_block = 8"
    by (simp_all add: sample_utxo_block_def)
  have op: "outpoint_ok sample_coin_op" by (simp add: outpoint_ok_def sample_coin_op_def)
  have "fold (apply_tx 8) [sample_coinbase, sample_spend] (cache_coins sample_parse id sample_cache) sample_coin_op = None"
    by (simp add: apply_tx_def sample_kinds add_outs_def restrict_map_def sample_coin_op_def)
  then show ?thesis
    using cache_connect_flush [OF sample_pubkeys sample_cache_ok(1) _ c op, of "replicate 32 9" 0] c sample_storable
    unfolding t sample_cache_ok(2) by metis
qed

end
