(* ===== verification/TxRules.thy ===== *)
theory TxRules
  imports Difficulty UtxoCache Settlement
begin

text \<open>
  Rules for single transactions: \<^verbatim>\<open>blockchain/validate.go\<close> (sanity, signature operation
  counts, inputs, locks, the block subsidy and the height in a coinbase), \<^verbatim>\<open>blockchain/weight.go\<close>
  and \<^verbatim>\<open>ValidatePoolStakeTx\<close> of \<^verbatim>\<open>blockchain/poolstake.go\<close>. Go's \<^verbatim>\<open>int\<close> and
  \<^verbatim>\<open>int64\<close> accumulators wrap.

  The lemmas show that the checks on an ordinary transaction make its outputs and its fee add up to
  exactly the coins that it names, that the subsidy falls from 1000 to 1 coins, and that a coinbase
  states its height in one way only.
\<close>

unbundle bit_operations_syntax

section \<open>Limits\<close>

definition MaxBlockWeight :: int where "MaxBlockWeight = 20000000"
definition MaxVDFBlockWeight :: int where "MaxVDFBlockWeight = 256000000"
definition MaxBlockBaseSize :: int where "MaxBlockBaseSize = 5000000"
definition MaxBlockSigOpsCost :: int where "MaxBlockSigOpsCost = 400000"
definition WitnessScaleFactor :: int where "WitnessScaleFactor = 4"
definition MaxSatoshi :: int where "MaxSatoshi = 21000000 * SatoshiPerBitcoin"
definition MinCoinbaseScriptLen :: int where "MinCoinbaseScriptLen = 2"
definition MaxCoinbaseScriptLen :: int where "MaxCoinbaseScriptLen = 100"
definition baseSubsidy :: int where "baseSubsidy = 1000 * SatoshiPerBitcoin"
definition LockTimeThreshold :: int where "LockTimeThreshold = 500000000"

section \<open>Weight\<close>

definition GetBlockWeight :: "MsgBlock \<Rightarrow> int" where
  "GetBlockWeight msgBlock =
     (let baseSize = MsgBlock_SerializeSizeStripped msgBlock; totalSize = MsgBlock_SerializeSize msgBlock in
      baseSize * (WitnessScaleFactor - 1) + totalSize)"

definition GetTransactionWeight :: "MsgTx \<Rightarrow> int" where
  "GetTransactionWeight msgTx =
     (let baseSize = SerializeSizeStripped msgTx; totalSize = SerializeSize msgTx in
      baseSize * (WitnessScaleFactor - 1) + totalSize)"

section \<open>Locks\<close>

record SequenceLock =
  sl_Seconds :: int
  sl_BlockHeight :: int

definition SequenceLockActive :: "SequenceLock \<Rightarrow> int \<Rightarrow> int \<Rightarrow> bool" where
  "SequenceLockActive sequenceLock blockHeight medianTimePast \<longleftrightarrow>
     \<not> (sl_Seconds sequenceLock \<ge> medianTimePast \<or> sl_BlockHeight sequenceLock \<ge> blockHeight)"

definition IsFinalizedTransaction :: "MsgTx \<Rightarrow> int \<Rightarrow> int \<Rightarrow> bool" where
  "IsFinalizedTransaction msgTx blockHeight blockTime =
     (let lockTime = tx_LockTime msgTx in
      if lockTime = 0 then True
      else
        let blockTimeOrHeight = (if lockTime < LockTimeThreshold then blockHeight else blockTime) in
        if lockTime < blockTimeOrHeight then True
        else list_all (\<lambda>txIn. ti_Sequence txIn = 2 ^ 32 - 1) (tx_TxIn msgTx))"

definition LockTimeToSequence :: "bool \<Rightarrow> int \<Rightarrow> int" where
  "LockTimeToSequence isSeconds locktime =
     (if \<not> isSeconds then locktime else 2 ^ 22 OR drop_bit 9 locktime)"

section \<open>Subsidy\<close>

definition CalcBlockSubsidy :: "int \<Rightarrow> Params \<Rightarrow> int" where
  "CalcBlockSubsidy height chainParams =
     (if SubsidyReductionInterval chainParams = 0 then baseSubsidy
      else
        let halvings = u64 (height sdiv SubsidyReductionInterval chainParams);
            fdrw = (1000 :: int) div 2 ^ nat halvings;
            fdrw = (if fdrw < 1 then 1 else fdrw) in
        fdrw * SatoshiPerBitcoin)"

section \<open>Sanity\<close>

primrec sanity_outs :: "int \<Rightarrow> TxOut list \<Rightarrow> unit result" where
  "sanity_outs totalSatoshi [] = Inr ()"
| "sanity_outs totalSatoshi (txOut # txOuts) =
     (let satoshi = to_Value txOut in
      if satoshi < 0 then Inl (RuleError ErrBadTxOutValue)
      else if satoshi > MaxSatoshi then Inl (RuleError ErrBadTxOutValue)
      else
        let totalSatoshi = i64 (totalSatoshi + satoshi) in
        if totalSatoshi < 0 then Inl (RuleError ErrBadTxOutValue)
        else if totalSatoshi > MaxSatoshi then Inl (RuleError ErrBadTxOutValue)
        else sanity_outs totalSatoshi txOuts)"

primrec sanity_duplicates :: "OutPoint list \<Rightarrow> TxIn list \<Rightarrow> unit result" where
  "sanity_duplicates existingTxOut [] = Inr ()"
| "sanity_duplicates existingTxOut (txIn # txIns) =
     (if ti_PreviousOutPoint txIn \<in> set existingTxOut then Inl (RuleError ErrDuplicateTxInputs)
      else sanity_duplicates (ti_PreviousOutPoint txIn # existingTxOut) txIns)"

definition CheckTransactionSanity :: "MsgTx \<Rightarrow> unit result" where
  "CheckTransactionSanity msgTx =
     (if length (tx_TxIn msgTx) = 0 then Inl (RuleError ErrNoTxInputs)
      else if length (tx_TxOut msgTx) = 0 then Inl (RuleError ErrNoTxOutputs)
      else if SerializeSizeStripped msgTx > MaxBlockBaseSize then Inl (RuleError ErrTxTooBig)
      else
        rbind (sanity_outs 0 (tx_TxOut msgTx)) (\<lambda>_.
        rbind (sanity_duplicates [] (tx_TxIn msgTx)) (\<lambda>_.
        if IsCoinBaseTx msgTx then
          (let slen = int (length (ti_SignatureScript (tx_TxIn msgTx ! 0))) in
           if slen < MinCoinbaseScriptLen \<or> slen > MaxCoinbaseScriptLen
           then Inl (RuleError ErrBadCoinbaseScriptLen) else Inr ())
        else if list_ex (\<lambda>txIn. isNullOutpoint (ti_PreviousOutPoint txIn)) (tx_TxIn msgTx)
        then Inl (RuleError ErrBadTxInput) else Inr ())))"

section \<open>Signature operations\<close>

definition CountSigOps :: "MsgTx \<Rightarrow> int" where
  "CountSigOps msgTx =
     (let totalSigOps = foldl (\<lambda>n txIn. i64 (n + GetSigOpCount (ti_SignatureScript txIn))) 0 (tx_TxIn msgTx) in
      foldl (\<lambda>n txOut. i64 (n + GetSigOpCount (to_PkScript txOut))) totalSigOps (tx_TxOut msgTx))"

primrec p2sh_loop :: "UtxoViewpoint \<Rightarrow> int \<Rightarrow> TxIn list \<Rightarrow> int result" where
  "p2sh_loop utxoView totalSigOps [] = Inr totalSigOps"
| "p2sh_loop utxoView totalSigOps (txIn # txIns) =
     (case LookupEntry utxoView (ti_PreviousOutPoint txIn) of
        None \<Rightarrow> Inl (RuleError ErrMissingTxOut)
      | Some utxo \<Rightarrow>
          if IsSpent utxo then Inl (RuleError ErrMissingTxOut)
          else
            let pkScript = ue_pkScript utxo in
            if \<not> isScriptHashScript pkScript then p2sh_loop utxoView totalSigOps txIns
            else
              let numSigOps = GetPreciseSigOpCount (ti_SignatureScript txIn) pkScript;
                  lastSigOps = totalSigOps;
                  totalSigOps = i64 (totalSigOps + numSigOps) in
              if totalSigOps < lastSigOps then Inl (RuleError ErrTooManySigOps)
              else p2sh_loop utxoView totalSigOps txIns)"

definition CountP2SHSigOps :: "MsgTx \<Rightarrow> bool \<Rightarrow> UtxoViewpoint \<Rightarrow> int result" where
  "CountP2SHSigOps msgTx isCoinBaseTx utxoView =
     (if isCoinBaseTx then Inr 0 else p2sh_loop utxoView 0 (tx_TxIn msgTx))"

primrec witness_loop :: "UtxoViewpoint \<Rightarrow> int \<Rightarrow> TxIn list \<Rightarrow> int result" where
  "witness_loop utxoView numSigOps [] = Inr numSigOps"
| "witness_loop utxoView numSigOps (txIn # txIns) =
     (case LookupEntry utxoView (ti_PreviousOutPoint txIn) of
        None \<Rightarrow> Inl (RuleError ErrMissingTxOut)
      | Some utxo \<Rightarrow>
          if IsSpent utxo then Inl (RuleError ErrMissingTxOut)
          else witness_loop utxoView
            (i64 (numSigOps + GetWitnessSigOpCount (ti_SignatureScript txIn) (ue_pkScript utxo) (ti_Witness txIn))) txIns)"

definition GetSigOpCost :: "MsgTx \<Rightarrow> bool \<Rightarrow> UtxoViewpoint \<Rightarrow> bool \<Rightarrow> bool \<Rightarrow> int result" where
  "GetSigOpCost msgTx isCoinBaseTx utxoView bip16 segWit =
     (let numSigOps = i64 (CountSigOps msgTx * WitnessScaleFactor);
          rest = (\<lambda>numSigOps. if segWit \<and> \<not> isCoinBaseTx then witness_loop utxoView numSigOps (tx_TxIn msgTx)
                              else Inr numSigOps) in
      if bip16 then
        (case CountP2SHSigOps msgTx isCoinBaseTx utxoView of
           Inl _ \<Rightarrow> Inr 0
         | Inr numP2SHSigOps \<Rightarrow> rest (i64 (numSigOps + i64 (numP2SHSigOps * WitnessScaleFactor))))
      else rest numSigOps)"

section \<open>Inputs\<close>

primrec inputs_loop :: "int \<Rightarrow> UtxoViewpoint \<Rightarrow> Params \<Rightarrow> int \<Rightarrow> TxIn list \<Rightarrow> int result" where
  "inputs_loop txHeight utxoView chainParams totalSatoshiIn [] = Inr totalSatoshiIn"
| "inputs_loop txHeight utxoView chainParams totalSatoshiIn (txIn # txIns) =
     (case LookupEntry utxoView (ti_PreviousOutPoint txIn) of
        None \<Rightarrow> Inl (RuleError ErrMissingTxOut)
      | Some utxo \<Rightarrow>
          if IsSpent utxo then Inl (RuleError ErrMissingTxOut)
          else if IsCoinBase utxo \<and> i32 (txHeight - ue_blockHeight utxo) < CoinbaseMaturity chainParams
          then Inl (RuleError ErrImmatureSpend)
          else
            let originTxSatoshi = ue_amount utxo in
            if originTxSatoshi < 0 then Inl (RuleError ErrBadTxOutValue)
            else if originTxSatoshi > MaxSatoshi then Inl (RuleError ErrBadTxOutValue)
            else
              let lastSatoshiIn = totalSatoshiIn;
                  totalSatoshiIn = i64 (totalSatoshiIn + originTxSatoshi) in
              if totalSatoshiIn < lastSatoshiIn \<or> totalSatoshiIn > MaxSatoshi
              then Inl (RuleError ErrBadTxOutValue)
              else inputs_loop txHeight utxoView chainParams totalSatoshiIn txIns)"

definition totalOut :: "TxOut list \<Rightarrow> int" where
  "totalOut txOuts = foldl (\<lambda>n txOut. i64 (n + to_Value txOut)) 0 txOuts"

definition CheckTransactionInputs :: "MsgTx \<Rightarrow> int \<Rightarrow> UtxoViewpoint \<Rightarrow> Params \<Rightarrow> int result" where
  "CheckTransactionInputs tx txHeight utxoView chainParams =
     (if IsCoinBaseTx tx then Inr 0
      else if IsDrawSettlementTx tx \<or> IsVDFResultTx tx then Inr 0
      else
        rbind (inputs_loop txHeight utxoView chainParams 0 (tx_TxIn tx)) (\<lambda>totalSatoshiIn.
        let totalSatoshiOut = totalOut (tx_TxOut tx) in
        if totalSatoshiIn < totalSatoshiOut then Inl (RuleError ErrSpendTooHigh)
        else Inr (i64 (totalSatoshiIn - totalSatoshiOut))))"

section \<open>The height in a coinbase\<close>

definition serializedHeightVersion :: int where "serializedHeightVersion = 2"

definition ShouldHaveSerializedBlockHeight :: "BlockHeader \<Rightarrow> bool" where
  "ShouldHaveSerializedBlockHeight header \<longleftrightarrow> bh_Version header \<ge> serializedHeightVersion"

definition compareScript :: "int \<Rightarrow> bytes \<Rightarrow> unit result" where
  "compareScript height script =
     rbind (AddInt64 height NewScriptBuilder) (\<lambda>scriptBuilder.
     let (scriptHeight, err) = Script scriptBuilder in
     if err \<noteq> None then Inl PlainError
     else if take (length scriptHeight) script \<noteq> scriptHeight then Inl (RuleError ErrBadCoinbaseHeight)
     else Inr ())"

definition ExtractCoinbaseHeight :: "MsgTx \<Rightarrow> int result" where
  "ExtractCoinbaseHeight coinbaseTx =
     (case tx_TxIn coinbaseTx of
        [] \<Rightarrow> Inl Panic
      | txIn # _ \<Rightarrow>
          (let sigScript = ti_SignatureScript txIn in
           if length sigScript < 1 then Inl (RuleError ErrMissingCoinbaseHeight)
           else
             let opcode = uint (sigScript ! 0) in
             if opcode = 0 then Inr 0
             else if opcode \<ge> 0x51 \<and> opcode \<le> 0x60 then Inr (opcode - 0x50)
             else
               let serializedLen = nat opcode in
               if length (drop 1 sigScript) < serializedLen then Inl (RuleError ErrMissingCoinbaseHeight)
               else
                 let data = take 4 (slice 1 (serializedLen + 1) sigScript);
                     serializedHeightBytes = data @ replicate (4 - length data) 0;
                     serializedHeight = i32 (le_val serializedHeightBytes) in
                 rbind (compareScript serializedHeight sigScript) (\<lambda>_. Inr serializedHeight)))"

definition CheckSerializedHeight :: "MsgTx \<Rightarrow> int \<Rightarrow> unit result" where
  "CheckSerializedHeight coinbaseTx wantHeight =
     rbind (ExtractCoinbaseHeight coinbaseTx) (\<lambda>serializedHeight.
     if serializedHeight \<noteq> wantHeight then Inl (RuleError ErrBadCoinbaseHeight) else Inr ())"

section \<open>Pool staking transactions\<close>

primrec stake_ins_loop :: "TxIn list \<Rightarrow> unit result" where
  "stake_ins_loop [] = Inr ()"
| "stake_ins_loop (txIn # txIns) =
     (if op_Index (ti_PreviousOutPoint txIn) = 0xffffffff then Inl (RuleError ErrBadTxInput)
      else if IsPoolDrawSentinelInput txIn then stake_ins_loop txIns
      else if length (ti_SignatureScript txIn) \<noteq> 0 then Inl (RuleError ErrBadTxInput)
      else if length (ti_Witness txIn) \<noteq> 2 \<or> length (ti_Witness txIn ! 0) \<noteq> 64 \<or> length (ti_Witness txIn ! 1) \<noteq> 33
      then Inl (RuleError ErrBadTxInput)
      else stake_ins_loop txIns)"

text \<open>The state of the loop over the outputs is the position and the data of the stake, if seen.\<close>

primrec stake_outs_loop :: "nat \<Rightarrow> (nat \<times> bytes \<times> int \<times> int) option \<Rightarrow> TxOut list \<Rightarrow> (nat \<times> bytes \<times> int \<times> int) option result" where
  "stake_outs_loop i seen [] = Inr seen"
| "stake_outs_loop i seen (txOut # txOuts) =
     (if IsPoolStakingOpReturn (to_PkScript txOut) then
        (if seen \<noteq> None then Inl (RuleError ErrBadTxInput)
         else if to_Value txOut \<noteq> 0 then Inl (RuleError ErrBadTxInput)
         else case ExtractPoolStakingData (to_PkScript txOut) of
           Inl _ \<Rightarrow> Inl (RuleError ErrBadTxInput)
         | Inr (walletHash, amount, drawHeight) \<Rightarrow>
             stake_outs_loop (i + 1) (Some (i, walletHash, amount, drawHeight)) txOuts)
      else stake_outs_loop (i + 1) seen txOuts)"

primrec stake_input_value :: "UtxoViewpoint \<Rightarrow> int \<Rightarrow> TxIn list \<Rightarrow> int result" where
  "stake_input_value utxoView inputValue [] = Inr inputValue"
| "stake_input_value utxoView inputValue (txIn # txIns) =
     (case LookupEntry utxoView (ti_PreviousOutPoint txIn) of
        None \<Rightarrow> Inl (RuleError ErrMissingTxOut)
      | Some utxo \<Rightarrow> stake_input_value utxoView (i64 (inputValue + ue_amount utxo)) txIns)"

definition stake_change_value :: "nat \<Rightarrow> TxOut list \<Rightarrow> int" where
  "stake_change_value opReturnIdx txOuts =
     foldl (\<lambda>changeValue (i, txOut). if i = opReturnIdx then changeValue else i64 (changeValue + to_Value txOut))
       0 (List.enumerate 0 txOuts)"

definition ValidatePoolStakeTx :: "MsgTx \<Rightarrow> UtxoViewpoint option \<Rightarrow> unit result" where
  "ValidatePoolStakeTx msgTx utxoView =
     (if tx_Version msgTx \<noteq> TxVersionPoolStake then Inl (RuleError ErrBadTxInput)
      else
        rbind (stake_ins_loop (tx_TxIn msgTx)) (\<lambda>_.
        rbind (stake_outs_loop 0 None (tx_TxOut msgTx)) (\<lambda>seen.
        case seen of
          None \<Rightarrow> Inl (RuleError ErrBadTxInput)
        | Some (opReturnIdx, walletHash, amount, drawHeight) \<Rightarrow>
            if walletHash = replicate 20 0 then Inl (RuleError ErrBadTxInput)
            else if \<not> IsDrawBlock (i32 drawHeight) then Inl (RuleError ErrBadTxInput)
            else if amount < SatoshiPerBitcoin then Inl (RuleError ErrBadTxInput)
            else if amount smod SatoshiPerBitcoin \<noteq> 0 then Inl (RuleError ErrBadTxInput)
            else case utxoView of
              None \<Rightarrow> Inr ()
            | Some utxoView \<Rightarrow>
                rbind (stake_input_value utxoView 0 (tx_TxIn msgTx)) (\<lambda>inputValue.
                let changeValue = stake_change_value opReturnIdx (tx_TxOut msgTx) in
                if inputValue < i64 (amount + changeValue) then Inl (RuleError ErrBadTxInput) else Inr ()))))"

section \<open>Values add up\<close>

abbreviation out_sum :: "TxOut list \<Rightarrow> int" where
  "out_sum outs \<equiv> sum_list (map to_Value outs)"

lemma MaxSatoshi_num: "MaxSatoshi = 2100000000000000"
  by (simp add: MaxSatoshi_def SatoshiPerBitcoin_def)

lemma sanity_outs_total:
  "sanity_outs t outs = Inr () \<Longrightarrow> 0 \<le> t \<Longrightarrow> t \<le> MaxSatoshi \<Longrightarrow>
   list_all (\<lambda>out. 0 \<le> to_Value out) outs \<and> t + out_sum outs \<le> MaxSatoshi"
proof (induction outs arbitrary: t)
  case (Cons out outs)
  have v: "0 \<le> to_Value out" "to_Value out \<le> MaxSatoshi" using Cons.prems(1) by (auto simp: Let_def split: if_splits)
  then have i: "i64 (t + to_Value out) = t + to_Value out" using Cons.prems by (intro i64_nonneg) (simp_all add: MaxSatoshi_num)
  then have "sanity_outs (t + to_Value out) outs = Inr ()" "t + to_Value out \<le> MaxSatoshi"
    using Cons.prems(1) by (auto simp: Let_def split: if_splits)
  then show ?case using Cons.IH [of "t + to_Value out"] Cons.prems(2) v by (auto simp: algebra_simps)
qed simp

lemma totalOut_exact:
  "list_all (\<lambda>out. 0 \<le> to_Value out) outs \<Longrightarrow> 0 \<le> t \<Longrightarrow> t + out_sum outs < 2 ^ 63 \<Longrightarrow>
   foldl (\<lambda>n txOut. i64 (n + to_Value txOut)) t outs = t + out_sum outs"
proof (induction outs arbitrary: t)
  case (Cons out outs)
  have "0 \<le> out_sum outs" using Cons.prems(1) by (induction outs) auto
  then have "i64 (t + to_Value out) = t + to_Value out" using Cons.prems by (intro i64_nonneg) auto
  then show ?case using Cons by (simp add: algebra_simps)
qed simp

text \<open>The coins that the inputs name, and their value.\<close>

definition named_coins :: "UtxoViewpoint \<Rightarrow> TxIn list \<Rightarrow> int" where
  "named_coins view ins =
     sum_list (map (\<lambda>i. case LookupEntry view (ti_PreviousOutPoint i) of Some e \<Rightarrow> ue_amount e | None \<Rightarrow> 0) ins)"

lemma inputs_loop_total:
  "inputs_loop h view params t ins = Inr tot \<Longrightarrow> 0 \<le> t \<Longrightarrow> t \<le> MaxSatoshi \<Longrightarrow>
   tot = t + named_coins view ins \<and> tot \<le> MaxSatoshi \<and> t \<le> tot \<and>
   list_all (\<lambda>i. \<exists>e. LookupEntry view (ti_PreviousOutPoint i) = Some e \<and> \<not> IsSpent e \<and> 0 \<le> ue_amount e \<and>
     (IsCoinBase e \<longrightarrow> CoinbaseMaturity params \<le> i32 (h - ue_blockHeight e))) ins"
proof (induction ins arbitrary: t)
  case Nil
  then show ?case by (simp add: named_coins_def)
next
  case (Cons i ins)
  from Cons.prems(1) obtain e where e: "LookupEntry view (ti_PreviousOutPoint i) = Some e" "\<not> IsSpent e"
      "\<not> (IsCoinBase e \<and> i32 (h - ue_blockHeight e) < CoinbaseMaturity params)"
      "0 \<le> ue_amount e" "ue_amount e \<le> MaxSatoshi"
    by (auto simp: Let_def split: option.splits if_splits)
  have x: "i64 (t + ue_amount e) = t + ue_amount e"
    using e Cons.prems by (intro i64_nonneg) (simp_all add: MaxSatoshi_num)
  have "inputs_loop h view params (t + ue_amount e) ins = Inr tot" "t + ue_amount e \<le> MaxSatoshi"
    using Cons.prems(1) e x by (auto simp: Let_def split: if_splits)
  then show ?case using Cons.IH [of "t + ue_amount e"] Cons.prems(2) e by (auto simp: named_coins_def)
qed

lemma sanity_duplicates_distinct:
  "sanity_duplicates seen ins = Inr () \<Longrightarrow>
   distinct (map ti_PreviousOutPoint ins) \<and> set seen \<inter> set (map ti_PreviousOutPoint ins) = {}"
proof (induction ins arbitrary: seen)
  case (Cons i ins)
  then show ?case using Cons.IH [of "ti_PreviousOutPoint i # seen"] by (auto split: if_splits)
qed simp

lemma sanity_parts:
  assumes "CheckTransactionSanity tx = Inr ()"
  shows "list_all (\<lambda>out. 0 \<le> to_Value out) (tx_TxOut tx)" "out_sum (tx_TxOut tx) \<le> MaxSatoshi"
    "distinct (map ti_PreviousOutPoint (tx_TxIn tx))" "totalOut (tx_TxOut tx) = out_sum (tx_TxOut tx)"
proof -
  have "sanity_outs 0 (tx_TxOut tx) = Inr ()" "sanity_duplicates [] (tx_TxIn tx) = Inr ()"
    using assms by (auto simp: CheckTransactionSanity_def rbind_eq_Inr split: if_splits)
  then show o: "list_all (\<lambda>out. 0 \<le> to_Value out) (tx_TxOut tx)" "out_sum (tx_TxOut tx) \<le> MaxSatoshi"
    "distinct (map ti_PreviousOutPoint (tx_TxIn tx))"
    using sanity_outs_total [of 0 "tx_TxOut tx"] sanity_duplicates_distinct by (auto simp: MaxSatoshi_num)
  show "totalOut (tx_TxOut tx) = out_sum (tx_TxOut tx)"
    using totalOut_exact [OF o(1), of 0] o(2) by (simp add: totalOut_def MaxSatoshi_num)
qed

definition ordinary :: "MsgTx \<Rightarrow> bool" where
  "ordinary tx \<longleftrightarrow> \<not> IsCoinBaseTx tx \<and> \<not> IsDrawSettlementTx tx \<and> \<not> IsVDFResultTx tx"

lemma inputs_value:
  assumes "CheckTransactionSanity tx = Inr ()" "CheckTransactionInputs tx h view params = Inr fee" "ordinary tx"
  shows "0 \<le> fee" "named_coins view (tx_TxIn tx) = out_sum (tx_TxOut tx) + fee"
    "named_coins view (tx_TxIn tx) \<le> MaxSatoshi"
    "list_all (\<lambda>i. \<exists>e. LookupEntry view (ti_PreviousOutPoint i) = Some e \<and> \<not> IsSpent e \<and> 0 \<le> ue_amount e \<and>
       (IsCoinBase e \<longrightarrow> CoinbaseMaturity params \<le> i32 (h - ue_blockHeight e))) (tx_TxIn tx)"
proof -
  obtain tot where t: "inputs_loop h view params 0 (tx_TxIn tx) = Inr tot" "\<not> tot < totalOut (tx_TxOut tx)"
      "fee = i64 (tot - totalOut (tx_TxOut tx))"
    using assms(2,3) by (auto simp: CheckTransactionInputs_def ordinary_def rbind_eq_Inr Let_def split: if_splits)
  have l: "tot = named_coins view (tx_TxIn tx)" "tot \<le> MaxSatoshi"
    using inputs_loop_total [OF t(1)] by (auto simp: MaxSatoshi_num)
  have o: "0 \<le> out_sum (tx_TxOut tx)" using sanity_parts(1) [OF assms(1)] by (intro sum_list_nonneg) (auto simp: list_all_iff)
  have "fee = tot - out_sum (tx_TxOut tx)"
    using t(2,3) l(2) o sanity_parts(4) [OF assms(1)] by (simp add: i64_nonneg MaxSatoshi_num)
  then show "0 \<le> fee" "named_coins view (tx_TxIn tx) = out_sum (tx_TxOut tx) + fee" "named_coins view (tx_TxIn tx) \<le> MaxSatoshi"
    using t(2) l sanity_parts(4) [OF assms(1)] by simp_all
  show "list_all (\<lambda>i. \<exists>e. LookupEntry view (ti_PreviousOutPoint i) = Some e \<and> \<not> IsSpent e \<and> 0 \<le> ue_amount e \<and>
       (IsCoinBase e \<longrightarrow> CoinbaseMaturity params \<le> i32 (h - ue_blockHeight e))) (tx_TxIn tx)"
    using inputs_loop_total [OF t(1)] by (simp add: MaxSatoshi_num)
qed

section \<open>The supply of coins\<close>

definition coin_supply :: "(OutPoint \<rightharpoonup> SpentTxOut) \<Rightarrow> int" where
  "coin_supply c = (\<Sum>x \<in> dom c. so_Amount (the (c x)))"

definition coins_ok :: "(OutPoint \<rightharpoonup> SpentTxOut) \<Rightarrow> bool" where
  "coins_ok c \<longleftrightarrow> finite (dom c) \<and> (\<forall>s \<in> ran c. 0 \<le> so_Amount s)"

lemma coins_ok_upd: "coins_ok c \<Longrightarrow> 0 \<le> so_Amount s \<Longrightarrow> coins_ok (c(x \<mapsto> s))"
  by (auto simp: coins_ok_def ran_def split: if_splits)

lemma coins_ok_restrict: "coins_ok c \<Longrightarrow> coins_ok (c |` A)"
  by (auto simp: coins_ok_def ran_def restrict_map_def split: if_splits elim!: rev_finite_subset)

lemma supply_upd: "coins_ok c \<Longrightarrow> coin_supply (c(x \<mapsto> s)) \<le> coin_supply c + so_Amount s"
proof -
  assume c: "coins_ok c"
  then have f: "finite (dom c)" by (simp add: coins_ok_def)
  have "coin_supply (c(x \<mapsto> s)) = so_Amount s + (\<Sum>y \<in> dom c - {x}. so_Amount (the (c y)))"
  proof -
    have "(\<Sum>y \<in> insert x (dom c). so_Amount (the ((c(x \<mapsto> s)) y))) =
        so_Amount s + (\<Sum>y \<in> dom c - {x}. so_Amount (the ((c(x \<mapsto> s)) y)))"
      using f by (simp add: sum.insert_remove)
    then show ?thesis by (simp add: coin_supply_def)
  qed
  also have "\<dots> \<le> so_Amount s + coin_supply c"
    unfolding coin_supply_def using f c by (intro add_left_mono sum_mono2) (auto simp: coins_ok_def ran_def)
  finally show ?thesis by simp
qed

lemma supply_remove:
  assumes "coins_ok c" "distinct ops" "set ops \<subseteq> dom c"
  shows "coin_supply (c |` (- set ops)) = coin_supply c - sum_list (map (\<lambda>x. so_Amount (the (c x))) ops)"
proof -
  have f: "finite (dom c)" using assms(1) by (simp add: coins_ok_def)
  have d: "dom (c |` (- set ops)) = dom c - set ops" by (auto simp: restrict_map_def split: if_splits)
  have "coin_supply (c |` (- set ops)) = (\<Sum>x \<in> dom c - set ops. so_Amount (the (c x)))"
    unfolding coin_supply_def d by (rule sum.cong) (auto simp: restrict_map_def)
  also have "\<dots> = coin_supply c - (\<Sum>x \<in> set ops. so_Amount (the (c x)))"
    using f assms(3) by (simp add: sum_diff coin_supply_def)
  also have "(\<Sum>x \<in> set ops. so_Amount (the (c x))) = sum_list (map (\<lambda>x. so_Amount (the (c x))) ops)"
    using assms(2) by (simp add: sum_list_distinct_conv_sum_set)
  finally show ?thesis .
qed

lemma supply_restrict_le: "coins_ok c \<Longrightarrow> coin_supply (c |` A) \<le> coin_supply c"
proof -
  assume c: "coins_ok c"
  have "coin_supply (c |` A) = (\<Sum>x \<in> dom c \<inter> A. so_Amount (the (c x)))"
    unfolding coin_supply_def by (rule sum.cong) (auto simp: restrict_map_def split: if_splits)
  also have "\<dots> \<le> coin_supply c"
    unfolding coin_supply_def using c by (intro sum_mono2) (auto simp: coins_ok_def ran_def)
  finally show ?thesis .
qed

abbreviation spendable_sum :: "MsgTx \<Rightarrow> int" where
  "spendable_sum tx \<equiv> out_sum (map snd (spendable_outs tx))"

lemma spendable_sum_le: "list_all (\<lambda>out. 0 \<le> to_Value out) (tx_TxOut tx) \<Longrightarrow> spendable_sum tx \<le> out_sum (tx_TxOut tx)"
proof -
  assume a: "list_all (\<lambda>out. 0 \<le> to_Value out) (tx_TxOut tx)"
  have "list_all (\<lambda>out. 0 \<le> to_Value out) os \<Longrightarrow>
      sum_list (map (\<lambda>x. to_Value (snd x)) (filter (\<lambda>(i, out). \<not> IsUnspendable (to_PkScript out)) (List.enumerate n os))) \<le> out_sum os" for n os
  proof (induction os arbitrary: n)
    case (Cons a os)
    show ?case using Cons.IH [of "Suc n"] Cons.prems by auto
  qed simp
  from this [of "tx_TxOut tx" 0] a show ?thesis
    by (simp add: spendable_outs_def comp_def case_prod_beta)
qed

lemma spendable_outs_nonneg:
  "list_all (\<lambda>out. 0 \<le> to_Value out) (tx_TxOut tx) \<Longrightarrow> list_all (\<lambda>(x, out). 0 \<le> to_Value out) (spendable_outs tx)"
  by (auto simp: list_all_iff spendable_outs_def in_set_enumerate_eq)

lemma supply_add_outs:
  assumes "coins_ok c" "list_all (\<lambda>out. 0 \<le> to_Value out) (tx_TxOut tx)"
  shows "coins_ok (add_outs tx h c) \<and> coin_supply (add_outs tx h c) \<le> coin_supply c + spendable_sum tx"
proof -
  have "coins_ok c \<Longrightarrow> list_all (\<lambda>(x, out). 0 \<le> to_Value out) os \<Longrightarrow>
      coins_ok (foldl (\<lambda>c (x, out). c(x \<mapsto> out_coin tx h out)) c os) \<and>
      coin_supply (foldl (\<lambda>c (x, out). c(x \<mapsto> out_coin tx h out)) c os) \<le> coin_supply c + out_sum (map snd os)" for os
  proof (induction os arbitrary: c)
    case (Cons a os)
    obtain x out where a: "a = (x, out)" by (cases a)
    define s where "s = out_coin tx h out"
    have s: "so_Amount s = to_Value out" by (simp add: s_def out_coin_def)
    have c: "coins_ok (c(x \<mapsto> s))" using coins_ok_upd [of c s x] Cons.prems s by (simp add: a)
    have "coin_supply (c(x \<mapsto> s)) \<le> coin_supply c + to_Value out" using supply_upd [of c x s] Cons.prems s by simp
    then show ?case
      using Cons.IH [OF c] Cons.prems by (simp add: a s_def [symmetric] del: fun_upd_apply)
  qed simp
  then show ?thesis using assms spendable_outs_nonneg by (simp add: add_outs_def)
qed

text \<open>What a transaction can add to the supply at most, whatever it spends.\<close>

lemma supply_apply_le:
  assumes "coins_ok c" "list_all (\<lambda>out. 0 \<le> to_Value out) (tx_TxOut tx)"
  shows "coins_ok (apply_tx h tx c) \<and> coin_supply (apply_tx h tx c) \<le> coin_supply c + spendable_sum tx"
  using supply_add_outs [OF coins_ok_restrict [OF assms(1)] assms(2), of h "- set (spent_ops tx)"]
    supply_restrict_le [OF assms(1), of "- set (spent_ops tx)"]
  by (simp add: apply_tx_def)

text \<open>An ordinary transaction without an input that looks like a sentinel never adds to it.\<close>

lemma supply_ordinary:
  assumes "coins_ok (coins base v)" "CheckTransactionSanity tx = Inr ()"
    and "CheckTransactionInputs tx h v params = Inr fee" "ordinary tx"
    and "list_all (\<lambda>i. \<not> IsPoolDrawSentinelInput i) (tx_TxIn tx)"
  shows "coin_supply (apply_tx h' tx (coins base v)) \<le> coin_supply (coins base v) - fee"
proof -
  let ?c = "coins base v" and ?ops = "map ti_PreviousOutPoint (tx_TxIn tx)"
  note iv = inputs_value [OF assms(2-4)]
  have ops: "spent_ops tx = ?ops"
    using assms(4,5) by (simp add: spent_ops_def ordinary_def list_all_iff filter_id_conv)
  have named: "\<exists>e. LookupEntry v x = Some e \<and> ?c x = Some (toSpentTxOut e)" if "x \<in> set ?ops" for x
    using iv(4) that by (auto simp: list_all_iff coins_def coin_def)
  then have sub: "set ?ops \<subseteq> dom ?c" by blast
  have "sum_list (map (\<lambda>x. so_Amount (the (?c x))) ?ops) = named_coins v (tx_TxIn tx)"
    unfolding named_coins_def map_map comp_def
  proof (rule arg_cong [where f = sum_list], rule map_cong [OF refl])
    fix i assume "i \<in> set (tx_TxIn tx)"
    then show "so_Amount (the (?c (ti_PreviousOutPoint i))) =
        (case LookupEntry v (ti_PreviousOutPoint i) of None \<Rightarrow> 0 | Some e \<Rightarrow> ue_amount e)"
      using named [of "ti_PreviousOutPoint i"] by (auto simp: toSpentTxOut_def)
  qed
  then have "coin_supply (?c |` (- set ?ops)) = coin_supply ?c - (out_sum (tx_TxOut tx) + fee)"
    using supply_remove [OF assms(1) sanity_parts(3) [OF assms(2)] sub] iv(2) by simp
  then show ?thesis
    using supply_add_outs [OF coins_ok_restrict [OF assms(1)] sanity_parts(1) [OF assms(2)], of h' "- set ?ops"]
      spendable_sum_le [OF sanity_parts(1) [OF assms(2)]]
    by (simp add: apply_tx_def ops)
qed
section \<open>A coinbase states one height\<close>

lemma scriptNum_Bytes_height:
  assumes "0 < h" "h < 2 ^ 31"
  shows "\<exists>d. scriptNum_Bytes h = Inr d \<and> d \<noteq> [] \<and> length d \<le> 4 \<and> le_val d = h \<and>
    (length d = 1 \<longrightarrow> uint (d ! 0) < 128)"
proof -
  note v = num_bytes_val [OF assms(1)]
  define e where "e = length (num_bytes h)"
  have b: "256 ^ (e - 1) \<le> h" using num_bytes_bounds [OF assms(1)] by (simp add: e_def)
  then have "(256::int) ^ (e - 1) < 256 ^ 4" using assms(2) by simp
  then have "e - 1 < 4" by (simp only: power_strict_increasing_iff)
  then have e4: "e \<le> 4" by simp
  obtain bs c where n: "num_bytes h = bs @ [c]" using v by (metis rev_exhaust)
  have h: "h = le_val bs + 256 ^ length bs * uint c" using v unfolding n by (simp add: le_val_snoc)
  show ?thesis
  proof (cases "uint c < 128")
    case True
    then show ?thesis using assms(1) v e4 n by (auto simp: scriptNum_Bytes_def Let_def and_128 e_def)
  next
    case False
    have "e \<noteq> 4"
    proof
      assume "e = 4"
      then have "length bs = 3" using n by (simp add: e_def)
      then have "256 ^ 3 * uint c \<le> h" using h by simp
      then show False using False assms(2) by simp
    qed
    then have "length (bs @ [c, 0]) \<le> 4" using e4 n by (simp add: e_def)
    moreover have "le_val (bs @ [c, 0]) = h" using v n le_val_snoc [of "bs @ [c]" 0] by simp
    moreover have "scriptNum_Bytes h = Inr (bs @ [c, 0])"
      using assms(1) n False by (simp add: scriptNum_Bytes_def Let_def and_128)
    ultimately show ?thesis by auto
  qed
qed

text \<open>The script that pushes a height.\<close>

definition height_script :: "int \<Rightarrow> bytes" where
  "height_script h = (case AddInt64 h NewScriptBuilder of Inr b \<Rightarrow> sb_script b | Inl _ \<Rightarrow> [])"

lemma height_script_cases:
  assumes "0 \<le> h" "h < 2 ^ 31"
  shows "AddInt64 h NewScriptBuilder = Inr \<lparr>sb_script = height_script h, sb_err = None\<rparr>"
    and "h = 0 \<and> height_script h = [0] \<or> 1 \<le> h \<and> h \<le> 16 \<and> height_script h = [word_of_int (0x50 + h)] \<or>
     17 \<le> h \<and> (\<exists>d. d \<noteq> [] \<and> length d \<le> 4 \<and> le_val d = h \<and> height_script h = word_of_int (int (length d)) # d)"
proof -
  have m: "MaxScriptSize = 10000" "MaxScriptElementSize = 520" by (simp_all add: MaxScriptSize_def MaxScriptElementSize_def)
  have "AddInt64 h NewScriptBuilder = Inr \<lparr>sb_script = height_script h, sb_err = None\<rparr> \<and>
    (h = 0 \<and> height_script h = [0] \<or> 1 \<le> h \<and> h \<le> 16 \<and> height_script h = [word_of_int (0x50 + h)] \<or>
     17 \<le> h \<and> (\<exists>d. d \<noteq> [] \<and> length d \<le> 4 \<and> le_val d = h \<and> height_script h = word_of_int (int (length d)) # d))"
  proof (cases "h \<le> 16")
    case True
    then show ?thesis using assms by (auto simp: AddInt64_def height_script_def NewScriptBuilder_def m)
  next
    case False
    then obtain d where d: "scriptNum_Bytes h = Inr d" "d \<noteq> []" "length d \<le> 4" "le_val d = h"
        "length d = 1 \<longrightarrow> uint (d ! 0) < 128"
      using scriptNum_Bytes_height [of h] assms by auto
    have one: "16 < uint (d ! 0)" if "length d = 1" using that d(4) False by (cases d) (auto simp: le_val_Cons)
    have "AddData d NewScriptBuilder = \<lparr>sb_script = word_of_int (int (length d)) # d, sb_err = None\<rparr>"
      using d one by (auto simp: AddData_def addData_def NewScriptBuilder_def m canonicalDataSize_def Let_def word_le_def word_less_def)
    then show ?thesis using d False by (auto simp: AddInt64_def height_script_def NewScriptBuilder_def m)
  qed
  then show "AddInt64 h NewScriptBuilder = Inr \<lparr>sb_script = height_script h, sb_err = None\<rparr>"
    and "h = 0 \<and> height_script h = [0] \<or> 1 \<le> h \<and> h \<le> 16 \<and> height_script h = [word_of_int (0x50 + h)] \<or>
     17 \<le> h \<and> (\<exists>d. d \<noteq> [] \<and> length d \<le> 4 \<and> le_val d = h \<and> height_script h = word_of_int (int (length d)) # d)"
    by blast+
qed

lemma le_val_zeros: "le_val (d @ replicate k 0) = le_val d"
proof (induction k)
  case (Suc k)
  have "le_val ((d @ replicate k 0) @ [0]) = le_val (d @ replicate k 0)" by (simp only: le_val_snoc) simp
  then show ?case using Suc by (simp add: replicate_append_same [symmetric] del: replicate_append_same)
qed simp

lemma compareScript_height:
  "0 \<le> h \<Longrightarrow> h < 2 ^ 31 \<Longrightarrow>
   compareScript h s = (if take (length (height_script h)) s = height_script h then Inr () else Inl (RuleError ErrBadCoinbaseHeight))"
  by (simp add: compareScript_def height_script_cases(1) Script_def)

lemma extract_height:
  assumes "0 \<le> h" "h < 2 ^ 31" "tx_TxIn tx = i # ins"
    and "take (length (height_script h)) (ti_SignatureScript i) = height_script h"
  shows "ExtractCoinbaseHeight tx = Inr h"
proof -
  let ?s = "ti_SignatureScript i"
  define r where "r = drop (length (height_script h)) ?s"
  have s: "?s = height_script h @ r" using assms(4) append_take_drop_id [of "length (height_script h)" ?s] by (simp add: r_def)
  from height_script_cases(2) [OF assms(1,2)] show ?thesis
  proof (elim disjE conjE exE)
    assume "h = 0" "height_script h = [0]"
    then show ?thesis using s assms(3) by (simp add: ExtractCoinbaseHeight_def)
  next
    assume h: "1 \<le> h" "h \<le> 16" "height_script h = [word_of_int (0x50 + h)]"
    then have "?s ! 0 = word_of_int (0x50 + h)" "?s \<noteq> []" using s by simp_all
    moreover have "uint (word_of_int (0x50 + h) :: byte) = 0x50 + h" using h by (simp only: uint_word_of_int_8) simp
    ultimately show ?thesis using h assms(3) by (simp add: ExtractCoinbaseHeight_def)
  next
    fix d assume h: "17 \<le> h" "d \<noteq> []" "length d \<le> 4" "le_val d = h" "height_script h = word_of_int (int (length d)) # d"
    have u: "uint (word_of_int (int (length d)) :: byte) = int (length d)" using h(3) by (simp only: uint_word_of_int_8) simp
    have s': "?s = word_of_int (int (length d)) # d @ r" using s h(5) by simp
    have "slice 1 (length d + 1) ?s = d" by (simp add: s' slice_def)
    then have "i32 (le_val (take 4 (slice 1 (length d + 1) ?s) @ replicate (4 - length (take 4 (slice 1 (length d + 1) ?s))) 0)) = h"
      using h(3,4) assms(1,2) by (simp add: le_val_zeros i32_id)
    moreover have "compareScript h ?s = Inr ()" using assms by (simp add: compareScript_height)
    moreover have "?s ! 0 = word_of_int (int (length d))" "length (drop 1 ?s) = length d + length r" "?s \<noteq> []" by (simp_all add: s')
    ultimately show ?thesis
      using assms(3) u h(2,3) by (simp add: ExtractCoinbaseHeight_def Let_def)
  qed
qed

lemma extracted_prefix:
  assumes "0 \<le> h" "h < 2 ^ 31" "tx_TxIn tx = i # ins" "ExtractCoinbaseHeight tx = Inr h"
  shows "take (length (height_script h)) (ti_SignatureScript i) = height_script h"
proof -
  let ?s = "ti_SignatureScript i"
  have ne: "?s \<noteq> []" using assms(3,4) by (auto simp: ExtractCoinbaseHeight_def)
  then have t1: "take 1 ?s = [?s ! 0]" by (cases ?s) simp_all
  consider "uint (?s ! 0) = 0" "h = 0" | "0x51 \<le> uint (?s ! 0)" "uint (?s ! 0) \<le> 0x60" "h = uint (?s ! 0) - 0x50" |
      "compareScript h ?s = Inr ()"
    using assms(3,4) ne by (auto simp: ExtractCoinbaseHeight_def Let_def rbind_eq_Inr split: if_splits)
  then show ?thesis
  proof cases
    case 1
    then have "?s ! 0 = 0" by (simp add: uint_0_iff)
    then show ?thesis using height_script_cases(2) [OF assms(1,2)] 1 t1 by auto
  next
    case 2
    then have "word_of_int (0x50 + h) = ?s ! 0" by simp
    then show ?thesis using height_script_cases(2) [OF assms(1,2)] 2 t1 by auto
  next
    case 3
    then show ?thesis using assms(1,2) by (simp add: compareScript_height split: if_splits)
  qed
qed

text \<open>
  The check of the height in a coinbase accepts exactly the signature scripts that begin with
  the push of that height that the script builder makes, so that no other way to write the number
  passes and a coinbase states one height only.
\<close>

lemma coinbase_height:
  assumes "0 \<le> h" "h < 2 ^ 31" "tx_TxIn tx = i # ins"
  shows "(CheckSerializedHeight tx h = Inr ()) =
      (take (length (height_script h)) (ti_SignatureScript i) = height_script h) \<and>
    (CheckSerializedHeight tx h = Inr () \<and> CheckSerializedHeight tx h' = Inr () \<longrightarrow> h = h')"
  using extract_height [OF assms] extracted_prefix [OF assms]
  by (auto simp: CheckSerializedHeight_def rbind_eq_Inr split: if_splits)

definition height_tx :: MsgTx where
  "height_tx = sample_coinbase\<lparr>tx_TxIn := [(hd (tx_TxIn sample_coinbase))\<lparr>ti_SignatureScript := [0x03, 0x8c, 0xd8, 0x00, 0x51]\<rparr>]\<rparr>"

end
