(* ===== verification/Merkle.thy ===== *)
theory Merkle
  imports Utxo
begin

text \<open>
  Merkle roots and the witness commitment: \<^verbatim>\<open>blockchain/merkle.go\<close> and
  \<^verbatim>\<open>blockchain/rolling_merkle.go\<close>. The tree is computed twice in the code, as an array of all
  nodes and by a store that keeps one root for each bit of the number of leaves. A nil pointer of
  the array is \<open>None\<close>. The loops of the rolling store are partial functions: \<open>None\<close> is a loop
  that does not end.

  The lemmas show that both compute the root of pairing up the hashes level by level, the last one
  with itself where a level is odd.
\<close>

section \<open>The tree as an array\<close>

text \<open>
  \<^verbatim>\<open>nextPowerOfTwo\<close> takes its exponent from the \<^verbatim>\<open>float64\<close> logarithm of the count. The model takes the exact
  one, \<open>log2_floor\<close>. Below \<open>2 ^ 48\<close> the two are equal: the count is a \<^verbatim>\<open>float64\<close> without rounding, and the
  logarithm of a count just below a power of two is still further from the integer than half a unit in
  the last place. A block has nowhere near as many transactions. For larger counts the rounded
  logarithm may reach the next integer, which the model leaves out.
\<close>

function log2_floor :: "nat \<Rightarrow> nat" where
  "log2_floor n = (if n < 2 then 0 else Suc (log2_floor (n div 2)))"
  by pat_completeness auto
termination by (relation "measure (\<lambda>n. n)") auto

declare log2_floor.simps [simp del]

definition nextPowerOfTwo :: "nat \<Rightarrow> nat" where
  "nextPowerOfTwo n = (if and n (n - 1) = 0 then n else 2 ^ (log2_floor n + 1))"

definition HashMerkleBranches :: "bytes \<Rightarrow> bytes \<Rightarrow> bytes" where
  "HashMerkleBranches left right = sha256d (left @ right)"

definition WitnessHash :: "MsgTx \<Rightarrow> bytes" where
  "WitnessHash msg = (if HasWitness msg then sha256d (btcEncode WitnessEncoding msg) else TxHash msg)"

definition merkle_leaf :: "bool \<Rightarrow> nat \<Rightarrow> MsgTx \<Rightarrow> bytes" where
  "merkle_leaf witness i tx =
     (if witness \<and> i = 0 then replicate 32 0 else if witness then WitnessHash tx else TxHash tx)"

definition merkle_parent :: "bytes option \<Rightarrow> bytes option \<Rightarrow> bytes option" where
  "merkle_parent l r =
     (case l of None \<Rightarrow> None
      | Some left \<Rightarrow> (case r of None \<Rightarrow> Some (HashMerkleBranches left left)
                      | Some right \<Rightarrow> Some (HashMerkleBranches left right)))"

definition BuildMerkleTreeStore :: "MsgTx list \<Rightarrow> bool \<Rightarrow> bytes option list" where
  "BuildMerkleTreeStore transactions witness =
     (let nextPoT = nextPowerOfTwo (length transactions);
          arraySize = nextPoT * 2 - 1;
          merkles = map (\<lambda>(i, tx). Some (merkle_leaf witness i tx)) (List.enumerate 0 transactions) @
            replicate (arraySize - length transactions) None in
      foldl (\<lambda>merkles k. merkles[nextPoT + k := merkle_parent (merkles ! (2 * k)) (merkles ! (2 * k + 1))])
        merkles [0..<nextPoT - 1])"

section \<open>The rolling store\<close>

record rollingMerkleTreeStore =
  rm_roots :: "bytes list"
  rm_numLeaves :: nat

definition newRollingMerkleTreeStore :: rollingMerkleTreeStore where
  "newRollingMerkleTreeStore = \<lparr>rm_roots = [], rm_numLeaves = 0\<rparr>"

function add_loop :: "nat \<Rightarrow> nat \<Rightarrow> bytes \<Rightarrow> bytes list \<Rightarrow> bytes list result" where
  "add_loop numLeaves h newRoot roots =
     (if bit numLeaves h then
        (if roots = [] then Inl Panic
         else add_loop numLeaves ((h + 1) mod 256) (HashMerkleBranches (last roots) newRoot) (butlast roots))
      else Inr (roots @ [newRoot]))"
  by pat_completeness auto
termination by (relation "measure (\<lambda>(_, _, _, roots). length roots)") auto

declare add_loop.simps [simp del]

definition store_add :: "bytes \<Rightarrow> rollingMerkleTreeStore \<Rightarrow> rollingMerkleTreeStore result" where
  "store_add leaf s =
     rbind (add_loop (rm_numLeaves s) 0 leaf (rm_roots s)) (\<lambda>roots.
     Inr \<lparr>rm_roots = roots, rm_numLeaves = (rm_numLeaves s + 1) mod 2 ^ 64\<rparr>)"

primrec store_adds :: "bytes list \<Rightarrow> rollingMerkleTreeStore \<Rightarrow> rollingMerkleTreeStore result" where
  "store_adds [] s = Inr s"
| "store_adds (leaf # leaves) s = rbind (store_add leaf s) (store_adds leaves)"

text \<open>The number of leaves, shifted until its lowest bit is set.\<close>

partial_function (option) shift_loop :: "nat \<Rightarrow> nat \<Rightarrow> nat \<Rightarrow> nat option" where
  "shift_loop currentLeaves h numLeaves =
     (if bit currentLeaves h then Some numLeaves
      else shift_loop currentLeaves ((h + 1) mod 256) (numLeaves div 2))"

partial_function (option) roots_loop :: "rollingMerkleTreeStore \<Rightarrow> rollingMerkleTreeStore result option" where
  "roots_loop s =
     (if length (rm_roots s) > 1 then
        Option.bind (shift_loop (rm_numLeaves s) 0 (rm_numLeaves s)) (\<lambda>numLeaves.
        case store_add (last (rm_roots s)) (s\<lparr>rm_numLeaves := numLeaves\<rparr>) of
          Inl e \<Rightarrow> Some (Inl e)
        | Inr s \<Rightarrow> roots_loop s)
      else Some (Inr s))"

definition first_root :: "rollingMerkleTreeStore \<Rightarrow> bytes result" where
  "first_root s = (case rm_roots s of [] \<Rightarrow> Inl Panic | r # _ \<Rightarrow> Inr r)"

definition calcMerkleRoot :: "MsgTx list \<Rightarrow> bool \<Rightarrow> rollingMerkleTreeStore \<Rightarrow> bytes result option" where
  "calcMerkleRoot adds witness s =
     (case store_adds (map (\<lambda>(i, tx). merkle_leaf witness i tx) (List.enumerate 0 adds)) s of
        Inl e \<Rightarrow> Some (Inl e)
      | Inr s \<Rightarrow>
          if rm_numLeaves s = 1 then Some (first_root s)
          else
            case (if adds \<noteq> [] \<and> odd (length adds)
                  then store_add (if witness then WitnessHash (last adds) else TxHash (last adds)) s
                  else Inr s) of
              Inl e \<Rightarrow> Some (Inl e)
            | Inr s \<Rightarrow> map_option (\<lambda>r. rbind r first_root) (roots_loop s))"

definition CalcMerkleRoot :: "MsgTx list \<Rightarrow> bool \<Rightarrow> bytes result option" where
  "CalcMerkleRoot transactions witness = calcMerkleRoot transactions witness newRollingMerkleTreeStore"

section \<open>The witness commitment\<close>

definition WitnessMagicBytes :: bytes where
  "WitnessMagicBytes = [0x6a, 0x24, 0xaa, 0x21, 0xa9, 0xed]"

definition CoinbaseWitnessDataLen :: nat where "CoinbaseWitnessDataLen = 32"

definition CoinbaseWitnessPkScriptLength :: nat where "CoinbaseWitnessPkScriptLength = 38"

definition ExtractWitnessCommitment :: "MsgTx \<Rightarrow> bytes option" where
  "ExtractWitnessCommitment msgTx =
     (if \<not> IsCoinBaseTx msgTx then None
      else
        case find (\<lambda>txOut. length (to_PkScript txOut) \<ge> CoinbaseWitnessPkScriptLength \<and>
            take (length WitnessMagicBytes) (to_PkScript txOut) = WitnessMagicBytes) (rev (tx_TxOut msgTx)) of
          None \<Rightarrow> None
        | Some txOut \<Rightarrow> Some (slice (length WitnessMagicBytes) CoinbaseWitnessPkScriptLength (to_PkScript txOut)))"

definition ValidateWitnessCommitment :: "MsgBlock \<Rightarrow> unit result option" where
  "ValidateWitnessCommitment blk =
     (case mb_Transactions blk of
        [] \<Rightarrow> Some (Inl (RuleError ErrNoTransactions))
      | coinbaseTx # _ \<Rightarrow>
          (case tx_TxIn coinbaseTx of
             [] \<Rightarrow> Some (Inl (RuleError ErrNoTxInputs))
           | txIn # _ \<Rightarrow>
               (case ExtractWitnessCommitment coinbaseTx of
                  None \<Rightarrow>
                    Some (if list_ex HasWitness (mb_Transactions blk)
                          then Inl (RuleError ErrUnexpectedWitness) else Inr ())
                | Some witnessCommitment \<Rightarrow>
                    let coinbaseWitness = ti_Witness txIn in
                    if length coinbaseWitness \<noteq> 1 then Some (Inl (RuleError ErrInvalidWitnessCommitment))
                    else
                      let witnessNonce = coinbaseWitness ! 0 in
                      if length witnessNonce \<noteq> CoinbaseWitnessDataLen
                      then Some (Inl (RuleError ErrInvalidWitnessCommitment))
                      else
                        map_option (\<lambda>r. rbind r (\<lambda>witnessMerkleRoot.
                            if sha256d (witnessMerkleRoot @ witnessNonce) \<noteq> witnessCommitment
                            then Inl (RuleError ErrWitnessCommitmentMismatch) else Inr ()))
                          (CalcMerkleRoot (mb_Transactions blk) True))))"

section \<open>Pairing up, level by level\<close>

fun pair_up :: "bytes list \<Rightarrow> bytes list" where
  "pair_up (a # b # hs) = HashMerkleBranches a b # pair_up hs"
| "pair_up [a] = [HashMerkleBranches a a]"
| "pair_up [] = []"

lemma length_pair_up [simp]: "length (pair_up hs) = (length hs + 1) div 2"
  by (induction hs rule: pair_up.induct) auto

function merkle_root :: "bytes list \<Rightarrow> bytes" where
  "merkle_root hs = (if length hs < 2 then hd hs else merkle_root (pair_up hs))"
  by pat_completeness auto
termination by (relation "measure length") auto

declare merkle_root.simps [simp del]

text \<open>Full pairs only: what the roots of the rolling store stand for.\<close>

fun pairs :: "bytes list \<Rightarrow> bytes list" where
  "pairs (a # b # hs) = HashMerkleBranches a b # pairs hs"
| "pairs _ = []"

lemma length_pairs [simp]: "length (pairs hs) = length hs div 2"
  by (induction hs rule: pairs.induct) auto

lemma pairs_Nil: "pairs hs = [] \<longleftrightarrow> length hs < 2"
  using length_pairs [of hs] by (metis div_eq_0_iff length_0_conv numeral_eq_Suc zero_less_Suc nat.simps(3))

lemma pairs_even: "even (length hs) \<Longrightarrow> pair_up hs = pairs hs"
  by (induction hs rule: pairs.induct) auto

lemma pairs_snoc_even: "even (length hs) \<Longrightarrow> pairs (hs @ [x]) = pairs hs"
  by (induction hs rule: pairs.induct) auto

lemma pairs_snoc2: "even (length hs) \<Longrightarrow> pairs (hs @ [x, y]) = pairs hs @ [HashMerkleBranches x y]"
  by (induction hs rule: pairs.induct) auto

lemma pair_up_odd: "odd (length hs) \<Longrightarrow> pair_up hs = pairs (hs @ [last hs])"
  by (induction hs rule: pair_up.induct) auto

function roots_of :: "bytes list \<Rightarrow> bytes list" where
  "roots_of hs = (if hs = [] then [] else roots_of (pairs hs) @ (if odd (length hs) then [last hs] else []))"
  by pat_completeness auto
termination by (relation "measure length") (auto intro!: div_less_dividend)

declare roots_of.simps [simp del]

lemma roots_of_Nil [simp]: "roots_of [] = []"
  by (simp add: roots_of.simps)

lemma roots_of_even: "even (length hs) \<Longrightarrow> roots_of hs = roots_of (pairs hs)"
  by (subst roots_of.simps) simp

lemma roots_of_odd: "odd (length hs) \<Longrightarrow> roots_of hs = roots_of (pairs hs) @ [last hs]"
  by (subst roots_of.simps) auto

lemma add_loop_roots:
  "n < 2 ^ 64 \<Longrightarrow> h \<le> 64 \<Longrightarrow> length hs = n div 2 ^ h \<Longrightarrow>
   add_loop n h x (roots_of hs) = Inr (roots_of (hs @ [x]))"
proof (induction hs arbitrary: h x rule: roots_of.induct)
  case (1 hs)
  have b: "bit n h = odd (length hs)" by (simp add: bit_iff_odd 1(4))
  show ?case
  proof (cases "odd (length hs)")
    case False
    then have "roots_of (hs @ [x]) = roots_of hs @ [x]"
      by (simp add: roots_of_odd pairs_snoc_even roots_of_even)
    then show ?thesis using False b by (simp add: add_loop.simps)
  next
    case True
    then obtain ys l where hs: "hs = ys @ [l]" by (cases hs rule: rev_exhaust) auto
    then have ev: "even (length ys)" using True by simp
    have h: "h < 64"
    proof (rule ccontr)
      assume "\<not> h < 64"
      then have "h = 64" using 1(3) by simp
      then show False using 1(2,4) True by simp
    qed
    have r: "roots_of hs = roots_of (pairs hs) @ [l]" using roots_of_odd [OF True] by (simp add: hs)
    have "length (pairs hs) = n div 2 ^ (h + 1)" using 1(4) by (simp add: div_mult2_eq [symmetric] mult.commute)
    then have "add_loop n (h + 1) (HashMerkleBranches l x) (roots_of (pairs hs)) = Inr (roots_of (pairs hs @ [HashMerkleBranches l x]))"
      using 1(1) [of "h + 1" "HashMerkleBranches l x"] 1(2) h hs by simp
    moreover have "pairs (hs @ [x]) = pairs hs @ [HashMerkleBranches l x]"
      using ev by (simp add: hs pairs_snoc2 pairs_snoc_even)
    moreover have "roots_of (hs @ [x]) = roots_of (pairs (hs @ [x]))" using True by (intro roots_of_even) simp
    ultimately show ?thesis using b True h r by (simp add: add_loop.simps [of n h])
  qed
qed

text \<open>A store that holds the roots of a list of hashes.\<close>

definition store_of :: "bytes list \<Rightarrow> rollingMerkleTreeStore" where
  "store_of hs = \<lparr>rm_roots = roots_of hs, rm_numLeaves = length hs\<rparr>"

lemma store_add_of: "length hs + 1 < 2 ^ 64 \<Longrightarrow> store_add x (store_of hs) = Inr (store_of (hs @ [x]))"
  using add_loop_roots [of "length hs" 0 hs x] by (simp add: store_add_def store_of_def)

lemma store_adds_of: "length hs + length xs < 2 ^ 64 \<Longrightarrow> store_adds xs (store_of hs) = Inr (store_of (hs @ xs))"
  by (induction xs arbitrary: hs) (simp_all add: store_add_of)

text \<open>One root is left exactly when the pairs of every level are full.\<close>

lemma roots_of_ne: "hs \<noteq> [] \<Longrightarrow> roots_of hs \<noteq> []"
proof (induction hs rule: roots_of.induct)
  case (1 hs)
  show ?case
  proof (cases "odd (length hs)")
    case False
    then have "2 \<le> length hs" using 1(2) by (cases hs; cases "tl hs") auto
    then have "pairs hs \<noteq> []" by (simp add: pairs_Nil)
    then show ?thesis using 1 False by (simp add: roots_of_even)
  qed (simp add: roots_of_odd)
qed

lemma single_root: "hs \<noteq> [] \<Longrightarrow> length (roots_of hs) \<le> 1 \<Longrightarrow> roots_of hs = [merkle_root hs]"
proof (induction hs rule: roots_of.induct)
  case (1 hs)
  show ?case
  proof (cases "odd (length hs)")
    case True
    then have "roots_of (pairs hs) = []" using 1(3) by (simp add: roots_of_odd)
    then have "pairs hs = []" using roots_of_ne by blast
    then have "length hs < 2" by (simp add: pairs_Nil)
    then obtain a where "hs = [a]" using 1(2) by (cases hs; cases "tl hs") auto
    then show ?thesis by (simp add: roots_of_odd merkle_root.simps [of "[a]"])
  next
    case False
    then have l: "2 \<le> length hs" using 1(2) by (cases hs; cases "tl hs") auto
    then have ne: "pairs hs \<noteq> []" by (simp add: pairs_Nil)
    have "merkle_root hs = merkle_root (pairs hs)" using l False by (simp add: merkle_root.simps [of hs] pairs_even)
    then show ?thesis using 1 ne False roots_of_even [of hs] by simp
  qed
qed

text \<open>The inner loop finds the first odd level.\<close>

primrec nth_level :: "nat \<Rightarrow> bytes list \<Rightarrow> bytes list" where
  "nth_level 0 hs = hs"
| "nth_level (Suc k) hs = nth_level k (pairs hs)"

lemma level_even: "(\<And>j. j < k \<Longrightarrow> even (length hs div 2 ^ j)) \<Longrightarrow>
  roots_of (nth_level k hs) = roots_of hs \<and> length (nth_level k hs) = length hs div 2 ^ k \<and>
  (2 ^ k \<le> length hs \<longrightarrow> merkle_root (nth_level k hs) = merkle_root hs)"
proof (induction k arbitrary: hs)
  case (Suc k)
  have ev: "even (length hs)" using Suc.prems [of 0] by simp
  have "even (length (pairs hs) div 2 ^ j)" if "j < k" for j
    using Suc.prems [of "Suc j"] that by (simp add: div_mult2_eq [symmetric])
  note IH = Suc.IH [OF this]
  have "merkle_root (pairs hs) = merkle_root hs" if "2 ^ Suc k \<le> length hs"
  proof -
    have "(2::nat) \<le> 2 ^ Suc k" by simp
    then have "2 \<le> length hs" using that by linarith
    then show ?thesis using ev by (simp add: merkle_root.simps [of hs] pairs_even)
  qed
  then show ?case
    using IH roots_of_even [OF ev] by (auto simp: div_mult2_eq [symmetric])
qed simp

lemma shift_loop_finds:
  "bit n k \<Longrightarrow> (\<And>j. j < k \<Longrightarrow> \<not> bit n j) \<Longrightarrow> k < 256 \<Longrightarrow> h \<le> k \<Longrightarrow>
   shift_loop n h m = Some (m div 2 ^ (k - h))"
proof (induction "k - h" arbitrary: h m)
  case 0
  then show ?case by (simp add: shift_loop.simps)
next
  case (Suc d)
  then have h: "h < k" by simp
  then have "shift_loop n h m = shift_loop n (h + 1) (m div 2)"
    using Suc.prems by (subst shift_loop.simps) simp
  also have "\<dots> = Some (m div 2 div 2 ^ (k - (h + 1)))" using Suc by auto
  also have "m div 2 div 2 ^ (k - (h + 1)) = m div 2 ^ (k - h)"
    using h by (simp add: div_mult2_eq [symmetric] power_Suc [symmetric] Suc_diff_Suc del: power_Suc)
  finally show ?case .
qed

lemma lowest_bit:
  assumes "0 < (n::nat)"
  obtains k where "bit n k" "\<And>j. j < k \<Longrightarrow> \<not> bit n j" "2 ^ k \<le> n" "\<And>j. j < k \<Longrightarrow> even (n div 2 ^ j)"
proof -
  have "\<exists>k. bit n k"
  proof (rule ccontr)
    assume "\<nexists>k. bit n k"
    then have "n = 0" by (intro bit_eqI) simp
    then show False using assms by simp
  qed
  then obtain k where k: "bit n k" "\<And>j. j < k \<Longrightarrow> \<not> bit n j" using exists_least_iff [of "bit n"] by auto
  have "odd (n div 2 ^ k)" using k(1) by (simp add: bit_iff_odd)
  then have "2 ^ k \<le> n" by (metis div_less even_zero not_less)
  then show thesis using that k by (simp add: bit_iff_odd)
qed

lemma merkle_root_odd: "odd (length hs) \<Longrightarrow> 1 < length hs \<Longrightarrow> merkle_root (hs @ [last hs]) = merkle_root hs"
  using merkle_root.simps [of hs] merkle_root.simps [of "hs @ [last hs]"] pair_up_odd [of hs] pairs_even [of "hs @ [last hs]"]
  by auto

lemma roots_loop_root:
  "even (length hs) \<Longrightarrow> 0 < length hs \<Longrightarrow> length hs < 2 ^ 64 \<Longrightarrow>
   \<exists>hs'. roots_loop (store_of hs) = Some (Inr (store_of hs')) \<and> roots_of hs' = [merkle_root hs]"
proof (induction "length hs" arbitrary: hs rule: less_induct)
  case less
  show ?case
  proof (cases "length (roots_of hs) > 1")
    case False
    then have "roots_loop (store_of hs) = Some (Inr (store_of hs))" by (simp add: roots_loop.simps store_of_def)
    moreover have "hs \<noteq> []" using less.prems(2) by auto
    ultimately show ?thesis using single_root [of hs] False by auto
  next
    case True
    obtain k where k: "bit (length hs) k" "\<And>j. j < k \<Longrightarrow> \<not> bit (length hs) j" "2 ^ k \<le> length hs"
        "\<And>j. j < k \<Longrightarrow> even (length hs div 2 ^ j)"
      using lowest_bit [OF less.prems(2)] by blast
    define ls where "ls = nth_level k hs"
    have ls: "roots_of ls = roots_of hs" "length ls = length hs div 2 ^ k" "merkle_root ls = merkle_root hs"
      using level_even [OF k(4), of k] k(3) by (simp_all add: ls_def)
    have o: "odd (length ls)" using k(1) ls(2) by (simp add: bit_iff_odd)
    have k0: "0 < k" using less.prems(1) k(1) by (cases k) (simp_all add: bit_0)
    have "(2::nat) ^ k < 2 ^ 64" using k(3) less.prems(3) by linarith
    then have k64: "k < 64" by (simp only: power_strict_increasing_iff)
    have big: "2 < length ls"
    proof (rule ccontr)
      assume "\<not> 2 < length ls"
      then have "length ls = 1" using o by (cases "length ls") auto
      then obtain a where "ls = [a]" by (auto simp: length_Suc_conv)
      then have "length (roots_of ls) = 1" by (simp add: roots_of_odd)
      then show False using True ls(1) by simp
    qed
    have lt: "length ls + 1 < length hs"
    proof -
      have "length ls * 2 ^ k \<le> length hs" unfolding ls(2) by (simp add: div_times_less_eq_dividend)
      moreover have "length ls * 2 \<le> length ls * 2 ^ k" using k0 by (cases k) simp_all
      ultimately show ?thesis using big by linarith
    qed
    have "shift_loop (length hs) 0 (length hs) = Some (length ls)"
      using shift_loop_finds [OF k(1,2), of 0 "length hs"] k64 ls(2) by simp
    moreover have "(store_of hs)\<lparr>rm_numLeaves := length ls\<rparr> = store_of ls" by (simp add: store_of_def ls(1))
    moreover have "last (rm_roots (store_of hs)) = last ls" using ls(1) roots_of_odd [OF o] by (metis last_snoc rollingMerkleTreeStore.select_convs(1) store_of_def)
    ultimately have "roots_loop (store_of hs) = roots_loop (store_of (ls @ [last ls]))"
      using True lt less.prems(3) by (subst roots_loop.simps) (simp add: store_of_def [of hs] store_add_of)
    moreover have "merkle_root (ls @ [last ls]) = merkle_root hs" using merkle_root_odd [OF o] big ls(3) by simp
    ultimately show ?thesis
      using less.hyps [of "ls @ [last ls]"] lt o less.prems(3) by simp
  qed
qed

section \<open>The rolling store computes the root\<close>

definition leaves :: "bool \<Rightarrow> MsgTx list \<Rightarrow> bytes list" where
  "leaves witness txs = map (\<lambda>(i, tx). merkle_leaf witness i tx) (List.enumerate 0 txs)"

lemma length_leaves [simp]: "length (leaves witness txs) = length txs"
  by (simp add: leaves_def)

lemma leaves_Nil [simp]: "leaves witness txs = [] \<longleftrightarrow> txs = []"
  by (cases txs) (simp_all add: leaves_def)

lemma last_leaves: "1 < length txs \<Longrightarrow> last (leaves witness txs) = (if witness then WitnessHash (last txs) else TxHash (last txs))"
proof -
  assume l: "1 < length txs"
  then have "leaves witness txs \<noteq> []" "txs \<noteq> []" by (cases txs; simp add: leaves_def)+
  then have "last (leaves witness txs) = leaves witness txs ! (length txs - 1)" "txs \<noteq> []" by (simp_all add: last_conv_nth)
  then show ?thesis using l by (simp add: leaves_def nth_enumerate_eq merkle_leaf_def last_conv_nth)
qed

lemma CalcMerkleRoot_root:
  assumes "txs \<noteq> []" "length txs < 2 ^ 63"
  shows "CalcMerkleRoot txs witness = Some (Inr (merkle_root (leaves witness txs)))"
proof -
  let ?hs = "leaves witness txs"
  have new: "newRollingMerkleTreeStore = store_of []" by (simp add: newRollingMerkleTreeStore_def store_of_def)
  have a: "store_adds ?hs newRollingMerkleTreeStore = Inr (store_of ?hs)"
    using store_adds_of [of "[]" ?hs] assms(2) by (simp add: new)
  show ?thesis
  proof (cases "length txs = 1")
    case True
    then obtain h where "?hs = [h]" by (auto simp: length_Suc_conv leaves_def)
    then show ?thesis
      using a by (simp add: CalcMerkleRoot_def calcMerkleRoot_def leaves_def [symmetric] store_of_def first_root_def
          roots_of_odd merkle_root.simps)
  next
    case False
    then have two: "1 < length txs" using assms(1) by (cases txs; cases "tl txs") auto
    define hs where "hs = (if odd (length txs) then ?hs @ [last ?hs] else ?hs)"
    have "(if txs \<noteq> [] \<and> odd (length txs) then store_add (if witness then WitnessHash (last txs) else TxHash (last txs)) (store_of ?hs)
           else Inr (store_of ?hs)) = Inr (store_of hs)"
      using assms last_leaves [OF two, of witness] store_add_of [of ?hs "last ?hs"] by (simp add: hs_def)
    moreover have "\<exists>hs'. roots_loop (store_of hs) = Some (Inr (store_of hs')) \<and> roots_of hs' = [merkle_root hs]"
      using two assms(2) by (intro roots_loop_root) (auto simp: hs_def)
    moreover have "merkle_root hs = merkle_root ?hs" using merkle_root_odd [of ?hs] two by (simp add: hs_def)
    moreover have "rm_numLeaves (store_of ?hs) \<noteq> 1" using False by (simp add: store_of_def)
    ultimately show ?thesis
      using a by (auto simp: CalcMerkleRoot_def calcMerkleRoot_def leaves_def [symmetric] first_root_def) (simp add: store_of_def)
  qed
qed

section \<open>The array computes the root\<close>

lemma log2_floor_bounds: "0 < n \<Longrightarrow> 2 ^ log2_floor n \<le> n \<and> n < 2 ^ (log2_floor n + 1)"
proof (induction n rule: log2_floor.induct)
  case (1 n)
  show ?case
  proof (cases "n < 2")
    case True
    then show ?thesis using 1(2) by (simp add: log2_floor.simps)
  next
    case False
    then have "2 ^ log2_floor (n div 2) \<le> n div 2 \<and> n div 2 < 2 ^ (log2_floor (n div 2) + 1)" using 1(1) by simp
    then have "2 * 2 ^ log2_floor (n div 2) \<le> n \<and> n < 2 * 2 ^ (log2_floor (n div 2) + 1)" by linarith
    then show ?thesis using False by (simp add: log2_floor.simps [of n])
  qed
qed

lemma and_pred_power: "0 < n \<Longrightarrow> and n (n - 1) = (0::nat) \<Longrightarrow> \<exists>p. n = 2 ^ p"
proof (induction n rule: less_induct)
  case (less n)
  show ?case
  proof (cases "even n")
    case True
    then obtain m where m: "n = 2 * m" by blast
    have "(2 * m - 1) div 2 = m - 1" using less.prems(1) m by (cases m) auto
    then have "and n (n - 1) = 2 * and m (m - 1)"
      using less.prems(1) m by (subst and_rec) auto
    then obtain p where "m = 2 ^ p" using less.IH [of m] less.prems m by auto
    then show ?thesis using m by (metis power_Suc)
  next
    case False
    then obtain m where m: "n = 2 * m + 1" by (elim oddE)
    have "and n (n - 1) = 2 * m" using m by (subst and_rec) auto
    then show ?thesis using less.prems(2) m by (metis add_0 mult_0_right power_0 mult_eq_0_iff)
  qed
qed

lemma nextPowerOfTwo_spec:
  assumes "0 < n"
  obtains p where "nextPowerOfTwo n = 2 ^ p" "n \<le> 2 ^ p" "p = 0 \<or> 2 ^ (p - 1) < n"
proof (cases "and n (n - 1) = 0")
  case True
  then obtain p where p: "n = 2 ^ p" using and_pred_power [OF assms] by blast
  have "p = 0 \<or> (2::nat) ^ (p - 1) < 2 ^ p" by (cases p) simp_all
  then show ?thesis using that [of p] True p by (simp add: nextPowerOfTwo_def)
next
  case False
  note b = log2_floor_bounds [OF assms]
  have "n \<noteq> 2 ^ log2_floor n"
  proof
    assume n: "n = 2 ^ log2_floor n"
    have "and ((2::nat) ^ k) (2 ^ k - 1) = take_bit k (2 ^ k)" for k
      by (simp add: take_bit_eq_mask mask_eq_exp_minus_1)
    then have "and ((2::nat) ^ k) (2 ^ k - 1) = 0" for k by (simp add: take_bit_eq_mod)
    then show False using False n by metis
  qed
  then show ?thesis using that [of "log2_floor n + 1"] False b by (simp add: nextPowerOfTwo_def)
qed

primrec grow :: "nat \<Rightarrow> bytes option list \<Rightarrow> bytes option list" where
  "grow 0 xs = xs"
| "grow (Suc m) xs = (let g = grow m xs in g @ [merkle_parent (g ! (2 * m)) (g ! (2 * m + 1))])"

lemma length_grow [simp]: "length (grow m xs) = length xs + m"
  by (induction m) (simp_all add: Let_def)

lemma store_grow:
  "m < length xs \<Longrightarrow> m \<le> r \<Longrightarrow>
   foldl (\<lambda>merkles k. merkles[length xs + k := merkle_parent (merkles ! (2 * k)) (merkles ! (2 * k + 1))])
     (xs @ replicate r None) [0..<m] = grow m xs @ replicate (r - m) None"
proof (induction m)
  case (Suc m)
  have "replicate (r - m) None = (None :: bytes option) # replicate (r - Suc m) None"
    using Suc.prems by (metis Suc_diff_Suc Suc_le_lessD replicate_Suc)
  moreover have "2 * m + 1 < length xs + m" using Suc.prems by simp
  ultimately show ?case using Suc by (simp add: Let_def nth_append list_update_append)
qed simp

fun opairs :: "bytes option list \<Rightarrow> bytes option list" where
  "opairs (a # b # xs) = merkle_parent a b # opairs xs"
| "opairs _ = []"

lemma length_opairs [simp]: "length (opairs xs) = length xs div 2"
  by (induction xs rule: opairs.induct) auto

lemma nth_opairs: "2 * k + 1 < length xs \<Longrightarrow> opairs xs ! k = merkle_parent (xs ! (2 * k)) (xs ! (2 * k + 1))"
  by (induction xs arbitrary: k rule: opairs.induct) (auto simp: nth_Cons split: nat.splits)

lemma grow_level: "even (length xs) \<Longrightarrow> m \<le> length xs div 2 \<Longrightarrow> grow m xs = xs @ take m (opairs xs)"
proof (induction m)
  case (Suc m)
  then have "grow m xs = xs @ take m (opairs xs)" "2 * m + 1 < length xs" by simp_all
  moreover have "take (Suc m) (opairs xs) = take m (opairs xs) @ [opairs xs ! m]"
    using Suc.prems(2) by (intro take_Suc_conv_app_nth) simp
  ultimately show ?case by (simp add: Let_def nth_append nth_opairs)
qed simp

lemma grow_levels: "even (length xs) \<Longrightarrow> grow (length xs div 2 + m) xs = xs @ grow m (opairs xs)"
proof (induction m)
  case 0
  then show ?case using grow_level [of xs "length xs div 2"] by simp
next
  case (Suc m)
  have i: "2 * (length xs div 2 + m) = length xs + 2 * m" using Suc.prems by auto
  show ?case using Suc i by (simp add: Let_def nth_append)
qed

lemma last_grow: "length xs = 2 ^ p \<Longrightarrow> last (grow (2 ^ p - 1) xs) = last (grow 0 ((opairs ^^ p) xs))"
proof (induction p arbitrary: xs)
  case (Suc p)
  have e: "(2::nat) ^ Suc p - 1 = length xs div 2 + (2 ^ p - 1)" using Suc.prems by simp
  have "length (opairs xs) = 2 ^ p" using Suc.prems by simp
  then have "0 < length (opairs xs)" by simp
  then have "opairs xs \<noteq> []" by (rule length_greater_0_conv [THEN iffD1])
  moreover have "last (grow (2 ^ p - 1) (opairs xs)) = last (grow 0 ((opairs ^^ p) (opairs xs)))"
    using Suc.IH [of "opairs xs"] Suc.prems by simp
  moreover have "0 < length (grow (2 ^ p - 1) (opairs xs))"
    using \<open>0 < length (opairs xs)\<close> by (simp only: length_grow trans_less_add1)
  then have "grow (2 ^ p - 1) (opairs xs) \<noteq> []" by (rule length_greater_0_conv [THEN iffD1])
  moreover have "grow (2 ^ Suc p - 1) xs = xs @ grow (2 ^ p - 1) (opairs xs)"
    unfolding e by (rule grow_levels) (use Suc.prems in simp)
  ultimately show ?case by (simp only: last_append if_False funpow_Suc_right comp_apply grow.simps)
qed simp

lemma opairs_pad:
  "even (length hs + k) \<Longrightarrow> opairs (map Some hs @ replicate k None) = map Some (pair_up hs) @ replicate (k div 2) None"
proof (induction hs rule: pair_up.induct)
  case (2 a)
  then obtain j where k: "k = Suc j" "even j" by (cases k) auto
  have "opairs (replicate j None) = replicate (j div 2) None" if "even j" for j :: nat
    using that by (induction j rule: nat_induct2) (auto simp: merkle_parent_def)
  then show ?case using k by (simp add: merkle_parent_def)
next
  case 3
  have "even k \<Longrightarrow> opairs (replicate k None) = replicate (k div 2) None"
    by (induction k rule: nat_induct2) (auto simp: merkle_parent_def)
  then show ?case using 3 by simp
qed (simp add: merkle_parent_def)

lemma opairs_root:
  "length hs \<le> 2 ^ p \<Longrightarrow> hs \<noteq> [] \<Longrightarrow> p = 0 \<or> 2 ^ (p - 1) < length hs \<Longrightarrow>
   (opairs ^^ p) (map Some hs @ replicate (2 ^ p - length hs) None) = [Some (merkle_root hs)]"
proof (induction p arbitrary: hs)
  case 0
  then obtain h where "hs = [h]" by (cases hs; cases "tl hs") auto
  then show ?case by (simp add: merkle_root.simps)
next
  case (Suc p)
  let ?q = "pair_up hs"
  have two: "2 \<le> length hs" 
  proof -
    have "(1::nat) \<le> 2 ^ p" "2 ^ p < length hs" using Suc.prems(3) by simp_all
    then show ?thesis by linarith
  qed
  have "opairs (map Some hs @ replicate (2 ^ Suc p - length hs) None) = map Some ?q @ replicate ((2 ^ Suc p - length hs) div 2) None"
    using Suc.prems(1) by (intro opairs_pad) simp
  moreover have "(2 ^ Suc p - length hs) div 2 = 2 ^ p - length ?q" by simp
  moreover have "(opairs ^^ p) (map Some ?q @ replicate (2 ^ p - length ?q) None) = [Some (merkle_root ?q)]"
  proof (rule Suc.IH)
    show "length ?q \<le> 2 ^ p" using Suc.prems(1) by simp
    show "?q \<noteq> []" using two length_pair_up [of hs] by (metis list.size(3) Suc_1 div_greater_zero_iff le_SucI add.commute not_less_zero plus_1_eq_Suc zero_less_Suc)
    show "p = 0 \<or> 2 ^ (p - 1) < length ?q" using Suc.prems(3) by (cases p) auto
  qed
  moreover have "merkle_root hs = merkle_root ?q" using two by (simp add: merkle_root.simps [of hs])
  ultimately show ?case by (simp add: funpow_swap1)
qed

lemma BuildMerkleTreeStore_root:
  assumes "txs \<noteq> []"
  shows "last (BuildMerkleTreeStore txs witness) = Some (merkle_root (leaves witness txs))"
proof -
  let ?hs = "leaves witness txs"
  have "0 < length txs" using assms by simp
  then obtain p where p: "nextPowerOfTwo (length txs) = 2 ^ p" "length txs \<le> 2 ^ p" "p = 0 \<or> 2 ^ (p - 1) < length txs"
    using nextPowerOfTwo_spec by blast
  define xs where "xs = map Some ?hs @ replicate (2 ^ p - length txs) None"
  have len: "length xs = 2 ^ p" using p(2) by (simp add: xs_def)
  have m: "map (\<lambda>(i, tx). Some (merkle_leaf witness i tx)) (List.enumerate 0 txs) = map Some ?hs"
    by (simp add: leaves_def comp_def case_prod_beta)
  have "2 ^ p * 2 - 1 - length txs = (2 ^ p - length txs) + (2 ^ p - 1)" using p(2) by simp
  then have "map Some ?hs @ replicate (2 ^ p * 2 - 1 - length txs) None = xs @ replicate (2 ^ p - 1) None"
    by (simp only: xs_def replicate_add append_assoc)
  then have "BuildMerkleTreeStore txs witness = grow (2 ^ p - 1) xs"
    unfolding BuildMerkleTreeStore_def Let_def p(1) m
    using store_grow [of "2 ^ p - 1" xs "2 ^ p - 1"] len by simp
  also have "last \<dots> = last ((opairs ^^ p) xs)" using last_grow [OF len] by simp
  also have "(opairs ^^ p) xs = [Some (merkle_root ?hs)]"
    using opairs_root [of ?hs p] p(2,3) assms by (simp add: xs_def)
  finally show ?thesis by simp
qed

text \<open>
  C32. The two ways the code computes a merkle root agree, and both always end: the store that keeps
  one root for each set bit of the number of leaves, and the array of all nodes, whose last element is
  the root. Both give the root of pairing the hashes up level by level.
\<close>

theorem merkle_root_agree:
  assumes "txs \<noteq> []" "length txs < 2 ^ 63"
  shows "CalcMerkleRoot txs witness = Some (Inr (merkle_root (leaves witness txs))) \<and>
    last (BuildMerkleTreeStore txs witness) = Some (merkle_root (leaves witness txs))"
  using CalcMerkleRoot_root [OF assms] BuildMerkleTreeStore_root [OF assms(1)] by simp

theorem merkle_root_agree_witness:
  "CalcMerkleRoot [sample_coinbase, sample_spend, sample_spend] False =
   Some (Inr (HashMerkleBranches (HashMerkleBranches (TxHash sample_coinbase) (TxHash sample_spend))
     (HashMerkleBranches (TxHash sample_spend) (TxHash sample_spend))))"
  using merkle_root_agree [of "[sample_coinbase, sample_spend, sample_spend]" False]
  by (simp add: leaves_def merkle_leaf_def merkle_root.simps)
end
