(* ===== verification/Threshold.thy ===== *)
theory Threshold
  imports Difficulty
begin

text \<open>
  Voting on rule changes (BIP 9): \<^verbatim>\<open>blockchain/thresholdstate.go\<close>,
  \<^verbatim>\<open>blockchain/versionbits.go\<close> and \<^verbatim>\<open>chaincfg/deployment_time_frame.go\<close>. The interface
  that the state machine asks is a record of functions. A cache is a map from the hash of the last
  block of a window to the state of the next one; it is threaded through the calls. The loop over
  the windows is a partial function: \<open>None\<close> is a loop that does not end. The zero time of a
  deployment is \<open>None\<close>.

  The lemmas show that the cached computation gives what running the state machine over all windows
  gives, that the caches stay sound, and that an active rule stays active as long as the median time
  does not go back.
\<close>

unbundle bit_operations_syntax

section \<open>States and checkers\<close>

datatype ThresholdState =
  ThresholdDefined | ThresholdStarted | ThresholdLockedIn | ThresholdActive | ThresholdFailed

record thresholdConditionChecker =
  HasStarted :: "blockNode \<Rightarrow> bool"
  HasEnded :: "blockNode \<Rightarrow> bool"
  ActivationThreshold :: int
  ConfirmationWindow :: int
  EligibleToActivate :: "blockNode \<Rightarrow> bool"
  IsSpeedy :: bool
  Condition :: "blockNode \<Rightarrow> bool"
  ForceActive :: "blockNode option \<Rightarrow> bool"

type_synonym thresholdStateCache = "bytes \<rightharpoonup> ThresholdState"

section \<open>Deployments\<close>

record ConsensusDeployment =
  BitNumber :: nat
  MinActivationHeight :: int
  CustomActivationThreshold :: int
  AlwaysActiveHeight :: int
  DeploymentStart :: "int option"
  DeploymentEnd :: "int option"

definition vbTopBits :: int where "vbTopBits = 0x20000000"

definition vbTopMask :: int where "vbTopMask = 0xe0000000"

definition EffectiveAlwaysActiveHeight :: "ConsensusDeployment \<Rightarrow> int" where
  "EffectiveAlwaysActiveHeight d = (if AlwaysActiveHeight d = 0 then 2 ^ 32 - 1 else AlwaysActiveHeight d)"

definition PastMedianTime :: "(bytes \<rightharpoonup> blockNode) \<Rightarrow> BlockHeader \<Rightarrow> int result" where
  "PastMedianTime index blockHeader =
     (case index (bh_PrevBlock blockHeader) of
        None \<Rightarrow> Inl PlainError
      | Some prevNode \<Rightarrow> Inr (CalcPastMedianTime (newBlockNode blockHeader (Some prevNode))))"

definition starter_HasStarted :: "(bytes \<rightharpoonup> blockNode) \<Rightarrow> int option \<Rightarrow> BlockHeader \<Rightarrow> bool result" where
  "starter_HasStarted index startTime blkHeader =
     (case startTime of
        None \<Rightarrow> Inr True
      | Some t \<Rightarrow> rbind (PastMedianTime index blkHeader) (\<lambda>medianTime. Inr (medianTime > t \<or> medianTime = t)))"

definition ender_HasEnded :: "(bytes \<rightharpoonup> blockNode) \<Rightarrow> int option \<Rightarrow> BlockHeader \<Rightarrow> bool result" where
  "ender_HasEnded index endTime blkHeader =
     (case endTime of
        None \<Rightarrow> Inr False
      | Some t \<Rightarrow> rbind (PastMedianTime index blkHeader) (\<lambda>medianTime. Inr (medianTime > t \<or> medianTime = t)))"

definition bit_Condition :: "nat \<Rightarrow> blockNode \<Rightarrow> bool" where
  "bit_Condition n node =
     (let conditionMask = u32 (push_bit n 1); version = u32 (bn_version node) in
      version AND vbTopMask = vbTopBits \<and> version AND conditionMask \<noteq> 0)"

definition deploymentChecker :: "(bytes \<rightharpoonup> blockNode) \<Rightarrow> Params \<Rightarrow> ConsensusDeployment \<Rightarrow> thresholdConditionChecker" where
  "deploymentChecker index params d =
     \<lparr>HasStarted = (\<lambda>blkNode. case starter_HasStarted index (DeploymentStart d) (Header blkNode) of Inr b \<Rightarrow> b | Inl _ \<Rightarrow> False),
      HasEnded = (\<lambda>blkNode. case ender_HasEnded index (DeploymentEnd d) (Header blkNode) of Inr b \<Rightarrow> b | Inl _ \<Rightarrow> False),
      ActivationThreshold =
        (if CustomActivationThreshold d \<noteq> 0 then CustomActivationThreshold d else RuleChangeActivationThreshold params),
      ConfirmationWindow = MinerConfirmationWindow params,
      EligibleToActivate =
        (\<lambda>blkNode. if MinActivationHeight d = 0 then True
           else u32 (u32 (bn_height blkNode) + 1) \<ge> MinActivationHeight d),
      IsSpeedy = (MinActivationHeight d \<noteq> 0 \<or> CustomActivationThreshold d \<noteq> 0),
      Condition = bit_Condition (BitNumber d),
      ForceActive =
        (\<lambda>node. case node of None \<Rightarrow> False
           | Some node \<Rightarrow> u32 (u32 (bn_height node) + 1) \<ge> EffectiveAlwaysActiveHeight d)\<rparr>"

section \<open>The state machine\<close>

primrec count_votes :: "thresholdConditionChecker \<Rightarrow> nat \<Rightarrow> int \<Rightarrow> blockNode option \<Rightarrow> int result" where
  "count_votes checker 0 n countNode = Inr n"
| "count_votes checker (Suc i) n countNode =
     (case countNode of
        None \<Rightarrow> Inl Panic
      | Some node \<Rightarrow>
          count_votes checker i (if Condition checker node then u32 (n + 1) else n) (bn_parent node))"

definition thresholdStateTransition ::
  "ThresholdState \<Rightarrow> blockNode \<Rightarrow> thresholdConditionChecker \<Rightarrow> int \<Rightarrow> ThresholdState result" where
  "thresholdStateTransition state prevNode checker confirmationWindow =
     (case state of
        ThresholdDefined \<Rightarrow>
          Inr (if \<not> IsSpeedy checker \<and> HasEnded checker prevNode then ThresholdFailed
               else if HasStarted checker prevNode then ThresholdStarted else ThresholdDefined)
      | ThresholdStarted \<Rightarrow>
          if \<not> IsSpeedy checker \<and> HasEnded checker prevNode then Inr ThresholdFailed
          else
            rbind (count_votes checker (nat confirmationWindow) 0 (Some prevNode)) (\<lambda>n.
            Inr (if n \<ge> ActivationThreshold checker then ThresholdLockedIn
                 else if IsSpeedy checker \<and> HasEnded checker prevNode then ThresholdFailed
                 else ThresholdStarted))
      | ThresholdLockedIn \<Rightarrow>
          Inr (if \<not> EligibleToActivate checker prevNode then ThresholdLockedIn else ThresholdActive)
      | ThresholdActive \<Rightarrow> Inr ThresholdActive
      | ThresholdFailed \<Rightarrow> Inr ThresholdFailed)"

text \<open>The windows whose state is not known, the newest first, and where the search stopped.\<close>

partial_function (option) needed_loop ::
  "thresholdConditionChecker \<Rightarrow> int \<Rightarrow> thresholdStateCache \<Rightarrow> blockNode list \<Rightarrow> blockNode option \<Rightarrow>
   (blockNode list \<times> blockNode option \<times> thresholdStateCache) option" where
  "needed_loop checker confirmationWindow cache neededStates prevNode =
     (case prevNode of
        None \<Rightarrow> Some (neededStates, None, cache)
      | Some node \<Rightarrow>
          if cache (bn_hash node) \<noteq> None then Some (neededStates, Some node, cache)
          else if \<not> HasStarted checker node
          then Some (neededStates, Some node, cache(bn_hash node \<mapsto> ThresholdDefined))
          else needed_loop checker confirmationWindow cache (neededStates @ [node])
                 (RelativeAncestor node confirmationWindow))"

primrec transition_loop ::
  "thresholdConditionChecker \<Rightarrow> int \<Rightarrow> blockNode list \<Rightarrow> ThresholdState \<times> thresholdStateCache \<Rightarrow>
   ThresholdState result \<times> thresholdStateCache" where
  "transition_loop checker confirmationWindow [] sc = (Inr (fst sc), snd sc)"
| "transition_loop checker confirmationWindow (prevNode # rest) sc =
     (case thresholdStateTransition (fst sc) prevNode checker confirmationWindow of
        Inl e \<Rightarrow> (Inl e, snd sc)
      | Inr state \<Rightarrow>
          transition_loop checker confirmationWindow rest (state, (snd sc)(bn_hash prevNode \<mapsto> state)))"

definition thresholdState ::
  "blockNode option \<Rightarrow> thresholdConditionChecker \<Rightarrow> thresholdStateCache \<Rightarrow>
   (ThresholdState result \<times> thresholdStateCache) option" where
  "thresholdState prevNode checker cache =
     (if ForceActive checker prevNode then Some (Inr ThresholdActive, cache)
      else
        let confirmationWindow = i32 (ConfirmationWindow checker) in
        case prevNode of
          None \<Rightarrow> Some (Inr ThresholdDefined, cache)
        | Some node \<Rightarrow>
            if i32 (bn_height node + 1) < confirmationWindow then Some (Inr ThresholdDefined, cache)
            else if confirmationWindow = 0 then Some (Inl Panic, cache)
            else
              Option.bind (needed_loop checker confirmationWindow cache []
                  (Ancestor node (i32 (bn_height node - i32 (bn_height node + 1) smod confirmationWindow))))
                (\<lambda>(neededStates, stop, cache).
                  case (case stop of None \<Rightarrow> Some ThresholdDefined | Some node \<Rightarrow> cache (bn_hash node)) of
                    None \<Rightarrow> Some (Inl AssertError, cache)
                  | Some state \<Rightarrow> Some (transition_loop checker confirmationWindow (rev neededStates) (state, cache))))"

section \<open>States of deployments\<close>

definition DeploymentCSV :: nat where "DeploymentCSV = 2"
definition DeploymentSegwit :: nat where "DeploymentSegwit = 3"
definition DeploymentTaproot :: nat where "DeploymentTaproot = 4"

text \<open>The deployments of the parameters and their caches are lists of one length. The guard of the
  code lets the number of deployments itself pass, where the array access panics.\<close>

definition deploymentState ::
  "(bytes \<rightharpoonup> blockNode) \<Rightarrow> Params \<Rightarrow> ConsensusDeployment list \<Rightarrow> blockNode option \<Rightarrow> nat \<Rightarrow>
   thresholdStateCache list \<Rightarrow> (ThresholdState result \<times> thresholdStateCache list) option" where
  "deploymentState index params deployments prevNode deploymentID caches =
     (if deploymentID > length deployments then Some (Inl PlainError, caches)
      else if deploymentID = length deployments then Some (Inl Panic, caches)
      else
        map_option (\<lambda>(r, cache). (r, caches[deploymentID := cache]))
          (thresholdState prevNode (deploymentChecker index params (deployments ! deploymentID)) (caches ! deploymentID)))"

definition newThresholdCaches :: "nat \<Rightarrow> thresholdStateCache list" where
  "newThresholdCaches numCaches = replicate numCaches Map.empty"

definition IsDeploymentActive ::
  "(bytes \<rightharpoonup> blockNode) \<Rightarrow> Params \<Rightarrow> ConsensusDeployment list \<Rightarrow> blockNode option \<Rightarrow> nat \<Rightarrow>
   thresholdStateCache list \<Rightarrow> (bool result \<times> thresholdStateCache list) option" where
  "IsDeploymentActive index params deployments tip deploymentID caches =
     map_option (\<lambda>(r, caches). (rbind r (\<lambda>state. Inr (state = ThresholdActive)), caches))
       (deploymentState index params deployments tip deploymentID caches)"

fun version_loop ::
  "(bytes \<rightharpoonup> blockNode) \<Rightarrow> Params \<Rightarrow> ConsensusDeployment list \<Rightarrow> blockNode option \<Rightarrow> nat list \<Rightarrow> int \<Rightarrow>
   thresholdStateCache list \<Rightarrow> (int result \<times> thresholdStateCache list) option" where
  "version_loop index params deployments prevNode [] expectedVersion caches = Some (Inr expectedVersion, caches)"
| "version_loop index params deployments prevNode (k # ks) expectedVersion caches =
     Option.bind (thresholdState prevNode (deploymentChecker index params (deployments ! k)) (caches ! k))
       (\<lambda>(r, cache).
         case r of
           Inl e \<Rightarrow> Some (Inl e, caches[k := cache])
         | Inr state \<Rightarrow>
             version_loop index params deployments prevNode ks
               (if state = ThresholdStarted \<or> state = ThresholdLockedIn
                then expectedVersion OR u32 (push_bit (BitNumber (deployments ! k)) 1) else expectedVersion)
               (caches[k := cache]))"

definition calcNextBlockVersion ::
  "(bytes \<rightharpoonup> blockNode) \<Rightarrow> Params \<Rightarrow> ConsensusDeployment list \<Rightarrow> blockNode option \<Rightarrow> thresholdStateCache list \<Rightarrow>
   (int result \<times> thresholdStateCache list) option" where
  "calcNextBlockVersion index params deployments prevNode caches =
     map_option (\<lambda>(r, caches). (rbind r (\<lambda>v. Inr (i32 v)), caches))
       (version_loop index params deployments prevNode [0..<length deployments] vbTopBits caches)"

section \<open>The windows one after the other\<close>

text \<open>The reference: the state after the window that ends with a node, computed from the state
  after the window before it.\<close>

lemma walk_size: "walk k n = Some a \<Longrightarrow> k \<noteq> bn_height n \<Longrightarrow> size a < size n"
proof (induction k n rule: walk.induct)
  case (1 k n)
  then obtain p where p: "bn_parent n = Some p" "walk k p = Some a"
    by (auto simp: walk.simps [of k n] split: option.splits)
  have "size a \<le> size p" using 1(1) [OF _ p(1) p(2)] 1(3) p(2) by (cases "k = bn_height p") auto
  then show ?case using size_parent [OF p(1)] by simp
qed

function window_state :: "thresholdConditionChecker \<Rightarrow> int \<Rightarrow> blockNode \<Rightarrow> ThresholdState result" where
  "window_state checker w n =
     (if \<not> HasStarted checker n then Inr ThresholdDefined
      else
        rbind (if w \<le> 0 \<or> bn_height n < w then Inr ThresholdDefined
               else case walk (bn_height n - w) n of
                      None \<Rightarrow> Inr ThresholdDefined
                    | Some m \<Rightarrow> window_state checker w m)
          (\<lambda>state. thresholdStateTransition state n checker w))"
  by pat_completeness auto
termination by (relation "measure (\<lambda>(_, _, n). size n)") (auto dest!: walk_size)

declare window_state.simps [simp del]

definition next_state :: "thresholdConditionChecker \<Rightarrow> blockNode \<Rightarrow> ThresholdState result" where
  "next_state checker n =
     (let w = ConfirmationWindow checker in
      if ForceActive checker (Some n) then Inr ThresholdActive
      else if bn_height n + 1 < w then Inr ThresholdDefined
      else case walk (bn_height n - (bn_height n + 1) mod w) n of
             None \<Rightarrow> Inl Panic
           | Some m \<Rightarrow> window_state checker w m)"

text \<open>A set of nodes such as the block index holds, and caches that agree with it.\<close>

definition tree_ok :: "blockNode set \<Rightarrow> bool" where
  "tree_ok S = ((\<forall>n \<in> S. node_ok n \<and> (\<forall>p. bn_parent n = Some p \<longrightarrow> p \<in> S)) \<and> inj_on bn_hash S)"

definition cache_sound :: "blockNode set \<Rightarrow> thresholdConditionChecker \<Rightarrow> thresholdStateCache \<Rightarrow> bool" where
  "cache_sound S checker cache =
     (\<forall>n \<in> S. \<forall>s. cache (bn_hash n) = Some s \<longrightarrow> window_state checker (ConfirmationWindow checker) n = Inr s)"

lemma tree_ok_walk: "tree_ok S \<Longrightarrow> n \<in> S \<Longrightarrow> walk k n = Some a \<Longrightarrow> a \<in> S"
proof (induction k n rule: walk.induct)
  case (1 k n)
  show ?case
  proof (cases "bn_height n = k")
    case True
    then show ?thesis using 1 by (simp add: walk.simps [of k n])
  next
    case False
    then obtain p where p: "bn_parent n = Some p" "walk k p = Some a"
      using 1(4) by (auto simp: walk.simps [of k n] split: option.splits)
    then show ?thesis using 1(1) [OF False p(1) 1(2) _ p(2)] 1(2,3) by (auto simp: tree_ok_def)
  qed
qed

lemma cache_sound_update:
  assumes "tree_ok S" "cache_sound S ck cache" "n \<in> S" "window_state ck (ConfirmationWindow ck) n = Inr s"
  shows "cache_sound S ck (cache(bn_hash n \<mapsto> s))"
  using assms by (auto simp: cache_sound_def tree_ok_def dest: inj_onD)

lemma count_votes_total:
  "node_ok n \<Longrightarrow> int i \<le> bn_height n + 1 \<Longrightarrow> \<exists>v. count_votes ck i v0 (Some n) = Inr v"
proof (induction i arbitrary: n v0)
  case (Suc i)
  show ?case
  proof (cases "bn_parent n")
    case None
    then have "i = 0" using node_ok_root [OF Suc.prems(1)] Suc.prems(2) by simp
    then show ?thesis by simp
  next
    case (Some p)
    then show ?thesis using Suc.IH [of p] node_ok_parent [OF Suc.prems(1) Some] Suc.prems(2) by simp
  qed
qed simp

lemma transition_total:
  assumes "node_ok n" "w \<le> bn_height n + 1"
  shows "\<exists>s'. thresholdStateTransition s n ck w = Inr s'"
proof -
  have "int (nat w) \<le> bn_height n + 1" using assms node_ok_height [OF assms(1)] by simp
  then show ?thesis
    using count_votes_total [OF assms(1), of "nat w" ck 0] by (auto simp: thresholdStateTransition_def split: ThresholdState.splits)
qed

lemma window_state_total:
  "node_ok n \<Longrightarrow> w \<le> bn_height n + 1 \<Longrightarrow> (bn_height n + 1) mod w = 0 \<Longrightarrow> 0 < w \<Longrightarrow> \<exists>s. window_state ck w n = Inr s"
proof (induction "size n" arbitrary: n rule: less_induct)
  case less
  note t = transition_total [OF less.prems(1,2)]
  show ?case
  proof (cases "bn_height n < w")
    case True
    then show ?thesis using t by (subst window_state.simps) simp
  next
    case False
    then obtain m where m: "walk (bn_height n - w) n = Some m" "node_ok m" "bn_height m = bn_height n - w"
      using walk_ok [OF less.prems(1), of "bn_height n - w"] less.prems(4) by auto
    have e: "(bn_height m + 1) mod w = 0" using less.prems(3) m(3)
      by (metis add_diff_eq diff_add_eq minus_mod_self2)
    moreover have "w \<le> bn_height m + 1"
    proof -
      have "0 < bn_height m + 1" using node_ok_height [OF m(2)] by simp
      then show ?thesis using e zdvd_imp_le [of w "bn_height m + 1"] by (simp add: mod_eq_0_iff_dvd)
    qed
    moreover have "size m < size n" using walk_size [OF m(1)] less.prems(4) by simp
    ultimately obtain s where "window_state ck w m = Inr s" using less.hyps [of m] m(2) less.prems(4) by auto
    then show ?thesis using t m(1) False less.prems(4) by (subst window_state.simps) simp
  qed
qed

section \<open>The cached computation\<close>

lemma transition_loop_append:
  "transition_loop ck w (xs @ ys) sc =
     (case transition_loop ck w xs sc of (Inl e, c) \<Rightarrow> (Inl e, c) | (Inr s, c) \<Rightarrow> transition_loop ck w ys (s, c))"
  by (induction xs arbitrary: sc) (auto split: sum.splits)

definition stop_state :: "blockNode option \<Rightarrow> thresholdStateCache \<Rightarrow> ThresholdState option" where
  "stop_state stop cache = (case stop of None \<Rightarrow> Some ThresholdDefined | Some node \<Rightarrow> cache (bn_hash node))"

lemma needed_loop_windows:
  assumes S: "tree_ok S" and w: "w = ConfirmationWindow ck" "0 < w" "w < 2 ^ 31"
  shows "n \<in> S \<Longrightarrow> cache_sound S ck cache \<Longrightarrow>
    \<exists>L stop c s c'. needed_loop ck w cache acc (Some n) = Some (acc @ L, stop, c) \<and> stop_state stop c = Some s \<and>
      cache_sound S ck c \<and> transition_loop ck w (rev L) (s, c) = (window_state ck w n, c') \<and> cache_sound S ck c'"
proof (induction "size n" arbitrary: n acc rule: less_induct)
  case less
  have n: "node_ok n" using S less.prems by (simp add: tree_ok_def)
  have h: "0 \<le> bn_height n" "bn_height n < 2 ^ 31" using node_ok_height [OF n] by auto
  have anc: "RelativeAncestor n w = (if bn_height n < w then None else walk (bn_height n - w) n)"
  proof -
    have "i32 (bn_height n - w) = bn_height n - w" using h w(2,3) by (intro i32_id) auto
    then show ?thesis using w(2) by (simp add: RelativeAncestor_def Ancestor_walk [OF n])
  qed
  consider s where "cache (bn_hash n) = Some s" | "cache (bn_hash n) = None" "\<not> HasStarted ck n"
    | "cache (bn_hash n) = None" "HasStarted ck n" by (cases "cache (bn_hash n)") auto
  then show ?case
  proof cases
    case (1 s)
    then have "window_state ck w n = Inr s" using less.prems w(1) by (auto simp: cache_sound_def)
    then show ?thesis using 1 less.prems by (subst needed_loop.simps) (auto simp: stop_state_def)
  next
    case 2
    then have d: "window_state ck w n = Inr ThresholdDefined" by (subst window_state.simps) simp
    then show ?thesis using 2 cache_sound_update [OF S less.prems(2,1)] w(1)
      by (subst needed_loop.simps) (auto simp: stop_state_def)
  next
    case 3
    show ?thesis
    proof (cases "bn_height n < w")
      case True
      have state: "window_state ck w n = thresholdStateTransition ThresholdDefined n ck w"
        using 3 True by (subst window_state.simps) simp
      have "needed_loop ck w cache acc (Some n) = Some (acc @ [n], None, cache)"
        using 3 True anc needed_loop.simps [of ck w cache "acc @ [n]" None] by (subst needed_loop.simps) simp
      moreover have "\<exists>c'. transition_loop ck w (rev [n]) (ThresholdDefined, cache) = (window_state ck w n, c') \<and> cache_sound S ck c'"
      proof (cases "window_state ck w n")
        case (Inl e)
        then show ?thesis using state less.prems(2) by simp
      next
        case (Inr r)
        then have "thresholdStateTransition ThresholdDefined n ck w = Inr r" using state by simp
        moreover have "cache_sound S ck (cache(bn_hash n \<mapsto> r))" using cache_sound_update [OF S less.prems(2,1)] Inr w(1) by simp
        ultimately show ?thesis using Inr by simp
      qed
      moreover have "stop_state None cache = Some ThresholdDefined" by (simp add: stop_state_def)
      ultimately show ?thesis using less.prems(2) by blast
    next
      case False
      then obtain m where m: "walk (bn_height n - w) n = Some m" using walk_ok [OF n, of "bn_height n - w"] w(2) by auto
      have "size m < size n" "m \<in> S" using walk_size [OF m] w(2) tree_ok_walk [OF S less.prems(1) m] by simp_all
      from less.hyps [OF this less.prems(2), of "acc @ [n]"] obtain L stop c s c' where
        IH: "needed_loop ck w cache (acc @ [n]) (Some m) = Some ((acc @ [n]) @ L, stop, c)" "stop_state stop c = Some s"
          "cache_sound S ck c" "transition_loop ck w (rev L) (s, c) = (window_state ck w m, c')" "cache_sound S ck c'"
        by blast
      have go: "needed_loop ck w cache acc (Some n) = Some (acc @ (n # L), stop, c)"
        using 3 False anc m IH(1) by (subst needed_loop.simps) simp
      have state: "window_state ck w n = rbind (window_state ck w m) (\<lambda>s. thresholdStateTransition s n ck w)"
        using 3 False m w(2) by (subst window_state.simps) simp
      have "\<exists>c2. transition_loop ck w (rev (n # L)) (s, c) = (window_state ck w n, c2) \<and> cache_sound S ck c2"
      proof (cases "window_state ck w n")
        case (Inl e)
        then show ?thesis using state IH(4,5)
          by (auto simp: transition_loop_append rbind_def split: sum.splits)
      next
        case (Inr r)
        then obtain s' where s': "window_state ck w m = Inr s'" "thresholdStateTransition s' n ck w = Inr r"
          using state by (auto simp: rbind_eq_Inr)
        moreover have "cache_sound S ck (c'(bn_hash n \<mapsto> r))" using cache_sound_update [OF S IH(5) less.prems(1)] Inr w(1) by simp
        ultimately show ?thesis using IH(4) Inr by (simp add: transition_loop_append)
      qed
      then show ?thesis using go IH(2,3) by blast
    qed
  qed
qed


text \<open>The last block of the window before the next block.\<close>

lemma window_end:
  fixes h w :: int
  assumes "0 \<le> h" "0 < w" "w \<le> h + 1"
  shows "0 \<le> h - (h + 1) mod w" "h - (h + 1) mod w \<le> h" "w \<le> h - (h + 1) mod w + 1" "(h - (h + 1) mod w + 1) mod w = 0"
    "h - (h + 1) mod w = w * ((h + 1) div w) - 1"
proof -
  have e: "h + 1 = w * ((h + 1) div w) + (h + 1) mod w" by (simp only: mult_div_mod_eq)
  show q: "h - (h + 1) mod w = w * ((h + 1) div w) - 1" using e by linarith
  have "1 \<le> (h + 1) div w" using zdiv_mono1 [of w "h + 1" w] assms by simp
  then have "w * 1 \<le> w * ((h + 1) div w)" using assms(2) by (intro mult_left_mono) auto
  then show "w \<le> h - (h + 1) mod w + 1" "0 \<le> h - (h + 1) mod w" using q assms(2) by linarith+
  show "h - (h + 1) mod w \<le> h" using pos_mod_sign [OF assms(2)] by simp
  show "(h - (h + 1) mod w + 1) mod w = 0" unfolding q by simp
qed

lemma thresholdState_next:
  assumes S: "tree_ok S" "n \<in> S" "cache_sound S ck cache"
    and w: "0 < ConfirmationWindow ck" "ConfirmationWindow ck < 2 ^ 31" and h: "bn_height n + 1 < 2 ^ 31"
  shows "\<exists>st c. thresholdState (Some n) ck cache = Some (Inr st, c) \<and> next_state ck n = Inr st \<and> cache_sound S ck c"
proof -
  define w where "w = ConfirmationWindow ck"
  have n: "node_ok n" using S by (simp add: tree_ok_def)
  have h0: "0 \<le> bn_height n" using node_ok_height [OF n] by simp
  have i: "i32 w = w" "i32 (bn_height n + 1) = bn_height n + 1" using h h0 w by (auto simp: w_def intro!: i32_id)
  consider "ForceActive ck (Some n)" | "\<not> ForceActive ck (Some n)" "bn_height n + 1 < w"
    | "\<not> ForceActive ck (Some n)" "w \<le> bn_height n + 1" by linarith
  then show ?thesis
  proof cases
    case 3
    define e where "e = bn_height n - (bn_height n + 1) mod w"
    note E = window_end [OF h0 _ 3(2), folded e_def]
    have w0: "0 < w" using assms by (simp add: w_def)
    obtain m where m: "walk e n = Some m" "node_ok m" "bn_height m = e" using walk_ok [OF n] E(1,2) [OF w0] by blast
    have sm: "(bn_height n + 1) smod w = (bn_height n + 1) mod w" using w0 h0 by (simp add: smod_nonneg)
    have "i32 e = e" using E(1,2) [OF w0] h by (intro i32_id) auto
    then have a: "Ancestor n (i32 (bn_height n - i32 (bn_height n + 1) smod w)) = Some m"
      using E(1,2) [OF w0] m(1) by (simp add: i sm e_def [symmetric] Ancestor_walk [OF n])
    have mS: "m \<in> S" using tree_ok_walk [OF S(1,2) m(1)] .
    obtain s where s: "window_state ck w m = Inr s" using window_state_total [OF m(2)] E(3,4) [OF w0] m(3) w0 by metis
    obtain L stop c s0 c' where
      L: "needed_loop ck w cache [] (Some m) = Some ([] @ L, stop, c)" "stop_state stop c = Some s0"
        "transition_loop ck w (rev L) (s0, c) = (window_state ck w m, c')" "cache_sound S ck c'"
      using needed_loop_windows [OF S(1) w_def w0 _ mS S(3), of "[]"] assms(5) by (auto simp: w_def)
    have "thresholdState (Some n) ck cache = Some (Inr s, c')"
      using 3 w0 a L(1,3) s L(2) [unfolded stop_state_def]
      unfolding thresholdState_def Let_def w_def [symmetric] by (simp add: i)
    moreover have "next_state ck n = Inr s" using 3 m(1) s by (simp add: next_state_def Let_def w_def [symmetric] e_def)
    ultimately show ?thesis using L(4) by blast
  next
    case 2
    then show ?thesis using S(3) i by (simp add: thresholdState_def next_state_def Let_def w_def [symmetric])
  qed (use S(3) in \<open>simp add: thresholdState_def next_state_def\<close>)
qed


section \<open>An active rule stays active\<close>

text \<open>Every block of the chain is later than the median time before it, as the rules for headers
  demand.\<close>

function times_ok :: "blockNode \<Rightarrow> bool" where
  "times_ok n =
     (case bn_parent n of None \<Rightarrow> True | Some p \<Rightarrow> CalcPastMedianTime p < bn_timestamp n \<and> times_ok p)"
  by pat_completeness auto
termination by (relation "measure size") (auto dest: size_parent)

declare times_ok.simps [simp del]

lemma times_ok_parent: "times_ok n \<Longrightarrow> bn_parent n = Some p \<Longrightarrow> CalcPastMedianTime p < bn_timestamp n \<and> times_ok p"
  using times_ok.simps [of n] by simp

definition index_ok :: "(bytes \<rightharpoonup> blockNode) \<Rightarrow> blockNode set \<Rightarrow> bool" where
  "index_ok index S = (tree_ok S \<and> (\<forall>n \<in> S. index (bn_hash n) = Some n) \<and> index (replicate 32 0) = None)"

lemma header_median:
  "bn_parent n = Some p \<Longrightarrow> CalcPastMedianTime (newBlockNode (Header n) (Some p)) = CalcPastMedianTime n"
proof -
  assume "bn_parent n = Some p"
  then have "past_timestamps (Suc 10) (Some (newBlockNode (Header n) (Some p))) = past_timestamps (Suc 10) (Some n)"
    by (simp only: past_timestamps.simps option.case) (simp add: newBlockNode_def Let_def Header_def)
  moreover have "medianTimeBlocks = Suc 10" by (simp add: medianTimeBlocks_def)
  ultimately show ?thesis by (simp only: CalcPastMedianTime_def)
qed

lemma started_iff:
  assumes "index_ok index S" "n \<in> S"
  shows "HasStarted (deploymentChecker index params d) n =
    (case DeploymentStart d of None \<Rightarrow> True | Some t \<Rightarrow> bn_parent n \<noteq> None \<and> t \<le> CalcPastMedianTime n)"
proof (cases "bn_parent n")
  case None
  then show ?thesis using assms
    by (simp add: deploymentChecker_def starter_HasStarted_def PastMedianTime_def Header_def index_ok_def split: option.splits)
next
  case (Some p)
  then have "index (bn_hash p) = Some p" using assms by (auto simp: index_ok_def tree_ok_def)
  then have "PastMedianTime index (Header n) = Inr (CalcPastMedianTime n)"
    using header_median [OF Some] Some by (simp add: PastMedianTime_def Header_def)
  then show ?thesis using Some by (auto simp: deploymentChecker_def starter_HasStarted_def split: option.splits)
qed

lemma started_stays:
  assumes I: "index_ok index S" and s: "\<And>m. walk k n = Some m \<Longrightarrow> HasStarted (deploymentChecker index params d) m"
    and n: "n \<in> S" "times_ok n" "walk k n \<noteq> None"
  shows "HasStarted (deploymentChecker index params d) n"
  using n s
proof (induction n rule: times_ok.induct)
  case (1 n)
  show ?case
  proof (cases "bn_height n = k")
    case True
    then show ?thesis using 1(5) by (simp add: walk.simps)
  next
    case False
    then obtain p where p: "bn_parent n = Some p" "walk k n = walk k p"
      using 1(4) by (auto simp: walk.simps [of k n] split: option.splits)
    have pS: "p \<in> S" using I 1(2) p by (auto simp: index_ok_def tree_ok_def)
    note t = times_ok_parent [OF 1(3) p(1)]
    have "HasStarted (deploymentChecker index params d) p" using 1(1) [OF p(1) pS] t 1(4,5) p(2) by simp
    moreover have "CalcPastMedianTime p \<le> CalcPastMedianTime n" using median_monotone [OF p(1)] t by simp
    ultimately show ?thesis using p(1) by (auto simp: started_iff [OF I pS] started_iff [OF I 1(2)] split: option.splits)
  qed
qed


lemma window_active_step:
  assumes I: "index_ok index S" and n: "n \<in> S" "times_ok n" and w: "0 < w" "w \<le> bn_height n"
    and m: "walk (bn_height n - w) n = Some m" "window_state (deploymentChecker index params d) w m = Inr ThresholdActive"
  shows "window_state (deploymentChecker index params d) w n = Inr ThresholdActive"
proof -
  have "HasStarted (deploymentChecker index params d) m"
  proof (rule ccontr)
    assume "\<not> ?thesis"
    then have "window_state (deploymentChecker index params d) w m = Inr ThresholdDefined" by (subst window_state.simps) simp
    then show False using m(2) by simp
  qed
  then have "HasStarted (deploymentChecker index params d) n" using started_stays [OF I _ n, of "bn_height n - w" params d] m(1) by simp
  then show ?thesis using m w by (subst window_state.simps) (simp add: thresholdStateTransition_def)
qed

lemma times_ok_walk: "times_ok n \<Longrightarrow> walk k n = Some a \<Longrightarrow> times_ok a"
proof (induction n rule: times_ok.induct)
  case (1 n)
  show ?case
  proof (cases "bn_height n = k")
    case True
    then show ?thesis using 1(2,3) by (simp add: walk.simps [of k n])
  next
    case False
    then obtain p where p: "bn_parent n = Some p" "walk k p = Some a"
      using 1(3) by (auto simp: walk.simps [of k n] split: option.splits)
    then show ?thesis using 1(1) [OF p(1)] times_ok_parent [OF 1(2) p(1)] by simp
  qed
qed

lemma windows_active:
  assumes I: "index_ok index S" and n: "n \<in> S" "times_ok n" and w: "0 < w"
    and start: "walk (w * q - 1) n = Some m" "window_state (deploymentChecker index params d) w m = Inr ThresholdActive" "1 \<le> q"
  shows "w * (q + int j) - 1 \<le> bn_height n \<Longrightarrow>
    \<exists>e. walk (w * (q + int j) - 1) n = Some e \<and> window_state (deploymentChecker index params d) w e = Inr ThresholdActive"
proof (induction j)
  case 0
  then show ?case using start by simp
next
  case (Suc j)
  have ok: "node_ok n" using I n by (simp add: index_ok_def tree_ok_def)
  define h where "h = w * (q + int (Suc j)) - 1"
  have h: "w * (q + int j) - 1 = h - w" by (simp add: h_def algebra_simps)
  have "w * 1 \<le> w * (q + int j)" using w start(3) by (intro mult_left_mono) auto
  then have hw: "w \<le> h" "0 \<le> h" using h w by linarith+
  obtain m' where m': "walk (h - w) n = Some m'" "window_state (deploymentChecker index params d) w m' = Inr ThresholdActive"
    using Suc.IH Suc.prems w h unfolding h_def [symmetric] by auto
  obtain e where e: "walk h n = Some e" "bn_height e = h" using walk_ok [OF ok, of h] hw(2) Suc.prems unfolding h_def [symmetric] by blast
  have eS: "e \<in> S" using tree_ok_walk [OF _ n(1) e(1)] I by (simp add: index_ok_def)
  have "walk (h - w) e = Some m'" using walk_trans [OF ok e(1), of "h - w"] w m'(1) by simp
  then have "window_state (deploymentChecker index params d) w e = Inr ThresholdActive"
    using window_active_step [OF I eS times_ok_walk [OF n(2) e(1)] w] e(2) hw(1) m'(2) by simp
  then show ?case using e(1) unfolding h_def by blast
qed

lemma next_active:
  assumes I: "index_ok index S" and n: "n \<in> S" "times_ok n" "bn_height n + 1 < 2 ^ 31"
    and ck: "ck = deploymentChecker index params d" "0 < MinerConfirmationWindow params"
    and m: "walk k n = Some m" "next_state ck m = Inr ThresholdActive"
  shows "next_state ck n = Inr ThresholdActive"
proof -
  define w where "w = MinerConfirmationWindow params"
  have w: "ConfirmationWindow ck = w" "0 < w" using ck by (simp_all add: w_def deploymentChecker_def)
  have ok: "node_ok n" using I n by (simp add: index_ok_def tree_ok_def)
  have mS: "m \<in> S" using tree_ok_walk [OF _ n(1) m(1)] I by (simp add: index_ok_def)
  have okm: "node_ok m" using I mS by (simp add: index_ok_def tree_ok_def)
  have kh: "bn_height m = k" "k \<le> bn_height n" "0 \<le> k"
  proof -
    show "k \<le> bn_height n" using walk_le [OF ok m(1)] .
    show "bn_height m = k" using m(1) by (induction k n rule: walk.induct) (auto simp: walk.simps split: if_splits option.splits)
    then show "0 \<le> k" using node_ok_height [OF okm] by simp
  qed
  have force: "ForceActive ck (Some x) = (bn_height x + 1 \<ge> EffectiveAlwaysActiveHeight d)"
    if "0 \<le> bn_height x" "bn_height x \<le> bn_height n" for x
    using that n(3) by (simp add: ck(1) deploymentChecker_def u32_id)
  show ?thesis
  proof (cases "ForceActive ck (Some n)")
    case False
    then have nf: "\<not> ForceActive ck (Some m)" using force [of n] force [of m] kh by simp
    define q where "q = (k + 1) div w"
    have wk: "w \<le> k + 1" using m(2) nf kh(1) w(1) by (simp add: next_state_def Let_def split: if_splits)
    note E = window_end [OF kh(3) w(2) wk, folded q_def]
    have "walk (k - (k + 1) mod w) m = walk (k - (k + 1) mod w) n" using walk_trans [OF ok m(1)] E(2) by blast
    then obtain e where e: "walk (w * q - 1) n = Some e" "window_state ck w e = Inr ThresholdActive"
      using m(2) nf kh(1) w(1) wk E(5) by (auto simp: next_state_def Let_def split: option.splits)
    define q' where "q' = (bn_height n + 1) div w"
    have q: "1 \<le> q" using zdiv_mono1 [of w "k + 1" w] wk w(2) by (simp add: q_def)
    have le: "q \<le> q'" using zdiv_mono1 [of "k + 1" "bn_height n + 1" w] kh(2) w(2) by (simp add: q_def q'_def)
    have wn: "w \<le> bn_height n + 1" "0 \<le> bn_height n" using wk kh by simp_all
    note F = window_end [OF wn(2) w(2) wn(1), folded q'_def]
    have "q + int (nat (q' - q)) = q'" using le by simp
    then obtain e' where "walk (w * q' - 1) n = Some e'" "window_state ck w e' = Inr ThresholdActive"
      using windows_active [OF I n(1,2) w(2) e(1) _ q, of params d "nat (q' - q)"] e(2) F(2,5) ck(1) by auto
    then show ?thesis using False wn(1) F(5) w(1) by (simp add: next_state_def Let_def)
  qed (simp add: next_state_def)
qed


section \<open>The states of the deployments\<close>

definition caches_sound ::
  "(bytes \<rightharpoonup> blockNode) \<Rightarrow> blockNode set \<Rightarrow> Params \<Rightarrow> ConsensusDeployment list \<Rightarrow> thresholdStateCache list \<Rightarrow> bool" where
  "caches_sound index S params deployments caches =
     (length caches = length deployments \<and>
      (\<forall>i < length deployments. cache_sound S (deploymentChecker index params (deployments ! i)) (caches ! i)))"

lemma deploymentState_next:
  assumes I: "index_ok index S" "n \<in> S" "bn_height n + 1 < 2 ^ 31"
    and w: "0 < MinerConfirmationWindow params" "MinerConfirmationWindow params < 2 ^ 31"
    and c: "caches_sound index S params deployments caches" and k: "k < length deployments"
  shows "\<exists>st caches'. deploymentState index params deployments (Some n) k caches = Some (Inr st, caches') \<and>
    next_state (deploymentChecker index params (deployments ! k)) n = Inr st \<and> caches_sound index S params deployments caches'"
proof -
  define ck where "ck = deploymentChecker index params (deployments ! k)"
  have "ConfirmationWindow ck = MinerConfirmationWindow params" by (simp add: ck_def deploymentChecker_def)
  then obtain st c' where "thresholdState (Some n) ck (caches ! k) = Some (Inr st, c')" "next_state ck n = Inr st" "cache_sound S ck c'"
    using thresholdState_next [of S n ck "caches ! k"] assms by (auto simp: index_ok_def caches_sound_def ck_def)
  moreover from this have "caches_sound index S params deployments (caches[k := c'])"
    using c k by (auto simp: caches_sound_def ck_def nth_list_update)
  ultimately show ?thesis using k by (simp add: deploymentState_def ck_def)
qed

section \<open>The deployments of the main network\<close>

definition MainNetDeployments :: "ConsensusDeployment list" where
  "MainNetDeployments =
     [\<lparr>BitNumber = 28, MinActivationHeight = 0, CustomActivationThreshold = 0, AlwaysActiveHeight = 0,
       DeploymentStart = Some 11991456010, DeploymentEnd = Some 1230767999\<rparr>,
      \<lparr>BitNumber = 22, MinActivationHeight = 100000, CustomActivationThreshold = 1815, AlwaysActiveHeight = 0,
       DeploymentStart = None, DeploymentEnd = None\<rparr>,
      \<lparr>BitNumber = 0, MinActivationHeight = 0, CustomActivationThreshold = 0, AlwaysActiveHeight = 0,
       DeploymentStart = Some 1462060800, DeploymentEnd = Some 1493596800\<rparr>,
      \<lparr>BitNumber = 1, MinActivationHeight = 0, CustomActivationThreshold = 0, AlwaysActiveHeight = 1,
       DeploymentStart = None, DeploymentEnd = None\<rparr>,
      \<lparr>BitNumber = 2, MinActivationHeight = 709632, CustomActivationThreshold = 1815, AlwaysActiveHeight = 0,
       DeploymentStart = Some 1619222400, DeploymentEnd = Some 1628640000\<rparr>,
      \<lparr>BitNumber = 30, MinActivationHeight = 0, CustomActivationThreshold = 0, AlwaysActiveHeight = 1,
       DeploymentStart = None, DeploymentEnd = None\<rparr>]"

definition genesis_Timestamp :: int where "genesis_Timestamp = 1748563200"

lemma ended_iff:
  assumes "index_ok index S" "n \<in> S"
  shows "HasEnded (deploymentChecker index params d) n =
    (case DeploymentEnd d of None \<Rightarrow> False | Some t \<Rightarrow> bn_parent n \<noteq> None \<and> t \<le> CalcPastMedianTime n)"
proof (cases "bn_parent n")
  case None
  then show ?thesis using assms
    by (simp add: deploymentChecker_def ender_HasEnded_def PastMedianTime_def Header_def index_ok_def split: option.splits)
next
  case (Some p)
  then have "index (bn_hash p) = Some p" using assms by (auto simp: index_ok_def tree_ok_def)
  then have "PastMedianTime index (Header n) = Inr (CalcPastMedianTime n)"
    using header_median [OF Some] Some by (simp add: PastMedianTime_def Header_def)
  then show ?thesis using Some by (auto simp: deploymentChecker_def ender_HasEnded_def split: option.splits)
qed

lemma past_timestamps_in:
  "tree_ok S \<Longrightarrow> n \<in> S \<Longrightarrow> set (past_timestamps k (Some n)) \<subseteq> bn_timestamp ` S"
proof (induction k arbitrary: n)
  case (Suc k)
  show ?case
  proof (cases "bn_parent n")
    case None
    then show ?thesis using Suc.prems by (cases k) auto
  next
    case (Some p)
    then have "p \<in> S" using Suc.prems by (auto simp: tree_ok_def)
    then show ?thesis using Suc.IH [of p] Suc.prems Some by auto
  qed
qed simp

lemma median_ge:
  assumes "tree_ok S" "n \<in> S" "\<forall>m \<in> S. t \<le> bn_timestamp m"
  shows "t \<le> CalcPastMedianTime n"
proof -
  define ts where "ts = past_timestamps medianTimeBlocks (Some n)"
  have "ts \<noteq> []" by (simp add: ts_def medianTimeBlocks_def eval_nat_numeral)
  then have "sort ts ! (length ts div 2) \<in> set (sort ts)" by (intro nth_mem) auto
  then have "sort ts ! (length ts div 2) \<in> bn_timestamp ` S" using past_timestamps_in [OF assms(1,2)] by (auto simp: ts_def)
  then show ?thesis using assms(3) by (auto simp: CalcPastMedianTime_def Let_def ts_def)
qed

text \<open>The votes on the relative lock times ended before the first block of the main network: the
  deployment fails and the rule is never enforced there.\<close>

lemma csv_window:
  assumes I: "index_ok index S" and t: "\<forall>m \<in> S. genesis_Timestamp \<le> bn_timestamp m"
  shows "n \<in> S \<Longrightarrow> window_state (deploymentChecker index params (MainNetDeployments ! DeploymentCSV)) w n \<in> {Inr ThresholdDefined, Inr ThresholdFailed}"
proof (induction "size n" arbitrary: n rule: less_induct)
  case less
  define ck where "ck = deploymentChecker index params (MainNetDeployments ! DeploymentCSV)"
  have ts: "tree_ok S" using I by (simp add: index_ok_def)
  have m: "genesis_Timestamp \<le> CalcPastMedianTime n" using median_ge [OF ts less.prems t] .
  have ended: "\<not> IsSpeedy ck" "HasStarted ck n \<Longrightarrow> HasEnded ck n"
    unfolding ck_def started_iff [OF I less.prems] ended_iff [OF I less.prems]
    using m by (simp_all add: deploymentChecker_def MainNetDeployments_def DeploymentCSV_def genesis_Timestamp_def)
  show ?case unfolding ck_def [symmetric]
  proof (cases "HasStarted ck n")
    case False
    then show "window_state ck w n \<in> {Inr ThresholdDefined, Inr ThresholdFailed}" by (subst window_state.simps) simp
  next
    case True
    define r where "r = (if w \<le> 0 \<or> bn_height n < w then Inr ThresholdDefined
        else case walk (bn_height n - w) n of None \<Rightarrow> Inr ThresholdDefined | Some m \<Rightarrow> window_state ck w m)"
    have "r \<in> {Inr ThresholdDefined, Inr ThresholdFailed}"
    proof (cases "w \<le> 0 \<or> bn_height n < w \<or> walk (bn_height n - w) n = None")
      case False
      then obtain m where m: "walk (bn_height n - w) n = Some m" "0 < w" "w \<le> bn_height n" by auto
      then have "window_state ck w m \<in> {Inr ThresholdDefined, Inr ThresholdFailed}"
        using less.hyps [OF walk_size [OF m(1)] tree_ok_walk [OF ts less.prems m(1)]] unfolding ck_def by simp
      then show ?thesis using m by (simp add: r_def)
    qed (auto simp: r_def)
    moreover have "window_state ck w n = rbind r (\<lambda>state. thresholdStateTransition state n ck w)"
      using True by (subst window_state.simps) (simp add: r_def)
    ultimately show "window_state ck w n \<in> {Inr ThresholdDefined, Inr ThresholdFailed}"
      using ended True by (auto simp: thresholdStateTransition_def)
  qed
qed

lemma csv_never_active:
  assumes "index_ok index S" "\<forall>m \<in> S. genesis_Timestamp \<le> bn_timestamp m" "n \<in> S" "bn_height n + 1 < 2 ^ 31"
  shows "next_state (deploymentChecker index params (MainNetDeployments ! DeploymentCSV)) n \<noteq> Inr ThresholdActive"
proof -
  have "node_ok n" "tree_ok S" using assms by (auto simp: index_ok_def tree_ok_def)
  then have "\<not> ForceActive (deploymentChecker index params (MainNetDeployments ! DeploymentCSV)) (Some n)"
    using node_ok_height [of n] assms(4)
    by (simp add: deploymentChecker_def MainNetDeployments_def DeploymentCSV_def EffectiveAlwaysActiveHeight_def u32_id)
  moreover have "window_state (deploymentChecker index params (MainNetDeployments ! DeploymentCSV)) w m \<noteq> Inr ThresholdActive"
    if "walk k n = Some m" for k m w
    using csv_window [OF assms(1,2) tree_ok_walk [OF \<open>tree_ok S\<close> assms(3) that], of params w] by auto
  ultimately show ?thesis by (auto simp: next_state_def Let_def split: option.splits)
qed

section \<open>A sample chain\<close>

definition vote_root :: blockNode where
  "vote_root = BlockNode None None [0] 1 0 0x20000001 0x1d00ffff 0 1000 []"

definition vote_node :: "nat \<Rightarrow> blockNode \<Rightarrow> blockNode" where
  "vote_node k p = BlockNode (Some p) (Some vote_root) [of_nat k] 1 (int k) 0x20000001 0x1d00ffff 0 (1000 + 600 * int k) []"

definition vote1 :: blockNode where "vote1 = vote_node 1 vote_root"
definition vote2 :: blockNode where "vote2 = vote_node 2 vote1"
definition vote3 :: blockNode where "vote3 = vote_node 3 vote2"
definition vote4 :: blockNode where "vote4 = vote_node 4 vote3"

definition vote_set :: "blockNode set" where "vote_set = {vote_root, vote1, vote2, vote3, vote4}"

definition vote_index :: "bytes \<rightharpoonup> blockNode" where
  "vote_index = [[0] \<mapsto> vote_root, [1] \<mapsto> vote1, [2] \<mapsto> vote2, [3] \<mapsto> vote3, [4] \<mapsto> vote4]"

definition vote_params :: Params where
  "vote_params = MainNetParams\<lparr>MinerConfirmationWindow := 1, RuleChangeActivationThreshold := 1\<rparr>"

definition vote_deployment :: ConsensusDeployment where
  "vote_deployment = \<lparr>BitNumber = 0, MinActivationHeight = 0, CustomActivationThreshold = 0,
     AlwaysActiveHeight = 0, DeploymentStart = Some 1000, DeploymentEnd = None\<rparr>"

lemmas vote_defs = vote_root_def vote1_def vote2_def vote3_def vote4_def vote_node_def

lemma vote_fields [simp]:
  "bn_height vote_root = 0" "bn_height vote1 = 1" "bn_height vote2 = 2" "bn_height vote3 = 3" "bn_height vote4 = 4"
  "bn_parent vote_root = None" "bn_parent vote1 = Some vote_root" "bn_parent vote2 = Some vote1" "bn_parent vote3 = Some vote2"
  "bn_parent vote4 = Some vote3"
  "bn_ancestor vote_root = None" "bn_ancestor vote1 = Some vote_root" "bn_ancestor vote2 = Some vote_root" "bn_ancestor vote3 = Some vote_root"
  "bn_ancestor vote4 = Some vote_root"
  "bn_hash vote_root = [0]" "bn_hash vote1 = [1]" "bn_hash vote2 = [2]" "bn_hash vote3 = [3]" "bn_hash vote4 = [4]"
  "bn_version vote_root = 0x20000001" "bn_version vote1 = 0x20000001" "bn_version vote2 = 0x20000001" "bn_version vote3 = 0x20000001"
  "bn_timestamp vote_root = 1000" "bn_timestamp vote1 = 1600" "bn_timestamp vote2 = 2200" "bn_timestamp vote3 = 2800" "bn_timestamp vote4 = 3400"
  by (simp_all add: vote_defs)

lemma vote_walk [simp]:
  "walk 0 vote_root = Some vote_root" "walk 0 vote1 = Some vote_root" "walk 0 vote2 = Some vote_root" "walk 0 vote3 = Some vote_root"
  "walk 1 vote1 = Some vote1" "walk 1 vote2 = Some vote1" "walk 2 vote2 = Some vote2" "walk 2 vote3 = Some vote2" "walk 3 vote3 = Some vote3"
  "walk 3 vote4 = Some vote3"
  by (simp_all add: walk.simps)

lemma vote_ok: "node_ok vote_root" "node_ok vote1" "node_ok vote2" "node_ok vote3" "node_ok vote4"
proof -
  have a: "getAncestorHeight 1 = 0" "getAncestorHeight 2 = 0" "getAncestorHeight 3 = 0" "getAncestorHeight 4 = 0"
    by (simp_all add: getAncestorHeight_def invertLowestOne_def i32_def)
  show "node_ok vote_root" by (simp add: node_ok.simps)
  then show "node_ok vote1" by (subst node_ok.simps) (simp add: a)
  then show "node_ok vote2" by (subst node_ok.simps) (simp add: a)
  then show "node_ok vote3" by (subst node_ok.simps) (simp add: a)
  then show "node_ok vote4" by (subst node_ok.simps) (simp add: a)
qed

lemma vote_index_ok: "index_ok vote_index vote_set"
proof -
  have "replicate 32 0 \<noteq> [x]" for x :: byte by (simp add: eval_nat_numeral)
  moreover have "inj_on bn_hash vote_set" by (auto simp: inj_on_def vote_set_def)
  ultimately show ?thesis by (auto simp: index_ok_def tree_ok_def vote_set_def vote_index_def vote_ok)
qed

lemma vote_medians:
  "CalcPastMedianTime vote_root = 1000" "CalcPastMedianTime vote1 = 1600" "CalcPastMedianTime vote2 = 1600" "CalcPastMedianTime vote3 = 2200"
proof -
  have "past_timestamps medianTimeBlocks (Some vote_root) = [1000]" "past_timestamps medianTimeBlocks (Some vote1) = [1600, 1000]"
    "past_timestamps medianTimeBlocks (Some vote2) = [2200, 1600, 1000]" "past_timestamps medianTimeBlocks (Some vote3) = [2800, 2200, 1600, 1000]"
    by (simp_all add: medianTimeBlocks_def eval_nat_numeral)
  then show "CalcPastMedianTime vote_root = 1000" "CalcPastMedianTime vote1 = 1600" "CalcPastMedianTime vote2 = 1600" "CalcPastMedianTime vote3 = 2200"
    by (simp_all add: CalcPastMedianTime_def Let_def)
qed

lemma vote_times: "times_ok vote4"
  by (simp add: times_ok.simps [of vote4] times_ok.simps [of vote3] times_ok.simps [of vote2] times_ok.simps [of vote1] times_ok.simps [of vote_root] vote_medians)

lemma vote_active: "next_state (deploymentChecker vote_index vote_params vote_deployment) vote3 = Inr ThresholdActive"
proof -
  define ck where "ck = deploymentChecker vote_index vote_params vote_deployment"
  have S: "vote_root \<in> vote_set" "vote1 \<in> vote_set" "vote2 \<in> vote_set" "vote3 \<in> vote_set" by (simp_all add: vote_set_def)
  have started: "\<not> HasStarted ck vote_root" "HasStarted ck vote1" "HasStarted ck vote2" "HasStarted ck vote3"
    unfolding ck_def started_iff [OF vote_index_ok S(1)] started_iff [OF vote_index_ok S(2)]
      started_iff [OF vote_index_ok S(3)] started_iff [OF vote_index_ok S(4)]
    by (simp_all add: vote_deployment_def vote_medians)
  have ck: "\<not> IsSpeedy ck" "\<not> HasEnded ck n" "ActivationThreshold ck = 1" "ConfirmationWindow ck = 1" "EligibleToActivate ck n"
    "\<not> ForceActive ck (Some vote3)" "Condition ck vote2" for n
    by (simp_all add: ck_def deploymentChecker_def vote_deployment_def vote_params_def ender_HasEnded_def
        EffectiveAlwaysActiveHeight_def u32_def bit_Condition_def vbTopMask_def vbTopBits_def)
  have "window_state ck 1 vote_root = Inr ThresholdDefined" using started by (subst window_state.simps) simp
  then have "window_state ck 1 vote1 = Inr ThresholdStarted"
    using started ck by (subst window_state.simps) (simp add: thresholdStateTransition_def)
  then have "window_state ck 1 vote2 = Inr ThresholdLockedIn"
    using started ck by (subst window_state.simps) (simp add: thresholdStateTransition_def u32_def)
  then have "window_state ck 1 vote3 = Inr ThresholdActive"
    using started ck by (subst window_state.simps) (simp add: thresholdStateTransition_def)
  then show ?thesis unfolding ck_def [symmetric] using ck by (simp add: next_state_def)
qed

text \<open>
  C33. The state of a deployment after a node of the block index is always computed: the search over
  the windows ends, no vote is counted beyond the first block, and the cached computation gives the
  state that going over all windows from the first one gives. The caches agree with the chain
  afterwards, whatever windows they held before.
\<close>

theorem deploymentState_windows:
  assumes "index_ok index S" "n \<in> S" "bn_height n + 1 < 2 ^ 31"
    and "0 < MinerConfirmationWindow params" "MinerConfirmationWindow params < 2 ^ 31"
    and "caches_sound index S params deployments caches" "k < length deployments"
  shows "\<exists>st caches'. deploymentState index params deployments (Some n) k caches = Some (Inr st, caches') \<and>
    next_state (deploymentChecker index params (deployments ! k)) n = Inr st \<and> caches_sound index S params deployments caches'"
  using deploymentState_next [OF assms] .

theorem deploymentState_windows_witness:
  "\<exists>caches'. deploymentState vote_index vote_params [vote_deployment] (Some vote3) 0 [Map.empty] = Some (Inr ThresholdActive, caches')"
proof -
  have "caches_sound vote_index vote_set vote_params [vote_deployment] [Map.empty]"
    by (simp add: caches_sound_def cache_sound_def)
  then show ?thesis
    using deploymentState_windows [OF vote_index_ok, of vote3 vote_params "[vote_deployment]" "[Map.empty]" 0] vote_active
    by (auto simp: vote_set_def vote_params_def)
qed

text \<open>
  An active deployment stays active: when the state after a node is active, the state after
  every later node of that chain is active too, given that each block is later than the median time
  before it. The first query may have filled the caches.
\<close>

lemma deployment_stays_active:
  assumes "index_ok index S" "n \<in> S" "times_ok n" "bn_height n + 1 < 2 ^ 31"
    and "0 < MinerConfirmationWindow params" "MinerConfirmationWindow params < 2 ^ 31"
    and "caches_sound index S params deployments caches" "k < length deployments" "walk j n = Some m"
    and "deploymentState index params deployments (Some m) k caches = Some (Inr ThresholdActive, caches')"
  shows "\<exists>caches''. deploymentState index params deployments (Some n) k caches' = Some (Inr ThresholdActive, caches'')"
proof -
  have mS: "m \<in> S" using tree_ok_walk [OF _ assms(2,9)] assms(1) by (simp add: index_ok_def)
  have ok: "node_ok n" using assms(1,2) by (simp add: index_ok_def tree_ok_def)
  have "bn_height m = j" using assms(9) by (induction j n rule: walk.induct) (auto simp: walk.simps split: if_splits option.splits)
  then have "bn_height m + 1 < 2 ^ 31" using walk_le [OF ok assms(9)] assms(4) by simp
  from deploymentState_next [OF assms(1) mS this assms(5,6,7,8)]
  have m: "next_state (deploymentChecker index params (deployments ! k)) m = Inr ThresholdActive"
    and c: "caches_sound index S params deployments caches'" using assms(10) by auto
  from next_active [OF assms(1-4) refl assms(5,9) m] deploymentState_next [OF assms(1,2,4-6) c assms(8)]
  show ?thesis by auto
qed

end
