(* ===== verification/Stack.thy ===== *)
theory Stack
  imports ScriptNum
begin

text \<open>
  The stack of the script engine: \<^verbatim>\<open>txscript/stack.go\<close>. A stack is the list that the code
  holds, with the top at its end. An operation gives the changed stack or the error; after an error
  the engine is not used any more, so the stack that the code leaves then is not modelled. The
  errors of the engine are those of \<^verbatim>\<open>txscript/error.go\<close>, other errors, and run-time panics.

  The lemmas give the effect of each operation on the list for every number of items.
\<close>

section \<open>Results of the engine\<close>

datatype vmError = ScriptErr ScriptError | NonScriptErr | EnginePanic

type_synonym 'a vmResult = "vmError + 'a"

definition vbind :: "'a vmResult \<Rightarrow> ('a \<Rightarrow> 'b vmResult) \<Rightarrow> 'b vmResult" where
  "vbind m f = (case m of Inl e \<Rightarrow> Inl e | Inr x \<Rightarrow> f x)"

lemma vbind_Inl [simp]: "vbind (Inl e) f = Inl e"
  by (simp add: vbind_def)

lemma vbind_Inr [simp]: "vbind (Inr x) f = f x"
  by (simp add: vbind_def)

lemma vbind_eq_Inr: "vbind m f = Inr y \<longleftrightarrow> (\<exists>x. m = Inr x \<and> f x = Inr y)"
  by (cases m) auto

lemma vbind_eq_Inl: "vbind m f = Inl e \<longleftrightarrow> m = Inl e \<or> (\<exists>x. m = Inr x \<and> f x = Inl e)"
  by (cases m) auto

lemma vbind_cong [fundef_cong]: "m = m' \<Longrightarrow> (\<And>x. m' = Inr x \<Longrightarrow> f x = g x) \<Longrightarrow> vbind m f = vbind m' g"
  by (cases m') auto

section \<open>Stacks\<close>

record stack =
  stk :: "bytes list"
  verifyMinimalData :: bool

definition maxScriptNumLen :: nat where "maxScriptNumLen = 4"

fun asBool :: "bytes \<Rightarrow> bool" where
  "asBool [] = False"
| "asBool (x # xs) = (if x \<noteq> 0 then \<not> (xs = [] \<and> x = 0x80) else asBool xs)"

definition fromBool :: "bool \<Rightarrow> bytes" where
  "fromBool v = (if v then [1] else [])"

definition Depth :: "stack \<Rightarrow> int" where
  "Depth s = i32 (int (length (stk s)))"

definition PushByteArray :: "bytes \<Rightarrow> stack \<Rightarrow> stack" where
  "PushByteArray so s = s\<lparr>stk := stk s @ [so]\<rparr>"

definition PushInt :: "int \<Rightarrow> stack \<Rightarrow> stack vmResult" where
  "PushInt val s = (case scriptNum_Bytes val of Inl _ \<Rightarrow> Inl EnginePanic | Inr b \<Rightarrow> Inr (PushByteArray b s))"

definition PushBool :: "bool \<Rightarrow> stack \<Rightarrow> stack" where
  "PushBool val s = PushByteArray (fromBool val) s"

definition nipN :: "int \<Rightarrow> stack \<Rightarrow> (bytes \<times> stack) vmResult" where
  "nipN idx s =
     (let sz = i32 (int (length (stk s))) in
      if idx < 0 \<or> idx > sz - 1 then Inl (ScriptErr ErrInvalidStackOperation)
      else
        let so = stk s ! nat (sz - idx - 1) in
        Inr (so, s\<lparr>stk :=
          (if idx = 0 then take (nat (sz - 1)) (stk s)
           else if idx = sz - 1 then drop 1 (stk s)
           else take (nat (sz - idx - 1)) (stk s) @ slice (nat (sz - idx)) (nat sz) (stk s))\<rparr>))"

definition PopByteArray :: "stack \<Rightarrow> (bytes \<times> stack) vmResult" where
  "PopByteArray s = nipN 0 s"

definition toScriptNum :: "bytes \<Rightarrow> bool \<Rightarrow> nat \<Rightarrow> int vmResult" where
  "toScriptNum so requireMinimal len =
     (case MakeScriptNum so requireMinimal len of Inl e \<Rightarrow> Inl (ScriptErr e) | Inr n \<Rightarrow> Inr n)"

definition PopInt :: "stack \<Rightarrow> (int \<times> stack) vmResult" where
  "PopInt s = vbind (PopByteArray s) (\<lambda>(so, s). vbind (toScriptNum so (verifyMinimalData s) maxScriptNumLen) (\<lambda>n. Inr (n, s)))"

definition PopBool :: "stack \<Rightarrow> (bool \<times> stack) vmResult" where
  "PopBool s = vbind (PopByteArray s) (\<lambda>(so, s). Inr (asBool so, s))"

definition PeekByteArray :: "int \<Rightarrow> stack \<Rightarrow> bytes vmResult" where
  "PeekByteArray idx s =
     (let sz = i32 (int (length (stk s))) in
      if idx < 0 \<or> idx \<ge> sz then Inl (ScriptErr ErrInvalidStackOperation)
      else Inr (stk s ! nat (sz - idx - 1)))"

definition PeekInt :: "int \<Rightarrow> stack \<Rightarrow> int vmResult" where
  "PeekInt idx s = vbind (PeekByteArray idx s) (\<lambda>so. toScriptNum so (verifyMinimalData s) maxScriptNumLen)"

definition PeekBool :: "int \<Rightarrow> stack \<Rightarrow> bool vmResult" where
  "PeekBool idx s = vbind (PeekByteArray idx s) (\<lambda>so. Inr (asBool so))"

definition NipN :: "int \<Rightarrow> stack \<Rightarrow> stack vmResult" where
  "NipN idx s = vbind (nipN idx s) (\<lambda>(_, s). Inr s)"

definition Tuck :: "stack \<Rightarrow> stack vmResult" where
  "Tuck s =
     vbind (PopByteArray s) (\<lambda>(so2, s).
     vbind (PopByteArray s) (\<lambda>(so1, s).
     Inr (PushByteArray so2 (PushByteArray so1 (PushByteArray so2 s)))))"

primrec drop_loop :: "nat \<Rightarrow> stack \<Rightarrow> stack vmResult" where
  "drop_loop 0 s = Inr s"
| "drop_loop (Suc n) s = vbind (PopByteArray s) (\<lambda>(_, s). drop_loop n s)"

definition DropN :: "int \<Rightarrow> stack \<Rightarrow> stack vmResult" where
  "DropN n s = (if n < 1 then Inl (ScriptErr ErrInvalidStackOperation) else drop_loop (nat n) s)"

text \<open>Peeking at one position and pushing what is there, a number of times.\<close>

primrec peek_loop :: "int \<Rightarrow> nat \<Rightarrow> stack \<Rightarrow> stack vmResult" where
  "peek_loop entry 0 s = Inr s"
| "peek_loop entry (Suc i) s = vbind (PeekByteArray entry s) (\<lambda>so. peek_loop entry i (PushByteArray so s))"

definition DupN :: "int \<Rightarrow> stack \<Rightarrow> stack vmResult" where
  "DupN n s = (if n < 1 then Inl (ScriptErr ErrInvalidStackOperation) else peek_loop (n - 1) (nat n) s)"

primrec nip_loop :: "int \<Rightarrow> nat \<Rightarrow> stack \<Rightarrow> stack vmResult" where
  "nip_loop entry 0 s = Inr s"
| "nip_loop entry (Suc i) s = vbind (nipN entry s) (\<lambda>(so, s). nip_loop entry i (PushByteArray so s))"

definition RotN :: "int \<Rightarrow> stack \<Rightarrow> stack vmResult" where
  "RotN n s = (if n < 1 then Inl (ScriptErr ErrInvalidStackOperation) else nip_loop (i32 (3 * n - 1)) (nat n) s)"

definition SwapN :: "int \<Rightarrow> stack \<Rightarrow> stack vmResult" where
  "SwapN n s = (if n < 1 then Inl (ScriptErr ErrInvalidStackOperation) else nip_loop (i32 (2 * n - 1)) (nat n) s)"

definition OverN :: "int \<Rightarrow> stack \<Rightarrow> stack vmResult" where
  "OverN n s = (if n < 1 then Inl (ScriptErr ErrInvalidStackOperation) else peek_loop (i32 (2 * n - 1)) (nat n) s)"

definition PickN :: "int \<Rightarrow> stack \<Rightarrow> stack vmResult" where
  "PickN n s = vbind (PeekByteArray n s) (\<lambda>so. Inr (PushByteArray so s))"

definition RollN :: "int \<Rightarrow> stack \<Rightarrow> stack vmResult" where
  "RollN n s = vbind (nipN n s) (\<lambda>(so, s). Inr (PushByteArray so s))"

definition getStack :: "stack \<Rightarrow> bytes list" where
  "getStack s = stk s"

definition setStack :: "bytes list \<Rightarrow> stack \<Rightarrow> stack" where
  "setStack data s = s\<lparr>stk := data\<rparr>"

section \<open>The operations on lists\<close>

abbreviation small :: "stack \<Rightarrow> bool" where
  "small s \<equiv> int (length (stk s)) < 2 ^ 31"

abbreviation stack_err :: "'a vmResult" where
  "stack_err \<equiv> Inl (ScriptErr ErrInvalidStackOperation)"

lemma stack_size: "small s \<Longrightarrow> i32 (int (length (stk s))) = int (length (stk s))"
  by (intro i32_id) auto

lemma nipN_append:
  assumes "small s" "stk s = xs @ x # ys" "idx = int (length ys)"
  shows "nipN idx s = Inr (x, s\<lparr>stk := xs @ ys\<rparr>)"
proof -
  have sz: "i32 (int (length (stk s))) = int (length xs) + int (length ys) + 1"
    using stack_size [OF assms(1)] assms(2) by simp
  have n: "nat (int (length xs) + int (length ys) + 1 - idx - 1) = length xs" using assms(3) by simp
  have m: "nat (int (length xs) + int (length ys) + 1 - idx) = Suc (length xs)" using assms(3) by simp
  have l: "nat (int (length xs) + int (length ys) + 1) = Suc (length xs + length ys)" by simp
  show ?thesis
    unfolding nipN_def Let_def sz n m l using assms(2,3)
    by (cases ys) (auto simp: slice_def nat_add_distrib)
qed

lemma nipN_err: "small s \<Longrightarrow> idx < 0 \<or> idx \<ge> int (length (stk s)) \<Longrightarrow> nipN idx s = stack_err"
  by (auto simp: nipN_def stack_size Let_def)

lemma nipN_cases:
  assumes "small s"
  shows "(nipN idx s = stack_err \<and> (idx < 0 \<or> idx \<ge> int (length (stk s)))) \<or>
    (\<exists>xs x ys. stk s = xs @ x # ys \<and> idx = int (length ys) \<and> nipN idx s = Inr (x, s\<lparr>stk := xs @ ys\<rparr>))"
proof (cases "idx < 0 \<or> idx \<ge> int (length (stk s))")
  case True
  then show ?thesis using nipN_err [OF assms] by simp
next
  case False
  define k where "k = length (stk s) - 1 - nat idx"
  have k: "k < length (stk s)" using False by (auto simp: k_def)
  have "stk s = take k (stk s) @ stk s ! k # drop (Suc k) (stk s)" using k by (simp add: id_take_nth_drop [symmetric])
  moreover have "idx = int (length (drop (Suc k) (stk s)))"
  proof -
    have "length (drop (Suc k) (stk s)) = nat idx" using False by (auto simp: k_def)
    then show ?thesis using False by simp
  qed
  ultimately show ?thesis using nipN_append [OF assms] by blast
qed

lemma PopByteArray_snoc: "small s \<Longrightarrow> stk s = xs @ [x] \<Longrightarrow> PopByteArray s = Inr (x, s\<lparr>stk := xs\<rparr>)"
  using nipN_append [of s xs x "[]" 0] by (simp add: PopByteArray_def)

lemma PopByteArray_Nil: "stk s = [] \<Longrightarrow> PopByteArray s = stack_err"
  by (simp add: PopByteArray_def nipN_err)

lemma PeekByteArray_append:
  assumes "small s" "stk s = xs @ x # ys" "idx = int (length ys)"
  shows "PeekByteArray idx s = Inr x"
proof -
  have "nat (int (length (stk s)) - idx - 1) = length xs" using assms(2,3) by simp
  then show ?thesis using assms(2,3) stack_size [OF assms(1)] by (simp add: PeekByteArray_def)
qed

lemma PeekByteArray_err: "small s \<Longrightarrow> idx < 0 \<or> idx \<ge> int (length (stk s)) \<Longrightarrow> PeekByteArray idx s = stack_err"
  by (auto simp: PeekByteArray_def stack_size Let_def)

lemma drop_loop_append: "small s \<Longrightarrow> stk s = xs @ ys \<Longrightarrow> drop_loop (length ys) s = Inr (s\<lparr>stk := xs\<rparr>)"
proof (induction ys arbitrary: s rule: rev_induct)
  case (snoc y ys)
  then have p: "PopByteArray s = Inr (y, s\<lparr>stk := xs @ ys\<rparr>)" by (intro PopByteArray_snoc) auto
  have "small (s\<lparr>stk := xs @ ys\<rparr>)" using snoc.prems by simp
  from snoc.IH [OF this] p show ?case by simp
qed simp

lemma drop_loop_err: "small s \<Longrightarrow> length (stk s) < n \<Longrightarrow> drop_loop n s = stack_err"
proof (induction n arbitrary: s)
  case (Suc n)
  show ?case
  proof (cases "stk s" rule: rev_cases)
    case Nil
    then show ?thesis by (simp add: PopByteArray_Nil)
  next
    case (snoc xs x)
    then have "drop_loop n (s\<lparr>stk := xs\<rparr>) = stack_err" using Suc by auto
    then show ?thesis using PopByteArray_snoc [OF Suc.prems(1) snoc] by simp
  qed
qed simp

lemma peek_loop_copy:
  "stk s = xs @ b @ c @ ys @ b \<Longrightarrow> entry = int (length b + length c + length ys) - 1 \<Longrightarrow>
   int (length (stk s) + length c) < 2 ^ 31 \<Longrightarrow>
   peek_loop entry (length c) s = Inr (s\<lparr>stk := xs @ b @ c @ ys @ b @ c\<rparr>)"
proof (induction c arbitrary: b s)
  case (Cons x c)
  have "PeekByteArray entry s = Inr x"
    using Cons.prems by (intro PeekByteArray_append [of _ "xs @ b" _ "c @ ys @ b"]) auto
  moreover have "peek_loop entry (length c) (PushByteArray x s) =
      Inr ((PushByteArray x s)\<lparr>stk := xs @ (b @ [x]) @ c @ ys @ (b @ [x]) @ c\<rparr>)"
    using Cons.prems by (intro Cons.IH) (auto simp: PushByteArray_def)
  ultimately show ?case by (simp add: PushByteArray_def)
next
  case Nil
  then have "s\<lparr>stk := stk s\<rparr> = s" by simp
  then show ?case using Nil by simp
qed

lemma nip_loop_move:
  "stk s = xs @ c @ ys \<Longrightarrow> entry = int (length c + length ys) - 1 \<Longrightarrow> small s \<Longrightarrow>
   nip_loop entry (length c) s = Inr (s\<lparr>stk := xs @ ys @ c\<rparr>)"
proof (induction c arbitrary: ys s)
  case (Cons x c)
  have "nipN entry s = Inr (x, s\<lparr>stk := xs @ c @ ys\<rparr>)"
    using Cons.prems nipN_append [of s xs x "c @ ys" entry] by simp
  moreover have "nip_loop entry (length c) (PushByteArray x (s\<lparr>stk := xs @ c @ ys\<rparr>)) =
      Inr ((PushByteArray x (s\<lparr>stk := xs @ c @ ys\<rparr>))\<lparr>stk := xs @ (ys @ [x]) @ c\<rparr>)"
    using Cons.prems by (intro Cons.IH) (auto simp: PushByteArray_def)
  ultimately show ?case by (simp add: PushByteArray_def)
next
  case Nil
  then have "s\<lparr>stk := stk s\<rparr> = s" by simp
  then show ?case using Nil by simp
qed

lemma split_top:
  assumes "0 \<le> n" "n \<le> int (length zs)"
  obtains xs a where "zs = xs @ a" "int (length a) = n"
proof
  show "zs = take (length zs - nat n) zs @ drop (length zs - nat n) zs" by simp
  show "int (length (drop (length zs - nat n) zs)) = n" using assms by simp
qed

section \<open>The documented transformations\<close>

lemma stack_DropN:
  assumes "small s"
  shows "DropN n s = (if n < 1 \<or> n > int (length (stk s)) then stack_err
                      else Inr (s\<lparr>stk := take (length (stk s) - nat n) (stk s)\<rparr>))"
proof (cases "n < 1 \<or> n > int (length (stk s))")
  case False
  obtain xs a where a: "stk s = xs @ a" "int (length a) = n" using split_top [of n "stk s"] False by auto
  then show ?thesis using drop_loop_append [OF assms a(1)] False by (auto simp: DropN_def)
qed (use drop_loop_err [OF assms, of "nat n"] in \<open>auto simp: DropN_def\<close>)

text \<open>\<open>beneath k s\<close> is the list without its top \<open>k\<close> items and \<open>topmost k s\<close> are those items.\<close>

definition beneath :: "int \<Rightarrow> stack \<Rightarrow> bytes list" where
  "beneath k s = take (length (stk s) - nat k) (stk s)"

definition topmost :: "int \<Rightarrow> stack \<Rightarrow> bytes list" where
  "topmost k s = drop (length (stk s) - nat k) (stk s)"

lemma beneath_topmost: "beneath k s @ topmost k s = stk s"
  by (simp add: beneath_def topmost_def)

lemma beneath_append: "stk s = xs @ a \<Longrightarrow> int (length a) = k \<Longrightarrow> beneath k s = xs"
  "stk s = xs @ a \<Longrightarrow> int (length a) = k \<Longrightarrow> topmost k s = a"
  by (auto simp: beneath_def topmost_def)

lemma peek_loop_err: "small s \<Longrightarrow> entry \<ge> int (length (stk s)) \<Longrightarrow> 0 < n \<Longrightarrow> peek_loop entry n s = stack_err"
  by (cases n) (auto simp: PeekByteArray_err)

lemma nip_loop_err: "small s \<Longrightarrow> entry \<ge> int (length (stk s)) \<Longrightarrow> 0 < n \<Longrightarrow> nip_loop entry n s = stack_err"
  by (cases n) (auto simp: nipN_err)

lemma stack_DupN:
  assumes "int (length (stk s)) + n < 2 ^ 31" "1 \<le> n"
  shows "DupN n s = (if n > int (length (stk s)) then stack_err else Inr (s\<lparr>stk := stk s @ topmost n s\<rparr>))"
proof (cases "n > int (length (stk s))")
  case False
  obtain xs a where a: "stk s = xs @ a" "int (length a) = n" using split_top [of n "stk s"] assms False by auto
  then show ?thesis
    using peek_loop_copy [of s xs "[]" a "[]" "n - 1"] False assms beneath_append(2) [OF a] by (auto simp: DupN_def)
qed (use assms peek_loop_err [of s "n - 1" "nat n"] in \<open>auto simp: DupN_def\<close>)

lemma stack_OverN:
  assumes "int (length (stk s)) + n < 2 ^ 31" "1 \<le> n" "2 * n < 2 ^ 31"
  shows "OverN n s = (if 2 * n > int (length (stk s)) then stack_err
    else Inr (s\<lparr>stk := stk s @ take (nat n) (topmost (2 * n) s)\<rparr>))"
proof -
  have e: "i32 (2 * n - 1) = 2 * n - 1" using assms by (intro i32_id) auto
  show ?thesis
  proof (cases "2 * n > int (length (stk s))")
    case False
    obtain ys b where b: "stk s = ys @ b" "int (length b) = n" using split_top [of n "stk s"] assms False by auto
    obtain xs a where a: "ys = xs @ a" "int (length a) = n" using split_top [of n ys] assms False b by auto
    have t: "topmost (2 * n) s = a @ b" using a b by (intro beneath_append(2)) auto
    show ?thesis
      using peek_loop_copy [of s xs "[]" a b "2 * n - 1"] False assms a b t e by (auto simp: OverN_def)
  qed (use assms e peek_loop_err [of s "2 * n - 1" "nat n"] in \<open>auto simp: OverN_def\<close>)
qed

lemma stack_SwapN:
  assumes "small s" "1 \<le> n" "2 * n < 2 ^ 31"
  shows "SwapN n s = (if 2 * n > int (length (stk s)) then stack_err
    else Inr (s\<lparr>stk := beneath (2 * n) s @ topmost n s @ take (nat n) (topmost (2 * n) s)\<rparr>))"
proof -
  have e: "i32 (2 * n - 1) = 2 * n - 1" using assms by (intro i32_id) auto
  show ?thesis
  proof (cases "2 * n > int (length (stk s))")
    case False
    obtain ys b where b: "stk s = ys @ b" "int (length b) = n" using split_top [of n "stk s"] assms False by auto
    obtain xs a where a: "ys = xs @ a" "int (length a) = n" using split_top [of n ys] assms False b by auto
    have t: "topmost (2 * n) s = a @ b" "beneath (2 * n) s = xs" "topmost n s = b"
      using a b by (auto intro!: beneath_append)
    show ?thesis
      using nip_loop_move [of s xs a b "2 * n - 1"] False assms a b t e by (auto simp: SwapN_def)
  qed (use assms e nip_loop_err [of s "2 * n - 1" "nat n"] in \<open>auto simp: SwapN_def\<close>)
qed

lemma stack_RotN:
  assumes "small s" "1 \<le> n" "3 * n < 2 ^ 31"
  shows "RotN n s = (if 3 * n > int (length (stk s)) then stack_err
    else Inr (s\<lparr>stk := beneath (3 * n) s @ topmost (2 * n) s @ take (nat n) (topmost (3 * n) s)\<rparr>))"
proof -
  have e: "i32 (3 * n - 1) = 3 * n - 1" using assms by (intro i32_id) auto
  show ?thesis
  proof (cases "3 * n > int (length (stk s))")
    case False
    obtain ys b where b: "stk s = ys @ b" "int (length b) = 2 * n" using split_top [of "2 * n" "stk s"] assms False by auto
    obtain xs a where a: "ys = xs @ a" "int (length a) = n" using split_top [of n ys] assms False b by auto
    have t: "topmost (3 * n) s = a @ b" "beneath (3 * n) s = xs" "topmost (2 * n) s = b"
      using a b by (auto intro!: beneath_append)
    show ?thesis
      using nip_loop_move [of s xs a b "3 * n - 1"] False assms a b t e by (auto simp: RotN_def)
  qed (use assms e nip_loop_err [of s "3 * n - 1" "nat n"] in \<open>auto simp: RotN_def\<close>)
qed

lemma nth_depth:
  assumes "0 \<le> j" "j < int (length zs)"
  obtains xs x ys where "zs = xs @ x # ys" "int (length ys) = j"
proof -
  obtain xs a where a: "zs = xs @ a" "int (length a) = j + 1" using split_top [of "j + 1" zs] assms by auto
  then obtain x ys where "a = x # ys" using assms by (cases a) auto
  then show thesis using that [of xs x ys] a by simp
qed

lemma stack_PickN_RollN:
  assumes "small s"
  shows "PickN j s = (if j < 0 \<or> j \<ge> int (length (stk s)) then stack_err else Inr (s\<lparr>stk := stk s @ [hd (topmost (j + 1) s)]\<rparr>))"
    and "RollN j s = (if j < 0 \<or> j \<ge> int (length (stk s)) then stack_err
      else Inr (s\<lparr>stk := beneath (j + 1) s @ topmost j s @ [hd (topmost (j + 1) s)]\<rparr>))"
proof -
  have "(if j < 0 \<or> j \<ge> int (length (stk s)) then PickN j s = stack_err \<and> RollN j s = stack_err
    else PickN j s = Inr (s\<lparr>stk := stk s @ [hd (topmost (j + 1) s)]\<rparr>) \<and>
      RollN j s = Inr (s\<lparr>stk := beneath (j + 1) s @ topmost j s @ [hd (topmost (j + 1) s)]\<rparr>))"
  proof (cases "j < 0 \<or> j \<ge> int (length (stk s))")
    case False
    then obtain xs x ys where x: "stk s = xs @ x # ys" "int (length ys) = j" using nth_depth [of j "stk s"] by auto
    have t: "topmost (j + 1) s = x # ys" "beneath (j + 1) s = xs" "topmost j s = ys"
      using x beneath_append [of s xs "x # ys" "j + 1"] beneath_append(2) [of s "xs @ [x]" ys j] by auto
    show ?thesis
      using False PeekByteArray_append [OF assms x(1)] nipN_append [OF assms x(1)] x t
      by (auto simp: PickN_def RollN_def PushByteArray_def)
  qed (use nipN_err [OF assms] PeekByteArray_err [OF assms] in \<open>auto simp: PickN_def RollN_def\<close>)
  then show "PickN j s = (if j < 0 \<or> j \<ge> int (length (stk s)) then stack_err else Inr (s\<lparr>stk := stk s @ [hd (topmost (j + 1) s)]\<rparr>))"
    "RollN j s = (if j < 0 \<or> j \<ge> int (length (stk s)) then stack_err
      else Inr (s\<lparr>stk := beneath (j + 1) s @ topmost j s @ [hd (topmost (j + 1) s)]\<rparr>))" by (auto split: if_splits)
qed

text \<open>
  The operations on the stack do what their comments say for every number of items: dropping,
  duplicating, copying from below, swapping and rotating groups of \<open>n\<close> items, and copying or moving
  the item at a depth. They fail with the stack error exactly when the stack holds too few items or
  the argument is out of range.
\<close>

lemma stack_transformations:
  assumes "1 \<le> n" "3 * n < 2 ^ 31" "int (length (stk s)) + n < 2 ^ 31"
  shows "DropN n s = (if n > int (length (stk s)) then stack_err else Inr (s\<lparr>stk := beneath n s\<rparr>)) \<and>
    DupN n s = (if n > int (length (stk s)) then stack_err else Inr (s\<lparr>stk := stk s @ topmost n s\<rparr>)) \<and>
    OverN n s = (if 2 * n > int (length (stk s)) then stack_err
      else Inr (s\<lparr>stk := stk s @ take (nat n) (topmost (2 * n) s)\<rparr>)) \<and>
    SwapN n s = (if 2 * n > int (length (stk s)) then stack_err
      else Inr (s\<lparr>stk := beneath (2 * n) s @ topmost n s @ take (nat n) (topmost (2 * n) s)\<rparr>)) \<and>
    RotN n s = (if 3 * n > int (length (stk s)) then stack_err
      else Inr (s\<lparr>stk := beneath (3 * n) s @ topmost (2 * n) s @ take (nat n) (topmost (3 * n) s)\<rparr>)) \<and>
    PickN j s = (if j < 0 \<or> j \<ge> int (length (stk s)) then stack_err
      else Inr (s\<lparr>stk := stk s @ [hd (topmost (j + 1) s)]\<rparr>)) \<and>
    RollN j s = (if j < 0 \<or> j \<ge> int (length (stk s)) then stack_err
      else Inr (s\<lparr>stk := beneath (j + 1) s @ topmost j s @ [hd (topmost (j + 1) s)]\<rparr>))"
proof -
  have s: "small s" "2 * n < 2 ^ 31" using assms by simp_all
  show ?thesis
    using stack_DropN [OF s(1), of n] stack_DupN [OF assms(3,1)] stack_OverN [OF assms(3,1) s(2)]
      stack_SwapN [OF s(1) assms(1) s(2)] stack_RotN [OF s(1) assms(1,2)] stack_PickN_RollN [OF s(1), of j] assms(1)
    by (simp add: beneath_def)
qed

definition six :: stack where
  "six = \<lparr>stk = [[1], [2], [3], [4], [5], [6]], verifyMinimalData = True\<rparr>"

end
