(* ===== verification/SigHash.thy ===== *)
theory SigHash
  imports Stack ScriptBuild WireTx Sha256
begin

text \<open>
  What a signature signs: \<^verbatim>\<open>txscript/sighash.go\<close>, the midstates of
  \<^verbatim>\<open>txscript/hashcache.go\<close> and the tagged hashes of \<^verbatim>\<open>chainhash/hash.go\<close>. A fetcher of
  previous outputs is a function to an option; using an output that it does not have is a panic. A
  hash type is an integer below \<open>2 ^ 32\<close>. The messages that are hashed are definitions of their own.

  The lemmas show what a digest commits to, given that the hash has no collision on the messages at
  hand.
\<close>

unbundle bit_operations_syntax

section \<open>Tagged hashes\<close>

definition ascii :: "string \<Rightarrow> bytes" where
  "ascii s = map (\<lambda>c. of_char c) s"

definition TagTapSighash :: bytes where "TagTapSighash = ascii ''TapSighash''"
definition TagTapLeaf :: bytes where "TagTapLeaf = ascii ''TapLeaf''"
definition TagTapBranch :: bytes where "TagTapBranch = ascii ''TapBranch''"
definition TagTapTweak :: bytes where "TagTapTweak = ascii ''TapTweak''"

definition TaggedHash :: "bytes \<Rightarrow> bytes list \<Rightarrow> bytes" where
  "TaggedHash tag msgs = (let shaTag = sha256 tag in sha256 (shaTag @ shaTag @ concat msgs))"

section \<open>Midstates\<close>

type_synonym PrevOutputFetcher = "OutPoint \<Rightarrow> TxOut option"

definition calcHashPrevOuts :: "MsgTx \<Rightarrow> bytes" where
  "calcHashPrevOuts tx =
     sha256 (concat (map (\<lambda>ti. op_Hash (ti_PreviousOutPoint ti) @ le_bytes 4 (op_Index (ti_PreviousOutPoint ti))) (tx_TxIn tx)))"

definition calcHashSequence :: "MsgTx \<Rightarrow> bytes" where
  "calcHashSequence tx = sha256 (concat (map (\<lambda>ti. le_bytes 4 (ti_Sequence ti)) (tx_TxIn tx)))"

definition calcHashOutputs :: "MsgTx \<Rightarrow> bytes" where
  "calcHashOutputs tx = sha256 (concat (map WriteTxOutBuf (tx_TxOut tx)))"

primrec prev_outs :: "PrevOutputFetcher \<Rightarrow> TxIn list \<Rightarrow> TxOut list vmResult" where
  "prev_outs fetch [] = Inr []"
| "prev_outs fetch (ti # tis) =
     (case fetch (ti_PreviousOutPoint ti) of
        None \<Rightarrow> Inl EnginePanic
      | Some prevOut \<Rightarrow> vbind (prev_outs fetch tis) (\<lambda>outs. Inr (prevOut # outs)))"

definition calcHashInputAmounts :: "MsgTx \<Rightarrow> PrevOutputFetcher \<Rightarrow> bytes vmResult" where
  "calcHashInputAmounts tx inputFetcher =
     vbind (prev_outs inputFetcher (tx_TxIn tx)) (\<lambda>outs.
     Inr (sha256 (concat (map (\<lambda>prevOut. le_bytes 8 (u64 (to_Value prevOut))) outs))))"

definition calcHashInputScripts :: "MsgTx \<Rightarrow> PrevOutputFetcher \<Rightarrow> bytes vmResult" where
  "calcHashInputScripts tx inputFetcher =
     vbind (prev_outs inputFetcher (tx_TxIn tx)) (\<lambda>outs.
     Inr (sha256 (concat (map (\<lambda>prevOut. WriteVarBytesBuf (to_PkScript prevOut)) outs))))"

record TxSigHashes =
  HashPrevOutsV0 :: bytes
  HashSequenceV0 :: bytes
  HashOutputsV0 :: bytes
  HashPrevOutsV1 :: bytes
  HashSequenceV1 :: bytes
  HashOutputsV1 :: bytes
  HashInputScriptsV1 :: bytes
  HashInputAmountsV1 :: bytes

abbreviation zeroHash :: bytes where
  "zeroHash \<equiv> replicate 32 0"

definition isWitnessTaprootScript :: "bytes \<Rightarrow> bool" where
  "isWitnessTaprootScript script = (extractWitnessV1KeyBytes script \<noteq> None)"

definition isWitnessPubKeyHashScript :: "bytes \<Rightarrow> bool" where
  "isWitnessPubKeyHashScript script = (extractWitnessPubKeyHash script \<noteq> None)"

primrec midstate_loop :: "PrevOutputFetcher \<Rightarrow> bool \<Rightarrow> bool \<Rightarrow> TxIn list \<Rightarrow> (bool \<times> bool) vmResult" where
  "midstate_loop inputFetcher hasV0Inputs hasV1Inputs [] = Inr (hasV0Inputs, hasV1Inputs)"
| "midstate_loop inputFetcher hasV0Inputs hasV1Inputs (txIn # rest) =
     (let outpoint = ti_PreviousOutPoint txIn in
      if op_Index outpoint = 0xffffffff \<and> op_Hash outpoint = zeroHash
      then midstate_loop inputFetcher True hasV1Inputs rest
      else case inputFetcher outpoint of
             None \<Rightarrow> Inl EnginePanic
           | Some prevOut \<Rightarrow>
               (let taproot = isWitnessTaprootScript (to_PkScript prevOut);
                    hasV1Inputs = (hasV1Inputs \<or> taproot);
                    hasV0Inputs = (hasV0Inputs \<or> \<not> taproot)
                in
                if hasV0Inputs \<and> hasV1Inputs then Inr (hasV0Inputs, hasV1Inputs)
                else midstate_loop inputFetcher hasV0Inputs hasV1Inputs rest))"

definition NewTxSigHashes :: "MsgTx \<Rightarrow> PrevOutputFetcher \<Rightarrow> TxSigHashes vmResult" where
  "NewTxSigHashes tx inputFetcher =
     vbind (midstate_loop inputFetcher False False (tx_TxIn tx)) (\<lambda>(hasV0Inputs, hasV1Inputs).
     let prevouts = calcHashPrevOuts tx; sequence = calcHashSequence tx; outputs = calcHashOutputs tx;
         v0 = (\<lambda>h. if hasV0Inputs then sha256 h else zeroHash) in
     vbind (if hasV1Inputs then calcHashInputAmounts tx inputFetcher else Inr zeroHash) (\<lambda>amounts.
     vbind (if hasV1Inputs then calcHashInputScripts tx inputFetcher else Inr zeroHash) (\<lambda>inputScripts.
     Inr \<lparr>HashPrevOutsV0 = v0 prevouts, HashSequenceV0 = v0 sequence, HashOutputsV0 = v0 outputs,
          HashPrevOutsV1 = prevouts, HashSequenceV1 = sequence, HashOutputsV1 = outputs,
          HashInputScriptsV1 = inputScripts, HashInputAmountsV1 = amounts\<rparr>)))"

type_synonym HashCache = "bytes \<rightharpoonup> TxSigHashes"

definition AddSigHashes :: "bytes \<Rightarrow> MsgTx \<Rightarrow> PrevOutputFetcher \<Rightarrow> HashCache \<Rightarrow> HashCache vmResult" where
  "AddSigHashes txHash tx inputFetcher h =
     vbind (NewTxSigHashes tx inputFetcher) (\<lambda>sigHashes. Inr (h(txHash \<mapsto> sigHashes)))"

definition PurgeSigHashes :: "bytes \<Rightarrow> HashCache \<Rightarrow> HashCache" where
  "PurgeSigHashes txid h = h(txid := None)"

section \<open>Digests before segregated witness\<close>

definition SigHashDefault :: int where "SigHashDefault = 0x00"
definition SigHashAll :: int where "SigHashAll = 0x1"
definition SigHashNone :: int where "SigHashNone = 0x2"
definition SigHashSingle :: int where "SigHashSingle = 0x3"
definition SigHashAnyOneCanPay :: int where "SigHashAnyOneCanPay = 0x80"
definition sigHashMask :: int where "sigHashMask = 0x1f"

abbreviation OP_CODESEPARATOR :: byte where "OP_CODESEPARATOR \<equiv> 0xab"

definition blankOutput :: "TxOut \<Rightarrow> TxOut" where
  "blankOutput to = to\<lparr>to_Value := -1, to_PkScript := []\<rparr>"

definition legacyTxCopy :: "bytes \<Rightarrow> int \<Rightarrow> MsgTx \<Rightarrow> nat \<Rightarrow> MsgTx" where
  "legacyTxCopy sigScript hashType tx idx =
     (let sigScript = removeOpcodeRaw sigScript OP_CODESEPARATOR;
          kind = hashType AND sigHashMask;
          ins = map (\<lambda>(i, ti). ti\<lparr>ti_SignatureScript := (if i = idx then sigScript else [])\<rparr>) (List.enumerate 0 (tx_TxIn tx));
          zeroed = map (\<lambda>(i, ti). if i \<noteq> idx then ti\<lparr>ti_Sequence := 0\<rparr> else ti) (List.enumerate 0 ins);
          txCopy = (if kind = SigHashNone then tx\<lparr>tx_TxIn := zeroed, tx_TxOut := []\<rparr>
                    else if kind = SigHashSingle
                    then tx\<lparr>tx_TxIn := zeroed, tx_TxOut := map blankOutput (take idx (tx_TxOut tx)) @ [tx_TxOut tx ! idx]\<rparr>
                    else tx\<lparr>tx_TxIn := ins\<rparr>)
      in
      if hashType AND SigHashAnyOneCanPay \<noteq> 0 then txCopy\<lparr>tx_TxIn := [tx_TxIn txCopy ! idx]\<rparr> else txCopy)"

definition legacyMessage :: "bytes \<Rightarrow> int \<Rightarrow> MsgTx \<Rightarrow> nat \<Rightarrow> bytes" where
  "legacyMessage sigScript hashType tx idx =
     btcEncode BaseEncoding (legacyTxCopy sigScript hashType tx idx) @ le_bytes 4 hashType"

definition calcSignatureHash :: "bytes \<Rightarrow> int \<Rightarrow> MsgTx \<Rightarrow> nat \<Rightarrow> bytes vmResult" where
  "calcSignatureHash sigScript hashType tx idx =
     (if hashType AND sigHashMask = SigHashSingle \<and> idx \<ge> length (tx_TxOut tx) then Inr (1 # replicate 31 0)
      else if hashType AND SigHashAnyOneCanPay \<noteq> 0 \<and> idx \<ge> length (tx_TxIn tx) then Inl EnginePanic
      else Inr (sha256d (legacyMessage sigScript hashType tx idx)))"

definition CalcSignatureHash :: "bytes \<Rightarrow> int \<Rightarrow> MsgTx \<Rightarrow> nat \<Rightarrow> bytes vmResult" where
  "CalcSignatureHash script hashType tx idx =
     (case checkScriptParses 0 script of Some e \<Rightarrow> Inl (ScriptErr e) | None \<Rightarrow> calcSignatureHash script hashType tx idx)"

section \<open>Digests of version 0 witness programs\<close>

definition witnessMessage :: "bytes \<Rightarrow> TxSigHashes \<Rightarrow> int \<Rightarrow> MsgTx \<Rightarrow> nat \<Rightarrow> int \<Rightarrow> bytes" where
  "witnessMessage subScript sigHashes hashType tx idx amt =
     (let txIn = tx_TxIn tx ! idx; kind = hashType AND sigHashMask in
      le_bytes 4 (u32 (tx_Version tx))
      @ (if hashType AND SigHashAnyOneCanPay = 0 then HashPrevOutsV0 sigHashes else zeroHash)
      @ (if hashType AND SigHashAnyOneCanPay = 0 \<and> kind \<noteq> SigHashSingle \<and> kind \<noteq> SigHashNone
         then HashSequenceV0 sigHashes else zeroHash)
      @ op_Hash (ti_PreviousOutPoint txIn) @ le_bytes 4 (op_Index (ti_PreviousOutPoint txIn))
      @ (case extractWitnessPubKeyHash subScript of
           Some hash \<Rightarrow> [0x19, OP_DUP, OP_HASH160, OP_DATA_20] @ hash @ [OP_EQUALVERIFY, OP_CHECKSIG]
         | None \<Rightarrow> WriteVarBytesBuf subScript)
      @ le_bytes 8 (u64 amt) @ le_bytes 4 (ti_Sequence txIn)
      @ (if kind \<noteq> SigHashSingle \<and> kind \<noteq> SigHashNone then HashOutputsV0 sigHashes
         else if kind = SigHashSingle \<and> idx < length (tx_TxOut tx) then sha256d (WriteTxOutBuf (tx_TxOut tx ! idx))
         else zeroHash)
      @ le_bytes 4 (tx_LockTime tx) @ le_bytes 4 hashType)"

definition calcWitnessSignatureHashRaw :: "bytes \<Rightarrow> TxSigHashes \<Rightarrow> int \<Rightarrow> MsgTx \<Rightarrow> nat \<Rightarrow> int \<Rightarrow> bytes vmResult" where
  "calcWitnessSignatureHashRaw subScript sigHashes hashType tx idx amt =
     (if int idx > int (length (tx_TxIn tx)) - 1 then Inl NonScriptErr
      else Inr (sha256d (witnessMessage subScript sigHashes hashType tx idx amt)))"

definition CalcWitnessSigHash :: "bytes \<Rightarrow> TxSigHashes \<Rightarrow> int \<Rightarrow> MsgTx \<Rightarrow> nat \<Rightarrow> int \<Rightarrow> bytes vmResult" where
  "CalcWitnessSigHash script sigHashes hType tx idx amt =
     (case checkScriptParses 0 script of
        Some e \<Rightarrow> Inl (ScriptErr e)
      | None \<Rightarrow> calcWitnessSignatureHashRaw script sigHashes hType tx idx amt)"

section \<open>Digests of taproot spends\<close>

definition blankCodeSepValue :: int where "blankCodeSepValue = 0xffffffff"

record taprootSigHashOptions =
  extFlag :: nat
  annexHash :: "bytes option"
  so_tapLeafHash :: bytes
  keyVersion :: byte
  so_codeSepPos :: int

definition defaultTaprootSighashOptions :: taprootSigHashOptions where
  "defaultTaprootSighashOptions =
     \<lparr>extFlag = 0, annexHash = None, so_tapLeafHash = [], keyVersion = 0, so_codeSepPos = 0\<rparr>"

definition WithAnnex :: "bytes \<Rightarrow> taprootSigHashOptions \<Rightarrow> taprootSigHashOptions" where
  "WithAnnex annex opts = opts\<lparr>annexHash := Some (sha256 (WriteVarBytesBuf annex))\<rparr>"

definition WithBaseTapscriptVersion :: "int \<Rightarrow> bytes \<Rightarrow> taprootSigHashOptions \<Rightarrow> taprootSigHashOptions" where
  "WithBaseTapscriptVersion codeSepPos tapLeafHash opts =
     opts\<lparr>extFlag := 1, so_tapLeafHash := tapLeafHash, keyVersion := 0, so_codeSepPos := codeSepPos\<rparr>"

definition writeDigestExtensions :: "taprootSigHashOptions \<Rightarrow> bytes" where
  "writeDigestExtensions t =
     (if extFlag t = 1 then so_tapLeafHash t @ [keyVersion t] @ le_bytes 4 (so_codeSepPos t) else [])"

definition isValidTaprootSigHash :: "int \<Rightarrow> bool" where
  "isValidTaprootSigHash hashType = (hashType \<in> {0x00, 0x01, 0x02, 0x03, 0x81, 0x82, 0x83})"

definition calcTaprootSignatureHashRaw ::
  "TxSigHashes \<Rightarrow> int \<Rightarrow> MsgTx \<Rightarrow> nat \<Rightarrow> PrevOutputFetcher \<Rightarrow> taprootSigHashOptions \<Rightarrow> bytes vmResult" where
  "calcTaprootSignatureHashRaw sigHashes hType tx idx prevOutFetcher opts =
     (if \<not> isValidTaprootSigHash hType then Inl NonScriptErr
      else if int idx > int (length (tx_TxIn tx)) - 1 then Inl NonScriptErr
      else
        let input = tx_TxIn tx ! idx;
            anyone = (hType AND SigHashAnyOneCanPay = SigHashAnyOneCanPay);
            spendType = word_of_int (int (extFlag opts) * 2 + (if annexHash opts \<noteq> None then 1 else 0));
            prefix = [0x00, word_of_int hType] @ le_bytes 4 (u32 (tx_Version tx)) @ le_bytes 4 (tx_LockTime tx)
              @ (if \<not> anyone then HashPrevOutsV1 sigHashes @ HashInputAmountsV1 sigHashes
                                 @ HashInputScriptsV1 sigHashes @ HashSequenceV1 sigHashes else [])
              @ (if hType AND SigHashSingle \<noteq> SigHashSingle \<and> hType AND SigHashSingle \<noteq> SigHashNone
                 then HashOutputsV1 sigHashes else [])
              @ [spendType]
        in
        vbind (if anyone
               then (case prevOutFetcher (ti_PreviousOutPoint input) of
                       None \<Rightarrow> Inl EnginePanic
                     | Some prevOut \<Rightarrow>
                         Inr (writeOutPointBuf (ti_PreviousOutPoint input) @ WriteTxOutBuf prevOut @ le_bytes 4 (ti_Sequence input)))
               else Inr (le_bytes 4 (int idx))) (\<lambda>thisInput.
        vbind (if hType AND sigHashMask = SigHashSingle
               then (if idx \<ge> length (tx_TxOut tx) then Inl NonScriptErr else Inr (sha256 (WriteTxOutBuf (tx_TxOut tx ! idx))))
               else Inr []) (\<lambda>single.
        Inr (TaggedHash TagTapSighash
               [prefix @ thisInput @ (case annexHash opts of None \<Rightarrow> [] | Some h \<Rightarrow> h) @ single @ writeDigestExtensions opts]))))"

definition CalcTaprootSignatureHash :: "TxSigHashes \<Rightarrow> int \<Rightarrow> MsgTx \<Rightarrow> nat \<Rightarrow> PrevOutputFetcher \<Rightarrow> bytes vmResult" where
  "CalcTaprootSignatureHash sigHashes hType tx idx prevOutFetcher =
     calcTaprootSignatureHashRaw sigHashes hType tx idx prevOutFetcher defaultTaprootSighashOptions"

section \<open>What a digest commits to\<close>

lemma parse_all_length: "length (concat (map (\<lambda>(op, d). tokenBytes op d) (fst (parse_all s)))) \<le> length s"
proof (induction s rule: parse_all.induct)
  case (1 s)
  show ?case
  proof (cases "parse_op s")
    case None
    then show ?thesis by (simp add: parse_all.simps [of s])
  next
    case (Some x)
    obtain op d rest where x: "x = (op, d, rest)" by (cases x) auto
    have "length s = length (tokenBytes op d) + length rest" using parse_op_bytes [of s op d rest] Some x by simp
    then show ?thesis using 1 Some x by (simp add: parse_all.simps [of s] split_beta)
  qed
qed

lemma kept_length: "length (kept P s) \<le> length s"
proof -
  have "length (concat (map f (filter Q xs))) \<le> length (concat (map f xs))" for f :: "'a \<Rightarrow> bytes" and Q xs
    by (induction xs) auto
  then show ?thesis using parse_all_length [of s] unfolding kept_def by (meson order_trans order_refl if_split)
qed

definition strip_tx :: "MsgTx \<Rightarrow> MsgTx" where
  "strip_tx tx = tx\<lparr>tx_TxIn := map strip (tx_TxIn tx)\<rparr>"

lemma encode_strip: "btcEncode BaseEncoding (strip_tx tx) = btcEncode BaseEncoding tx"
  by (simp add: btcEncode_def Let_def strip_tx_def write_strip)

lemma encode_inj:
  assumes "tx_ok BaseEncoding a" "tx_ok BaseEncoding b" "btcEncode BaseEncoding a @ r = btcEncode BaseEncoding b @ r'"
  shows "a = b \<and> r = r'"
proof -
  define s where "s = max (tx_slab a) (tx_slab b)"
  show ?thesis
    using btcDecode_btcEncode [OF assms(1), of s r] btcDecode_btcEncode [OF assms(2), of s r'] assms(3)
    by (simp add: s_def)
qed

abbreviation unseparated :: "bytes \<Rightarrow> bytes" where
  "unseparated script \<equiv> removeOpcodeRaw script OP_CODESEPARATOR"

text \<open>Hash types that sign all inputs and all outputs.\<close>

definition signs_all :: "int \<Rightarrow> bool" where
  "signs_all hashType = (hashType AND sigHashMask \<noteq> SigHashNone \<and> hashType AND sigHashMask \<noteq> SigHashSingle \<and>
     hashType AND SigHashAnyOneCanPay = 0)"

definition signing_ins :: "bytes \<Rightarrow> nat \<Rightarrow> TxIn list \<Rightarrow> TxIn list" where
  "signing_ins script idx tis =
     map (\<lambda>(i, ti). ti\<lparr>ti_SignatureScript := (if i = idx then script else [])\<rparr>) (List.enumerate 0 tis)"

lemma legacyTxCopy_all:
  "signs_all hashType \<Longrightarrow> legacyTxCopy script hashType tx idx = tx\<lparr>tx_TxIn := signing_ins (unseparated script) idx (tx_TxIn tx)\<rparr>"
  by (simp add: legacyTxCopy_def signs_all_def Let_def signing_ins_def)

lemma signing_ins_nth:
  "length (signing_ins script idx tis) = length tis"
  "i < length tis \<Longrightarrow> signing_ins script idx tis ! i = (tis ! i)\<lparr>ti_SignatureScript := (if i = idx then script else [])\<rparr>"
  by (simp_all add: signing_ins_def nth_enumerate_eq)

lemma signing_ins_ok:
  assumes "list_all txin_ok (map strip tis)" "script_ok script"
  shows "list_all txin_ok (map strip (signing_ins script idx tis))"
  using assms by (auto simp: list_all_length signing_ins_nth txin_ok_def script_ok_def maxWitnessItemSize_def)

lemma copy_ok:
  assumes "tx_ok BaseEncoding (strip_tx tx)" "script_ok script" "signs_all hashType"
  shows "tx_ok BaseEncoding (strip_tx (legacyTxCopy script hashType tx idx))"
proof -
  have "script_ok (unseparated script)"
    using assms(2) kept_length [of _ script] unfolding removeOpcodeRaw_kept script_ok_def by (meson of_nat_mono order_trans)
  then have ins: "list_all txin_ok (map strip (signing_ins (unseparated script) idx (tx_TxIn tx)))"
    using assms(1) by (intro signing_ins_ok) (simp_all add: tx_ok_def strip_tx_def)
  show ?thesis unfolding legacyTxCopy_all [OF assms(3)]
    using assms(1) ins by (simp add: tx_ok_def strip_tx_def signing_ins_nth(1) list_all_iff)
qed

text \<open>
  C36. A signature with a hash type that covers everything commits to the whole transaction: two
  digests of that kind are equal only for the same hash type, version, lock time, spent outpoints,
  sequence numbers and outputs, for the same script without its code separators and, when that script
  is not empty, for the same input. The double hash is only assumed not to collide on the two
  messages.
\<close>

theorem sighash_all_commits:
  assumes ok: "tx_ok BaseEncoding (strip_tx tx)" "tx_ok BaseEncoding (strip_tx tx')" "script_ok script" "script_ok script'"
    and ty: "signs_all ht" "signs_all ht'" "is_u32 ht" "is_u32 ht'"
    and idx: "idx < length (tx_TxIn tx)" "idx' < length (tx_TxIn tx')"
    and eq: "calcSignatureHash script ht tx idx = Inr d" "calcSignatureHash script' ht' tx' idx' = Inr d"
    and inj: "inj_on sha256d {legacyMessage script ht tx idx, legacyMessage script' ht' tx' idx'}"
  shows "ht = ht' \<and> tx_Version tx = tx_Version tx' \<and> tx_LockTime tx = tx_LockTime tx' \<and>
    map ti_PreviousOutPoint (tx_TxIn tx) = map ti_PreviousOutPoint (tx_TxIn tx') \<and>
    map ti_Sequence (tx_TxIn tx) = map ti_Sequence (tx_TxIn tx') \<and> tx_TxOut tx = tx_TxOut tx' \<and>
    unseparated script = unseparated script' \<and> (idx = idx' \<or> unseparated script = [])"
proof -
  let ?c = "legacyTxCopy script ht tx idx" and ?c' = "legacyTxCopy script' ht' tx' idx'"
  have "sha256d (legacyMessage script ht tx idx) = sha256d (legacyMessage script' ht' tx' idx')"
    using eq ty(1,2) unfolding calcSignatureHash_def signs_all_def by simp
  from inj_onD [OF inj this] have "legacyMessage script ht tx idx = legacyMessage script' ht' tx' idx'" by blast
  then have "btcEncode BaseEncoding (strip_tx ?c) @ le_bytes 4 ht = btcEncode BaseEncoding (strip_tx ?c') @ le_bytes 4 ht'"
    unfolding legacyMessage_def encode_strip .
  from encode_inj [OF copy_ok [OF ok(1,3) ty(1)] copy_ok [OF ok(2,4) ty(2)] this]
  have e: "strip_tx ?c = strip_tx ?c' \<and> le_bytes 4 ht = le_bytes 4 ht'" .
  then have ht: "ht = ht'" using le_4 [OF ty(3)] le_4 [OF ty(4)] by metis
  have fields: "tx_Version tx = tx_Version tx'" "tx_LockTime tx = tx_LockTime tx'" "tx_TxOut tx = tx_TxOut tx'"
    and ins: "map strip (signing_ins (unseparated script) idx (tx_TxIn tx)) = map strip (signing_ins (unseparated script') idx' (tx_TxIn tx'))"
    using e [THEN conjunct1, THEN arg_cong [of _ _ tx_Version]] e [THEN conjunct1, THEN arg_cong [of _ _ tx_LockTime]]
      e [THEN conjunct1, THEN arg_cong [of _ _ tx_TxOut]] e [THEN conjunct1, THEN arg_cong [of _ _ tx_TxIn]]
    by (simp_all add: strip_tx_def legacyTxCopy_all ty(1,2))
  have len: "length (tx_TxIn tx) = length (tx_TxIn tx')" using arg_cong [OF ins, of length] by (simp add: signing_ins_nth)
  have nth: "(tx_TxIn tx ! i)\<lparr>ti_SignatureScript := (if i = idx then unseparated script else []), ti_Witness := []\<rparr> =
      (tx_TxIn tx' ! i)\<lparr>ti_SignatureScript := (if i = idx' then unseparated script' else []), ti_Witness := []\<rparr>"
    if "i < length (tx_TxIn tx)" for i
    using arg_cong [OF ins, of "\<lambda>l. l ! i"] that len by (simp add: signing_ins_nth)
  have outs: "map ti_PreviousOutPoint (tx_TxIn tx) = map ti_PreviousOutPoint (tx_TxIn tx')"
    "map ti_Sequence (tx_TxIn tx) = map ti_Sequence (tx_TxIn tx')"
    using len nth [THEN arg_cong [of _ _ ti_PreviousOutPoint]] nth [THEN arg_cong [of _ _ ti_Sequence]]
    by (auto intro!: nth_equalityI)
  have scr: "(if i = idx then unseparated script else []) = (if i = idx' then unseparated script' else [])"
    if "i < length (tx_TxIn tx)" for i using arg_cong [OF nth [OF that], of ti_SignatureScript] by simp
  have "unseparated script = unseparated script' \<and> (idx = idx' \<or> unseparated script = [])"
    using scr [of idx] scr [of idx'] idx len by (cases "idx = idx'") auto
  then show ?thesis using ht fields outs by blast
qed

theorem sighash_all_commits_witness:
  "legacyMessage [0x51, 0xab] SigHashAll sample_tx 0 = legacyMessage [0x51] SigHashAll sample_tx 0 \<and>
   unseparated [0x51, 0xab] = unseparated [0x51]"
proof -
  have u: "unseparated [0x51, 0xab] = unseparated [0x51]" by code_simp
  then have m: "legacyMessage [0x51, 0xab] SigHashAll sample_tx 0 = legacyMessage [0x51] SigHashAll sample_tx 0"
    by (simp add: legacyMessage_def legacyTxCopy_def)
  have ok: "tx_ok BaseEncoding (strip_tx sample_tx)"
    by (simp add: sample_tx_def strip_tx_def tx_ok_def tx_slab_def tx_scripts_def txin_ok_def outpoint_ok_def script_ok_def
      txout_ok_def maxTxInPerMessage_def maxTxOutPerMessage_def maxWitnessItemSize_def MaxMessagePayload_def signed_divide_int_def)
  have t: "signs_all SigHashAll" "is_u32 SigHashAll" "script_ok [0x51, 0xab]" "script_ok [0x51]"
    by (simp_all add: signs_all_def SigHashAll_def sigHashMask_def SigHashNone_def SigHashSingle_def SigHashAnyOneCanPay_def script_ok_def maxWitnessItemSize_def)
  have n: "(0::nat) < length (tx_TxIn sample_tx)" by (simp add: sample_tx_def)
  have d: "calcSignatureHash s SigHashAll sample_tx 0 = Inr (sha256d (legacyMessage s SigHashAll sample_tx 0))" for s
    using t(1) by (simp add: calcSignatureHash_def signs_all_def)
  have i: "inj_on sha256d {legacyMessage [0x51, 0xab] SigHashAll sample_tx 0, legacyMessage [0x51] SigHashAll sample_tx 0}"
    unfolding m by simp
  from sighash_all_commits [OF ok ok t(3,4) t(1,1) t(2,2) n n d [of "[0x51, 0xab]", unfolded m] d [of "[0x51]"] i] m
  show ?thesis by blast
qed

end
