(* ===== verification/Btcec.thy ===== *)
theory Btcec
  imports SigHash
begin

text \<open>
  Signatures and keys: \<^verbatim>\<open>btcec/ecdsa/signature.go\<close>, \<^verbatim>\<open>btcec/schnorr\<close>, \<^verbatim>\<open>btcec/pubkey.go\<close> and the hash of
  \<^verbatim>\<open>crypto/sha1\<close>. The arithmetic of the curve is a package outside the repository: it is the record
  \<open>curve\<close>, an argument of every definition that uses it. Scalars are integers modulo the group order and
  field elements integers modulo the field prime, as that package documents.

  The lemmas show that strict signatures have one encoding, and that a Schnorr signature made with a
  key verifies under it.
\<close>

unbundle bit_operations_syntax

section \<open>SHA-1\<close>

definition rol :: "nat \<Rightarrow> word32 \<Rightarrow> word32" where
  "rol n x = push_bit n x OR drop_bit (32 - n) x"

text \<open>The message schedule, kept newest word first.\<close>

primrec sha1_schedule :: "nat \<Rightarrow> word32 list \<Rightarrow> word32 list" where
  "sha1_schedule 0 ws = ws"
| "sha1_schedule (Suc n) ws = sha1_schedule n (rol 1 (ws ! 2 XOR ws ! 7 XOR ws ! 13 XOR ws ! 15) # ws)"

definition sha1_round :: "word32 list \<Rightarrow> nat \<times> word32 \<Rightarrow> word32 list" where
  "sha1_round st tw =
     (case (st, tw) of
        ([a, b, c, d, e], (t, w)) \<Rightarrow>
          (let (f, k) = (if t < 20 then ((b AND c) OR (NOT b AND d), 0x5A827999)
                         else if t < 40 then (b XOR c XOR d, 0x6ED9EBA1)
                         else if t < 60 then ((b AND c) OR (b AND d) OR (c AND d), 0x8F1BBCDC)
                         else (b XOR c XOR d, 0xCA62C1D6))
           in [rol 5 a + f + e + w + k, a, rol 30 b, c, d])
      | _ \<Rightarrow> st)"

definition sha1_block :: "word32 list \<Rightarrow> bytes \<Rightarrow> word32 list" where
  "sha1_block hs blk =
     (let ws = rev (sha1_schedule 64 (rev (block_words 16 blk))) in
      map2 (+) hs (foldl sha1_round hs (List.enumerate 0 ws)))"

primrec sha1_blocks :: "nat \<Rightarrow> word32 list \<Rightarrow> bytes \<Rightarrow> word32 list" where
  "sha1_blocks 0 hs bs = hs"
| "sha1_blocks (Suc n) hs bs = sha1_blocks n (sha1_block hs (take 64 bs)) (drop 64 bs)"

definition sha1 :: "bytes \<Rightarrow> bytes" where
  "sha1 msg =
     (let padded = sha_pad msg in
      concat (map (\<lambda>w. be_bytes 4 (uint w))
        (sha1_blocks (length padded div 64) [0x67452301, 0xEFCDAB89, 0x98BADCFE, 0x10325476, 0xC3D2E1F0] padded)))"

lemma length_sha1_round: "length (sha1_round st tw) = length st"
  by (auto simp: sha1_round_def Let_def split: list.splits prod.splits)

lemma length_sha1_block: "length (sha1_block hs blk) = length hs"
proof -
  have "length (foldl sha1_round st xs) = length st" for st xs
    by (induction xs arbitrary: st) (simp_all add: length_sha1_round)
  then show ?thesis by (simp add: sha1_block_def Let_def)
qed

lemma length_sha1 [simp]: "length (sha1 msg) = 20"
proof -
  have "length (sha1_blocks n hs bs) = length hs" for n hs bs
    by (induction n arbitrary: hs bs) (simp_all add: length_sha1_block)
  moreover have "length (concat (map (\<lambda>w. be_bytes 4 (uint w)) ws)) = 4 * length ws" for ws :: "word32 list"
    by (induction ws) simp_all
  ultimately show ?thesis by (simp add: sha1_def Let_def)
qed

section \<open>The curve\<close>

definition curve_N :: int where
  "curve_N = 0xFFFFFFFFFFFFFFFFFFFFFFFFFFFFFFFEBAAEDCE6AF48A03BBFD25E8CD0364141"

definition field_P :: int where
  "field_P = 0xFFFFFFFFFFFFFFFFFFFFFFFFFFFFFFFFFFFFFFFFFFFFFFFFFFFFFFFEFFFFFC2F"

record 'p curve =
  parsePubKey :: "bytes \<Rightarrow> 'p option"
  serializeCompressed :: "'p \<Rightarrow> bytes"
  isOnCurve :: "'p \<Rightarrow> bool"
  scalarBaseMult :: "int \<Rightarrow> 'p"
  scalarMult :: "int \<Rightarrow> 'p \<Rightarrow> 'p"
  addPoints :: "'p \<Rightarrow> 'p \<Rightarrow> 'p"
  isInfinity :: "'p \<Rightarrow> bool"
  affineX :: "'p \<Rightarrow> int"
  affineY :: "'p \<Rightarrow> int"
  ecdsaVerify :: "int \<times> int \<Rightarrow> bytes \<Rightarrow> 'p \<Rightarrow> bool"
  nonceRFC6979 :: "bytes \<Rightarrow> bytes \<Rightarrow> bytes \<Rightarrow> int \<Rightarrow> int"
  ripemd160 :: "bytes \<Rightarrow> bytes"

section \<open>ECDSA signatures\<close>

definition MinSigLen :: nat where "MinSigLen = 8"
definition MaxSigLen :: nat where "MaxSigLen = 72"

definition canonicalPadding :: "bytes \<Rightarrow> bool" where
  "canonicalPadding b =
     (if b ! 0 AND 0x80 = 0x80 then False
      else if length b > 1 \<and> b ! 0 = 0x00 \<and> b ! 1 AND 0x80 \<noteq> 0x80 then False
      else True)"

definition sig_scalar :: "bool \<Rightarrow> bytes \<Rightarrow> int option" where
  "sig_scalar der b =
     (if der \<and> \<not> canonicalPadding b then None
      else
        let b = dropWhile (\<lambda>x. x = 0x00) b in
        if length b > 32 then None
        else if be_val b \<ge> curve_N then None
        else if be_val b = 0 then None
        else Some (be_val b))"

definition parseSig :: "bytes \<Rightarrow> bool \<Rightarrow> (int \<times> int) option" where
  "parseSig sigStr der =
     (if length sigStr < MinSigLen then None
      else if der \<and> length sigStr > MaxSigLen then None
      else if sigStr ! 0 \<noteq> 0x30 then None
      else
        let siglen = unat (sigStr ! 1 + 2) in
        if siglen > length sigStr \<or> siglen < MinSigLen then None
        else
          let sigStr = take siglen sigStr in
          if sigStr ! 2 \<noteq> 0x02 then None
          else
            let rLen = unat (sigStr ! 3) in
            if rLen = 0 \<or> int rLen > int (length sigStr) - 4 - 3 then None
            else
              case sig_scalar der (slice 4 (4 + rLen) sigStr) of
                None \<Rightarrow> None
              | Some r \<Rightarrow>
                  if sigStr ! (4 + rLen) \<noteq> 0x02 then None
                  else
                    let sLen = unat (sigStr ! (5 + rLen)); index = 6 + rLen in
                    if sLen = 0 \<or> int sLen > int (length sigStr) - int index then None
                    else
                      case sig_scalar der (slice index (index + sLen) sigStr) of
                        None \<Rightarrow> None
                      | Some s \<Rightarrow> if index + sLen \<noteq> length sigStr then None else Some (r, s))"

definition ParseSignature :: "bytes \<Rightarrow> (int \<times> int) option" where
  "ParseSignature sigStr = parseSig sigStr False"

definition ParseDERSignature :: "bytes \<Rightarrow> (int \<times> int) option" where
  "ParseDERSignature sigStr = parseSig sigStr True"

definition IsCompressedPubKey :: "bytes \<Rightarrow> bool" where
  "IsCompressedPubKey pubKey = (length pubKey = 33 \<and> pubKey ! 0 AND NOT 1 = 0x2)"

section \<open>Schnorr signatures\<close>

text \<open>Errors of the package, one for each way it fails.\<close>

datatype schnorrError =
    SigTooShort | SigTooLong | SigRTooBig | InvalidHashLen | PubKeyInvalid | PubKeyNotOnCurve
  | SigRNotOnCurve | SigRYIsOdd | UnequalRValues | SchnorrHashValue | PrivateKeyIsZero

type_synonym schnorrSig = "int \<times> int"

definition TagBIP0340Challenge :: bytes where "TagBIP0340Challenge = ascii ''BIP0340/challenge''"
definition TagBIP0340Aux :: bytes where "TagBIP0340Aux = ascii ''BIP0340/aux''"
definition TagBIP0340Nonce :: bytes where "TagBIP0340Nonce = ascii ''BIP0340/nonce''"

definition schnorr_ParsePubKey :: "'p curve \<Rightarrow> bytes \<Rightarrow> 'p option" where
  "schnorr_ParsePubKey C pubKeyStr =
     (if length pubKeyStr \<noteq> 32 then None else parsePubKey C (0x02 # pubKeyStr))"

definition SerializePubKey :: "'p curve \<Rightarrow> 'p \<Rightarrow> bytes" where
  "SerializePubKey C pub = drop 1 (serializeCompressed C pub)"

definition schnorr_Serialize :: "schnorrSig \<Rightarrow> bytes" where
  "schnorr_Serialize sig = be_bytes 32 (fst sig) @ be_bytes 32 (snd sig)"

definition schnorr_ParseSignature :: "bytes \<Rightarrow> schnorrError + schnorrSig" where
  "schnorr_ParseSignature sig =
     (if length sig < 64 then Inl SigTooShort
      else if length sig > 64 then Inl SigTooLong
      else if be_val (take 32 sig) \<ge> field_P then Inl SigRTooBig
      else Inr (be_val (take 32 sig), be_val (slice 32 64 sig) mod curve_N))"

definition challenge :: "int \<Rightarrow> bytes \<Rightarrow> bytes \<Rightarrow> bytes" where
  "challenge r pBytes hash = TaggedHash TagBIP0340Challenge [be_bytes 32 r, pBytes, hash]"

definition schnorrVerify :: "'p curve \<Rightarrow> schnorrSig \<Rightarrow> bytes \<Rightarrow> bytes \<Rightarrow> schnorrError option" where
  "schnorrVerify C sig hash pubKeyBytes =
     (if length hash \<noteq> 32 then Some InvalidHashLen
      else case schnorr_ParsePubKey C pubKeyBytes of
        None \<Rightarrow> Some PubKeyInvalid
      | Some pubKey \<Rightarrow>
          if \<not> isOnCurve C pubKey then Some PubKeyNotOnCurve
          else
            let (r, s) = sig;
                e = be_val (challenge r (SerializePubKey C pubKey) hash) mod curve_N;
                e = (- e) mod curve_N;
                R = addPoints C (scalarBaseMult C s) (scalarMult C e pubKey)
            in
            if isInfinity C R then Some SigRNotOnCurve
            else if odd (affineY C R) then Some SigRYIsOdd
            else if r \<noteq> affineX C R then Some UnequalRValues
            else None)"

definition schnorr_Verify :: "'p curve \<Rightarrow> schnorrSig \<Rightarrow> bytes \<Rightarrow> 'p \<Rightarrow> bool" where
  "schnorr_Verify C sig hash pubKey = (schnorrVerify C sig hash (SerializePubKey C pubKey) = None)"

definition schnorrSign :: "'p curve \<Rightarrow> int \<Rightarrow> int \<Rightarrow> 'p \<Rightarrow> bytes \<Rightarrow> bool \<Rightarrow> schnorrError + schnorrSig" where
  "schnorrSign C privKey nonce pubKey hash fastSign =
     (let R = scalarBaseMult C nonce;
          k = (if odd (affineY C R) then (- nonce) mod curve_N else nonce);
          pBytes = SerializePubKey C pubKey;
          commitment = be_val (challenge (affineX C R) pBytes hash)
      in
      if commitment \<ge> curve_N then Inl SchnorrHashValue
      else
        let s = (commitment * privKey mod curve_N + k) mod curve_N; sig = (affineX C R, s) in
        if fastSign then Inr sig
        else case schnorrVerify C sig hash pBytes of Some e \<Rightarrow> Inl e | None \<Rightarrow> Inr sig)"

text \<open>
  The loop of \<^verbatim>\<open>Sign\<close> tries one nonce after the other until one gives a signature; not returning is
  None.
\<close>

definition rfc6979ExtraDataV0 :: bytes where
  "rfc6979ExtraDataV0 =
     [0xa3, 0xeb, 0x4c, 0x18, 0x2f, 0xae, 0x7e, 0xf4, 0xe8, 0x10, 0xc6, 0xee, 0x13, 0xb0, 0xe9, 0x26,
      0x68, 0x6d, 0x71, 0xe8, 0x7f, 0x39, 0x4f, 0x79, 0x9c, 0x00, 0xa5, 0x21, 0x03, 0xcb, 0x4e, 0x17]"

partial_function (option) sign_loop :: "'p curve \<Rightarrow> int \<Rightarrow> 'p \<Rightarrow> bytes \<Rightarrow> bool \<Rightarrow> int \<Rightarrow> schnorrSig option" where
  "sign_loop C d pub hash fastSign iteration =
     (let k = nonceRFC6979 C (be_bytes 32 d) hash rfc6979ExtraDataV0 iteration in
      case schnorrSign C d k pub hash fastSign of
        Inl _ \<Rightarrow> sign_loop C d pub hash fastSign (u32 (iteration + 1))
      | Inr sig \<Rightarrow> Some sig)"

record signOptions =
  fastSign :: bool
  authNonce :: "bytes option"

definition aux_nonce :: "int \<Rightarrow> bytes \<Rightarrow> bytes \<Rightarrow> bytes \<Rightarrow> int" where
  "aux_nonce d auxData pBytes hash =
     (let t = map2 (XOR) (TaggedHash TagBIP0340Aux [auxData]) (be_bytes 32 d) in
      be_val (TaggedHash TagBIP0340Nonce [t, pBytes, hash]) mod curve_N)"

definition Sign :: "'p curve \<Rightarrow> int \<Rightarrow> bytes \<Rightarrow> signOptions \<Rightarrow> (schnorrError + schnorrSig) option" where
  "Sign C privKey hash opts =
     (if length hash \<noteq> 32 then Some (Inl InvalidHashLen)
      else if privKey = 0 then Some (Inl PrivateKeyIsZero)
      else
        let pub = scalarBaseMult C privKey;
            pubKeyBytes = serializeCompressed C pub;
            d = (if pubKeyBytes ! 0 = 0x03 then (- privKey) mod curve_N else privKey)
        in
        case authNonce opts of
          Some auxData \<Rightarrow>
            (let kPrime = aux_nonce d auxData (drop 1 pubKeyBytes) hash in
             if kPrime = 0 then Some (Inl SchnorrHashValue)
             else Some (schnorrSign C d kPrime pub hash (fastSign opts)))
        | None \<Rightarrow> map_option Inr (sign_loop C d pub hash (fastSign opts) 0))"

section \<open>Strict encodings\<close>

text \<open>The minimal encoding of a positive number, with a zero byte where the high bit is set.\<close>

definition trimmed :: "bytes \<Rightarrow> bytes" where
  "trimmed b = dropWhile (\<lambda>x. x = 0x00) b"

definition der_int :: "int \<Rightarrow> bytes" where
  "der_int n = (let b = trimmed (be_bytes 32 n) in if b ! 0 AND 0x80 = 0x80 then 0x00 # b else b)"

definition der_sig :: "int \<Rightarrow> int \<Rightarrow> bytes" where
  "der_sig r s =
     (let body = [0x02, of_nat (length (der_int r))] @ der_int r @ [0x02, of_nat (length (der_int s))] @ der_int s
      in [0x30, of_nat (length body)] @ body)"

lemma be_val_Cons: "be_val (x # xs) = uint x * 256 ^ length xs + be_val xs"
  by (induction xs rule: rev_induct) (simp_all add: be_val_def algebra_simps flip: append_Cons)

lemma be_val_trimmed [simp]: "be_val (trimmed b) = be_val b"
  by (induction b) (simp_all add: trimmed_def be_val_Cons)

lemma trimmed_nonzero: "trimmed b = [] \<longleftrightarrow> be_val b = 0"
proof
  assume "be_val b = 0"
  then show "trimmed b = []"
  proof (induction b)
    case (Cons x xs)
    have "0 \<le> uint x * 256 ^ length xs" by simp
    then have "uint x * 256 ^ length xs = 0" "be_val xs = 0"
      using Cons.prems add_nonneg_eq_0_iff [OF _ be_val_nonneg [of xs]] by (simp_all only: be_val_Cons)
    moreover from this have "x = 0" by (simp add: uint_0_iff)
    ultimately show ?case using Cons.IH by (simp add: trimmed_def)
  qed (simp add: trimmed_def)
qed (metis be_val_trimmed be_val_Nil)

lemma trimmed_pad: "\<exists>n. b = replicate n 0 @ trimmed b"
proof (induction b)
  case (Cons x xs)
  then obtain n where "xs = replicate n 0 @ trimmed xs" by blast
  then have "x = 0 \<Longrightarrow> x # xs = replicate (Suc n) 0 @ trimmed (x # xs)" by (simp add: trimmed_def)
  moreover have "x \<noteq> 0 \<Longrightarrow> x # xs = replicate 0 0 @ trimmed (x # xs)" by (simp add: trimmed_def)
  ultimately show ?case by blast
qed (simp add: trimmed_def)

lemma trimmed_hd: "trimmed b \<noteq> [] \<Longrightarrow> trimmed b ! 0 \<noteq> 0"
  by (induction b) (auto simp: trimmed_def)

lemma trimmed_id: "b = [] \<or> b ! 0 \<noteq> 0 \<Longrightarrow> trimmed b = b"
  by (cases b) (auto simp: trimmed_def)

text \<open>Two byte strings without leading zeros are equal when their values are.\<close>

lemma trimmed_replicate: "trimmed (replicate n 0 @ b) = trimmed b"
  by (induction n) (simp_all add: trimmed_def)

lemma trimmed_be_bytes:
  assumes "length b \<le> n" "b = [] \<or> b ! 0 \<noteq> 0"
  shows "trimmed (be_bytes n (be_val b)) = b"
proof -
  have v: "be_val (replicate k 0 @ b) = be_val b" for k by (induction k) (simp_all add: be_val_Cons)
  have "be_bytes n (be_val (replicate (n - length b) 0 @ b)) = replicate (n - length b) 0 @ b"
    using assms(1) by (intro be_bytes_be_val) simp
  then show ?thesis using v trimmed_replicate trimmed_id [OF assms(2)] by metis
qed

lemma curve_N_bounds: "0 < curve_N" "curve_N < 256 ^ 32"
  by (simp_all add: curve_N_def)

lemma length_trimmed: "length (trimmed b) \<le> length b"
  by (simp add: trimmed_def length_dropWhile_le)

lemma high_bit_0: "(0 :: byte) AND 0x80 \<noteq> 0x80"
  by simp

text \<open>In strict mode a number is accepted exactly in its minimal encoding.\<close>

lemma sig_scalar_der:
  assumes "b \<noteq> []"
  shows "sig_scalar True b = Some v \<longleftrightarrow> 0 < v \<and> v < curve_N \<and> b = der_int v"
proof
  assume s: "sig_scalar True b = Some v"
  then have p: "canonicalPadding b" and l: "length (trimmed b) \<le> 32" and v: "v = be_val b" "v < curve_N" "v \<noteq> 0"
    by (auto simp: sig_scalar_def trimmed_def [symmetric] Let_def split: if_splits)
  have ne: "trimmed b \<noteq> []" using v trimmed_nonzero by blast
  have t: "trimmed (be_bytes 32 v) = trimmed b"
    using trimmed_be_bytes [OF l] trimmed_hd [OF ne] v(1) by simp
  have "b = der_int v"
  proof (cases "b ! 0 = 0")
    case False
    then have "trimmed b = b" by (simp add: trimmed_id)
    then show ?thesis using t p by (auto simp: der_int_def canonicalPadding_def split: if_splits)
  next
    case True
    obtain xs where b: "b = 0 # xs" using True assms by (cases b) auto
    then have x: "trimmed b = trimmed xs" by (simp add: trimmed_def)
    then have "xs \<noteq> []" using ne by (auto simp: trimmed_def)
    then have h: "xs ! 0 AND 0x80 = 0x80" using p b by (cases xs) (auto simp: canonicalPadding_def split: if_splits)
    then have "trimmed xs = xs" using high_bit_0 by (intro trimmed_id) auto
    then show ?thesis using t x h b by (simp add: der_int_def)
  qed
  moreover have "0 < v" using v be_val_nonneg [of b] by linarith
  ultimately show "0 < v \<and> v < curve_N \<and> b = der_int v" using v by blast
next
  assume a: "0 < v \<and> v < curve_N \<and> b = der_int v"
  define t where "t = trimmed (be_bytes 32 v)"
  have val: "be_val t = v" using a curve_N_bounds by (simp add: t_def be_val_be_bytes)
  then have "t \<noteq> []" using a by auto
  then have h: "t ! 0 \<noteq> 0" using trimmed_hd t_def by blast
  have b: "b = (if t ! 0 AND 0x80 = 0x80 then 0 # t else t)" using a by (simp add: der_int_def t_def)
  have tb: "trimmed b = t" using b h trimmed_id [of t] by (simp add: trimmed_def)
  have l: "length t \<le> 32" using length_trimmed [of "be_bytes 32 v"] by (simp add: t_def)
  have "canonicalPadding b" using b h \<open>t \<noteq> []\<close> by (auto simp: canonicalPadding_def)
  then show "sig_scalar True b = Some v"
    using conjunct1 [OF a] conjunct1 [OF conjunct2 [OF a]] l val
    by (simp add: sig_scalar_def trimmed_def [symmetric] tb Let_def)
qed

lemma sig_layout:
  fixes a b c d e f :: byte and R S :: bytes
  defines "x \<equiv> [a, b, c, d] @ R @ [e, f] @ S"
  shows "x ! 0 = a" "x ! 1 = b" "x ! 2 = c" "x ! 3 = d" "x ! (4 + length R) = e" "x ! (5 + length R) = f"
    "slice 4 (4 + length R) x = R" "slice (6 + length R) (6 + length R + length S) x = S"
    "length x = 6 + length R + length S"
  by (simp_all add: x_def nth_append slice_def numeral_eq_Suc)

lemma sig_split:
  assumes "length T = 6 + n + m"
  shows "T = [T ! 0, T ! 1, T ! 2, T ! 3] @ slice 4 (4 + n) T @ [T ! (4 + n), T ! (5 + n)] @ slice (6 + n) (6 + n + m) T"
proof -
  have "slice (4 + n) (6 + n + m) T = [T ! (4 + n), T ! (5 + n)] @ slice (6 + n) (6 + n + m) T"
    using assms by (simp add: slice_step numeral_eq_Suc)
  moreover have "slice 4 (6 + n + m) T = slice 4 (4 + n) T @ slice (4 + n) (6 + n + m) T"
    by (rule slice_split) simp_all
  moreover have "slice 0 (6 + n + m) T = [T ! 0, T ! 1, T ! 2, T ! 3] @ slice 4 (6 + n + m) T"
    using assms by (simp add: slice_step numeral_eq_Suc)
  ultimately show ?thesis using assms by simp
qed

lemma length_der_int: "0 < v \<Longrightarrow> v < curve_N \<Longrightarrow> 0 < length (der_int v) \<and> length (der_int v) \<le> 33"
proof -
  assume v: "0 < v" "v < curve_N"
  have "length (trimmed (be_bytes 32 v)) \<le> 32" using length_trimmed [of "be_bytes 32 v"] by simp
  moreover have "trimmed (be_bytes 32 v) \<noteq> []" using v curve_N_bounds by (simp add: trimmed_nonzero be_val_be_bytes)
  ultimately show ?thesis by (simp add: der_int_def Let_def)
qed

lemma byte_of_nat: "n < 256 \<Longrightarrow> unat (of_nat n :: byte) = n"
  by (simp add: unsigned_of_nat take_bit_eq_mod)

lemma parseSig_canonical:
  assumes "parseSig sig True = Some (r, s)"
  shows "0 < r \<and> r < curve_N \<and> 0 < s \<and> s < curve_N \<and> length sig \<le> MaxSigLen \<and> (\<exists>rest. sig = der_sig r s @ rest)"
proof -
  define n where "n = unat (sig ! 1 + 2)"
  define T where "T = take n sig"
  define rl where "rl = unat (T ! 3)"
  define sl where "sl = unat (T ! (5 + rl))"
  have a: "length sig \<le> MaxSigLen" "sig ! 0 = 0x30" "n \<le> length sig" "MinSigLen \<le> n" "T ! 2 = 0x02" "rl \<noteq> 0"
    "sig_scalar True (slice 4 (4 + rl) T) = Some r" "T ! (4 + rl) = 0x02" "sl \<noteq> 0"
    "sig_scalar True (slice (6 + rl) (6 + rl + sl) T) = Some s" "6 + rl + sl = length T"
    using assms unfolding parseSig_def Let_def n_def [symmetric] T_def [symmetric] rl_def [symmetric] sl_def [symmetric]
    by (auto split: if_splits option.splits)
  have lT: "length T = n" using a(3) by (simp add: T_def)
  have T: "T = [0x30, sig ! 1, 0x02, T ! 3] @ slice 4 (4 + rl) T @ [0x02, T ! (5 + rl)] @ slice (6 + rl) (6 + rl + sl) T"
    using sig_split [OF a(11) [symmetric]] a(2,5,8,4) by (simp add: T_def MinSigLen_def)
  have "slice 4 (4 + rl) T \<noteq> []" "slice (6 + rl) (6 + rl + sl) T \<noteq> []" using a(6,9,11) by (auto simp flip: length_0_conv)
  then have r: "0 < r" "r < curve_N" "slice 4 (4 + rl) T = der_int r" and s: "0 < s" "s < curve_N" "slice (6 + rl) (6 + rl + sl) T = der_int s"
    using a(7,10) sig_scalar_der by blast+
  have lr: "length (der_int r) = rl" using a(11) unfolding r(3) [symmetric] by simp
  have ls: "length (der_int s) = sl" using a(11) unfolding s(3) [symmetric] by simp
  have "of_nat n = sig ! 1 + 2" by (simp add: n_def)
  moreover have "of_nat n = of_nat (4 + rl + sl) + (2 :: byte)" unfolding lT [symmetric] a(11) [symmetric] by (simp add: algebra_simps)
  ultimately have "sig ! 1 = of_nat (4 + rl + sl)" by (metis add_right_cancel)
  moreover have "T ! 3 = of_nat rl" "T ! (5 + rl) = of_nat sl" by (simp_all add: rl_def sl_def)
  ultimately have "T = der_sig r s" using T unfolding r(3) s(3) by (simp add: der_sig_def lr ls)
  then have "sig = der_sig r s @ drop n sig" by (metis T_def append_take_drop_id)
  then show ?thesis using a(1) r s by blast
qed

lemma parseSig_der_sig:
  assumes "0 < r" "r < curve_N" "0 < s" "s < curve_N" "length (der_sig r s @ rest) \<le> MaxSigLen"
  shows "parseSig (der_sig r s @ rest) True = Some (r, s)"
proof -
  let ?R = "der_int r" and ?S = "der_int s"
  let ?T = "[0x30, of_nat (4 + length ?R + length ?S), 0x02, of_nat (length ?R)] @ ?R @ [0x02, of_nat (length ?S)] @ ?S"
  have T: "der_sig r s = ?T" by (simp add: der_sig_def Let_def)
  have l: "0 < length ?R" "length ?R \<le> 33" "0 < length ?S" "length ?S \<le> 33" using length_der_int assms by blast+
  note lay = sig_layout [where a = "0x30" and b = "of_nat (4 + length ?R + length ?S)" and c = "0x02" and d = "of_nat (length ?R)"
    and R = ?R and e = "0x02" and f = "of_nat (length ?S)" and S = ?S, folded T]
  have m: "2 \<le> length ?R + length ?S" using l(1,3) by linarith
  have "?R \<noteq> []" "?S \<noteq> []" using l by auto
  note m = m this
  have n: "unat (der_sig r s ! 1 + 2) = 6 + length ?R + length ?S"
  proof -
    have "der_sig r s ! 1 + 2 = of_nat (6 + length ?R + length ?S)" unfolding lay(2) by simp
    then show ?thesis using l by (simp only: byte_of_nat)
  qed
  have sc: "sig_scalar True ?R = Some r" "sig_scalar True ?S = Some s" using sig_scalar_der [of ?R r] sig_scalar_der [of ?S s] l assms by auto
  have idx: "(der_sig r s @ rest) ! 0 = der_sig r s ! 0" "(der_sig r s @ rest) ! 1 = der_sig r s ! 1" using lay(9) by (simp_all add: nth_append)
  have tk: "take (6 + length ?R + length ?S) (der_sig r s @ rest) = der_sig r s" using lay(9) by simp
  have u: "unat (der_sig r s ! 3) = length ?R" "unat (der_sig r s ! (5 + length ?R)) = length ?S"
    using l by (simp_all only: lay byte_of_nat)
  show ?thesis
    unfolding parseSig_def idx n Let_def tk u lay(7,8) sc
    using assms(5) l(2,4) m lay(1,3,5,9) by (simp add: MinSigLen_def)
qed

text \<open>
  C37. Strict parsing accepts one encoding per signature. \<^verbatim>\<open>ParseDERSignature\<close> returns the pair of numbers
  exactly for inputs of at most 72 bytes that begin with the minimal encoding of that pair, both in the
  range from 1 to the group order exclusive. Bytes after the encoding are ignored.
\<close>

theorem ParseDERSignature_canonical:
  "ParseDERSignature sig = Some (r, s) \<longleftrightarrow>
   0 < r \<and> r < curve_N \<and> 0 < s \<and> s < curve_N \<and> length sig \<le> MaxSigLen \<and> (\<exists>rest. sig = der_sig r s @ rest)"
  unfolding ParseDERSignature_def using parseSig_canonical parseSig_der_sig by blast

section \<open>Signing and verifying\<close>

text \<open>
  What the package of the curve documents: the multiples of the generator form a cyclic group of the
  given order, a multiple is at infinity only for a multiple of the order, the negation of a point has
  the same first coordinate and the other parity, and a compressed key holds the parity and the first
  coordinate.
\<close>

definition curve_laws :: "'p curve \<Rightarrow> bool" where
  "curve_laws C \<longleftrightarrow>
     (\<forall>a b. addPoints C (scalarBaseMult C a) (scalarBaseMult C b) = scalarBaseMult C ((a + b) mod curve_N)) \<and>
     (\<forall>a b. scalarMult C a (scalarBaseMult C b) = scalarBaseMult C (a * b mod curve_N)) \<and>
     (\<forall>a. serializeCompressed C (scalarBaseMult C a) =
        (if odd (affineY C (scalarBaseMult C a)) then 0x03 else 0x02) # be_bytes 32 (affineX C (scalarBaseMult C a))) \<and>
     (\<forall>a. a mod curve_N \<noteq> 0 \<longrightarrow>
        \<not> isInfinity C (scalarBaseMult C a) \<and> isOnCurve C (scalarBaseMult C a) \<and>
        affineX C (scalarBaseMult C (- a mod curve_N)) = affineX C (scalarBaseMult C a) \<and>
        odd (affineY C (scalarBaseMult C (- a mod curve_N))) \<noteq> odd (affineY C (scalarBaseMult C a)) \<and>
        parsePubKey C (0x02 # be_bytes 32 (affineX C (scalarBaseMult C a))) =
          Some (scalarBaseMult C (if odd (affineY C (scalarBaseMult C a)) then - a mod curve_N else a)))"

definition even_key :: "'p curve \<Rightarrow> int \<Rightarrow> int" where
  "even_key C a = (if odd (affineY C (scalarBaseMult C a)) then - a mod curve_N else a)"

lemma scalar_neg: "0 < a \<Longrightarrow> a < curve_N \<Longrightarrow> 0 < - a mod curve_N \<and> - a mod curve_N < curve_N"
  using curve_N_bounds by (simp add: zmod_zminus1_eq_if)

lemma scalar_nonzero: "0 < a \<Longrightarrow> a < curve_N \<Longrightarrow> a mod curve_N \<noteq> 0"
  by simp

lemma even_key_point:
  assumes "curve_laws C" "0 < a" "a < curve_N"
  shows "0 < even_key C a" "even_key C a < curve_N"
    "even (affineY C (scalarBaseMult C (even_key C a)))"
    "affineX C (scalarBaseMult C (even_key C a)) = affineX C (scalarBaseMult C a)"
    "\<not> isInfinity C (scalarBaseMult C (even_key C a))" "isOnCurve C (scalarBaseMult C (even_key C a))"
proof -
  show b: "0 < even_key C a" "even_key C a < curve_N" using assms scalar_neg [of a] by (auto simp: even_key_def)
  show "\<not> isInfinity C (scalarBaseMult C (even_key C a))" "isOnCurve C (scalarBaseMult C (even_key C a))"
    using assms(1) scalar_nonzero [OF b] unfolding curve_laws_def by metis+
  have "affineX C (scalarBaseMult C (- a mod curve_N)) = affineX C (scalarBaseMult C a) \<and>
      odd (affineY C (scalarBaseMult C (- a mod curve_N))) \<noteq> odd (affineY C (scalarBaseMult C a))"
    using assms(1) scalar_nonzero [OF assms(2,3)] unfolding curve_laws_def by metis
  then show "even (affineY C (scalarBaseMult C (even_key C a)))"
    "affineX C (scalarBaseMult C (even_key C a)) = affineX C (scalarBaseMult C a)" by (auto simp: even_key_def split: if_splits)
qed

lemma SerializePubKey_base:
  assumes "curve_laws C"
  shows "SerializePubKey C (scalarBaseMult C a) = be_bytes 32 (affineX C (scalarBaseMult C a))"
    "serializeCompressed C (scalarBaseMult C a) ! 0 = 0x03 \<longleftrightarrow> odd (affineY C (scalarBaseMult C a))"
  using assms by (simp_all add: SerializePubKey_def curve_laws_def)

lemma schnorr_ParsePubKey_base:
  assumes "curve_laws C" "0 < a" "a < curve_N"
  shows "schnorr_ParsePubKey C (be_bytes 32 (affineX C (scalarBaseMult C a))) = Some (scalarBaseMult C (even_key C a))"
  using assms(1) scalar_nonzero [OF assms(2,3)] unfolding curve_laws_def schnorr_ParsePubKey_def even_key_def by simp

lemma signature_point:
  assumes "curve_laws C" "0 < k" "k < curve_N"
  shows "addPoints C (scalarBaseMult C ((c * d mod curve_N + k) mod curve_N))
      (scalarMult C (- (c mod curve_N) mod curve_N) (scalarBaseMult C d)) = scalarBaseMult C k"
proof -
  have "((c * d mod curve_N + k) mod curve_N + (- (c mod curve_N) mod curve_N) * d mod curve_N) mod curve_N
      = (c * d + k + - c * d) mod curve_N"
    by (simp only: mod_simps)
  also have "\<dots> = k" using assms by simp
  finally show ?thesis using assms(1) by (simp add: curve_laws_def)
qed

lemma schnorrSign_verifies:
  assumes "curve_laws C" "0 < d" "d < curve_N" "0 < k" "k < curve_N" "length hash = 32"
  shows "(case schnorrSign C (even_key C d) k (scalarBaseMult C d) hash f of
            Inl e \<Rightarrow> e = SchnorrHashValue \<and>
              curve_N \<le> be_val (challenge (affineX C (scalarBaseMult C k)) (SerializePubKey C (scalarBaseMult C d)) hash)
          | Inr sig \<Rightarrow> schnorr_Verify C sig hash (scalarBaseMult C d))"
proof -
  define r p c where "r = affineX C (scalarBaseMult C k)" and "p = SerializePubKey C (scalarBaseMult C d)"
    and "c = be_val (challenge r p hash)"
  define s where "s = (c * even_key C d mod curve_N + even_key C k) mod curve_N"
  have P: "schnorr_ParsePubKey C p = Some (scalarBaseMult C (even_key C d))"
    using schnorr_ParsePubKey_base [OF assms(1-3)] by (simp only: p_def SerializePubKey_base [OF assms(1)])
  have p: "SerializePubKey C (scalarBaseMult C (even_key C d)) = p"
    unfolding p_def SerializePubKey_base [OF assms(1)] even_key_point(4) [OF assms(1-3)] ..
  have R: "addPoints C (scalarBaseMult C s) (scalarMult C (- (c mod curve_N) mod curve_N) (scalarBaseMult C (even_key C d)))
      = scalarBaseMult C (even_key C k)"
    unfolding s_def by (rule signature_point [OF assms(1) even_key_point(1,2) [OF assms(1,4,5)]])
  have v: "schnorrVerify C (r, s) hash p = None"
    unfolding schnorrVerify_def P Let_def case_prod_conv option.case p c_def [symmetric] R
    using even_key_point [OF assms(1-3)] even_key_point [OF assms(1,4,5)] assms(6) by (simp add: r_def)
  have "schnorrSign C (even_key C d) k (scalarBaseMult C d) hash f = (if curve_N \<le> c then Inl SchnorrHashValue else Inr (r, s))"
    unfolding schnorrSign_def Let_def even_key_def [symmetric] r_def [symmetric] p_def [symmetric] c_def [symmetric] s_def [symmetric] v by simp
  then show ?thesis using v by (simp add: schnorr_Verify_def p_def [symmetric] c_def r_def)
qed

text \<open>Every nonce is in range, as the package promises of its generator.\<close>

definition nonces_in_range :: "'p curve \<Rightarrow> bool" where
  "nonces_in_range C \<longleftrightarrow> (\<forall>d h x i. 0 < nonceRFC6979 C d h x i \<and> nonceRFC6979 C d h x i < curve_N)"

abbreviation iteration_nonce :: "'p curve \<Rightarrow> int \<Rightarrow> bytes \<Rightarrow> int \<Rightarrow> int" where
  "iteration_nonce C d hash i \<equiv> nonceRFC6979 C (be_bytes 32 (even_key C d)) hash rfc6979ExtraDataV0 i"

abbreviation iteration_overflows :: "'p curve \<Rightarrow> int \<Rightarrow> bytes \<Rightarrow> int \<Rightarrow> bool" where
  "iteration_overflows C d hash i \<equiv>
     curve_N \<le> be_val (challenge (affineX C (scalarBaseMult C (iteration_nonce C d hash i))) (SerializePubKey C (scalarBaseMult C d)) hash)"

lemma sign_loop_returns:
  assumes "curve_laws C" "nonces_in_range C" "0 < d" "d < curve_N" "length hash = 32"
    and "\<not> iteration_overflows C d hash (int (i + n))" "i + n < 2 ^ 32"
  shows "\<exists>sig. sign_loop C (even_key C d) (scalarBaseMult C d) hash f (int i) = Some sig"
  using assms(6,7)
proof (induction n arbitrary: i)
  case 0
  have "0 < iteration_nonce C d hash (int i)" "iteration_nonce C d hash (int i) < curve_N"
    using assms(2) by (simp_all add: nonces_in_range_def)
  from schnorrSign_verifies [OF assms(1,3,4) this assms(5), of f] show ?case
    using 0 by (subst sign_loop.simps) (simp add: Let_def split: sum.splits)
next
  case (Suc n)
  have "u32 (int i + 1) = int (i + 1)" using Suc.prems(2) by (simp add: u32_def)
  then show ?case
    using Suc.IH [of "i + 1"] Suc.prems by (subst sign_loop.simps) (simp add: Let_def add.commute split: sum.splits)
qed

lemma sign_loop_verifies:
  assumes "curve_laws C" "nonces_in_range C" "0 < d" "d < curve_N" "length hash = 32"
    and "sign_loop C (even_key C d) (scalarBaseMult C d) hash f i = Some sig"
  shows "schnorr_Verify C sig hash (scalarBaseMult C d)"
proof -
  have "(C' = C \<and> dk = even_key C d \<and> pub = scalarBaseMult C d \<and> h = hash) \<longrightarrow> schnorr_Verify C sig hash (scalarBaseMult C d)"
    if "sign_loop C' dk pub h f i = Some sig" for C' dk pub h f i sig
    using that
  proof (rule sign_loop.raw_induct [where P = "\<lambda>C' dk pub h f i sig.
      (C' = C \<and> dk = even_key C d \<and> pub = scalarBaseMult C d \<and> h = hash) \<longrightarrow> schnorr_Verify C sig hash (scalarBaseMult C d)", rotated])
    fix sl :: "'a curve \<Rightarrow> int \<Rightarrow> 'a \<Rightarrow> bytes \<Rightarrow> bool \<Rightarrow> int \<Rightarrow> schnorrSig option" and C' dk pub h f i sig
    assume IH: "\<And>C' dk pub h f i sig. sl C' dk pub h f i = Some sig \<Longrightarrow>
        (C' = C \<and> dk = even_key C d \<and> pub = scalarBaseMult C d \<and> h = hash) \<longrightarrow> schnorr_Verify C sig hash (scalarBaseMult C d)"
      and body: "(let k = nonceRFC6979 C' (be_bytes 32 dk) h rfc6979ExtraDataV0 i in
        case schnorrSign C' dk k pub h f of Inl _ \<Rightarrow> sl C' dk pub h f (u32 (i + 1)) | Inr sig \<Rightarrow> Some sig) = Some sig"
    have "0 < iteration_nonce C d hash i" "iteration_nonce C d hash i < curve_N"
      using assms(2) by (simp_all add: nonces_in_range_def)
    from schnorrSign_verifies [OF assms(1,3,4) this assms(5), of f] body
    show "(C' = C \<and> dk = even_key C d \<and> pub = scalarBaseMult C d \<and> h = hash) \<longrightarrow> schnorr_Verify C sig hash (scalarBaseMult C d)"
      using IH by (auto simp: Let_def split: sum.splits)
  qed
  then show ?thesis using assms(6) by blast
qed

text \<open>
  The integers modulo the order satisfy the laws: a point is its discrete logarithm, the smaller of a
  number and its negation is the first coordinate and the comparison of the two the parity.
\<close>

definition log_curve :: "int curve" where
  "log_curve =
     \<lparr>parsePubKey = (\<lambda>b. Some (be_val (drop 1 b))),
      serializeCompressed = (\<lambda>k. (if k \<le> curve_N div 2 then 0x02 else 0x03) # be_bytes 32 (min k (curve_N - k))),
      isOnCurve = (\<lambda>_. True), scalarBaseMult = (\<lambda>a. a mod curve_N), scalarMult = (\<lambda>a k. a * k mod curve_N),
      addPoints = (\<lambda>j k. (j + k) mod curve_N), isInfinity = (\<lambda>k. k = 0),
      affineX = (\<lambda>k. min k (curve_N - k)), affineY = (\<lambda>k. if k \<le> curve_N div 2 then 0 else 1),
      ecdsaVerify = (\<lambda>_ _ _. False), nonceRFC6979 = (\<lambda>_ _ _ _. 1), ripemd160 = sha1\<rparr>"

lemma log_curve_coordinate:
  assumes "a mod curve_N \<noteq> 0"
  shows "min (a mod curve_N) (curve_N - a mod curve_N) mod 256 ^ 32 =
     (if a mod curve_N \<le> curve_N div 2 then a mod curve_N else - a mod curve_N)"
proof -
  have b: "0 < a mod curve_N" "a mod curve_N < curve_N"
    using assms pos_mod_bound [OF curve_N_bounds(1), of a] pos_mod_sign [OF curve_N_bounds(1), of a] by linarith+
  have "0 \<le> min (a mod curve_N) (curve_N - a mod curve_N)" "min (a mod curve_N) (curve_N - a mod curve_N) < 256 ^ 32"
    using b curve_N_bounds by linarith+
  then have "min (a mod curve_N) (curve_N - a mod curve_N) mod 256 ^ 32 = min (a mod curve_N) (curve_N - a mod curve_N)"
    by (rule mod_pos_pos_trivial)
  then show ?thesis using assms b by (auto simp: zmod_zminus1_eq_if)
qed

lemma log_curve_laws: "curve_laws log_curve" "nonces_in_range log_curve"
proof -
  have half: "a mod curve_N \<noteq> 0 \<Longrightarrow> (- a mod curve_N \<le> curve_N div 2) \<noteq> (a mod curve_N \<le> curve_N div 2)" for a
  proof -
    have "curve_N = 2 * (curve_N div 2) + 1" by (simp add: curve_N_def)
    then show "a mod curve_N \<noteq> 0 \<Longrightarrow> ?thesis" by (simp only: zmod_zminus1_eq_if if_False) linarith
  qed
  have neg: "a mod curve_N \<noteq> 0 \<Longrightarrow> min (- a mod curve_N) (curve_N - - a mod curve_N) = min (a mod curve_N) (curve_N - a mod curve_N)" for a
    by (simp add: zmod_zminus1_eq_if min.commute)
  have par: "a mod curve_N \<noteq> 0 \<Longrightarrow> be_val (be_bytes 32 (min (a mod curve_N) (curve_N - a mod curve_N))) =
      (if a mod curve_N \<le> curve_N div 2 then a mod curve_N else - a mod curve_N)" for a
    unfolding be_val_be_bytes by (rule log_curve_coordinate)
  show "curve_laws log_curve"
    unfolding curve_laws_def log_curve_def curve.simps
    using half neg par by (simp add: mod_simps)
  show "nonces_in_range log_curve" by (simp add: nonces_in_range_def log_curve_def curve_N_def)
qed

section \<open>Properties\<close>

text \<open>
  C38. Signing yields signatures that verify. For a private key in range and a message of 32 bytes,
  \<^verbatim>\<open>Sign\<close> returns a signature that \<^verbatim>\<open>Verify\<close> accepts under the public key of that private key, whether
  or not the signer checks it. It fails only with a custom nonce, with the error for an unusable hash, and
  it runs forever only if no iteration gives a challenge below the group order.
\<close>

theorem Sign_verifies:
  assumes "curve_laws C" "nonces_in_range C" "0 < d" "d < curve_N" "length hash = 32"
  shows "case Sign C d hash opts of
      None \<Rightarrow> authNonce opts = None \<and> (\<forall>i. i < 2 ^ 32 \<longrightarrow> iteration_overflows C d hash (int i))
    | Some (Inl e) \<Rightarrow> authNonce opts \<noteq> None \<and> e = SchnorrHashValue
    | Some (Inr sig) \<Rightarrow> schnorr_Verify C sig hash (scalarBaseMult C d)"
proof -
  have d: "(if serializeCompressed C (scalarBaseMult C d) ! 0 = 0x03 then - d mod curve_N else d) = even_key C d"
    by (simp only: SerializePubKey_base(2) [OF assms(1)] even_key_def)
  show ?thesis
  proof (cases "authNonce opts")
    case None
    then have "Sign C d hash opts = map_option Inr (sign_loop C (even_key C d) (scalarBaseMult C d) hash (fastSign opts) (int 0))"
      using assms(3,5) by (simp add: Sign_def Let_def d)
    moreover have "iteration_overflows C d hash (int i)"
      if "sign_loop C (even_key C d) (scalarBaseMult C d) hash (fastSign opts) (int 0) = None" "i < 2 ^ 32" for i
      using sign_loop_returns [OF assms, of 0 i "fastSign opts"] that by auto
    ultimately show ?thesis using None sign_loop_verifies [OF assms] by (auto split: option.splits)
  next
    case (Some a)
    define k where "k = aux_nonce (even_key C d) a (drop 1 (serializeCompressed C (scalarBaseMult C d))) hash"
    have s: "Sign C d hash opts = (if k = 0 then Some (Inl SchnorrHashValue) else Some (schnorrSign C (even_key C d) k (scalarBaseMult C d) hash (fastSign opts)))"
      using assms(3,5) Some by (simp add: Sign_def Let_def d k_def)
    have "0 \<le> k" "k < curve_N" using curve_N_bounds(1) by (simp_all add: k_def aux_nonce_def)
    then show ?thesis
      using s Some schnorrSign_verifies [OF assms(1,3,4) _ _ assms(5), of k "fastSign opts"]
      by (auto split: option.splits sum.splits)
  qed
qed

theorem Sign_verifies_witness:
  "case Sign log_curve 5 (replicate 32 7) \<lparr>fastSign = True, authNonce = Some (replicate 32 0)\<rparr> of
     None \<Rightarrow> False
   | Some (Inl e) \<Rightarrow> e = SchnorrHashValue
   | Some (Inr sig) \<Rightarrow> schnorr_Verify log_curve sig (replicate 32 7) 5"
proof -
  have "(0 :: int) < 5" "5 < curve_N" "length (replicate 32 (7 :: byte)) = 32" "scalarBaseMult log_curve 5 = 5"
    by (simp_all add: curve_N_def log_curve_def)
  then show ?thesis
    using Sign_verifies [OF log_curve_laws, of 5 "replicate 32 7" "\<lparr>fastSign = True, authNonce = Some (replicate 32 0)\<rparr>"]
    by (auto split: option.splits sum.splits)
qed

text \<open>
  C39. Encodings of Schnorr signatures. Parsing inverts \<^verbatim>\<open>Serialize\<close>. The second number is reduced and not
  checked, so a signature whose second number is small has a second encoding, with the group order added, and no other,
  although the documentation of \<^verbatim>\<open>ParseSignature\<close> demands that it be in range.
\<close>

theorem schnorr_encodings:
  assumes "0 \<le> r" "r < field_P" "0 \<le> s" "s < curve_N"
  shows "{b. schnorr_ParseSignature b = Inr (r, s)} =
    {schnorr_Serialize (r, s)} \<union> (if s + curve_N < 2 ^ 256 then {schnorr_Serialize (r, s + curve_N)} else {})"
proof -
  have P: "field_P < 256 ^ 32" "256 ^ 32 = (2 :: int) ^ 256" "2 ^ 256 < 2 * curve_N" "curve_N < 2 ^ 256"
    by (simp_all add: field_P_def curve_N_def)
  have parse: "schnorr_ParseSignature b = Inr (r, s) \<longleftrightarrow> length b = 64 \<and> be_val (take 32 b) = r \<and> be_val (drop 32 b) mod curve_N = s" for b
    using assms by (auto simp: schnorr_ParseSignature_def slice_def split: if_splits)
  have ser: "schnorr_ParseSignature (schnorr_Serialize (r, t)) = Inr (r, s)" if "t mod curve_N = s" "0 \<le> t" "t < 2 ^ 256" for t
    using that assms P by (simp add: parse schnorr_Serialize_def be_val_be_bytes)
  have "b = schnorr_Serialize (r, s) \<or> s + curve_N < 2 ^ 256 \<and> b = schnorr_Serialize (r, s + curve_N)"
    if b: "schnorr_ParseSignature b = Inr (r, s)" for b
  proof -
    define t where "t = be_val (drop 32 b)"
    have l: "length b = 64" and r: "be_val (take 32 b) = r" and s: "t mod curve_N = s" using b parse t_def by auto
    have t: "0 \<le> t" "t < 2 ^ 256" using be_val_less [of "drop 32 b" 32] l P(2) by (simp_all add: t_def)
    have "b = schnorr_Serialize (r, t)"
      using be_bytes_be_val [of "take 32 b" 32] be_bytes_be_val [of "drop 32 b" 32] l
      by (simp add: schnorr_Serialize_def r [symmetric] t_def)
    moreover have "t = s \<or> t = s + curve_N"
    proof (cases "t < curve_N")
      case False
      then have "(t - curve_N) mod curve_N = t - curve_N" using t P(3) by (intro mod_pos_pos_trivial) linarith+
      then show ?thesis using s minus_mod_self2 [of t curve_N] by simp
    qed (use s t in simp)
    ultimately show ?thesis using t by auto
  qed
  then show ?thesis using ser [of s] ser [of "s + curve_N"] assms P by auto
qed

theorem schnorr_encodings_witness:
  "{b. schnorr_ParseSignature b = Inr (1, 2)} = {schnorr_Serialize (1, 2), schnorr_Serialize (1, 2 + curve_N)}"
  using schnorr_encodings [of 1 2] by (simp add: field_P_def curve_N_def insert_commute)

end
