(* ===== verification/Taproot.thy ===== *)
theory Taproot
  imports Btcec
begin

text \<open>
  Taproot outputs: \<^verbatim>\<open>txscript/taproot.go\<close>. A tree of scripts is the datatype \<open>TapNode\<close>; assembling it
  also gives each leaf the hashes on its way to the root, which the code collects in an array indexed
  through a map from the hash of a leaf to its position.

  The lemmas show that the hashes collected for a leaf lead to the root of the assembled tree, and that
  the control block made of them, written and parsed, opens the commitment in the output key.
\<close>

unbundle bit_operations_syntax

section \<open>Leaves and branches\<close>

record TapLeaf =
  LeafVersion :: byte
  tl_Script :: bytes

datatype TapNode = Leaf TapLeaf | Branch TapNode TapNode

definition BaseLeafVersion :: byte where "BaseLeafVersion = 0xc0"

definition NewBaseTapLeaf :: "bytes \<Rightarrow> TapLeaf" where
  "NewBaseTapLeaf script = \<lparr>LeafVersion = BaseLeafVersion, tl_Script = script\<rparr>"

definition TapLeaf_TapHash :: "TapLeaf \<Rightarrow> bytes" where
  "TapLeaf_TapHash t = TaggedHash TagTapLeaf [LeafVersion t # WriteVarBytesBuf (tl_Script t)]"

definition tapBranchHash :: "bytes \<Rightarrow> bytes \<Rightarrow> bytes" where
  "tapBranchHash l r = (if l > r then TaggedHash TagTapBranch [r, l] else TaggedHash TagTapBranch [l, r])"

primrec TapHash :: "TapNode \<Rightarrow> bytes" where
  "TapHash (Leaf t) = TapLeaf_TapHash t"
| "TapHash (Branch l r) = tapBranchHash (TapHash l) (TapHash r)"

primrec leafDescendants :: "TapNode \<Rightarrow> TapNode list" where
  "leafDescendants (Leaf t) = [Leaf t]"
| "leafDescendants (Branch l r) = leafDescendants l @ leafDescendants r"

definition hashTapNodes :: "TapNode option \<Rightarrow> TapNode option \<Rightarrow> bytes option \<times> bytes option \<times> TapNode option" where
  "hashTapNodes left right =
     (case left of
        None \<Rightarrow> (None, None, None)
      | Some l \<Rightarrow> (case right of
                      None \<Rightarrow> (None, None, Some l)
                    | Some r \<Rightarrow> (Some (TapHash l), Some (TapHash r), Some (Branch l r))))"

section \<open>Control blocks\<close>

definition ControlBlockBaseSize :: nat where "ControlBlockBaseSize = 33"
definition ControlBlockNodeSize :: nat where "ControlBlockNodeSize = 32"
definition ControlBlockMaxNodeCount :: nat where "ControlBlockMaxNodeCount = 128"

definition ControlBlockMaxSize :: nat where
  "ControlBlockMaxSize = ControlBlockBaseSize + ControlBlockNodeSize * ControlBlockMaxNodeCount"

definition TaprootLeafMask :: byte where "TaprootLeafMask = 0xfe"

record 'p ControlBlock =
  InternalKey :: 'p
  OutputKeyYIsOdd :: bool
  cb_LeafVersion :: byte
  InclusionProof :: bytes

definition ControlBlock_ToBytes :: "'p curve \<Rightarrow> 'p ControlBlock \<Rightarrow> bytes" where
  "ControlBlock_ToBytes C c =
     [cb_LeafVersion c OR (if OutputKeyYIsOdd c then 1 else 0)] @ SerializePubKey C (InternalKey c) @ InclusionProof c"

primrec root_loop :: "nat \<Rightarrow> bytes \<Rightarrow> bytes \<Rightarrow> bytes" where
  "root_loop 0 merkleAccumulator proof = merkleAccumulator"
| "root_loop (Suc n) merkleAccumulator proof =
     root_loop n (tapBranchHash merkleAccumulator (take 32 proof)) (drop 32 proof)"

definition RootHash :: "'p ControlBlock \<Rightarrow> bytes \<Rightarrow> bytes" where
  "RootHash c revealedScript =
     root_loop (length (InclusionProof c) div ControlBlockNodeSize)
       (TapLeaf_TapHash \<lparr>LeafVersion = cb_LeafVersion c, tl_Script = revealedScript\<rparr>) (InclusionProof c)"

definition ParseControlBlock :: "'p curve \<Rightarrow> bytes \<Rightarrow> 'p ControlBlock vmResult" where
  "ParseControlBlock C ctrlBlock =
     (if length ctrlBlock < ControlBlockBaseSize then Inl (ScriptErr ErrControlBlockTooSmall)
      else if length ctrlBlock > ControlBlockMaxSize then Inl (ScriptErr ErrControlBlockTooLarge)
      else if (length ctrlBlock - ControlBlockBaseSize) mod ControlBlockNodeSize \<noteq> 0
      then Inl (ScriptErr ErrControlBlockInvalidLength)
      else case schnorr_ParsePubKey C (slice 1 33 ctrlBlock) of
        None \<Rightarrow> Inl NonScriptErr
      | Some pubKey \<Rightarrow>
          Inr \<lparr>InternalKey = pubKey, OutputKeyYIsOdd = (ctrlBlock ! 0 AND 0x01 = 0x01),
               cb_LeafVersion = ctrlBlock ! 0 AND TaprootLeafMask, InclusionProof = drop 33 ctrlBlock\<rparr>)"

section \<open>Output keys\<close>

definition tapTweak :: "bytes \<Rightarrow> bytes \<Rightarrow> int" where
  "tapTweak key scriptRoot = be_val (TaggedHash TagTapTweak [key, scriptRoot]) mod curve_N"

definition ComputeTaprootOutputKey :: "'p curve \<Rightarrow> 'p \<Rightarrow> bytes \<Rightarrow> 'p vmResult" where
  "ComputeTaprootOutputKey C pubKey scriptRoot =
     (case schnorr_ParsePubKey C (SerializePubKey C pubKey) of
        None \<Rightarrow> Inl EnginePanic
      | Some internalKey \<Rightarrow>
          Inr (addPoints C internalKey (scalarBaseMult C (tapTweak (SerializePubKey C internalKey) scriptRoot))))"

definition ComputeTaprootKeyNoScript :: "'p curve \<Rightarrow> 'p \<Rightarrow> 'p vmResult" where
  "ComputeTaprootKeyNoScript C internalKey = ComputeTaprootOutputKey C internalKey []"

definition TweakTaprootPrivKey :: "'p curve \<Rightarrow> int \<Rightarrow> bytes \<Rightarrow> int" where
  "TweakTaprootPrivKey C privKey scriptRoot =
     (let pubKeyBytes = serializeCompressed C (scalarBaseMult C privKey);
          privKeyScalar = (if pubKeyBytes ! 0 = 0x03 then (- privKey) mod curve_N else privKey)
      in (privKeyScalar + tapTweak (drop 1 pubKeyBytes) scriptRoot) mod curve_N)"

definition VerifyTaprootLeafCommitment :: "'p curve \<Rightarrow> 'p ControlBlock \<Rightarrow> bytes \<Rightarrow> bytes \<Rightarrow> unit vmResult" where
  "VerifyTaprootLeafCommitment C controlBlock taprootWitnessProgram revealedScript =
     vbind (ComputeTaprootOutputKey C (InternalKey controlBlock) (RootHash controlBlock revealedScript)) (\<lambda>taprootKey.
     if SerializePubKey C taprootKey \<noteq> taprootWitnessProgram then Inl (ScriptErr ErrTaprootMerkleProofInvalid)
     else if OutputKeyYIsOdd controlBlock \<noteq> (serializeCompressed C taprootKey ! 0 = 0x03)
     then Inl (ScriptErr ErrTaprootOutputKeyParityMismatch)
     else Inr ())"

definition PayToTaprootScript :: "'p curve \<Rightarrow> 'p \<Rightarrow> bytes \<times> ScriptError option" where
  "PayToTaprootScript C taprootKey = Script (AddData (SerializePubKey C taprootKey) (AddOp OP_1 NewScriptBuilder))"

section \<open>Assembling a tree\<close>

record TapscriptProof =
  tp_TapLeaf :: TapLeaf
  tp_RootNode :: "TapNode option"
  tp_InclusionProof :: bytes

record IndexedTapScriptTree =
  RootNode :: "TapNode option"
  LeafMerkleProofs :: "TapscriptProof list"
  LeafProofIndex :: "bytes \<rightharpoonup> nat"

definition emptyProof :: TapscriptProof where
  "emptyProof = \<lparr>tp_TapLeaf = \<lparr>LeafVersion = 0, tl_Script = []\<rparr>, tp_RootNode = None, tp_InclusionProof = []\<rparr>"

definition NewIndexedTapScriptTree :: "nat \<Rightarrow> IndexedTapScriptTree" where
  "NewIndexedTapScriptTree numLeaves =
     \<lparr>RootNode = None, LeafMerkleProofs = replicate numLeaves emptyProof, LeafProofIndex = Map.empty\<rparr>"

definition leaf_index :: "TapLeaf list \<Rightarrow> bytes \<rightharpoonup> nat" where
  "leaf_index leaves = foldl (\<lambda>m (i, leaf). m(TapLeaf_TapHash leaf \<mapsto> i)) Map.empty (List.enumerate 0 leaves)"

text \<open>A lookup of a missing key gives 0.\<close>

definition proof_at :: "(bytes \<rightharpoonup> nat) \<Rightarrow> TapNode \<Rightarrow> nat" where
  "proof_at index node = (case index (TapHash node) of None \<Rightarrow> 0 | Some i \<Rightarrow> i)"

definition extend :: "nat \<Rightarrow> bytes \<Rightarrow> TapscriptProof list \<Rightarrow> TapscriptProof list" where
  "extend i h ps = ps[i := (ps ! i)\<lparr>tp_InclusionProof := tp_InclusionProof (ps ! i) @ h\<rparr>]"

definition set_leaf :: "nat \<Rightarrow> TapLeaf \<Rightarrow> TapscriptProof list \<Rightarrow> TapscriptProof list" where
  "set_leaf i leaf ps = ps[i := (ps ! i)\<lparr>tp_TapLeaf := leaf\<rparr>]"

fun leaf_loop ::
  "(bytes \<rightharpoonup> nat) \<Rightarrow> nat \<Rightarrow> TapLeaf list \<Rightarrow> TapNode list \<times> TapscriptProof list \<Rightarrow> (TapNode list \<times> TapscriptProof list) vmResult" where
  "leaf_loop index i [] (branches, ps) = Inr (branches, ps)"
| "leaf_loop index i [leaf] (branches, ps) =
     (if branches = [] then Inl EnginePanic
      else case last branches of
        Leaf _ \<Rightarrow> Inl EnginePanic
      | Branch l r \<Rightarrow>
          (let branchToMerge = Branch l r;
               ps = extend i (TapHash branchToMerge) (set_leaf i leaf ps);
               ps = extend (proof_at index l) (TapLeaf_TapHash leaf) ps;
               ps = extend (proof_at index r) (TapLeaf_TapHash leaf) ps
           in Inr (butlast branches @ [Branch branchToMerge (Leaf leaf)], ps)))"
| "leaf_loop index i (left # right # rest) (branches, ps) =
     (let ps = extend i (TapLeaf_TapHash right) (set_leaf i left ps);
          ps = extend (i + 1) (TapLeaf_TapHash left) (set_leaf (i + 1) right ps)
      in leaf_loop index (i + 2) rest (branches @ [Branch (Leaf left) (Leaf right)], ps))"

definition extend_all :: "(bytes \<rightharpoonup> nat) \<Rightarrow> TapNode list \<Rightarrow> bytes \<Rightarrow> TapscriptProof list \<Rightarrow> TapscriptProof list" where
  "extend_all index nodes h ps = foldl (\<lambda>ps node. extend (proof_at index node) h ps) ps nodes"

function merge_loop ::
  "(bytes \<rightharpoonup> nat) \<Rightarrow> TapNode list \<Rightarrow> TapscriptProof list \<Rightarrow> TapNode option \<times> TapscriptProof list" where
  "merge_loop index [] ps = (None, ps)"
| "merge_loop index [b] ps = (Some b, ps)"
| "merge_loop index (left # right # branches) ps =
     merge_loop index (branches @ [Branch left right])
       (extend_all index (leafDescendants right) (TapHash left) (extend_all index (leafDescendants left) (TapHash right) ps))"
  by pat_completeness auto
termination by (relation "measure (\<lambda>(_, bs, _). length bs)") simp_all

definition AssembleTaprootScriptTree :: "TapLeaf list \<Rightarrow> IndexedTapScriptTree vmResult" where
  "AssembleTaprootScriptTree leaves =
     (case leaves of
        [leaf] \<Rightarrow>
          Inr \<lparr>RootNode = Some (Leaf leaf),
               LeafMerkleProofs = [\<lparr>tp_TapLeaf = leaf, tp_RootNode = Some (Leaf leaf), tp_InclusionProof = []\<rparr>],
               LeafProofIndex = [TapLeaf_TapHash leaf \<mapsto> 0]\<rparr>
      | _ \<Rightarrow>
          (let index = leaf_index leaves in
           vbind (leaf_loop index 0 leaves ([], replicate (length leaves) emptyProof)) (\<lambda>(branches, ps).
           let (rootNode, ps) = merge_loop index branches ps in
           Inr \<lparr>RootNode = rootNode, LeafMerkleProofs = map (\<lambda>p. p\<lparr>tp_RootNode := rootNode\<rparr>) ps, LeafProofIndex = index\<rparr>)))"

definition ToControlBlock :: "'p curve \<Rightarrow> TapscriptProof \<Rightarrow> 'p \<Rightarrow> 'p ControlBlock vmResult" where
  "ToControlBlock C t internalKey =
     (case tp_RootNode t of
        None \<Rightarrow> Inl EnginePanic
      | Some node \<Rightarrow>
          vbind (ComputeTaprootOutputKey C internalKey (TapHash node)) (\<lambda>taprootKey.
          Inr \<lparr>InternalKey = internalKey, OutputKeyYIsOdd = (serializeCompressed C taprootKey ! 0 = 0x03),
               cb_LeafVersion = LeafVersion (tp_TapLeaf t), InclusionProof = tp_InclusionProof t\<rparr>))"

section \<open>Proofs of inclusion\<close>

lemma length_TaggedHash [simp]: "length (TaggedHash tag msgs) = 32"
  by (simp add: TaggedHash_def Let_def)

lemma length_TapHash [simp]: "length (TapHash n) = 32" "length (TapLeaf_TapHash t) = 32"
  by (cases n) (simp_all add: TapLeaf_TapHash_def tapBranchHash_def)

lemma tapBranchHash_commute: "tapBranchHash l r = tapBranchHash r l"
  by (auto simp: tapBranchHash_def)

lemma root_loop_snoc:
  "length p = 32 * k \<Longrightarrow> length h = 32 \<Longrightarrow> root_loop (Suc k) acc (p @ h) = tapBranchHash (root_loop k acc p) h"
proof (induction k arbitrary: acc p)
  case (Suc k)
  have "root_loop (Suc (Suc k)) acc (p @ h) = root_loop (Suc k) (tapBranchHash acc (take 32 p)) (drop 32 p @ h)"
    using Suc.prems by simp
  also have "\<dots> = tapBranchHash (root_loop k (tapBranchHash acc (take 32 p)) (drop 32 p)) h"
    using Suc.prems by (intro Suc.IH) simp_all
  finally show ?case by simp
qed simp

lemma leaf_index_nth:
  "distinct (map TapLeaf_TapHash leaves) \<Longrightarrow> i < length leaves \<Longrightarrow> leaf_index leaves (TapLeaf_TapHash (leaves ! i)) = Some i"
proof (induction leaves rule: rev_induct)
  case (snoc x xs)
  have e: "leaf_index (xs @ [x]) = (leaf_index xs)(TapLeaf_TapHash x \<mapsto> length xs)"
    by (simp add: leaf_index_def enumerate_append_eq)
  show ?case
  proof (cases "i < length xs")
    case True
    then have "TapLeaf_TapHash (xs ! i) \<in> TapLeaf_TapHash ` set xs" by simp
    then have "TapLeaf_TapHash (xs ! i) \<noteq> TapLeaf_TapHash x" using snoc.prems(1) by auto
    then show ?thesis using snoc True by (simp add: e nth_append)
  next
    case False
    then have "i = length xs" using snoc.prems(2) by simp
    then show ?thesis by (simp add: e)
  qed
qed simp

abbreviation leaf_at :: "(bytes \<rightharpoonup> nat) \<Rightarrow> TapLeaf \<Rightarrow> nat" where
  "leaf_at index t \<equiv> proof_at index (Leaf t)"

text \<open>The leaves below a node, and the proofs collected for them up to that node.\<close>

primrec tap_leaves :: "TapNode \<Rightarrow> TapLeaf list" where
  "tap_leaves (Leaf t) = [t]"
| "tap_leaves (Branch l r) = tap_leaves l @ tap_leaves r"

lemma leafDescendants_tap: "leafDescendants n = map Leaf (tap_leaves n)"
  by (induction n) simp_all

definition leads_to :: "TapLeaf \<Rightarrow> TapscriptProof \<Rightarrow> TapNode \<Rightarrow> bool" where
  "leads_to t p node \<longleftrightarrow> tp_TapLeaf p = t \<and>
     (\<exists>k. length (tp_InclusionProof p) = 32 * k \<and> k < length (tap_leaves node) \<and>
          root_loop k (TapLeaf_TapHash t) (tp_InclusionProof p) = TapHash node)"

definition proved :: "(bytes \<rightharpoonup> nat) \<Rightarrow> TapscriptProof list \<Rightarrow> TapNode \<Rightarrow> bool" where
  "proved index ps node \<longleftrightarrow> (\<forall>t \<in> set (tap_leaves node). leaf_at index t < length ps \<and> leads_to t (ps ! leaf_at index t) node)"

abbreviation with_hash :: "bytes \<Rightarrow> TapscriptProof \<Rightarrow> TapscriptProof" where
  "with_hash h p \<equiv> p\<lparr>tp_InclusionProof := tp_InclusionProof p @ h\<rparr>"

lemma leads_to_branch:
  assumes "leads_to t p l"
  shows "leads_to t (with_hash (TapHash r) p) (Branch l r)" "leads_to t (with_hash (TapHash r) p) (Branch r l)"
proof -
  obtain k where k: "length (tp_InclusionProof p) = 32 * k" "k < length (tap_leaves l)"
    "root_loop k (TapLeaf_TapHash t) (tp_InclusionProof p) = TapHash l" and t: "tp_TapLeaf p = t"
    using assms by (auto simp: leads_to_def)
  have len: "0 < length (tap_leaves n)" for n by (induction n) auto
  have "root_loop (Suc k) (TapLeaf_TapHash t) (tp_InclusionProof p @ TapHash r) = tapBranchHash (TapHash l) (TapHash r)"
    using root_loop_snoc [OF k(1)] k(3) by (metis length_TapHash(1))
  moreover have "Suc k < length (tap_leaves l) + length (tap_leaves r)" using k(2) len [of r] by linarith
  ultimately show "leads_to t (with_hash (TapHash r) p) (Branch l r)" "leads_to t (with_hash (TapHash r) p) (Branch r l)"
    using k(1) t tapBranchHash_commute [of "TapHash r" "TapHash l"] unfolding leads_to_def
    by (auto simp del: root_loop.simps intro!: exI [of _ "Suc k"])
qed

lemma proved_branch:
  assumes "proved index ps l" "proved index ps r" "length ps' = length ps"
    and "\<And>t. t \<in> set (tap_leaves l) \<Longrightarrow> ps' ! leaf_at index t = with_hash (TapHash r) (ps ! leaf_at index t)"
    and "\<And>t. t \<in> set (tap_leaves r) \<Longrightarrow> ps' ! leaf_at index t = with_hash (TapHash l) (ps ! leaf_at index t)"
  shows "proved index ps' (Branch l r)"
  unfolding proved_def
proof
  fix t assume "t \<in> set (tap_leaves (Branch l r))"
  then consider "t \<in> set (tap_leaves l)" | "t \<in> set (tap_leaves r)" by auto
  then show "leaf_at index t < length ps' \<and> leads_to t (ps' ! leaf_at index t) (Branch l r)"
  proof cases
    case 1
    then have "leaf_at index t < length ps \<and> leads_to t (ps ! leaf_at index t) l" using assms(1) by (auto simp: proved_def)
    then show ?thesis using leads_to_branch(1) assms(3) assms(4) [OF 1] by simp
  next
    case 2
    then have "leaf_at index t < length ps \<and> leads_to t (ps ! leaf_at index t) r" using assms(2) by (auto simp: proved_def)
    then show ?thesis using leads_to_branch(2) assms(3) assms(5) [OF 2] by simp
  qed
qed

lemma proved_frame:
  "proved index ps b \<Longrightarrow> length ps' = length ps \<Longrightarrow>
   (\<And>t. t \<in> set (tap_leaves b) \<Longrightarrow> ps' ! leaf_at index t = ps ! leaf_at index t) \<Longrightarrow> proved index ps' b"
  by (auto simp: proved_def)

lemma extend_all_nth:
  assumes "distinct (map (leaf_at index) ts)" "\<And>t. t \<in> set ts \<Longrightarrow> leaf_at index t < length ps"
  shows "length (extend_all index (map Leaf ts) h ps) = length ps"
    "extend_all index (map Leaf ts) h ps ! j = (if j \<in> leaf_at index ` set ts then with_hash h (ps ! j) else ps ! j)"
proof -
  show l: "length (extend_all index (map Leaf ts) h ps) = length ps" for ps
    unfolding extend_all_def by (induction ts arbitrary: ps) (simp_all add: extend_def)
  show "extend_all index (map Leaf ts) h ps ! j = (if j \<in> leaf_at index ` set ts then with_hash h (ps ! j) else ps ! j)"
    using assms
  proof (induction ts rule: rev_induct)
    case (snoc t ts)
    have "extend_all index (map Leaf (ts @ [t])) h ps = extend (leaf_at index t) h (extend_all index (map Leaf ts) h ps)"
      by (simp add: extend_all_def)
    moreover have "length (extend_all index (map Leaf ts) h ps) = length ps"
      unfolding extend_all_def by (induction ts arbitrary: ps) (simp_all add: extend_def)
    ultimately show ?case
      using snoc by (auto simp: extend_def nth_list_update image_iff)
  qed (simp add: extend_all_def)
qed

abbreviation distinct_indices :: "(bytes \<rightharpoonup> nat) \<Rightarrow> TapNode list \<Rightarrow> bool" where
  "distinct_indices index branches \<equiv> distinct (map (leaf_at index) (concat (map tap_leaves branches)))"

lemma merge_loop_proved:
  assumes "branches \<noteq> []" "distinct_indices index branches" "\<forall>b \<in> set branches. proved index ps b"
  shows "\<exists>r ps'. merge_loop index branches ps = (Some r, ps') \<and> proved index ps' r \<and> length ps' = length ps \<and>
    mset (tap_leaves r) = mset (concat (map tap_leaves branches))"
  using assms
proof (induction index branches ps rule: merge_loop.induct)
  case (3 index left right branches ps)
  define ps1 where "ps1 = extend_all index (leafDescendants left) (TapHash right) ps"
  define ps2 where "ps2 = extend_all index (leafDescendants right) (TapHash left) ps1"
  have pl: "proved index ps left" and pr: "proved index ps right" using "3.prems"(3) by auto
  have d: "distinct (map (leaf_at index) (tap_leaves left))" "distinct (map (leaf_at index) (tap_leaves right))"
    "leaf_at index ` set (tap_leaves left) \<inter> leaf_at index ` set (tap_leaves right) = {}"
    using "3.prems"(2) by auto
  have D: "leaf_at index ` set (tap_leaves left) \<inter> leaf_at index ` set (concat (map tap_leaves branches)) = {}"
    "leaf_at index ` set (tap_leaves right) \<inter> leaf_at index ` set (concat (map tap_leaves branches)) = {}"
    using "3.prems"(2) unfolding list.map concat.simps map_append distinct_append set_append set_map by blast+
  have in_rest: "leaf_at index t \<in> leaf_at index ` set (concat (map tap_leaves branches))"
    if "b \<in> set branches" "t \<in> set (tap_leaves b)" for b t using that by auto
  have rg: "\<And>t. t \<in> set (tap_leaves left) \<Longrightarrow> leaf_at index t < length ps" "\<And>t. t \<in> set (tap_leaves right) \<Longrightarrow> leaf_at index t < length ps"
    using pl pr by (auto simp: proved_def)
  note n1 = extend_all_nth [OF d(1) rg(1), of "TapHash right", folded leafDescendants_tap, folded ps1_def]
  have "\<And>t. t \<in> set (tap_leaves right) \<Longrightarrow> leaf_at index t < length ps1" using rg(2) n1(1) by simp
  note n2 = extend_all_nth [OF d(2) this, of "TapHash left", folded leafDescendants_tap, folded ps2_def]
  have len: "length ps2 = length ps" using n1(1) n2(1) by simp
  have "proved index ps2 (Branch left right)"
    using d(3) by (intro proved_branch [OF pl pr len]) (auto simp: n1(2) n2(2) disjoint_iff)
  moreover have "proved index ps2 b" if "b \<in> set branches" for b
  proof (rule proved_frame [OF _ len])
    show "proved index ps b" using "3.prems"(3) that by simp
    show "ps2 ! leaf_at index t = ps ! leaf_at index t" if t: "t \<in> set (tap_leaves b)" for t
    proof -
      have "leaf_at index t \<notin> leaf_at index ` set (tap_leaves left)" "leaf_at index t \<notin> leaf_at index ` set (tap_leaves right)"
        using D in_rest [OF \<open>b \<in> set branches\<close> t] by blast+
      then show ?thesis by (simp add: n1(2) n2(2))
    qed
  qed
  ultimately have all: "\<forall>b \<in> set (branches @ [Branch left right]). proved index ps2 b" by auto
  have dd: "distinct_indices index (branches @ [Branch left right])"
    using "3.prems"(2)
    unfolding list.map concat.simps map_append concat_append tap_leaves.simps append_Nil2 distinct_append set_append set_map image_Un
    by blast
  from "3.IH" [folded ps1_def, folded ps2_def, OF _ dd all] len show ?case
    by (auto simp: ps1_def ps2_def)
qed auto

text \<open>The first phase: pairs of leaves become branches, and a leaf without a partner joins the last branch.\<close>

definition loop_inv ::
  "(bytes \<rightharpoonup> nat) \<Rightarrow> TapLeaf list \<Rightarrow> nat \<Rightarrow> TapNode list \<Rightarrow> TapscriptProof list \<Rightarrow> bool" where
  "loop_inv index leaves i branches ps \<longleftrightarrow>
     length ps = length leaves \<and> concat (map tap_leaves branches) = take i leaves \<and>
     (\<forall>b \<in> set branches. proved index ps b) \<and> (\<forall>b \<in> set branches. \<exists>x y. b = Branch (Leaf x) (Leaf y)) \<and>
     (\<forall>j. i \<le> j \<longrightarrow> j < length ps \<longrightarrow> tp_InclusionProof (ps ! j) = [])"

lemma leads_to_leaf: "leads_to t p (Leaf t) \<longleftrightarrow> tp_TapLeaf p = t \<and> tp_InclusionProof p = []"
  by (auto simp: leads_to_def)

lemma proved_leaf: "proved index ps (Leaf t) \<longleftrightarrow> leaf_at index t < length ps \<and> leads_to t (ps ! leaf_at index t) (Leaf t)"
  by (simp add: proved_def)

lemma taken_index:
  assumes "\<And>j. j < length leaves \<Longrightarrow> leaf_at index (leaves ! j) = j" "t \<in> set (take i leaves)"
  shows "leaf_at index t < i"
  using assms by (auto simp: in_set_conv_nth)

lemma branch_index:
  assumes "\<And>j. j < length leaves \<Longrightarrow> leaf_at index (leaves ! j) = j" "concat (map tap_leaves branches) = take i leaves"
    "b \<in> set branches" "t \<in> set (tap_leaves b)"
  shows "leaf_at index t < i"
proof -
  have "t \<in> set (concat (map tap_leaves branches))" using assms(3,4) by auto
  then show ?thesis using taken_index [OF assms(1)] assms(2) by simp
qed

lemma loop_inv_pair:
  assumes idx: "\<And>j. j < length leaves \<Longrightarrow> leaf_at index (leaves ! j) = j"
    and inv: "loop_inv index leaves i branches ps" and i: "drop i leaves = left # right # rest"
  shows "loop_inv index leaves (i + 2) (branches @ [Branch (Leaf left) (Leaf right)])
    (extend (i + 1) (TapLeaf_TapHash left) (set_leaf (i + 1) right (extend i (TapLeaf_TapHash right) (set_leaf i left ps))))"
proof -
  define ps' where "ps' = extend (i + 1) (TapLeaf_TapHash left) (set_leaf (i + 1) right (extend i (TapLeaf_TapHash right) (set_leaf i left ps)))"
  define ps0 where "ps0 = set_leaf (i + 1) right (set_leaf i left ps)"
  have n: "i + 1 < length leaves" using arg_cong [OF i, of length] by simp
  have lr: "leaves ! i = left" "leaves ! (i + 1) = right"
    using i n by (simp_all add: drop_eq_nths nth_via_drop) (metis Cons_nth_drop_Suc Suc_lessD list.inject i)+
  have len: "length ps = length leaves" using inv by (simp add: loop_inv_def)
  have nth: "ps' ! j = (if j = i then with_hash (TapLeaf_TapHash right) (ps0 ! i)
      else if j = i + 1 then with_hash (TapLeaf_TapHash left) (ps0 ! (i + 1)) else ps ! j)" for j
    using n len by (auto simp: ps'_def extend_def set_leaf_def ps0_def nth_list_update)
  have len': "length ps' = length ps0" "length ps0 = length ps" by (simp_all add: ps'_def extend_def set_leaf_def ps0_def)
  have at: "leaf_at index left = i" "leaf_at index right = i + 1" using idx n lr by auto
  have "proved index ps0 (Leaf left)" "proved index ps0 (Leaf right)"
    using inv n len at unfolding proved_leaf leads_to_leaf
    by (auto simp: loop_inv_def ps0_def set_leaf_def nth_list_update)
  then have "proved index ps' (Branch (Leaf left) (Leaf right))"
    using at by (intro proved_branch [OF _ _ len'(1)]) (simp_all add: nth)
  moreover have "proved index ps' b" if b: "b \<in> set branches" for b
  proof (rule proved_frame [of index ps])
    show "ps' ! leaf_at index t = ps ! leaf_at index t" if "t \<in> set (tap_leaves b)" for t
      using branch_index [OF idx _ b that, of i] inv by (simp add: nth loop_inv_def)
  qed (use inv b len' in \<open>simp_all add: loop_inv_def\<close>)
  moreover have "concat (map tap_leaves (branches @ [Branch (Leaf left) (Leaf right)])) = take (i + 2) leaves"
  proof -
    have "take (i + 2) leaves = take i leaves @ take 2 (drop i leaves)" by (rule take_add)
    then show ?thesis using inv i by (simp add: loop_inv_def)
  qed
  moreover have "tp_InclusionProof (ps' ! j) = []" if "i + 2 \<le> j" "j < length ps'" for j
    using that inv len' by (simp add: nth loop_inv_def)
  ultimately show ?thesis unfolding ps'_def [symmetric] using inv len' by (auto simp: loop_inv_def)
qed

definition all_proved :: "(bytes \<rightharpoonup> nat) \<Rightarrow> TapLeaf list \<Rightarrow> TapNode list \<Rightarrow> TapscriptProof list \<Rightarrow> bool" where
  "all_proved index leaves branches ps \<longleftrightarrow>
     length ps = length leaves \<and> concat (map tap_leaves branches) = leaves \<and> (\<forall>b \<in> set branches. proved index ps b)"

lemma taken_indices:
  assumes "\<And>j. j < length leaves \<Longrightarrow> leaf_at index (leaves ! j) = j" "i \<le> length leaves"
  shows "map (leaf_at index) (take i leaves) = [0..<i]"
  using assms by (intro nth_equalityI) simp_all

lemma loop_odd:
  assumes idx: "\<And>j. j < length leaves \<Longrightarrow> leaf_at index (leaves ! j) = j"
    and inv: "loop_inv index leaves i branches ps" and i: "drop i leaves = [leaf]" and ne: "branches \<noteq> []"
  shows "\<exists>brs ps'. leaf_loop index i [leaf] (branches, ps) = Inr (brs, ps') \<and> all_proved index leaves brs ps'"
proof -
  obtain bs x y where bs: "branches = bs @ [Branch (Leaf x) (Leaf y)]"
    using ne inv by (cases branches rule: rev_cases) (auto simp: loop_inv_def)
  let ?B = "Branch (Leaf x) (Leaf y)"
  define ps0 where "ps0 = set_leaf i leaf ps"
  define ps' where "ps' = extend (leaf_at index y) (TapLeaf_TapHash leaf) (extend (leaf_at index x) (TapLeaf_TapHash leaf)
    (extend i (TapHash ?B) ps0))"
  have n: "i < length leaves" "length leaves = i + 1" using arg_cong [OF i, of length] by auto
  have leaf: "leaves ! i = leaf" using i by (metis nth_via_drop)
  have len: "length ps = length leaves" "length ps' = length ps0" "length ps0 = length ps"
    using inv by (simp_all add: loop_inv_def extend_def set_leaf_def ps0_def ps'_def)
  have tk: "concat (map tap_leaves bs) @ [x, y] = take i leaves" using inv bs by (simp add: loop_inv_def)
  have ix: "map (leaf_at index) (concat (map tap_leaves bs) @ [x, y]) = [0..<i]"
    unfolding tk using taken_indices [OF idx] n by simp
  have d: "distinct (map (leaf_at index) (concat (map tap_leaves bs) @ [x, y]))" unfolding ix by simp
  have lt: "leaf_at index t < i" if "t \<in> set (concat (map tap_leaves bs) @ [x, y])" for t
    using that taken_index [OF idx] tk by metis
  have at: "leaf_at index leaf = i" "leaf_at index x < i" "leaf_at index y < i" "leaf_at index x \<noteq> leaf_at index y"
    using idx n leaf lt d by auto
  have nth: "ps' ! j = (if j = i then with_hash (TapHash ?B) (ps0 ! i)
      else if j = leaf_at index x \<or> j = leaf_at index y then with_hash (TapLeaf_TapHash leaf) (ps ! j) else ps ! j)" for j
    using n len at unfolding ps'_def extend_def ps0_def set_leaf_def by (auto simp: nth_list_update)
  have other: "leaf_at index t \<noteq> i" "leaf_at index t \<noteq> leaf_at index x" "leaf_at index t \<noteq> leaf_at index y"
    if "b \<in> set bs" "t \<in> set (tap_leaves b)" for b t
  proof -
    have t: "t \<in> set (concat (map tap_leaves bs))" using that by auto
    then show "leaf_at index t \<noteq> i" using lt [of t] by auto
    show "leaf_at index t \<noteq> leaf_at index x" "leaf_at index t \<noteq> leaf_at index y" using d imageI [OF t, of "leaf_at index"] by (auto simp del: set_concat)
  qed
  have B: "proved index ps0 ?B"
  proof (rule proved_frame [of index ps])
    show "proved index ps ?B" using inv bs by (simp add: loop_inv_def)
    show "ps0 ! leaf_at index t = ps ! leaf_at index t" if "t \<in> set (tap_leaves ?B)" for t
      using that at by (auto simp: ps0_def set_leaf_def)
  qed (simp add: len)
  have L: "proved index ps0 (Leaf leaf)"
    using inv n len at unfolding proved_leaf leads_to_leaf by (auto simp: loop_inv_def ps0_def set_leaf_def)
  have "ps' ! leaf_at index t = with_hash (TapHash (Leaf leaf)) (ps0 ! leaf_at index t)" if "t \<in> set (tap_leaves ?B)" for t
    using that at by (auto simp: nth ps0_def set_leaf_def)
  then have "proved index ps' (Branch ?B (Leaf leaf))"
    using at by (intro proved_branch [OF B L len(2)]) (simp_all add: nth)
  moreover have "proved index ps' b" if b: "b \<in> set bs" for b
  proof (rule proved_frame [of index ps])
    show "proved index ps b" using inv b bs by (simp add: loop_inv_def)
    show "ps' ! leaf_at index t = ps ! leaf_at index t" if "t \<in> set (tap_leaves b)" for t
      using other [OF b that] by (simp only: nth if_False simp_thms)
  qed (simp add: len)
  moreover have "concat (map tap_leaves (bs @ [Branch ?B (Leaf leaf)])) = leaves"
  proof -
    have "leaves = (concat (map tap_leaves bs) @ [x, y]) @ [leaf]"
      using append_take_drop_id [of i leaves] unfolding tk i by simp
    then show ?thesis by simp
  qed
  ultimately have "all_proved index leaves (bs @ [Branch ?B (Leaf leaf)]) ps'" using len by (simp add: all_proved_def)
  moreover have "leaf_loop index i [leaf] (branches, ps) = Inr (bs @ [Branch ?B (Leaf leaf)], ps')"
    by (simp add: bs ps'_def ps0_def)
  ultimately show ?thesis by blast
qed

lemma leaf_loop_proved:
  assumes idx: "\<And>j. j < length leaves \<Longrightarrow> leaf_at index (leaves ! j) = j"
    and "loop_inv index leaves i branches ps" "drop i leaves = rest" "i = 0 \<Longrightarrow> length rest \<noteq> 1" "i \<noteq> 0 \<Longrightarrow> branches \<noteq> []"
  shows "\<exists>brs ps'. leaf_loop index i rest (branches, ps) = Inr (brs, ps') \<and> all_proved index leaves brs ps'"
  using assms(2-5)
proof (induction rest arbitrary: i branches ps rule: induct_list012)
  case 1
  then show ?case by (auto simp: loop_inv_def all_proved_def)
next
  case (2 x)
  then show ?case using loop_odd [OF idx] by (cases "i = 0") auto
next
  case (3 x y zs)
  have "drop (i + 2) leaves = zs" using "3.prems"(2) by (metis add.commute drop_drop drop0 drop_Suc_Cons numeral_2_eq_2)
  from "3.IH"(1) [OF loop_inv_pair [OF idx "3.prems"(1,2)] this] show ?case by simp
qed

lemma AssembleTaprootScriptTree_proved:
  assumes "distinct (map TapLeaf_TapHash leaves)" "leaves \<noteq> []"
  shows "\<exists>tree r. AssembleTaprootScriptTree leaves = Inr tree \<and> RootNode tree = Some r \<and>
    length (LeafMerkleProofs tree) = length leaves \<and> mset (tap_leaves r) = mset leaves \<and>
    (\<forall>i < length leaves. tp_RootNode (LeafMerkleProofs tree ! i) = Some r \<and> leads_to (leaves ! i) (LeafMerkleProofs tree ! i) r)"
proof (cases "length leaves = 1")
  case True
  then obtain leaf where "leaves = [leaf]" by (cases leaves) auto
  then show ?thesis by (simp add: AssembleTaprootScriptTree_def leads_to_leaf)
next
  case False
  define index where "index = leaf_index leaves"
  have idx: "leaf_at index (leaves ! j) = j" if "j < length leaves" for j
    using leaf_index_nth [OF assms(1) that] by (simp add: proof_at_def index_def)
  have "loop_inv index leaves 0 [] (replicate (length leaves) emptyProof)" by (simp add: loop_inv_def emptyProof_def)
  then obtain brs ps where loop: "leaf_loop index 0 leaves ([], replicate (length leaves) emptyProof) = Inr (brs, ps)"
    and ap: "all_proved index leaves brs ps"
    using leaf_loop_proved [OF idx, of 0 "[]" "replicate (length leaves) emptyProof" leaves] False by auto
  have "brs \<noteq> []" using ap assms(2) by (auto simp: all_proved_def)
  moreover have "distinct_indices index brs"
    using ap taken_indices [OF idx, of "length leaves"] by (simp add: all_proved_def)
  ultimately obtain r ps' where m: "merge_loop index brs ps = (Some r, ps')" "proved index ps' r" "length ps' = length ps"
    "mset (tap_leaves r) = mset leaves"
    using merge_loop_proved [of brs index ps] ap by (auto simp: all_proved_def)
  have "leads_to (leaves ! i) (ps' ! i) r" if "i < length leaves" for i
  proof -
    have "leaves ! i \<in> set (tap_leaves r)" using mset_eq_setD [OF m(4)] that by simp
    then show ?thesis using m(2) idx [OF that] unfolding proved_def by metis
  qed
  moreover have "AssembleTaprootScriptTree leaves =
      Inr \<lparr>RootNode = Some r, LeafMerkleProofs = map (\<lambda>p. p\<lparr>tp_RootNode := Some r\<rparr>) ps', LeafProofIndex = index\<rparr>"
    using False loop m(1) by (auto simp: AssembleTaprootScriptTree_def index_def Let_def split: list.splits)
  ultimately show ?thesis using m(3,4) ap by (auto simp: all_proved_def leads_to_def)
qed

section \<open>Commitments\<close>

lemma ComputeTaprootOutputKey_base:
  assumes "curve_laws C" "0 < d" "d < curve_N"
  shows "ComputeTaprootOutputKey C (scalarBaseMult C d) scriptRoot =
    Inr (scalarBaseMult C ((even_key C d + tapTweak (SerializePubKey C (scalarBaseMult C d)) scriptRoot) mod curve_N))"
proof -
  have "schnorr_ParsePubKey C (SerializePubKey C (scalarBaseMult C d)) = Some (scalarBaseMult C (even_key C d))"
    using schnorr_ParsePubKey_base [OF assms] by (simp only: SerializePubKey_base [OF assms(1)])
  moreover have "SerializePubKey C (scalarBaseMult C (even_key C d)) = SerializePubKey C (scalarBaseMult C d)"
    unfolding SerializePubKey_base [OF assms(1)] even_key_point(4) [OF assms] ..
  ultimately show ?thesis using assms(1) by (simp add: ComputeTaprootOutputKey_def curve_laws_def)
qed

lemma even_key_even:
  assumes "curve_laws C" "0 < d" "d < curve_N"
  shows "even_key C (even_key C d) = even_key C d"
  using even_key_point(3) [OF assms] by (simp add: even_key_def [of C "even_key C d"])

lemma ParseControlBlock_ToBytes:
  assumes "curve_laws C" "0 < d" "d < curve_N" "InternalKey cb = scalarBaseMult C d" "cb_LeafVersion cb AND 1 = 0"
    "length (InclusionProof cb) = 32 * k" "k \<le> 128"
  shows "ParseControlBlock C (ControlBlock_ToBytes C cb) = Inr (cb\<lparr>InternalKey := scalarBaseMult C (even_key C d)\<rparr>)"
proof -
  let ?b = "ControlBlock_ToBytes C cb"
  have key: "SerializePubKey C (InternalKey cb) = be_bytes 32 (affineX C (scalarBaseMult C d))"
    using SerializePubKey_base(1) [OF assms(1)] assms(4) by simp
  have b: "?b = (cb_LeafVersion cb OR (if OutputKeyYIsOdd cb then 1 else 0)) # be_bytes 32 (affineX C (scalarBaseMult C d)) @ InclusionProof cb"
    by (simp add: ControlBlock_ToBytes_def key)
  have len: "length ?b = 33 + 32 * k" using assms(6) by (simp add: b)
  have v: "(cb_LeafVersion cb OR x) AND TaprootLeafMask = cb_LeafVersion cb" "(cb_LeafVersion cb OR x) AND 1 = x"
    if "x = 0 \<or> x = 1" for x :: byte
  proof -
    have "TaprootLeafMask = NOT 1" by (simp add: TaprootLeafMask_def)
    moreover have "x AND NOT 1 = 0" "x AND 1 = x" using that by auto
    moreover have "cb_LeafVersion cb AND NOT 1 = cb_LeafVersion cb"
    proof -
      have "cb_LeafVersion cb = (cb_LeafVersion cb AND 1) OR (cb_LeafVersion cb AND NOT 1)"
        by (metis bit.conj_cancel_right bit.conj_disj_distrib bit.conj_one_right bit.disj_cancel_right)
      then show ?thesis using assms(5) by simp
    qed
    ultimately show "(cb_LeafVersion cb OR x) AND TaprootLeafMask = cb_LeafVersion cb" "(cb_LeafVersion cb OR x) AND 1 = x"
      using assms(5) by (simp_all add: bit.conj_disj_distrib2)
  qed
  have "slice 1 33 ?b = be_bytes 32 (affineX C (scalarBaseMult C d))" "drop 33 ?b = InclusionProof cb"
    unfolding b by (simp_all add: slice_def)
  then show ?thesis
    using schnorr_ParsePubKey_base [OF assms(1-3)] len assms(7) v [of 0] v [of 1]
    by (cases "OutputKeyYIsOdd cb")
      (simp_all add: ParseControlBlock_def ControlBlockBaseSize_def ControlBlockMaxSize_def ControlBlockNodeSize_def
        ControlBlockMaxNodeCount_def b)
qed

section \<open>Properties\<close>

text \<open>
  C40. A leaf of an assembled tree can be spent. For leaves with different hashes, the control block that
  \<^verbatim>\<open>ToControlBlock\<close> makes of the proof of any leaf, written into a witness and parsed again, opens the
  output key that commits to the root of the tree, with the script of that leaf. The number of leaves is
  bounded by 129 so that no proof is longer than a control block may be, and the version of the leaf is even,
  since its last bit is not kept in a control block.
\<close>

theorem taproot_leaf_spendable:
  assumes "curve_laws C" "0 < d" "d < curve_N" "distinct (map TapLeaf_TapHash leaves)" "length leaves \<le> 129"
    "i < length leaves" "LeafVersion (leaves ! i) AND 1 = 0"
  shows "vbind (AssembleTaprootScriptTree leaves) (\<lambda>tree.
    case RootNode tree of None \<Rightarrow> Inl EnginePanic | Some r \<Rightarrow>
    vbind (ComputeTaprootOutputKey C (scalarBaseMult C d) (TapHash r)) (\<lambda>key.
    vbind (ToControlBlock C (LeafMerkleProofs tree ! i) (scalarBaseMult C d)) (\<lambda>block.
    vbind (ParseControlBlock C (ControlBlock_ToBytes C block)) (\<lambda>parsed.
    VerifyTaprootLeafCommitment C parsed (SerializePubKey C key) (tl_Script (leaves ! i)))))) = Inr ()"
proof -
  obtain tree r where tree: "AssembleTaprootScriptTree leaves = Inr tree" "RootNode tree = Some r" "mset (tap_leaves r) = mset leaves"
    and lead: "tp_RootNode (LeafMerkleProofs tree ! i) = Some r" "leads_to (leaves ! i) (LeafMerkleProofs tree ! i) r"
    using AssembleTaprootScriptTree_proved [OF assms(4)] assms(6) by fastforce
  let ?p = "LeafMerkleProofs tree ! i"
  obtain k where k: "tp_TapLeaf ?p = leaves ! i" "length (tp_InclusionProof ?p) = 32 * k" "k < length (tap_leaves r)"
    "root_loop k (TapLeaf_TapHash (leaves ! i)) (tp_InclusionProof ?p) = TapHash r"
    using lead(2) by (auto simp: leads_to_def)
  define key where "key = scalarBaseMult C ((even_key C d + tapTweak (SerializePubKey C (scalarBaseMult C d)) (TapHash r)) mod curve_N)"
  have comp: "ComputeTaprootOutputKey C (scalarBaseMult C d) (TapHash r) = Inr key"
    unfolding key_def by (rule ComputeTaprootOutputKey_base [OF assms(1-3)])
  have comp2: "ComputeTaprootOutputKey C (scalarBaseMult C (even_key C d)) (TapHash r) = Inr key"
    using ComputeTaprootOutputKey_base [OF assms(1) even_key_point(1,2) [OF assms(1-3)]] SerializePubKey_base(1) [OF assms(1)]
      even_key_point(4) [OF assms(1-3)] even_key_even [OF assms(1-3)] by (simp add: key_def)
  define block where "block = \<lparr>InternalKey = scalarBaseMult C d, OutputKeyYIsOdd = (serializeCompressed C key ! 0 = 0x03),
    cb_LeafVersion = LeafVersion (leaves ! i), InclusionProof = tp_InclusionProof ?p\<rparr>"
  have b: "ToControlBlock C ?p (scalarBaseMult C d) = Inr block"
    by (simp add: ToControlBlock_def lead(1) comp k(1) block_def)
  have "k \<le> 128" using k(3) assms(5) arg_cong [OF tree(3), of size] by simp
  then have p: "ParseControlBlock C (ControlBlock_ToBytes C block) = Inr (block\<lparr>InternalKey := scalarBaseMult C (even_key C d)\<rparr>)"
    using k(2) assms(7) by (intro ParseControlBlock_ToBytes [OF assms(1-3), of _ k]) (simp_all add: block_def)
  have "RootHash (block\<lparr>InternalKey := scalarBaseMult C (even_key C d)\<rparr>) (tl_Script (leaves ! i)) = TapHash r"
  proof -
    have e: "\<lparr>LeafVersion = LeafVersion t, tl_Script = tl_Script t\<rparr> = t" for t :: TapLeaf by simp
    show ?thesis using k by (simp add: RootHash_def block_def ControlBlockNodeSize_def e)
  qed
  then show ?thesis
    by (simp add: tree comp b p VerifyTaprootLeafCommitment_def comp2) (simp add: block_def)
qed

theorem taproot_leaf_spendable_witness:
  "vbind (AssembleTaprootScriptTree [NewBaseTapLeaf [0x51]]) (\<lambda>tree.
    case RootNode tree of None \<Rightarrow> Inl EnginePanic | Some r \<Rightarrow>
    vbind (ComputeTaprootOutputKey log_curve 7 (TapHash r)) (\<lambda>key.
    vbind (ToControlBlock log_curve (LeafMerkleProofs tree ! 0) 7) (\<lambda>block.
    vbind (ParseControlBlock log_curve (ControlBlock_ToBytes log_curve block)) (\<lambda>parsed.
    VerifyTaprootLeafCommitment log_curve parsed (SerializePubKey log_curve key) [0x51])))) = Inr ()"
proof -
  have "(0 :: int) < 7" "7 < curve_N" "scalarBaseMult log_curve 7 = 7" "distinct (map TapLeaf_TapHash [NewBaseTapLeaf [0x51]])"
    "length [NewBaseTapLeaf [0x51]] \<le> 129" "0 < length [NewBaseTapLeaf [0x51]]"
    "LeafVersion ([NewBaseTapLeaf [0x51]] ! 0) AND 1 = 0" "tl_Script ([NewBaseTapLeaf [0x51]] ! 0) = [0x51]"
    by (simp_all add: curve_N_def log_curve_def NewBaseTapLeaf_def BaseLeafVersion_def)
  then show ?thesis
    using taproot_leaf_spendable [OF log_curve_laws(1), of 7 "[NewBaseTapLeaf [0x51]]" 0] by metis
qed

text \<open>
  Private and public tweaking agree. The public key of the private key that \<^verbatim>\<open>TweakTaprootPrivKey\<close> gives
  is the output key that \<^verbatim>\<open>ComputeTaprootOutputKey\<close> gives for the public key and the same script root.
\<close>

lemma taproot_tweak_agrees:
  assumes "curve_laws C" "0 < d" "d < curve_N"
  shows "ComputeTaprootOutputKey C (scalarBaseMult C d) scriptRoot = Inr (scalarBaseMult C (TweakTaprootPrivKey C d scriptRoot))"
proof -
  have "drop 1 (serializeCompressed C (scalarBaseMult C d)) = SerializePubKey C (scalarBaseMult C d)"
    by (simp add: SerializePubKey_def)
  then have "TweakTaprootPrivKey C d scriptRoot = (even_key C d + tapTweak (SerializePubKey C (scalarBaseMult C d)) scriptRoot) mod curve_N"
    by (simp only: TweakTaprootPrivKey_def Let_def SerializePubKey_base(2) [OF assms(1)] even_key_def)
  then show ?thesis using ComputeTaprootOutputKey_base [OF assms] by simp
qed

end
