(* ===== verification/EngineOps.thy ===== *)
theory EngineOps
  imports Taproot
begin

text \<open>
  The instructions of the script engine: the engine of \<^verbatim>\<open>txscript/engine.go\<close> as a record, the checks of
  signatures and keys, the signature cache of \<^verbatim>\<open>txscript/sigcache.go\<close>, the signature verifiers of
  \<^verbatim>\<open>txscript/sigvalidate.go\<close> and the handlers of \<^verbatim>\<open>txscript/opcode.go\<close> with the table that dispatches to them.

  A handler gives the engine after the instruction or the error. The curve and the order in which the run
  time iterates over a map are in the record \<open>env\<close>, the first argument of the definitions that need them.
\<close>

unbundle bit_operations_syntax

section \<open>Opcodes and flags\<close>

abbreviation (input) OP_RESERVED :: byte where "OP_RESERVED \<equiv> 0x50"
abbreviation (input) OP_NOP :: byte where "OP_NOP \<equiv> 0x61"
abbreviation (input) OP_VER :: byte where "OP_VER \<equiv> 0x62"
abbreviation (input) OP_IF :: byte where "OP_IF \<equiv> 0x63"
abbreviation (input) OP_NOTIF :: byte where "OP_NOTIF \<equiv> 0x64"
abbreviation (input) OP_VERIF :: byte where "OP_VERIF \<equiv> 0x65"
abbreviation (input) OP_VERNOTIF :: byte where "OP_VERNOTIF \<equiv> 0x66"
abbreviation (input) OP_ELSE :: byte where "OP_ELSE \<equiv> 0x67"
abbreviation (input) OP_ENDIF :: byte where "OP_ENDIF \<equiv> 0x68"
abbreviation (input) OP_VERIFY :: byte where "OP_VERIFY \<equiv> 0x69"
abbreviation (input) OP_TOALTSTACK :: byte where "OP_TOALTSTACK \<equiv> 0x6b"
abbreviation (input) OP_FROMALTSTACK :: byte where "OP_FROMALTSTACK \<equiv> 0x6c"
abbreviation (input) OP_2DROP :: byte where "OP_2DROP \<equiv> 0x6d"
abbreviation (input) OP_2DUP :: byte where "OP_2DUP \<equiv> 0x6e"
abbreviation (input) OP_3DUP :: byte where "OP_3DUP \<equiv> 0x6f"
abbreviation (input) OP_2OVER :: byte where "OP_2OVER \<equiv> 0x70"
abbreviation (input) OP_2ROT :: byte where "OP_2ROT \<equiv> 0x71"
abbreviation (input) OP_2SWAP :: byte where "OP_2SWAP \<equiv> 0x72"
abbreviation (input) OP_IFDUP :: byte where "OP_IFDUP \<equiv> 0x73"
abbreviation (input) OP_DEPTH :: byte where "OP_DEPTH \<equiv> 0x74"
abbreviation (input) OP_DROP :: byte where "OP_DROP \<equiv> 0x75"
abbreviation (input) OP_NIP :: byte where "OP_NIP \<equiv> 0x77"
abbreviation (input) OP_OVER :: byte where "OP_OVER \<equiv> 0x78"
abbreviation (input) OP_PICK :: byte where "OP_PICK \<equiv> 0x79"
abbreviation (input) OP_ROLL :: byte where "OP_ROLL \<equiv> 0x7a"
abbreviation (input) OP_ROT :: byte where "OP_ROT \<equiv> 0x7b"
abbreviation (input) OP_SWAP :: byte where "OP_SWAP \<equiv> 0x7c"
abbreviation (input) OP_TUCK :: byte where "OP_TUCK \<equiv> 0x7d"
abbreviation (input) OP_CAT :: byte where "OP_CAT \<equiv> 0x7e"
abbreviation (input) OP_SUBSTR :: byte where "OP_SUBSTR \<equiv> 0x7f"
abbreviation (input) OP_LEFT :: byte where "OP_LEFT \<equiv> 0x80"
abbreviation (input) OP_RIGHT :: byte where "OP_RIGHT \<equiv> 0x81"
abbreviation (input) OP_SIZE :: byte where "OP_SIZE \<equiv> 0x82"
abbreviation (input) OP_INVERT :: byte where "OP_INVERT \<equiv> 0x83"
abbreviation (input) OP_AND :: byte where "OP_AND \<equiv> 0x84"
abbreviation (input) OP_OR :: byte where "OP_OR \<equiv> 0x85"
abbreviation (input) OP_XOR :: byte where "OP_XOR \<equiv> 0x86"
abbreviation (input) OP_RESERVED1 :: byte where "OP_RESERVED1 \<equiv> 0x89"
abbreviation (input) OP_RESERVED2 :: byte where "OP_RESERVED2 \<equiv> 0x8a"
abbreviation (input) OP_1ADD :: byte where "OP_1ADD \<equiv> 0x8b"
abbreviation (input) OP_1SUB :: byte where "OP_1SUB \<equiv> 0x8c"
abbreviation (input) OP_2MUL :: byte where "OP_2MUL \<equiv> 0x8d"
abbreviation (input) OP_2DIV :: byte where "OP_2DIV \<equiv> 0x8e"
abbreviation (input) OP_NEGATE :: byte where "OP_NEGATE \<equiv> 0x8f"
abbreviation (input) OP_ABS :: byte where "OP_ABS \<equiv> 0x90"
abbreviation (input) OP_NOT :: byte where "OP_NOT \<equiv> 0x91"
abbreviation (input) OP_0NOTEQUAL :: byte where "OP_0NOTEQUAL \<equiv> 0x92"
abbreviation (input) OP_ADD :: byte where "OP_ADD \<equiv> 0x93"
abbreviation (input) OP_SUB :: byte where "OP_SUB \<equiv> 0x94"
abbreviation (input) OP_MUL :: byte where "OP_MUL \<equiv> 0x95"
abbreviation (input) OP_DIV :: byte where "OP_DIV \<equiv> 0x96"
abbreviation (input) OP_MOD :: byte where "OP_MOD \<equiv> 0x97"
abbreviation (input) OP_LSHIFT :: byte where "OP_LSHIFT \<equiv> 0x98"
abbreviation (input) OP_RSHIFT :: byte where "OP_RSHIFT \<equiv> 0x99"
abbreviation (input) OP_BOOLAND :: byte where "OP_BOOLAND \<equiv> 0x9a"
abbreviation (input) OP_BOOLOR :: byte where "OP_BOOLOR \<equiv> 0x9b"
abbreviation (input) OP_NUMEQUAL :: byte where "OP_NUMEQUAL \<equiv> 0x9c"
abbreviation (input) OP_NUMEQUALVERIFY :: byte where "OP_NUMEQUALVERIFY \<equiv> 0x9d"
abbreviation (input) OP_NUMNOTEQUAL :: byte where "OP_NUMNOTEQUAL \<equiv> 0x9e"
abbreviation (input) OP_LESSTHAN :: byte where "OP_LESSTHAN \<equiv> 0x9f"
abbreviation (input) OP_GREATERTHAN :: byte where "OP_GREATERTHAN \<equiv> 0xa0"
abbreviation (input) OP_LESSTHANOREQUAL :: byte where "OP_LESSTHANOREQUAL \<equiv> 0xa1"
abbreviation (input) OP_GREATERTHANOREQUAL :: byte where "OP_GREATERTHANOREQUAL \<equiv> 0xa2"
abbreviation (input) OP_MIN :: byte where "OP_MIN \<equiv> 0xa3"
abbreviation (input) OP_MAX :: byte where "OP_MAX \<equiv> 0xa4"
abbreviation (input) OP_WITHIN :: byte where "OP_WITHIN \<equiv> 0xa5"
abbreviation (input) OP_RIPEMD160 :: byte where "OP_RIPEMD160 \<equiv> 0xa6"
abbreviation (input) OP_SHA1 :: byte where "OP_SHA1 \<equiv> 0xa7"
abbreviation (input) OP_SHA256 :: byte where "OP_SHA256 \<equiv> 0xa8"
abbreviation (input) OP_HASH256 :: byte where "OP_HASH256 \<equiv> 0xaa"
abbreviation (input) OP_NOP1 :: byte where "OP_NOP1 \<equiv> 0xb0"
abbreviation (input) OP_CHECKLOCKTIMEVERIFY :: byte where "OP_CHECKLOCKTIMEVERIFY \<equiv> 0xb1"
abbreviation (input) OP_CHECKSEQUENCEVERIFY :: byte where "OP_CHECKSEQUENCEVERIFY \<equiv> 0xb2"
abbreviation (input) OP_NOP4 :: byte where "OP_NOP4 \<equiv> 0xb3"
abbreviation (input) OP_NOP5 :: byte where "OP_NOP5 \<equiv> 0xb4"
abbreviation (input) OP_NOP6 :: byte where "OP_NOP6 \<equiv> 0xb5"
abbreviation (input) OP_NOP7 :: byte where "OP_NOP7 \<equiv> 0xb6"
abbreviation (input) OP_NOP8 :: byte where "OP_NOP8 \<equiv> 0xb7"
abbreviation (input) OP_NOP9 :: byte where "OP_NOP9 \<equiv> 0xb8"
abbreviation (input) OP_NOP10 :: byte where "OP_NOP10 \<equiv> 0xb9"
abbreviation (input) OP_CHECKSIGADD :: byte where "OP_CHECKSIGADD \<equiv> 0xba"

type_synonym ScriptFlags = "32 word"

definition ScriptBip16 :: ScriptFlags where "ScriptBip16 = push_bit 0 1"
definition ScriptStrictMultiSig :: ScriptFlags where "ScriptStrictMultiSig = push_bit 1 1"
definition ScriptDiscourageUpgradableNops :: ScriptFlags where "ScriptDiscourageUpgradableNops = push_bit 2 1"
definition ScriptVerifyCheckLockTimeVerify :: ScriptFlags where "ScriptVerifyCheckLockTimeVerify = push_bit 3 1"
definition ScriptVerifyCheckSequenceVerify :: ScriptFlags where "ScriptVerifyCheckSequenceVerify = push_bit 4 1"
definition ScriptVerifyCleanStack :: ScriptFlags where "ScriptVerifyCleanStack = push_bit 5 1"
definition ScriptVerifyDERSignatures :: ScriptFlags where "ScriptVerifyDERSignatures = push_bit 6 1"
definition ScriptVerifyLowS :: ScriptFlags where "ScriptVerifyLowS = push_bit 7 1"
definition ScriptVerifyMinimalData :: ScriptFlags where "ScriptVerifyMinimalData = push_bit 8 1"
definition ScriptVerifyNullFail :: ScriptFlags where "ScriptVerifyNullFail = push_bit 9 1"
definition ScriptVerifySigPushOnly :: ScriptFlags where "ScriptVerifySigPushOnly = push_bit 10 1"
definition ScriptVerifyStrictEncoding :: ScriptFlags where "ScriptVerifyStrictEncoding = push_bit 11 1"
definition ScriptVerifyWitness :: ScriptFlags where "ScriptVerifyWitness = push_bit 12 1"
definition ScriptVerifyDiscourageUpgradeableWitnessProgram :: ScriptFlags where "ScriptVerifyDiscourageUpgradeableWitnessProgram = push_bit 13 1"
definition ScriptVerifyMinimalIf :: ScriptFlags where "ScriptVerifyMinimalIf = push_bit 14 1"
definition ScriptVerifyWitnessPubKeyType :: ScriptFlags where "ScriptVerifyWitnessPubKeyType = push_bit 15 1"
definition ScriptVerifyTaproot :: ScriptFlags where "ScriptVerifyTaproot = push_bit 16 1"
definition ScriptVerifyDiscourageUpgradeableTaprootVersion :: ScriptFlags where "ScriptVerifyDiscourageUpgradeableTaprootVersion = push_bit 17 1"
definition ScriptVerifyDiscourageOpSuccess :: ScriptFlags where "ScriptVerifyDiscourageOpSuccess = push_bit 18 1"
definition ScriptVerifyDiscourageUpgradeablePubkeyType :: ScriptFlags where "ScriptVerifyDiscourageUpgradeablePubkeyType = push_bit 19 1"
definition ScriptVerifyConstScriptCode :: ScriptFlags where "ScriptVerifyConstScriptCode = push_bit 20 1"

definition MaxOpsPerScript :: int where "MaxOpsPerScript = 201"
definition MaxStackSize :: int where "MaxStackSize = 1000"
definition LockTimeThreshold :: int where "LockTimeThreshold = 500000000"
definition MaxTxInSequenceNum :: int where "MaxTxInSequenceNum = 0xffffffff"
definition SequenceLockTimeDisabled :: int where "SequenceLockTimeDisabled = 2 ^ 31"
definition SequenceLockTimeIsSeconds :: int where "SequenceLockTimeIsSeconds = 2 ^ 22"
definition SequenceLockTimeMask :: int where "SequenceLockTimeMask = 0x0000ffff"
definition BaseSegwitWitnessVersion :: int where "BaseSegwitWitnessVersion = 0"
definition TaprootWitnessVersion :: int where "TaprootWitnessVersion = 1"
definition OpCondFalse :: int where "OpCondFalse = 0"
definition OpCondTrue :: int where "OpCondTrue = 1"
definition OpCondSkip :: int where "OpCondSkip = 2"
definition halfOrder :: int where "halfOrder = curve_N div 2"

section \<open>The signature cache\<close>

text \<open>
  The entries are a list of pairs with different keys. Which entry the iteration over the map meets first
  is not specified by the language: \<open>env_evict\<close> chooses it.
\<close>

type_synonym sigCacheEntry = "bytes \<times> bytes"

record SigCache =
  validSigs :: "(bytes \<times> sigCacheEntry) list"
  maxEntries :: nat

record 'p env =
  env_curve :: "'p curve"
  env_evict :: "(bytes \<times> sigCacheEntry) list \<Rightarrow> nat"

definition NewSigCache :: "nat \<Rightarrow> SigCache" where
  "NewSigCache n = \<lparr>validSigs = [], maxEntries = n\<rparr>"

definition Exists :: "bytes \<Rightarrow> bytes \<Rightarrow> bytes \<Rightarrow> SigCache \<Rightarrow> bool" where
  "Exists sigHash sig pubKey s =
     (case map_of (validSigs s) sigHash of
        None \<Rightarrow> False
      | Some (entrySig, entryKey) \<Rightarrow> entryKey = pubKey \<and> entrySig = sig)"

definition Add :: "'p env \<Rightarrow> bytes \<Rightarrow> bytes \<Rightarrow> bytes \<Rightarrow> SigCache \<Rightarrow> SigCache" where
  "Add E sigHash sig pubKey s =
     (if maxEntries s = 0 then s
      else
        let vs = validSigs s;
            victim = env_evict E vs mod length vs;
            vs = (if length vs + 1 > maxEntries s then take victim vs @ drop (victim + 1) vs else vs)
        in s\<lparr>validSigs := (sigHash, (sig, pubKey)) # filter (\<lambda>(h, _). h \<noteq> sigHash) vs\<rparr>)"

section \<open>The engine\<close>

record taprootExecutionCtx =
  tc_annex :: "bytes option"
  tc_codeSepPos :: int
  tc_tapLeafHash :: bytes
  tc_sigOpsBudget :: int
  tc_mustSucceed :: bool

definition sigOpsDelta :: int where "sigOpsDelta = 50"

definition tallysigOp :: "taprootExecutionCtx \<Rightarrow> taprootExecutionCtx vmResult" where
  "tallysigOp t =
     (let t = t\<lparr>tc_sigOpsBudget := i32 (tc_sigOpsBudget t - sigOpsDelta)\<rparr> in
      if tc_sigOpsBudget t < 0 then Inl (ScriptErr ErrTaprootMaxSigOps) else Inr t)"

definition newTaprootExecutionCtx :: "int \<Rightarrow> taprootExecutionCtx" where
  "newTaprootExecutionCtx inputWitnessSize =
     \<lparr>tc_annex = None, tc_codeSepPos = blankCodeSepValue, tc_tapLeafHash = zeroHash,
      tc_sigOpsBudget = i32 (sigOpsDelta + inputWitnessSize), tc_mustSucceed = False\<rparr>"

record Engine =
  vm_flags :: ScriptFlags
  vm_tx :: MsgTx
  vm_txIdx :: nat
  vm_version :: int
  vm_bip16 :: bool
  vm_sigCache :: "SigCache option"
  vm_hashCache :: "TxSigHashes option"
  vm_prevOutFetcher :: PrevOutputFetcher
  vm_scripts :: "bytes list"
  vm_scriptIdx :: nat
  vm_opcodeIdx :: nat
  vm_lastCodeSep :: nat
  vm_tokenizer :: ScriptTokenizer
  vm_savedFirstStack :: "bytes list"
  vm_dstack :: stack
  vm_astack :: stack
  vm_condStack :: "int list"
  vm_numOps :: int
  vm_witnessVersion :: int
  vm_witnessProgram :: "bytes option"
  vm_inputAmount :: int
  vm_taprootCtx :: "taprootExecutionCtx option"

definition hasFlag :: "Engine \<Rightarrow> ScriptFlags \<Rightarrow> bool" where
  "hasFlag vm flag = (vm_flags vm AND flag = flag)"

definition isBranchExecuting :: "Engine \<Rightarrow> bool" where
  "isBranchExecuting vm =
     (if vm_condStack vm = [] then True else vm_condStack vm ! (length (vm_condStack vm) - 1) = OpCondTrue)"

definition isWitnessVersionActive :: "int \<Rightarrow> Engine \<Rightarrow> bool" where
  "isWitnessVersionActive v vm = (vm_witnessProgram vm \<noteq> None \<and> vm_witnessVersion vm = v)"

definition subScript :: "Engine \<Rightarrow> bytes vmResult" where
  "subScript vm =
     (if vm_scriptIdx vm \<ge> length (vm_scripts vm) then Inl EnginePanic
      else
        let script = vm_scripts vm ! vm_scriptIdx vm in
        if vm_lastCodeSep vm > length script then Inl EnginePanic else Inr (drop (vm_lastCodeSep vm) script))"

definition txInput :: "Engine \<Rightarrow> TxIn vmResult" where
  "txInput vm =
     (if vm_txIdx vm \<ge> length (tx_TxIn (vm_tx vm)) then Inl EnginePanic else Inr (tx_TxIn (vm_tx vm) ! vm_txIdx vm))"

text \<open>Calls on the data stack of the engine.\<close>

definition on_dstack :: "(stack \<Rightarrow> stack vmResult) \<Rightarrow> Engine \<Rightarrow> Engine vmResult" where
  "on_dstack f vm = vbind (f (vm_dstack vm)) (\<lambda>s. Inr (vm\<lparr>vm_dstack := s\<rparr>))"

definition pop_with :: "(stack \<Rightarrow> ('a \<times> stack) vmResult) \<Rightarrow> Engine \<Rightarrow> ('a \<times> Engine) vmResult" where
  "pop_with f vm = vbind (f (vm_dstack vm)) (\<lambda>(x, s). Inr (x, vm\<lparr>vm_dstack := s\<rparr>))"

definition push_bytes_vm :: "bytes \<Rightarrow> Engine \<Rightarrow> Engine" where
  "push_bytes_vm b vm = vm\<lparr>vm_dstack := PushByteArray b (vm_dstack vm)\<rparr>"

definition push_bool_vm :: "bool \<Rightarrow> Engine \<Rightarrow> Engine" where
  "push_bool_vm b vm = vm\<lparr>vm_dstack := PushBool b (vm_dstack vm)\<rparr>"

abbreviation pop_bytes_vm :: "Engine \<Rightarrow> (bytes \<times> Engine) vmResult" where
  "pop_bytes_vm \<equiv> pop_with PopByteArray"

abbreviation pop_int_vm :: "Engine \<Rightarrow> (int \<times> Engine) vmResult" where
  "pop_int_vm \<equiv> pop_with PopInt"

abbreviation pop_bool_vm :: "Engine \<Rightarrow> (bool \<times> Engine) vmResult" where
  "pop_bool_vm \<equiv> pop_with PopBool"

abbreviation push_int_vm :: "int \<Rightarrow> Engine \<Rightarrow> Engine vmResult" where
  "push_int_vm n \<equiv> on_dstack (PushInt n)"

section \<open>Encodings of signatures and keys\<close>

definition checkHashTypeEncoding :: "int \<Rightarrow> Engine \<Rightarrow> unit vmResult" where
  "checkHashTypeEncoding hashType vm =
     (if \<not> hasFlag vm ScriptVerifyStrictEncoding then Inr ()
      else
        let sigHashType = hashType AND NOT SigHashAnyOneCanPay in
        if sigHashType < SigHashAll \<or> sigHashType > SigHashSingle then Inl (ScriptErr ErrInvalidSigHashType) else Inr ())"

definition checkPubKeyEncoding :: "bytes \<Rightarrow> Engine \<Rightarrow> unit vmResult" where
  "checkPubKeyEncoding pubKey vm =
     (if hasFlag vm ScriptVerifyWitnessPubKeyType \<and> isWitnessVersionActive BaseSegwitWitnessVersion vm \<and> \<not> IsCompressedPubKey pubKey
      then Inl (ScriptErr ErrWitnessPubKeyType)
      else if \<not> hasFlag vm ScriptVerifyStrictEncoding then Inr ()
      else if length pubKey = 33 \<and> (pubKey ! 0 = 0x02 \<or> pubKey ! 0 = 0x03) then Inr ()
      else if length pubKey = 65 \<and> pubKey ! 0 = 0x04 then Inr ()
      else Inl (ScriptErr ErrPubKeyType))"

definition checkSignatureEncoding :: "bytes \<Rightarrow> Engine \<Rightarrow> unit vmResult" where
  "checkSignatureEncoding sig vm =
     (if \<not> hasFlag vm ScriptVerifyDERSignatures \<and> \<not> hasFlag vm ScriptVerifyLowS \<and> \<not> hasFlag vm ScriptVerifyStrictEncoding
      then Inr ()
      else
        let sigLen = length sig in
        if sigLen < MinSigLen then Inl (ScriptErr ErrSigTooShort)
        else if sigLen > MaxSigLen then Inl (ScriptErr ErrSigTooLong)
        else if sig ! 0 \<noteq> 0x30 then Inl (ScriptErr ErrSigInvalidSeqID)
        else if unat (sig ! 1) \<noteq> sigLen - 2 then Inl (ScriptErr ErrSigInvalidDataLen)
        else
          let rLen = unat (sig ! 3); sTypeOffset = 4 + rLen; sLenOffset = sTypeOffset + 1 in
          if sTypeOffset \<ge> sigLen then Inl (ScriptErr ErrSigMissingSTypeID)
          else if sLenOffset \<ge> sigLen then Inl (ScriptErr ErrSigMissingSLen)
          else
            let sOffset = sLenOffset + 1; sLen = unat (sig ! sLenOffset) in
            if sOffset + sLen \<noteq> sigLen then Inl (ScriptErr ErrSigInvalidSLen)
            else if sig ! 2 \<noteq> 0x02 then Inl (ScriptErr ErrSigInvalidRIntID)
            else if rLen = 0 then Inl (ScriptErr ErrSigZeroRLen)
            else if sig ! 4 AND 0x80 \<noteq> 0 then Inl (ScriptErr ErrSigNegativeR)
            else if rLen > 1 \<and> sig ! 4 = 0x00 \<and> sig ! 5 AND 0x80 = 0 then Inl (ScriptErr ErrSigTooMuchRPadding)
            else if sig ! sTypeOffset \<noteq> 0x02 then Inl (ScriptErr ErrSigInvalidSIntID)
            else if sLen = 0 then Inl (ScriptErr ErrSigZeroSLen)
            else if sig ! sOffset AND 0x80 \<noteq> 0 then Inl (ScriptErr ErrSigNegativeS)
            else if sLen > 1 \<and> sig ! sOffset = 0x00 \<and> sig ! (sOffset + 1) AND 0x80 = 0
            then Inl (ScriptErr ErrSigTooMuchSPadding)
            else if hasFlag vm ScriptVerifyLowS \<and> be_val (slice sOffset (sOffset + sLen) sig) > halfOrder
            then Inl (ScriptErr ErrSigHighS)
            else Inr ())"

section \<open>Signature verifiers\<close>

text \<open>The result of a verification: whether the signature is valid and whether it was found in the script.\<close>

type_synonym verifyResult = "bool \<times> bool"

record 'p baseSigVerifier =
  bs_pubKey :: 'p
  bs_sig :: "int \<times> int"
  bs_fullSigBytes :: bytes
  bs_sigBytes :: bytes
  bs_pkBytes :: bytes
  bs_subScript :: bytes
  bs_hashType :: int

definition parse_result :: "'a option \<Rightarrow> 'a vmResult" where
  "parse_result x = (case x of None \<Rightarrow> Inl NonScriptErr | Some y \<Rightarrow> Inr y)"

definition parseSigBytes :: "bytes \<Rightarrow> Engine \<Rightarrow> (int \<times> int) option" where
  "parseSigBytes sigBytes vm =
     (if hasFlag vm ScriptVerifyStrictEncoding \<or> hasFlag vm ScriptVerifyDERSignatures
      then ParseDERSignature sigBytes else ParseSignature sigBytes)"

definition parseBaseSigAndPubkey :: "'p env \<Rightarrow> bytes \<Rightarrow> bytes \<Rightarrow> Engine \<Rightarrow> ('p \<times> (int \<times> int) \<times> int) vmResult" where
  "parseBaseSigAndPubkey E pkBytes fullSigBytes vm =
     (if fullSigBytes = [] then Inl EnginePanic
      else
        let hashType = uint (last fullSigBytes); sigBytes = butlast fullSigBytes in
        vbind (checkHashTypeEncoding hashType vm) (\<lambda>_.
        vbind (checkSignatureEncoding sigBytes vm) (\<lambda>_.
        vbind (checkPubKeyEncoding pkBytes vm) (\<lambda>_.
        vbind (parse_result (parsePubKey (env_curve E) pkBytes)) (\<lambda>pubKey.
        vbind (parse_result (parseSigBytes sigBytes vm)) (\<lambda>signature.
        Inr (pubKey, signature, hashType)))))))"

definition newBaseSigVerifier :: "'p env \<Rightarrow> bytes \<Rightarrow> bytes \<Rightarrow> Engine \<Rightarrow> 'p baseSigVerifier vmResult" where
  "newBaseSigVerifier E pkBytes fullSigBytes vm =
     vbind (parseBaseSigAndPubkey E pkBytes fullSigBytes vm) (\<lambda>(pubKey, sig, hashType).
     vbind (subScript vm) (\<lambda>sub.
     Inr \<lparr>bs_pubKey = pubKey, bs_sig = sig, bs_fullSigBytes = fullSigBytes, bs_sigBytes = butlast fullSigBytes,
          bs_pkBytes = pkBytes, bs_subScript = sub, bs_hashType = hashType\<rparr>))"

text \<open>An ECDSA check that goes through the cache, when there is one.\<close>

definition cached_verify :: "'p env \<Rightarrow> bytes \<Rightarrow> bytes \<Rightarrow> bytes \<Rightarrow> bool \<Rightarrow> Engine \<Rightarrow> bool \<times> Engine" where
  "cached_verify E sigHash sigBytes pkBytes check vm =
     (case vm_sigCache vm of
        None \<Rightarrow> (check, vm)
      | Some cache \<Rightarrow>
          if Exists sigHash sigBytes pkBytes cache then (True, vm)
          else if check then (True, vm\<lparr>vm_sigCache := Some (Add E sigHash sigBytes pkBytes cache)\<rparr>)
          else (False, vm))"

definition base_verifySig :: "'p env \<Rightarrow> 'p baseSigVerifier \<Rightarrow> bytes \<Rightarrow> Engine \<Rightarrow> bool \<times> Engine" where
  "base_verifySig E b sigHash vm =
     cached_verify E sigHash (bs_sigBytes b) (bs_pkBytes b) (ecdsaVerify (env_curve E) (bs_sig b) sigHash (bs_pubKey b)) vm"

definition base_Verify :: "'p env \<Rightarrow> 'p baseSigVerifier \<Rightarrow> Engine \<Rightarrow> (verifyResult \<times> Engine) vmResult" where
  "base_Verify E b vm =
     (let (sub, found) = removeOpcodeByData (bs_subScript b) (bs_fullSigBytes b) in
      vbind (calcSignatureHash sub (bs_hashType b) (vm_tx vm) (vm_txIdx vm)) (\<lambda>sigHash.
      let (valid, vm) = base_verifySig E b sigHash vm in Inr ((valid, found), vm)))"

definition engine_sigHashes :: "Engine \<Rightarrow> TxSigHashes vmResult" where
  "engine_sigHashes vm =
     (case vm_hashCache vm of Some h \<Rightarrow> Inr h | None \<Rightarrow> NewTxSigHashes (vm_tx vm) (vm_prevOutFetcher vm))"

text \<open>An error of the digest makes the signature invalid; a panic is not an error.\<close>

definition with_digest ::
  "bytes vmResult \<Rightarrow> (bytes \<Rightarrow> bool \<times> Engine) \<Rightarrow> Engine \<Rightarrow> (verifyResult \<times> Engine) vmResult" where
  "with_digest digest check vm =
     (case digest of
        Inl EnginePanic \<Rightarrow> Inl EnginePanic
      | Inl _ \<Rightarrow> Inr ((False, False), vm)
      | Inr sigHash \<Rightarrow> let (valid, vm) = check sigHash in Inr ((valid, False), vm))"

definition segwit_Verify :: "'p env \<Rightarrow> 'p baseSigVerifier \<Rightarrow> Engine \<Rightarrow> (verifyResult \<times> Engine) vmResult" where
  "segwit_Verify E s vm =
     vbind (engine_sigHashes vm) (\<lambda>sigHashes.
     with_digest
       (calcWitnessSignatureHashRaw (bs_subScript s) sigHashes (bs_hashType s) (vm_tx vm) (vm_txIdx vm) (vm_inputAmount vm))
       (\<lambda>sigHash. base_verifySig E s sigHash vm) vm)"

record 'p taprootSigVerifier =
  ts_pubKey :: 'p
  ts_pkBytes :: bytes
  ts_fullSigBytes :: bytes
  ts_sig :: schnorrSig
  ts_hashType :: int
  ts_annex :: "bytes option"

definition schnorr_result :: "schnorrError + 'a \<Rightarrow> 'a vmResult" where
  "schnorr_result x = (case x of Inl _ \<Rightarrow> Inl NonScriptErr | Inr y \<Rightarrow> Inr y)"

definition parseTaprootSigAndPubKey :: "'p env \<Rightarrow> bytes \<Rightarrow> bytes \<Rightarrow> ('p \<times> schnorrSig \<times> int) vmResult" where
  "parseTaprootSigAndPubKey E pkBytes rawSig =
     vbind (parse_result (schnorr_ParsePubKey (env_curve E) pkBytes)) (\<lambda>pubKey.
     if length rawSig = 64 then
       vbind (schnorr_result (schnorr_ParseSignature rawSig)) (\<lambda>sig. Inr (pubKey, sig, SigHashDefault))
     else if length rawSig = 65 \<and> rawSig ! 64 \<noteq> 0 then
       vbind (schnorr_result (schnorr_ParseSignature (take 64 rawSig))) (\<lambda>sig. Inr (pubKey, sig, uint (rawSig ! 64)))
     else Inl (ScriptErr ErrInvalidTaprootSigLen))"

definition newTaprootSigVerifier :: "'p env \<Rightarrow> bytes \<Rightarrow> bytes \<Rightarrow> bytes option \<Rightarrow> 'p taprootSigVerifier vmResult" where
  "newTaprootSigVerifier E pkBytes fullSigBytes annex =
     vbind (parseTaprootSigAndPubKey E pkBytes fullSigBytes) (\<lambda>(pubKey, sig, sigHashType).
     Inr \<lparr>ts_pubKey = pubKey, ts_pkBytes = pkBytes, ts_fullSigBytes = fullSigBytes, ts_sig = sig,
          ts_hashType = sigHashType, ts_annex = annex\<rparr>)"

definition taproot_verifySig :: "'p env \<Rightarrow> 'p taprootSigVerifier \<Rightarrow> bytes \<Rightarrow> Engine \<Rightarrow> bool \<times> Engine" where
  "taproot_verifySig E t sigHash vm =
     cached_verify E sigHash (ts_fullSigBytes t) (ts_pkBytes t) (schnorr_Verify (env_curve E) (ts_sig t) sigHash (ts_pubKey t)) vm"

text \<open>
  The digest reads the cached hashes of the transaction: without them it panics where it needs one of
  them.
\<close>

definition taproot_digest :: "int \<Rightarrow> taprootSigHashOptions \<Rightarrow> Engine \<Rightarrow> bytes vmResult" where
  "taproot_digest hashType opts vm =
     (case vm_hashCache vm of
        Some h \<Rightarrow> calcTaprootSignatureHashRaw h hashType (vm_tx vm) (vm_txIdx vm) (vm_prevOutFetcher vm) opts
      | None \<Rightarrow>
          if isValidTaprootSigHash hashType \<and> vm_txIdx vm < length (tx_TxIn (vm_tx vm)) \<and>
             (hashType AND SigHashAnyOneCanPay \<noteq> SigHashAnyOneCanPay \<or>
              hashType AND SigHashSingle \<noteq> SigHashSingle \<and> hashType AND SigHashSingle \<noteq> SigHashNone)
          then Inl EnginePanic
          else
            calcTaprootSignatureHashRaw
              \<lparr>HashPrevOutsV0 = zeroHash, HashSequenceV0 = zeroHash, HashOutputsV0 = zeroHash, HashPrevOutsV1 = zeroHash,
               HashSequenceV1 = zeroHash, HashOutputsV1 = zeroHash, HashInputScriptsV1 = zeroHash, HashInputAmountsV1 = zeroHash\<rparr>
              hashType (vm_tx vm) (vm_txIdx vm) (vm_prevOutFetcher vm) opts)"

definition annex_option :: "bytes option \<Rightarrow> taprootSigHashOptions \<Rightarrow> taprootSigHashOptions" where
  "annex_option annex opts = (case annex of None \<Rightarrow> opts | Some a \<Rightarrow> WithAnnex a opts)"

definition taproot_Verify :: "'p env \<Rightarrow> 'p taprootSigVerifier \<Rightarrow> Engine \<Rightarrow> (verifyResult \<times> Engine) vmResult" where
  "taproot_Verify E t vm =
     with_digest (taproot_digest (ts_hashType t) (annex_option (ts_annex t) defaultTaprootSighashOptions) vm)
       (\<lambda>sigHash. taproot_verifySig E t sigHash vm) vm"

text \<open>A verifier without key stands for a public key of an unknown kind.\<close>

definition newBaseTapscriptSigVerifier ::
  "'p env \<Rightarrow> bytes \<Rightarrow> bytes \<Rightarrow> taprootExecutionCtx \<Rightarrow> Engine \<Rightarrow> 'p taprootSigVerifier option vmResult" where
  "newBaseTapscriptSigVerifier E pkBytes rawSig ctx vm =
     (if length pkBytes = 0 then Inl (ScriptErr ErrTaprootPubkeyIsEmpty)
      else if length pkBytes = 32 then vbind (newTaprootSigVerifier E pkBytes rawSig (tc_annex ctx)) (\<lambda>t. Inr (Some t))
      else if hasFlag vm ScriptVerifyDiscourageUpgradeablePubkeyType then Inl (ScriptErr ErrDiscourageUpgradeablePubKeyType)
      else Inr None)"

definition tapscript_Verify ::
  "'p env \<Rightarrow> 'p taprootSigVerifier option \<Rightarrow> taprootExecutionCtx \<Rightarrow> Engine \<Rightarrow> (verifyResult \<times> Engine) vmResult" where
  "tapscript_Verify E v ctx vm =
     (case v of
        None \<Rightarrow> Inr ((True, False), vm)
      | Some t \<Rightarrow>
          let opts = annex_option (tc_annex ctx)
                (WithBaseTapscriptVersion (tc_codeSepPos ctx) (tc_tapLeafHash ctx) defaultTaprootSighashOptions) in
          with_digest (taproot_digest (ts_hashType t) opts vm) (\<lambda>sigHash. taproot_verifySig E t sigHash vm) vm)"

definition TaprootAnnexTag :: byte where "TaprootAnnexTag = 0x50"

definition isAnnexedWitness :: "bytes list \<Rightarrow> bool" where
  "isAnnexedWitness witness =
     (if length witness < 2 then False
      else let lastElement = last witness in lastElement \<noteq> [] \<and> lastElement ! 0 = TaprootAnnexTag)"

definition extractAnnex :: "bytes list \<Rightarrow> bytes vmResult" where
  "extractAnnex witness =
     (if \<not> isAnnexedWitness witness then Inl (ScriptErr ErrWitnessHasNoAnnex) else Inr (last witness))"

definition VerifyTaprootKeySpend :: "'p env \<Rightarrow> bytes \<Rightarrow> bytes \<Rightarrow> Engine \<Rightarrow> Engine vmResult" where
  "VerifyTaprootKeySpend E program rawSig vm =
     vbind (txInput vm) (\<lambda>txIn.
     let annex = (case extractAnnex (ti_Witness txIn) of Inl _ \<Rightarrow> None | Inr a \<Rightarrow> Some a) in
     vbind (newTaprootSigVerifier E program rawSig annex) (\<lambda>v.
     vbind (taproot_Verify E v vm) (\<lambda>((valid, _), vm).
     if valid then Inr vm else Inl (ScriptErr ErrTaprootSigInvalid))))"

section \<open>Handlers\<close>

type_synonym handler = "byte \<Rightarrow> bytes option \<Rightarrow> Engine \<Rightarrow> Engine vmResult"

definition opcodeDisabled :: handler where
  "opcodeDisabled op data vm = Inl (ScriptErr ErrDisabledOpcode)"

definition opcodeReserved :: handler where
  "opcodeReserved op data vm = Inl (ScriptErr ErrReservedOpcode)"

definition opcodeInvalid :: handler where
  "opcodeInvalid op data vm = Inl (ScriptErr ErrReservedOpcode)"

definition opcodeFalse :: handler where
  "opcodeFalse op data vm = Inr (push_bytes_vm [] vm)"

definition opcodePushData :: handler where
  "opcodePushData op data vm = Inr (push_bytes_vm (opt_data data) vm)"

definition opcode1Negate :: handler where
  "opcode1Negate op data vm = push_int_vm (-1) vm"

definition opcodeN :: handler where
  "opcodeN op data vm = push_int_vm (uint (op - (OP_1 - 1))) vm"

definition opcodeNop :: handler where
  "opcodeNop op data vm =
     (if op \<in> {OP_NOP1, OP_NOP4, OP_NOP5, OP_NOP6, OP_NOP7, OP_NOP8, OP_NOP9, OP_NOP10} \<and>
         hasFlag vm ScriptDiscourageUpgradableNops
      then Inl (ScriptErr ErrDiscourageUpgradableNOPs)
      else Inr vm)"

definition popIfBool :: "Engine \<Rightarrow> (bool \<times> Engine) vmResult" where
  "popIfBool vm =
     (if \<not> isWitnessVersionActive TaprootWitnessVersion vm \<and>
         (\<not> isWitnessVersionActive BaseSegwitWitnessVersion vm \<or> \<not> hasFlag vm ScriptVerifyMinimalIf)
      then pop_bool_vm vm
      else
        vbind (pop_bytes_vm vm) (\<lambda>(so, vm).
        if length so > 1 then Inl (ScriptErr ErrMinimalIf)
        else if length so = 1 \<and> so ! 0 \<noteq> 0x01 then Inl (ScriptErr ErrMinimalIf)
        else Inr (asBool so, vm)))"

definition push_cond :: "int \<Rightarrow> Engine \<Rightarrow> Engine" where
  "push_cond condVal vm = vm\<lparr>vm_condStack := vm_condStack vm @ [condVal]\<rparr>"

definition opcodeIf :: handler where
  "opcodeIf op data vm =
     (if isBranchExecuting vm
      then vbind (popIfBool vm) (\<lambda>(ok, vm). Inr (push_cond (if ok then OpCondTrue else OpCondFalse) vm))
      else Inr (push_cond OpCondSkip vm))"

definition opcodeNotIf :: handler where
  "opcodeNotIf op data vm =
     (if isBranchExecuting vm
      then vbind (popIfBool vm) (\<lambda>(ok, vm). Inr (push_cond (if \<not> ok then OpCondTrue else OpCondFalse) vm))
      else Inr (push_cond OpCondSkip vm))"

definition opcodeElse :: handler where
  "opcodeElse op data vm =
     (if vm_condStack vm = [] then Inl (ScriptErr ErrUnbalancedConditional)
      else
        let conditionalIdx = length (vm_condStack vm) - 1; c = vm_condStack vm ! conditionalIdx in
        Inr (vm\<lparr>vm_condStack := (vm_condStack vm)[conditionalIdx :=
          (if c = OpCondTrue then OpCondFalse else if c = OpCondFalse then OpCondTrue else c)]\<rparr>))"

definition opcodeEndif :: handler where
  "opcodeEndif op data vm =
     (if vm_condStack vm = [] then Inl (ScriptErr ErrUnbalancedConditional)
      else Inr (vm\<lparr>vm_condStack := take (length (vm_condStack vm) - 1) (vm_condStack vm)\<rparr>))"

definition abstractVerify :: "ScriptError \<Rightarrow> Engine \<Rightarrow> Engine vmResult" where
  "abstractVerify c vm =
     vbind (pop_bool_vm vm) (\<lambda>(verified, vm). if \<not> verified then Inl (ScriptErr c) else Inr vm)"

definition opcodeVerify :: handler where
  "opcodeVerify op data vm = abstractVerify ErrVerify vm"

definition opcodeReturn :: handler where
  "opcodeReturn op data vm = Inl (ScriptErr ErrEarlyReturn)"

definition verifyLockTime :: "int \<Rightarrow> int \<Rightarrow> int \<Rightarrow> unit vmResult" where
  "verifyLockTime txLockTime threshold lockTime =
     (if \<not> ((txLockTime < threshold \<and> lockTime < threshold) \<or> (txLockTime \<ge> threshold \<and> lockTime \<ge> threshold))
      then Inl (ScriptErr ErrUnsatisfiedLockTime)
      else if lockTime > txLockTime then Inl (ScriptErr ErrUnsatisfiedLockTime)
      else Inr ())"

definition nop_unless_discouraged :: "Engine \<Rightarrow> Engine vmResult" where
  "nop_unless_discouraged vm =
     (if hasFlag vm ScriptDiscourageUpgradableNops then Inl (ScriptErr ErrDiscourageUpgradableNOPs) else Inr vm)"

definition peek_lock :: "Engine \<Rightarrow> int vmResult" where
  "peek_lock vm =
     vbind (PeekByteArray 0 (vm_dstack vm)) (\<lambda>so.
     vbind (toScriptNum so (verifyMinimalData (vm_dstack vm)) 5) (\<lambda>n.
     if n < 0 then Inl (ScriptErr ErrNegativeLockTime) else Inr n))"

definition opcodeCheckLockTimeVerify :: handler where
  "opcodeCheckLockTimeVerify op data vm =
     (if \<not> hasFlag vm ScriptVerifyCheckLockTimeVerify then nop_unless_discouraged vm
      else
        vbind (peek_lock vm) (\<lambda>lockTime.
        vbind (verifyLockTime (tx_LockTime (vm_tx vm)) LockTimeThreshold lockTime) (\<lambda>_.
        vbind (txInput vm) (\<lambda>txIn.
        if ti_Sequence txIn = MaxTxInSequenceNum then Inl (ScriptErr ErrUnsatisfiedLockTime) else Inr vm))))"

definition opcodeCheckSequenceVerify :: handler where
  "opcodeCheckSequenceVerify op data vm =
     (if \<not> hasFlag vm ScriptVerifyCheckSequenceVerify then nop_unless_discouraged vm
      else
        vbind (peek_lock vm) (\<lambda>sequence.
        if sequence AND SequenceLockTimeDisabled \<noteq> 0 then Inr vm
        else if u32 (tx_Version (vm_tx vm)) < 2 then Inl (ScriptErr ErrUnsatisfiedLockTime)
        else
          vbind (txInput vm) (\<lambda>txIn.
          let txSequence = ti_Sequence txIn in
          if txSequence AND SequenceLockTimeDisabled \<noteq> 0 then Inl (ScriptErr ErrUnsatisfiedLockTime)
          else
            let lockTimeMask = SequenceLockTimeIsSeconds OR SequenceLockTimeMask in
            vbind (verifyLockTime (txSequence AND lockTimeMask) SequenceLockTimeIsSeconds (sequence AND lockTimeMask)) (\<lambda>_.
            Inr vm))))"

subsection \<open>Stack instructions\<close>

definition opcodeToAltStack :: handler where
  "opcodeToAltStack op data vm =
     vbind (pop_bytes_vm vm) (\<lambda>(so, vm). Inr (vm\<lparr>vm_astack := PushByteArray so (vm_astack vm)\<rparr>))"

definition opcodeFromAltStack :: handler where
  "opcodeFromAltStack op data vm =
     vbind (PopByteArray (vm_astack vm)) (\<lambda>(so, s). Inr (push_bytes_vm so (vm\<lparr>vm_astack := s\<rparr>)))"

definition opcode2Drop :: handler where "opcode2Drop op data = on_dstack (DropN 2)"
definition opcode2Dup :: handler where "opcode2Dup op data = on_dstack (DupN 2)"
definition opcode3Dup :: handler where "opcode3Dup op data = on_dstack (DupN 3)"
definition opcode2Over :: handler where "opcode2Over op data = on_dstack (OverN 2)"
definition opcode2Rot :: handler where "opcode2Rot op data = on_dstack (RotN 2)"
definition opcode2Swap :: handler where "opcode2Swap op data = on_dstack (SwapN 2)"

definition opcodeIfDup :: handler where
  "opcodeIfDup op data vm =
     vbind (PeekByteArray 0 (vm_dstack vm)) (\<lambda>so. Inr (if asBool so then push_bytes_vm so vm else vm))"

definition opcodeDepth :: handler where
  "opcodeDepth op data vm = push_int_vm (Depth (vm_dstack vm)) vm"

definition opcodeDrop :: handler where "opcodeDrop op data = on_dstack (DropN 1)"
definition opcodeDup :: handler where "opcodeDup op data = on_dstack (DupN 1)"
definition opcodeNip :: handler where "opcodeNip op data = on_dstack (NipN 1)"
definition opcodeOver :: handler where "opcodeOver op data = on_dstack (OverN 1)"

definition opcodePick :: handler where
  "opcodePick op data vm = vbind (pop_int_vm vm) (\<lambda>(val, vm). on_dstack (PickN (scriptNum_Int32 val)) vm)"

definition opcodeRoll :: handler where
  "opcodeRoll op data vm = vbind (pop_int_vm vm) (\<lambda>(val, vm). on_dstack (RollN (scriptNum_Int32 val)) vm)"

definition opcodeRot :: handler where "opcodeRot op data = on_dstack (RotN 1)"
definition opcodeSwap :: handler where "opcodeSwap op data = on_dstack (SwapN 1)"
definition opcodeTuck :: handler where "opcodeTuck op data = on_dstack Tuck"

definition opcodeSize :: handler where
  "opcodeSize op data vm =
     vbind (PeekByteArray 0 (vm_dstack vm)) (\<lambda>so. push_int_vm (int (length so)) vm)"

definition opcodeEqual :: handler where
  "opcodeEqual op data vm =
     vbind (pop_bytes_vm vm) (\<lambda>(a, vm). vbind (pop_bytes_vm vm) (\<lambda>(b, vm). Inr (push_bool_vm (a = b) vm)))"

definition opcodeEqualVerify :: handler where
  "opcodeEqualVerify op data vm = vbind (opcodeEqual op data vm) (abstractVerify ErrEqualVerify)"

subsection \<open>Numeric instructions\<close>

definition unary :: "(int \<Rightarrow> int) \<Rightarrow> Engine \<Rightarrow> Engine vmResult" where
  "unary f vm = vbind (pop_int_vm vm) (\<lambda>(m, vm). push_int_vm (f m) vm)"

text \<open>The first argument of the function is the top of the stack.\<close>

definition binary :: "(int \<Rightarrow> int \<Rightarrow> int) \<Rightarrow> Engine \<Rightarrow> Engine vmResult" where
  "binary f vm = vbind (pop_int_vm vm) (\<lambda>(v0, vm). vbind (pop_int_vm vm) (\<lambda>(v1, vm). push_int_vm (f v0 v1) vm))"

definition opcode1Add :: handler where "opcode1Add op data = unary (\<lambda>m. i64 (m + 1))"
definition opcode1Sub :: handler where "opcode1Sub op data = unary (\<lambda>m. i64 (m - 1))"
definition opcodeNegate :: handler where "opcodeNegate op data = unary (\<lambda>m. i64 (- m))"
definition opcodeAbs :: handler where "opcodeAbs op data = unary (\<lambda>m. if m < 0 then i64 (- m) else m)"
definition opcodeNot :: handler where "opcodeNot op data = unary (\<lambda>m. if m = 0 then 1 else 0)"
definition opcode0NotEqual :: handler where "opcode0NotEqual op data = unary (\<lambda>m. if m \<noteq> 0 then 1 else m)"
definition opcodeAdd :: handler where "opcodeAdd op data = binary (\<lambda>v0 v1. i64 (v0 + v1))"
definition opcodeSub :: handler where "opcodeSub op data = binary (\<lambda>v0 v1. i64 (v1 - v0))"
definition opcodeBoolAnd :: handler where "opcodeBoolAnd op data = binary (\<lambda>v0 v1. if v0 \<noteq> 0 \<and> v1 \<noteq> 0 then 1 else 0)"
definition opcodeBoolOr :: handler where "opcodeBoolOr op data = binary (\<lambda>v0 v1. if v0 \<noteq> 0 \<or> v1 \<noteq> 0 then 1 else 0)"
definition opcodeNumEqual :: handler where "opcodeNumEqual op data = binary (\<lambda>v0 v1. if v0 = v1 then 1 else 0)"

definition opcodeNumEqualVerify :: handler where
  "opcodeNumEqualVerify op data vm = vbind (opcodeNumEqual op data vm) (abstractVerify ErrNumEqualVerify)"

definition opcodeNumNotEqual :: handler where "opcodeNumNotEqual op data = binary (\<lambda>v0 v1. if v0 \<noteq> v1 then 1 else 0)"
definition opcodeLessThan :: handler where "opcodeLessThan op data = binary (\<lambda>v0 v1. if v1 < v0 then 1 else 0)"
definition opcodeGreaterThan :: handler where "opcodeGreaterThan op data = binary (\<lambda>v0 v1. if v1 > v0 then 1 else 0)"
definition opcodeLessThanOrEqual :: handler where "opcodeLessThanOrEqual op data = binary (\<lambda>v0 v1. if v1 \<le> v0 then 1 else 0)"
definition opcodeGreaterThanOrEqual :: handler where "opcodeGreaterThanOrEqual op data = binary (\<lambda>v0 v1. if v1 \<ge> v0 then 1 else 0)"
definition opcodeMin :: handler where "opcodeMin op data = binary (\<lambda>v0 v1. if v1 < v0 then v1 else v0)"
definition opcodeMax :: handler where "opcodeMax op data = binary (\<lambda>v0 v1. if v1 > v0 then v1 else v0)"

definition opcodeWithin :: handler where
  "opcodeWithin op data vm =
     vbind (pop_int_vm vm) (\<lambda>(maxVal, vm).
     vbind (pop_int_vm vm) (\<lambda>(minVal, vm).
     vbind (pop_int_vm vm) (\<lambda>(x, vm).
     push_int_vm (if x \<ge> minVal \<and> x < maxVal then 1 else 0) vm)))"

subsection \<open>Hashes\<close>

definition hash_with :: "(bytes \<Rightarrow> bytes) \<Rightarrow> Engine \<Rightarrow> Engine vmResult" where
  "hash_with h vm = vbind (pop_bytes_vm vm) (\<lambda>(buf, vm). Inr (push_bytes_vm (h buf) vm))"

definition opcodeRipemd160 :: "'p env \<Rightarrow> handler" where "opcodeRipemd160 E op data = hash_with (ripemd160 (env_curve E))"
definition opcodeSha1 :: handler where "opcodeSha1 op data = hash_with sha1"
definition opcodeSha256 :: handler where "opcodeSha256 op data = hash_with sha256"
definition opcodeHash160 :: "'p env \<Rightarrow> handler" where "opcodeHash160 E op data = hash_with (\<lambda>b. ripemd160 (env_curve E) (sha256 b))"
definition opcodeHash256 :: handler where "opcodeHash256 op data = hash_with sha256d"

definition opcodeCodeSeparator :: handler where
  "opcodeCodeSeparator op data vm =
     Inr (vm\<lparr>vm_lastCodeSep := tk_offset (vm_tokenizer vm),
             vm_taprootCtx := map_option (\<lambda>c. c\<lparr>tc_codeSepPos := u32 (tk_opcodePos (vm_tokenizer vm))\<rparr>) (vm_taprootCtx vm)\<rparr>)"

subsection \<open>Signatures\<close>

text \<open>
  A failure to build a verifier that is not a script error makes the signature invalid; script errors
  and panics end the script.
\<close>

definition or_invalid :: "'v vmResult \<Rightarrow> ('v \<Rightarrow> Engine vmResult) \<Rightarrow> Engine \<Rightarrow> Engine vmResult" where
  "or_invalid r f vm = (case r of Inl NonScriptErr \<Rightarrow> Inr (push_bool_vm False vm) | Inl e \<Rightarrow> Inl e | Inr v \<Rightarrow> f v)"

definition finish_checksig :: "bytes \<Rightarrow> verifyResult \<Rightarrow> Engine \<Rightarrow> Engine vmResult" where
  "finish_checksig fullSigBytes result vm =
     (case result of (valid, found) \<Rightarrow>
      if hasFlag vm ScriptVerifyConstScriptCode \<and> found then Inl (ScriptErr ErrNonConstScriptCode)
      else if \<not> valid \<and> fullSigBytes \<noteq> [] \<and> (vm_taprootCtx vm \<noteq> None \<or> hasFlag vm ScriptVerifyNullFail)
      then Inl (ScriptErr ErrNullFail)
      else Inr (push_bool_vm valid vm))"

text \<open>The case of a tapscript, with the context of the execution.\<close>

definition checksig_tapscript :: "'p env \<Rightarrow> bytes \<Rightarrow> bytes \<Rightarrow> taprootExecutionCtx \<Rightarrow> Engine \<Rightarrow> Engine vmResult" where
  "checksig_tapscript E pkBytes fullSigBytes ctx vm =
     vbind (if fullSigBytes \<noteq> [] then tallysigOp ctx else Inr ctx) (\<lambda>ctx.
     let vm = vm\<lparr>vm_taprootCtx := Some ctx\<rparr> in
     if pkBytes = [] then Inl (ScriptErr ErrTaprootPubkeyIsEmpty)
     else if fullSigBytes = [] then Inr (push_bytes_vm [] vm)
     else
       vbind (newBaseTapscriptSigVerifier E pkBytes fullSigBytes ctx vm) (\<lambda>v.
       vbind (tapscript_Verify E v ctx vm) (\<lambda>(result, vm). finish_checksig fullSigBytes result vm)))"

definition checksig_with :: "'p env \<Rightarrow> bytes \<Rightarrow> bytes \<Rightarrow> Engine \<Rightarrow> Engine vmResult" where
  "checksig_with E pkBytes fullSigBytes vm =
     (if vm_taprootCtx vm = None \<and> fullSigBytes = [] then
        vbind (checkPubKeyEncoding pkBytes vm) (\<lambda>_. Inr (push_bool_vm False vm))
      else if vm_witnessProgram vm = None then
        or_invalid (newBaseSigVerifier E pkBytes fullSigBytes vm) (\<lambda>v.
          vbind (base_Verify E v vm) (\<lambda>(result, vm). finish_checksig fullSigBytes result vm)) vm
      else if isWitnessVersionActive BaseSegwitWitnessVersion vm then
        or_invalid (newBaseSigVerifier E pkBytes fullSigBytes vm) (\<lambda>v.
          vbind (segwit_Verify E v vm) (\<lambda>(result, vm). finish_checksig fullSigBytes result vm)) vm
      else case vm_taprootCtx vm of
        None \<Rightarrow> Inl EnginePanic
      | Some ctx \<Rightarrow> checksig_tapscript E pkBytes fullSigBytes ctx vm)"

definition opcodeCheckSig :: "'p env \<Rightarrow> handler" where
  "opcodeCheckSig E op data vm =
     vbind (pop_bytes_vm vm) (\<lambda>(pkBytes, vm).
     vbind (pop_bytes_vm vm) (\<lambda>(fullSigBytes, vm). checksig_with E pkBytes fullSigBytes vm))"

definition opcodeCheckSigVerify :: "'p env \<Rightarrow> handler" where
  "opcodeCheckSigVerify E op data vm = vbind (opcodeCheckSig E op data vm) (abstractVerify ErrCheckSigVerify)"

definition add_checked :: "'p env \<Rightarrow> bytes \<Rightarrow> int \<Rightarrow> bytes \<Rightarrow> taprootExecutionCtx \<Rightarrow> Engine \<Rightarrow> Engine vmResult" where
  "add_checked E pubKeyBytes accumulatorInt sigBytes ctx vm =
     vbind (if sigBytes \<noteq> [] then tallysigOp ctx else Inr ctx) (\<lambda>ctx.
     let vm = vm\<lparr>vm_taprootCtx := Some ctx\<rparr> in
     if pubKeyBytes = [] then Inl (ScriptErr ErrTaprootPubkeyIsEmpty)
     else if sigBytes = [] then push_int_vm accumulatorInt vm
     else
       vbind (newBaseTapscriptSigVerifier E pubKeyBytes sigBytes ctx vm) (\<lambda>v.
       vbind (tapscript_Verify E v ctx vm) (\<lambda>((valid, _), vm).
       if \<not> valid then Inl (ScriptErr ErrNullFail) else push_int_vm (i64 (accumulatorInt + 1)) vm)))"

definition opcodeCheckSigAdd :: "'p env \<Rightarrow> handler" where
  "opcodeCheckSigAdd E op data vm =
     (case vm_taprootCtx vm of
        None \<Rightarrow> Inl (ScriptErr ErrReservedOpcode)
      | Some ctx \<Rightarrow>
          vbind (pop_bytes_vm vm) (\<lambda>(pubKeyBytes, vm).
          vbind (pop_int_vm vm) (\<lambda>(accumulatorInt, vm).
          vbind (pop_bytes_vm vm) (\<lambda>(sigBytes, vm). add_checked E pubKeyBytes accumulatorInt sigBytes ctx vm))))"

text \<open>Popping a number of items, in the order they come off the stack.\<close>

primrec pop_many :: "nat \<Rightarrow> Engine \<Rightarrow> (bytes list \<times> Engine) vmResult" where
  "pop_many 0 vm = Inr ([], vm)"
| "pop_many (Suc n) vm =
     vbind (pop_bytes_vm vm) (\<lambda>(x, vm). vbind (pop_many n vm) (\<lambda>(xs, vm). Inr (x # xs, vm)))"

primrec remove_signatures :: "bytes list \<Rightarrow> bytes \<Rightarrow> Engine \<Rightarrow> bytes vmResult" where
  "remove_signatures [] script vm = Inr script"
| "remove_signatures (sig # sigs) script vm =
     (let (script, found) = removeOpcodeByData script sig in
      if hasFlag vm ScriptVerifyConstScriptCode \<and> found then Inl (ScriptErr ErrNonConstScriptCode)
      else remove_signatures sigs script vm)"

definition multisig_digest :: "bytes \<Rightarrow> int \<Rightarrow> Engine \<Rightarrow> bytes vmResult" where
  "multisig_digest script hashType vm =
     (if isWitnessVersionActive 0 vm then
        vbind (engine_sigHashes vm) (\<lambda>sigHashes.
        calcWitnessSignatureHashRaw script sigHashes hashType (vm_tx vm) (vm_txIdx vm) (vm_inputAmount vm))
      else calcSignatureHash script hashType (vm_tx vm) (vm_txIdx vm))"

text \<open>
  The encoding of the current signature is checked and the signature parsed when it is first tried;
  \<open>parsed\<close> holds the outcome for the further keys. None is the state before the first try.
\<close>

definition parse_once ::
  "bytes \<Rightarrow> (int \<times> int) option option \<Rightarrow> Engine \<Rightarrow> (int \<times> int) option vmResult" where
  "parse_once rawSig parsed vm =
     (case parsed of
        Some p \<Rightarrow> Inr p
      | None \<Rightarrow>
          vbind (checkHashTypeEncoding (uint (last rawSig)) vm) (\<lambda>_.
          vbind (checkSignatureEncoding (butlast rawSig) vm) (\<lambda>_.
          Inr (parseSigBytes (butlast rawSig) vm))))"

definition try_key ::
  "'p env \<Rightarrow> bytes \<Rightarrow> bytes \<Rightarrow> bytes \<Rightarrow> int \<times> int \<Rightarrow> Engine \<Rightarrow> (bool \<times> Engine) vmResult" where
  "try_key E script rawSig pubKey parsedSig vm =
     vbind (checkPubKeyEncoding pubKey vm) (\<lambda>_.
     case parsePubKey (env_curve E) pubKey of
       None \<Rightarrow> Inr (False, vm)
     | Some parsedPubKey \<Rightarrow>
         vbind (multisig_digest script (uint (last rawSig)) vm) (\<lambda>hash.
         Inr (cached_verify E hash (butlast rawSig) pubKey (ecdsaVerify (env_curve E) parsedSig hash parsedPubKey) vm)))"

text \<open>
  The loop over the keys. The counters of the code are the lengths of the lists that remain: the
  signatures from \<^verbatim>\<open>signatureIdx\<close> on and the keys from \<^verbatim>\<open>pubKeyIdx\<close> on.
\<close>

fun multisig_match ::
  "'p env \<Rightarrow> bytes \<Rightarrow> bytes list \<Rightarrow> (int \<times> int) option option \<Rightarrow> bytes list \<Rightarrow> Engine \<Rightarrow> (bool \<times> Engine) vmResult" where
  "multisig_match E script [] parsed pubKeys vm = Inr (True, vm)"
| "multisig_match E script (rawSig # sigs) parsed [] vm = Inr (False, vm)"
| "multisig_match E script (rawSig # sigs) parsed (pubKey # pubKeys) vm =
     (if length (rawSig # sigs) > length (pubKey # pubKeys) then Inr (False, vm)
      else if rawSig = [] then multisig_match E script (rawSig # sigs) parsed pubKeys vm
      else
        vbind (parse_once rawSig parsed vm) (\<lambda>p.
        case p of
          None \<Rightarrow> multisig_match E script (rawSig # sigs) (Some None) pubKeys vm
        | Some parsedSig \<Rightarrow>
            vbind (try_key E script rawSig pubKey parsedSig vm) (\<lambda>(valid, vm).
            if valid then multisig_match E script sigs None pubKeys vm
            else multisig_match E script (rawSig # sigs) (Some (Some parsedSig)) pubKeys vm)))"

text \<open>The instruction in three parts: the keys, the signatures, and the comparison.\<close>

definition multisig_verify :: "'p env \<Rightarrow> bytes list \<Rightarrow> bytes list \<Rightarrow> Engine \<Rightarrow> Engine vmResult" where
  "multisig_verify E pubKeys signatures vm =
     vbind (subScript vm) (\<lambda>script.
     vbind (if \<not> isWitnessVersionActive 0 vm then remove_signatures signatures script vm else Inr script) (\<lambda>script.
     vbind (multisig_match E script signatures None pubKeys vm) (\<lambda>(success, vm).
     if \<not> success \<and> hasFlag vm ScriptVerifyNullFail \<and> (\<exists>sig \<in> set signatures. sig \<noteq> [])
     then Inl (ScriptErr ErrNullFail)
     else Inr (push_bool_vm success vm))))"

definition multisig_signatures :: "'p env \<Rightarrow> int \<Rightarrow> bytes list \<Rightarrow> Engine \<Rightarrow> Engine vmResult" where
  "multisig_signatures E numPubKeys pubKeys vm =
     vbind (pop_int_vm vm) (\<lambda>(numSigs, vm).
     let numSignatures = scriptNum_Int32 numSigs in
     if numSignatures < 0 then Inl (ScriptErr ErrInvalidSignatureCount)
     else if numSignatures > numPubKeys then Inl (ScriptErr ErrInvalidSignatureCount)
     else
       vbind (pop_many (nat numSignatures) vm) (\<lambda>(signatures, vm).
       vbind (pop_bytes_vm vm) (\<lambda>(dummy, vm).
       if hasFlag vm ScriptStrictMultiSig \<and> dummy \<noteq> [] then Inl (ScriptErr ErrSigNullDummy)
       else multisig_verify E pubKeys signatures vm)))"

definition opcodeCheckMultiSig :: "'p env \<Rightarrow> handler" where
  "opcodeCheckMultiSig E op data vm =
     (if vm_taprootCtx vm \<noteq> None then Inl (ScriptErr ErrTapscriptCheckMultisig)
      else
        vbind (pop_int_vm vm) (\<lambda>(numKeys, vm).
        let numPubKeys = scriptNum_Int32 numKeys in
        if numPubKeys < 0 then Inl (ScriptErr ErrInvalidPubKeyCount)
        else if numPubKeys > MaxPubKeysPerMultiSig then Inl (ScriptErr ErrInvalidPubKeyCount)
        else
          let vm = vm\<lparr>vm_numOps := vm_numOps vm + numPubKeys\<rparr> in
          if vm_numOps vm > MaxOpsPerScript then Inl (ScriptErr ErrTooManyOperations)
          else vbind (pop_many (nat numPubKeys) vm) (\<lambda>(pubKeys, vm). multisig_signatures E numPubKeys pubKeys vm)))"

definition opcodeCheckMultiSigVerify :: "'p env \<Rightarrow> handler" where
  "opcodeCheckMultiSigVerify E op data vm = vbind (opcodeCheckMultiSig E op data vm) (abstractVerify ErrCheckMultiSigVerify)"

section \<open>The opcode table\<close>

text \<open>The opcodes with a handler of their own; pushes and small integers are ranges of opcodes.\<close>

definition opcodeArray :: "'p env \<Rightarrow> (byte \<times> handler) list" where
  "opcodeArray E =
    [(OP_0, opcodeFalse), (OP_1NEGATE, opcode1Negate), (OP_RESERVED, opcodeReserved),
     (OP_NOP, opcodeNop), (OP_VER, opcodeReserved), (OP_IF, opcodeIf), (OP_NOTIF, opcodeNotIf),
     (OP_VERIF, opcodeReserved), (OP_VERNOTIF, opcodeReserved), (OP_ELSE, opcodeElse), (OP_ENDIF, opcodeEndif),
     (OP_VERIFY, opcodeVerify), (OP_RETURN, opcodeReturn),
     (OP_CHECKLOCKTIMEVERIFY, opcodeCheckLockTimeVerify), (OP_CHECKSEQUENCEVERIFY, opcodeCheckSequenceVerify),
     (OP_TOALTSTACK, opcodeToAltStack), (OP_FROMALTSTACK, opcodeFromAltStack), (OP_2DROP, opcode2Drop),
     (OP_2DUP, opcode2Dup), (OP_3DUP, opcode3Dup), (OP_2OVER, opcode2Over), (OP_2ROT, opcode2Rot),
     (OP_2SWAP, opcode2Swap), (OP_IFDUP, opcodeIfDup), (OP_DEPTH, opcodeDepth), (OP_DROP, opcodeDrop),
     (OP_DUP, opcodeDup), (OP_NIP, opcodeNip), (OP_OVER, opcodeOver), (OP_PICK, opcodePick),
     (OP_ROLL, opcodeRoll), (OP_ROT, opcodeRot), (OP_SWAP, opcodeSwap), (OP_TUCK, opcodeTuck),
     (OP_CAT, opcodeDisabled), (OP_SUBSTR, opcodeDisabled), (OP_LEFT, opcodeDisabled), (OP_RIGHT, opcodeDisabled),
     (OP_SIZE, opcodeSize), (OP_INVERT, opcodeDisabled), (OP_AND, opcodeDisabled), (OP_OR, opcodeDisabled),
     (OP_XOR, opcodeDisabled), (OP_EQUAL, opcodeEqual), (OP_EQUALVERIFY, opcodeEqualVerify),
     (OP_RESERVED1, opcodeReserved), (OP_RESERVED2, opcodeReserved),
     (OP_1ADD, opcode1Add), (OP_1SUB, opcode1Sub), (OP_2MUL, opcodeDisabled), (OP_2DIV, opcodeDisabled),
     (OP_NEGATE, opcodeNegate), (OP_ABS, opcodeAbs), (OP_NOT, opcodeNot), (OP_0NOTEQUAL, opcode0NotEqual),
     (OP_ADD, opcodeAdd), (OP_SUB, opcodeSub), (OP_MUL, opcodeDisabled), (OP_DIV, opcodeDisabled),
     (OP_MOD, opcodeDisabled), (OP_LSHIFT, opcodeDisabled), (OP_RSHIFT, opcodeDisabled),
     (OP_BOOLAND, opcodeBoolAnd), (OP_BOOLOR, opcodeBoolOr), (OP_NUMEQUAL, opcodeNumEqual),
     (OP_NUMEQUALVERIFY, opcodeNumEqualVerify), (OP_NUMNOTEQUAL, opcodeNumNotEqual), (OP_LESSTHAN, opcodeLessThan),
     (OP_GREATERTHAN, opcodeGreaterThan), (OP_LESSTHANOREQUAL, opcodeLessThanOrEqual),
     (OP_GREATERTHANOREQUAL, opcodeGreaterThanOrEqual), (OP_MIN, opcodeMin), (OP_MAX, opcodeMax),
     (OP_WITHIN, opcodeWithin), (OP_RIPEMD160, opcodeRipemd160 E), (OP_SHA1, opcodeSha1), (OP_SHA256, opcodeSha256),
     (OP_HASH160, opcodeHash160 E), (OP_HASH256, opcodeHash256), (OP_CODESEPARATOR, opcodeCodeSeparator),
     (OP_CHECKSIG, opcodeCheckSig E), (OP_CHECKSIGVERIFY, opcodeCheckSigVerify E),
     (OP_CHECKMULTISIG, opcodeCheckMultiSig E), (OP_CHECKMULTISIGVERIFY, opcodeCheckMultiSigVerify E),
     (OP_CHECKSIGADD, opcodeCheckSigAdd E), (OP_NOP1, opcodeNop), (OP_NOP4, opcodeNop), (OP_NOP5, opcodeNop),
     (OP_NOP6, opcodeNop), (OP_NOP7, opcodeNop), (OP_NOP8, opcodeNop), (OP_NOP9, opcodeNop), (OP_NOP10, opcodeNop)]"

definition opfunc :: "'p env \<Rightarrow> handler" where
  "opfunc E op =
     (if OP_DATA_1 \<le> op \<and> op \<le> OP_PUSHDATA4 then opcodePushData op
      else if OP_1 \<le> op \<and> op \<le> OP_16 then opcodeN op
      else case map_of (opcodeArray E) op of Some f \<Rightarrow> f op | None \<Rightarrow> opcodeInvalid op)"

end
