(* ===== verification/Engine.thy ===== *)
theory Engine
  imports EngineOps
begin

text \<open>
  The execution of scripts: the rest of \<^verbatim>\<open>txscript/engine.go\<close>. \<open>Step\<close> runs one instruction and, at the end of
  a script, moves on to the next one, adding the redeem script of a pay-to-script-hash output or the script
  of a witness program; \<open>Execute\<close> repeats it. The callback for debugging and the disassembly for the log
  are left out.
\<close>

unbundle bit_operations_syntax

section \<open>Single opcodes\<close>

definition isOpcodeDisabled :: "byte \<Rightarrow> bool" where
  "isOpcodeDisabled opcode =
     (opcode \<in> {OP_CAT, OP_SUBSTR, OP_LEFT, OP_RIGHT, OP_INVERT, OP_AND, OP_OR, OP_XOR, OP_2MUL, OP_2DIV, OP_MUL, OP_DIV,
                OP_MOD, OP_LSHIFT, OP_RSHIFT})"

definition isOpcodeAlwaysIllegal :: "byte \<Rightarrow> bool" where
  "isOpcodeAlwaysIllegal opcode = (opcode \<in> {OP_VERIF, OP_VERNOTIF})"

definition isOpcodeConditional :: "byte \<Rightarrow> bool" where
  "isOpcodeConditional opcode = (opcode \<in> {OP_IF, OP_NOTIF, OP_ELSE, OP_ENDIF})"

definition checkMinimalDataPush :: "byte \<Rightarrow> bytes \<Rightarrow> unit vmResult" where
  "checkMinimalDataPush opcodeVal data =
     (let dataLen = length data; err = Inl (ScriptErr ErrMinimalData) in
      if dataLen = 0 \<and> opcodeVal \<noteq> OP_0 then err
      else if dataLen = 1 \<and> data ! 0 \<ge> 1 \<and> data ! 0 \<le> 16 then
        (if opcodeVal \<noteq> OP_1 + data ! 0 - 1 then err else Inr ())
      else if dataLen = 1 \<and> data ! 0 = 0x81 then (if opcodeVal \<noteq> OP_1NEGATE then err else Inr ())
      else if dataLen \<le> 75 then (if unat opcodeVal \<noteq> dataLen then err else Inr ())
      else if dataLen \<le> 255 then (if opcodeVal \<noteq> OP_PUSHDATA1 then err else Inr ())
      else if dataLen \<le> 65535 then (if opcodeVal \<noteq> OP_PUSHDATA2 then err else Inr ())
      else Inr ())"

definition count_operation :: "byte \<Rightarrow> bytes \<Rightarrow> Engine \<Rightarrow> Engine vmResult" where
  "count_operation op data vm =
     (if vm_taprootCtx vm = None \<and> op > OP_16 then
        let vm = vm\<lparr>vm_numOps := vm_numOps vm + 1\<rparr> in
        if vm_numOps vm > MaxOpsPerScript then Inl (ScriptErr ErrTooManyOperations) else Inr vm
      else if length data > MaxScriptElementSize then Inl (ScriptErr ErrElementTooBig)
      else Inr vm)"

definition executeOpcode :: "'p env \<Rightarrow> byte \<Rightarrow> bytes option \<Rightarrow> Engine \<Rightarrow> Engine vmResult" where
  "executeOpcode E op data vm =
     (if isOpcodeDisabled op then Inl (ScriptErr ErrDisabledOpcode)
      else if isOpcodeAlwaysIllegal op then Inl (ScriptErr ErrReservedOpcode)
      else
        vbind (count_operation op (opt_data data) vm) (\<lambda>vm.
        if op = OP_CODESEPARATOR \<and> vm_taprootCtx vm = None \<and> vm_witnessProgram vm = None \<and> hasFlag vm ScriptVerifyConstScriptCode
        then Inl (ScriptErr ErrCodeSeparator)
        else if \<not> isBranchExecuting vm \<and> \<not> isOpcodeConditional op then Inr vm
        else
          vbind (if verifyMinimalData (vm_dstack vm) \<and> isBranchExecuting vm \<and> op \<le> OP_PUSHDATA4
                 then checkMinimalDataPush op (opt_data data) else Inr ()) (\<lambda>_.
          opfunc E op data vm)))"

definition checkValidPC :: "Engine \<Rightarrow> unit vmResult" where
  "checkValidPC vm = (if vm_scriptIdx vm \<ge> length (vm_scripts vm) then Inl (ScriptErr ErrInvalidProgramCounter) else Inr ())"

definition IsPayToAnchorWitnessProgram :: "int \<Rightarrow> bytes option \<Rightarrow> bool" where
  "IsPayToAnchorWitnessProgram v program = (v = 1 \<and> program = Some [0x4e, 0x73])"

definition witnessProgramAcceptStack :: "Engine \<Rightarrow> Engine vmResult" where
  "witnessProgramAcceptStack vm =
     (let items = stk (vm_dstack vm) in
      if items = [] \<or> \<not> asBool (last items) then Inl (ScriptErr ErrEvalFalse)
      else Inr (vm\<lparr>vm_dstack := (vm_dstack vm)\<lparr>stk := take 1 items\<rparr>\<rparr>))"

definition parses :: "int \<Rightarrow> bytes \<Rightarrow> unit vmResult" where
  "parses v script = (case checkScriptParses v script of Some e \<Rightarrow> Inl (ScriptErr e) | None \<Rightarrow> Inr ())"

definition successOpcodes :: "byte set" where
  "successOpcodes =
     {OP_RESERVED, OP_VER, OP_CAT, OP_SUBSTR, OP_LEFT, OP_RIGHT, OP_INVERT, OP_AND, OP_OR, OP_XOR, OP_RESERVED1, OP_RESERVED2,
      OP_2MUL, OP_2DIV, OP_MUL, OP_DIV, OP_MOD, OP_LSHIFT, OP_RSHIFT} \<union> {op. 187 \<le> unat op \<and> unat op \<le> 254}"

definition ScriptHasOpSuccess :: "bytes \<Rightarrow> bool" where
  "ScriptHasOpSuccess witnessScript =
     (\<exists>t \<in> set (fst (token_states (MakeScriptTokenizer 0 witnessScript))). tk_op t \<in> successOpcodes)"

section \<open>Witness programs\<close>

definition run_script :: "bytes \<Rightarrow> bytes list \<Rightarrow> Engine \<Rightarrow> Engine" where
  "run_script script items vm =
     vm\<lparr>vm_scripts := vm_scripts vm @ [script], vm_dstack := setStack items (vm_dstack vm)\<rparr>"

definition verify_v0 :: "bytes \<Rightarrow> bytes list \<Rightarrow> Engine \<Rightarrow> Engine vmResult" where
  "verify_v0 program witness vm =
     (if length program = 20 then
        (if length witness \<noteq> 2 then Inl (ScriptErr ErrWitnessProgramMismatch)
         else case payToPubKeyHashScript program of
           (pkScript, Some e) \<Rightarrow> Inl (ScriptErr e)
         | (pkScript, None) \<Rightarrow>
             vbind (parses (vm_version vm) pkScript) (\<lambda>_. Inr (run_script pkScript witness vm)))
      else if length program = 32 then
        (if witness = [] then Inl (ScriptErr ErrWitnessProgramEmpty)
         else
           let witnessScript = last witness in
           if length witnessScript > MaxScriptSize then Inl (ScriptErr ErrScriptTooBig)
           else if sha256 witnessScript \<noteq> program then Inl (ScriptErr ErrWitnessProgramMismatch)
           else
             vbind (parses (vm_version vm) witnessScript) (\<lambda>_. Inr (run_script witnessScript (butlast witness) vm)))
      else Inl (ScriptErr ErrWitnessProgramWrongLength))"

text \<open>The flag of the result tells whether the checks of the stack that follow still apply.\<close>

definition succeed :: "Engine \<Rightarrow> (bool \<times> Engine) vmResult" where
  "succeed vm = Inr (False, vm\<lparr>vm_taprootCtx := map_option (\<lambda>c. c\<lparr>tc_mustSucceed := True\<rparr>) (vm_taprootCtx vm)\<rparr>)"

definition verify_tapscript :: "'p env \<Rightarrow> bytes \<Rightarrow> bytes list \<Rightarrow> Engine \<Rightarrow> (bool \<times> Engine) vmResult" where
  "verify_tapscript E program witness vm =
     (if length witness < 2 then Inl EnginePanic
      else
        vbind (ParseControlBlock (env_curve E) (last witness)) (\<lambda>controlBlock.
        let witnessScript = witness ! (length witness - 2) in
        vbind (VerifyTaprootLeafCommitment (env_curve E) controlBlock program witnessScript) (\<lambda>_.
        if ScriptHasOpSuccess witnessScript then
          (if hasFlag vm ScriptVerifyDiscourageOpSuccess then Inl (ScriptErr ErrDiscourageOpSuccess) else succeed vm)
        else if cb_LeafVersion controlBlock \<noteq> BaseLeafVersion then
          (if hasFlag vm ScriptVerifyDiscourageUpgradeableTaprootVersion
           then Inl (ScriptErr ErrDiscourageUpgradeableTaprootVersion) else succeed vm)
        else
          vbind (parses (vm_version vm) witnessScript) (\<lambda>_.
          let leafHash = TapLeaf_TapHash (NewBaseTapLeaf witnessScript);
              vm = vm\<lparr>vm_taprootCtx := map_option (\<lambda>c. c\<lparr>tc_tapLeafHash := leafHash\<rparr>) (vm_taprootCtx vm)\<rparr>
          in Inr (True, run_script witnessScript (take (length witness - 2) witness) vm)))))"

definition verify_taproot :: "'p env \<Rightarrow> bytes \<Rightarrow> bytes list \<Rightarrow> Engine \<Rightarrow> (bool \<times> Engine) vmResult" where
  "verify_taproot E program witness vm =
     (if \<not> hasFlag vm ScriptVerifyTaproot then Inr (False, vm)
      else if witness = [] then Inl (ScriptErr ErrWitnessProgramEmpty)
      else
        let ctx = newTaprootExecutionCtx (i32 (TxWitness_SerializeSize witness));
            annexed = isAnnexedWitness witness;
            ctx = (if annexed then ctx\<lparr>tc_annex := Some (last witness)\<rparr> else ctx);
            witness = (if annexed then butlast witness else witness);
            vm = vm\<lparr>vm_taprootCtx := Some ctx\<rparr>
        in
        if length witness = 1 then vbind (VerifyTaprootKeySpend E program (witness ! 0) vm) succeed
        else verify_tapscript E program witness vm)"

definition check_witness_stack :: "Engine \<Rightarrow> Engine vmResult" where
  "check_witness_stack vm =
     (let v1 = isWitnessVersionActive TaprootWitnessVersion vm in
      if v1 \<and> Depth (vm_dstack vm) > MaxStackSize then Inl (ScriptErr ErrStackOverflow)
      else if (v1 \<or> isWitnessVersionActive BaseSegwitWitnessVersion vm) \<and>
              (\<exists>e \<in> set (getStack (vm_dstack vm)). length e > MaxScriptElementSize)
      then Inl (ScriptErr ErrElementTooBig)
      else Inr vm)"

definition verifyWitnessProgram :: "'p env \<Rightarrow> bytes list \<Rightarrow> Engine \<Rightarrow> Engine vmResult" where
  "verifyWitnessProgram E witness vm =
     (let program = opt_data (vm_witnessProgram vm);
          accept = vbind (witnessProgramAcceptStack vm) (\<lambda>vm. Inr (True, vm))
      in
      vbind
        (if isWitnessVersionActive BaseSegwitWitnessVersion vm
         then vbind (verify_v0 program witness vm) (\<lambda>vm. Inr (True, vm))
         else if isWitnessVersionActive TaprootWitnessVersion vm \<and> length program = 32 \<and> \<not> vm_bip16 vm
         then verify_taproot E program witness vm
         else if IsPayToAnchorWitnessProgram (vm_witnessVersion vm) (vm_witnessProgram vm) \<and> \<not> vm_bip16 vm then accept
         else if hasFlag vm ScriptVerifyDiscourageUpgradeableWitnessProgram
         then Inl (ScriptErr ErrDiscourageUpgradableWitnessProgram)
         else accept)
        (\<lambda>(continue, vm). if continue then check_witness_stack vm else Inr vm))"

section \<open>Steps\<close>

definition must_succeed :: "Engine \<Rightarrow> bool" where
  "must_succeed vm = (case vm_taprootCtx vm of None \<Rightarrow> False | Some c \<Rightarrow> tc_mustSucceed c)"

definition CheckErrorCondition :: "bool \<Rightarrow> Engine \<Rightarrow> Engine vmResult" where
  "CheckErrorCondition finalScript vm =
     (if must_succeed vm then Inr vm
      else if vm_scriptIdx vm < length (vm_scripts vm) then Inl (ScriptErr ErrScriptUnfinished)
      else if finalScript \<and> isWitnessVersionActive BaseSegwitWitnessVersion vm \<and> Depth (vm_dstack vm) \<noteq> 1
      then Inl (ScriptErr ErrCleanStack)
      else if finalScript \<and> (hasFlag vm ScriptVerifyCleanStack \<or> vm_taprootCtx vm \<noteq> None) \<and> Depth (vm_dstack vm) \<noteq> 1
      then Inl (ScriptErr ErrCleanStack)
      else if Depth (vm_dstack vm) < 1 then Inl (ScriptErr ErrEmptyStack)
      else vbind (pop_bool_vm vm) (\<lambda>(v, vm). if \<not> v then Inl (ScriptErr ErrEvalFalse) else Inr vm))"

definition drop_all :: "stack \<Rightarrow> stack" where
  "drop_all s = (case DropN (Depth s) s of Inl _ \<Rightarrow> s | Inr s' \<Rightarrow> s')"

text \<open>What happens at the end of a script, up to the choice of the next one.\<close>

definition finish_script :: "'p env \<Rightarrow> Engine \<Rightarrow> Engine vmResult" where
  "finish_script E vm =
     (if vm_scriptIdx vm = 0 \<and> vm_bip16 vm then
        Inr (vm\<lparr>vm_scriptIdx := vm_scriptIdx vm + 1, vm_savedFirstStack := getStack (vm_dstack vm)\<rparr>)
      else if vm_scriptIdx vm = 1 \<and> vm_bip16 vm then
        vbind (CheckErrorCondition False (vm\<lparr>vm_scriptIdx := vm_scriptIdx vm + 1\<rparr>)) (\<lambda>vm.
        if vm_savedFirstStack vm = [] then Inl EnginePanic
        else
          let script = last (vm_savedFirstStack vm) in
          vbind (parses (vm_version vm) script) (\<lambda>_. Inr (run_script script (butlast (vm_savedFirstStack vm)) vm)))
      else if vm_scriptIdx vm = 1 \<and> vm_witnessProgram vm \<noteq> None \<or>
              vm_scriptIdx vm = 2 \<and> vm_witnessProgram vm \<noteq> None \<and> vm_bip16 vm then
        let vm = vm\<lparr>vm_scriptIdx := vm_scriptIdx vm + 1\<rparr> in
        vbind (txInput vm) (\<lambda>txIn. verifyWitnessProgram E (ti_Witness txIn) vm)
      else Inr (vm\<lparr>vm_scriptIdx := vm_scriptIdx vm + 1\<rparr>))"

definition next_script :: "Engine \<Rightarrow> bool \<times> Engine" where
  "next_script vm =
     (let vm = (if vm_scriptIdx vm < length (vm_scripts vm) \<and> vm_scripts vm ! vm_scriptIdx vm = []
                then vm\<lparr>vm_scriptIdx := vm_scriptIdx vm + 1\<rparr> else vm);
          vm = vm\<lparr>vm_lastCodeSep := 0\<rparr>
      in
      if vm_scriptIdx vm \<ge> length (vm_scripts vm) then (True, vm)
      else (False, vm\<lparr>vm_tokenizer := MakeScriptTokenizer (vm_version vm) (vm_scripts vm ! vm_scriptIdx vm)\<rparr>))"

text \<open>What a step does once its instruction has run.\<close>

definition end_step :: "'p env \<Rightarrow> Engine \<Rightarrow> (bool \<times> Engine) vmResult" where
  "end_step E vm =
     (if Depth (vm_dstack vm) + Depth (vm_astack vm) > MaxStackSize then Inl (ScriptErr ErrStackOverflow)
      else
        let vm = vm\<lparr>vm_opcodeIdx := vm_opcodeIdx vm + 1\<rparr> in
        if \<not> Done (vm_tokenizer vm) then Inr (False, vm)
        else if vm_condStack vm \<noteq> [] then Inl (ScriptErr ErrUnbalancedConditional)
        else
          vbind (finish_script E (vm\<lparr>vm_astack := drop_all (vm_astack vm), vm_numOps := 0, vm_opcodeIdx := 0\<rparr>)) (\<lambda>vm.
          Inr (next_script vm)))"

definition Step :: "'p env \<Rightarrow> Engine \<Rightarrow> (bool \<times> Engine) vmResult" where
  "Step E vm =
     vbind (checkValidPC vm) (\<lambda>_.
     let (ok, t) = Next (vm_tokenizer vm); vm = vm\<lparr>vm_tokenizer := t\<rparr> in
     if \<not> ok then (case tk_err t of Some e \<Rightarrow> Inl (ScriptErr e) | None \<Rightarrow> Inl (ScriptErr ErrInvalidProgramCounter))
     else vbind (executeOpcode E (tk_op t) (tk_data t) vm) (end_step E))"

partial_function (option) execute_loop :: "'p env \<Rightarrow> Engine \<Rightarrow> Engine vmResult option" where
  "execute_loop E vm =
     (case Step E vm of
        Inl e \<Rightarrow> Some (Inl e)
      | Inr (done, vm) \<Rightarrow> if done then Some (Inr vm) else execute_loop E vm)"

definition Execute :: "'p env \<Rightarrow> Engine \<Rightarrow> Engine vmResult option" where
  "Execute E vm =
     (if vm_version vm \<noteq> 0 then Some (Inr vm)
      else map_option (\<lambda>r. vbind r (CheckErrorCondition True)) (execute_loop E vm))"

section \<open>New engines\<close>

definition set_program :: "bytes \<Rightarrow> Engine \<Rightarrow> Engine vmResult" where
  "set_program witProgram vm =
     (case ExtractWitnessProgramInfo witProgram of
        None \<Rightarrow> Inl NonScriptErr
      | Some (v, program) \<Rightarrow> Inr (vm\<lparr>vm_witnessVersion := v, vm_witnessProgram := Some program\<rparr>))"

definition buildWitnessProgram :: "bytes \<Rightarrow> bytes \<Rightarrow> bool \<Rightarrow> Engine \<Rightarrow> Engine vmResult" where
  "buildWitnessProgram scriptSig scriptPubKey hasWitness vm =
     (let none = (if hasWitness then Inl (ScriptErr ErrWitnessUnexpected) else Inr vm) in
      if isWitnessProgramScript scriptPubKey then
        (if scriptSig \<noteq> [] then Inl (ScriptErr ErrWitnessMalleated) else set_program scriptPubKey vm)
      else if vm_bip16 vm then
        (if scriptSig = [] \<or> \<not> IsPushOnlyScript scriptSig then none
         else
           let redeem = opt_data (finalOpcodeData 0 scriptSig) in
           if redeem = [] \<or> \<not> isWitnessProgramScript redeem then none
           else case Script (AddData redeem NewScriptBuilder) of (canonical, err) \<Rightarrow>
             if err \<noteq> None \<or> scriptSig \<noteq> canonical then Inl (ScriptErr ErrWitnessMalleatedP2SH)
             else set_program redeem vm)
      else none)"

definition check_script :: "bytes \<Rightarrow> unit vmResult" where
  "check_script scr = (if length scr > MaxScriptSize then Inl (ScriptErr ErrScriptTooBig) else parses 0 scr)"

definition NewEngine ::
  "bytes \<Rightarrow> MsgTx \<Rightarrow> int \<Rightarrow> ScriptFlags \<Rightarrow> SigCache option \<Rightarrow> TxSigHashes option \<Rightarrow> int \<Rightarrow> PrevOutputFetcher \<Rightarrow> Engine vmResult" where
  "NewEngine scriptPubKey tx txIdx flags sigCache hashCache inputAmount prevOutFetcher =
     (if txIdx < 0 \<or> txIdx \<ge> int (length (tx_TxIn tx)) then Inl (ScriptErr ErrInvalidIndex)
      else
        let txIn = tx_TxIn tx ! nat txIdx;
            scriptSig = ti_SignatureScript txIn;
            empty_stack = \<lparr>stk = [], verifyMinimalData = (flags AND ScriptVerifyMinimalData = ScriptVerifyMinimalData)\<rparr>;
            vm = \<lparr>vm_flags = flags, vm_tx = tx, vm_txIdx = nat txIdx, vm_version = 0, vm_bip16 = False,
                  vm_sigCache = sigCache, vm_hashCache = hashCache, vm_prevOutFetcher = prevOutFetcher,
                  vm_scripts = [scriptSig, scriptPubKey], vm_scriptIdx = (if scriptSig = [] then 1 else 0), vm_opcodeIdx = 0,
                  vm_lastCodeSep = 0,
                  vm_tokenizer = MakeScriptTokenizer 0 (if scriptSig = [] then scriptPubKey else scriptSig),
                  vm_savedFirstStack = [], vm_dstack = empty_stack, vm_astack = empty_stack, vm_condStack = [],
                  vm_numOps = 0, vm_witnessVersion = 0, vm_witnessProgram = None, vm_inputAmount = inputAmount,
                  vm_taprootCtx = None\<rparr>
        in
        if scriptSig = [] \<and> scriptPubKey = [] then Inl (ScriptErr ErrEvalFalse)
        else if hasFlag vm ScriptVerifyCleanStack \<and> \<not> hasFlag vm ScriptBip16 \<and> \<not> hasFlag vm ScriptVerifyWitness
        then Inl (ScriptErr ErrInvalidFlags)
        else if hasFlag vm ScriptVerifySigPushOnly \<and> \<not> IsPushOnlyScript scriptSig then Inl (ScriptErr ErrNotPushOnly)
        else
          let p2sh = (hasFlag vm ScriptBip16 \<and> isScriptHashScript scriptPubKey) in
          if p2sh \<and> \<not> hasFlag vm ScriptVerifySigPushOnly \<and> \<not> IsPushOnlyScript scriptSig
          then Inl (ScriptErr ErrNotPushOnly)
          else
            let vm = vm\<lparr>vm_bip16 := p2sh\<rparr> in
            vbind (check_script scriptSig) (\<lambda>_.
            vbind (check_script scriptPubKey) (\<lambda>_.
            if hasFlag vm ScriptVerifyWitness then
              (if \<not> hasFlag vm ScriptBip16 then Inl (ScriptErr ErrInvalidFlags)
               else buildWitnessProgram scriptSig scriptPubKey (ti_Witness txIn \<noteq> []) vm)
            else Inr vm)))"

end
