(* ===== verification/EngineKeep.thy ===== *)
theory EngineKeep
  imports Engine
begin

text \<open>
  What the instructions of the script engine keep: the fields they do not own, the bounds on stack
  items, stack depth, operation count and conditionals. None of them panics on a stack within the limits,
  the signature instructions only when the caller gave them what they need.
\<close>

section \<open>Results\<close>

definition res_ok :: "'a vmResult \<Rightarrow> ('a \<Rightarrow> bool) \<Rightarrow> bool" where
  "res_ok r Q = (case r of Inl e \<Rightarrow> e \<noteq> EnginePanic | Inr x \<Rightarrow> Q x)"

lemma res_ok_simps [simp]:
  "res_ok (Inr x) Q = Q x" "res_ok (Inl (ScriptErr e)) Q = True" "res_ok (Inl NonScriptErr) Q = True" "res_ok (Inl EnginePanic) Q = False"
  by (simp_all add: res_ok_def)

lemma res_ok_vbind: "res_ok m P \<Longrightarrow> (\<And>x. P x \<Longrightarrow> res_ok (f x) Q) \<Longrightarrow> res_ok (vbind m f) Q"
  by (cases m) (auto simp: res_ok_def)

lemma res_ok_mono: "res_ok r P \<Longrightarrow> (\<And>x. P x \<Longrightarrow> Q x) \<Longrightarrow> res_ok r Q"
  by (auto simp: res_ok_def split: sum.splits)

lemma res_ok_pair: "res_ok m (\<lambda>(x, y). P x y) \<Longrightarrow> (\<And>x y. P x y \<Longrightarrow> res_ok (f x y) Q) \<Longrightarrow> res_ok (vbind m (\<lambda>(x, y). f x y)) Q"
  by (cases m) (auto simp: res_ok_def)

lemma res_ok_unit: "r \<noteq> Inl EnginePanic \<Longrightarrow> (\<And>x. res_ok (f x) Q) \<Longrightarrow> res_ok (vbind r f) Q"
  by (cases r) (auto simp: res_ok_def)

section \<open>What instructions keep\<close>

definition items :: "Engine \<Rightarrow> nat" where
  "items vm = length (stk (vm_dstack vm)) + length (stk (vm_astack vm))"

definition elems_ok :: "bytes list \<Rightarrow> bool" where
  "elems_ok xs \<longleftrightarrow> (\<forall>x \<in> set xs. length x \<le> MaxScriptElementSize)"

definition counters :: "Engine \<Rightarrow> bool" where
  "counters vm \<longleftrightarrow> 0 \<le> vm_numOps vm \<and> vm_numOps vm \<le> MaxOpsPerScript \<and>
     set (vm_condStack vm) \<subseteq> {OpCondFalse, OpCondTrue, OpCondSkip} \<and> vm_lastCodeSep vm \<le> tk_offset (vm_tokenizer vm)"

text \<open>The fields that no instruction changes.\<close>

definition context_of where
  "context_of vm = (vm_flags vm, vm_tx vm, vm_txIdx vm, vm_version vm, vm_bip16 vm, vm_hashCache vm, vm_prevOutFetcher vm,
     vm_scripts vm, vm_scriptIdx vm, vm_opcodeIdx vm, vm_tokenizer vm, vm_savedFirstStack vm, vm_witnessVersion vm,
     vm_witnessProgram vm, vm_inputAmount vm, map_option tc_mustSucceed (vm_taprootCtx vm),
     verifyMinimalData (vm_dstack vm), verifyMinimalData (vm_astack vm))"

definition derived :: "Engine \<Rightarrow> int \<Rightarrow> Engine \<Rightarrow> bool" where
  "derived vm k v \<longleftrightarrow> context_of v = context_of vm \<and> elems_ok (stk (vm_dstack v)) \<and> elems_ok (stk (vm_astack v)) \<and>
     int (items v) \<le> int (items vm) + k \<and> counters v"

definition ready :: "Engine \<Rightarrow> bool" where
  "ready vm \<longleftrightarrow> items vm \<le> 4000000 \<and> vm_txIdx vm < length (tx_TxIn (vm_tx vm)) \<and>
     vm_scriptIdx vm < length (vm_scripts vm) \<and> tk_script (vm_tokenizer vm) = vm_scripts vm ! vm_scriptIdx vm \<and>
     tk_offset (vm_tokenizer vm) \<le> length (tk_script (vm_tokenizer vm))"

lemma derived_small:
  assumes "ready vm" "derived vm k v" "k \<le> 3"
  shows "small (vm_dstack v)" "small (vm_astack v)" "int (length (stk (vm_dstack v))) < 2 ^ 30"
proof -
  have "int (items v) \<le> 4000003" using assms by (auto simp: ready_def derived_def)
  then show "small (vm_dstack v)" "small (vm_astack v)" "int (length (stk (vm_dstack v))) < 2 ^ 30"
    by (auto simp: items_def)
qed

lemma derived_mono: "derived vm k v \<Longrightarrow> k \<le> l \<Longrightarrow> derived vm l v"
  by (auto simp: derived_def)

lemma derived_dstack:
  assumes "derived vm k v" "elems_ok (stk s)" "verifyMinimalData s = verifyMinimalData (vm_dstack v)"
    "int (length (stk s)) \<le> int (length (stk (vm_dstack v))) + d"
  shows "derived vm (k + d) (v\<lparr>vm_dstack := s\<rparr>)"
  using assms by (auto simp: derived_def context_of_def items_def counters_def)

lemma derived_astack:
  assumes "derived vm k v" "elems_ok (stk s)" "verifyMinimalData s = verifyMinimalData (vm_astack v)"
    "int (length (stk s)) \<le> int (length (stk (vm_astack v))) + d"
  shows "derived vm (k + d) (v\<lparr>vm_astack := s\<rparr>)"
  using assms by (auto simp: derived_def context_of_def items_def counters_def)

text \<open>Operations on a stack that only move or copy items.\<close>

definition moves :: "(stack \<Rightarrow> stack vmResult) \<Rightarrow> int \<Rightarrow> bool" where
  "moves f d \<longleftrightarrow> (\<forall>s. int (length (stk s)) < 2 ^ 30 \<longrightarrow> res_ok (f s) (\<lambda>s'. set (stk s') \<subseteq> set (stk s) \<and>
     verifyMinimalData s' = verifyMinimalData s \<and> int (length (stk s')) \<le> int (length (stk s)) + d))"

lemma on_dstack_derived:
  assumes "moves f d" "ready vm" "derived vm k v" "k \<le> 3"
  shows "res_ok (on_dstack f v) (derived vm (k + d))"
  unfolding on_dstack_def
proof (rule res_ok_vbind)
  show "res_ok (f (vm_dstack v)) (\<lambda>s'. set (stk s') \<subseteq> set (stk (vm_dstack v)) \<and>
      verifyMinimalData s' = verifyMinimalData (vm_dstack v) \<and> int (length (stk s')) \<le> int (length (stk (vm_dstack v))) + d)"
    using assms(1) derived_small(3) [OF assms(2-4)] unfolding moves_def by blast
  have "elems_ok (stk (vm_dstack v))" using assms(3) by (simp add: derived_def)
  then show "res_ok (Inr (v\<lparr>vm_dstack := s\<rparr>)) (derived vm (k + d))" if "set (stk s) \<subseteq> set (stk (vm_dstack v)) \<and>
      verifyMinimalData s = verifyMinimalData (vm_dstack v) \<and> int (length (stk s)) \<le> int (length (stk (vm_dstack v))) + d" for s
    using that derived_dstack [OF assms(3), of s d] by (auto simp: elems_ok_def)
qed

lemma PopByteArray_cases:
  assumes "small s"
  shows "res_ok (PopByteArray s) (\<lambda>(x, s'). stk s = stk s' @ [x] \<and> verifyMinimalData s' = verifyMinimalData s)"
proof (cases "stk s" rule: rev_cases)
  case Nil
  then show ?thesis by (simp add: PopByteArray_Nil)
next
  case (snoc xs x)
  then show ?thesis using PopByteArray_snoc [OF assms snoc] by simp
qed

lemma pop_bytes_derived:
  assumes "ready vm" "derived vm k v" "k \<le> 3"
  shows "res_ok (pop_bytes_vm v) (\<lambda>(x, v'). derived vm (k - 1) v' \<and> length x \<le> MaxScriptElementSize)"
  unfolding pop_with_def
proof (rule res_ok_pair [OF PopByteArray_cases [OF derived_small(1) [OF assms]]])
  fix x :: bytes and s :: stack
  assume s: "stk (vm_dstack v) = stk s @ [x] \<and> verifyMinimalData s = verifyMinimalData (vm_dstack v)"
  have "elems_ok (stk s @ [x])" using assms(2) s by (simp add: derived_def)
  then show "res_ok (Inr (x, v\<lparr>vm_dstack := s\<rparr>)) (\<lambda>(x, v'). derived vm (k - 1) v' \<and> length x \<le> MaxScriptElementSize)"
    using derived_dstack [OF assms(2), of s "- 1"] s by (simp add: elems_ok_def)
qed

lemma pop_bool_derived:
  assumes "ready vm" "derived vm k v" "k \<le> 3"
  shows "res_ok (pop_bool_vm v) (\<lambda>(x, v'). derived vm (k - 1) v')"
  using pop_bytes_derived [OF assms] unfolding pop_with_def PopBool_def
  by (auto simp: res_ok_def vbind_def split: sum.splits)

lemma push_bytes_derived:
  "derived vm k v \<Longrightarrow> length b \<le> MaxScriptElementSize \<Longrightarrow> derived vm (k + 1) (push_bytes_vm b v)"
  unfolding push_bytes_vm_def
  by (rule derived_dstack) (auto simp: derived_def PushByteArray_def elems_ok_def)

lemma push_bool_derived: "derived vm k v \<Longrightarrow> derived vm (k + 1) (push_bool_vm b v)"
  using push_bytes_derived [of vm k v "fromBool b"]
  by (simp add: push_bytes_vm_def push_bool_vm_def PushBool_def fromBool_def MaxScriptElementSize_def)

lemma MakeScriptNum_bound:
  assumes "MakeScriptNum v m k = Inr n" "k \<le> 5"
  shows "\<bar>n\<bar> < 2 ^ 39"
proof (cases v rule: rev_cases)
  case Nil
  then show ?thesis using assms by (simp add: MakeScriptNum_def split: if_splits)
next
  case (snoc us b)
  have l: "length us < k" using assms(1) snoc by (simp add: MakeScriptNum_def split: if_splits)
  then have "n = num_val us b" using MakeScriptNum_snoc [of us b m k] assms snoc by (simp split: if_splits)
  moreover have "num_mag us b < 2 ^ (8 * length us + 7)" "0 \<le> num_mag us b" using num_mag_bounds by auto
  moreover have "(2::int) ^ (8 * length us + 7) \<le> 2 ^ 39" using l assms(2) by (intro power_increasing) auto
  ultimately show ?thesis by (auto simp: num_val_def)
qed

lemma pop_int_derived:
  assumes "ready vm" "derived vm k v" "k \<le> 3"
  shows "res_ok (pop_int_vm v) (\<lambda>(n, v'). derived vm (k - 1) v' \<and> \<bar>n\<bar> < 2 ^ 39)"
proof -
  have "res_ok (vbind (PopInt s) (\<lambda>(n, s). Inr (n, v\<lparr>vm_dstack := s\<rparr>))) (\<lambda>(n, v'). derived vm (k - 1) v' \<and> \<bar>n\<bar> < 2 ^ 39)"
    if "res_ok (vbind (PopByteArray s) (\<lambda>(x, s). Inr (x, v\<lparr>vm_dstack := s\<rparr>))) (\<lambda>(x, v'). derived vm (k - 1) v' \<and> length x \<le> MaxScriptElementSize)" for s
    using that unfolding PopInt_def toScriptNum_def vbind_def res_ok_def
    by (auto simp: maxScriptNumLen_def dest!: MakeScriptNum_bound split: sum.splits prod.splits)
  then show ?thesis using pop_bytes_derived [OF assms] unfolding pop_with_def by blast
qed

lemma push_int_derived:
  assumes "derived vm k v" "\<bar>n\<bar> < 2 ^ 47"
  shows "res_ok (push_int_vm n v) (derived vm (k + 1))"
proof -
  obtain b where b: "scriptNum_Bytes n = Inr b" "length b \<le> 6"
  proof (cases "n = 0")
    case True
    then show ?thesis using that by (simp add: scriptNum_Bytes_def)
  next
    case False
    then obtain us x where "length us < 6" "checkMinimalDataEncoding (us @ [x])" "num_val us x = n"
      using num_decode_encode [of n 6] assms(2) by auto
    then show ?thesis using that num_encode [of us x] by simp
  qed
  then show ?thesis
    using push_bytes_derived [OF assms(1), of b]
    by (simp add: on_dstack_def PushInt_def push_bytes_vm_def MaxScriptElementSize_def)
qed

lemma push_int_to: "derived vm k v \<Longrightarrow> k + 1 \<le> l \<Longrightarrow> \<bar>n\<bar> < 2 ^ 47 \<Longrightarrow> res_ok (push_int_vm n v) (derived vm l)"
  by (rule res_ok_mono [OF push_int_derived]) (auto intro: derived_mono)

lemma push_bytes_to: "derived vm k v \<Longrightarrow> k + 1 \<le> l \<Longrightarrow> length b \<le> MaxScriptElementSize \<Longrightarrow> derived vm l (push_bytes_vm b v)"
  by (rule derived_mono [OF push_bytes_derived])

lemma push_bool_to: "derived vm k v \<Longrightarrow> k + 1 \<le> l \<Longrightarrow> derived vm l (push_bool_vm b v)"
  by (rule derived_mono [OF push_bool_derived])

lemma i64_small: "\<bar>n\<bar> < 2 ^ 47 \<Longrightarrow> i64 n = n"
  by (rule i64_id) auto

lemma unary_derived:
  assumes "ready vm" "derived vm 0 vm" "\<And>m. \<bar>m\<bar> < 2 ^ 39 \<Longrightarrow> \<bar>f m\<bar> < 2 ^ 47"
  shows "res_ok (unary f vm) (derived vm 3)"
  unfolding unary_def
proof (rule res_ok_pair [OF pop_int_derived [OF assms(1,2)]])
  fix m :: int and v assume "derived vm (0 - 1) v \<and> \<bar>m\<bar> < 2 ^ 39"
  then show "res_ok (push_int_vm (f m) v) (derived vm 3)" using assms(3) by (intro push_int_to [of vm "0 - 1"]) auto
qed simp

lemma binary_derived:
  assumes "ready vm" "derived vm 0 vm" "\<And>a b. \<bar>a\<bar> < 2 ^ 39 \<Longrightarrow> \<bar>b\<bar> < 2 ^ 39 \<Longrightarrow> \<bar>f a b\<bar> < 2 ^ 47"
  shows "res_ok (binary f vm) (derived vm 3)"
  unfolding binary_def
proof (rule res_ok_pair [OF pop_int_derived [OF assms(1,2)]])
  fix a :: int and v assume a: "derived vm (0 - 1) v \<and> \<bar>a\<bar> < 2 ^ 39"
  show "res_ok (vbind (pop_int_vm v) (\<lambda>(b, v). push_int_vm (f a b) v)) (derived vm 3)"
  proof (rule res_ok_pair [OF pop_int_derived [OF assms(1) conjunct1 [OF a]]])
    fix b :: int and v assume "derived vm (0 - 1 - 1) v \<and> \<bar>b\<bar> < 2 ^ 39"
    then show "res_ok (push_int_vm (f a b) v) (derived vm 3)"
      using assms(3) a by (intro push_int_to [of vm "0 - 1 - 1"]) auto
  qed simp
qed simp

lemma hash_with_derived:
  assumes "ready vm" "derived vm 0 vm" "\<And>b. length (h b) \<le> MaxScriptElementSize"
  shows "res_ok (hash_with h vm) (derived vm 3)"
  unfolding hash_with_def
proof (rule res_ok_pair [OF pop_bytes_derived [OF assms(1,2)]])
  fix b :: bytes and v assume "derived vm (0 - 1) v \<and> length b \<le> MaxScriptElementSize"
  then show "res_ok (Inr (push_bytes_vm (h b) v)) (derived vm 3)" using assms(3) by (auto intro: push_bytes_to)
qed simp

section \<open>Stack instructions\<close>

lemma nipN_ok:
  "small s \<Longrightarrow> res_ok (nipN idx s) (\<lambda>(x, s'). x \<in> set (stk s) \<and> set (stk s') \<subseteq> set (stk s) \<and>
     verifyMinimalData s' = verifyMinimalData s \<and> length (stk s) = length (stk s') + 1)"
  using nipN_cases [of s idx] by auto

lemma Peek_ok: "small s \<Longrightarrow> res_ok (PeekByteArray idx s) (\<lambda>x. x \<in> set (stk s))"
proof -
  assume s: "small s"
  show ?thesis
  proof (cases "idx < 0 \<or> idx \<ge> int (length (stk s))")
    case True
    then show ?thesis using PeekByteArray_err [OF s True] by simp
  next
    case False
    then show ?thesis using stack_size [OF s] by (auto simp: PeekByteArray_def Let_def intro!: nth_mem)
  qed
qed

lemma drop_loop_ok:
  "small s \<Longrightarrow> res_ok (drop_loop n s) (\<lambda>s'. set (stk s') \<subseteq> set (stk s) \<and> verifyMinimalData s' = verifyMinimalData s \<and>
     length (stk s') \<le> length (stk s))"
proof (induction n arbitrary: s)
  case (Suc n)
  show ?case unfolding drop_loop.simps
  proof (rule res_ok_pair [OF PopByteArray_cases [OF Suc.prems]])
    fix x :: bytes and s' :: stack
    assume a: "stk s = stk s' @ [x] \<and> verifyMinimalData s' = verifyMinimalData s"
    then have "small s'" using Suc.prems by simp
    then show "res_ok (drop_loop n s') (\<lambda>s'. set (stk s') \<subseteq> set (stk s) \<and> verifyMinimalData s' = verifyMinimalData s \<and> length (stk s') \<le> length (stk s))"
      by (rule res_ok_mono [OF Suc.IH]) (use a in auto)
  qed
qed simp

lemma peek_loop_ok:
  "int (length (stk s)) + int n < 2 ^ 31 \<Longrightarrow> res_ok (peek_loop e n s) (\<lambda>s'. set (stk s') \<subseteq> set (stk s) \<and>
     verifyMinimalData s' = verifyMinimalData s \<and> length (stk s') \<le> length (stk s) + n)"
proof (induction n arbitrary: s)
  case (Suc n)
  show ?case unfolding peek_loop.simps
  proof (rule res_ok_vbind [OF Peek_ok])
    show "small s" using Suc.prems by simp
    fix x assume x: "x \<in> set (stk s)"
    have "int (length (stk (PushByteArray x s))) + int n < 2 ^ 31" using Suc.prems by (simp add: PushByteArray_def)
    then show "res_ok (peek_loop e n (PushByteArray x s)) (\<lambda>s'. set (stk s') \<subseteq> set (stk s) \<and> verifyMinimalData s' = verifyMinimalData s \<and> length (stk s') \<le> length (stk s) + Suc n)"
      by (rule res_ok_mono [OF Suc.IH]) (use x in \<open>auto simp: PushByteArray_def\<close>)
  qed
qed simp

lemma nip_loop_ok:
  "small s \<Longrightarrow> res_ok (nip_loop e n s) (\<lambda>s'. set (stk s') \<subseteq> set (stk s) \<and>
     verifyMinimalData s' = verifyMinimalData s \<and> length (stk s') \<le> length (stk s))"
proof (induction n arbitrary: s)
  case (Suc n)
  show ?case unfolding nip_loop.simps
  proof (rule res_ok_pair [OF nipN_ok [OF Suc.prems]])
    fix x :: bytes and s' :: stack
    assume a: "x \<in> set (stk s) \<and> set (stk s') \<subseteq> set (stk s) \<and> verifyMinimalData s' = verifyMinimalData s \<and> length (stk s) = length (stk s') + 1"
    then have "small (PushByteArray x s')" using Suc.prems by (simp add: PushByteArray_def)
    then show "res_ok (nip_loop e n (PushByteArray x s')) (\<lambda>s'. set (stk s') \<subseteq> set (stk s) \<and> verifyMinimalData s' = verifyMinimalData s \<and> length (stk s') \<le> length (stk s))"
      by (rule res_ok_mono [OF Suc.IH]) (use a in \<open>auto simp: PushByteArray_def\<close>)
  qed
qed simp

lemma moves_drop: "moves (DropN n) 0"
  unfolding moves_def DropN_def by (auto intro!: res_ok_mono [OF drop_loop_ok])

lemma moves_peek:
  assumes "0 < n" "n \<le> 3"
  shows "moves (DupN n) n" "moves (OverN n) n"
proof -
  have p: "moves (\<lambda>s. peek_loop e (nat n) s) n" for e
    unfolding moves_def using assms by (auto intro!: res_ok_mono [OF peek_loop_ok])
  show "moves (DupN n) n" "moves (OverN n) n"
    using p assms unfolding moves_def DupN_def OverN_def by simp_all
qed

lemma moves_nip: "moves (RotN n) 0" "moves (SwapN n) 0"
  unfolding moves_def RotN_def SwapN_def by (auto intro!: res_ok_mono [OF nip_loop_ok])

lemma moves_one: "moves (NipN n) 0" "moves (PickN n) 1" "moves (RollN n) 0"
proof -
  show "moves (NipN n) 0" unfolding moves_def NipN_def by (auto intro!: res_ok_pair [OF nipN_ok])
  show "moves (PickN n) 1" unfolding moves_def PickN_def by (auto intro!: res_ok_vbind [OF Peek_ok] simp: PushByteArray_def)
  show "moves (RollN n) 0" unfolding moves_def RollN_def by (auto intro!: res_ok_pair [OF nipN_ok] simp: PushByteArray_def)
qed

lemma moves_mono:
  assumes "moves f d" "d \<le> e"
  shows "moves f e"
  unfolding moves_def
proof (intro allI impI)
  fix s :: stack assume "int (length (stk s)) < 2 ^ 30"
  then have "res_ok (f s) (\<lambda>s'. set (stk s') \<subseteq> set (stk s) \<and> verifyMinimalData s' = verifyMinimalData s \<and>
      int (length (stk s')) \<le> int (length (stk s)) + d)"
    using assms(1) unfolding moves_def by blast
  then show "res_ok (f s) (\<lambda>s'. set (stk s') \<subseteq> set (stk s) \<and> verifyMinimalData s' = verifyMinimalData s \<and>
      int (length (stk s')) \<le> int (length (stk s)) + e)"
    by (rule res_ok_mono) (use assms(2) in auto)
qed

lemma moves_Tuck: "moves Tuck 1"
  unfolding moves_def
proof (intro allI impI)
  fix s :: stack assume s: "int (length (stk s)) < 2 ^ 30"
  then have sm: "small s" by simp
  show "res_ok (Tuck s) (\<lambda>s'. set (stk s') \<subseteq> set (stk s) \<and> verifyMinimalData s' = verifyMinimalData s \<and> int (length (stk s')) \<le> int (length (stk s)) + 1)"
    unfolding Tuck_def
  proof (rule res_ok_pair [OF PopByteArray_cases [OF sm]])
    fix x2 :: bytes and s2 :: stack
    assume a: "stk s = stk s2 @ [x2] \<and> verifyMinimalData s2 = verifyMinimalData s"
    then have "small s2" using sm by simp
    show "res_ok (vbind (PopByteArray s2) (\<lambda>(so1, s). Inr (PushByteArray x2 (PushByteArray so1 (PushByteArray x2 s)))))
        (\<lambda>s'. set (stk s') \<subseteq> set (stk s) \<and> verifyMinimalData s' = verifyMinimalData s \<and> int (length (stk s')) \<le> int (length (stk s)) + 1)"
      by (rule res_ok_pair [OF PopByteArray_cases [OF \<open>small s2\<close>]]) (use a in \<open>auto simp: PushByteArray_def\<close>)
  qed
qed

lemma on_dstack_0:
  "moves f d \<Longrightarrow> d \<le> 3 \<Longrightarrow> ready vm \<Longrightarrow> derived vm 0 vm \<Longrightarrow> res_ok (on_dstack f vm) (derived vm 3)"
  using res_ok_mono [OF on_dstack_derived [of f d vm 0 vm]] derived_mono by fastforce

section \<open>Signature instructions\<close>

lemma derived_context:
  assumes "derived vm k v"
  shows "vm_tx v = vm_tx vm" "vm_txIdx v = vm_txIdx vm" "vm_hashCache v = vm_hashCache vm" "vm_prevOutFetcher v = vm_prevOutFetcher vm"
    "vm_scripts v = vm_scripts vm" "vm_scriptIdx v = vm_scriptIdx vm" "vm_tokenizer v = vm_tokenizer vm"
    "vm_witnessProgram v = vm_witnessProgram vm" "vm_witnessVersion v = vm_witnessVersion vm"
    "vm_taprootCtx v = None \<longleftrightarrow> vm_taprootCtx vm = None"
  using assms by (auto simp: derived_def context_of_def)

lemma derived_cache: "derived vm k v \<Longrightarrow> derived vm k (v\<lparr>vm_sigCache := c\<rparr>)"
  by (auto simp: derived_def context_of_def items_def counters_def)

lemma cached_verify_derived: "derived vm k v \<Longrightarrow> derived vm k (snd (cached_verify E h sig pk check v))"
  by (auto simp: cached_verify_def derived_cache split: option.splits)

lemma base_verifySig_derived: "derived vm k v \<Longrightarrow> derived vm k (snd (base_verifySig E b h v))"
  by (simp add: base_verifySig_def cached_verify_derived)

lemma taproot_verifySig_derived: "derived vm k v \<Longrightarrow> derived vm k (snd (taproot_verifySig E t h v))"
  by (simp add: taproot_verifySig_def cached_verify_derived)

lemma calcSignatureHash_ok:
  assumes "ready vm" "derived vm k v"
  shows "calcSignatureHash s ht (vm_tx v) (vm_txIdx v) \<noteq> Inl EnginePanic"
  using assms derived_context [OF assms(2)] by (auto simp: calcSignatureHash_def ready_def)

text \<open>What the checks of witness programs need of the caller.\<close>

definition cache_ready :: "Engine \<Rightarrow> bool" where
  "cache_ready vm \<longleftrightarrow> vm_hashCache vm \<noteq> None \<and>
     vm_prevOutFetcher vm (ti_PreviousOutPoint (tx_TxIn (vm_tx vm) ! vm_txIdx vm)) \<noteq> None"

lemma engine_sigHashes_ok:
  assumes "cache_ready vm" "derived vm k v"
  shows "engine_sigHashes v \<noteq> Inl EnginePanic"
  using assms derived_context [OF assms(2)] by (auto simp: engine_sigHashes_def cache_ready_def)

lemma witness_digest_ok: "calcWitnessSignatureHashRaw s h ht tx idx amt \<noteq> Inl EnginePanic"
  by (simp add: calcWitnessSignatureHashRaw_def)

lemma subScript_ok:
  assumes "ready vm" "derived vm k v"
  shows "subScript v \<noteq> Inl EnginePanic"
proof -
  have "vm_lastCodeSep v \<le> tk_offset (vm_tokenizer v)" using assms(2) by (simp add: derived_def counters_def)
  then show ?thesis using assms(1) derived_context [OF assms(2)] by (auto simp: subScript_def ready_def Let_def)
qed

lemma taproot_digest_ok:
  assumes "cache_ready vm" "derived vm k v"
  shows "taproot_digest ht opts v \<noteq> Inl EnginePanic"
proof -
  obtain h where h: "vm_hashCache v = Some h" using assms derived_context [OF assms(2)] by (auto simp: cache_ready_def)
  have f: "vm_prevOutFetcher v (ti_PreviousOutPoint (tx_TxIn (vm_tx v) ! vm_txIdx v)) \<noteq> None"
    using assms derived_context [OF assms(2)] by (auto simp: cache_ready_def)
  then show ?thesis
    unfolding taproot_digest_def h option.case calcTaprootSignatureHashRaw_def Let_def
    by (auto simp: vbind_eq_Inl split: if_splits option.splits)
qed

lemma with_digest_derived:
  assumes "digest \<noteq> Inl EnginePanic" "\<And>h. derived vm k (snd (check h))" "derived vm k v"
  shows "res_ok (with_digest digest check v) (\<lambda>(r, v'). derived vm k v')"
proof (cases digest)
  case (Inl e)
  then show ?thesis using assms by (cases e) (auto simp: with_digest_def)
next
  case (Inr h)
  then show ?thesis using assms(2) [of h] by (simp add: with_digest_def split_beta)
qed

lemma base_Verify_derived:
  assumes "ready vm" "derived vm k v"
  shows "res_ok (base_Verify E b v) (\<lambda>(r, v'). derived vm k v')"
  unfolding base_Verify_def split_beta Let_def
  using base_verifySig_derived [OF assms(2)] by (intro res_ok_unit [OF calcSignatureHash_ok [OF assms]]) simp

lemma segwit_Verify_derived:
  assumes "cache_ready vm" "derived vm k v"
  shows "res_ok (segwit_Verify E b v) (\<lambda>(r, v'). derived vm k v')"
  unfolding segwit_Verify_def
  by (intro res_ok_unit [OF engine_sigHashes_ok [OF assms]] with_digest_derived witness_digest_ok base_verifySig_derived assms(2))

lemma taproot_Verify_derived:
  assumes "cache_ready vm" "derived vm k v"
  shows "res_ok (taproot_Verify E t v) (\<lambda>(r, v'). derived vm k v')" "res_ok (tapscript_Verify E ot ctx v) (\<lambda>(r, v'). derived vm k v')"
proof -
  show "res_ok (taproot_Verify E t v) (\<lambda>(r, v'). derived vm k v')"
    unfolding taproot_Verify_def by (intro with_digest_derived taproot_digest_ok [OF assms] taproot_verifySig_derived assms(2))
  show "res_ok (tapscript_Verify E ot ctx v) (\<lambda>(r, v'). derived vm k v')"
  proof (cases ot)
    case (Some t)
    then show ?thesis
      by (simp add: tapscript_Verify_def with_digest_derived taproot_digest_ok [OF assms] taproot_verifySig_derived assms(2))
  qed (simp add: tapscript_Verify_def assms(2))
qed

lemma check_encodings_ok:
  "checkHashTypeEncoding ht vm \<noteq> Inl EnginePanic" "checkPubKeyEncoding pk vm \<noteq> Inl EnginePanic" "checkSignatureEncoding sig vm \<noteq> Inl EnginePanic"
  by (simp_all add: checkHashTypeEncoding_def checkPubKeyEncoding_def checkSignatureEncoding_def Let_def)

lemma parse_results_ok: "parse_result x \<noteq> Inl EnginePanic" "schnorr_result y \<noteq> Inl EnginePanic"
  by (simp_all add: parse_result_def schnorr_result_def split: option.splits sum.splits)

lemma newBaseSigVerifier_ok:
  assumes "ready vm" "derived vm k v" "sig \<noteq> []"
  shows "newBaseSigVerifier E pk sig v \<noteq> Inl EnginePanic"
  using subScript_ok [OF assms(1,2)] assms(3)
  by (auto simp: newBaseSigVerifier_def parseBaseSigAndPubkey_def Let_def vbind_eq_Inl check_encodings_ok parse_results_ok)

lemma newTaprootSigVerifier_ok: "newTaprootSigVerifier E pk sig annex \<noteq> Inl EnginePanic"
  by (auto simp: newTaprootSigVerifier_def parseTaprootSigAndPubKey_def vbind_eq_Inl parse_results_ok split: if_splits)

lemma newBaseTapscriptSigVerifier_ok: "newBaseTapscriptSigVerifier E pk sig ctx v \<noteq> Inl EnginePanic"
  by (auto simp: newBaseTapscriptSigVerifier_def vbind_eq_Inl newTaprootSigVerifier_ok)

lemma finish_checksig_derived: "derived vm k v \<Longrightarrow> k + 1 \<le> l \<Longrightarrow> res_ok (finish_checksig sig r v) (derived vm l)"
  by (cases r) (auto simp: finish_checksig_def push_bool_to)

lemma tallysigOp_ok: "res_ok (tallysigOp t) (\<lambda>t'. tc_mustSucceed t' = tc_mustSucceed t)"
  by (simp add: tallysigOp_def Let_def)

lemma derived_ctx:
  "derived vm k v \<Longrightarrow> vm_taprootCtx v = Some c \<Longrightarrow> tc_mustSucceed c' = tc_mustSucceed c \<Longrightarrow> derived vm k (v\<lparr>vm_taprootCtx := Some c'\<rparr>)"
  by (auto simp: derived_def context_of_def items_def counters_def)

text \<open>A signature instruction needs the taproot context exactly when a later witness version runs.\<close>

definition sig_ready :: "Engine \<Rightarrow> bool" where
  "sig_ready vm \<longleftrightarrow> (vm_taprootCtx vm = None \<longleftrightarrow> vm_witnessProgram vm = None \<or> vm_witnessVersion vm = 0) \<and>
     (vm_witnessProgram vm \<noteq> None \<longrightarrow> cache_ready vm)"

lemma or_invalid_derived:
  assumes "r \<noteq> Inl EnginePanic" "derived vm k v" "k + 1 \<le> l" "\<And>x. res_ok (f x) (derived vm l)"
  shows "res_ok (or_invalid r f v) (derived vm l)"
proof (cases r)
  case (Inl e)
  then show ?thesis using assms(1-3) by (cases e) (auto simp: or_invalid_def push_bool_to)
qed (simp add: or_invalid_def assms(4))

lemma tally_derived:
  assumes "derived vm k v" "vm_taprootCtx v = Some c"
    "\<And>c'. derived vm k (v\<lparr>vm_taprootCtx := Some c'\<rparr>) \<Longrightarrow> res_ok (f c') (derived vm l)"
  shows "res_ok (vbind (if sig \<noteq> [] then tallysigOp c else Inr c) f) (derived vm l)"
proof (rule res_ok_vbind)
  show "res_ok (if sig \<noteq> [] then tallysigOp c else Inr c) (\<lambda>t. tc_mustSucceed t = tc_mustSucceed c)"
    using tallysigOp_ok by auto
qed (use assms derived_ctx in blast)

lemma tapscript_check_derived:
  assumes "cache_ready vm" "derived vm k v" "\<And>r v'. derived vm k v' \<Longrightarrow> res_ok (f r v') (derived vm l)"
  shows "res_ok (vbind (newBaseTapscriptSigVerifier E pk sig ctx v) (\<lambda>t. vbind (tapscript_Verify E t ctx v) (\<lambda>(r, v). f r v))) (derived vm l)"
  by (intro res_ok_unit [OF newBaseTapscriptSigVerifier_ok] res_ok_pair [OF taproot_Verify_derived(2) [OF assms(1,2)]] assms(3))

lemma check_base_derived:
  assumes "ready vm" "derived vm (- 2) v" "sig \<noteq> []"
  shows "res_ok (or_invalid (newBaseSigVerifier E pk sig v) (\<lambda>x. vbind (base_Verify E x v) (\<lambda>(r, v). finish_checksig sig r v)) v) (derived vm 3)"
    "cache_ready vm \<Longrightarrow> res_ok (or_invalid (newBaseSigVerifier E pk sig v) (\<lambda>x. vbind (segwit_Verify E x v) (\<lambda>(r, v). finish_checksig sig r v)) v) (derived vm 3)"
proof -
  have fin: "derived vm (- 2) v' \<Longrightarrow> res_ok (finish_checksig sig r v') (derived vm 3)" for r v'
    by (rule finish_checksig_derived [of vm "- 2"]) simp_all
  show "res_ok (or_invalid (newBaseSigVerifier E pk sig v) (\<lambda>x. vbind (base_Verify E x v) (\<lambda>(r, v). finish_checksig sig r v)) v) (derived vm 3)"
    by (rule or_invalid_derived [OF newBaseSigVerifier_ok [OF assms] assms(2)])
      (auto intro: res_ok_pair [OF base_Verify_derived [OF assms(1,2)]] fin)
  show "res_ok (or_invalid (newBaseSigVerifier E pk sig v) (\<lambda>x. vbind (segwit_Verify E x v) (\<lambda>(r, v). finish_checksig sig r v)) v) (derived vm 3)" if c: "cache_ready vm"
    by (rule or_invalid_derived [OF newBaseSigVerifier_ok [OF assms] assms(2)])
      (auto intro: res_ok_pair [OF segwit_Verify_derived [OF c assms(2)]] fin)
qed

lemma checksig_tapscript_derived:
  assumes "cache_ready vm" "derived vm (- 2) v" "vm_taprootCtx v = Some c"
  shows "res_ok (checksig_tapscript E pk sig c v) (derived vm 3)"
  unfolding checksig_tapscript_def
proof (rule tally_derived [OF assms(2,3)])
  fix c' assume d: "derived vm (- 2) (v\<lparr>vm_taprootCtx := Some c'\<rparr>)"
  have fin: "derived vm (- 2) v' \<Longrightarrow> res_ok (finish_checksig sig r v') (derived vm 3)" for r v'
    by (rule finish_checksig_derived [of vm "- 2"]) simp_all
  show "res_ok (let vm = v\<lparr>vm_taprootCtx := Some c'\<rparr> in
     if pk = [] then Inl (ScriptErr ErrTaprootPubkeyIsEmpty)
     else if sig = [] then Inr (push_bytes_vm [] vm)
     else
       vbind (newBaseTapscriptSigVerifier E pk sig c' vm) (\<lambda>v.
       vbind (tapscript_Verify E v c' vm) (\<lambda>(result, vm). finish_checksig sig result vm))) (derived vm 3)"
    unfolding Let_def using push_bytes_to [OF d, of 3 "[]"]
    by (auto intro!: tapscript_check_derived [OF assms(1) d] fin)
qed

lemma checksig_with_derived:
  assumes "ready vm" "derived vm (- 2) v" "sig_ready vm"
  shows "res_ok (checksig_with E pk sig v) (derived vm 3)"
proof -
  have sr: "vm_taprootCtx v = None \<longleftrightarrow> vm_witnessProgram v = None \<or> isWitnessVersionActive BaseSegwitWitnessVersion v"
    "vm_witnessProgram v \<noteq> None \<Longrightarrow> cache_ready vm"
    using assms(3) derived_context [OF assms(2)] by (auto simp: sig_ready_def isWitnessVersionActive_def BaseSegwitWitnessVersion_def)
  show ?thesis
  proof (cases "vm_taprootCtx v")
    case None
    have "res_ok (vbind (checkPubKeyEncoding pk v) (\<lambda>_. Inr (push_bool_vm False v))) (derived vm 3)"
      using push_bool_to [OF assms(2), of 3 False] by (auto intro!: res_ok_unit [OF check_encodings_ok(2)])
    then show ?thesis using None sr check_base_derived [OF assms(1,2)] by (auto simp: checksig_with_def)
  next
    case (Some c)
    then show ?thesis using sr checksig_tapscript_derived [OF _ assms(2) Some] by (auto simp: checksig_with_def)
  qed
qed

lemma opcodeCheckSig_keeps:
  assumes "ready vm" "derived vm 0 vm" "sig_ready vm"
  shows "res_ok (opcodeCheckSig E op data vm) (derived vm 3)"
  unfolding opcodeCheckSig_def
proof (rule res_ok_pair [OF pop_bytes_derived [OF assms(1,2)]], simp, rule res_ok_pair [OF pop_bytes_derived [OF assms(1)]])
  fix pk :: bytes and v1 assume "derived vm (0 - 1) v1 \<and> length pk \<le> MaxScriptElementSize"
  then show "derived vm (- 1) v1" by simp
  fix sig :: bytes and v assume "derived vm (- 1 - 1) v \<and> length sig \<le> MaxScriptElementSize"
  then show "res_ok (checksig_with E pk sig v) (derived vm 3)" by (auto intro: checksig_with_derived [OF assms(1) _ assms(3)])
qed simp

lemma abstractVerify_derived: "ready vm \<Longrightarrow> derived vm 3 v \<Longrightarrow> res_ok (abstractVerify c v) (derived vm 3)"
  unfolding abstractVerify_def
  by (rule res_ok_pair [OF pop_bool_derived]) (auto intro: derived_mono)

lemma add_checked_derived:
  assumes "cache_ready vm" "derived vm (- 3) v" "vm_taprootCtx v = Some c0" "tc_mustSucceed c = tc_mustSucceed c0" "\<bar>n\<bar> < 2 ^ 39"
  shows "res_ok (add_checked E pk n sig c v) (derived vm 3)"
proof -
  have d: "derived vm (- 3) (v\<lparr>vm_taprootCtx := Some c\<rparr>)" by (rule derived_ctx [OF assms(2,3,4)])
  have n: "\<bar>n\<bar> < 2 ^ 47" "\<bar>i64 (n + 1)\<bar> < 2 ^ 47" using assms(5) by (auto simp: i64_small)
  show ?thesis unfolding add_checked_def
  proof (rule tally_derived [OF d])
    fix c' assume "derived vm (- 3) (v\<lparr>vm_taprootCtx := Some c, vm_taprootCtx := Some c'\<rparr>)"
    then have d': "derived vm (- 3) (v\<lparr>vm_taprootCtx := Some c'\<rparr>)" by simp
    show "res_ok (let vm = v\<lparr>vm_taprootCtx := Some c'\<rparr> in
       if pk = [] then Inl (ScriptErr ErrTaprootPubkeyIsEmpty)
       else if sig = [] then push_int_vm n vm
       else
         vbind (newBaseTapscriptSigVerifier E pk sig c' vm) (\<lambda>v.
         vbind (tapscript_Verify E v c' vm) (\<lambda>((valid, _), vm).
         if \<not> valid then Inl (ScriptErr ErrNullFail) else push_int_vm (i64 (n + 1)) vm))) (derived vm 3)"
      unfolding Let_def using push_int_to [OF d', of 3 n] push_int_to [of vm "- 3" _ 3] n
      by (auto intro!: tapscript_check_derived [OF assms(1) d'] split: prod.split)
  qed simp
qed

lemma opcodeCheckSigAdd_keeps:
  assumes "ready vm" "derived vm 0 vm" "sig_ready vm"
  shows "res_ok (opcodeCheckSigAdd E op data vm) (derived vm 3)"
proof (cases "vm_taprootCtx vm")
  case (Some c)
  then have cr: "cache_ready vm" using assms(3) by (auto simp: sig_ready_def)
  show ?thesis unfolding opcodeCheckSigAdd_def Some option.case
  proof (rule res_ok_pair [OF pop_bytes_derived [OF assms(1,2)]], simp, rule res_ok_pair [OF pop_int_derived [OF assms(1)]])
    fix pk :: bytes and v1 assume "derived vm (0 - 1) v1 \<and> length pk \<le> MaxScriptElementSize"
    then show "derived vm (- 1) v1" by simp
    fix n :: int and v2 assume "derived vm (- 1 - 1) v2 \<and> \<bar>n\<bar> < 2 ^ 39"
    then have d2: "derived vm (- 2) v2" and n: "\<bar>n\<bar> < 2 ^ 39" by auto
    show "res_ok (vbind (pop_bytes_vm v2) (\<lambda>(sigBytes, vm). add_checked E pk n sigBytes c vm)) (derived vm 3)"
    proof (rule res_ok_pair [OF pop_bytes_derived [OF assms(1) d2]])
      fix sig :: bytes and v assume "derived vm (- 2 - 1) v \<and> length sig \<le> MaxScriptElementSize"
      then have d: "derived vm (- 3) v" by simp
      obtain c0 where c: "vm_taprootCtx v = Some c0" "tc_mustSucceed c0 = tc_mustSucceed c"
        using d Some by (auto simp: derived_def context_of_def)
      show "res_ok (add_checked E pk n sig c v) (derived vm 3)"
        by (rule add_checked_derived [OF cr d c(1)]) (use c n in simp_all)
    qed simp
  qed simp
qed (simp add: opcodeCheckSigAdd_def)

lemma pop_many_derived:
  "ready vm \<Longrightarrow> derived vm k v \<Longrightarrow> k \<le> 3 \<Longrightarrow> res_ok (pop_many n v) (\<lambda>(xs, v'). derived vm k v' \<and> length xs = n)"
proof (induction n arbitrary: v)
  case (Suc n)
  show ?case unfolding pop_many.simps
  proof (rule res_ok_pair [OF pop_bytes_derived [OF Suc.prems]])
    fix x :: bytes and v1 assume "derived vm (k - 1) v1 \<and> length x \<le> MaxScriptElementSize"
    then have "derived vm k v1" using derived_mono by fastforce
    then show "res_ok (vbind (pop_many n v1) (\<lambda>(xs, vm). Inr (x # xs, vm))) (\<lambda>(xs, v'). derived vm k v' \<and> length xs = Suc n)"
      by (intro res_ok_pair [OF Suc.IH]) (use Suc.prems in auto)
  qed
qed simp

lemma remove_signatures_ok: "remove_signatures sigs script v \<noteq> Inl EnginePanic"
  by (induction sigs arbitrary: script) (auto simp: split_beta Let_def)

lemma multisig_digest_ok:
  assumes "ready vm" "derived vm k v" "sig_ready vm"
  shows "multisig_digest script ht v \<noteq> Inl EnginePanic"
  using engine_sigHashes_ok [OF _ assms(2)] calcSignatureHash_ok [OF assms(1,2)] witness_digest_ok assms(3) derived_context [OF assms(2)]
  by (auto simp: multisig_digest_def vbind_eq_Inl sig_ready_def isWitnessVersionActive_def)

lemma try_key_derived:
  assumes "ready vm" "derived vm k v" "sig_ready vm"
  shows "res_ok (try_key E script sig pk p v) (\<lambda>(b, v'). derived vm k v')"
  unfolding try_key_def
proof (intro res_ok_unit [OF check_encodings_ok(2)])
  show "res_ok (case parsePubKey (env_curve E) pk of None \<Rightarrow> Inr (False, v)
     | Some parsedPubKey \<Rightarrow>
         vbind (multisig_digest script (uint (last sig)) v) (\<lambda>hash.
         Inr (cached_verify E hash (butlast sig) pk (ecdsaVerify (env_curve E) p hash parsedPubKey) v))) (\<lambda>(b, v'). derived vm k v')"
    using assms(2) cached_verify_derived [OF assms(2)]
    by (auto intro!: res_ok_unit [OF multisig_digest_ok [OF assms]] simp: split_beta split: option.split)
qed

lemma parse_once_ok: "parse_once sig p v \<noteq> Inl EnginePanic"
  by (auto simp: parse_once_def vbind_eq_Inl check_encodings_ok split: option.splits)

lemma multisig_match_derived:
  "ready vm \<Longrightarrow> derived vm k v \<Longrightarrow> sig_ready vm \<Longrightarrow> res_ok (multisig_match E script sigs p pks v) (\<lambda>(b, v'). derived vm k v')"
proof (induction E script sigs p pks v rule: multisig_match.induct)
  case (3 E script rawSig sigs parsed pubKey pubKeys v)
  show ?case
  proof (cases "length (rawSig # sigs) > length (pubKey # pubKeys) \<or> rawSig = []")
    case True
    then show ?thesis using 3 by auto
  next
    case False
    then have g: "\<not> length (rawSig # sigs) > length (pubKey # pubKeys)" "rawSig \<noteq> []" by auto
    have q: "res_ok (case q of
          None \<Rightarrow> multisig_match E script (rawSig # sigs) (Some None) pubKeys v
        | Some parsedSig \<Rightarrow>
            vbind (try_key E script rawSig pubKey parsedSig v) (\<lambda>(valid, vm).
            if valid then multisig_match E script sigs None pubKeys vm
            else multisig_match E script (rawSig # sigs) (Some (Some parsedSig)) pubKeys vm)) (\<lambda>(b, v'). derived vm k v')" if q: "parse_once rawSig parsed v = Inr q" for q
    proof (cases q)
      case None
      then show ?thesis using "3.IH"(2) [OF g q None "3.prems"] by simp
    next
      case (Some ps)
      show ?thesis
      proof (cases "try_key E script rawSig pubKey ps v")
        case (Inl e)
        then show ?thesis using try_key_derived [OF "3.prems", of E script rawSig pubKey ps] by (simp add: Some res_ok_def)
      next
        case (Inr bv)
        then obtain b v' where t: "try_key E script rawSig pubKey ps v = Inr (b, v')" by (cases bv) simp
        then have "derived vm k v'" using try_key_derived [OF "3.prems", of E script rawSig pubKey ps] by simp
        then show ?thesis
          using "3.IH"(3) [OF g q Some t refl] "3.IH"(4) [OF g q Some t refl] "3.prems" by (simp add: Some t)
      qed
    qed
    then show ?thesis using g parse_once_ok [of rawSig parsed v]
      by (cases "parse_once rawSig parsed v") (auto simp: res_ok_def)
  qed
qed simp_all

lemma derived_numOps:
  assumes "derived vm k v" "0 \<le> n" "n \<le> MaxOpsPerScript"
  shows "derived vm k (v\<lparr>vm_numOps := n\<rparr>)"
  using assms by (auto simp: derived_def context_of_def items_def counters_def)

lemma multisig_verify_derived:
  assumes "ready vm" "derived vm (- 2) v" "sig_ready vm"
  shows "res_ok (multisig_verify E pubKeys sigs v) (derived vm 3)"
  unfolding multisig_verify_def
proof (rule res_ok_unit [OF subScript_ok [OF assms(1,2)]], rule res_ok_unit)
  fix s t
  show "(if \<not> isWitnessVersionActive 0 v then remove_signatures sigs s v else Inr s) \<noteq> Inl EnginePanic"
    by (simp add: remove_signatures_ok)
  show "res_ok (vbind (multisig_match E t sigs None pubKeys v) (\<lambda>(success, vm).
      if \<not> success \<and> hasFlag vm ScriptVerifyNullFail \<and> (\<exists>sig \<in> set sigs. sig \<noteq> [])
      then Inl (ScriptErr ErrNullFail)
      else Inr (push_bool_vm success vm))) (derived vm 3)"
    by (rule res_ok_pair [OF multisig_match_derived [OF assms]]) (auto intro: push_bool_to [of vm "- 2"])
qed

lemma multisig_signatures_derived:
  assumes "ready vm" "derived vm (- 1) v" "sig_ready vm"
  shows "res_ok (multisig_signatures E n pubKeys v) (derived vm 3)"
  unfolding multisig_signatures_def
proof (rule res_ok_pair [OF pop_int_derived [OF assms(1,2)]], simp)
  fix m :: int and v1 assume "derived vm (- 1 - 1) v1 \<and> \<bar>m\<bar> < 2 ^ 39"
  then have d1: "derived vm (- 2) v1" by simp
  have "res_ok (vbind (pop_bytes_vm v2) (\<lambda>(dummy, vm).
       if hasFlag vm ScriptStrictMultiSig \<and> dummy \<noteq> [] then Inl (ScriptErr ErrSigNullDummy)
       else multisig_verify E pubKeys sigs vm)) (derived vm 3)" if d2: "derived vm (- 2) v2" for v2 sigs
    by (rule res_ok_pair [OF pop_bytes_derived [OF assms(1) d2]])
      (use multisig_verify_derived [OF assms(1) derived_mono [of vm "- 3"] assms(3)] in auto)
  then show "res_ok (let numSignatures = scriptNum_Int32 m in
     if numSignatures < 0 then Inl (ScriptErr ErrInvalidSignatureCount)
     else if numSignatures > n then Inl (ScriptErr ErrInvalidSignatureCount)
     else
       vbind (pop_many (nat numSignatures) v1) (\<lambda>(signatures, vm).
       vbind (pop_bytes_vm vm) (\<lambda>(dummy, vm).
       if hasFlag vm ScriptStrictMultiSig \<and> dummy \<noteq> [] then Inl (ScriptErr ErrSigNullDummy)
       else multisig_verify E pubKeys signatures vm))) (derived vm 3)"
    using d1 by (auto simp: Let_def intro!: res_ok_pair [OF pop_many_derived [OF assms(1) d1]])
qed

lemma opcodeCheckMultiSig_keeps:
  assumes "ready vm" "derived vm 0 vm" "sig_ready vm"
  shows "res_ok (opcodeCheckMultiSig E op data vm) (derived vm 3)"
proof (cases "vm_taprootCtx vm = None")
  case True
  have "res_ok (vbind (pop_int_vm vm) (\<lambda>(numKeys, vm).
        let numPubKeys = scriptNum_Int32 numKeys in
        if numPubKeys < 0 then Inl (ScriptErr ErrInvalidPubKeyCount)
        else if numPubKeys > MaxPubKeysPerMultiSig then Inl (ScriptErr ErrInvalidPubKeyCount)
        else
          let vm = vm\<lparr>vm_numOps := vm_numOps vm + numPubKeys\<rparr> in
          if vm_numOps vm > MaxOpsPerScript then Inl (ScriptErr ErrTooManyOperations)
          else vbind (pop_many (nat numPubKeys) vm) (\<lambda>(pubKeys, vm). multisig_signatures E numPubKeys pubKeys vm))) (derived vm 3)"
  proof (rule res_ok_pair [OF pop_int_derived [OF assms(1,2)]], simp)
    fix m :: int and v assume "derived vm (0 - 1) v \<and> \<bar>m\<bar> < 2 ^ 39"
    then have d: "derived vm (- 1) v" "0 \<le> vm_numOps v" by (auto simp: derived_def counters_def)
    have d2: "derived vm (- 1) (v\<lparr>vm_numOps := vm_numOps v + n\<rparr>)" if "0 \<le> n" "vm_numOps v + n \<le> MaxOpsPerScript" for n
      using derived_numOps [OF d(1)] d(2) that by simp
    show "res_ok (let numPubKeys = scriptNum_Int32 m in
        if numPubKeys < 0 then Inl (ScriptErr ErrInvalidPubKeyCount)
        else if numPubKeys > MaxPubKeysPerMultiSig then Inl (ScriptErr ErrInvalidPubKeyCount)
        else
          let vm = v\<lparr>vm_numOps := vm_numOps v + numPubKeys\<rparr> in
          if vm_numOps vm > MaxOpsPerScript then Inl (ScriptErr ErrTooManyOperations)
          else vbind (pop_many (nat numPubKeys) vm) (\<lambda>(pubKeys, vm). multisig_signatures E numPubKeys pubKeys vm)) (derived vm 3)"
      unfolding Let_def
      by (auto intro!: res_ok_pair [OF pop_many_derived [OF assms(1) d2]] multisig_signatures_derived [OF assms(1) _ assms(3)])
  qed
  then show ?thesis using True by (simp add: opcodeCheckMultiSig_def)
qed (simp add: opcodeCheckMultiSig_def)

section \<open>The table of instructions\<close>

text \<open>
  What every instruction other than those that check signatures keeps, when the stacks and the
  pushed data are within the limits.
\<close>

definition keeps :: "handler \<Rightarrow> bool" where
  "keeps h \<longleftrightarrow> (\<forall>op data vm. ready vm \<longrightarrow> derived vm 0 vm \<longrightarrow> length (opt_data data) \<le> MaxScriptElementSize \<longrightarrow>
     res_ok (h op data vm) (derived vm 3))"

named_theorems handlers \<open>that an instruction keeps what it should\<close>

lemma keepsI:
  "(\<And>op data vm. ready vm \<Longrightarrow> derived vm 0 vm \<Longrightarrow> derived vm 3 vm \<Longrightarrow> length (opt_data data) \<le> MaxScriptElementSize \<Longrightarrow>
     res_ok (h op data vm) (derived vm 3)) \<Longrightarrow> keeps h"
  by (simp add: keeps_def derived_mono [of _ 0 _ 3])

lemma keeps_push [handlers]: "keeps opcodeFalse" "keeps opcodePushData" "keeps opcode1Negate" "keeps opcodeN"
proof -
  show "keeps opcodeFalse" by (rule keepsI) (auto simp: opcodeFalse_def intro: push_bytes_to)
  show "keeps opcodePushData" by (rule keepsI) (auto simp: opcodePushData_def intro: push_bytes_to)
  show "keeps opcode1Negate" by (rule keepsI) (auto simp: opcode1Negate_def intro: push_int_to)
  have "\<bar>uint (b :: byte)\<bar> < 2 ^ 47" for b using uint_lt2p [of b] by simp
  then show "keeps opcodeN" by (intro keepsI) (auto simp: opcodeN_def simp del: push_int_derived intro!: push_int_to)
qed

lemma keeps_constant [handlers]: "keeps opcodeDisabled" "keeps opcodeReserved" "keeps opcodeInvalid" "keeps opcodeReturn" "keeps opcodeNop"
  by (simp_all add: keeps_def opcodeDisabled_def opcodeReserved_def opcodeInvalid_def opcodeReturn_def opcodeNop_def derived_mono [of _ 0 _ 3])

lemma popIfBool_derived:
  assumes "ready vm" "derived vm 0 vm"
  shows "res_ok (popIfBool vm) (\<lambda>(b, v). derived vm 3 v)"
proof -
  have "res_ok (pop_bool_vm vm) (\<lambda>(b, v). derived vm 3 v)"
    by (rule res_ok_mono [OF pop_bool_derived [OF assms]]) (auto intro: derived_mono)
  moreover have "res_ok (vbind (pop_bytes_vm vm) (\<lambda>(so, vm).
        if length so > 1 then Inl (ScriptErr ErrMinimalIf)
        else if length so = 1 \<and> so ! 0 \<noteq> 0x01 then Inl (ScriptErr ErrMinimalIf)
        else Inr (asBool so, vm))) (\<lambda>(b, v). derived vm 3 v)"
    by (rule res_ok_pair [OF pop_bytes_derived [OF assms]]) (auto intro: derived_mono)
  ultimately show ?thesis by (simp add: popIfBool_def)
qed

lemma push_cond_derived:
  "derived vm k v \<Longrightarrow> c \<in> {OpCondFalse, OpCondTrue, OpCondSkip} \<Longrightarrow> derived vm k (push_cond c v)"
  by (auto simp: push_cond_def derived_def context_of_def items_def counters_def)

lemma set_cond_derived:
  "derived vm k v \<Longrightarrow> set cs \<subseteq> {OpCondFalse, OpCondTrue, OpCondSkip} \<Longrightarrow> derived vm k (v\<lparr>vm_condStack := cs\<rparr>)"
  by (auto simp: derived_def context_of_def items_def counters_def)

lemma keeps_if [handlers]: "keeps opcodeIf" "keeps opcodeNotIf"
proof -
  have "res_ok (if isBranchExecuting vm then vbind (popIfBool vm) (\<lambda>(ok, vm). Inr (push_cond (f ok) vm)) else Inr (push_cond OpCondSkip vm)) (derived vm 3)"
    if "ready vm" "derived vm 0 vm" "derived vm 3 vm" "\<And>ok. f ok \<in> {OpCondFalse, OpCondTrue, OpCondSkip}" for vm and f :: "bool \<Rightarrow> int"
    using push_cond_derived [OF that(3), of OpCondSkip] res_ok_pair [OF popIfBool_derived [OF that(1,2)], of "\<lambda>ok vm. Inr (push_cond (f ok) vm)" "derived vm 3"]
      push_cond_derived that(4) by fastforce
  then show "keeps opcodeIf" "keeps opcodeNotIf"
    by (auto intro!: keepsI simp: opcodeIf_def opcodeNotIf_def)
qed

lemma keeps_else [handlers]: "keeps opcodeElse" "keeps opcodeEndif"
proof -
  have c: "derived vm 3 vm \<Longrightarrow> set (vm_condStack vm) \<subseteq> {OpCondFalse, OpCondTrue, OpCondSkip}" for vm
    by (simp add: derived_def counters_def)
  have "set (cs[i := y]) \<subseteq> {OpCondFalse, OpCondTrue, OpCondSkip}"
    if "set cs \<subseteq> {OpCondFalse, OpCondTrue, OpCondSkip}" "y \<in> {OpCondFalse, OpCondTrue, OpCondSkip}" for cs y and i :: nat
    using that set_update_subset_insert [of cs i y] by blast
  moreover have "cs ! (length cs - 1) \<in> {OpCondFalse, OpCondTrue, OpCondSkip}"
    if "set cs \<subseteq> {OpCondFalse, OpCondTrue, OpCondSkip}" "cs \<noteq> []" for cs
    using that nth_mem [of "length cs - 1" cs] by fastforce
  ultimately have u: "set (cs[length cs - 1 := (if cs ! (length cs - 1) = OpCondTrue then OpCondFalse
        else if cs ! (length cs - 1) = OpCondFalse then OpCondTrue else cs ! (length cs - 1))]) \<subseteq> {OpCondFalse, OpCondTrue, OpCondSkip}"
    if "set cs \<subseteq> {OpCondFalse, OpCondTrue, OpCondSkip}" "cs \<noteq> []" for cs
    using that by auto
  show "keeps opcodeElse"
  proof (rule keepsI)
    fix op data vm assume d: "derived vm 3 vm"
    show "res_ok (opcodeElse op data vm) (derived vm 3)"
    proof (cases "vm_condStack vm = []")
      case False
      then show ?thesis unfolding opcodeElse_def Let_def using set_cond_derived [OF d u [OF c [OF d] False]] by simp
    qed (simp add: opcodeElse_def)
  qed
  show "keeps opcodeEndif"
    by (rule keepsI) (use c set_take_subset in \<open>fastforce simp: opcodeEndif_def intro!: set_cond_derived\<close>)
qed

lemma keeps_verify [handlers]: "keeps opcodeVerify"
  by (rule keepsI) (simp add: opcodeVerify_def abstractVerify_derived)

lemma keeps_then_verify: "keeps h \<Longrightarrow> keeps (\<lambda>op data vm. vbind (h op data vm) (abstractVerify c))"
proof (rule keepsI)
  fix op data vm assume "keeps h" "ready vm" "derived vm 0 vm" "length (opt_data data) \<le> MaxScriptElementSize"
  then have "res_ok (h op data vm) (derived vm 3)" unfolding keeps_def by blast
  then show "res_ok (vbind (h op data vm) (abstractVerify c)) (derived vm 3)"
    by (rule res_ok_vbind) (rule abstractVerify_derived [OF \<open>ready vm\<close>])
qed

lemma peek_lock_ok: "small (vm_dstack vm) \<Longrightarrow> peek_lock vm \<noteq> Inl EnginePanic"
  unfolding peek_lock_def
  by (cases "PeekByteArray 0 (vm_dstack vm)")
    (use Peek_ok [of "vm_dstack vm" 0] in \<open>auto simp: res_ok_def toScriptNum_def vbind_eq_Inl split: sum.splits if_splits\<close>)

lemma verifyLockTime_ok: "verifyLockTime a b c \<noteq> Inl EnginePanic"
  by (simp add: verifyLockTime_def)

lemma txInput_ok: "ready vm \<Longrightarrow> txInput vm \<noteq> Inl EnginePanic"
  by (simp add: txInput_def ready_def)

lemma keeps_locktime [handlers]: "keeps opcodeCheckLockTimeVerify" "keeps opcodeCheckSequenceVerify"
proof -
  show "keeps opcodeCheckLockTimeVerify"
    by (rule keepsI) (auto simp: opcodeCheckLockTimeVerify_def nop_unless_discouraged_def
      intro!: res_ok_unit peek_lock_ok verifyLockTime_ok txInput_ok derived_small(1))
  show "keeps opcodeCheckSequenceVerify"
    by (rule keepsI) (auto simp: opcodeCheckSequenceVerify_def nop_unless_discouraged_def Let_def
      intro!: res_ok_unit peek_lock_ok verifyLockTime_ok txInput_ok derived_small(1))
qed

lemma keeps_altstack [handlers]: "keeps opcodeToAltStack" "keeps opcodeFromAltStack"
proof -
  show "keeps opcodeToAltStack"
  proof (rule keepsI, unfold opcodeToAltStack_def)
    fix vm assume r: "ready vm" "derived vm 0 vm"
    show "res_ok (vbind (pop_bytes_vm vm) (\<lambda>(so, vm). Inr (vm\<lparr>vm_astack := PushByteArray so (vm_astack vm)\<rparr>))) (derived vm 3)"
    proof (rule res_ok_pair [OF pop_bytes_derived [OF r]])
      fix x :: bytes and v assume x: "derived vm (0 - 1) v \<and> length x \<le> MaxScriptElementSize"
      then have "derived vm (0 - 1 + 1) (v\<lparr>vm_astack := PushByteArray x (vm_astack v)\<rparr>)"
        by (intro derived_astack) (auto simp: derived_def PushByteArray_def elems_ok_def)
      then show "res_ok (Inr (v\<lparr>vm_astack := PushByteArray x (vm_astack v)\<rparr>)) (derived vm 3)" by (simp add: derived_mono)
    qed simp
  qed
  show "keeps opcodeFromAltStack"
  proof (rule keepsI, unfold opcodeFromAltStack_def)
    fix vm assume r: "ready vm" "derived vm 0 vm"
    show "res_ok (vbind (PopByteArray (vm_astack vm)) (\<lambda>(so, s). Inr (push_bytes_vm so (vm\<lparr>vm_astack := s\<rparr>)))) (derived vm 3)"
    proof (rule res_ok_pair [OF PopByteArray_cases [OF derived_small(2) [OF r]]])
      fix x :: bytes and s :: stack assume x: "stk (vm_astack vm) = stk s @ [x] \<and> verifyMinimalData s = verifyMinimalData (vm_astack vm)"
      have e: "elems_ok (stk s @ [x])" using r(2) x by (simp add: derived_def)
      then have "derived vm (0 + (- 1)) (vm\<lparr>vm_astack := s\<rparr>)"
        by (intro derived_astack [OF r(2)]) (use x in \<open>auto simp: elems_ok_def\<close>)
      then show "res_ok (Inr (push_bytes_vm x (vm\<lparr>vm_astack := s\<rparr>))) (derived vm 3)"
        using e by (auto simp: elems_ok_def intro: push_bytes_to)
    qed simp
  qed
qed

lemma keeps_moves [handlers]:
  "keeps opcode2Drop" "keeps opcode2Dup" "keeps opcode3Dup" "keeps opcode2Over" "keeps opcode2Rot" "keeps opcode2Swap"
  "keeps opcodeDrop" "keeps opcodeDup" "keeps opcodeNip" "keeps opcodeOver" "keeps opcodeRot" "keeps opcodeSwap" "keeps opcodeTuck"
  by (rule keepsI, simp add: opcode2Drop_def opcode2Dup_def opcode3Dup_def opcode2Over_def opcode2Rot_def opcode2Swap_def opcodeDrop_def opcodeDup_def opcodeNip_def opcodeOver_def opcodeRot_def opcodeSwap_def opcodeTuck_def on_dstack_0 [OF moves_drop] on_dstack_0 [OF moves_peek(1)]
    on_dstack_0 [OF moves_peek(2)] on_dstack_0 [OF moves_nip(1)] on_dstack_0 [OF moves_nip(2)] on_dstack_0 [OF moves_one(1)]
    on_dstack_0 [OF moves_Tuck])+

lemma keeps_pick [handlers]: "keeps opcodePick" "keeps opcodeRoll"
proof -
  have p: "res_ok (vbind (pop_int_vm vm) (\<lambda>(val, vm). on_dstack (f (scriptNum_Int32 val)) vm)) (derived vm 3)"
    if m: "\<And>n. moves (f n) 1" and r: "ready vm" "derived vm 0 vm" for f vm
  proof (rule res_ok_pair [OF pop_int_derived [OF r]])
    fix n :: int and v assume "derived vm (0 - 1) v \<and> \<bar>n\<bar> < 2 ^ 39"
    then have "res_ok (on_dstack (f (scriptNum_Int32 n)) v) (derived vm (0 - 1 + 1))" by (intro on_dstack_derived m r) auto
    then show "res_ok (on_dstack (f (scriptNum_Int32 n)) v) (derived vm 3)" by (rule res_ok_mono) (simp add: derived_mono)
  qed simp
  have "moves (RollN n) 1" for n by (rule moves_mono [OF moves_one(3)]) simp
  then show "keeps opcodeRoll" by (intro keepsI) (simp add: opcodeRoll_def p)
  show "keeps opcodePick" by (rule keepsI) (simp add: opcodePick_def p moves_one(2))
qed

lemma keeps_inspect [handlers]: "keeps opcodeIfDup" "keeps opcodeDepth" "keeps opcodeSize"
proof -
  have peek: "res_ok (PeekByteArray 0 (vm_dstack vm)) (\<lambda>x. length x \<le> MaxScriptElementSize)"
    if "ready vm" "derived vm 0 vm" for vm
    by (rule res_ok_mono [OF Peek_ok [OF derived_small(1) [OF that]]]) (use that in \<open>auto simp: derived_def elems_ok_def\<close>)
  show "keeps opcodeIfDup"
    by (rule keepsI) (auto simp: opcodeIfDup_def intro!: res_ok_vbind [OF peek] push_bytes_to)
  show "keeps opcodeSize"
    by (rule keepsI) (auto simp: opcodeSize_def MaxScriptElementSize_def intro!: res_ok_vbind [OF peek] push_int_to)
  have "\<bar>Depth s\<bar> < 2 ^ 47" if "small s" for s :: stack using that stack_size [OF that] by (simp add: Depth_def)
  then show "keeps opcodeDepth"
    using derived_small(1) by (intro keepsI) (simp add: opcodeDepth_def push_int_to [of _ 0] del: power_numeral)
qed

lemma keeps_equal [handlers]: "keeps opcodeEqual" "keeps opcodeEqualVerify"
proof -
  show "keeps opcodeEqual"
  proof (rule keepsI, unfold opcodeEqual_def)
    fix vm assume r: "ready vm" "derived vm 0 vm"
    show "res_ok (vbind (pop_bytes_vm vm) (\<lambda>(a, vm). vbind (pop_bytes_vm vm) (\<lambda>(b, vm). Inr (push_bool_vm (a = b) vm)))) (derived vm 3)"
    proof (rule res_ok_pair [OF pop_bytes_derived [OF r]], simp, rule res_ok_pair [OF pop_bytes_derived [OF r(1)]])
      fix x :: bytes and v assume "derived vm (0 - 1) v \<and> length x \<le> MaxScriptElementSize"
      then show "derived vm (- 1) v" by simp
    qed (auto intro: push_bool_to)
  qed
  then show "keeps opcodeEqualVerify"
    using keeps_then_verify [of opcodeEqual ErrEqualVerify] by (simp add: opcodeEqualVerify_def [abs_def])
qed

lemma keeps_arithmetic [handlers]:
  "keeps opcode1Add" "keeps opcode1Sub" "keeps opcodeNegate" "keeps opcodeAbs" "keeps opcodeNot" "keeps opcode0NotEqual"
  "keeps opcodeAdd" "keeps opcodeSub" "keeps opcodeBoolAnd" "keeps opcodeBoolOr" "keeps opcodeNumEqual" "keeps opcodeNumNotEqual"
  "keeps opcodeLessThan" "keeps opcodeGreaterThan" "keeps opcodeLessThanOrEqual" "keeps opcodeGreaterThanOrEqual"
  "keeps opcodeMin" "keeps opcodeMax"
  by (rule keepsI, simp only: opcode1Add_def opcode1Sub_def opcodeNegate_def opcodeAbs_def opcodeNot_def opcode0NotEqual_def
    opcodeAdd_def opcodeSub_def opcodeBoolAnd_def opcodeBoolOr_def opcodeNumEqual_def opcodeNumNotEqual_def opcodeLessThan_def
    opcodeGreaterThan_def opcodeLessThanOrEqual_def opcodeGreaterThanOrEqual_def opcodeMin_def opcodeMax_def,
    rule unary_derived binary_derived, assumption, assumption, auto simp: i64_small)+

lemma keeps_NumEqualVerify [handlers]: "keeps opcodeNumEqualVerify"
  using keeps_then_verify [OF keeps_arithmetic(11), of ErrNumEqualVerify] by (simp add: opcodeNumEqualVerify_def [abs_def])

lemma keeps_within [handlers]: "keeps opcodeWithin"
proof (rule keepsI, unfold opcodeWithin_def)
  fix vm assume r: "ready vm" "derived vm 0 vm"
  have p: "res_ok (pop_int_vm v) (\<lambda>(n, v'). derived vm 0 v')" if "derived vm 0 v" for v
    by (rule res_ok_mono [OF pop_int_derived [OF r(1) that]]) (auto intro: derived_mono)
  show "res_ok (vbind (pop_int_vm vm) (\<lambda>(maxVal, vm). vbind (pop_int_vm vm) (\<lambda>(minVal, vm). vbind (pop_int_vm vm) (\<lambda>(x, vm).
     push_int_vm (if x \<ge> minVal \<and> x < maxVal then 1 else 0) vm)))) (derived vm 3)"
    by (intro res_ok_pair [OF p] r push_int_to [of vm 0]) auto
qed

definition ripemd_ok :: "'p env \<Rightarrow> bool" where
  "ripemd_ok E \<longleftrightarrow> (\<forall>b. length (ripemd160 (env_curve E) b) = 20)"

lemma keeps_hash [handlers]:
  "keeps opcodeSha1" "keeps opcodeSha256" "keeps opcodeHash256"
  by (rule keepsI, simp add: opcodeSha1_def opcodeSha256_def opcodeHash256_def hash_with_derived MaxScriptElementSize_def)+

lemma keeps_ripemd: "ripemd_ok E \<Longrightarrow> keeps (opcodeRipemd160 E)" "ripemd_ok E \<Longrightarrow> keeps (opcodeHash160 E)"
  by (rule keepsI, simp add: opcodeRipemd160_def opcodeHash160_def hash_with_derived ripemd_ok_def MaxScriptElementSize_def)+

lemma keeps_separator [handlers]: "keeps opcodeCodeSeparator"
  by (rule keepsI) (auto simp: opcodeCodeSeparator_def derived_def context_of_def items_def counters_def option.map_comp comp_def)

definition sigops :: "byte set" where
  "sigops = {OP_CHECKSIG, OP_CHECKSIGVERIFY, OP_CHECKMULTISIG, OP_CHECKMULTISIGVERIFY, OP_CHECKSIGADD}"

lemma opcodeArray_keeps:
  assumes "ripemd_ok E"
  shows "list_all (\<lambda>(op, h). op \<in> sigops \<or> keeps h) (opcodeArray E)"
  by (simp add: opcodeArray_def handlers keeps_ripemd [OF assms] sigops_def)

lemma opfunc_sigops:
  "opfunc E OP_CHECKSIG = opcodeCheckSig E OP_CHECKSIG" "opfunc E OP_CHECKSIGVERIFY = opcodeCheckSigVerify E OP_CHECKSIGVERIFY"
  "opfunc E OP_CHECKMULTISIG = opcodeCheckMultiSig E OP_CHECKMULTISIG"
  "opfunc E OP_CHECKMULTISIGVERIFY = opcodeCheckMultiSigVerify E OP_CHECKMULTISIGVERIFY"
  "opfunc E OP_CHECKSIGADD = opcodeCheckSigAdd E OP_CHECKSIGADD"
  by (simp_all add: opfunc_def opcodeArray_def)

lemma sigops_derived:
  assumes "ready vm" "derived vm 0 vm" "sig_ready vm" "op \<in> sigops"
  shows "res_ok (opfunc E op data vm) (derived vm 3)"
proof -
  have v: "res_ok r (derived vm 3) \<Longrightarrow> res_ok (vbind r (abstractVerify c)) (derived vm 3)" for r c
    by (erule res_ok_vbind) (rule abstractVerify_derived [OF assms(1)])
  show ?thesis using assms(4) unfolding sigops_def
    by (elim insertE emptyE; simp only: opfunc_sigops opcodeCheckSigVerify_def opcodeCheckMultiSigVerify_def;
        intro v opcodeCheckSig_keeps opcodeCheckMultiSig_keeps opcodeCheckSigAdd_keeps assms)
qed

text \<open>Every instruction keeps the limits and does not panic.\<close>

lemma opfunc_derived:
  assumes "ripemd_ok E" "ready vm" "derived vm 0 vm" "length (opt_data data) \<le> MaxScriptElementSize"
    "op \<in> sigops \<Longrightarrow> sig_ready vm"
  shows "res_ok (opfunc E op data vm) (derived vm 3)"
proof (cases "op \<in> sigops")
  case True
  then show ?thesis by (intro sigops_derived assms)
next
  case False
  have k: "keeps h \<Longrightarrow> res_ok (h op data vm) (derived vm 3)" for h using assms(2-4) unfolding keeps_def by blast
  have "keeps h" if "map_of (opcodeArray E) op = Some h" for h
    using opcodeArray_keeps [OF assms(1)] map_of_SomeD [OF that] False by (auto simp: list_all_iff)
  then show ?thesis unfolding opfunc_def
    by (auto intro: k handlers split: option.split)
qed

lemma count_operation_derived:
  assumes "derived vm 0 vm" "length data \<le> MaxScriptElementSize \<or> op \<le> OP_16"
  shows "res_ok (count_operation op data vm) (\<lambda>v. derived vm 0 v \<and> length data \<le> MaxScriptElementSize)"
proof -
  have "0 \<le> vm_numOps vm" using assms(1) by (simp add: derived_def counters_def)
  then show ?thesis
    using derived_numOps [OF assms(1), of "vm_numOps vm + 1"] assms by (auto simp: count_operation_def Let_def)
qed

lemma checkMinimalDataPush_ok: "checkMinimalDataPush op data \<noteq> Inl EnginePanic"
  by (simp add: checkMinimalDataPush_def Let_def)

lemma derived_trans: "derived vm 0 v \<Longrightarrow> derived v k w \<Longrightarrow> derived vm k w"
  by (auto simp: derived_def)

lemma derived_self: "derived vm k v \<Longrightarrow> derived v 0 v"
  by (simp add: derived_def)

lemma derived_ready: "ready vm \<Longrightarrow> derived vm 0 v \<Longrightarrow> ready v"
  using derived_context [of vm 0 v] by (auto simp: ready_def derived_def)

lemma executeOpcode_derived:
  assumes "ripemd_ok E" "ready vm" "derived vm 0 vm" "length (opt_data data) \<le> MaxScriptElementSize \<or> op \<le> OP_16"
    "op \<in> sigops \<Longrightarrow> sig_ready vm"
  shows "res_ok (executeOpcode E op data vm) (derived vm 3)"
proof -
  have "res_ok (if op = OP_CODESEPARATOR \<and> vm_taprootCtx v = None \<and> vm_witnessProgram v = None \<and> hasFlag v ScriptVerifyConstScriptCode
        then Inl (ScriptErr ErrCodeSeparator)
        else if \<not> isBranchExecuting v \<and> \<not> isOpcodeConditional op then Inr v
        else
          vbind (if verifyMinimalData (vm_dstack v) \<and> isBranchExecuting v \<and> op \<le> OP_PUSHDATA4
                 then checkMinimalDataPush op (opt_data data) else Inr ()) (\<lambda>_. opfunc E op data v)) (derived vm 3)"
    if v: "derived vm 0 v \<and> length (opt_data data) \<le> MaxScriptElementSize" for v
  proof -
    have "sig_ready v = sig_ready vm" using derived_context [OF conjunct1 [OF v]] by (simp add: sig_ready_def cache_ready_def)
    then have "res_ok (opfunc E op data v) (derived vm 3)"
      using res_ok_mono [OF opfunc_derived [OF assms(1) derived_ready [OF assms(2)] derived_self]] v assms(5) derived_trans by blast
    moreover have "derived vm 3 v" using v derived_mono by force
    ultimately show ?thesis by (auto intro!: res_ok_unit [where Q = "derived vm 3"] checkMinimalDataPush_ok)
  qed
  note step = res_ok_vbind [OF count_operation_derived [OF assms(3,4)] this]
  show ?thesis unfolding executeOpcode_def
    by (cases "isOpcodeDisabled op"; cases "isOpcodeAlwaysIllegal op") (simp_all only: if_True if_False res_ok_simps step)
qed

end
