(* ===== verification/EngineSafe.thy ===== *)
theory EngineSafe
  imports EngineKeep
begin

text \<open>
  The execution of scripts as a whole: it always ends, stays within the limits of the engine and does not
  panic. The steps of the engine keep an invariant that says which script runs, what is left of it, and
  that scripts run before the witness script of a witness program hold no signature instruction.
\<close>

section \<open>Scripts without signature instructions\<close>

definition quiet :: "bytes \<Rightarrow> bool" where
  "quiet s \<longleftrightarrow> (\<forall>(op, d) \<in> set (fst (parse_all s)). op \<notin> sigops)"

lemma Next_rest:
  assumes "Next t = (True, t')"
  shows "parse_op (drop (tk_offset t) (tk_script t)) = Some (tk_op t', tk_data t', drop (tk_offset t') (tk_script t'))"
proof -
  have nd: "\<not> Done t" using assms by (auto simp: Next_def)
  then obtain op d rest where p: "parse_op (drop (tk_offset t) (tk_script t)) = Some (op, d, rest)"
    and t: "t' = t\<lparr>tk_opcodePos := tk_opcodePos t + 1, tk_offset := length (tk_script t) - length rest, tk_op := op, tk_data := d\<rparr>"
    using assms Next_parse [OF nd] by (auto split: option.splits)
  define q where "q = take (tk_offset t) (tk_script t) @ tokenBytes op d"
  have "tk_script t = q @ rest"
    using parse_op_bytes [OF p] append_take_drop_id [of "tk_offset t" "tk_script t"] by (simp add: q_def)
  then have "drop (length (tk_script t) - length rest) (tk_script t) = rest" by simp
  then show ?thesis using p t by simp
qed

lemma parse_all_Some: "parse_op s = Some (op, d, rest) \<Longrightarrow> parse_all s = ((op, d) # fst (parse_all rest), snd (parse_all rest))"
  by (cases "s = []") (simp_all add: parse_all.simps [of s])

lemma quiet_Next:
  assumes "Next t = (True, t')" "quiet (drop (tk_offset t) (tk_script t))"
  shows "tk_op t' \<notin> sigops \<and> quiet (drop (tk_offset t') (tk_script t'))"
proof -
  from parse_all_Some [OF Next_rest [OF assms(1)]] assms(2) show ?thesis by (auto simp: quiet_def)
qed

lemma quiet_script_hash:
  assumes "isScriptHashScript s"
  shows "quiet s \<and> s \<noteq> [] \<and> s ! 0 = OP_HASH160"
proof -
  have l: "length s = 23" "s ! 0 = OP_HASH160" "s ! 1 = OP_DATA_20" "s ! 22 = OP_EQUAL"
    using assms by (auto simp: isScriptHashScript_def extractScriptHash_def split: if_splits)
  have "s = take 22 s @ [s ! 22]" using l(1) take_Suc_conv_app_nth [of 22 s] by simp
  moreover have "take 22 s = s ! 0 # s ! 1 # slice 2 22 s" using l(1) by (intro nth_equalityI) (auto simp: slice_def nth_Cons split: nat.splits)
  ultimately have s: "s = OP_HASH160 # OP_DATA_20 # slice 2 22 s @ [OP_EQUAL]" unfolding l by (metis append_Cons)
  have h: "length (slice 2 22 s) = 20" using l(1) by (simp add: slice_def)
  obtain h where h: "s = OP_HASH160 # OP_DATA_20 # h @ [OP_EQUAL]" "length h = 20" using s h by blast
  have "parse_all s = ([(OP_HASH160, None), (OP_DATA_20, Some h), (OP_EQUAL, None)], True)"
    unfolding h(1) using h(2) by (simp add: parse_all.simps opcode_length_def)
  then show ?thesis using h(1) by (simp add: quiet_def sigops_def)
qed

lemma quiet_witness_program:
  assumes "isWitnessProgramScript s"
  shows "quiet s \<and> 4 \<le> length s \<and> length s \<le> 42"
proof -
  obtain t1 t2 where l: "4 \<le> length s" "length s \<le> 42" and n: "Next (MakeScriptTokenizer 0 s) = (True, t1)" "Next t1 = (True, t2)"
    and t: "IsSmallInt (tk_op t1)" "Done t2" "tk_err t2 = None"
    using assms unfolding isWitnessProgramScript_def extractWitnessProgramInfo_def Let_def
    by (auto split: if_splits prod.splits)
  have p1: "parse_op s = Some (tk_op t1, tk_data t1, drop (tk_offset t1) s)" "tk_script t1 = s"
    using Next_rest [OF n(1)] Next_progress [OF n(1)] by (simp_all add: MakeScriptTokenizer_def)
  have p2: "parse_op (drop (tk_offset t1) s) = Some (tk_op t2, tk_data t2, drop (tk_offset t2) s)" "tk_script t2 = s"
    using Next_rest [OF n(2)] Next_progress [OF n(2)] p1(2) by simp_all
  have e: "drop (tk_offset t2) s = []" using t(2,3) p2(2) by (simp add: Done_def)
  have a: "parse_all s = ([(tk_op t1, tk_data t1), (tk_op t2, tk_data t2)], True)"
    using parse_all_Some [OF p1(1)] parse_all_Some [OF p2(1)] e by simp
  have s1: "tk_op t1 \<notin> sigops" "opcode_length (tk_op t1) = 1"
    using t(1) by (auto simp: IsSmallInt_def sigops_def opcode_length_def word_le_def)
  have "tk_op t2 \<notin> sigops"
  proof
    assume "tk_op t2 \<in> sigops"
    then have "opcode_length (tk_op t2) = 1" by (auto simp: sigops_def opcode_length_def)
    moreover obtain a r1 where "s = a # r1" using l by (cases s) auto
    moreover obtain b r2 where "drop (tk_offset t1) s = b # r2" using p2(1) by (cases "drop (tk_offset t1) s") auto
    ultimately have "length s = 2" using p1(1) p2(1) e s1(2) by (auto simp: Let_def split: if_splits)
    then show False using l by simp
  qed
  then show ?thesis using a s1 l by (simp add: quiet_def)
qed

section \<open>Witness programs\<close>

text \<open>
  What the caller supplies: an input of the transaction with its previous output, partial hashes when that
  input has a witness, and no more witness items than a transaction on the wire can have.
\<close>

abbreviation spending :: "Engine \<Rightarrow> TxIn" where
  "spending vm \<equiv> tx_TxIn (vm_tx vm) ! vm_txIdx vm"

definition supplied :: "Engine \<Rightarrow> bool" where
  "supplied vm \<longleftrightarrow> vm_version vm = 0 \<and> vm_txIdx vm < length (tx_TxIn (vm_tx vm)) \<and>
     vm_prevOutFetcher vm (ti_PreviousOutPoint (spending vm)) \<noteq> None \<and>
     (ti_Witness (spending vm) \<noteq> [] \<longrightarrow> vm_hashCache vm \<noteq> None) \<and> length (ti_Witness (spending vm)) \<le> 4000000"

text \<open>What the packages of the curve and of the hash document.\<close>

definition keys_reparse :: "'p curve \<Rightarrow> bool" where
  "keys_reparse C \<longleftrightarrow> (\<forall>b k. schnorr_ParsePubKey C b = Some k \<longrightarrow> schnorr_ParsePubKey C (SerializePubKey C k) \<noteq> None)"

definition env_ok :: "'p env \<Rightarrow> bool" where
  "env_ok E \<longleftrightarrow> ripemd_ok E \<and> keys_reparse (env_curve E)"

text \<open>
  The outcome of the checks of a witness program: the program is decided without a further script, or a
  script is added, with items within the limits, ready for signature instructions.
\<close>

definition decided :: "Engine \<Rightarrow> Engine \<Rightarrow> bool" where
  "decided vm v \<longleftrightarrow> (\<exists>s c g. v = vm\<lparr>vm_dstack := s, vm_taprootCtx := c, vm_sigCache := g\<rparr>) \<and> items v \<le> items vm"

definition adds_script :: "Engine \<Rightarrow> Engine \<Rightarrow> bool" where
  "adds_script vm v \<longleftrightarrow> (\<exists>d x c g. v = vm\<lparr>vm_scripts := vm_scripts vm @ [x], vm_dstack := (vm_dstack vm)\<lparr>stk := d\<rparr>, vm_taprootCtx := c, vm_sigCache := g\<rparr> \<and>
     length d \<le> 4000000) \<and> sig_ready v \<and> (isWitnessVersionActive 0 v \<or> isWitnessVersionActive 1 v)"

definition checked :: "Engine \<Rightarrow> Engine \<Rightarrow> bool" where
  "checked vm v \<longleftrightarrow> decided vm v \<or> adds_script vm v \<and> elems_ok (stk (vm_dstack v))"

lemma res_ok_eq: "m \<noteq> Inl EnginePanic \<Longrightarrow> (\<And>x. m = Inr x \<Longrightarrow> res_ok (f x) Q) \<Longrightarrow> res_ok (vbind m f) Q"
  by (cases m) (auto simp: res_ok_def)

lemma parses_ok: "parses v s \<noteq> Inl EnginePanic"
  by (simp add: parses_def split: option.split)

lemma verify_v0_ok:
  assumes "supplied vm" "w = ti_Witness (spending vm)" "isWitnessVersionActive 0 vm" "vm_taprootCtx vm = None"
  shows "res_ok (verify_v0 p w vm) (adds_script vm)"
proof -
  have a: "adds_script vm (run_script x d vm)" if "w \<noteq> []" "length d \<le> length w" for x d
    using assms that unfolding adds_script_def run_script_def setStack_def
    by (intro conjI exI [of _ d] exI [of _ x] exI [of _ "vm_taprootCtx vm"] exI [of _ "vm_sigCache vm"])
      (auto simp: sig_ready_def cache_ready_def supplied_def isWitnessVersionActive_def)
  show ?thesis unfolding verify_v0_def Let_def
    by (auto intro!: res_ok_unit [OF parses_ok] a split: option.split prod.split)
qed

lemma VerifyTaprootLeafCommitment_ok:
  assumes "keys_reparse C" "ParseControlBlock C b = Inr cb"
  shows "VerifyTaprootLeafCommitment C cb p s \<noteq> Inl EnginePanic"
proof -
  have "\<exists>b. schnorr_ParsePubKey C b = Some (InternalKey cb)"
    using assms(2) by (auto simp: ParseControlBlock_def split: if_splits option.splits)
  then show ?thesis using assms(1)
    by (auto simp: VerifyTaprootLeafCommitment_def ComputeTaprootOutputKey_def vbind_eq_Inl keys_reparse_def split: if_splits option.splits)
qed

lemma ParseControlBlock_ok: "ParseControlBlock C b \<noteq> Inl EnginePanic"
  by (simp add: ParseControlBlock_def split: option.split)

definition tap_outcome :: "Engine \<Rightarrow> bool \<times> Engine \<Rightarrow> bool" where
  "tap_outcome vm r \<longleftrightarrow> (case r of (continue, v) \<Rightarrow> if continue then adds_script vm v else decided vm v)"

lemma decided_refl: "decided vm vm"
  unfolding decided_def
  by (intro conjI exI [of _ "vm_dstack vm"] exI [of _ "vm_taprootCtx vm"] exI [of _ "vm_sigCache vm"]) simp_all

lemma decided_ctx: "decided vm (vm\<lparr>vm_taprootCtx := c\<rparr>)"
  unfolding decided_def
  by (intro conjI exI [of _ "vm_dstack vm"] exI [of _ c] exI [of _ "vm_sigCache vm"]) (simp_all add: items_def)

lemma succeed_ok:
  assumes "decided vm v"
  shows "res_ok (succeed v) (tap_outcome vm)"
proof -
  let ?f = "map_option (\<lambda>c. c\<lparr>tc_mustSucceed := True\<rparr>)"
  obtain s c g where v: "v = vm\<lparr>vm_dstack := s, vm_taprootCtx := c, vm_sigCache := g\<rparr>" "items v \<le> items vm"
    using assms by (auto simp: decided_def)
  have "v\<lparr>vm_taprootCtx := ?f (vm_taprootCtx v)\<rparr> = vm\<lparr>vm_dstack := s, vm_taprootCtx := ?f c, vm_sigCache := g\<rparr>" by (simp add: v)
  moreover have "items (v\<lparr>vm_taprootCtx := ?f (vm_taprootCtx v)\<rparr>) \<le> items vm" using v(2) by (simp add: items_def)
  ultimately have "decided vm (v\<lparr>vm_taprootCtx := ?f (vm_taprootCtx v)\<rparr>)" unfolding decided_def by blast
  then show ?thesis by (simp add: succeed_def tap_outcome_def)
qed

lemma verify_tapscript_ok:
  assumes "supplied vm" "isWitnessVersionActive 1 vm" "keys_reparse (env_curve E)" "2 \<le> length w" "length w \<le> 4000000"
    "ti_Witness (spending vm) \<noteq> []"
  shows "res_ok (verify_tapscript E p w (vm\<lparr>vm_taprootCtx := Some c\<rparr>)) (tap_outcome vm)"
proof -
  let ?v = "vm\<lparr>vm_taprootCtx := Some c\<rparr>"
  have a: "tap_outcome vm (True, run_script x d (?v\<lparr>vm_taprootCtx := Some c'\<rparr>))" if "length d \<le> length w" for x d c'
    using assms that unfolding tap_outcome_def adds_script_def run_script_def setStack_def
    by (auto simp: sig_ready_def cache_ready_def supplied_def isWitnessVersionActive_def
        intro!: exI [of _ d] exI [of _ x] exI [of _ "Some c'"] exI [of _ "vm_sigCache vm"])
  have s: "res_ok (succeed ?v) (tap_outcome vm)" by (rule succeed_ok [OF decided_ctx])
  have fin: "res_ok (if ScriptHasOpSuccess x
      then (if hasFlag ?v ScriptVerifyDiscourageOpSuccess then Inl (ScriptErr ErrDiscourageOpSuccess) else succeed ?v)
      else if lv \<noteq> BaseLeafVersion then
          (if hasFlag ?v ScriptVerifyDiscourageUpgradeableTaprootVersion
           then Inl (ScriptErr ErrDiscourageUpgradeableTaprootVersion) else succeed ?v)
      else vbind (parses (vm_version ?v) x) (\<lambda>_.
          let leafHash = TapLeaf_TapHash (NewBaseTapLeaf x);
              vm = ?v\<lparr>vm_taprootCtx := map_option (\<lambda>c. c\<lparr>tc_tapLeafHash := leafHash\<rparr>) (vm_taprootCtx ?v)\<rparr>
          in Inr (True, run_script x (take (length w - 2) w) vm))) (tap_outcome vm)" for x lv
    using s a [of "take (length w - 2) w"] by (auto simp: Let_def intro!: res_ok_unit [OF parses_ok])
  have nl: "(length w < 2) = False" using assms(4) by simp
  show ?thesis unfolding verify_tapscript_def
  proof (simp only: nl if_False, rule res_ok_eq [OF ParseControlBlock_ok])
    fix cb assume cb: "ParseControlBlock (env_curve E) (last w) = Inr cb"
    show "res_ok (let witnessScript = w ! (length w - 2) in
        vbind (VerifyTaprootLeafCommitment (env_curve E) cb p witnessScript) (\<lambda>_.
        if ScriptHasOpSuccess witnessScript then
          (if hasFlag ?v ScriptVerifyDiscourageOpSuccess then Inl (ScriptErr ErrDiscourageOpSuccess) else succeed ?v)
        else if cb_LeafVersion cb \<noteq> BaseLeafVersion then
          (if hasFlag ?v ScriptVerifyDiscourageUpgradeableTaprootVersion
           then Inl (ScriptErr ErrDiscourageUpgradeableTaprootVersion) else succeed ?v)
        else
          vbind (parses (vm_version ?v) witnessScript) (\<lambda>_.
          let leafHash = TapLeaf_TapHash (NewBaseTapLeaf witnessScript);
              vm = ?v\<lparr>vm_taprootCtx := map_option (\<lambda>c. c\<lparr>tc_tapLeafHash := leafHash\<rparr>) (vm_taprootCtx ?v)\<rparr>
          in Inr (True, run_script witnessScript (take (length w - 2) w) vm)))) (tap_outcome vm)"
      unfolding Let_def [of "w ! _"] by (rule res_ok_unit [OF VerifyTaprootLeafCommitment_ok [OF assms(3) cb]]) (rule fin)
  qed
qed

lemma taproot_digest_self:
  assumes "cache_ready v"
  shows "taproot_digest ht opts v \<noteq> Inl EnginePanic"
proof -
  obtain h where h: "vm_hashCache v = Some h" using assms by (auto simp: cache_ready_def)
  then show ?thesis using assms
    unfolding taproot_digest_def h option.case calcTaprootSignatureHashRaw_def Let_def
    by (auto simp: vbind_eq_Inl cache_ready_def split: if_splits option.splits)
qed

lemma taproot_self:
  assumes "cache_ready vm"
  shows "res_ok (taproot_Verify E t vm) (\<lambda>(r, v). \<exists>g. v = vm\<lparr>vm_sigCache := g\<rparr>)"
proof -
  have e: "\<exists>g. vm = vm\<lparr>vm_sigCache := g\<rparr>" by (rule exI [of _ "vm_sigCache vm"]) simp
  have "\<exists>g. snd (taproot_verifySig E t h vm) = vm\<lparr>vm_sigCache := g\<rparr>" for h
    using e by (auto simp: taproot_verifySig_def cached_verify_def split: option.split)
  then show ?thesis
    using taproot_digest_self [OF assms] e unfolding taproot_Verify_def with_digest_def
    by (auto split: sum.splits vmError.splits simp: split_beta)
qed

lemma decided_cache: "decided vm (vm\<lparr>vm_taprootCtx := c, vm_sigCache := g\<rparr>)"
  unfolding decided_def
  by (intro conjI exI [of _ "vm_dstack vm"] exI [of _ c] exI [of _ g]) (simp_all add: items_def)

lemma key_spend_ok:
  assumes "supplied vm" "ti_Witness (spending vm) \<noteq> []"
  shows "res_ok (vbind (VerifyTaprootKeySpend E p sig (vm\<lparr>vm_taprootCtx := c\<rparr>)) succeed) (tap_outcome vm)"
proof -
  let ?v = "vm\<lparr>vm_taprootCtx := c\<rparr>"
  have c: "cache_ready ?v" "txInput ?v \<noteq> Inl EnginePanic" using assms by (auto simp: cache_ready_def supplied_def txInput_def)
  have "res_ok (VerifyTaprootKeySpend E p sig ?v) (decided vm)"
    unfolding VerifyTaprootKeySpend_def Let_def
    by (rule res_ok_unit [OF c(2)], rule res_ok_unit [OF newTaprootSigVerifier_ok], rule res_ok_pair [OF taproot_self [OF c(1)]])
      (auto split: prod.splits intro: decided_cache)
  then show ?thesis by (rule res_ok_vbind) (rule succeed_ok)
qed

lemma verify_taproot_ok:
  assumes "supplied vm" "isWitnessVersionActive 1 vm" "keys_reparse (env_curve E)" "w = ti_Witness (spending vm)"
  shows "res_ok (verify_taproot E p w vm) (tap_outcome vm)"
proof (cases "\<not> hasFlag vm ScriptVerifyTaproot \<or> w = []")
  case True
  then show ?thesis by (auto simp: verify_taproot_def tap_outcome_def decided_refl)
next
  case False
  define w' where "w' = (if isAnnexedWitness w then butlast w else w)"
  define c where "c = (let c = newTaprootExecutionCtx (i32 (TxWitness_SerializeSize w)) in if isAnnexedWitness w then c\<lparr>tc_annex := Some (last w)\<rparr> else c)"
  have "0 < length w" "length w \<le> 4000000" using False assms(1,4) by (auto simp: supplied_def)
  then have l: "length w' \<noteq> 1 \<Longrightarrow> 2 \<le> length w'" "length w' \<le> 4000000"
    by (auto simp: w'_def isAnnexedWitness_def simp del: length_greater_0_conv split: if_splits)
  have "verify_taproot E p w vm = (if length w' = 1 then vbind (VerifyTaprootKeySpend E p (w' ! 0) (vm\<lparr>vm_taprootCtx := Some c\<rparr>)) succeed
      else verify_tapscript E p w' (vm\<lparr>vm_taprootCtx := Some c\<rparr>))"
    using False by (simp add: verify_taproot_def Let_def w'_def c_def)
  then show ?thesis
    using key_spend_ok [OF assms(1)] verify_tapscript_ok [OF assms(1-3)] l False assms(4) by auto
qed

lemma check_witness_stack_ok:
  "res_ok (check_witness_stack v) (\<lambda>v'. v' = v \<and> (isWitnessVersionActive 0 v \<or> isWitnessVersionActive 1 v \<longrightarrow> elems_ok (stk (vm_dstack v))))"
  by (auto simp: check_witness_stack_def Let_def elems_ok_def getStack_def BaseSegwitWitnessVersion_def TaprootWitnessVersion_def)

lemma accept_ok: "res_ok (witnessProgramAcceptStack vm) (decided vm)"
proof -
  let ?v = "vm\<lparr>vm_dstack := (vm_dstack vm)\<lparr>stk := take 1 (stk (vm_dstack vm))\<rparr>\<rparr>"
  have "decided vm ?v"
    unfolding decided_def
    by (intro conjI exI [of _ "vm_dstack ?v"] exI [of _ "vm_taprootCtx vm"] exI [of _ "vm_sigCache vm"]) (simp_all add: items_def)
  then show ?thesis by (simp add: witnessProgramAcceptStack_def Let_def)
qed

lemma verifyWitnessProgram_ok:
  assumes "env_ok E" "supplied vm" "vm_witnessProgram vm \<noteq> None" "vm_taprootCtx vm = None" "w = ti_Witness (spending vm)"
  shows "res_ok (verifyWitnessProgram E w vm) (checked vm)"
proof -
  have acc: "res_ok (vbind (witnessProgramAcceptStack vm) (\<lambda>vm. Inr (True, vm))) (\<lambda>(c, v). decided vm v \<or> c \<and> adds_script vm v)"
    by (rule res_ok_vbind [OF accept_ok]) simp
  have v0: "res_ok (vbind (verify_v0 p w vm) (\<lambda>vm. Inr (True, vm))) (\<lambda>(c, v). decided vm v \<or> c \<and> adds_script vm v)"
    if "isWitnessVersionActive 0 vm" for p
    by (rule res_ok_vbind [OF verify_v0_ok [OF assms(2,5) that assms(4)]]) simp
  have v1: "res_ok (verify_taproot E p w vm) (\<lambda>(c, v). decided vm v \<or> c \<and> adds_script vm v)" if "isWitnessVersionActive 1 vm" for p
    by (rule res_ok_mono [OF verify_taproot_ok [OF assms(2) that _ assms(5)]])
      (use assms(1) in \<open>auto simp: env_ok_def tap_outcome_def split: if_splits\<close>)
  have fin: "res_ok (if c then check_witness_stack v else Inr v) (checked vm)" if "decided vm v \<or> c \<and> adds_script vm v" for c v
    using that res_ok_mono [OF check_witness_stack_ok [of v], of "checked vm"] by (auto simp: checked_def adds_script_def)
  show ?thesis unfolding verifyWitnessProgram_def Let_def
    by (rule res_ok_pair [where P = "\<lambda>c v. decided vm v \<or> c \<and> adds_script vm v"])
      (use acc v0 v1 fin in \<open>auto simp: BaseSegwitWitnessVersion_def TaprootWitnessVersion_def\<close>)
qed

section \<open>The invariant\<close>

text \<open>Limits of a running engine. Only the items a witness brings can exceed the limit of the stacks, and only until the first step.\<close>

definition limits :: "Engine \<Rightarrow> bool" where
  "limits vm \<longleftrightarrow> elems_ok (stk (vm_dstack vm)) \<and> elems_ok (stk (vm_astack vm)) \<and> elems_ok (vm_savedFirstStack vm) \<and>
     counters vm \<and> int (length (vm_savedFirstStack vm)) \<le> MaxStackSize \<and>
     (int (items vm) \<le> MaxStackSize \<or> tk_offset (vm_tokenizer vm) = 0 \<and> 2 \<le> vm_scriptIdx vm \<and> items vm \<le> 4000000)"

text \<open>Which script runs, and where.\<close>

definition placed :: "Engine \<Rightarrow> bool" where
  "placed vm \<longleftrightarrow>
     (vm_scriptIdx vm \<le> 1 \<and> length (vm_scripts vm) = 2 \<or> vm_scriptIdx vm = 2 \<and> length (vm_scripts vm) = 3 \<or>
      vm_scriptIdx vm = 3 \<and> length (vm_scripts vm) = 4) \<and>
     tk_script (vm_tokenizer vm) = vm_scripts vm ! vm_scriptIdx vm \<and>
     tk_offset (vm_tokenizer vm) \<le> length (tk_script (vm_tokenizer vm)) \<and>
     (tk_offset (vm_tokenizer vm) = 0 \<longrightarrow> vm_condStack vm = []) \<and>
     (vm_bip16 vm \<longrightarrow> isScriptHashScript (vm_scripts vm ! 1)) \<and>
     (vm_bip16 vm \<and> vm_scriptIdx vm = 1 \<and> vm_savedFirstStack vm = [] \<longrightarrow>
        tk_offset (vm_tokenizer vm) = 0 \<and> stk (vm_dstack vm) = [])"

text \<open>A witness program that was found but not yet checked: what runs before it holds no signature instruction.\<close>

definition push_of :: "bytes \<Rightarrow> bytes" where
  "push_of r = word_of_int (int (length r)) # r"

definition program_pending :: "Engine \<Rightarrow> bool" where
  "program_pending vm \<longleftrightarrow> vm_witnessProgram vm \<noteq> None \<and> vm_taprootCtx vm = None \<and>
     quiet (drop (tk_offset (vm_tokenizer vm)) (tk_script (vm_tokenizer vm))) \<and>
     (if vm_bip16 vm then
        vm_scriptIdx vm = 0 \<and> tk_offset (vm_tokenizer vm) = 0 \<and> stk (vm_dstack vm) = [] \<and>
          (\<exists>r. isWitnessProgramScript r \<and> vm_scripts vm ! 0 = push_of r) \<or>
        vm_scriptIdx vm = 1 \<and> (\<exists>r. isWitnessProgramScript r \<and> vm_savedFirstStack vm = [r]) \<or> vm_scriptIdx vm = 2
      else vm_scriptIdx vm = 1)"

definition phase :: "Engine \<Rightarrow> bool" where
  "phase vm \<longleftrightarrow> vm_witnessProgram vm = None \<and> vm_taprootCtx vm = None \<or> program_pending vm \<or>
     sig_ready vm \<and> vm_witnessProgram vm \<noteq> None \<and> (vm_scriptIdx vm = 3 \<or> vm_scriptIdx vm = 2 \<and> \<not> vm_bip16 vm)"

definition engine_ok :: "Engine \<Rightarrow> bool" where
  "engine_ok vm \<longleftrightarrow> supplied vm \<and> limits vm \<and> placed vm \<and> phase vm"

section \<open>Running one instruction\<close>

lemma Next_data:
  assumes "Next t = (True, t')"
  shows "length (opt_data (tk_data t')) \<le> MaxScriptElementSize \<or> tk_op t' \<le> OP_16"
proof (cases "tk_data t'")
  case (Some d)
  obtain op rest where s: "drop (tk_offset t) (tk_script t) = op # rest"
    using Next_rest [OF assms] by (cases "drop (tk_offset t) (tk_script t)") auto
  then have "opcode_length op \<noteq> 1" "tk_op t' = op"
    using Next_rest [OF assms] Some by (auto simp: Let_def split: if_splits)
  then show ?thesis by (auto simp: opcode_length_def word_le_def split: if_splits)
qed simp

lemma start_ready:
  assumes "engine_ok vm" "Next (vm_tokenizer vm) = (True, t)"
  shows "ready (vm\<lparr>vm_tokenizer := t\<rparr>)" "derived (vm\<lparr>vm_tokenizer := t\<rparr>) 0 (vm\<lparr>vm_tokenizer := t\<rparr>)"
    "tk_op t \<in> sigops \<Longrightarrow> sig_ready (vm\<lparr>vm_tokenizer := t\<rparr>)"
proof -
  note n = Next_progress [OF assms(2)]
  show "ready (vm\<lparr>vm_tokenizer := t\<rparr>)"
    using assms(1) n by (auto simp: engine_ok_def supplied_def limits_def placed_def ready_def items_def MaxStackSize_def)
  show "derived (vm\<lparr>vm_tokenizer := t\<rparr>) 0 (vm\<lparr>vm_tokenizer := t\<rparr>)"
    using assms(1) n by (auto simp: engine_ok_def limits_def derived_def counters_def)
  assume "tk_op t \<in> sigops"
  then have "\<not> program_pending vm" using quiet_Next [OF assms(2)] by (auto simp: program_pending_def)
  then show "sig_ready (vm\<lparr>vm_tokenizer := t\<rparr>)"
    using assms(1) by (auto simp: engine_ok_def phase_def sig_ready_def cache_ready_def)
qed

lemma instruction_ok:
  assumes "env_ok E" "engine_ok vm" "Next (vm_tokenizer vm) = (True, t)"
  shows "res_ok (executeOpcode E (tk_op t) (tk_data t) (vm\<lparr>vm_tokenizer := t\<rparr>)) (derived (vm\<lparr>vm_tokenizer := t\<rparr>) 3)"
  using assms(1) by (intro executeOpcode_derived start_ready [OF assms(2,3)] Next_data [OF assms(3)]) (auto simp: env_ok_def)

lemma executed:
  assumes "executeOpcode E op d vm = Inr v" "vm_condStack vm = []"
  shows "\<exists>n. opfunc E op d (vm\<lparr>vm_numOps := n\<rparr>) = Inr v"
proof -
  obtain w where w: "count_operation op (opt_data d) vm = Inr w" and x: "vm_condStack w = [] \<Longrightarrow> opfunc E op d w = Inr v"
    using assms(1) by (auto simp: executeOpcode_def vbind_eq_Inr isBranchExecuting_def split: if_splits)
  then have "\<exists>n. w = vm\<lparr>vm_numOps := n\<rparr>"
    by (auto simp: count_operation_def Let_def split: if_splits intro: exI [of _ "vm_numOps vm"])
  then show ?thesis using x assms(2) by auto
qed

text \<open>The hash of a pay-to-script-hash script fails on an empty stack.\<close>

lemma hash160_empty:
  assumes "stk (vm_dstack vm) = []" "vm_condStack vm = []"
  shows "executeOpcode E OP_HASH160 d vm \<noteq> Inr v"
proof
  assume "executeOpcode E OP_HASH160 d vm = Inr v"
  then obtain n where "opfunc E OP_HASH160 d (vm\<lparr>vm_numOps := n\<rparr>) = Inr v" using executed assms(2) by blast
  moreover have "opfunc E OP_HASH160 = opcodeHash160 E OP_HASH160" by (simp add: opfunc_def opcodeArray_def)
  ultimately show False using assms(1)
    by (simp add: opcodeHash160_def hash_with_def pop_with_def PopByteArray_Nil)
qed

lemma push_program:
  assumes "isWitnessProgramScript r" "Next t = (True, t')" "tk_script t = push_of r" "tk_offset t = 0"
    "executeOpcode E (tk_op t') (tk_data t') vm = Inr v" "vm_condStack vm = []"
  shows "Done t' \<and> stk (vm_dstack v) = stk (vm_dstack vm) @ [r]"
proof -
  have l: "4 \<le> length r" "length r \<le> 42" using quiet_witness_program [OF assms(1)] by auto
  have "uint (word_of_int (int (length r)) :: byte) = int (length r) mod 2 ^ 8" by (subst uint_word_of_int) simp
  then have u: "uint (word_of_int (int (length r)) :: byte) = int (length r)" using l by simp
  let ?op = "word_of_int (int (length r)) :: byte"
  have ol: "opcode_length ?op = 1 + int (length r)" using u l by (simp add: opcode_length_def)
  have "parse_op (push_of r) = Some (?op, Some r, [])" using ol l by (auto simp: push_of_def Let_def)
  then have t: "tk_op t' = ?op" "tk_data t' = Some r" "drop (tk_offset t') (tk_script t') = []"
    using Next_rest [OF assms(2)] assms(3,4) by auto
  obtain n where n: "opfunc E ?op (Some r) (vm\<lparr>vm_numOps := n\<rparr>) = Inr v" using executed [OF assms(5,6)] t by auto
  have "opfunc E ?op = opcodePushData ?op" using u l by (simp add: opfunc_def word_le_def)
  then have "stk (vm_dstack v) = stk (vm_dstack vm) @ [r]"
    using n by (auto simp: opcodePushData_def push_bytes_vm_def PushByteArray_def)
  then show ?thesis using t(3) by (simp add: Done_def)
qed

section \<open>Moving on to the next script\<close>

lemma drop_all_stk: "small s \<Longrightarrow> stk (drop_all s) = [] \<and> verifyMinimalData (drop_all s) = verifyMinimalData s"
  using stack_DropN [of s "int (length (stk s))"] stack_size [of s] by (auto simp: drop_all_def Depth_def beneath_def)

text \<open>The state when a new script is about to be chosen.\<close>

definition idle :: "Engine \<Rightarrow> bool" where
  "idle u \<longleftrightarrow> supplied u \<and> elems_ok (stk (vm_dstack u)) \<and> stk (vm_astack u) = [] \<and> elems_ok (vm_savedFirstStack u) \<and>
     int (length (vm_savedFirstStack u)) \<le> MaxStackSize \<and> vm_numOps u = 0 \<and> vm_condStack u = [] \<and>
     (vm_bip16 u \<longrightarrow> isScriptHashScript (vm_scripts u ! 1))"

definition moved :: "nat \<Rightarrow> Engine \<Rightarrow> bool" where
  "moved i u \<longleftrightarrow> (case next_script u of (done, x) \<Rightarrow>
     if done then items x \<le> 4000000 else engine_ok x \<and> i < vm_scriptIdx x)"

text \<open>No script is left.\<close>

lemma moved_done:
  assumes "length (vm_scripts u) \<le> vm_scriptIdx u" "items u \<le> 4000000"
  shows "moved i u"
  using assms by (simp add: moved_def next_script_def Let_def items_def)

text \<open>The last script starts, unless it is empty.\<close>

lemma moved_start:
  assumes "idle u" "vm_scriptIdx u + 1 = length (vm_scripts u)" "1 \<le> vm_scriptIdx u" "vm_scriptIdx u \<le> 3" "i < vm_scriptIdx u"
    "int (length (stk (vm_dstack u))) \<le> MaxStackSize \<or> 2 \<le> vm_scriptIdx u \<and> length (stk (vm_dstack u)) \<le> 4000000"
    "vm_bip16 u \<and> vm_scriptIdx u = 1 \<and> vm_savedFirstStack u = [] \<Longrightarrow> stk (vm_dstack u) = []"
    "vm_witnessProgram u = None \<and> vm_taprootCtx u = None \<or>
     vm_witnessProgram u \<noteq> None \<and> vm_taprootCtx u = None \<and> quiet (last (vm_scripts u)) \<and>
       (if vm_bip16 u then vm_scriptIdx u = 1 \<and> (\<exists>r. isWitnessProgramScript r \<and> vm_savedFirstStack u = [r]) \<or> vm_scriptIdx u = 2
        else vm_scriptIdx u = 1) \<or>
     sig_ready u \<and> vm_witnessProgram u \<noteq> None \<and> (vm_scriptIdx u = 3 \<or> vm_scriptIdx u = 2 \<and> \<not> vm_bip16 u)"
  shows "moved i u"
proof -
  let ?x = "u\<lparr>vm_lastCodeSep := 0, vm_tokenizer := MakeScriptTokenizer (vm_version u) (vm_scripts u ! vm_scriptIdx u)\<rparr>"
  have d: "items u \<le> 4000000" using assms(1,6) by (auto simp: items_def idle_def MaxStackSize_def)
  have n: "next_script u = (if vm_scripts u ! vm_scriptIdx u = [] then (True, u\<lparr>vm_scriptIdx := vm_scriptIdx u + 1, vm_lastCodeSep := 0\<rparr>) else (False, ?x))"
    using assms(2) by (simp add: next_script_def Let_def)
  have l: "vm_scripts u ! vm_scriptIdx u = last (vm_scripts u)" using assms(2) by (cases "vm_scripts u" rule: rev_cases) auto
  have "supplied ?x" using assms(1) by (simp add: idle_def supplied_def)
  moreover have "limits ?x" using assms(1,6) by (auto simp: limits_def idle_def items_def counters_def MakeScriptTokenizer_def elems_ok_def MaxOpsPerScript_def)
  moreover have "placed ?x" using assms by (auto simp: placed_def idle_def MakeScriptTokenizer_def)
  moreover have "phase ?x" using assms(8) l by (auto simp: phase_def program_pending_def MakeScriptTokenizer_def sig_ready_def cache_ready_def split: if_splits)
  ultimately have "engine_ok ?x" by (simp add: engine_ok_def)
  then show ?thesis using d assms(5) by (auto simp: moved_def n items_def)
qed

lemma CheckErrorCondition_ok:
  assumes "small (vm_dstack w)"
  shows "res_ok (CheckErrorCondition f w) (\<lambda>v. \<exists>s. v = w\<lparr>vm_dstack := s\<rparr>)"
proof -
  have e: "\<exists>s. w = w\<lparr>vm_dstack := s\<rparr>" by (rule exI [of _ "vm_dstack w"]) simp
  have "res_ok (pop_bool_vm w) (\<lambda>(b, v). \<exists>s. v = w\<lparr>vm_dstack := s\<rparr>)"
    unfolding pop_with_def PopBool_def
  proof (rule res_ok_pair [OF res_ok_pair [OF PopByteArray_cases [OF assms], where Q = "\<lambda>(b, s). True"]])
    show "res_ok (Inr (b, w\<lparr>vm_dstack := s\<rparr>)) (\<lambda>(b, v). \<exists>s. v = w\<lparr>vm_dstack := s\<rparr>)" for b :: bool and s
      unfolding res_ok_def sum.simps prod.case by (intro exI [of _ s]) (rule refl)
  qed simp
  then have "res_ok (vbind (pop_bool_vm w) (\<lambda>(b, v). if \<not> b then Inl (ScriptErr ErrEvalFalse) else Inr v)) (\<lambda>v. \<exists>s. v = w\<lparr>vm_dstack := s\<rparr>)"
    by (rule res_ok_pair) (simp add: res_ok_def)
  then show ?thesis using e by (simp only: CheckErrorCondition_def res_ok_def split: if_split sum.split) simp
qed

text \<open>The state when a script has ended.\<close>

definition ended :: "Engine \<Rightarrow> bool" where
  "ended w \<longleftrightarrow> idle w \<and> int (length (stk (vm_dstack w))) \<le> MaxStackSize \<and>
     (vm_scriptIdx w \<le> 1 \<and> length (vm_scripts w) = 2 \<or> vm_scriptIdx w = 2 \<and> length (vm_scripts w) = 3 \<or>
      vm_scriptIdx w = 3 \<and> length (vm_scripts w) = 4) \<and>
     (vm_bip16 w \<and> vm_scriptIdx w = 1 \<longrightarrow> vm_savedFirstStack w \<noteq> []) \<and>
     (vm_witnessProgram w = None \<and> vm_taprootCtx w = None \<or>
      vm_witnessProgram w \<noteq> None \<and> vm_taprootCtx w = None \<and>
        (if vm_bip16 w then
           vm_scriptIdx w = 0 \<and> (\<exists>r. isWitnessProgramScript r \<and> stk (vm_dstack w) = [r]) \<or>
           vm_scriptIdx w = 1 \<and> (\<exists>r. isWitnessProgramScript r \<and> vm_savedFirstStack w = [r]) \<or> vm_scriptIdx w = 2
         else vm_scriptIdx w = 1) \<or>
      vm_witnessProgram w \<noteq> None \<and> (vm_scriptIdx w = 3 \<or> vm_scriptIdx w = 2 \<and> \<not> vm_bip16 w))"

lemma idle_next:
  assumes "idle w" "int (length (stk (vm_dstack w))) \<le> MaxStackSize"
  shows "idle (w\<lparr>vm_scriptIdx := n\<rparr>)" "idle (w\<lparr>vm_scriptIdx := n, vm_savedFirstStack := getStack (vm_dstack w)\<rparr>)"
    "items (w\<lparr>vm_scriptIdx := n\<rparr>) \<le> 4000000"
  using assms by (auto simp: idle_def supplied_def getStack_def items_def MaxStackSize_def)

lemma witness_moved:
  assumes "env_ok E" "ended w" "vm_witnessProgram w \<noteq> None" "vm_taprootCtx w = None"
    "vm_scriptIdx w = 1 \<and> \<not> vm_bip16 w \<or> vm_scriptIdx w = 2 \<and> vm_bip16 w"
  shows "res_ok (vbind (txInput (w\<lparr>vm_scriptIdx := vm_scriptIdx w + 1\<rparr>))
      (\<lambda>txIn. verifyWitnessProgram E (ti_Witness txIn) (w\<lparr>vm_scriptIdx := vm_scriptIdx w + 1\<rparr>))) (moved (vm_scriptIdx w))"
proof -
  let ?w = "w\<lparr>vm_scriptIdx := vm_scriptIdx w + 1\<rparr>"
  have i: "idle w" "int (length (stk (vm_dstack w))) \<le> MaxStackSize" "length (vm_scripts w) = vm_scriptIdx w + 1"
    using assms(2,5) by (auto simp: ended_def)
  have s: "supplied ?w" "idle ?w" "items ?w \<le> 4000000" using idle_next [OF i(1,2)] by (auto simp: idle_def)
  have t: "txInput ?w = Inr (spending ?w)" using s(1) by (simp add: txInput_def supplied_def)
  have "moved (vm_scriptIdx w) v" if c: "checked ?w v" for v
  proof (cases "decided ?w v")
    case True
    then have "items v \<le> 4000000" "vm_scripts v = vm_scripts w" "vm_scriptIdx v = vm_scriptIdx w + 1"
      using s(3) by (auto simp: decided_def)
    then show ?thesis using i(3) by (intro moved_done) simp_all
  next
    case False
    then have a: "adds_script ?w v" "elems_ok (stk (vm_dstack v))" using c by (auto simp: checked_def)
    then obtain d x c g where v: "v = ?w\<lparr>vm_scripts := vm_scripts ?w @ [x], vm_dstack := (vm_dstack ?w)\<lparr>stk := d\<rparr>, vm_taprootCtx := c, vm_sigCache := g\<rparr>"
      "length d \<le> 4000000" "sig_ready v" unfolding adds_script_def by blast
    have "idle v" using s(2) a(2) i(3) assms(5) by (auto simp: idle_def supplied_def v(1) nth_append)
    then show ?thesis
      by (rule moved_start) (use v i(3) assms(3,5) in auto)
  qed
  then show ?thesis unfolding t vbind_Inr
    using res_ok_mono [OF verifyWitnessProgram_ok [OF assms(1) s(1), of "ti_Witness (spending ?w)"]] assms(3,4) by auto
qed

lemma redeem_moved:
  assumes "ended w" "vm_scriptIdx w = 1" "vm_bip16 w"
  shows "res_ok (vbind (CheckErrorCondition False (w\<lparr>vm_scriptIdx := vm_scriptIdx w + 1\<rparr>)) (\<lambda>vm.
        if vm_savedFirstStack vm = [] then Inl EnginePanic
        else
          let script = last (vm_savedFirstStack vm) in
          vbind (parses (vm_version vm) script) (\<lambda>_. Inr (run_script script (butlast (vm_savedFirstStack vm)) vm)))) (moved (vm_scriptIdx w))"
proof (rule res_ok_vbind [OF CheckErrorCondition_ok])
  let ?w = "w\<lparr>vm_scriptIdx := vm_scriptIdx w + 1\<rparr>"
  have i: "idle w" "int (length (stk (vm_dstack w))) \<le> MaxStackSize" "length (vm_scripts w) = 2" "vm_savedFirstStack w \<noteq> []"
    using assms by (auto simp: ended_def)
  then show "small (vm_dstack ?w)" by (simp add: MaxStackSize_def)
  fix v assume "\<exists>s. v = ?w\<lparr>vm_dstack := s\<rparr>"
  then obtain s where v: "v = ?w\<lparr>vm_dstack := s\<rparr>" by blast
  let ?x = "last (vm_savedFirstStack w)"
  let ?u = "run_script ?x (butlast (vm_savedFirstStack w)) v"
  have b: "length (butlast (vm_savedFirstStack w)) \<le> length (vm_savedFirstStack w)" by simp
  have "idle ?u"
    using i by (auto simp: idle_def supplied_def v run_script_def setStack_def elems_ok_def nth_append dest: in_set_butlastD)
  then have "moved 1 ?u"
  proof (rule moved_start)
    show "int (length (stk (vm_dstack ?u))) \<le> MaxStackSize \<or> 2 \<le> vm_scriptIdx ?u \<and> length (stk (vm_dstack ?u)) \<le> 4000000"
      using i(1) b by (auto simp: idle_def run_script_def setStack_def)
    show "vm_witnessProgram ?u = None \<and> vm_taprootCtx ?u = None \<or>
     vm_witnessProgram ?u \<noteq> None \<and> vm_taprootCtx ?u = None \<and> quiet (last (vm_scripts ?u)) \<and>
       (if vm_bip16 ?u then vm_scriptIdx ?u = 1 \<and> (\<exists>r. isWitnessProgramScript r \<and> vm_savedFirstStack ?u = [r]) \<or> vm_scriptIdx ?u = 2
        else vm_scriptIdx ?u = 1) \<or>
     sig_ready ?u \<and> vm_witnessProgram ?u \<noteq> None \<and> (vm_scriptIdx ?u = 3 \<or> vm_scriptIdx ?u = 2 \<and> \<not> vm_bip16 ?u)"
      using assms quiet_witness_program by (auto simp: ended_def run_script_def v)
  qed (use i(3) assms in \<open>auto simp: run_script_def v\<close>)
  then show "res_ok (if vm_savedFirstStack v = [] then Inl EnginePanic
        else
          let script = last (vm_savedFirstStack v) in
          vbind (parses (vm_version v) script) (\<lambda>_. Inr (run_script script (butlast (vm_savedFirstStack v)) v))) (moved (vm_scriptIdx w))"
    using i(4) assms(2) by (auto simp: v Let_def intro!: res_ok_unit [OF parses_ok])
qed

lemma finish_ok:
  assumes "env_ok E" "ended w"
  shows "res_ok (finish_script E w) (moved (vm_scriptIdx w))"
proof -
  have i: "idle w" "int (length (stk (vm_dstack w))) \<le> MaxStackSize" using assms(2) by (auto simp: ended_def)
  note n = idle_next [OF i]
  consider (sig) "vm_scriptIdx w = 0" "vm_bip16 w" | (redeem) "vm_scriptIdx w = 1" "vm_bip16 w"
    | (program) "vm_witnessProgram w \<noteq> None" "vm_scriptIdx w = 1 \<and> \<not> vm_bip16 w \<or> vm_scriptIdx w = 2 \<and> vm_bip16 w"
    | (first) "vm_scriptIdx w = 0" "\<not> vm_bip16 w"
    | (last) "vm_scriptIdx w \<noteq> 0" "vm_scriptIdx w = 1 \<longrightarrow> \<not> vm_bip16 w \<and> vm_witnessProgram w = None"
        "vm_scriptIdx w = 2 \<longrightarrow> \<not> (vm_bip16 w \<and> vm_witnessProgram w \<noteq> None)"
    by (cases "vm_scriptIdx w = 0"; cases "vm_scriptIdx w = 1"; cases "vm_bip16 w"; cases "vm_witnessProgram w = None") auto
  then show ?thesis
  proof cases
    case sig
    let ?u = "w\<lparr>vm_scriptIdx := vm_scriptIdx w + 1, vm_savedFirstStack := getStack (vm_dstack w)\<rparr>"
    have l: "length (vm_scripts w) = 2" using assms(2) sig by (auto simp: ended_def)
    then have "last (vm_scripts w) = vm_scripts w ! 1" using last_conv_nth [of "vm_scripts w"] by fastforce
    moreover have "quiet (vm_scripts w ! 1)" using quiet_script_hash i(1) sig by (auto simp: idle_def)
    ultimately have "moved 0 ?u"
      by (intro moved_start n(2)) (use assms(2) sig l i(2) in \<open>auto simp: ended_def getStack_def\<close>)
    then show ?thesis using sig by (simp add: finish_script_def)
  next
    case redeem
    then show ?thesis using redeem_moved [OF assms(2) redeem] by (simp add: finish_script_def)
  next
    case program
    then have "vm_taprootCtx w = None" using assms(2) by (auto simp: ended_def)
    then show ?thesis using program witness_moved [OF assms(1,2) program(1) _ program(2)] by (auto simp: finish_script_def Let_def)
  next
    case first
    then have "moved 0 (w\<lparr>vm_scriptIdx := vm_scriptIdx w + 1\<rparr>)"
      by (intro moved_start n(1)) (use assms(2) i(2) in \<open>auto simp: ended_def\<close>)
    then show ?thesis using first by (simp add: finish_script_def)
  next
    case last
    then have "moved (vm_scriptIdx w) (w\<lparr>vm_scriptIdx := vm_scriptIdx w + 1\<rparr>)"
      by (intro moved_done n(3)) (use assms(2) in \<open>auto simp: ended_def\<close>)
    then show ?thesis using last by (auto simp: finish_script_def)
  qed
qed

section \<open>One step\<close>

lemma derived_fields:
  assumes "derived vm k v"
  shows "vm_version v = vm_version vm" "vm_bip16 v = vm_bip16 vm" "vm_savedFirstStack v = vm_savedFirstStack vm"
  using assms by (auto simp: derived_def context_of_def)

lemma supplied_derived: "supplied vm \<Longrightarrow> derived (vm\<lparr>vm_tokenizer := t\<rparr>) k v \<Longrightarrow> supplied v"
  using derived_context [of "vm\<lparr>vm_tokenizer := t\<rparr>" k v] derived_fields [of "vm\<lparr>vm_tokenizer := t\<rparr>" k v] by (simp add: supplied_def)

text \<open>The saved stack of a pay-to-script-hash output is not empty once its script has run an instruction.\<close>

lemma saved_after:
  assumes "engine_ok vm" "Next (vm_tokenizer vm) = (True, t)" "executeOpcode E (tk_op t) (tk_data t) (vm\<lparr>vm_tokenizer := t\<rparr>) = Inr v"
    "vm_bip16 vm" "vm_scriptIdx vm = 1"
  shows "vm_savedFirstStack vm \<noteq> []"
proof
  assume "vm_savedFirstStack vm = []"
  then have p: "tk_offset (vm_tokenizer vm) = 0" "stk (vm_dstack vm) = []" "vm_condStack vm = []" "isScriptHashScript (vm_scripts vm ! 1)"
    "tk_script (vm_tokenizer vm) = vm_scripts vm ! 1"
    using assms(1,4,5) by (auto simp: engine_ok_def placed_def)
  obtain s where s: "vm_scripts vm ! 1 = OP_HASH160 # s"
    using quiet_script_hash [OF p(4)] by (cases "vm_scripts vm ! 1") auto
  have "opcode_length OP_HASH160 = 1" by (simp add: opcode_length_def)
  then have "tk_op t = OP_HASH160" using Next_rest [OF assms(2)] p(1,5) s by (simp add: Let_def)
  then show False using assms(3) hash160_empty [of "vm\<lparr>vm_tokenizer := t\<rparr>"] p by auto
qed

definition program_after :: "Engine \<Rightarrow> bool" where
  "program_after v \<longleftrightarrow> vm_witnessProgram v \<noteq> None \<and> vm_taprootCtx v = None \<and>
     quiet (drop (tk_offset (vm_tokenizer v)) (tk_script (vm_tokenizer v))) \<and>
     (if vm_bip16 v then
        vm_scriptIdx v = 0 \<and> Done (vm_tokenizer v) \<and> (\<exists>r. isWitnessProgramScript r \<and> stk (vm_dstack v) = [r]) \<or>
        vm_scriptIdx v = 1 \<and> (\<exists>r. isWitnessProgramScript r \<and> vm_savedFirstStack v = [r]) \<or> vm_scriptIdx v = 2
      else vm_scriptIdx v = 1)"

lemma phase_after:
  assumes "engine_ok vm" "Next (vm_tokenizer vm) = (True, t)" "executeOpcode E (tk_op t) (tk_data t) (vm\<lparr>vm_tokenizer := t\<rparr>) = Inr v"
    "derived (vm\<lparr>vm_tokenizer := t\<rparr>) 3 v"
  shows "vm_witnessProgram v = None \<and> vm_taprootCtx v = None \<or> program_after v \<or>
     sig_ready v \<and> vm_witnessProgram v \<noteq> None \<and> (vm_scriptIdx v = 3 \<or> vm_scriptIdx v = 2 \<and> \<not> vm_bip16 v)"
proof -
  note c = derived_context [OF assms(4)] derived_fields [OF assms(4)]
  have "program_after v" if p: "program_pending vm"
  proof -
    have "Done t \<and> stk (vm_dstack v) = [r]"
      if "vm_scriptIdx vm = 0" "tk_offset (vm_tokenizer vm) = 0" "stk (vm_dstack vm) = []" "isWitnessProgramScript r" "vm_scripts vm ! 0 = push_of r" for r
    proof -
      have "vm_condStack vm = []" "tk_script (vm_tokenizer vm) = push_of r" using assms(1) that by (auto simp: engine_ok_def placed_def)
      then show ?thesis using push_program [OF that(4) assms(2) _ that(2) assms(3)] that(3) by simp
    qed
    then show ?thesis using p quiet_Next [OF assms(2)] c
      by (auto simp: program_pending_def program_after_def split: if_splits)
  qed
  then show ?thesis using assms(1) c by (auto simp: engine_ok_def phase_def sig_ready_def cache_ready_def)
qed

lemma continuing:
  assumes "engine_ok vm" "Next (vm_tokenizer vm) = (True, t)" "executeOpcode E (tk_op t) (tk_data t) (vm\<lparr>vm_tokenizer := t\<rparr>) = Inr v"
    "derived (vm\<lparr>vm_tokenizer := t\<rparr>) 3 v" "int (items v) \<le> MaxStackSize" "\<not> Done (vm_tokenizer v)"
  shows "engine_ok (v\<lparr>vm_opcodeIdx := k\<rparr>)"
proof -
  let ?u = "v\<lparr>vm_opcodeIdx := k\<rparr>"
  note c = derived_context [OF assms(4)] derived_fields [OF assms(4)] and n = Next_progress [OF assms(2)]
  have "supplied ?u" using supplied_derived [OF _ assms(4)] assms(1) by (simp add: engine_ok_def supplied_def)
  moreover have "limits ?u"
    using assms(1,4,5) c by (auto simp: engine_ok_def limits_def derived_def items_def counters_def)
  moreover have "placed ?u"
    using assms(1) c n saved_after [OF assms(1-3)] by (auto simp: engine_ok_def placed_def)
  moreover have "phase ?u"
    using phase_after [OF assms(1-4)] assms(6)
    by (auto simp: phase_def program_after_def program_pending_def sig_ready_def cache_ready_def split: if_splits)
  ultimately show ?thesis by (simp add: engine_ok_def)
qed

lemma ending:
  assumes "engine_ok vm" "Next (vm_tokenizer vm) = (True, t)" "executeOpcode E (tk_op t) (tk_data t) (vm\<lparr>vm_tokenizer := t\<rparr>) = Inr v"
    "derived (vm\<lparr>vm_tokenizer := t\<rparr>) 3 v" "int (items v) \<le> MaxStackSize" "vm_condStack v = []"
  shows "ended (v\<lparr>vm_opcodeIdx := k, vm_astack := drop_all (vm_astack v), vm_numOps := 0, vm_opcodeIdx := 0\<rparr>)"
proof -
  let ?u = "v\<lparr>vm_opcodeIdx := k, vm_astack := drop_all (vm_astack v), vm_numOps := 0, vm_opcodeIdx := 0\<rparr>"
  note c = derived_context [OF assms(4)] derived_fields [OF assms(4)]
  have m: "int (length (stk (vm_dstack v))) \<le> MaxStackSize" "int (length (stk (vm_astack v))) \<le> MaxStackSize"
    using assms(5) by (auto simp: items_def)
  then have "stk (drop_all (vm_astack v)) = []" using drop_all_stk [of "vm_astack v"] by (simp add: MaxStackSize_def)
  moreover have "supplied ?u" using supplied_derived [OF _ assms(4)] assms(1) by (simp add: engine_ok_def supplied_def)
  ultimately have "idle ?u" using assms(1,4,6) c by (auto simp: idle_def engine_ok_def limits_def placed_def derived_def)
  then show ?thesis
    using assms(1) m c saved_after [OF assms(1-3)] phase_after [OF assms(1-4)]
    by (auto simp: ended_def engine_ok_def placed_def program_after_def split: if_splits)
qed

text \<open>A step either ends the run, or gives a state of the invariant that is further in the script or in a later script.\<close>

definition further :: "Engine \<Rightarrow> Engine \<Rightarrow> bool" where
  "further vm v \<longleftrightarrow> vm_scriptIdx vm < vm_scriptIdx v \<or>
     vm_scriptIdx v = vm_scriptIdx vm \<and> tk_script (vm_tokenizer v) = tk_script (vm_tokenizer vm) \<and>
     tk_offset (vm_tokenizer vm) < tk_offset (vm_tokenizer v)"

definition stepped :: "Engine \<Rightarrow> bool \<times> Engine \<Rightarrow> bool" where
  "stepped vm = (\<lambda>(done, v). if done then items v \<le> 4000000 else engine_ok v \<and> further vm v)"

lemma end_step_ok:
  assumes "env_ok E" "engine_ok vm" "Next (vm_tokenizer vm) = (True, t)"
    "executeOpcode E (tk_op t) (tk_data t) (vm\<lparr>vm_tokenizer := t\<rparr>) = Inr v" "derived (vm\<lparr>vm_tokenizer := t\<rparr>) 3 v"
  shows "res_ok (end_step E v) (stepped vm)"
proof (cases "Depth (vm_dstack v) + Depth (vm_astack v) > MaxStackSize")
  case True
  then show ?thesis by (simp add: end_step_def)
next
  case False
  have "small (vm_dstack v)" "small (vm_astack v)" by (rule derived_small [OF start_ready(1) [OF assms(2,3)] assms(5)], simp)+
  then have m: "int (items v) \<le> MaxStackSize" using False by (simp add: items_def stack_size Depth_def)
  have f: "vm_scriptIdx v = vm_scriptIdx vm" "vm_tokenizer v = t" using derived_context [OF assms(5)] by auto
  have g: "further vm (v\<lparr>vm_opcodeIdx := k\<rparr>)" for k using f Next_progress [OF assms(3)] by (simp add: further_def)
  have fin: "res_ok (vbind (finish_script E u) (\<lambda>vm. Inr (next_script vm))) (stepped vm)" if "ended u" "vm_scriptIdx u = vm_scriptIdx vm" for u
    by (rule res_ok_vbind [OF finish_ok [OF assms(1) that(1)]]) (auto simp: that(2) moved_def stepped_def further_def split: prod.splits if_splits)
  show ?thesis
    using False continuing [OF assms(2-5) m] g fin [OF ending [OF assms(2-5) m]] f(1)
    by (simp add: end_step_def Let_def stepped_def)
qed

lemma Step_ok:
  assumes "env_ok E" "engine_ok vm"
  shows "res_ok (Step E vm) (stepped vm)"
proof -
  obtain ok t where N: "Next (vm_tokenizer vm) = (ok, t)" by (cases "Next (vm_tokenizer vm)")
  have pc: "checkValidPC vm = Inr ()" using assms(2) by (auto simp: checkValidPC_def engine_ok_def placed_def)
  let ?r = "executeOpcode E (tk_op t) (tk_data t) (vm\<lparr>vm_tokenizer := t\<rparr>)"
  have "res_ok (vbind ?r (end_step E)) (stepped vm)" if ok
  proof -
    have n: "Next (vm_tokenizer vm) = (True, t)" using N that by simp
    have r: "res_ok ?r (derived (vm\<lparr>vm_tokenizer := t\<rparr>) 3)" by (rule instruction_ok [OF assms n])
    show ?thesis
    proof (rule res_ok_eq)
      show "?r \<noteq> Inl EnginePanic" using r by (auto simp: res_ok_def)
      show "res_ok (end_step E v) (stepped vm)" if "?r = Inr v" for v
        using r by (intro end_step_ok [OF assms n that]) (simp add: that)
    qed
  qed
  then show ?thesis using N pc by (simp add: Step_def split: option.split)
qed

section \<open>Whole runs\<close>

lemma execute_loop_ok:
  assumes "env_ok E" "engine_ok vm"
  shows "\<exists>r. execute_loop E vm = Some r \<and> res_ok r (\<lambda>v. items v \<le> 4000000)"
  using assms(2)
proof (induction vm rule: wf_induct [OF wf_measures [of "[\<lambda>v. 4 - vm_scriptIdx v, \<lambda>v. length (tk_script (vm_tokenizer v)) - tk_offset (vm_tokenizer v)]"]])
  case (1 vm)
  have s: "res_ok (Step E vm) (stepped vm)" by (rule Step_ok [OF assms(1) 1(2)])
  show ?case
  proof (cases "Step E vm")
    case (Inl e)
    then show ?thesis using s by (subst execute_loop.simps) (auto simp: res_ok_def)
  next
    case (Inr p)
    obtain d v where p: "p = (d, v)" by (cases p)
    show ?thesis
    proof (cases d)
      case True
      then show ?thesis using s Inr p by (subst execute_loop.simps) (simp add: stepped_def)
    next
      case False
      then have v: "engine_ok v" "further vm v" using s Inr p by (auto simp: stepped_def)
      have b: "vm_scriptIdx v \<le> 3" "tk_offset (vm_tokenizer v) \<le> length (tk_script (vm_tokenizer v))"
        using v(1) by (auto simp: engine_ok_def placed_def)
      then have "\<exists>r. execute_loop E v = Some r \<and> res_ok r (\<lambda>v. items v \<le> 4000000)"
        using v by (intro 1(1) [rule_format]) (auto simp: further_def)
      then show ?thesis using Inr p False by (subst execute_loop.simps) simp
    qed
  qed
qed

lemma Execute_ok:
  assumes "env_ok E" "engine_ok vm"
  shows "\<exists>r. Execute E vm = Some r \<and> r \<noteq> Inl EnginePanic"
proof -
  obtain r where r: "execute_loop E vm = Some r" "res_ok r (\<lambda>v. items v \<le> 4000000)" using execute_loop_ok [OF assms] by blast
  have "res_ok (vbind r (CheckErrorCondition True)) (\<lambda>_. True)"
    using r(2)
  proof (rule res_ok_vbind)
    fix v assume "items v \<le> 4000000"
    then have "small (vm_dstack v)" by (simp add: items_def)
    then show "res_ok (CheckErrorCondition True v) (\<lambda>_. True)" by (rule res_ok_mono [OF CheckErrorCondition_ok]) simp
  qed
  then show ?thesis using r(1) by (auto simp: Execute_def res_ok_def split: sum.splits)
qed

section \<open>New engines\<close>

text \<open>What a caller gives for the input a new engine checks: the output the input spends, and the hashes of the transaction when the input has a witness.\<close>

definition input_given :: "MsgTx \<Rightarrow> int \<Rightarrow> TxSigHashes option \<Rightarrow> PrevOutputFetcher \<Rightarrow> bool" where
  "input_given tx txIdx hashCache prevOutFetcher \<longleftrightarrow>
     (let txIn = tx_TxIn tx ! nat txIdx in
      prevOutFetcher (ti_PreviousOutPoint txIn) \<noteq> None \<and> (ti_Witness txIn \<noteq> [] \<longrightarrow> hashCache \<noteq> None) \<and>
      length (ti_Witness txIn) \<le> 4000000)"

text \<open>An engine before its first step.\<close>

definition fresh :: "bytes \<Rightarrow> bytes \<Rightarrow> Engine \<Rightarrow> bool" where
  "fresh sig pk vm \<longleftrightarrow> supplied vm \<and> vm_scripts vm = [sig, pk] \<and> vm_scriptIdx vm = (if sig = [] then 1 else 0) \<and>
     vm_lastCodeSep vm = 0 \<and> vm_tokenizer vm = MakeScriptTokenizer 0 (if sig = [] then pk else sig) \<and>
     vm_savedFirstStack vm = [] \<and> stk (vm_dstack vm) = [] \<and> stk (vm_astack vm) = [] \<and> vm_condStack vm = [] \<and>
     vm_numOps vm = 0 \<and> vm_taprootCtx vm = None \<and> (vm_bip16 vm \<longrightarrow> isScriptHashScript pk)"

lemma fresh_ok:
  assumes "fresh sig pk vm" "vm_witnessProgram vm = None \<or> program_pending vm"
  shows "engine_ok vm"
proof -
  have "limits vm" using assms(1) by (auto simp: fresh_def limits_def elems_ok_def counters_def items_def MaxOpsPerScript_def MaxStackSize_def)
  moreover have "placed vm" using assms(1) by (auto simp: fresh_def placed_def MakeScriptTokenizer_def split: if_splits)
  moreover have "phase vm" using assms by (auto simp: fresh_def phase_def)
  ultimately show ?thesis using assms(1) by (simp add: engine_ok_def fresh_def)
qed

lemma program_not_script_hash:
  assumes "isWitnessProgramScript s"
  shows "\<not> isScriptHashScript s"
proof
  assume "isScriptHashScript s"
  then obtain r where s: "s = OP_HASH160 # r" using quiet_script_hash [of s] by (cases s) auto
  obtain t where n: "Next (MakeScriptTokenizer 0 s) = (True, t)" "IsSmallInt (tk_op t)"
    using assms unfolding isWitnessProgramScript_def extractWitnessProgramInfo_def Let_def by (auto split: if_splits prod.splits)
  have "opcode_length OP_HASH160 = 1" by (simp add: opcode_length_def)
  then have "tk_op t = OP_HASH160" using Next_rest [OF n(1)] s by (simp add: MakeScriptTokenizer_def Let_def)
  then show False using n(2) by (simp add: IsSmallInt_def word_le_def)
qed

lemma quiet_push_of:
  assumes "4 \<le> length r" "length r \<le> 42"
  shows "quiet (push_of r)"
proof -
  let ?op = "word_of_int (int (length r)) :: byte"
  have "uint ?op = int (length r) mod 2 ^ 8" by (subst uint_word_of_int) simp
  then have u: "uint ?op = int (length r)" using assms by simp
  have "opcode_length ?op = 1 + int (length r)" using u assms by (simp add: opcode_length_def)
  then have "parse_op (push_of r) = Some (?op, Some r, [])" using assms by (auto simp: push_of_def Let_def)
  then have "parse_all (push_of r) = ([(?op, Some r)], True)" using parse_all_Some [of "push_of r"] by simp
  moreover have "?op \<notin> sigops" using u assms by (auto simp: sigops_def word_uint_eq_iff)
  ultimately show ?thesis by (simp add: quiet_def)
qed

lemma set_program_ok:
  assumes "fresh sig pk vm" "set_program w vm = Inr v"
    "isWitnessProgramScript pk \<and> sig = [] \<or> vm_bip16 vm \<and> isWitnessProgramScript w \<and> sig = push_of w"
  shows "engine_ok v"
proof -
  obtain n p where v: "v = vm\<lparr>vm_witnessVersion := n, vm_witnessProgram := Some p\<rparr>"
    using assms(2) by (auto simp: set_program_def split: option.splits)
  have f: "fresh sig pk v" using assms(1) by (auto simp: fresh_def supplied_def v)
  have "program_pending v"
    using assms(3)
  proof
    assume a: "isWitnessProgramScript pk \<and> sig = []"
    then have "\<not> vm_bip16 v" using f program_not_script_hash by (auto simp: fresh_def)
    then show ?thesis using a f quiet_witness_program by (auto simp: program_pending_def fresh_def v MakeScriptTokenizer_def)
  next
    assume a: "vm_bip16 vm \<and> isWitnessProgramScript w \<and> sig = push_of w"
    then have "quiet sig" "sig \<noteq> []" using quiet_push_of quiet_witness_program by (auto simp: push_of_def)
    then show ?thesis using a f by (auto simp: program_pending_def fresh_def v MakeScriptTokenizer_def)
  qed
  then show ?thesis using fresh_ok [OF f] by simp
qed

lemma buildWitnessProgram_ok:
  assumes "fresh sig pk vm" "vm_witnessProgram vm = None" "buildWitnessProgram sig pk h vm = Inr v"
  shows "engine_ok v"
proof (cases "v = vm")
  case True
  then show ?thesis using fresh_ok [OF assms(1)] assms(2) by simp
next
  case False
  have c: "AddData r NewScriptBuilder = NewScriptBuilder\<lparr>sb_script := push_of r\<rparr>" if "isWitnessProgramScript r" for r
    using quiet_witness_program [OF that] by (simp add: AddData_short NewScriptBuilder_def push_of_def)
  obtain w where "set_program w vm = Inr v" "isWitnessProgramScript pk \<and> sig = [] \<or> vm_bip16 vm \<and> isWitnessProgramScript w \<and> sig = push_of w"
    using assms(3) False c by (auto simp: buildWitnessProgram_def Let_def Script_def split: if_splits)
  then show ?thesis by (rule set_program_ok [OF assms(1)])
qed

lemma NewEngine_ok:
  assumes "NewEngine scriptPubKey tx txIdx flags sigCache hashCache inputAmount prevOutFetcher = Inr vm"
    "input_given tx txIdx hashCache prevOutFetcher"
  shows "engine_ok vm"
proof -
  let ?i = "tx_TxIn tx ! nat txIdx" let ?sig = "ti_SignatureScript ?i"
  let ?s = "\<lparr>stk = [], verifyMinimalData = (flags AND ScriptVerifyMinimalData = ScriptVerifyMinimalData)\<rparr>"
  define v where "v b = \<lparr>vm_flags = flags, vm_tx = tx, vm_txIdx = nat txIdx, vm_version = 0, vm_bip16 = b,
      vm_sigCache = sigCache, vm_hashCache = hashCache, vm_prevOutFetcher = prevOutFetcher,
      vm_scripts = [?sig, scriptPubKey], vm_scriptIdx = (if ?sig = [] then 1 else 0), vm_opcodeIdx = 0, vm_lastCodeSep = 0,
      vm_tokenizer = MakeScriptTokenizer 0 (if ?sig = [] then scriptPubKey else ?sig),
      vm_savedFirstStack = [], vm_dstack = ?s, vm_astack = ?s, vm_condStack = [],
      vm_numOps = 0, vm_witnessVersion = 0, vm_witnessProgram = None, vm_inputAmount = inputAmount, vm_taprootCtx = None\<rparr>" for b
  have n: "\<not> (txIdx < 0 \<or> txIdx \<ge> int (length (tx_TxIn tx)))" using assms(1) by (auto simp: NewEngine_def)
  have u: "(v False)\<lparr>vm_bip16 := b\<rparr> = v b" for b by (simp add: v_def)
  have f: "fresh ?sig scriptPubKey (v b)" if "b \<longrightarrow> isScriptHashScript scriptPubKey" for b
    using n that assms(2) by (auto simp: fresh_def v_def supplied_def input_given_def Let_def)
  define b where "b \<longleftrightarrow> hasFlag (v False) ScriptBip16 \<and> isScriptHashScript scriptPubKey"
  have b: "b \<longrightarrow> isScriptHashScript scriptPubKey" by (simp add: b_def)
  have c: "vm = v b \<or> buildWitnessProgram ?sig scriptPubKey (ti_Witness ?i \<noteq> []) (v b) = Inr vm"
    using assms(1) n unfolding NewEngine_def Let_def v_def [symmetric] b_def [symmetric] u
    by (auto simp: vbind_eq_Inr simp del: split_paired_Ex split: if_split_asm)
  have "vm_witnessProgram (v b) = None" by (simp add: v_def)
  then show ?thesis using c fresh_ok [OF f [OF b]] buildWitnessProgram_ok [OF f [OF b]] by auto
qed

section \<open>Properties\<close>

text \<open>The states that the steps of a run go through.\<close>

inductive runs :: "'p env \<Rightarrow> Engine \<Rightarrow> Engine \<Rightarrow> bool" for E vm where
  start: "runs E vm vm"
| step: "runs E vm v \<Longrightarrow> Step E v = Inr (False, w) \<Longrightarrow> runs E vm w"

lemma runs_ok:
  assumes "runs E vm v" "env_ok E" "engine_ok vm"
  shows "engine_ok v"
  using assms(1)
proof induction
  case (step v w)
  then show ?case using Step_ok [OF assms(2), of v] by (simp add: stepped_def)
qed (rule assms(3))

text \<open>
  C34. A new engine always comes to an end. Whatever the scripts, the transaction and the flags, when the caller
  gives the output that the input spends (and the hashes of the transaction for an input with a witness), the
  loop of \<^verbatim>\<open>Execute\<close> returns, with success or with an error, and no step of it panics.
\<close>

theorem Execute_total:
  assumes "env_ok E"
    and "NewEngine scriptPubKey tx txIdx flags sigCache hashCache inputAmount prevOutFetcher = Inr vm"
    and "input_given tx txIdx hashCache prevOutFetcher"
  shows "\<exists>r. Execute E vm = Some r \<and> r \<noteq> Inl EnginePanic"
  by (rule Execute_ok [OF assms(1) NewEngine_ok [OF assms(2,3)]])

text \<open>
  C35. The state of a run keeps its types. In every state that the steps of a new engine reach, the items of both
  stacks are at most 520 bytes, the stacks hold at most 1000 items together (except the items a witness brings,
  until the first instruction of its script), the operation count is between 0 and 201, the conditional stack
  holds only the three values the code names, one of at most four scripts runs, and the position of the last code
  separator and of the next instruction are within that script.
\<close>

theorem engine_state_typed:
  assumes "env_ok E"
    and "NewEngine scriptPubKey tx txIdx flags sigCache hashCache inputAmount prevOutFetcher = Inr vm"
    and "input_given tx txIdx hashCache prevOutFetcher"
    and "runs E vm v"
  shows "elems_ok (stk (vm_dstack v) @ stk (vm_astack v)) \<and>
    (int (items v) \<le> MaxStackSize \<or> tk_offset (vm_tokenizer v) = 0 \<and> 2 \<le> vm_scriptIdx v) \<and>
    0 \<le> vm_numOps v \<and> vm_numOps v \<le> MaxOpsPerScript \<and> set (vm_condStack v) \<subseteq> {OpCondFalse, OpCondTrue, OpCondSkip} \<and>
    vm_scriptIdx v < length (vm_scripts v) \<and> length (vm_scripts v) \<le> 4 \<and>
    tk_script (vm_tokenizer v) = vm_scripts v ! vm_scriptIdx v \<and> vm_lastCodeSep v \<le> tk_offset (vm_tokenizer v) \<and>
    tk_offset (vm_tokenizer v) \<le> length (vm_scripts v ! vm_scriptIdx v)"
proof -
  have l: "limits v" and p: "placed v" using runs_ok [OF assms(4,1) NewEngine_ok [OF assms(2,3)]] by (simp_all add: engine_ok_def)
  have "vm_scriptIdx v < length (vm_scripts v) \<and> length (vm_scripts v) \<le> 4" using p unfolding placed_def by linarith
  moreover have "tk_offset (vm_tokenizer v) \<le> length (vm_scripts v ! vm_scriptIdx v)" using p unfolding placed_def by metis
  moreover have "elems_ok (stk (vm_dstack v) @ stk (vm_astack v))" using l by (auto simp: limits_def elems_ok_def)
  moreover have "int (items v) \<le> MaxStackSize \<or> tk_offset (vm_tokenizer v) = 0 \<and> 2 \<le> vm_scriptIdx v" using l unfolding limits_def by blast
  ultimately show ?thesis using l p unfolding limits_def counters_def placed_def by (intro conjI) simp_all
qed

subsection \<open>A run\<close>

definition sample_env :: "int env" where
  "sample_env = \<lparr>env_curve = log_curve, env_evict = (\<lambda>_. 0)\<rparr>"

lemma sample_env_ok: "env_ok sample_env"
proof -
  have "length (ripemd160 log_curve b) = 20" for b by (simp add: log_curve_def)
  moreover have "length (SerializePubKey log_curve k) = 32" for k by (simp add: SerializePubKey_def log_curve_def)
  moreover have "parsePubKey log_curve b \<noteq> None" for b by (simp add: log_curve_def)
  ultimately show ?thesis by (simp add: env_ok_def sample_env_def ripemd_ok_def keys_reparse_def schnorr_ParsePubKey_def)
qed

definition sample_tx :: MsgTx where
  "sample_tx = \<lparr>tx_Version = 1, tx_TxIn = [\<lparr>ti_PreviousOutPoint = \<lparr>op_Hash = replicate 32 1, op_Index = 0\<rparr>,
     ti_SignatureScript = [OP_1], ti_Witness = [], ti_Sequence = 0\<rparr>],
     tx_TxOut = [], tx_LockTime = 0\<rparr>"

definition sample_out :: PrevOutputFetcher where
  "sample_out = (\<lambda>_. Some \<lparr>to_Value = 1, to_PkScript = [OP_DUP, OP_EQUAL]\<rparr>)"

definition sample_new :: "Engine vmResult" where
  "sample_new = NewEngine [OP_DUP, OP_EQUAL] sample_tx 0 ScriptBip16 None None 1 sample_out"

lemma sample_given: "input_given sample_tx 0 None sample_out"
  by (simp add: input_given_def sample_tx_def sample_out_def)

lemma sample_step: "case sample_new of Inl _ \<Rightarrow> False | Inr vm \<Rightarrow> (case Step sample_env vm of Inr (d, w) \<Rightarrow> \<not> d | Inl _ \<Rightarrow> False)"
  by code_simp

theorem Execute_total_witness:
  "case sample_new of Inl _ \<Rightarrow> False | Inr vm \<Rightarrow> (\<exists>r. Execute sample_env vm = Some r \<and> r \<noteq> Inl EnginePanic)"
  using sample_step Execute_total [OF sample_env_ok _ sample_given] unfolding sample_new_def by (auto split: sum.splits)

theorem engine_state_typed_witness:
  "case sample_new of Inl _ \<Rightarrow> False | Inr vm \<Rightarrow> (case Step sample_env vm of Inl _ \<Rightarrow> False | Inr (d, v) \<Rightarrow>
    \<not> d \<and> int (items v) \<le> 1000 \<and> vm_numOps v \<le> 201 \<and> vm_scriptIdx v < length (vm_scripts v) \<and>
    tk_script (vm_tokenizer v) = vm_scripts v ! vm_scriptIdx v)"
proof -
  obtain vm v where n: "sample_new = Inr vm" "Step sample_env vm = Inr (False, v)"
    using sample_step by (auto split: sum.splits)
  have "case sample_new of Inl _ \<Rightarrow> False | Inr vm \<Rightarrow> (case Step sample_env vm of Inl _ \<Rightarrow> False | Inr (d, v) \<Rightarrow> vm_scriptIdx v = 1)"
    by code_simp
  then have "vm_scriptIdx v = 1" unfolding n sum.case prod.case .
  then show ?thesis
    using engine_state_typed [OF sample_env_ok n(1) [unfolded sample_new_def] sample_given runs.step [OF runs.start n(2)]]
    unfolding n sum.case prod.case by (simp add: MaxStackSize_def MaxOpsPerScript_def)
qed

end
