(* ===== verification/ChainView.thy ===== *)
theory ChainView
  imports BlockNode
begin

text \<open>
  Views of a chain of blocks, \<^verbatim>\<open>blockchain/chainview.go\<close>: an array with the node of each height, which gives the
  block at a height in constant time. Nodes are compared as values, where the code compares pointers; the
  block index holds one node for each block. The lock of a view and the capacity of its array are not modelled.

  The lemmas show that setting the tip leaves the array with exactly the ancestors of the tip, although the
  code stops at the first node that is in place, that the fork point of a node is its highest ancestor in
  the view, and which blocks a locator lists.
\<close>

unbundle bit_operations_syntax

section \<open>Definitions\<close>

definition log2FloorMasks :: "int list" where
  "log2FloorMasks = [0xffff0000, 0xff00, 0xf0, 0xc, 0x2]"

primrec log2_loop :: "int list \<Rightarrow> nat \<Rightarrow> int \<Rightarrow> nat \<Rightarrow> nat" where
  "log2_loop [] exponent n rv = rv"
| "log2_loop (m # ms) exponent n rv =
     (if n AND m \<noteq> 0 then log2_loop ms (exponent div 2) (drop_bit exponent n) (rv + exponent)
      else log2_loop ms (exponent div 2) n rv)"

definition fastLog2Floor :: "int \<Rightarrow> nat" where
  "fastLog2Floor n = log2_loop log2FloorMasks 16 n 0"

type_synonym chainView = "blockNode option list"

definition view_tip :: "chainView \<Rightarrow> blockNode option" where
  "view_tip c = (if c = [] then None else last c)"

definition genesis :: "chainView \<Rightarrow> blockNode option" where
  "genesis c = (if c = [] then None else hd c)"

text \<open>The loop of \<^verbatim>\<open>setTip\<close>, down to the first node that is in place. An index beyond the array is a panic.\<close>

function setTip_loop :: "blockNode option \<Rightarrow> chainView \<Rightarrow> chainView result" where
  "setTip_loop None c = Inr c"
| "setTip_loop (Some n) c =
     (if bn_height n < 0 \<or> bn_height n \<ge> int (length c) then Inl Panic
      else if c ! nat (bn_height n) = Some n then Inr c
      else setTip_loop (bn_parent n) (c[nat (bn_height n) := Some n]))"
  by pat_completeness auto
termination
proof (relation "measure (\<lambda>(n, c). case n of None \<Rightarrow> 0 | Some n \<Rightarrow> Suc (size n))", goal_cases)
  case (2 n c)
  then show ?case using size_parent [of n] by (cases "bn_parent n") auto
qed simp

declare setTip_loop.simps [simp del]

definition setTip :: "blockNode option \<Rightarrow> chainView \<Rightarrow> chainView result" where
  "setTip node c =
     (case node of
        None \<Rightarrow> Inr []
      | Some n \<Rightarrow>
          let needed = i32 (bn_height n + 1) in
          if needed < 0 then Inl Panic
          else setTip_loop node (take (nat needed) c @ replicate (nat needed - length c) None))"

definition newChainView :: "blockNode option \<Rightarrow> chainView result" where
  "newChainView tip = setTip tip []"

definition view_height :: "chainView \<Rightarrow> int" where
  "view_height c = i32 (int (length c) - 1)"

definition NodeByHeight :: "chainView \<Rightarrow> int \<Rightarrow> blockNode option" where
  "NodeByHeight c height = (if height < 0 \<or> height \<ge> i32 (int (length c)) then None else c ! nat height)"

definition view_Equals :: "chainView \<Rightarrow> chainView \<Rightarrow> bool" where
  "view_Equals c other \<longleftrightarrow> length c = length other \<and> view_tip c = view_tip other"

definition Contains :: "chainView \<Rightarrow> blockNode \<Rightarrow> bool" where
  "Contains c node \<longleftrightarrow> NodeByHeight c (bn_height node) = Some node"

definition view_Next :: "chainView \<Rightarrow> blockNode option \<Rightarrow> blockNode option" where
  "view_Next c node =
     (case node of None \<Rightarrow> None
      | Some n \<Rightarrow> if \<not> Contains c n then None else NodeByHeight c (i32 (bn_height n + 1)))"

function fork_loop :: "chainView \<Rightarrow> blockNode option \<Rightarrow> blockNode option" where
  "fork_loop c None = None"
| "fork_loop c (Some n) = (if Contains c n then Some n else fork_loop c (bn_parent n))"
  by pat_completeness auto
termination
proof (relation "measure (\<lambda>(c, n). case n of None \<Rightarrow> 0 | Some n \<Rightarrow> Suc (size n))", goal_cases)
  case (2 c n)
  then show ?case using size_parent [of n] by (cases "bn_parent n") auto
qed simp

declare fork_loop.simps [simp del]

definition FindFork :: "chainView \<Rightarrow> blockNode option \<Rightarrow> blockNode option" where
  "FindFork c node =
     (case node of
        None \<Rightarrow> None
      | Some n \<Rightarrow>
          let chainHeight = view_height c in
          fork_loop c (if bn_height n > chainHeight then Ancestor n chainHeight else Some n))"

text \<open>
  The loop of the locator. Its list is given in order, with the number of entries so far; the step doubles from
  the eleventh entry on. The loop is partial, since nothing in it alone makes the heights fall.
\<close>

partial_function (option) locator_loop :: "chainView \<Rightarrow> blockNode option \<Rightarrow> int \<Rightarrow> bytes list \<Rightarrow> bytes list result option" where
  "locator_loop c node step locator =
     (case node of
        None \<Rightarrow> Some (Inr locator)
      | Some n \<Rightarrow>
          let locator = locator @ [bn_hash n] in
          if bn_height n = 0 then Some (Inr locator)
          else
            let height = max 0 (i32 (bn_height n - step)) in
            if Contains c n \<and> nat height \<ge> length c then Some (Inl Panic)
            else
              locator_loop c (if Contains c n then c ! nat height else Ancestor n height)
                (if length locator > 10 then i32 (step * 2) else step) locator)"

definition BlockLocator :: "chainView \<Rightarrow> blockNode option \<Rightarrow> bytes list result option" where
  "BlockLocator c node = locator_loop c (case node of None \<Rightarrow> view_tip c | Some n \<Rightarrow> Some n) 1 []"

section \<open>The logarithm\<close>

lemma int_div_less_mult: "n < k * m \<Longrightarrow> 0 < m \<Longrightarrow> n div m < (k :: int)"
  by (smt (verit) div_mult_mod_eq pos_mod_sign mult_right_less_imp_less)

lemma high_part_less: "n < 2 ^ (2 * e) \<Longrightarrow> n div 2 ^ e < (2 :: int) ^ e"
proof -
  assume "n < 2 ^ (2 * e)"
  then have "n < 2 ^ e * 2 ^ e" by (simp add: mult_2 power_add)
  then show ?thesis by (simp add: int_div_less_mult)
qed

lemma and_mask_iff:
  fixes n :: int
  assumes "0 \<le> n" "n < 2 ^ (2 * e)"
  shows "n AND (2 ^ (2 * e) - 2 ^ e) \<noteq> 0 \<longleftrightarrow> 2 ^ e \<le> n"
proof -
  have "(2 :: int) ^ (2 * e) = 2 ^ e * 2 ^ e" by (simp add: mult_2 power_add)
  then have "(2 :: int) ^ (2 * e) - 2 ^ e = push_bit e (mask e)"
    by (simp add: push_bit_eq_mult mask_eq_exp_minus_1 algebra_simps)
  moreover have "n AND push_bit e (mask e) = push_bit e (drop_bit e n AND mask e)"
    by (rule bit_eqI) (auto simp: bit_simps)
  moreover have "drop_bit e n AND mask e = drop_bit e n"
  proof -
    have "n div 2 ^ e < 2 ^ e" using assms by (simp add: high_part_less)
    moreover have "0 \<le> n div 2 ^ e" using assms(1) by (simp add: pos_imp_zdiv_nonneg_iff)
    ultimately show ?thesis by (simp add: take_bit_eq_mask [symmetric] take_bit_int_eq_self drop_bit_eq_div)
  qed
  ultimately have "n AND (2 ^ (2 * e) - 2 ^ e) = n div 2 ^ e * 2 ^ e" by (simp add: push_bit_eq_mult drop_bit_eq_div)
  moreover have "n div 2 ^ e = 0 \<longleftrightarrow> n < 2 ^ e" using assms(1) by (auto simp: zdiv_eq_0_iff)
  ultimately show ?thesis by auto
qed

lemma log2_step:
  fixes n :: int
  assumes "0 < n" "n < 2 ^ (2 * e)"
  shows "\<exists>k r. log2_loop ((2 ^ (2 * e) - 2 ^ e) # ms) e n rv = log2_loop ms (e div 2) k r \<and>
    0 < k \<and> k < 2 ^ e \<and> (\<forall>N. N div 2 ^ rv = n \<longrightarrow> N div 2 ^ r = k)"
proof (cases "2 ^ e \<le> n")
  case True
  have "0 < n div 2 ^ e" using True by (simp add: pos_imp_zdiv_pos_iff)
  moreover have "n div 2 ^ e < 2 ^ e" using assms by (simp add: high_part_less)
  moreover have "N div 2 ^ (rv + e) = N div 2 ^ rv div 2 ^ e" for N :: int by (simp add: power_add zdiv_zmult2_eq)
  moreover have "log2_loop ((2 ^ (2 * e) - 2 ^ e) # ms) e n rv = log2_loop ms (e div 2) (n div 2 ^ e) (rv + e)"
    using True and_mask_iff [of n e] assms by (simp add: drop_bit_eq_div)
  ultimately show ?thesis by blast
next
  case False
  then have "log2_loop ((2 ^ (2 * e) - 2 ^ e) # ms) e n rv = log2_loop ms (e div 2) n rv"
    using and_mask_iff [of n e] assms by simp
  then show ?thesis using assms False by (intro exI [of _ n] exI [of _ rv]) auto
qed

lemma fastLog2Floor_log:
  assumes "0 < n" "n < 2 ^ 32"
  shows "2 ^ fastLog2Floor n \<le> n \<and> n < 2 ^ (fastLog2Floor n + 1)"
proof -
  obtain k1 r1 where 1: "fastLog2Floor n = log2_loop [0xff00, 0xf0, 0xc, 0x2] 8 k1 r1" "0 < k1" "k1 < 2 ^ 16" "n div 2 ^ r1 = k1"
    using log2_step [of n 16 "[0xff00, 0xf0, 0xc, 0x2]" 0] assms by (auto simp: fastLog2Floor_def log2FloorMasks_def simp del: log2_loop.simps)
  obtain k2 r2 where 2: "fastLog2Floor n = log2_loop [0xf0, 0xc, 0x2] 4 k2 r2" "0 < k2" "k2 < 2 ^ 8" "n div 2 ^ r2 = k2"
    using log2_step [of k1 8 "[0xf0, 0xc, 0x2]" r1] 1 by (auto simp del: log2_loop.simps)
  obtain k3 r3 where 3: "fastLog2Floor n = log2_loop [0xc, 0x2] 2 k3 r3" "0 < k3" "k3 < 2 ^ 4" "n div 2 ^ r3 = k3"
    using log2_step [of k2 4 "[0xc, 0x2]" r2] 2 by (auto simp del: log2_loop.simps)
  obtain k4 r4 where 4: "fastLog2Floor n = log2_loop [0x2] 1 k4 r4" "0 < k4" "k4 < 2 ^ 2" "n div 2 ^ r4 = k4"
    using log2_step [of k3 2 "[0x2]" r3] 3 by (auto simp del: log2_loop.simps)
  obtain k5 r5 where 5: "fastLog2Floor n = r5" "0 < k5" "k5 < 2" "n div 2 ^ r5 = k5"
    using log2_step [of k4 1 "[]" r4] 4 by auto
  then have d: "n div 2 ^ r5 = 1" by simp
  have "n = 2 ^ r5 * (n div 2 ^ r5) + n mod 2 ^ r5" by simp
  moreover have "0 \<le> n mod 2 ^ r5" "n mod 2 ^ r5 < 2 ^ r5" by simp_all
  ultimately have "2 ^ r5 \<le> n" "n < 2 * 2 ^ r5" unfolding d by linarith+
  then show ?thesis using 5(1) by simp
qed

section \<open>The chain of a tip\<close>

text \<open>A view of a tip: the ancestors of the tip by height.\<close>

definition chain_of :: "blockNode \<Rightarrow> chainView" where
  "chain_of t = map (\<lambda>h. walk (int h) t) [0 ..< nat (bn_height t + 1)]"

definition view_of :: "blockNode option \<Rightarrow> chainView" where
  "view_of t = (case t of None \<Rightarrow> [] | Some t \<Rightarrow> chain_of t)"

lemma length_chain_of [simp]: "node_ok t \<Longrightarrow> int (length (chain_of t)) = bn_height t + 1"
  using node_ok_height [of t] by (simp add: chain_of_def)

lemma chain_of_nth: "0 \<le> h \<Longrightarrow> h \<le> bn_height t \<Longrightarrow> chain_of t ! nat h = walk h t"
  by (simp add: chain_of_def nth_map nat_less_iff)

lemma walk_above: "node_ok n \<Longrightarrow> bn_height n < h \<Longrightarrow> walk h n = None"
  using walk_le [of n h] by (cases "walk h n") auto

lemma walk_nonneg: "node_ok n \<Longrightarrow> walk h n = Some a \<Longrightarrow> 0 \<le> h"
proof (induction n rule: node_ok.induct)
  case (1 n)
  show ?case
  proof (cases "bn_height n = h")
    case True
    then show ?thesis using node_ok_height [OF 1(2)] by simp
  next
    case False
    then obtain p where "bn_parent n = Some p" "walk h p = Some a"
      using 1(3) by (auto simp: walk.simps [of h n] split: option.splits)
    then show ?thesis using 1(1) node_ok_parent [OF 1(2)] by blast
  qed
qed

lemma chain_of_take:
  assumes "node_ok n" "walk h n = Some a"
  shows "take (nat (h + 1)) (chain_of n) = chain_of a"
proof -
  have a: "node_ok a" "bn_height a = h" "0 \<le> h" "h \<le> bn_height n"
    using walk_ok [OF assms(1), of h] walk_le [OF assms] assms(2) node_ok_height [OF assms(1)] walk_nonneg [OF assms] by auto
  show ?thesis
  proof (rule nth_equalityI)
    show "length (take (nat (h + 1)) (chain_of n)) = length (chain_of a)" using a by (simp add: chain_of_def)
    fix i assume "i < length (take (nat (h + 1)) (chain_of n))"
    then have i: "int i \<le> h" using a by (simp add: chain_of_def)
    have "walk (int i) a = walk (int i) n" by (rule walk_trans [OF assms i])
    then show "take (nat (h + 1)) (chain_of n) ! i = chain_of a ! i"
      using chain_of_nth [of "int i" n] chain_of_nth [of "int i" a] i a by simp
  qed
qed

section \<open>Setting the tip\<close>

text \<open>Where an array holds a node, it holds the ancestors of the node below it.\<close>

definition closed_below :: "int \<Rightarrow> chainView \<Rightarrow> bool" where
  "closed_below k c \<longleftrightarrow> (\<forall>h a. 0 \<le> h \<and> h \<le> k \<and> c ! nat h = Some a \<longrightarrow> (\<forall>i. 0 \<le> i \<and> i \<le> h \<longrightarrow> c ! nat i = walk i a))"

lemma setTip_loop_ok:
  assumes "node_ok n" "bn_height n < int (length c)" "closed_below (bn_height n) c"
  shows "\<exists>c'. setTip_loop (Some n) c = Inr c' \<and> length c' = length c \<and>
    (\<forall>h. 0 \<le> h \<and> h \<le> bn_height n \<longrightarrow> c' ! nat h = walk h n) \<and> (\<forall>h. bn_height n < h \<longrightarrow> c' ! nat h = c ! nat h)"
  using assms
proof (induction n arbitrary: c rule: node_ok.induct)
  case (1 n)
  have h: "0 \<le> bn_height n" using node_ok_height [OF 1(2)] by simp
  show ?case
  proof (cases "c ! nat (bn_height n) = Some n")
    case True
    then have "\<forall>i. 0 \<le> i \<and> i \<le> bn_height n \<longrightarrow> c ! nat i = walk i n" using 1(4) h unfolding closed_below_def by blast
    then show ?thesis using True h 1(3) by (intro exI [of _ c]) (simp add: setTip_loop.simps)
  next
    case False
    let ?c = "c[nat (bn_height n) := Some n]"
    have s: "setTip_loop (Some n) c = setTip_loop (bn_parent n) ?c" using False h 1(3) by (simp add: setTip_loop.simps)
    show ?thesis
    proof (cases "bn_parent n")
      case None
      then have "bn_height n = 0" using node_ok_root [OF 1(2)] by simp
      then show ?thesis using s None 1(3) by (intro exI [of _ ?c]) (auto simp: setTip_loop.simps walk.simps)
    next
      case (Some p)
      note p = node_ok_parent [OF 1(2) Some]
      have "bn_height p < int (length ?c)" using p 1(3) by simp
      moreover have "closed_below (bn_height p) ?c"
        unfolding closed_below_def
      proof (intro allI impI)
        fix h a i assume a: "0 \<le> h \<and> h \<le> bn_height p \<and> ?c ! nat h = Some a" and i: "0 \<le> i \<and> i \<le> h"
        have e: "?c ! nat j = c ! nat j" if "0 \<le> j" "j \<le> bn_height p" for j
        proof -
          have "nat (bn_height n) \<noteq> nat j" using that p by linarith
          then show ?thesis by simp
        qed
        have "c ! nat i = walk i a"
          using 1(4) [unfolded closed_below_def, rule_format, of h a i] a i p e [of h] by simp
        then show "?c ! nat i = walk i a" using e [of i] a i by simp
      qed
      ultimately obtain c' where c': "setTip_loop (Some p) ?c = Inr c'" "length c' = length ?c"
          "\<forall>h. 0 \<le> h \<and> h \<le> bn_height p \<longrightarrow> c' ! nat h = walk h p" "\<forall>h. bn_height p < h \<longrightarrow> c' ! nat h = ?c ! nat h"
        using 1(1) [OF Some] p by blast
      have "c' ! nat (bn_height n) = Some n" using c'(4) p 1(3) h by simp
      then have "c' ! nat i = walk i n" if "0 \<le> i" "i \<le> bn_height n" for i
        using that c'(3) p walk_step [OF Some, of i] walk_self [of n] by (cases "i = bn_height n") (simp_all del: walk_self)
      moreover have "c' ! nat i = c ! nat i" if "bn_height n < i" for i
        using that c'(4) p h by (simp add: nth_list_update nat_eq_iff)
      ultimately show ?thesis using s Some c'(1,2) by simp
    qed
  qed
qed

lemma closed_chain_of:
  assumes "node_ok t" and that: "k < int (m + j)" "m \<le> length (chain_of t)"
  shows "closed_below k (take m (chain_of t) @ replicate j None)"
  unfolding closed_below_def
proof (intro allI impI)
  fix h a i assume a: "0 \<le> h \<and> h \<le> k \<and> (take m (chain_of t) @ replicate j None) ! nat h = Some a" and i: "0 \<le> i \<and> i \<le> h"
  have "nat h < m"
  proof (rule ccontr)
    assume "\<not> nat h < m"
    then have "(take m (chain_of t) @ replicate j None) ! nat h = None" using a that by (auto simp: nth_append)
    then show False using a by simp
  qed
  then have m: "h < int m" "h \<le> bn_height t" using that(2) length_chain_of [OF assms(1)] a by linarith+
  then have "nat h < m" using a by linarith
  then have w: "walk h t = Some a" using a m that(2) chain_of_nth [of h t] by (simp add: nth_append)
  have "walk i a = walk i t" using walk_trans [OF assms(1) w] i by simp
  then show "(take m (chain_of t) @ replicate j None) ! nat i = walk i a"
    using i m that(2) chain_of_nth [of i t] \<open>nat h < m\<close> nat_mono [of i h] by (simp add: nth_append)
qed

lemma setTip_view:
  assumes "\<And>t. old = Some t \<Longrightarrow> node_ok t" "node_ok n" "bn_height n + 1 < 2 ^ 31"
  shows "setTip (Some n) (view_of old) = Inr (chain_of n)"
proof -
  let ?c = "view_of old" and ?m = "nat (bn_height n + 1)"
  let ?d = "take ?m ?c @ replicate (?m - length ?c) None"
  have h: "0 \<le> bn_height n" using node_ok_height [OF assms(2)] by simp
  have i: "i32 (bn_height n + 1) = bn_height n + 1" using h assms(3) by (intro i32_id) simp
  have l: "length ?d = ?m" by simp
  then have lt: "bn_height n < int (length ?d)" using h by linarith
  have "closed_below (bn_height n) ?d"
  proof (cases old)
    case None
    then show ?thesis by (auto simp: view_of_def closed_below_def nat_less_iff)
  next
    case (Some t)
    define m where "m = min ?m (length (chain_of t))"
    have t: "take ?m (chain_of t) = take m (chain_of t)" by (simp add: m_def min_def)
    show ?thesis
      using closed_chain_of [OF assms(1) [OF Some], of "bn_height n" m "?m - length (chain_of t)"] h
      by (simp add: view_of_def Some t) (simp add: m_def)
  qed
  then obtain c' where c: "setTip_loop (Some n) ?d = Inr c'" "length c' = ?m" "\<forall>h. 0 \<le> h \<and> h \<le> bn_height n \<longrightarrow> c' ! nat h = walk h n"
    using setTip_loop_ok [OF assms(2) lt] unfolding l by blast
  have "c' = chain_of n"
  proof (rule nth_equalityI)
    show "length c' = length (chain_of n)" using c(2) by (simp add: chain_of_def)
    fix j assume "j < length c'"
    then have "int j \<le> bn_height n" using c(2) by simp
    then show "c' ! j = chain_of n ! j" using c(3) [rule_format, of "int j"] chain_of_nth [of "int j" n] by simp
  qed
  then show ?thesis using c(1) i h by (simp add: setTip_def Let_def)
qed

section \<open>Reading a view\<close>

lemma NodeByHeight_chain:
  assumes "node_ok t" "bn_height t + 1 < 2 ^ 31"
  shows "NodeByHeight (chain_of t) h = (if h < 0 then None else walk h t)"
proof -
  have "i32 (int (length (chain_of t))) = bn_height t + 1"
    using assms node_ok_height [OF assms(1)] by (simp add: i32_id)
  then show ?thesis using chain_of_nth [of h t] walk_above [OF assms(1), of h] by (auto simp: NodeByHeight_def)
qed

lemma Contains_chain:
  "node_ok t \<Longrightarrow> bn_height t + 1 < 2 ^ 31 \<Longrightarrow> node_ok n \<Longrightarrow> Contains (chain_of t) n \<longleftrightarrow> walk (bn_height n) t = Some n"
  using node_ok_height [of n] by (auto simp: Contains_def NodeByHeight_chain)

text \<open>The highest common ancestor.\<close>

definition fork_of :: "blockNode \<Rightarrow> blockNode \<Rightarrow> blockNode \<Rightarrow> bool" where
  "fork_of t n f \<longleftrightarrow> walk (bn_height f) n = Some f \<and> walk (bn_height f) t = Some f \<and>
     (\<forall>h > bn_height f. walk h n = None \<or> walk h n \<noteq> walk h t)"

lemma fork_loop_ok:
  assumes "node_ok t" "bn_height t + 1 < 2 ^ 31" "node_ok n"
  shows "case fork_loop (chain_of t) (Some n) of
      None \<Rightarrow> (\<forall>h. walk h n = None \<or> walk h n \<noteq> walk h t) | Some f \<Rightarrow> fork_of t n f"
  using assms(3)
proof (induction n rule: node_ok.induct)
  case (1 n)
  note C = Contains_chain [OF assms(1,2) 1(2)]
  show ?case
  proof (cases "Contains (chain_of t) n")
    case True
    then show ?thesis using C walk_above [OF 1(2)] by (simp add: fork_loop.simps fork_of_def)
  next
    case False
    then have n: "walk (bn_height n) t \<noteq> Some n" using C by simp
    show ?thesis
    proof (cases "bn_parent n")
      case None
      have "walk h n = None" if "h \<noteq> bn_height n" for h using None that by (simp add: walk.simps [of h n])
      then have "walk h n = None \<or> walk h n \<noteq> walk h t" for h using n by (cases "h = bn_height n") auto
      then show ?thesis using False None by (simp add: fork_loop.simps)
    next
      case (Some p)
      note p = node_ok_parent [OF 1(2) Some]
      have w: "walk h n = (if h = bn_height n then Some n else walk h p)" for h using walk_step [OF Some] by simp
      have IH: "case fork_loop (chain_of t) (Some p) of
          None \<Rightarrow> (\<forall>h. walk h p = None \<or> walk h p \<noteq> walk h t) | Some f \<Rightarrow> fork_of t p f" using 1(1) [OF Some] p by simp
      have s: "fork_loop (chain_of t) (Some n) = fork_loop (chain_of t) (Some p)" using False Some by (simp add: fork_loop.simps)
      show ?thesis
      proof (cases "fork_loop (chain_of t) (Some p)")
        case None
        then show ?thesis using IH s n w by auto
      next
        case f: (Some f)
        then have "fork_of t p f" using IH by simp
        moreover from this have "bn_height f < bn_height n" using walk_le [of p "bn_height f" f] p by (simp add: fork_of_def)
        ultimately show ?thesis using f s n w by (auto simp: fork_of_def)
      qed
    qed
  qed
qed

lemma FindFork_ok:
  assumes "node_ok t" "bn_height t + 1 < 2 ^ 31" "node_ok n"
  shows "case FindFork (chain_of t) (Some n) of
      None \<Rightarrow> (\<forall>h. walk h n = None \<or> walk h n \<noteq> walk h t) | Some f \<Rightarrow> fork_of t n f"
proof -
  have vh: "view_height (chain_of t) = bn_height t"
    using assms(1,2) node_ok_height [OF assms(1)] by (simp add: view_height_def i32_id)
  have ht: "0 \<le> bn_height t" using node_ok_height [OF assms(1)] by simp
  show ?thesis
  proof (cases "bn_height n > bn_height t")
    case False
    then show ?thesis using fork_loop_ok [OF assms] vh by (simp add: FindFork_def)
  next
    case True
    obtain a where a: "walk (bn_height t) n = Some a" "node_ok a" "bn_height a = bn_height t"
      using walk_ok [OF assms(3), of "bn_height t"] True ht by auto
    have w: "walk h a = walk h n" if "h \<le> bn_height t" for h using walk_trans [OF assms(3) a(1) that] .
    have none: "walk h t = None" if "\<not> h \<le> bn_height t" for h using walk_above [OF assms(1), of h] that by simp
    have F: "FindFork (chain_of t) (Some n) = fork_loop (chain_of t) (Some a)"
      using True vh a(1) ht by (simp add: FindFork_def Ancestor_walk [OF assms(3)])
    note IH = fork_loop_ok [OF assms(1,2) a(2)]
    show ?thesis
    proof (cases "fork_loop (chain_of t) (Some a)")
      case None
      then have "walk h a = None \<or> walk h a \<noteq> walk h t" for h using IH by simp
      then have "walk h n = None \<or> walk h n \<noteq> walk h t" for h
        using w [of h] none [of h] by (cases "h \<le> bn_height t") (metis, cases "walk h n", simp_all)
      then show ?thesis using F None by simp
    next
      case (Some f)
      then have f: "fork_of t a f" using IH by simp
      then have "bn_height f \<le> bn_height t" using walk_le [OF assms(1), of "bn_height f" f] by (simp add: fork_of_def)
      moreover have "walk h n = None \<or> walk h n \<noteq> walk h t" if "h > bn_height f" for h
        using f that w [of h] none [of h] by (cases "h \<le> bn_height t") (auto simp: fork_of_def)
      ultimately show ?thesis using F Some f w by (auto simp: fork_of_def)
    qed
  qed
qed

section \<open>Locators\<close>

text \<open>How far below the first entry each entry of a locator is.\<close>

definition locator_step :: "nat \<Rightarrow> int" where
  "locator_step m = (if m \<le> 10 then 1 else 2 ^ (m - 10))"

definition locator_dist :: "nat \<Rightarrow> int" where
  "locator_dist m = (if m \<le> 11 then int m else 9 + 2 ^ (m - 10))"

lemma locator_dist_Suc: "locator_dist (Suc m) = locator_dist m + locator_step m"
proof (cases "m \<le> 11")
  case True
  then consider "m \<le> 10" | "m = 11" by linarith
  then show ?thesis by cases (simp_all add: locator_dist_def locator_step_def)
next
  case False
  then obtain k where "m = 12 + k" using le_Suc_ex [of 12 m] by auto
  then show ?thesis by (simp add: locator_dist_def locator_step_def power_add)
qed

lemma locator_step_Suc: "locator_step (Suc m) = (if m \<ge> 10 then locator_step m * 2 else locator_step m)"
proof (cases "m \<ge> 10")
  case True
  then obtain k where "m = 10 + k" using le_Suc_ex [of 10 m] by auto
  then show ?thesis by (cases k) (simp_all add: locator_step_def)
qed (simp add: locator_step_def)

lemma locator_step_bound:
  assumes "locator_dist m < 2 ^ 31"
  shows "0 < locator_step m \<and> locator_step m \<le> 2 ^ 30"
proof (cases "m \<le> 11")
  case True
  then consider "m \<le> 10" | "m = 11" by linarith
  then show ?thesis by cases (simp_all add: locator_step_def)
next
  case False
  then have "(2 :: int) ^ (m - 10) < 2 ^ 31" using assms by (simp add: locator_dist_def)
  then have "m - 10 < 31" by (rule power_less_imp_less_exp [rotated]) simp
  then have "(2 :: int) ^ (m - 10) \<le> 2 ^ 30" by (intro power_increasing) auto
  then show ?thesis using False by (simp add: locator_step_def)
qed

definition hash_at :: "blockNode \<Rightarrow> int \<Rightarrow> bytes" where
  "hash_at n h = (case walk h n of None \<Rightarrow> [] | Some a \<Rightarrow> bn_hash a)"

abbreviation locator_height :: "blockNode \<Rightarrow> nat \<Rightarrow> int" where
  "locator_height n m \<equiv> max 0 (bn_height n - locator_dist m)"

lemma locator_loop_ok:
  assumes "node_ok t" "bn_height t + 1 < 2 ^ 31" "node_ok n" "bn_height n < 2 ^ 31"
    and "walk (locator_height n m) n = Some a" "length l = m"
    and "locator_dist m < bn_height n \<Longrightarrow> step = locator_step m"
  shows "\<exists>k > m. locator_loop (chain_of t) (Some a) step l = Some (Inr (l @ map (\<lambda>i. hash_at n (locator_height n i)) [m ..< k])) \<and>
    bn_height n \<le> locator_dist (k - 1)"
  using assms(5-7)
proof (induction "nat (bn_height n - locator_dist m)" arbitrary: m a l step rule: less_induct)
  case less
  have a: "node_ok a" "bn_height a = locator_height n m" "hash_at n (locator_height n m) = bn_hash a"
    using less.prems(1) walk_ok [OF assms(3), of "locator_height n m"] walk_le [OF assms(3) less.prems(1)] by (auto simp: hash_at_def)
  show ?case
  proof (cases "locator_dist m < bn_height n")
    case False
    then show ?thesis using a by (intro exI [of _ "Suc m"]) (subst locator_loop.simps, simp add: Let_def)
  next
    case True
    have st: "step = locator_step m" by (rule less.prems(3) [OF True])
    have sb: "0 < step" "step \<le> 2 ^ 30" using locator_step_bound [of m] True assms(4) st by auto
    have h: "bn_height a = bn_height n - locator_dist m" "0 < bn_height a" using a True by auto
    have hn: "bn_height a < 2 ^ 31" using node_ok_height [OF a(1)] by simp
    then have i: "i32 (bn_height a - step) = bn_height a - step" using sb h by (intro i32_id) simp
    let ?h = "max 0 (bn_height a - step)"
    have e: "?h = locator_height n (Suc m)" using h(1) st by (simp add: locator_dist_Suc)
    have w: "walk ?h a = walk ?h n" using walk_trans [OF assms(3) less.prems(1), of ?h] h sb a(2) by simp
    obtain b where b: "walk ?h a = Some b" using walk_ok [OF a(1), of ?h] sb h by auto
    have next_node: "(if Contains (chain_of t) a then chain_of t ! nat ?h else Ancestor a ?h) = Some b"
    proof (cases "Contains (chain_of t) a")
      case True
      then have c: "walk (bn_height a) t = Some a" using Contains_chain [OF assms(1,2) a(1)] by simp
      then have "walk ?h t = Some b" using walk_trans [OF assms(1) c, of ?h] b sb h by simp
      moreover have "?h \<le> bn_height t" using walk_le [OF assms(1) c] sb h by simp
      ultimately show ?thesis using True chain_of_nth [of ?h t] by simp
    next
      case False
      then show ?thesis using b sb h by (simp add: Ancestor_walk [OF a(1)])
    qed
    have room: "\<not> (Contains (chain_of t) a \<and> nat ?h \<ge> length (chain_of t))"
    proof
      assume c: "Contains (chain_of t) a \<and> nat ?h \<ge> length (chain_of t)"
      then have "bn_height a \<le> bn_height t" using Contains_chain [OF assms(1,2) a(1)] walk_le [OF assms(1)] by blast
      then show False using c length_chain_of [OF assms(1)] sb h by linarith
    qed
    let ?l = "l @ [bn_hash a]"
    let ?s = "if length ?l > 10 then i32 (step * 2) else step"
    have s: "locator_loop (chain_of t) (Some a) step l = locator_loop (chain_of t) (Some b) ?s ?l"
      using h(2) i room next_node by (subst locator_loop.simps) (auto simp: Let_def)
    have s': "?s = locator_step (Suc m)" if "locator_dist (Suc m) < bn_height n"
    proof -
      have "locator_step (Suc m) = (if length ?l > 10 then step * 2 else step)"
        using less.prems(2) st locator_step_Suc [of m] by simp
      moreover have "locator_step (Suc m) \<le> 2 ^ 30" using locator_step_bound [of "Suc m"] that assms(4) by simp
      ultimately show ?thesis using sb by (auto simp: i32_id)
    qed
    have "nat (bn_height n - locator_dist (Suc m)) < nat (bn_height n - locator_dist m)"
      using True st sb by (simp add: locator_dist_Suc)
    moreover have "walk (locator_height n (Suc m)) n = Some b" using b w e by simp
    ultimately obtain k where k: "k > Suc m" "bn_height n \<le> locator_dist (k - 1)"
        "locator_loop (chain_of t) (Some b) ?s ?l = Some (Inr (?l @ map (\<lambda>i. hash_at n (locator_height n i)) [Suc m ..< k]))"
      using less.hyps [of "Suc m" b ?l ?s] less.prems(2) s' by auto
    have "[m ..< k] = m # [Suc m ..< k]" using k(1) by (simp add: upt_conv_Cons)
    then show ?thesis using k s a(3) by (intro exI [of _ k]) auto
  qed
qed

text \<open>
  A locator always ends. Its entries go down from the node to the first block: the first twelve heights one after
  the other, the next ones with a distance that doubles.
\<close>

lemma BlockLocator_ok:
  assumes "node_ok t" "bn_height t + 1 < 2 ^ 31" "node_ok n"
  shows "\<exists>k > 0. BlockLocator (chain_of t) (Some n) = Some (Inr (map (\<lambda>i. hash_at n (locator_height n i)) [0 ..< k])) \<and>
    bn_height n \<le> locator_dist (k - 1)"
proof -
  have h: "0 \<le> bn_height n" "bn_height n < 2 ^ 31" using node_ok_height [OF assms(3)] by auto
  have d: "locator_height n 0 = bn_height n" using h by (simp add: locator_dist_def)
  then have "walk (locator_height n 0) n = Some n" by simp
  then show ?thesis
    using locator_loop_ok [OF assms h(2), of 0 n "[]" 1] by (simp add: BlockLocator_def locator_step_def)
qed

section \<open>Properties\<close>

text \<open>
  C31. The view of a chain. Setting the tip of a view, whatever tip it had before, gives the view that holds
  for every height the ancestor of the new tip at that height, and nothing else. In it, \<^verbatim>\<open>FindFork\<close> finds the
  highest block that a node has in common with the tip, and finds none only if there is none.
\<close>

theorem view_of_tip:
  assumes "pred_option node_ok old" "node_ok t" "bn_height t + 1 < 2 ^ 31" "node_ok n"
  shows "\<exists>c. setTip (Some t) (view_of old) = Inr c \<and>
    (\<forall>h. NodeByHeight c h = Ancestor t h) \<and> view_tip c = Some t \<and>
    (case FindFork c (Some n) of
       None \<Rightarrow> \<forall>h. Ancestor n h = None \<or> Ancestor n h \<noteq> Ancestor t h
     | Some f \<Rightarrow> Ancestor n (bn_height f) = Some f \<and> Ancestor t (bn_height f) = Some f \<and>
         (\<forall>h > bn_height f. Ancestor n h = None \<or> Ancestor n h \<noteq> Ancestor t h))"
proof -
  have s: "setTip (Some t) (view_of old) = Inr (chain_of t)"
    using assms(1) by (intro setTip_view assms(2,3)) simp
  have A: "Ancestor m h = walk h m" if "node_ok m" for m h
    using walk_le [OF that, of h] walk_nonneg [OF that, of h] by (cases "walk h m") (auto simp: Ancestor_walk [OF that])
  have N: "NodeByHeight (chain_of t) h = Ancestor t h" for h
    using NodeByHeight_chain [OF assms(2,3)] walk_nonneg [OF assms(2), of h] A [OF assms(2)] by (cases "walk h t") auto
  have ht: "0 \<le> bn_height t" using node_ok_height [OF assms(2)] by simp
  have ne: "chain_of t \<noteq> []" using length_chain_of [OF assms(2)] ht by auto
  have li: "length (chain_of t) - 1 = nat (bn_height t)" using length_chain_of [OF assms(2)] ht by linarith
  have "view_tip (chain_of t) = chain_of t ! nat (bn_height t)"
    using ne li by (simp add: view_tip_def last_conv_nth)
  then have "view_tip (chain_of t) = Some t" using chain_of_nth [of "bn_height t" t] ht by simp
  then show ?thesis using s N FindFork_ok [OF assms(2-4)]
    by (cases "FindFork (chain_of t) (Some n)") (auto simp: A assms(2,4) fork_of_def)
qed

theorem view_of_tip_witness:
  "\<exists>c. setTip (Some sample_node) (view_of None) = Inr c \<and> NodeByHeight c 0 = Some sample_root \<and> view_tip c = Some sample_node"
proof -
  have r: "node_ok sample_root" "bn_height sample_root = 0"
    by (simp_all add: sample_root_def node_ok_root_new) (simp add: newBlockNode_def)
  define p where "p = newBlockNode sample_header (Some sample_root)"
  have p: "node_ok p" "bn_height p = 1"
    using node_ok_new [of sample_root sample_header] r by (simp_all add: p_def newBlockNode_def Let_def i32_def)
  have n: "sample_node = newBlockNode sample_header (Some p)" by (simp add: sample_node_def p_def)
  have s: "node_ok sample_node" "bn_height sample_node = 2"
    using node_ok_new [of p sample_header] p by (simp_all add: n newBlockNode_def Let_def i32_def)
  have "Ancestor sample_node 0 = Some sample_root"
    using Ancestor_walk [OF s(1), of 0] s(2) p r
    by (simp add: n p_def walk.simps newBlockNode_def Let_def i32_def)
  then show ?thesis using view_of_tip [of None sample_node sample_root] s r by auto
qed

end
