(* ===== verification/Spec2Isabelle.thy ===== *)
theory Spec2Isabelle
  imports Settlement StakeReorg TxRules Merkle Threshold EngineSafe ChainView
begin

text \<open>
  Verification of the Falcon Draw node (\<^verbatim>\<open>src/\<close>), a Bitcoin node with an on-chain prize draw.

  \<^bold>\<open>The program.\<close> Transactions with a staking output (\<^verbatim>\<open>blockchain/poolstake.go\<close>) put tokens of a wallet into
  the pool of a draw. The staking index (\<^verbatim>\<open>blockchain/stakeindex.go\<close>) records stakes and pool balances by draw
  height when a block connects and takes them back when it disconnects. Some blocks after a draw height, a
  transaction of version 7 carries the output of the Sloth delay function (\<^verbatim>\<open>blockchain/vdf.go\<close>) on the hash of
  the draw block. The seed made of it selects a winner on a tape of tokens (\<^verbatim>\<open>blockchain/tape.go\<close>), and a
  settlement transaction in the same block mints the pool to the winner (\<^verbatim>\<open>blockchain/draw.go\<close>) or the pool
  rolls over to the next draw. All this is part of block validation, beside the rules of Bitcoin: encodings,
  proof of work, unspent outputs, scripts and signatures.

  \<^bold>\<open>Conventions.\<close> Go's integers are \<open>int\<close> with the wrap-around of their width written out (\<open>i32\<close>, \<open>u32\<close>, \<open>i64\<close>,
  \<open>u64\<close> of theory \<open>Prelude\<close>); bytes and script flags are words. A struct is a record, a pointer that can be nil an
  option. A function that fails gives \<open>failure + 'a\<close>, where \<open>failure\<close> has the rule errors, other errors and
  run-time panics; in the script engine it is \<open>vmError + 'a\<close>. Loops are recursion; a loop whose end has to
  be argued from more than its variables is a \<^verbatim>\<open>partial_function\<close>, and that it ends is a theorem. There is no
  fuel in the development. Maps of the run time whose order matters are parameters.

  \<^bold>\<open>Theories\<close>, with the files of \<^verbatim>\<open>src/\<close> they model.

  The draw.
  \<^item> \<open>Tape\<close> (\<^verbatim>\<open>blockchain/tape.go\<close>): winner selection. A draw equals a specification over an abstract tape with
    one entry for each token; over all positions a wallet wins as often as it has tokens; prizes and rollover
    are exactly the pool; the order of the stakes is irrelevant.
  \<^item> \<open>SlothVdf\<close> (\<^verbatim>\<open>blockchain/vdf.go\<close>): evaluation and verification of the delay function. What is
    evaluated verifies, for a prime modulus; what verifies is characterized exactly.
  \<^item> \<open>StakeScript\<close> (\<^verbatim>\<open>blockchain/stakescript.go\<close>, \<^verbatim>\<open>poolstake.go\<close>, \<^verbatim>\<open>winnerclaim.go\<close>): the scripts and markers
    of the draw, with their round trips, by the locale \<open>script_format\<close>.
  \<^item> \<open>Settlement\<close> (\<^verbatim>\<open>blockchain/draw.go\<close>): a settlement is accepted exactly when its outputs are those that
    the builder writes; a block with a VDF result settles its draw exactly once, or not at all when the pool
    is empty.
  \<^item> \<open>StakeIndex\<close>, \<open>StakeStore\<close>, \<open>DrawQueries\<close> (\<^verbatim>\<open>blockchain/stakeindex.go\<close>, \<^verbatim>\<open>drawqueries.go\<close>): the index over the
    buckets of \<open>Bucket\<close>, with the laws of its reads and writes (locales \<open>ordered_bucket\<close> and \<open>int_store\<close>).
  \<^item> \<open>PoolLedger\<close>: an abstract ledger of the pool, the simulation of it by the index, the conservation of
    the pool, and the agreement of the prize that validation computes with the balance of the index. These
    hold on the histories of \<open>pool_run\<close>: no block is disconnected, and draws with stakers settle in the
    order of their heights. The code does not demand that order, and \<open>settlement_order_matters\<close> shows that
    without it the two amounts differ.
  \<^item> \<open>StakeReorg\<close>: what reorganizations do to the index: the limit per wallet always holds, disconnection
    restores entries and balances of an ordinary stake, and two ways in which it does not.

  Encodings.
  \<^item> \<open>WireCodec\<close>, \<open>WireTx\<close> (\<^verbatim>\<open>wire/common.go\<close>, \<^verbatim>\<open>msgtx.go\<close>, \<^verbatim>\<open>blockheader.go\<close>, \<^verbatim>\<open>msgblock.go\<close>): round trip and
    canonicity of transactions and blocks, by the locale \<open>codec\<close>, and the limit on scripts in the decoder.
  \<^item> \<open>UtxoCodec\<close> (\<^verbatim>\<open>blockchain/compress.go\<close>, \<^verbatim>\<open>chainio.go\<close>): compressed outputs, the spend journal and the state
    records, with their round trips.
  \<^item> \<open>Sha256\<close>: the digest of the Go library, as a function.

  Unspent outputs and the chain.
  \<^item> \<open>Utxo\<close> (\<^verbatim>\<open>blockchain/utxoviewpoint.go\<close>): connecting a block refines the transition of a map of coins and
    journals the coins consumed, and disconnecting with the journal takes it back.
  \<^item> \<open>UtxoCache\<close> (\<^verbatim>\<open>blockchain/utxocache.go\<close>): the cache in front of the database refines the same map (locale
    \<open>entry_store\<close>), also across a flush.
  \<^item> \<open>WorkMath\<close>, \<open>BlockNode\<close>, \<open>Difficulty\<close> (\<^verbatim>\<open>blockchain/internal/workmath\<close>, \<^verbatim>\<open>blockindex.go\<close>, \<^verbatim>\<open>difficulty.go\<close>):
    compact targets, ancestors by skip pointers, the retarget rules and the bounds on their targets.
  \<^item> \<open>ChainView\<close> (\<^verbatim>\<open>blockchain/chainview.go\<close>): the array with the block of each height; setting the tip leaves
    exactly its ancestors, the fork point is the highest common block, and locators end.
  \<^item> \<open>Threshold\<close> (\<^verbatim>\<open>blockchain/thresholdstate.go\<close>, \<^verbatim>\<open>versionbits.go\<close>): votes on rule changes; the cached search
    over windows ends and gives the state machine over all windows.
  \<^item> \<open>Merkle\<close> (\<^verbatim>\<open>blockchain/merkle.go\<close>, \<^verbatim>\<open>rolling_merkle.go\<close>): the two computations of the root agree.
  \<^item> \<open>TxRules\<close> (\<^verbatim>\<open>blockchain/validate.go\<close>, \<^verbatim>\<open>weight.go\<close>): the rules for single transactions, and the value they
    keep: outputs and fee of an ordinary transaction are what it spends.

  Scripts.
  \<^item> \<open>Scripts\<close>, \<open>ScriptNum\<close>, \<open>ScriptBuild\<close> (\<^verbatim>\<open>txscript/tokenizer.go\<close>, \<^verbatim>\<open>script.go\<close>, \<^verbatim>\<open>standard.go\<close>, \<^verbatim>\<open>scriptnum.go\<close>,
    \<^verbatim>\<open>scriptbuilder.go\<close>): parsing, classifying, counting and writing scripts; the tokenizer equals a reference
    parser, and what the builder writes is read back.
  \<^item> \<open>Stack\<close>, \<open>SigHash\<close>, \<open>Btcec\<close>, \<open>Taproot\<close> (\<^verbatim>\<open>txscript/stack.go\<close>, \<^verbatim>\<open>sighash.go\<close>, \<^verbatim>\<open>hashcache.go\<close>, \<^verbatim>\<open>taproot.go\<close>, \<^verbatim>\<open>btcec\<close>):
    stacks, the digests that are signed and what they commit to, signatures and keys, script trees.
  \<^item> \<open>EngineOps\<close>, \<open>Engine\<close> (\<^verbatim>\<open>txscript/opcode.go\<close>, \<^verbatim>\<open>sigvalidate.go\<close>, \<^verbatim>\<open>sigcache.go\<close>, \<^verbatim>\<open>engine.go\<close>): the instructions, the
    signature checks and the execution of the scripts of an input.
  \<^item> \<open>EngineKeep\<close>, \<open>EngineSafe\<close>: what instructions keep, and the execution as a whole: it always returns,
    never panics, and every state it goes through is within the limits.

  \<^bold>\<open>Parameters.\<close> Code of other packages is an argument. The curve, deterministic nonces and ripemd160 are the record
  \<open>curve\<close>, with the group laws in \<open>curve_laws\<close>; the instance \<open>log_curve\<close>, the group of integers modulo the
  order, shows that they can hold. The size estimates of the cache of outputs and the entry that a full
  signature cache drops are functions. Databases do not fail. A hash is never assumed to be injective: where
  a statement needs it, it says that the two messages at hand do not collide.

  \<^bold>\<open>Not modelled.\<close> Networking, synchronization, remote procedure calls, the storage engine, the memory pool, mining,
  wallets and tools: they are input and output, concurrency or policy around the rules above. The functions that combine
  the rules for a whole block (\<^verbatim>\<open>checkBlockSanity\<close>, \<^verbatim>\<open>checkBlockContext\<close>, \<^verbatim>\<open>checkConnectBlock\<close> and
  \<^verbatim>\<open>validateVDFSettlement\<close> of \<^verbatim>\<open>blockchain/validate.go\<close>), the checkpoints and the concurrent validation of
  scripts (\<^verbatim>\<open>scriptval.go\<close>) are not modelled, only the rules they call; so no theorem speaks of a block accepted
  as a whole. Selecting the
  chain with the most work, with its locks and its notifications, is not modelled either. The texts of errors
  and logs are left out everywhere.
\<close>

end
